(* ===== verification/Prelude.thy ===== *)
theory Prelude
  imports Main "HOL-Library.Word"
begin

text \<open>
  The vocabulary shared by the component theories of the firmware: names for the C integer types,
  the fact collections the components add to, the loop combinator that stands for a C
  \<^verbatim>\<open>for (i = 0; i < n; i++)\<close> loop over a mutable state, and generic lemmas on lists, loops and words.

  C values are modelled at their width: \<^verbatim>\<open>uint8_t\<close> is \<open>8 word\<close> and so on, so that
  arithmetic wraps as it does in C. Array indices, sizes and loop counters are natural numbers.
\<close>

unbundle bit_operations_syntax

type_synonym u8 = "8 word"
type_synonym u16 = "16 word"
type_synonym u32 = "32 word"
type_synonym u64 = "64 word"

named_theorems fw_defs \<open>definitions unfolded by the component proofs\<close>
named_theorems wl_frames \<open>frame facts of the wear-leveling operations\<close>

section \<open>Loops\<close>

text \<open>\<open>for_upto n f s\<close> runs \<open>s = f(i, s)\<close> for \<open>i = 0, \<dots>, n - 1\<close>, in this order.\<close>

definition for_upto :: "nat \<Rightarrow> (nat \<Rightarrow> 's \<Rightarrow> 's) \<Rightarrow> 's \<Rightarrow> 's" where
  "for_upto n f s = fold f [0..<n] s"

lemma for_upto_0 [simp]: "for_upto 0 f s = s"
  by (simp add: for_upto_def)

lemma for_upto_Suc [simp]: "for_upto (Suc n) f s = f n (for_upto n f s)"
  by (simp add: for_upto_def)

lemma for_upto_numeral: "for_upto (numeral k) f s = f (pred_numeral k) (for_upto (pred_numeral k) f s)"
  by (simp add: numeral_eq_Suc)

text \<open>The loop rule: an invariant indexed by the number of iterations done.\<close>

lemma for_upto_invariant:
  assumes "P 0 s" and "\<And>i s. i < n \<Longrightarrow> P i s \<Longrightarrow> P (Suc i) (f i s)"
  shows "P n (for_upto n f s)"
proof -
  have "m \<le> n \<Longrightarrow> P m (for_upto m f s)" for m
    by (induction m) (auto simp: assms)
  then show ?thesis by simp
qed

lemma for_upto_cong:
  assumes "\<And>i s. i < n \<Longrightarrow> f i s = g i s"
  shows "for_upto n f s = for_upto n g s"
proof -
  have "m \<le> n \<Longrightarrow> for_upto m f s = for_upto m g s" for m
    by (induction m) (auto simp: assms)
  then show ?thesis by simp
qed

text \<open>The rule for loops that treat disjoint sets of cells: iteration \<open>i\<close> applies \<open>g\<close> to the cells in \<open>A i\<close>,
  which it meets as the loop found them,
  leaves the others alone, and raises flag \<open>x\<close> when some cell of \<open>A i\<close> satisfies \<open>h x\<close>.\<close>

lemma for_upto_cells:
  assumes step: "\<And>i t. i < n \<Longrightarrow> I t \<Longrightarrow> \<forall>j\<in>A i. view t j = view s j \<Longrightarrow> I (f i t) \<and>
      (\<forall>j\<in>K. view (f i t) j = (if j \<in> A i then g j (view t j) else view t j)) \<and>
      (\<forall>x. flag (f i t) x \<longleftrightarrow> flag t x \<or> (\<exists>j\<in>A i. h x j (view t j)))"
    and cells: "\<And>i. i < n \<Longrightarrow> A i \<subseteq> K"
    and disj: "\<And>i k. i < n \<Longrightarrow> k < n \<Longrightarrow> i \<noteq> k \<Longrightarrow> A i \<inter> A k = {}"
    and init: "I s"
  shows "I (for_upto n f s) \<and>
    (\<forall>j\<in>K. view (for_upto n f s) j = (if j \<in> (\<Union>i<n. A i) then g j (view s j) else view s j)) \<and>
    (\<forall>x. flag (for_upto n f s) x \<longleftrightarrow> flag s x \<or> (\<exists>j\<in>(\<Union>i<n. A i). h x j (view s j)))"
proof (rule for_upto_invariant [where P = "\<lambda>m t. I t \<and>
    (\<forall>j\<in>K. view t j = (if j \<in> (\<Union>i<m. A i) then g j (view s j) else view s j)) \<and>
    (\<forall>x. flag t x \<longleftrightarrow> flag s x \<or> (\<exists>j\<in>(\<Union>i<m. A i). h x j (view s j)))"], goal_cases)
  case 1
  with init show ?case by simp
next
  case (2 m t)
  have new: "j \<notin> (\<Union>i<m. A i)" if "j \<in> A m" for j
  proof
    assume "j \<in> (\<Union>i<m. A i)"
    then obtain i where "i < m" and "j \<in> A i"
      by auto
    with that disj [of m i] \<open>m < n\<close> show False
      by auto
  qed
  then have vm: "view t j = view s j" "j \<in> K" if "j \<in> A m" for j
    using that 2 cells [of m] by auto
  from 2 vm(1) have st: "I (f m t)"
      "\<And>j. j \<in> K \<Longrightarrow> view (f m t) j = (if j \<in> A m then g j (view t j) else view t j)"
      "\<And>x. flag (f m t) x \<longleftrightarrow> flag t x \<or> (\<exists>j\<in>A m. h x j (view t j))"
    using step [of m t] by simp_all
  have U: "(\<Union>i<Suc m. A i) = A m \<union> (\<Union>i<m. A i)"
    by (auto simp: less_Suc_eq)
  show ?case
    unfolding U using st new vm 2 by auto
qed

section \<open>Arrays as lists\<close>

lemma nth_list_update_if:
  "j < length xs \<Longrightarrow> xs[i := x] ! j = (if i = j then x else xs ! j)"
  by (simp add: nth_list_update)

text \<open>\<open>memcpy(&xs[a], ys, length ys)\<close>; the caller guarantees that the range lies inside the array.\<close>

definition memcpy_at :: "nat \<Rightarrow> 'a list \<Rightarrow> 'a list \<Rightarrow> 'a list" where
  "memcpy_at a ys xs = take a xs @ ys @ drop (a + length ys) xs"

text \<open>\<open>subarr a n xs\<close> are the \<open>n\<close> elements from index \<open>a\<close>.\<close>

definition subarr :: "nat \<Rightarrow> nat \<Rightarrow> 'a list \<Rightarrow> 'a list" where
  "subarr a n xs = take n (drop a xs)"

lemma length_memcpy_at [simp]:
  "a + length ys \<le> length xs \<Longrightarrow> length (memcpy_at a ys xs) = length xs"
  by (simp add: memcpy_at_def)

lemma memcpy_at_Nil [simp]: "memcpy_at a [] xs = xs"
  by (simp add: memcpy_at_def)

lemma length_subarr [simp]: "a + n \<le> length xs \<Longrightarrow> length (subarr a n xs) = n"
  by (simp add: subarr_def)

lemma nth_memcpy_at:
  assumes "a + length ys \<le> length xs" and "i < length xs"
  shows "memcpy_at a ys xs ! i = (if a \<le> i \<and> i < a + length ys then ys ! (i - a) else xs ! i)"
  using assms by (auto simp: memcpy_at_def nth_append)

lemma nth_subarr: "a + n \<le> length xs \<Longrightarrow> i < n \<Longrightarrow> subarr a n xs ! i = xs ! (a + i)"
  by (simp add: subarr_def)

lemma subarr_split: "subarr a (m + n) xs = subarr a m xs @ subarr (a + m) n xs"
  by (simp add: subarr_def take_add drop_drop add.commute)

lemma subarr_0 [simp]: "subarr 0 n xs = take n xs"
  by (simp add: subarr_def)

lemma subarr_memcpy_same:
  "a + length ys \<le> length xs \<Longrightarrow> subarr a (length ys) (memcpy_at a ys xs) = ys"
  by (rule nth_equalityI) (simp_all add: nth_subarr nth_memcpy_at)

lemma subarr_memcpy_disjoint:
  "a + length ys \<le> length xs \<Longrightarrow> b + n \<le> length xs \<Longrightarrow> b + n \<le> a \<or> a + length ys \<le> b \<Longrightarrow>
   subarr b n (memcpy_at a ys xs) = subarr b n xs"
  by (rule nth_equalityI) (auto simp: nth_subarr nth_memcpy_at)

lemma memcpy_at_subarr_id: "a + n \<le> length xs \<Longrightarrow> memcpy_at a (subarr a n xs) xs = xs"
  by (rule nth_equalityI) (auto simp: nth_subarr nth_memcpy_at)

lemma memcpy_at_append:
  assumes "a + length ys + length zs \<le> length xs"
  shows "memcpy_at (a + length ys) zs (memcpy_at a ys xs) = memcpy_at a (ys @ zs) xs"
  using assms by (intro nth_equalityI) (auto simp: nth_memcpy_at nth_append)

text \<open>A two-dimensional array stored row by row.\<close>

lemma cell_index_less:
  "r < rows \<Longrightarrow> c < cols \<Longrightarrow> r * cols + c < rows * (cols :: nat)"
  using mult_le_mono1 [of "Suc r" rows cols] by simp

lemma cell_index_inj:
  assumes "c < cols" and "c' < cols"
  shows "r * cols + c = r' * cols + (c' :: nat) \<longleftrightarrow> r = r' \<and> c = c'"
proof
  assume e: "r * cols + c = r' * cols + c'"
  have "(r * cols + c) div cols = (r' * cols + c') div cols"
    by (simp only: e)
  with assms have "r = r'"
    by simp
  with e show "r = r' \<and> c = c'"
    by simp
qed simp

section \<open>Words\<close>

lemma word_and_minus_one_less:
  fixes w :: "'a::len word"
  assumes "w \<noteq> 0"
  shows "unat (w AND (w - 1)) < unat w"
proof -
  have "w AND (w - 1) \<le> w - 1"
    by (rule word_and_le1)
  also have "w - 1 < w"
    using assms by (simp add: word_less_nat_alt unat_minus_one unat_gt_0)
  finally show ?thesis
    by (simp add: word_less_nat_alt)
qed

lemma unat_less_256 [simp]: "unat (x :: u8) < 256"
  using unsigned_less [of x] by simp

lemma unat_less_65536 [simp]: "unat (x :: u16) < 65536"
  using unsigned_less [of x] by simp

text \<open>Single-bit masks, \<open>1 << c\<close>; \<open>push_bit c 1\<close> simplifies to \<open>2 ^ c\<close>.\<close>

lemma bit_mask_word: "bit (2 ^ c :: 'a::len word) i \<longleftrightarrow> i = c \<and> c < LENGTH('a)"
  by (auto simp: bit_exp_iff)

lemma and_bit_mask_eq_0 [simp]: "w AND 2 ^ c = 0 \<longleftrightarrow> \<not> bit w c" for w :: "'a::len word"
  by (subst bit_eq_iff) (auto simp: bit_and_iff bit_mask_word dest: bit_imp_le_length)

lemma bit_flip_mask:
  "bit (w XOR 2 ^ c) i \<longleftrightarrow> (if i = c \<and> c < LENGTH('a) then \<not> bit w i else bit w i)" for w :: "'a::len word"
  by (auto simp: bit_xor_iff bit_mask_word)

lemma bit_merge_mask:
  "bit ((w AND NOT (2 ^ c)) OR (v AND 2 ^ c)) i \<longleftrightarrow> (if i = c then bit v i else bit w i)" for w :: "'a::len word"
  by (auto simp: bit_simps bit_mask_word dest: bit_imp_le_length)

lemma merge_mask_changes:
  "w XOR (w AND NOT (2 ^ c) OR v AND 2 ^ c) \<noteq> 0 \<longleftrightarrow> c < LENGTH('a) \<and> bit w c \<noteq> bit v c" for w v :: "'a::len word"
  by (subst bit_eq_iff) (auto simp: bit_xor_iff bit_merge_mask dest: bit_imp_le_length)

lemma word_xor_eq_0: "a XOR b = 0 \<longleftrightarrow> a = b" for a b :: "'a::len word"
  by (subst (1 2) bit_eq_iff) (auto simp: bit_xor_iff)

end
