(* ===== verification/Bitwise.thy ===== *)
theory Bitwise
  imports Prelude
begin

text \<open>
  \<^verbatim>\<open>quantum/bitwise.c\<close>: population count, highest set bit and bit reversal at 8, 16 and 32 bits.
  The lemmas relate each routine to a mathematical description of the bits of its argument.
\<close>

section \<open>The routines\<close>

text \<open>The loop \<^verbatim>\<open>for (c = 0; bits; c++) bits &= bits - 1;\<close> shared by the three widths.\<close>

function bitpop_loop :: "'a::len word \<Rightarrow> u8 \<Rightarrow> u8" where
  "bitpop_loop bits c = (if bits = 0 then c else bitpop_loop (bits AND (bits - 1)) (c + 1))"
  by pat_completeness auto
termination
  by (relation "measure (\<lambda>(bits, c). unat bits)") (auto simp: word_and_minus_one_less)

declare bitpop_loop.simps [simp del]

definition bitpop :: "u8 \<Rightarrow> u8" where
  "bitpop bits = bitpop_loop bits 0"

definition bitpop16 :: "u16 \<Rightarrow> u8" where
  "bitpop16 bits = bitpop_loop bits 0"

definition bitpop32 :: "u32 \<Rightarrow> u8" where
  "bitpop32 bits = bitpop_loop bits 0"

text \<open>One step \<^verbatim>\<open>if (bits >> k) { bits >>= k; n += k; }\<close> of the binary search.\<close>

definition biton_step :: "nat \<Rightarrow> 'a::len word \<times> u8 \<Rightarrow> 'a word \<times> u8" where
  "biton_step k = (\<lambda>(bits, n). if drop_bit k bits \<noteq> 0 then (drop_bit k bits, n + of_nat k) else (bits, n))"

definition biton :: "u8 \<Rightarrow> u8" where
  "biton bits = snd (biton_step 1 (biton_step 2 (biton_step 4 (bits, 0))))"

definition biton16 :: "u16 \<Rightarrow> u8" where
  "biton16 bits = snd (biton_step 1 (biton_step 2 (biton_step 4 (biton_step 8 (bits, 0)))))"

definition biton32 :: "u32 \<Rightarrow> u8" where
  "biton32 bits = snd (biton_step 1 (biton_step 2 (biton_step 4 (biton_step 8 (biton_step 16 (bits, 0))))))"

definition bitrev :: "u8 \<Rightarrow> u8" where
  "bitrev bits =
     (let bits = push_bit 4 (bits AND 0x0F) OR drop_bit 4 (bits AND 0xF0);
          bits = push_bit 2 (bits AND 0x33) OR drop_bit 2 (bits AND 0xCC)
      in push_bit 1 (bits AND 0x55) OR drop_bit 1 (bits AND 0xAA))"

definition bitrev16 :: "u16 \<Rightarrow> u16" where
  "bitrev16 bits =
     push_bit 8 (ucast (bitrev (ucast (bits AND 0x00FF)))) OR
     ucast (bitrev (ucast (drop_bit 8 (bits AND 0xFF00))))"

definition bitrev32 :: "u32 \<Rightarrow> u32" where
  "bitrev32 bits =
     push_bit 16 (ucast (bitrev16 (ucast (bits AND 0x0000FFFF)))) OR
     ucast (bitrev16 (ucast (drop_bit 16 (bits AND 0xFFFF0000))))"

section \<open>Population count\<close>

definition bits_of :: "'a::len word \<Rightarrow> nat set" where
  "bits_of w = {n. bit w n}"

lemma finite_bits_of [simp]: "finite (bits_of (w :: 'a::len word))"
proof (rule finite_subset)
  show "bits_of w \<subseteq> {..<LENGTH('a)}"
    by (auto simp: bits_of_def dest: bit_imp_le_length)
qed simp

lemma bits_of_eq_empty_iff [simp]: "bits_of w = {} \<longleftrightarrow> w = 0"
  by (auto simp: bits_of_def intro: bit_word_eqI)

text \<open>\<^verbatim>\<open>bits & (bits - 1)\<close> clears the lowest set bit and nothing else.\<close>

lemma bit_minus_one_iff:
  fixes w :: "'a::len word"
  assumes "bit w m" and "\<And>k. k < m \<Longrightarrow> \<not> bit w k"
  shows "bit (w - 1) n \<longleftrightarrow> (if n < m then True else if n = m then False else bit w n)"
proof -
  have len: "m < LENGTH('a)"
    using assms(1) by (rule bit_imp_le_length)
  define v where "v = w AND NOT (mask (Suc m))"
  have "w = v OR push_bit m 1"
  proof (rule bit_word_eqI)
    fix n assume "n < LENGTH('a)"
    then show "bit w n \<longleftrightarrow> bit (v OR push_bit m 1) n"
      using assms by (cases "n < m"; cases "n = m") (auto simp: v_def bit_simps)
  qed
  also have "v OR push_bit m 1 = v + push_bit m 1"
    by (rule disjunctive_add [symmetric]) (auto simp: v_def bit_simps)
  finally have "w - 1 = v + mask m"
    by (simp add: mask_eq_exp_minus_1 push_bit_eq_mult)
  also have "\<dots> = v OR mask m"
    by (rule disjunctive_add) (auto simp: v_def bit_simps)
  finally show ?thesis
    using len assms by (auto simp: v_def bit_simps dest: bit_imp_le_length)
qed

lemma bits_of_and_minus_one:
  assumes "w \<noteq> 0"
  shows "bits_of (w AND (w - 1)) = bits_of w - {Min (bits_of w)}"
proof -
  let ?m = "Min (bits_of w)"
  have m: "?m \<in> bits_of w"
    using assms by (intro Min_in) simp_all
  have low: "\<not> bit w k" if "k < ?m" for k
  proof
    assume "bit w k"
    then have "k \<in> bits_of w"
      by (simp add: bits_of_def)
    from Min_le [OF finite_bits_of this] that show False
      by simp
  qed
  from m have "bit w ?m"
    by (simp add: bits_of_def)
  then have "bit (w AND (w - 1)) n \<longleftrightarrow> bit w n \<and> n \<noteq> ?m" for n
    using low [of n] by (auto simp: bit_and_iff bit_minus_one_iff [OF _ low])
  then show ?thesis
    by (auto simp: bits_of_def)
qed

lemma bitpop_loop_card: "bitpop_loop w c = c + of_nat (card (bits_of w))"
proof (induction w c rule: bitpop_loop.induct)
  case (1 w c)
  show ?case
  proof (cases "w = 0")
    case True
    then show ?thesis by (simp add: bitpop_loop.simps bits_of_def)
  next
    case False
    have "Min (bits_of w) \<in> bits_of w"
      using False by (intro Min_in) simp_all
    then have "card (bits_of w) = Suc (card (bits_of (w AND (w - 1))))"
      by (metis False bits_of_and_minus_one card.remove finite_bits_of)
    with False "1.IH" show ?thesis
      by (simp add: bitpop_loop.simps [of w c] add.assoc)
  qed
qed

lemma card_bits_of_le: "card (bits_of (w :: 'a::len word)) \<le> LENGTH('a)"
proof -
  have "bits_of w \<subseteq> {..<LENGTH('a)}"
    by (auto simp: bits_of_def dest: bit_imp_le_length)
  from card_mono [OF _ this] show ?thesis by simp
qed

lemma unat_bitpop_loop:
  assumes "LENGTH('a) < 256"
  shows "unat (bitpop_loop (w :: 'a::len word) 0) = card (bits_of w)"
proof -
  have "card (bits_of w) < 256"
    using card_bits_of_le [of w] assms by simp
  then show ?thesis
    by (simp add: bitpop_loop_card unat_of_nat)
qed

text \<open>the three population counts return the number of set bits of their argument; the 8-bit
  counter never wraps.\<close>

theorem bitpop_counts_bits:
  "unat (bitpop x) = card (bits_of x) \<and> unat (bitpop16 y) = card (bits_of y) \<and>
   unat (bitpop32 z) = card (bits_of z)"
  by (simp add: bitpop_def bitpop16_def bitpop32_def unat_bitpop_loop)

section \<open>Highest set bit\<close>

text \<open>The invariant of the binary search: what was shifted out so far plus the highest set bit of
  what is left is the highest set bit of the argument.\<close>

definition highest :: "'a::len word \<Rightarrow> nat" where
  "highest w = (if w = 0 then 0 else Max (bits_of w))"

lemma highest_less: "highest (w :: 'a::len word) < LENGTH('a)"
proof (cases "w = 0")
  case False
  then have "Max (bits_of w) \<in> bits_of w"
    by (intro Max_in) simp_all
  then show ?thesis
    using False by (auto simp: highest_def bits_of_def dest: bit_imp_le_length)
qed (simp add: highest_def)

lemma highest_drop_bit:
  assumes "drop_bit k w \<noteq> 0"
  shows "highest w = k + highest (drop_bit k w)"
proof -
  let ?m = "Max (bits_of (drop_bit k w))"
  have w: "w \<noteq> 0"
    using assms by auto
  have "?m \<in> bits_of (drop_bit k w)"
    using assms by (intro Max_in) simp_all
  then have "k + ?m \<in> bits_of w"
    by (simp add: bits_of_def bit_drop_bit_eq)
  moreover have "n \<le> k + ?m" if "n \<in> bits_of w" for n
  proof (cases "k \<le> n")
    case True
    with that have "n - k \<in> bits_of (drop_bit k w)"
      by (simp add: bits_of_def bit_drop_bit_eq)
    from Max_ge [OF _ this] show ?thesis by simp
  qed simp
  ultimately have "Max (bits_of w) = k + ?m"
    by (intro Max_eqI) simp_all
  with w assms show ?thesis
    by (simp add: highest_def)
qed

lemma highest_drop_bit_0:
  assumes "drop_bit k w = 0" and "0 < k"
  shows "highest w < k"
proof (cases "w = 0")
  case False
  then have "Max (bits_of w) \<in> bits_of w"
    by (intro Max_in) simp_all
  then have "bit w (highest w)"
    using False by (simp add: highest_def bits_of_def)
  moreover have "\<not> bit w n" if "k \<le> n" for n
    using assms(1) that by (metis bit_0_eq bit_drop_bit_eq bot_apply bot_bool_def comp_apply le_add_diff_inverse)
  ultimately show ?thesis
    by (meson not_le)
qed (simp add: highest_def assms)

definition search_inv :: "'a::len word \<Rightarrow> nat \<Rightarrow> 'a word \<times> u8 \<Rightarrow> bool" where
  "search_inv w k s \<longleftrightarrow> highest w = unat (snd s) + highest (fst s) \<and> highest (fst s) < k"

lemma search_inv_step:
  assumes "search_inv w (2 * k) s" and "0 < k" and "highest w < 256"
  shows "search_inv w k (biton_step k s)"
proof -
  obtain bits n where s: "s = (bits, n)"
    by (cases s)
  show ?thesis
  proof (cases "drop_bit k bits = 0")
    case True
    then show ?thesis
      using assms highest_drop_bit_0 [OF True] by (simp add: s search_inv_def biton_step_def)
  next
    case False
    from highest_drop_bit [OF this] have h: "highest bits = k + highest (drop_bit k bits)" .
    have "unat n + k < 256"
      using assms h by (simp add: s search_inv_def)
    then have "unat (n + of_nat k) = unat n + k"
      by (simp add: unat_word_ariths unat_of_nat)
    with False h assms show ?thesis
      by (simp add: s search_inv_def biton_step_def)
  qed
qed

lemma search_inv_done: "search_inv w 1 s \<Longrightarrow> unat (snd s) = highest w"
  by (simp add: search_inv_def)

lemma search_inv_start: "LENGTH('a) \<le> k \<Longrightarrow> search_inv (w :: 'a::len word) k (w, 0)"
  using highest_less [of w] by (simp add: search_inv_def)

lemma search_inv_steps:
  assumes "highest w < 256"
  shows "search_inv w 32 s \<Longrightarrow> search_inv w 16 (biton_step 16 s)"
    and "search_inv w 16 s \<Longrightarrow> search_inv w 8 (biton_step 8 s)"
    and "search_inv w 8 s \<Longrightarrow> search_inv w 4 (biton_step 4 s)"
    and "search_inv w 4 s \<Longrightarrow> search_inv w 2 (biton_step 2 s)"
    and "search_inv w 2 s \<Longrightarrow> search_inv w 1 (biton_step 1 s)"
  using search_inv_step [of w 16 s] search_inv_step [of w 8 s] search_inv_step [of w 4 s]
    search_inv_step [of w 2 s] search_inv_step [of w 1 s] assms
  by simp_all

lemma biton_correct:
  "unat (biton x) = highest x \<and> unat (biton16 y) = highest y \<and> unat (biton32 z) = highest z"
proof -
  have "highest x < 256" "highest y < 256" "highest z < 256"
    using highest_less [of x] highest_less [of y] highest_less [of z] by simp_all
  note small = this
  have "search_inv x 1 (biton_step 1 (biton_step 2 (biton_step 4 (x, 0))))"
    by (intro search_inv_steps small search_inv_start) simp
  moreover have "search_inv y 1 (biton_step 1 (biton_step 2 (biton_step 4 (biton_step 8 (y, 0)))))"
    by (intro search_inv_steps small search_inv_start) simp
  moreover have "search_inv z 1
      (biton_step 1 (biton_step 2 (biton_step 4 (biton_step 8 (biton_step 16 (z, 0))))))"
    by (intro search_inv_steps small search_inv_start) simp
  ultimately show ?thesis
    by (simp add: biton_def biton16_def biton32_def search_inv_done del: One_nat_def)
qed

text \<open>\<open>biton\<close>, \<open>biton16\<close> and \<open>biton32\<close> return the position of the highest set bit, and 0 when no
  bit is set.\<close>

theorem biton_highest:
  "unat (biton x) = highest x \<and> unat (biton16 y) = highest y \<and> unat (biton32 z) = highest z"
  by (rule biton_correct)

section \<open>Bit reversal\<close>

lemma bit_bitrev: "n < 8 \<Longrightarrow> bit (bitrev w) n \<longleftrightarrow> bit w (7 - n)"
proof -
  assume "n < 8"
  then have "n \<in> {0, 1, 2, 3, 4, 5, 6, 7}"
    by auto
  then show ?thesis
    by (elim insertE emptyE; simp add: bitrev_def Let_def bit_simps del: push_bit_Suc)
qed

lemma low_byte_mask: "(0x00FF :: u16) = mask 8" "(0x0000FFFF :: u32) = mask 16"
  by (simp_all add: mask_eq_exp_minus_1)

lemma high_byte_mask: "(0xFF00 :: u16) = push_bit 8 (mask 8)" "(0xFFFF0000 :: u32) = push_bit 16 (mask 16)"
  by (simp_all add: mask_eq_exp_minus_1 push_bit_eq_mult)

lemma bitrev_reverse: "bitrev w = word_reverse w"
  by (rule bit_word_eqI) (simp add: bit_bitrev bit_word_reverse_iff)

text \<open>\<open>bitrev\<close>, \<open>bitrev16\<close> and \<open>bitrev32\<close> exchange bit \<open>n\<close> with bit \<open>width - 1 - n\<close>.\<close>

theorem bitrev_reverses:
  "bitrev x = word_reverse x \<and> bitrev16 y = word_reverse y \<and> bitrev32 z = word_reverse z"
proof -
  have r16: "bitrev16 y = word_reverse y" for y
  proof (rule bit_word_eqI)
    fix n assume "n < LENGTH(16)"
    then show "bit (bitrev16 y) n \<longleftrightarrow> bit (word_reverse y) n"
      by (cases "n < 8") (auto simp: bitrev16_def bitrev_reverse low_byte_mask high_byte_mask bit_simps)
  qed
  have "bitrev32 z = word_reverse z"
  proof (rule bit_word_eqI)
    fix n assume "n < LENGTH(32)"
    then show "bit (bitrev32 z) n \<longleftrightarrow> bit (word_reverse z) n"
      by (cases "n < 16") (auto simp: bitrev32_def r16 low_byte_mask high_byte_mask bit_simps)
  qed
  with r16 show ?thesis
    by (simp add: bitrev_reverse)
qed

end
