(* ===== verification/Debounce.thy ===== *)
theory Debounce
  imports Prelude
begin

text \<open>
  What the per-key debounce algorithms of \<^verbatim>\<open>quantum/debounce\<close> have in common. Each of them keeps, per key,
  a counter and the debounced (cooked) state; a call first lets the time since the last call run down
  the counters (\<open>expire\<close>), and then compares the raw matrix with the cooked one (\<open>transfer\<close>). To save
  work, the first step is skipped while no counter runs (\<open>active\<close>) and the second while neither the
  raw matrix changed nor a counter asked for it (\<open>wakes\<close>). The locale states this contract; its
  lemmas show that the shortcuts are invisible: over every sequence of scans, each key behaves as
  the automaton that performs both steps on every scan.
\<close>

section \<open>Time\<close>

text \<open>\<^verbatim>\<open>TIMER_DIFF_FAST\<close> with the cap at \<^verbatim>\<open>UINT8_MAX\<close> the callers apply.\<close>

definition TIMER_DIFF_FAST :: "u32 \<Rightarrow> u32 \<Rightarrow> u32" where
  "TIMER_DIFF_FAST a b = a - b"

definition elapsed8 :: "u32 \<Rightarrow> u32 \<Rightarrow> u8" where
  "elapsed8 now since = ucast (let elapsed_time = TIMER_DIFF_FAST now since
                              in if 255 < elapsed_time then 255 else elapsed_time)"

lemma unat_elapsed8: "unat (elapsed8 now since) = min 255 (unat (now - since))"
  by (auto simp: elapsed8_def TIMER_DIFF_FAST_def Let_def unsigned_ucast_eq take_bit_nat_def word_less_nat_alt min_def not_less mod_less)

section \<open>State\<close>

text \<open>The static variables the per-key algorithms share, and the flag two of them have in addition. A
  matrix is an array of rows (\<^verbatim>\<open>matrix_row_t\<close> is 32 bits wide for more than 16 columns); the key in row \<open>r\<close>
  and column \<open>c\<close> has the counter at index \<open>r * MATRIX_COLS + c\<close>, where the walking \<^verbatim>\<open>debounce_pointer\<close> of
  the loops stands.\<close>

type_synonym matrix = "u32 list"

record 'c debounce_state =
  debounce_counters :: "'c list"
  last_time :: u32
  counters_need_update :: bool
  cooked_changed :: bool

record 'c debounce_state_mnu = "'c debounce_state" +
  matrix_need_update :: bool

abbreviation matrix_keys :: "nat \<Rightarrow> nat \<Rightarrow> (nat \<times> nat) set" where
  "matrix_keys rows cols \<equiv> {..<rows} \<times> {..<cols}"

definition matrix_bit :: "matrix \<Rightarrow> nat \<times> nat \<Rightarrow> bool" where
  "matrix_bit m = (\<lambda>(r, c). bit (m ! r) c)"

text \<open>Counter and cooked state of a key.\<close>

definition key_at :: "nat \<Rightarrow> matrix \<times> ('c, 'z) debounce_state_scheme \<Rightarrow> nat \<times> nat \<Rightarrow> 'c \<times> bool" where
  "key_at cols = (\<lambda>(cooked, s) (r, c). (debounce_counters s ! (r * cols + c), bit (cooked ! r) c))"

lemma key_at_simp: "key_at cols (cooked, s) (r, c) = (debounce_counters s ! (r * cols + c), bit (cooked ! r) c)"
  by (simp add: key_at_def)

lemma matrix_keys_rows: "(\<Union>r<rows. {r} \<times> {..<cols}) = matrix_keys rows cols"
  by auto

lemma matrix_row_cells: "(\<Union>c<cols. {(r, c)}) = {r} \<times> {..<cols}"
  by auto

text \<open>The loop rule of \<^verbatim>\<open>Prelude\<close> for the walk over all keys, and for the walk over the keys of one row.\<close>

definition cell_step ::
  "'i set \<Rightarrow> ('s \<Rightarrow> bool) \<Rightarrow> ('s \<Rightarrow> 'i \<Rightarrow> 'k) \<Rightarrow> ('s \<Rightarrow> 'f \<Rightarrow> bool) \<Rightarrow>
   ('i \<Rightarrow> 'k \<Rightarrow> 'k) \<Rightarrow> ('f \<Rightarrow> 'i \<Rightarrow> 'k \<Rightarrow> bool) \<Rightarrow> 'i set \<Rightarrow> 's \<Rightarrow> 's \<Rightarrow> bool" where
  "cell_step K I view flag g h A s s' \<longleftrightarrow> I s' \<and>
     (\<forall>j\<in>K. view s' j = (if j \<in> A then g j (view s j) else view s j)) \<and>
     (\<forall>x. flag s' x \<longleftrightarrow> flag s x \<or> (\<exists>j\<in>A. h x j (view s j)))"

lemma row_cells:
  assumes "\<And>c t. c < cols \<Longrightarrow> I t \<Longrightarrow> view t (r, c) = view s (r, c) \<Longrightarrow>
      cell_step (matrix_keys rows cols) I view flag g h {(r, c)} t (f c t)" and "I s" and "r < rows"
  shows "cell_step (matrix_keys rows cols) I view flag g h ({r} \<times> {..<cols}) s (for_upto cols f s)"
  unfolding cell_step_def matrix_row_cells [symmetric]
  by (rule for_upto_cells) (use assms in \<open>auto simp: cell_step_def\<close>)

lemma matrix_cells:
  assumes "\<And>r s. r < rows \<Longrightarrow> I s \<Longrightarrow> cell_step (matrix_keys rows cols) I view flag g h ({r} \<times> {..<cols}) s (f r s)" and "I s"
  shows "cell_step (matrix_keys rows cols) I view flag g h (matrix_keys rows cols) s (for_upto rows f s)"
  unfolding cell_step_def matrix_keys_rows [symmetric]
  by (rule for_upto_cells) (use assms in \<open>auto simp: cell_step_def\<close>)

lemma unit_cells:
  assumes "\<And>r t. r < rows \<Longrightarrow> I t \<Longrightarrow> cell_step {..<rows} I view flag g h {r} t (f r t)" and "I s"
  shows "cell_step {..<rows} I view flag g h {..<rows} s (for_upto rows f s)"
proof -
  have "(\<Union>r<rows. {r}) = {..<rows}"
    by auto
  then show ?thesis
    unfolding cell_step_def
    using for_upto_cells [of rows I "\<lambda>r. {r}" view s f "{..<rows}" g flag h] assms
    by (simp add: cell_step_def)
qed

lemma cell_stepD:
  assumes "cell_step K I view flag g h K s s'"
  shows "I s'" and "j \<in> K \<Longrightarrow> view s' j = g j (view s j)"
    and "flag s' x \<longleftrightarrow> flag s x \<or> (\<exists>j\<in>K. h x j (view s j))"
  using assms by (auto simp: cell_step_def)

section \<open>Scans\<close>

text \<open>A sequence of matrix scans: the raw matrix and the time of each. The flag \<^verbatim>\<open>changed\<close> tells whether
  the raw matrix differs from that of the previous scan, as \<^verbatim>\<open>matrix_scan\<close> computes it.\<close>

fun scan_run :: "('m \<Rightarrow> bool \<Rightarrow> u32 \<Rightarrow> 's \<Rightarrow> bool \<times> 's) \<Rightarrow> 'm \<Rightarrow> ('m \<times> u32) list \<Rightarrow> 's \<Rightarrow> 's" where
  "scan_run call prev [] s = s"
| "scan_run call prev ((raw, now) # xs) s = scan_run call raw xs (snd (call raw (raw \<noteq> prev) now s))"

text \<open>The automaton of one key over the same sequence; \<open>t\<close> is the time of the previous scan.\<close>

fun key_run :: "(u8 \<Rightarrow> 'b \<Rightarrow> 'k \<Rightarrow> 'k) \<Rightarrow> u32 \<Rightarrow> ('b \<times> u32) list \<Rightarrow> 'k \<Rightarrow> 'k" where
  "key_run step t [] k = k"
| "key_run step t ((b, now) # xs) k = key_run step now xs (step (elapsed8 now t) b k)"

text \<open>The milliseconds that the calls see over a sequence of scans.\<close>

fun scan_time :: "u32 \<Rightarrow> ('m \<times> u32) list \<Rightarrow> nat" where
  "scan_time t [] = 0"
| "scan_time t ((raw, now) # xs) = unat (elapsed8 now t) + scan_time now xs"

lemma scan_time_map: "scan_time t (map (\<lambda>(raw, now). (f raw, now)) xs) = scan_time t xs"
  by (induction xs arbitrary: t) auto

definition scan_clock :: "u32 \<Rightarrow> ('m \<times> u32) list \<Rightarrow> u32" where
  "scan_clock t xs = (if xs = [] then t else snd (last xs))"

lemma scan_clock_simps [simp]:
  "scan_clock t [] = t" "scan_clock t ((raw, now) # xs) = scan_clock now xs"
  by (simp_all add: scan_clock_def)

lemma scan_clock_map [simp]: "scan_clock t (map (\<lambda>(raw, now). (f raw, now)) xs) = scan_clock t xs"
  by (auto simp: scan_clock_def last_map split: prod.splits)

lemma key_run_append:
  "key_run step t (xs @ ys) k = key_run step (scan_clock t xs) ys (key_run step t xs k)"
  by (induction xs arbitrary: t k) auto

section \<open>The contract\<close>

locale per_key_debounce =
  fixes keys :: "'i set" and key :: "'s \<Rightarrow> 'i \<Rightarrow> 'k" and rawbit :: "'m \<Rightarrow> 'i \<Rightarrow> 'b"
    and pressed_out :: "'k \<Rightarrow> 'b" and valid :: "'s \<Rightarrow> bool" and active :: "'s \<Rightarrow> bool" and stamp :: "'s \<Rightarrow> u32"
    and call :: "'m \<Rightarrow> bool \<Rightarrow> u32 \<Rightarrow> 's \<Rightarrow> bool \<times> 's"
    and expire :: "u8 \<Rightarrow> 'b \<Rightarrow> 'k \<Rightarrow> 'k" and wakes :: "u8 \<Rightarrow> 'k \<Rightarrow> bool" and transfer :: "'b \<Rightarrow> 'k \<Rightarrow> 'k"
    and idle :: "'k \<Rightarrow> bool" and settled :: "'b \<Rightarrow> 'k \<Rightarrow> bool"
  assumes call_valid: "valid s \<Longrightarrow> call raw ch now s = (r, s') \<Longrightarrow> valid s'"
    and call_key: "valid s \<Longrightarrow> call raw ch now s = (r, s') \<Longrightarrow> i \<in> keys \<Longrightarrow> e = elapsed8 now (stamp s) \<Longrightarrow>
      key s' i = (let k = (if active s then expire e (rawbit raw i) (key s i) else key s i)
                  in if ch \<or> active s \<and> (\<exists>j\<in>keys. wakes e (key s j)) then transfer (rawbit raw i) k else k)"
    and call_result: "valid s \<Longrightarrow> call raw ch now s = (r, s') \<Longrightarrow>
      r \<longleftrightarrow> (\<exists>i\<in>keys. pressed_out (key s' i) \<noteq> pressed_out (key s i))"
    and call_stamp: "valid s \<Longrightarrow> call raw ch now s = (r, s') \<Longrightarrow> active s' \<Longrightarrow> stamp s' = now"
    and idle_active: "valid s \<Longrightarrow> i \<in> keys \<Longrightarrow> \<not> idle (key s i) \<Longrightarrow> active s"
    and idle_law: "idle k \<Longrightarrow> expire e b k = k \<and> \<not> wakes e k"
    and transfer_law: "settled b (transfer b k)"
    and quiet_law: "settled b k \<Longrightarrow> \<not> wakes e k \<Longrightarrow> transfer b (expire e b k) = expire e b k"
begin

abbreviation step :: "u8 \<Rightarrow> 'b \<Rightarrow> 'k \<Rightarrow> 'k" where
  "step e b k \<equiv> transfer b (expire e b k)"

text \<open>One call, between calls at times \<open>t\<close> and \<open>now\<close>.\<close>

lemma call_step:
  assumes "valid s" and "active s \<longrightarrow> stamp s = t"
    and "\<forall>i\<in>keys. settled (rawbit prev i) (key s i)"
    and "call raw (raw \<noteq> prev) now s = (r, s')" and "i \<in> keys"
  shows "key s' i = step (elapsed8 now t) (rawbit raw i) (key s i)"
proof -
  let ?e = "elapsed8 now (stamp s)"
  let ?k = "if active s then expire ?e (rawbit raw i) (key s i) else key s i"
  let ?go = "raw \<noteq> prev \<or> active s \<and> (\<exists>j\<in>keys. wakes ?e (key s j))"
  have key': "key s' i = (if ?go then transfer (rawbit raw i) ?k else ?k)"
    using call_key [OF assms(1,4,5) refl] by (simp only: Let_def)
  have ex: "?k = expire (elapsed8 now t) (rawbit raw i) (key s i)"
    using assms(1,2,5) idle_active idle_law by (metis (full_types))
  show ?thesis
  proof (cases ?go)
    case True
    then show ?thesis
      using key' ex by simp
  next
    case False
    then have "\<not> wakes (elapsed8 now t) (key s i)"
      using assms(1,2,5) idle_active idle_law by metis
    moreover have "settled (rawbit raw i) (key s i)"
      using False assms(3,5) by auto
    ultimately have "?k = transfer (rawbit raw i) ?k"
      unfolding ex by (simp add: quiet_law)
    moreover have "key s' i = ?k"
      using key' by (simp only: if_not_P [OF False])
    ultimately show ?thesis
      unfolding ex by simp
  qed
qed

theorem run_refines:
  assumes "valid s" and "active s \<longrightarrow> stamp s = t" and "\<forall>i\<in>keys. settled (rawbit prev i) (key s i)" and "i \<in> keys"
  shows "key (scan_run call prev xs s) i =
    key_run step t (map (\<lambda>(raw, now). (rawbit raw i, now)) xs) (key s i)"
  using assms(1-3)
proof (induction xs arbitrary: prev t s)
  case (Cons x xs)
  obtain raw now where x: "x = (raw, now)"
    by fastforce
  obtain r s' where c: "call raw (raw \<noteq> prev) now s = (r, s')"
    by fastforce
  note st = call_step [OF Cons.prems c]
  have "key (scan_run call raw xs s') i = key_run step now (map (\<lambda>(raw, now). (rawbit raw i, now)) xs) (key s' i)"
  proof (rule Cons.IH)
    show "valid s'"
      using Cons.prems(1) c by (rule call_valid)
    show "active s' \<longrightarrow> stamp s' = now"
      using call_stamp [OF Cons.prems(1) c] by simp
    show "\<forall>i\<in>keys. settled (rawbit raw i) (key s' i)"
      using st transfer_law by simp
  qed
  then show ?case
    using st [OF assms(4)] by (simp add: x c)
qed simp

end

section \<open>Calls made of two loops\<close>

text \<open>The body of \<^verbatim>\<open>debounce\<close> over the loop \<open>update\<close> that runs the counters down and the loop \<open>apply_raw\<close> that
  compares the matrices; \<open>cnu\<close>, \<open>mnu\<close> and \<open>chg\<close> read the flags \<^verbatim>\<open>counters_need_update\<close>, \<^verbatim>\<open>matrix_need_update\<close>
  and \<^verbatim>\<open>cooked_changed\<close>.\<close>

definition phases_call ::
  "('s \<Rightarrow> bool) \<Rightarrow> ('s \<Rightarrow> bool) \<Rightarrow> ('s \<Rightarrow> bool) \<Rightarrow> ('s \<Rightarrow> u32) \<Rightarrow> (u32 \<Rightarrow> 's \<Rightarrow> 's) \<Rightarrow> ('s \<Rightarrow> 's) \<Rightarrow>
   ('m \<Rightarrow> u8 \<Rightarrow> 's \<Rightarrow> 's) \<Rightarrow> ('m \<Rightarrow> 's \<Rightarrow> 's) \<Rightarrow> 'm \<Rightarrow> bool \<Rightarrow> u32 \<Rightarrow> 's \<Rightarrow> bool \<times> 's" where
  "phases_call cnu mnu chg stamp set_stamp clear update apply_raw raw ch now s =
     (let s0 = clear s; e = elapsed8 now (stamp s0);
          s1 = (if cnu s0 then if 0 < e then update raw e (set_stamp now s0) else set_stamp now s0 else s0);
          s2 = (if ch \<or> mnu s1 then apply_raw raw (if cnu s0 then s1 else set_stamp now s1) else s1)
      in (chg s2, s2))"

locale debounce_phases =
  fixes keys :: "'i set" and key :: "'s \<Rightarrow> 'i \<Rightarrow> 'k" and rawbit :: "'m \<Rightarrow> 'i \<Rightarrow> 'b"
    and pressed_out :: "'k \<Rightarrow> 'b" and sizes :: "'s \<Rightarrow> bool"
    and cnu :: "'s \<Rightarrow> bool" and mnu :: "'s \<Rightarrow> bool" and chg :: "'s \<Rightarrow> bool" and stamp :: "'s \<Rightarrow> u32"
    and set_stamp :: "u32 \<Rightarrow> 's \<Rightarrow> 's" and clear :: "'s \<Rightarrow> 's"
    and update :: "'m \<Rightarrow> u8 \<Rightarrow> 's \<Rightarrow> 's" and apply_raw :: "'m \<Rightarrow> 's \<Rightarrow> 's"
    and expire :: "u8 \<Rightarrow> 'b \<Rightarrow> 'k \<Rightarrow> 'k" and wakes :: "u8 \<Rightarrow> 'k \<Rightarrow> bool" and transfer :: "'b \<Rightarrow> 'k \<Rightarrow> 'k"
    and idle :: "'k \<Rightarrow> bool" and settled :: "'b \<Rightarrow> 'k \<Rightarrow> bool"
  assumes set_stamp_law: "sizes (set_stamp t s) = sizes s" "key (set_stamp t s) = key s" "cnu (set_stamp t s) = cnu s"
      "mnu (set_stamp t s) = mnu s" "chg (set_stamp t s) = chg s" "stamp (set_stamp t s) = t"
    and clear_law: "sizes (clear s) = sizes s" "key (clear s) = key s" "cnu (clear s) = cnu s"
      "mnu (clear s) = mnu s" "\<not> chg (clear s)" "stamp (clear s) = stamp s"
    and update_frame: "sizes s \<Longrightarrow> sizes (update raw e s) \<and> stamp (update raw e s) = stamp s"
    and update_key: "sizes s \<Longrightarrow> i \<in> keys \<Longrightarrow> key (update raw e s) i = expire e (rawbit raw i) (key s i)"
    and update_cnu: "sizes s \<Longrightarrow> i \<in> keys \<Longrightarrow> \<not> idle (key (update raw e s) i) \<Longrightarrow> cnu (update raw e s)"
    and update_mnu: "sizes s \<Longrightarrow> mnu (update raw e s) \<longleftrightarrow> (\<exists>j\<in>keys. wakes e (key s j))"
    and update_chg: "sizes s \<Longrightarrow> chg (update raw e s) \<longleftrightarrow>
      chg s \<or> (\<exists>j\<in>keys. pressed_out (expire e (rawbit raw j) (key s j)) \<noteq> pressed_out (key s j))"
    and apply_frame: "sizes s \<Longrightarrow> sizes (apply_raw raw s) \<and> stamp (apply_raw raw s) = stamp s \<and> \<not> mnu (apply_raw raw s)"
    and apply_key: "sizes s \<Longrightarrow> i \<in> keys \<Longrightarrow> key (apply_raw raw s) i = transfer (rawbit raw i) (key s i)"
    and apply_cnu: "sizes s \<Longrightarrow> i \<in> keys \<Longrightarrow> \<not> idle (key (apply_raw raw s) i) \<Longrightarrow> cnu s \<or> idle (key s i) \<Longrightarrow> cnu (apply_raw raw s)"
    and apply_chg: "sizes s \<Longrightarrow> chg (apply_raw raw s) \<longleftrightarrow>
      chg s \<or> (\<exists>j\<in>keys. pressed_out (transfer (rawbit raw j) (key s j)) \<noteq> pressed_out (key s j))"
    and idle_key: "idle k \<Longrightarrow> expire e b k = k \<and> \<not> wakes e k"
    and expire_0: "expire 0 b k = k \<and> \<not> wakes 0 k"
    and transfer_settled: "settled b (transfer b k)"
    and quiet_key: "settled b k \<Longrightarrow> \<not> wakes e k \<Longrightarrow> transfer b (expire e b k) = expire e b k"
    and flip_once: "pressed_out (expire e b k) \<noteq> pressed_out k \<Longrightarrow> pressed_out (transfer b (expire e b k)) = pressed_out (expire e b k)"
begin

abbreviation ready :: "'s \<Rightarrow> bool" where
  "ready s \<equiv> sizes s \<and> \<not> mnu s \<and> (\<forall>i\<in>keys. \<not> idle (key s i) \<longrightarrow> cnu s)"

abbreviation call :: "'m \<Rightarrow> bool \<Rightarrow> u32 \<Rightarrow> 's \<Rightarrow> bool \<times> 's" where
  "call \<equiv> phases_call cnu mnu chg stamp set_stamp clear update apply_raw"

text \<open>The state after the first loop.\<close>

definition tick :: "'m \<Rightarrow> u32 \<Rightarrow> 's \<Rightarrow> 's" where
  "tick raw now s =
     (if cnu s then
        if 0 < elapsed8 now (stamp s) then update raw (elapsed8 now (stamp s)) (set_stamp now (clear s))
        else set_stamp now (clear s)
      else clear s)"

lemma call_tick:
  "call raw ch now s =
    (let s1 = tick raw now s;
         s2 = (if ch \<or> mnu s1 then apply_raw raw (if cnu s then s1 else set_stamp now s1) else s1)
     in (chg s2, s2))"
  by (simp add: phases_call_def tick_def clear_law Let_def)

lemma tick_spec:
  assumes "ready s" and "s1 = tick raw now s" and "e = elapsed8 now (stamp s)"
  shows "sizes s1" and "stamp s1 = (if cnu s then now else stamp s)"
    and "i \<in> keys \<Longrightarrow> key s1 i = (if cnu s then expire e (rawbit raw i) (key s i) else key s i)"
    and "mnu s1 \<longleftrightarrow> cnu s \<and> (\<exists>j\<in>keys. wakes e (key s j))"
    and "i \<in> keys \<Longrightarrow> \<not> idle (key s1 i) \<Longrightarrow> cnu s1"
    and "chg s1 \<longleftrightarrow> (\<exists>j\<in>keys. pressed_out (key s1 j) \<noteq> pressed_out (key s j))"
proof -
  note z = word_gt_0
  show key1: "key s1 i = (if cnu s then expire e (rawbit raw i) (key s i) else key s i)" if "i \<in> keys" for i
    using assms that by (auto simp: tick_def set_stamp_law clear_law update_key expire_0 z)
  show "sizes s1" "stamp s1 = (if cnu s then now else stamp s)"
    "mnu s1 \<longleftrightarrow> cnu s \<and> (\<exists>j\<in>keys. wakes e (key s j))"
    using assms by (auto simp: tick_def set_stamp_law clear_law update_frame update_mnu expire_0 z)
  show "cnu s1" if "i \<in> keys" "\<not> idle (key s1 i)"
    using assms that by (auto simp: tick_def set_stamp_law clear_law intro: update_cnu split: if_splits)
  have "chg s1 \<longleftrightarrow> cnu s \<and> (\<exists>j\<in>keys. pressed_out (expire e (rawbit raw j) (key s j)) \<noteq> pressed_out (key s j))"
    using assms by (auto simp: tick_def set_stamp_law clear_law update_chg expire_0 z)
  then show "chg s1 \<longleftrightarrow> (\<exists>j\<in>keys. pressed_out (key s1 j) \<noteq> pressed_out (key s j))"
    using key1 by auto
qed

lemma call_phases:
  assumes r: "ready s" and c: "call raw ch now s = (r, s')" and e: "e = elapsed8 now (stamp s)"
  shows "ready s'"
    and "i \<in> keys \<Longrightarrow> key s' i =
      (let k = (if cnu s then expire e (rawbit raw i) (key s i) else key s i)
       in if ch \<or> cnu s \<and> (\<exists>j\<in>keys. wakes e (key s j)) then transfer (rawbit raw i) k else k)"
    and "r \<longleftrightarrow> (\<exists>i\<in>keys. pressed_out (key s' i) \<noteq> pressed_out (key s i))"
    and "cnu s' \<Longrightarrow> stamp s' = now"
proof -
  define s1 where "s1 = tick raw now s"
  define s2 where "s2 = (if cnu s then s1 else set_stamp now s1)"
  define go where "go \<longleftrightarrow> ch \<or> mnu s1"
  note t = tick_spec [OF r s1_def e]
  have s2: "sizes s2" "key s2 = key s1" "stamp s2 = now" "chg s2 = chg s1" "cnu s2 = cnu s1"
    using t(1,2) by (simp_all add: s2_def set_stamp_law)
  have res: "r = chg s'" "s' = (if go then apply_raw raw s2 else s1)"
    using c by (auto simp: call_tick Let_def s1_def [symmetric] s2_def [symmetric] go_def [symmetric])
  have key': "key s' i = (if go then transfer (rawbit raw i) (key s1 i) else key s1 i)" if "i \<in> keys" for i
    using res(2) s2 apply_key that by simp
  show "key s' i =
      (let k = (if cnu s then expire e (rawbit raw i) (key s i) else key s i)
       in if ch \<or> cnu s \<and> (\<exists>j\<in>keys. wakes e (key s j)) then transfer (rawbit raw i) k else k)" if "i \<in> keys"
    using key' [OF that] t(3) [OF that] by (simp add: go_def t(4))
  show "ready s'"
  proof (cases go)
    case True
    then have s': "s' = apply_raw raw s2"
      using res(2) by simp
    have "cnu s'" if "i \<in> keys" and "\<not> idle (key s' i)" for i
      using that s2(2,5) t(5) [OF that(1)] unfolding s' by (intro apply_cnu [OF s2(1)]) auto
    with apply_frame [OF s2(1)] show ?thesis
      by (simp add: s')
  next
    case False
    with res(2) t(1,5) show ?thesis
      by (auto simp: go_def)
  qed
  show "cnu s' \<Longrightarrow> stamp s' = now"
    using res(2) s2 t(2) apply_frame [OF s2(1)]
    by (cases "cnu s") (auto simp: s1_def tick_def clear_law split: if_splits)
  have settles: "pressed_out (transfer (rawbit raw i) (key s1 i)) = pressed_out (key s1 i)"
    if "i \<in> keys" and "pressed_out (key s1 i) \<noteq> pressed_out (key s i)" for i
    using t(3) [OF that(1)] that(2) flip_once by (auto split: if_splits)
  show "r \<longleftrightarrow> (\<exists>i\<in>keys. pressed_out (key s' i) \<noteq> pressed_out (key s i))"
  proof (cases go)
    case True
    then have "r \<longleftrightarrow> (\<exists>i\<in>keys. pressed_out (key s1 i) \<noteq> pressed_out (key s i) \<or>
        pressed_out (transfer (rawbit raw i) (key s1 i)) \<noteq> pressed_out (key s1 i))"
      using res s2 t(6) by (auto simp: apply_chg)
    also have "\<dots> \<longleftrightarrow> (\<exists>i\<in>keys. pressed_out (transfer (rawbit raw i) (key s1 i)) \<noteq> pressed_out (key s i))"
      using settles by metis
    finally show ?thesis
      using key' True by simp
  next
    case False
    with res t(6) show ?thesis
      by simp
  qed
qed

end

sublocale debounce_phases \<subseteq> per_key_debounce keys key rawbit pressed_out ready cnu stamp call expire wakes transfer idle settled
proof (unfold_locales, goal_cases)
  case 1 then show ?case using call_phases(1) by blast
next
  case 2 then show ?case using call_phases(2) by blast
next
  case 3 then show ?case using call_phases(3) by blast
next
  case 4 then show ?case using call_phases(4) by blast
next
  case 5 then show ?case by blast
qed (simp_all add: idle_key transfer_settled quiet_key)

context debounce_phases
begin

theorem phases_run:
  assumes "ready s" and "cnu s \<longrightarrow> stamp s = t" and "\<forall>i\<in>keys. settled (rawbit prev i) (key s i)" and "i \<in> keys"
  shows "key (scan_run call prev xs s) i =
    key_run (\<lambda>e b k. transfer b (expire e b k)) t (map (\<lambda>(raw, now). (rawbit raw i, now)) xs) (key s i)"
  using assms by (rule run_refines)

end

end
