(* ===== verification/Debounce_Sym_Eager_Pk.thy ===== *)
theory Debounce_Sym_Eager_Pk
  imports Debounce
begin

text \<open>
  \<^verbatim>\<open>quantum/debounce/sym_eager_pk.c\<close>: a key changes at once and is then deaf for \<^verbatim>\<open>g_debounce\<close> milliseconds.
  This is the algorithm the Q3 Max is built with (\<^verbatim>\<open>DEBOUNCE\<close> 20). \<open>cols\<close> is \<^verbatim>\<open>MATRIX_COLS\<close>, at most 32; \<open>now\<close> is
  the result of the single \<^verbatim>\<open>timer_read_fast()\<close> a call performs.
\<close>

section \<open>Model\<close>

record sym_eager_pk_state = "u8 debounce_state_mnu" +
  g_debounce :: u8

definition debounce_init_eager :: "nat \<Rightarrow> nat \<Rightarrow> sym_eager_pk_state \<Rightarrow> sym_eager_pk_state" where
  "debounce_init_eager cols num_rows s = s\<lparr>debounce_counters := replicate (num_rows * cols) 0\<rparr>"

definition update_counter_eager :: "u8 \<Rightarrow> nat \<Rightarrow> sym_eager_pk_state \<Rightarrow> sym_eager_pk_state" where
  "update_counter_eager elapsed_time p s =
     (if debounce_counters s ! p \<noteq> 0 then
        if debounce_counters s ! p \<le> elapsed_time
        then s\<lparr>debounce_counters := (debounce_counters s)[p := 0], matrix_need_update := True\<rparr>
        else s\<lparr>debounce_counters := (debounce_counters s)[p := debounce_counters s ! p - elapsed_time],
               counters_need_update := True\<rparr>
      else s)"

definition update_debounce_counters_eager :: "nat \<Rightarrow> nat \<Rightarrow> u8 \<Rightarrow> sym_eager_pk_state \<Rightarrow> sym_eager_pk_state" where
  "update_debounce_counters_eager cols num_rows elapsed_time s =
     for_upto num_rows (\<lambda>row. for_upto cols (\<lambda>col. update_counter_eager elapsed_time (row * cols + col)))
       (s\<lparr>counters_need_update := False, matrix_need_update := False\<rparr>)"

definition transfer_cell_eager :: "u32 \<Rightarrow> nat \<Rightarrow> nat \<Rightarrow> u32 \<times> sym_eager_pk_state \<Rightarrow> u32 \<times> sym_eager_pk_state" where
  "transfer_cell_eager delta p col = (\<lambda>(existing_row, s).
     let col_mask = push_bit col 1
     in if delta AND col_mask \<noteq> 0 then
          if debounce_counters s ! p = 0
          then (existing_row XOR col_mask,
                s\<lparr>debounce_counters := (debounce_counters s)[p := g_debounce s], counters_need_update := True,
                  cooked_changed := True\<rparr>)
          else (existing_row, s)
        else (existing_row, s))"

definition transfer_row_eager :: "nat \<Rightarrow> matrix \<Rightarrow> nat \<Rightarrow> matrix \<times> sym_eager_pk_state \<Rightarrow> matrix \<times> sym_eager_pk_state" where
  "transfer_row_eager cols raw row = (\<lambda>(cooked, s).
     let delta = raw ! row XOR cooked ! row;
         (existing_row, s) = for_upto cols (\<lambda>col. transfer_cell_eager delta (row * cols + col) col) (cooked ! row, s)
     in (cooked[row := existing_row], s))"

definition transfer_matrix_values_eager ::
  "nat \<Rightarrow> matrix \<Rightarrow> nat \<Rightarrow> matrix \<times> sym_eager_pk_state \<Rightarrow> matrix \<times> sym_eager_pk_state" where
  "transfer_matrix_values_eager cols raw num_rows = (\<lambda>(cooked, s).
     for_upto num_rows (transfer_row_eager cols raw) (cooked, s\<lparr>matrix_need_update := False\<rparr>))"

definition debounce_eager ::
  "nat \<Rightarrow> nat \<Rightarrow> matrix \<Rightarrow> bool \<Rightarrow> u32 \<Rightarrow> matrix \<times> sym_eager_pk_state \<Rightarrow> bool \<times> matrix \<times> sym_eager_pk_state" where
  "debounce_eager cols num_rows raw changed now = (\<lambda>(cooked, s).
     let s = s\<lparr>cooked_changed := False\<rparr>;
         updated_last = counters_need_update s;
         s = (if counters_need_update s then
                let elapsed_time = elapsed8 now (last_time s); s = s\<lparr>last_time := now\<rparr>
                in if 0 < elapsed_time then update_debounce_counters_eager cols num_rows elapsed_time s else s
              else s);
         (cooked, s) =
           (if changed \<or> matrix_need_update s then
              let s = (if \<not> updated_last then s\<lparr>last_time := now\<rparr> else s)
              in transfer_matrix_values_eager cols raw num_rows (cooked, s)
            else (cooked, s))
     in (cooked_changed s, cooked, s))"

section \<open>The automaton of one key\<close>

definition eager_expire :: "u8 \<Rightarrow> 'b \<Rightarrow> u8 \<times> 'b \<Rightarrow> u8 \<times> 'b" where
  "eager_expire e b = (\<lambda>(n, p). (if n \<le> e then 0 else n - e, p))"

definition eager_wakes :: "u8 \<Rightarrow> u8 \<times> 'b \<Rightarrow> bool" where
  "eager_wakes e k \<longleftrightarrow> fst k \<noteq> 0 \<and> fst k \<le> e"

definition eager_transfer :: "u8 \<Rightarrow> 'b \<Rightarrow> u8 \<times> 'b \<Rightarrow> u8 \<times> 'b" where
  "eager_transfer g b = (\<lambda>(n, p). if b \<noteq> p \<and> n = 0 then (g, b) else (n, p))"

abbreviation eager_idle :: "u8 \<times> 'b \<Rightarrow> bool" where
  "eager_idle k \<equiv> fst k = 0"

definition eager_settled :: "'b \<Rightarrow> u8 \<times> 'b \<Rightarrow> bool" where
  "eager_settled b = (\<lambda>(n, p). b \<noteq> p \<longrightarrow> n \<noteq> 0)"

section \<open>The loops, key by key\<close>

text \<open>What the two loops leave alone, and the sizes of the arrays.\<close>

definition eager_frame :: "nat \<Rightarrow> nat \<Rightarrow> matrix \<times> sym_eager_pk_state \<Rightarrow> matrix \<times> sym_eager_pk_state \<Rightarrow> bool" where
  "eager_frame cols rows = (\<lambda>(cooked, s) (cooked', s').
     length cooked' = rows \<and> length (debounce_counters s') = rows * cols \<and>
     last_time s' = last_time s \<and> g_debounce s' = g_debounce s)"

text \<open>The flags of the state: \<open>0\<close> counters, \<open>1\<close> matrix, \<open>2\<close> cooked.\<close>

definition eager_flag :: "matrix \<times> sym_eager_pk_state \<Rightarrow> nat \<Rightarrow> bool" where
  "eager_flag = (\<lambda>(cooked, s) x. if x = 0 then counters_need_update s else if x = 1 then matrix_need_update s else cooked_changed s)"

definition eager_update_flag :: "u8 \<Rightarrow> nat \<Rightarrow> nat \<times> nat \<Rightarrow> u8 \<times> bool \<Rightarrow> bool" where
  "eager_update_flag e x j k \<longleftrightarrow> (x = 0 \<and> e < fst k) \<or> (x = 1 \<and> fst k \<noteq> 0 \<and> fst k \<le> e)"

lemma update_counter_eager_cell:
  assumes "row < rows" and "col < cols" and "eager_frame cols rows t (cooked, s)"
  shows "cell_step (matrix_keys rows cols) (\<lambda>s. eager_frame cols rows t (cooked, s)) (\<lambda>s. key_at cols (cooked, s))
    (\<lambda>s. eager_flag (cooked, s)) (\<lambda>j. eager_expire e b) (eager_update_flag e) {(row, col)} s
    (update_counter_eager e (row * cols + col) s)"
  using assms cell_index_less [of row rows col cols]
  by (auto simp: cell_step_def eager_frame_def update_counter_eager_def key_at_def eager_expire_def eager_flag_def
      eager_update_flag_def nth_list_update cell_index_inj split: prod.splits)

lemma update_debounce_counters_eager_spec:
  assumes "eager_frame cols rows t (cooked, s)" and "s' = update_debounce_counters_eager cols rows e s"
  shows "eager_frame cols rows t (cooked, s')"
    and "j \<in> matrix_keys rows cols \<Longrightarrow> key_at cols (cooked, s') j = eager_expire e b (key_at cols (cooked, s) j)"
    and "counters_need_update s' \<longleftrightarrow> (\<exists>j\<in>matrix_keys rows cols. e < fst (key_at cols (cooked, s) j))"
    and "matrix_need_update s' \<longleftrightarrow>
      (\<exists>j\<in>matrix_keys rows cols. fst (key_at cols (cooked, s) j) \<noteq> 0 \<and> fst (key_at cols (cooked, s) j) \<le> e)"
    and "cooked_changed s' = cooked_changed s"
proof -
  have "cell_step (matrix_keys rows cols) (\<lambda>s. eager_frame cols rows t (cooked, s)) (\<lambda>s. key_at cols (cooked, s))
    (\<lambda>s. eager_flag (cooked, s)) (\<lambda>j. eager_expire e b) (eager_update_flag e) (matrix_keys rows cols)
    (s\<lparr>counters_need_update := False, matrix_need_update := False\<rparr>) s'"
    unfolding assms(2) update_debounce_counters_eager_def
    by (intro matrix_cells row_cells update_counter_eager_cell) (use assms(1) in \<open>auto simp: eager_frame_def\<close>)
  note c = cell_stepD [OF this]
  show "eager_frame cols rows t (cooked, s')"
    by (rule c)
  show "j \<in> matrix_keys rows cols \<Longrightarrow> key_at cols (cooked, s') j = eager_expire e b (key_at cols (cooked, s) j)"
    using c(2) by (auto simp: key_at_def)
  show "counters_need_update s' \<longleftrightarrow> (\<exists>j\<in>matrix_keys rows cols. e < fst (key_at cols (cooked, s) j))"
    using c(3) [of 0] by (auto simp: key_at_def eager_flag_def eager_update_flag_def)
  show "matrix_need_update s' \<longleftrightarrow>
      (\<exists>j\<in>matrix_keys rows cols. fst (key_at cols (cooked, s) j) \<noteq> 0 \<and> fst (key_at cols (cooked, s) j) \<le> e)"
    using c(3) [of 1] by (auto simp: key_at_def eager_flag_def eager_update_flag_def)
  show "cooked_changed s' = cooked_changed s"
    using c(3) [of 2] by (auto simp: eager_flag_def eager_update_flag_def)
qed

definition eager_transfer_flag :: "matrix \<Rightarrow> nat \<Rightarrow> nat \<times> nat \<Rightarrow> u8 \<times> bool \<Rightarrow> bool" where
  "eager_transfer_flag raw x j k \<longleftrightarrow> x \<noteq> 1 \<and> matrix_bit raw j \<noteq> snd k \<and> fst k = 0"

lemma transfer_cell_eager_cell:
  assumes "row < rows" and "col < cols" and "cols \<le> 32" and "eager_frame cols rows t (cooked[row := existing], s)"
    and "bit existing col = bit (cooked ! row) col"
  shows "cell_step (matrix_keys rows cols) (\<lambda>(x, s). eager_frame cols rows t (cooked[row := x], s))
    (\<lambda>(x, s). key_at cols (cooked[row := x], s)) (\<lambda>(x, s). eager_flag (cooked[row := x], s))
    (\<lambda>j. eager_transfer (g_debounce (snd t)) (matrix_bit raw j)) (eager_transfer_flag raw) {(row, col)} (existing, s)
    (transfer_cell_eager (raw ! row XOR cooked ! row) (row * cols + col) col (existing, s))"
  using assms cell_index_less [of row rows col cols]
  by (auto simp: cell_step_def eager_frame_def transfer_cell_eager_def key_at_def eager_transfer_def eager_flag_def
      eager_transfer_flag_def nth_list_update cell_index_inj matrix_bit_def bit_xor_iff bit_mask_word
      split: prod.splits if_splits)

lemma transfer_row_eager_cells:
  assumes "row < rows" and "cols \<le> 32" and "eager_frame cols rows t x"
  shows "cell_step (matrix_keys rows cols) (eager_frame cols rows t) (key_at cols) eager_flag
    (\<lambda>j. eager_transfer (g_debounce (snd t)) (matrix_bit raw j)) (eager_transfer_flag raw) ({row} \<times> {..<cols}) x
    (transfer_row_eager cols raw row x)"
proof -
  obtain cooked s where x: "x = (cooked, s)"
    by fastforce
  have "cell_step (matrix_keys rows cols) (\<lambda>(y, s). eager_frame cols rows t (cooked[row := y], s))
    (\<lambda>(y, s). key_at cols (cooked[row := y], s)) (\<lambda>(y, s). eager_flag (cooked[row := y], s))
    (\<lambda>j. eager_transfer (g_debounce (snd t)) (matrix_bit raw j)) (eager_transfer_flag raw) ({row} \<times> {..<cols}) (cooked ! row, s)
    (for_upto cols (\<lambda>col. transfer_cell_eager (raw ! row XOR cooked ! row) (row * cols + col) col) (cooked ! row, s))"
  proof (rule row_cells, goal_cases)
    case (1 c y)
    have "length cooked = rows"
      using assms(3) by (simp add: x eager_frame_def split: prod.splits)
    with 1 assms(1,2) show ?case
      by (cases y) (auto intro!: transfer_cell_eager_cell simp: key_at_simp)
  qed (use assms x in auto)
  then show ?thesis
    by (simp add: cell_step_def transfer_row_eager_def x split: prod.splits)
qed

lemma transfer_matrix_values_eager_spec:
  assumes "eager_frame cols rows t (cooked, s)" and "cols \<le> 32"
    and "(cooked', s') = transfer_matrix_values_eager cols raw rows (cooked, s)"
  shows "eager_frame cols rows t (cooked', s')"
    and "j \<in> matrix_keys rows cols \<Longrightarrow>
      key_at cols (cooked', s') j = eager_transfer (g_debounce s) (matrix_bit raw j) (key_at cols (cooked, s) j)"
    and "counters_need_update s' \<longleftrightarrow> counters_need_update s \<or>
      (\<exists>j\<in>matrix_keys rows cols. matrix_bit raw j \<noteq> snd (key_at cols (cooked, s) j) \<and> fst (key_at cols (cooked, s) j) = 0)"
    and "\<not> matrix_need_update s'"
    and "cooked_changed s' \<longleftrightarrow> cooked_changed s \<or>
      (\<exists>j\<in>matrix_keys rows cols. matrix_bit raw j \<noteq> snd (key_at cols (cooked, s) j) \<and> fst (key_at cols (cooked, s) j) = 0)"
proof -
  have g: "g_debounce (snd t) = g_debounce s"
    using assms(1) by (simp add: eager_frame_def split: prod.splits)
  have "cell_step (matrix_keys rows cols) (eager_frame cols rows t) (key_at cols) eager_flag
    (\<lambda>j. eager_transfer (g_debounce (snd t)) (matrix_bit raw j)) (eager_transfer_flag raw) (matrix_keys rows cols)
    (cooked, s\<lparr>matrix_need_update := False\<rparr>) (cooked', s')"
    unfolding assms(3) transfer_matrix_values_eager_def prod.case
    by (intro matrix_cells transfer_row_eager_cells) (use assms(1,2) in \<open>auto simp: eager_frame_def split: prod.splits\<close>)
  note c = cell_stepD [OF this]
  show "eager_frame cols rows t (cooked', s')"
    by (rule c)
  show "j \<in> matrix_keys rows cols \<Longrightarrow>
      key_at cols (cooked', s') j = eager_transfer (g_debounce s) (matrix_bit raw j) (key_at cols (cooked, s) j)"
    using c(2) g by (auto simp: key_at_def)
  show "counters_need_update s' \<longleftrightarrow> counters_need_update s \<or>
      (\<exists>j\<in>matrix_keys rows cols. matrix_bit raw j \<noteq> snd (key_at cols (cooked, s) j) \<and> fst (key_at cols (cooked, s) j) = 0)"
    using c(3) [of 0] by (simp add: key_at_def eager_flag_def eager_transfer_flag_def split: prod.splits)
  show "\<not> matrix_need_update s'"
    using c(3) [of 1] by (simp add: eager_flag_def eager_transfer_flag_def)
  show "cooked_changed s' \<longleftrightarrow> cooked_changed s \<or>
      (\<exists>j\<in>matrix_keys rows cols. matrix_bit raw j \<noteq> snd (key_at cols (cooked, s) j) \<and> fst (key_at cols (cooked, s) j) = 0)"
    using c(3) [of 2] by (simp add: key_at_def eager_flag_def eager_transfer_flag_def split: prod.splits)
qed

section \<open>The contract\<close>

definition eager_sizes :: "nat \<Rightarrow> nat \<Rightarrow> u8 \<Rightarrow> matrix \<times> sym_eager_pk_state \<Rightarrow> bool" where
  "eager_sizes cols rows g = (\<lambda>(cooked, s).
     length cooked = rows \<and> length (debounce_counters s) = rows * cols \<and> g_debounce s = g)"

lemma debounce_eager_phases:
  "debounce_eager cols rows = phases_call (\<lambda>x. counters_need_update (snd x)) (\<lambda>x. matrix_need_update (snd x))
    (\<lambda>x. cooked_changed (snd x)) (\<lambda>x. last_time (snd x)) (\<lambda>t. apsnd (last_time_update (\<lambda>_. t)))
    (apsnd (cooked_changed_update (\<lambda>_. False))) (\<lambda>raw e. apsnd (update_debounce_counters_eager cols rows e))
    (\<lambda>raw. transfer_matrix_values_eager cols raw rows)"
  by (auto simp: fun_eq_iff debounce_eager_def phases_call_def Let_def split: prod.splits)

lemma eager_transfer_flips: "snd (eager_transfer g b k) \<noteq> snd k \<longleftrightarrow> b \<noteq> snd k \<and> fst k = 0"
  by (auto simp: eager_transfer_def split: prod.splits)

lemma eager_update_phase:
  assumes "eager_sizes cols rows g x" and "x' = apsnd (update_debounce_counters_eager cols rows e) x"
  shows "eager_sizes cols rows g x' \<and> last_time (snd x') = last_time (snd x)"
    and "j \<in> matrix_keys rows cols \<Longrightarrow> key_at cols x' j = eager_expire e b (key_at cols x j)"
    and "j \<in> matrix_keys rows cols \<Longrightarrow> \<not> eager_idle (key_at cols x' j) \<Longrightarrow> counters_need_update (snd x')"
    and "matrix_need_update (snd x') \<longleftrightarrow> (\<exists>j\<in>matrix_keys rows cols. eager_wakes e (key_at cols x j))"
    and "cooked_changed (snd x') = cooked_changed (snd x)"
proof -
  obtain cooked s s' where x: "x = (cooked, s)" "x' = (cooked, s')" and s': "s' = update_debounce_counters_eager cols rows e s"
    using assms(2) by (cases x) simp
  have "eager_frame cols rows x (cooked, s)"
    using assms(1) by (simp add: eager_sizes_def eager_frame_def x)
  note u = update_debounce_counters_eager_spec [OF this s']
  show "eager_sizes cols rows g x' \<and> last_time (snd x') = last_time (snd x)"
    using u(1) assms(1) by (simp add: eager_sizes_def eager_frame_def x)
  show key: "key_at cols x' j = eager_expire e b (key_at cols x j)" if "j \<in> matrix_keys rows cols" for j b
    using u(2) [OF that] by (simp add: x)
  show "counters_need_update (snd x')" if "j \<in> matrix_keys rows cols" "\<not> eager_idle (key_at cols x' j)"
  proof -
    have "e < fst (key_at cols x j)"
      using that key [OF that(1)] by (cases "key_at cols x j") (auto simp: eager_expire_def not_le split: if_splits)
    with that(1) u(3) show ?thesis
      unfolding x snd_conv by blast
  qed
  show "matrix_need_update (snd x') \<longleftrightarrow> (\<exists>j\<in>matrix_keys rows cols. eager_wakes e (key_at cols x j))"
    using u(4) by (simp add: x eager_wakes_def)
  show "cooked_changed (snd x') = cooked_changed (snd x)"
    using u(5) by (simp add: x)
qed

lemma eager_transfer_phase:
  assumes "eager_sizes cols rows g x" and "cols \<le> 32" and "x' = transfer_matrix_values_eager cols raw rows x"
  shows "eager_sizes cols rows g x' \<and> last_time (snd x') = last_time (snd x) \<and> \<not> matrix_need_update (snd x')"
    and "j \<in> matrix_keys rows cols \<Longrightarrow> key_at cols x' j = eager_transfer g (matrix_bit raw j) (key_at cols x j)"
    and "j \<in> matrix_keys rows cols \<Longrightarrow> \<not> eager_idle (key_at cols x' j) \<Longrightarrow>
      counters_need_update (snd x) \<or> eager_idle (key_at cols x j) \<Longrightarrow> counters_need_update (snd x')"
    and "cooked_changed (snd x') \<longleftrightarrow> cooked_changed (snd x) \<or>
      (\<exists>j\<in>matrix_keys rows cols. snd (eager_transfer g (matrix_bit raw j) (key_at cols x j)) \<noteq> snd (key_at cols x j))"
proof -
  obtain cooked s cooked' s' where x: "x = (cooked, s)" "x' = (cooked', s')"
    by fastforce
  have fr: "eager_frame cols rows x (cooked, s)" and g: "g_debounce s = g"
    using assms(1) by (simp_all add: eager_sizes_def eager_frame_def x)
  have "(cooked', s') = transfer_matrix_values_eager cols raw rows (cooked, s)"
    using assms(3) by (simp add: x)
  note m = transfer_matrix_values_eager_spec [OF fr assms(2) this]
  show "eager_sizes cols rows g x' \<and> last_time (snd x') = last_time (snd x) \<and> \<not> matrix_need_update (snd x')"
    using m(1,4) assms(1) by (simp add: eager_sizes_def eager_frame_def x)
  show key: "key_at cols x' j = eager_transfer g (matrix_bit raw j) (key_at cols x j)" if "j \<in> matrix_keys rows cols" for j
    using m(2) [OF that] g by (simp add: x)
  show "counters_need_update (snd x')" if "j \<in> matrix_keys rows cols" "\<not> eager_idle (key_at cols x' j)"
    "counters_need_update (snd x) \<or> eager_idle (key_at cols x j)"
  proof -
    have "counters_need_update s \<or> matrix_bit raw j \<noteq> snd (key_at cols (cooked, s) j) \<and> fst (key_at cols (cooked, s) j) = 0"
      using that(2,3) key [OF that(1)] unfolding x
      by (cases "key_at cols (cooked, s) j") (auto simp: eager_transfer_def split: if_splits)
    with that(1) m(3) show ?thesis
      unfolding x snd_conv by blast
  qed
  show "cooked_changed (snd x') \<longleftrightarrow> cooked_changed (snd x) \<or>
      (\<exists>j\<in>matrix_keys rows cols. snd (eager_transfer g (matrix_bit raw j) (key_at cols x j)) \<noteq> snd (key_at cols x j))"
    unfolding eager_transfer_flips using m(5) by (simp add: x)
qed

lemma eager_contract:
  assumes "cols \<le> 32"
  shows "debounce_phases (matrix_keys rows cols) (key_at cols) matrix_bit snd (eager_sizes cols rows g)
    (\<lambda>x. counters_need_update (snd x)) (\<lambda>x. matrix_need_update (snd x)) (\<lambda>x. cooked_changed (snd x))
    (\<lambda>x. last_time (snd x)) (\<lambda>t. apsnd (last_time_update (\<lambda>_. t))) (apsnd (cooked_changed_update (\<lambda>_. False)))
    (\<lambda>raw e. apsnd (update_debounce_counters_eager cols rows e)) (\<lambda>raw. transfer_matrix_values_eager cols raw rows)
    eager_expire eager_wakes (eager_transfer g) eager_idle eager_settled"
proof (unfold_locales, goal_cases)
  case 13 then show ?case by (rule eager_update_phase(1) [OF _ refl])
next
  case 14 then show ?case by (rule eager_update_phase(2) [OF _ refl])
next
  case 15 then show ?case by (rule eager_update_phase(3) [OF _ refl])
next
  case 16 then show ?case by (rule eager_update_phase(4) [OF _ refl])
next
  case (17 x raw e) then show ?case
    using eager_update_phase(5) [OF 17 refl] by (auto simp: eager_expire_def case_prod_unfold)
next
  case 18 then show ?case by (rule eager_transfer_phase(1) [OF _ assms refl])
next
  case 19 then show ?case by (rule eager_transfer_phase(2) [OF _ assms refl])
next
  case 20 then show ?case by (rule eager_transfer_phase(3) [OF _ assms refl])
next
  case 21 then show ?case by (rule eager_transfer_phase(4) [OF _ assms refl])
qed (auto simp: eager_sizes_def key_at_def eager_expire_def eager_wakes_def eager_transfer_def eager_settled_def fun_eq_iff
    not_le split: if_splits prod.splits)

text \<open>The matrix of the Q3 Max: 6 rows, 17 columns.\<close>

interpretation q3_eager: debounce_phases "matrix_keys 6 17" "key_at 17" matrix_bit snd "eager_sizes 17 6 g"
    "\<lambda>x. counters_need_update (snd x)" "\<lambda>x. matrix_need_update (snd x)" "\<lambda>x. cooked_changed (snd x)"
    "\<lambda>x. last_time (snd x)" "\<lambda>t. apsnd (last_time_update (\<lambda>_. t))" "apsnd (cooked_changed_update (\<lambda>_. False))"
    "\<lambda>raw e. apsnd (update_debounce_counters_eager 17 6 e)" "\<lambda>raw. transfer_matrix_values_eager 17 raw 6"
    eager_expire eager_wakes "eager_transfer g" eager_idle eager_settled for g
  by (rule eager_contract) simp

section \<open>What a key does\<close>

definition eager_key :: "u8 \<Rightarrow> u8 \<Rightarrow> 'b \<Rightarrow> u8 \<times> 'b \<Rightarrow> u8 \<times> 'b" where
  "eager_key g e b = (\<lambda>(n, p). let n' = (if n \<le> e then 0 else n - e)
                             in if b \<noteq> p \<and> n' = 0 then (g, b) else (n', p))"

lemma eager_key_simp:
  "eager_key g e b (n, p) = (let n' = (if n \<le> e then 0 else n - e) in if b \<noteq> p \<and> n' = 0 then (g, b) else (n', p))"
  by (simp add: eager_key_def)

lemma eager_key_eq: "(\<lambda>e b k. eager_transfer g b (eager_expire e b k)) = eager_key g"
  by (auto simp: fun_eq_iff eager_transfer_def eager_expire_def eager_key_def Let_def)

lemma eager_key_deaf:
  assumes "scan_time t xs < unat n"
  shows "snd (key_run (eager_key g) t xs (n, p)) = p"
  using assms
proof (induction xs arbitrary: t n)
  case (Cons x xs)
  obtain b now where x: "x = (b, now)"
    by fastforce
  with Cons.prems have e: "elapsed8 now t < n"
    by (simp add: word_less_nat_alt)
  moreover from e Cons.prems x have "scan_time now xs < unat (n - elapsed8 now t)"
    by (simp add: unat_sub word_less_nat_alt word_le_nat_alt)
  ultimately show ?case
    using Cons.IH [of now "n - elapsed8 now t"] by (auto simp: x eager_key_simp)
qed simp

lemma eager_key_stays: "\<forall>x\<in>set xs. fst x = b \<Longrightarrow> snd (key_run (eager_key g) t xs (n, b)) = b"
  by (induction xs arbitrary: t n) (auto simp: eager_key_simp Let_def)

lemma eager_key_follows:
  assumes "\<forall>x\<in>set xs. fst x = b" and "xs \<noteq> []" and "unat n \<le> scan_time t xs"
  shows "snd (key_run (eager_key g) t xs (n, p)) = b"
  using assms
proof (induction xs arbitrary: t n p)
  case (Cons x xs)
  obtain now where x: "x = (b, now)"
    using Cons.prems(1) by (cases x) auto
  show ?case
  proof (cases "n \<le> elapsed8 now t")
    case True
    then show ?thesis
      using Cons.prems(1) eager_key_stays [of xs b g now] by (cases "b = p") (auto simp: x eager_key_simp)
  next
    case False
    then have d: "unat (n - elapsed8 now t) = unat n - unat (elapsed8 now t)"
      and l: "unat (elapsed8 now t) < unat n" and nz: "n - elapsed8 now t \<noteq> 0"
      by (auto simp: unat_sub word_le_nat_alt)
    then have "scan_time now xs \<noteq> 0"
      using Cons.prems(3) by (simp add: x)
    then have "snd (key_run (eager_key g) now xs (n - elapsed8 now t, p)) = b"
      using Cons.prems d by (intro Cons.IH) (auto simp: x)
    then show ?thesis
      using False nz by (simp add: x eager_key_simp)
  qed
qed simp

lemma eager_key_bound:
  assumes "n \<le> g"
  shows "fst (key_run (eager_key g) t xs (n, p)) \<le> g"
  using assms
proof (induction xs arbitrary: t n p)
  case (Cons x xs)
  obtain b now where x: "x = (b, now)"
    by fastforce
  obtain n' p' where n': "eager_key g (elapsed8 now t) b (n, p) = (n', p')"
    by fastforce
  then have "n' \<le> g"
    using Cons.prems by (auto simp: eager_key_simp Let_def word_le_nat_alt unat_sub split: if_splits)
  then show ?case
    using Cons.IH [of n' now p'] n' by (simp add: x)
qed simp

lemma eager_key_flip:
  "snd (eager_key g e b (n, p)) \<noteq> p \<Longrightarrow> eager_key g e b (n, p) = (g, b)"
  by (auto simp: eager_key_simp Let_def split: if_splits)

section \<open>Properties\<close>

text \<open>After \<^verbatim>\<open>debounce_init\<close>: the static variables start at zero, no key is pressed.\<close>

definition eager_start :: "nat \<Rightarrow> nat \<Rightarrow> u8 \<Rightarrow> matrix \<times> sym_eager_pk_state" where
  "eager_start cols rows g = (replicate rows 0, debounce_init_eager cols rows
     \<lparr>debounce_counters = [], last_time = 0, counters_need_update = False, cooked_changed = False,
      matrix_need_update = False, g_debounce = g\<rparr>)"

lemma eager_start_key: "i \<in> matrix_keys rows cols \<Longrightarrow> key_at cols (eager_start cols rows g) i = (0, False)"
  by (auto simp: eager_start_def debounce_init_eager_def key_at_def cell_index_less)

lemma eager_start_ready:
  "eager_sizes cols rows g (eager_start cols rows g)" "\<not> matrix_need_update (snd (eager_start cols rows g))"
  "\<not> counters_need_update (snd (eager_start cols rows g))"
  "\<forall>i\<in>matrix_keys rows cols. eager_settled (matrix_bit (replicate rows 0) i) (key_at cols (eager_start cols rows g) i)"
  by (auto simp: eager_start_def debounce_init_eager_def eager_sizes_def eager_settled_def key_at_def matrix_bit_def
      cell_index_less)

lemma eager_run:
  assumes "cols \<le> 32" and "i \<in> matrix_keys rows cols"
  shows "key_at cols (scan_run (debounce_eager cols rows) (replicate rows 0) xs (eager_start cols rows g)) i =
    key_run (eager_key g) t (map (\<lambda>(raw, now). (matrix_bit raw i, now)) xs) (0, False)"
proof -
  have "\<forall>i\<in>matrix_keys rows cols. \<not> eager_idle (key_at cols (eager_start cols rows g) i) \<longrightarrow>
      counters_need_update (snd (eager_start cols rows g))"
    using eager_start_key by fastforce
  with eager_start_ready(1,2) show ?thesis
    using debounce_phases.phases_run [OF eager_contract [OF assms(1), of rows g] _ _ eager_start_ready(4) assms(2), where t = t and xs = xs]
      assms(2) eager_start_ready(3)
    by (simp add: eager_key_eq eager_start_key debounce_eager_phases [symmetric])
qed

text \<open>C28: Over every sequence of scans from power-on, the debounce code with its skipped updates does to
  each key of the matrix what the two-line automaton of one key does when it is run on every scan.\<close>

theorem sym_eager_pk_equivalent:
  "cols \<le> 32 \<Longrightarrow> i \<in> matrix_keys rows cols \<Longrightarrow>
   key_at cols (scan_run (debounce_eager cols rows) (replicate rows 0) xs (eager_start cols rows g)) i =
   key_run (eager_key g) 0 (map (\<lambda>(raw, now). (matrix_bit raw i, now)) xs) (0, False)"
  by (rule eager_run)

theorem sym_eager_pk_equivalent_witness:
  "key_at 17 (scan_run (debounce_eager 17 6) (replicate 6 0) [([0, 4, 0, 0, 0, 0], 7), ([0, 0, 0, 0, 0, 0], 12)]
     (eager_start 17 6 20)) (1, 2) =
   key_run (eager_key 20) 0 [(True, 7), (False, 12)] (0, False)"
proof -
  have "(17 :: nat) \<le> 32" and "(1, 2) \<in> matrix_keys 6 17" and "bit (4 :: u32) 2"
    by (simp_all add: bit_numeral_word_iff)
  then show ?thesis
    using sym_eager_pk_equivalent [of 17 "(1, 2)" 6 "[([0, 4, 0, 0, 0, 0], 7), ([0, 0, 0, 0, 0, 0], 12)]" 20]
    by (simp add: matrix_bit_def)
qed

abbreviation eager_matrix :: "nat \<Rightarrow> nat \<Rightarrow> u8 \<Rightarrow> (matrix \<times> u32) list \<Rightarrow> matrix" where
  "eager_matrix cols rows g xs \<equiv>
     fst (scan_run (debounce_eager cols rows) (replicate rows 0) xs (eager_start cols rows g))"

lemma eager_matrix_bit:
  assumes "cols \<le> 32" and "i \<in> matrix_keys rows cols"
  shows "matrix_bit (eager_matrix cols rows g xs) i =
    snd (key_run (eager_key g) 0 (map (\<lambda>(raw, now). (matrix_bit raw i, now)) xs) (0, False))"
proof -
  have "matrix_bit (fst x) i = snd (key_at cols x i)" for x :: "matrix \<times> sym_eager_pk_state"
    by (cases x; cases i) (simp add: matrix_bit_def key_at_def)
  then show ?thesis
    using eager_run [OF assms, of xs g 0] by simp
qed

text \<open>A key that has changed ignores the raw matrix for \<^verbatim>\<open>g_debounce\<close> milliseconds, whatever it does: chatter
  never reaches the cooked matrix.\<close>

theorem sym_eager_pk_deaf:
  assumes "cols \<le> 32" and "i \<in> matrix_keys rows cols"
    and "matrix_bit (eager_matrix cols rows g (pre @ [(raw, now)])) i \<noteq> matrix_bit (eager_matrix cols rows g pre) i"
    and "scan_time now xs < unat g"
  shows "matrix_bit (eager_matrix cols rows g (pre @ (raw, now) # xs)) i =
    matrix_bit (eager_matrix cols rows g (pre @ [(raw, now)])) i"
proof -
  let ?m = "map (\<lambda>(raw, now). (matrix_bit raw i, now))"
  obtain n p where k: "key_run (eager_key g) 0 (?m pre) (0, False) = (n, p)"
    by fastforce
  let ?e = "elapsed8 now (scan_clock 0 pre)"
  have "snd (eager_key g ?e (matrix_bit raw i) (n, p)) \<noteq> p"
    using assms(3) k by (simp add: eager_matrix_bit [OF assms(1,2)] key_run_append)
  then have "eager_key g ?e (matrix_bit raw i) (n, p) = (g, matrix_bit raw i)"
    by (rule eager_key_flip)
  then show ?thesis
    using assms(4) eager_key_deaf [of now "?m xs" g g "matrix_bit raw i"] k
    by (simp add: eager_matrix_bit [OF assms(1,2)] key_run_append scan_time_map)
qed

theorem sym_eager_pk_deaf_witness:
  "matrix_bit (eager_matrix 17 6 20 [([0, 4, 0, 0, 0, 0], 7), ([0, 0, 0, 0, 0, 0], 12), ([0, 4, 0, 0, 0, 0], 15)]) (1, 2)"
proof -
  have c: "(17 :: nat) \<le> 32" "(1, 2) \<in> matrix_keys 6 17" and b: "bit (4 :: u32) 2"
    by (simp_all add: bit_numeral_word_iff)
  have "matrix_bit (eager_matrix 17 6 20 ([] @ [([0, 4, 0, 0, 0, 0], 7)])) (1, 2)"
    and "\<not> matrix_bit (eager_matrix 17 6 20 []) (1, 2)"
    using b by (simp_all only: eager_matrix_bit [OF c]) (simp_all add: matrix_bit_def eager_key_simp Let_def)
  moreover have "scan_time 7 [([0, 0, 0, 0, 0, 0 :: u32], 12), ([0, 4, 0, 0, 0, 0], 15)] < unat (20 :: u8)"
    by (simp add: unat_elapsed8)
  ultimately show ?thesis
    using sym_eager_pk_deaf [OF c, where g = 20 and pre = "[]" and raw = "[0, 4, 0, 0, 0, 0]" and now = 7
        and xs = "[([0, 0, 0, 0, 0, 0], 12), ([0, 4, 0, 0, 0, 0], 15)]"]
    by simp
qed

text \<open>Once the raw state of a key has been stable for \<^verbatim>\<open>g_debounce\<close> milliseconds of scans, the cooked matrix
  shows it; in particular no press or release is lost.\<close>

theorem sym_eager_pk_follows:
  assumes "cols \<le> 32" and "i \<in> matrix_keys rows cols" and "xs \<noteq> []"
    and "\<forall>(raw, now)\<in>set xs. matrix_bit raw i = b" and "unat g \<le> scan_time (scan_clock 0 pre) xs"
  shows "matrix_bit (eager_matrix cols rows g (pre @ xs)) i = b"
proof -
  let ?m = "map (\<lambda>(raw, now). (matrix_bit raw i, now))"
  obtain n p where k: "key_run (eager_key g) 0 (?m pre) (0, False) = (n, p)"
    by fastforce
  then have "n \<le> g"
    using eager_key_bound [of 0 g 0 "?m pre" False] by simp
  then have "unat n \<le> scan_time (scan_clock 0 pre) (?m xs)"
    using assms(5) by (simp add: word_le_nat_alt scan_time_map)
  then have "snd (key_run (eager_key g) (scan_clock 0 pre) (?m xs) (n, p)) = b"
    using assms(3,4) by (intro eager_key_follows) auto
  then show ?thesis
    using k by (simp add: eager_matrix_bit [OF assms(1,2)] key_run_append)
qed

theorem sym_eager_pk_follows_witness:
  "\<not> matrix_bit (eager_matrix 17 6 20 [([0, 4, 0, 0, 0, 0], 7), ([0, 0, 0, 0, 0, 0], 12), ([0, 0, 0, 0, 0, 0], 27)]) (1, 2)"
proof -
  have "\<forall>(raw, now)\<in>set [([0, 0, 0, 0, 0, 0 :: u32], 12 :: u32), ([0, 0, 0, 0, 0, 0], 27)]. matrix_bit raw (1, 2) = False"
    by (simp add: matrix_bit_def)
  moreover have "unat (20 :: u8) \<le> scan_time (scan_clock 0 [([0, 4, 0, 0, 0, 0 :: u32], 7)]) [([0, 0, 0, 0, 0, 0 :: u32], 12), ([0, 0, 0, 0, 0, 0], 27)]"
    by (simp add: unat_elapsed8)
  ultimately show ?thesis
    using sym_eager_pk_follows [where cols = 17 and i = "(1, 2)" and rows = 6 and b = False and g = 20
        and xs = "[([0, 0, 0, 0, 0, 0], 12), ([0, 0, 0, 0, 0, 0], 27)]" and pre = "[([0, 4, 0, 0, 0, 0], 7)]"]
    by simp
qed

end
