(* ===== verification/Debounce_Sym_Defer_Pk.thy ===== *)
theory Debounce_Sym_Defer_Pk
  imports Debounce
begin

text \<open>
  \<^verbatim>\<open>quantum/debounce/sym_defer_pk.c\<close>: a key changes when its raw state has differed from the cooked one for
  \<^verbatim>\<open>DEBOUNCE\<close> milliseconds. \<open>D\<close> is \<^verbatim>\<open>DEBOUNCE\<close>, positive and at most 255 by the guards of the file; \<open>cols\<close>
  is \<^verbatim>\<open>MATRIX_COLS\<close>, at most 32.
\<close>

section \<open>Model\<close>

type_synonym defer_state = "u8 debounce_state"

definition debounce_init_defer :: "nat \<Rightarrow> nat \<Rightarrow> defer_state \<Rightarrow> defer_state" where
  "debounce_init_defer cols num_rows s = s\<lparr>debounce_counters := replicate (num_rows * cols) 0\<rparr>"

definition update_counter_defer ::
  "nat \<Rightarrow> matrix \<Rightarrow> u8 \<Rightarrow> nat \<Rightarrow> nat \<Rightarrow> matrix \<times> defer_state \<Rightarrow> matrix \<times> defer_state" where
  "update_counter_defer cols raw elapsed_time row col = (\<lambda>(cooked, s).
     let p = row * cols + col; n = debounce_counters s ! p
     in if n \<noteq> 0 then
          if n \<le> elapsed_time then
            let cooked_next = (cooked ! row AND NOT (push_bit col 1)) OR (raw ! row AND push_bit col 1)
            in (cooked[row := cooked_next],
                s\<lparr>debounce_counters := (debounce_counters s)[p := 0],
                  cooked_changed := cooked_changed s \<or> cooked ! row XOR cooked_next \<noteq> 0\<rparr>)
          else (cooked, s\<lparr>debounce_counters := (debounce_counters s)[p := n - elapsed_time], counters_need_update := True\<rparr>)
        else (cooked, s))"

definition update_debounce_counters_and_transfer_if_expired_defer ::
  "nat \<Rightarrow> nat \<Rightarrow> matrix \<Rightarrow> u8 \<Rightarrow> matrix \<times> defer_state \<Rightarrow> matrix \<times> defer_state" where
  "update_debounce_counters_and_transfer_if_expired_defer cols num_rows raw elapsed_time = (\<lambda>(cooked, s).
     for_upto num_rows (\<lambda>row. for_upto cols (update_counter_defer cols raw elapsed_time row))
       (cooked, s\<lparr>counters_need_update := False\<rparr>))"

definition start_counter_defer :: "u8 \<Rightarrow> u32 \<Rightarrow> nat \<Rightarrow> nat \<Rightarrow> defer_state \<Rightarrow> defer_state" where
  "start_counter_defer D delta p col s =
     (if delta AND push_bit col 1 \<noteq> 0 then
        if debounce_counters s ! p = 0
        then s\<lparr>debounce_counters := (debounce_counters s)[p := D], counters_need_update := True\<rparr>
        else s
      else s\<lparr>debounce_counters := (debounce_counters s)[p := 0]\<rparr>)"

definition start_debounce_counters_defer ::
  "u8 \<Rightarrow> nat \<Rightarrow> nat \<Rightarrow> matrix \<Rightarrow> matrix \<times> defer_state \<Rightarrow> matrix \<times> defer_state" where
  "start_debounce_counters_defer D cols num_rows raw = (\<lambda>(cooked, s).
     (cooked, for_upto num_rows (\<lambda>row s. let delta = raw ! row XOR cooked ! row
        in for_upto cols (\<lambda>col. start_counter_defer D delta (row * cols + col) col) s) s))"

definition debounce_defer ::
  "u8 \<Rightarrow> nat \<Rightarrow> nat \<Rightarrow> matrix \<Rightarrow> bool \<Rightarrow> u32 \<Rightarrow> matrix \<times> defer_state \<Rightarrow> bool \<times> matrix \<times> defer_state" where
  "debounce_defer D cols num_rows raw changed now = (\<lambda>(cooked, s).
     let s = s\<lparr>cooked_changed := False\<rparr>;
         updated_last = counters_need_update s;
         (cooked, s) =
           (if counters_need_update s then
              let elapsed_time = elapsed8 now (last_time s); s = s\<lparr>last_time := now\<rparr>
              in if 0 < elapsed_time
                 then update_debounce_counters_and_transfer_if_expired_defer cols num_rows raw elapsed_time (cooked, s)
                 else (cooked, s)
            else (cooked, s));
         (cooked, s) =
           (if changed then
              let s = (if \<not> updated_last then s\<lparr>last_time := now\<rparr> else s)
              in start_debounce_counters_defer D cols num_rows raw (cooked, s)
            else (cooked, s))
     in (cooked_changed s, cooked, s))"

section \<open>The automaton of one key\<close>

definition defer_expire :: "u8 \<Rightarrow> bool \<Rightarrow> u8 \<times> bool \<Rightarrow> u8 \<times> bool" where
  "defer_expire e b = (\<lambda>(n, p). if n \<noteq> 0 \<and> n \<le> e then (0, b) else (if n = 0 then 0 else n - e, p))"

definition defer_transfer :: "u8 \<Rightarrow> bool \<Rightarrow> u8 \<times> bool \<Rightarrow> u8 \<times> bool" where
  "defer_transfer D b = (\<lambda>(n, p). (if b = p then 0 else if n = 0 then D else n, p))"

abbreviation defer_idle :: "u8 \<times> bool \<Rightarrow> bool" where
  "defer_idle k \<equiv> fst k = 0"

definition defer_settled :: "bool \<Rightarrow> u8 \<times> bool \<Rightarrow> bool" where
  "defer_settled b = (\<lambda>(n, p). b \<noteq> p \<longleftrightarrow> n \<noteq> 0)"

section \<open>The loops, key by key\<close>

definition defer_sizes :: "nat \<Rightarrow> nat \<Rightarrow> matrix \<times> defer_state \<Rightarrow> bool" where
  "defer_sizes cols rows = (\<lambda>(cooked, s). length cooked = rows \<and> length (debounce_counters s) = rows * cols)"

abbreviation defer_frame :: "nat \<Rightarrow> nat \<Rightarrow> u32 \<Rightarrow> matrix \<times> defer_state \<Rightarrow> bool" where
  "defer_frame cols rows t x \<equiv> defer_sizes cols rows x \<and> last_time (snd x) = t"

text \<open>The flags of the state: \<open>0\<close> counters, otherwise cooked.\<close>

definition defer_flag :: "matrix \<times> defer_state \<Rightarrow> nat \<Rightarrow> bool" where
  "defer_flag = (\<lambda>(cooked, s) x. if x = 0 then counters_need_update s else cooked_changed s)"

definition defer_update_flag :: "matrix \<Rightarrow> u8 \<Rightarrow> nat \<Rightarrow> nat \<times> nat \<Rightarrow> u8 \<times> bool \<Rightarrow> bool" where
  "defer_update_flag raw e x j k \<longleftrightarrow>
     (x = 0 \<and> e < fst k) \<or> (x \<noteq> 0 \<and> snd (defer_expire e (matrix_bit raw j) k) \<noteq> snd k)"

lemma update_counter_defer_cell:
  assumes "row < rows" and "col < cols" and "cols \<le> 32" and "defer_frame cols rows t x"
  shows "cell_step (matrix_keys rows cols) (defer_frame cols rows t) (key_at cols) defer_flag
    (\<lambda>j. defer_expire e (matrix_bit raw j)) (defer_update_flag raw e) {(row, col)} x
    (update_counter_defer cols raw e row col x)"
  using assms cell_index_less [of row rows col cols]
  by (cases x) (auto simp: cell_step_def defer_sizes_def update_counter_defer_def key_at_simp defer_expire_def defer_flag_def
      defer_update_flag_def nth_list_update cell_index_inj matrix_bit_def bit_merge_mask merge_mask_changes Let_def
      simp del: bit_simps)

lemma defer_update_phase:
  assumes "defer_sizes cols rows x" and "cols \<le> 32"
    and "x' = update_debounce_counters_and_transfer_if_expired_defer cols rows raw e x"
  shows "defer_sizes cols rows x' \<and> last_time (snd x') = last_time (snd x)"
    and "j \<in> matrix_keys rows cols \<Longrightarrow> key_at cols x' j = defer_expire e (matrix_bit raw j) (key_at cols x j)"
    and "j \<in> matrix_keys rows cols \<Longrightarrow> \<not> defer_idle (key_at cols x' j) \<Longrightarrow> counters_need_update (snd x')"
    and "cooked_changed (snd x') \<longleftrightarrow> cooked_changed (snd x) \<or>
      (\<exists>j\<in>matrix_keys rows cols. snd (defer_expire e (matrix_bit raw j) (key_at cols x j)) \<noteq> snd (key_at cols x j))"
proof -
  obtain cooked s where x: "x = (cooked, s)"
    by fastforce
  let ?x0 = "(cooked, s\<lparr>counters_need_update := False\<rparr>)"
  have "cell_step (matrix_keys rows cols) (defer_frame cols rows (last_time s)) (key_at cols) defer_flag
    (\<lambda>j. defer_expire e (matrix_bit raw j)) (defer_update_flag raw e) (matrix_keys rows cols) ?x0 x'"
    unfolding assms(3) x update_debounce_counters_and_transfer_if_expired_defer_def prod.case
    by (intro matrix_cells row_cells update_counter_defer_cell) (use assms(1,2) in \<open>auto simp: defer_sizes_def x\<close>)
  note c = cell_stepD [OF this]
  have k0: "key_at cols ?x0 j = key_at cols x j" for j
    by (cases j) (simp add: key_at_def x)
  show "defer_sizes cols rows x' \<and> last_time (snd x') = last_time (snd x)"
    using c(1) by (simp add: x)
  show key: "key_at cols x' j = defer_expire e (matrix_bit raw j) (key_at cols x j)" if "j \<in> matrix_keys rows cols" for j
    using c(2) [OF that] by (simp only: k0)
  have cnu: "counters_need_update (snd x') \<longleftrightarrow> (\<exists>j\<in>matrix_keys rows cols. e < fst (key_at cols x j))"
    using c(3) [of 0] by (simp add: k0 defer_flag_def defer_update_flag_def case_prod_unfold)
  show "counters_need_update (snd x')" if "j \<in> matrix_keys rows cols" "\<not> defer_idle (key_at cols x' j)"
  proof -
    have "e < fst (key_at cols x j)"
      using that key [OF that(1)] by (cases "key_at cols x j") (auto simp: defer_expire_def not_le split: if_splits)
    with that(1) show ?thesis
      unfolding cnu by blast
  qed
  show "cooked_changed (snd x') \<longleftrightarrow> cooked_changed (snd x) \<or>
      (\<exists>j\<in>matrix_keys rows cols. snd (defer_expire e (matrix_bit raw j) (key_at cols x j)) \<noteq> snd (key_at cols x j))"
    using c(3) [of 1] by (simp add: k0 defer_flag_def defer_update_flag_def case_prod_unfold x)
qed

definition defer_start_flag :: "matrix \<Rightarrow> nat \<Rightarrow> nat \<times> nat \<Rightarrow> u8 \<times> bool \<Rightarrow> bool" where
  "defer_start_flag raw x j k \<longleftrightarrow> x = 0 \<and> matrix_bit raw j \<noteq> snd k \<and> fst k = 0"

lemma start_counter_defer_cell:
  assumes "row < rows" and "col < cols" and "cols \<le> 32" and "defer_frame cols rows t (cooked, s)"
  shows "cell_step (matrix_keys rows cols) (\<lambda>s. defer_frame cols rows t (cooked, s)) (\<lambda>s. key_at cols (cooked, s)) (\<lambda>s. defer_flag (cooked, s))
    (\<lambda>j. defer_transfer D (matrix_bit raw j)) (defer_start_flag raw) {(row, col)} s
    (start_counter_defer D (raw ! row XOR cooked ! row) (row * cols + col) col s)"
  using assms cell_index_less [of row rows col cols]
  by (auto simp: cell_step_def defer_sizes_def start_counter_defer_def key_at_simp defer_transfer_def defer_flag_def
      defer_start_flag_def nth_list_update cell_index_inj matrix_bit_def bit_xor_iff)

lemma defer_start_phase:
  assumes "defer_sizes cols rows x" and "cols \<le> 32" and "x' = start_debounce_counters_defer D cols rows raw x"
  shows "defer_sizes cols rows x' \<and> last_time (snd x') = last_time (snd x)"
    and "j \<in> matrix_keys rows cols \<Longrightarrow> key_at cols x' j = defer_transfer D (matrix_bit raw j) (key_at cols x j)"
    and "j \<in> matrix_keys rows cols \<Longrightarrow> \<not> defer_idle (key_at cols x' j) \<Longrightarrow>
      counters_need_update (snd x) \<or> defer_idle (key_at cols x j) \<Longrightarrow> counters_need_update (snd x')"
    and "cooked_changed (snd x') = cooked_changed (snd x)"
proof -
  obtain cooked s s' where x: "x = (cooked, s)" "x' = (cooked, s')"
    using assms(3) by (cases x) (simp add: start_debounce_counters_defer_def)
  have s': "s' = for_upto rows (\<lambda>row s. let delta = raw ! row XOR cooked ! row
        in for_upto cols (\<lambda>col. start_counter_defer D delta (row * cols + col) col) s) s"
    using assms(3) by (simp add: x start_debounce_counters_defer_def)
  have "cell_step (matrix_keys rows cols) (\<lambda>s. defer_frame cols rows (last_time (snd x)) (cooked, s)) (\<lambda>s. key_at cols (cooked, s))
    (\<lambda>s. defer_flag (cooked, s)) (\<lambda>j. defer_transfer D (matrix_bit raw j)) (defer_start_flag raw) (matrix_keys rows cols) s s'"
    unfolding s' Let_def
    by (intro matrix_cells row_cells start_counter_defer_cell) (use assms(1,2) in \<open>auto simp: x\<close>)
  note c = cell_stepD [OF this]
  show "defer_sizes cols rows x' \<and> last_time (snd x') = last_time (snd x)"
    using c(1) by (simp add: x)
  show key: "key_at cols x' j = defer_transfer D (matrix_bit raw j) (key_at cols x j)" if "j \<in> matrix_keys rows cols" for j
    using c(2) [OF that] by (simp add: x)
  show "counters_need_update (snd x')" if "j \<in> matrix_keys rows cols" "\<not> defer_idle (key_at cols x' j)"
    "counters_need_update (snd x) \<or> defer_idle (key_at cols x j)"
  proof -
    have "counters_need_update s \<or> matrix_bit raw j \<noteq> snd (key_at cols (cooked, s) j) \<and> fst (key_at cols (cooked, s) j) = 0"
      using that(2,3) key [OF that(1)] unfolding x
      by (cases "key_at cols (cooked, s) j") (auto simp: defer_transfer_def split: if_splits)
    with that(1) c(3) [of 0] show ?thesis
      unfolding x snd_conv by (simp add: defer_flag_def defer_start_flag_def) blast
  qed
  show "cooked_changed (snd x') = cooked_changed (snd x)"
    using c(3) [of 1] by (simp add: x defer_flag_def defer_start_flag_def)
qed

section \<open>The contract\<close>

lemma debounce_defer_phases:
  "debounce_defer D cols rows = phases_call (\<lambda>x. counters_need_update (snd x)) (\<lambda>x. False)
    (\<lambda>x. cooked_changed (snd x)) (\<lambda>x. last_time (snd x)) (\<lambda>t. apsnd (last_time_update (\<lambda>_. t)))
    (apsnd (cooked_changed_update (\<lambda>_. False))) (update_debounce_counters_and_transfer_if_expired_defer cols rows)
    (start_debounce_counters_defer D cols rows)"
  by (auto simp: fun_eq_iff debounce_defer_def phases_call_def Let_def split: prod.splits)

lemma defer_contract:
  assumes "cols \<le> 32" and "D \<noteq> 0"
  shows "debounce_phases (matrix_keys rows cols) (key_at cols) matrix_bit snd (defer_sizes cols rows)
    (\<lambda>x. counters_need_update (snd x)) (\<lambda>x. False) (\<lambda>x. cooked_changed (snd x))
    (\<lambda>x. last_time (snd x)) (\<lambda>t. apsnd (last_time_update (\<lambda>_. t))) (apsnd (cooked_changed_update (\<lambda>_. False)))
    (update_debounce_counters_and_transfer_if_expired_defer cols rows) (start_debounce_counters_defer D cols rows)
    defer_expire (\<lambda>e k. False) (defer_transfer D) defer_idle defer_settled"
proof (unfold_locales, goal_cases)
  case 13 then show ?case by (rule defer_update_phase(1) [OF _ assms(1) refl])
next
  case 14 then show ?case by (rule defer_update_phase(2) [OF _ assms(1) refl])
next
  case 15 then show ?case by (rule defer_update_phase(3) [OF _ assms(1) refl])
next
  case 17 then show ?case by (rule defer_update_phase(4) [OF _ assms(1) refl])
next
  case 18 then show ?case using defer_start_phase(1) [OF _ assms(1) refl] by simp
next
  case 19 then show ?case by (rule defer_start_phase(2) [OF _ assms(1) refl])
next
  case 20 then show ?case by (rule defer_start_phase(3) [OF _ assms(1) refl])
next
  case 21 then show ?case using defer_start_phase(4) [OF _ assms(1) refl] by (auto simp: defer_transfer_def case_prod_unfold)
qed (use assms(2) in \<open>auto simp: defer_sizes_def key_at_def defer_expire_def defer_transfer_def defer_settled_def fun_eq_iff
    not_le split: if_splits prod.splits\<close>)

interpretation q3_defer: debounce_phases "matrix_keys 6 17" "key_at 17" matrix_bit snd "defer_sizes 17 6"
    "\<lambda>x. counters_need_update (snd x)" "\<lambda>x. False" "\<lambda>x. cooked_changed (snd x)"
    "\<lambda>x. last_time (snd x)" "\<lambda>t. apsnd (last_time_update (\<lambda>_. t))" "apsnd (cooked_changed_update (\<lambda>_. False))"
    "update_debounce_counters_and_transfer_if_expired_defer 17 6" "start_debounce_counters_defer 20 17 6"
    defer_expire "\<lambda>e k. False" "defer_transfer 20" defer_idle defer_settled
  by (rule defer_contract) simp_all

section \<open>Properties\<close>

definition defer_key :: "u8 \<Rightarrow> u8 \<Rightarrow> bool \<Rightarrow> u8 \<times> bool \<Rightarrow> u8 \<times> bool" where
  "defer_key D e b k = defer_transfer D b (defer_expire e b k)"

definition defer_start :: "nat \<Rightarrow> nat \<Rightarrow> matrix \<times> defer_state" where
  "defer_start cols rows = (replicate rows 0, debounce_init_defer cols rows
     \<lparr>debounce_counters = [], last_time = 0, counters_need_update = False, cooked_changed = False\<rparr>)"

lemma defer_start_key: "i \<in> matrix_keys rows cols \<Longrightarrow> key_at cols (defer_start cols rows) i = (0, False)"
  by (auto simp: defer_start_def debounce_init_defer_def key_at_def cell_index_less)

lemma defer_start_ready:
  "defer_sizes cols rows (defer_start cols rows)" "\<not> counters_need_update (snd (defer_start cols rows))"
  "\<forall>i\<in>matrix_keys rows cols. defer_settled (matrix_bit (replicate rows 0) i) (key_at cols (defer_start cols rows) i)"
  by (auto simp: defer_start_def debounce_init_defer_def defer_sizes_def defer_settled_def key_at_def matrix_bit_def
      cell_index_less)

lemma defer_run:
  assumes "cols \<le> 32" and "D \<noteq> 0" and "i \<in> matrix_keys rows cols"
  shows "key_at cols (scan_run (debounce_defer D cols rows) (replicate rows 0) xs (defer_start cols rows)) i =
    key_run (defer_key D) t (map (\<lambda>(raw, now). (matrix_bit raw i, now)) xs) (0, False)"
proof -
  have "\<forall>i\<in>matrix_keys rows cols. \<not> defer_idle (key_at cols (defer_start cols rows) i) \<longrightarrow>
      counters_need_update (snd (defer_start cols rows))"
    using defer_start_key by fastforce
  with defer_start_ready(1) show ?thesis
    using debounce_phases.phases_run [OF defer_contract [OF assms(1,2), of rows] _ _ defer_start_ready(3) assms(3), where t = t and xs = xs]
      assms(3) defer_start_ready(2)
    by (simp add: defer_key_def [abs_def] defer_start_key debounce_defer_phases [symmetric])
qed

lemma defer_key_simp:
  "defer_key D e b (n, p) =
    (if n \<noteq> 0 \<and> n \<le> e then (0, b) else (if b = p then 0 else if n = 0 then D else n - e, p))"
  by (auto simp: defer_key_def defer_transfer_def defer_expire_def)

lemma defer_key_waits:
  assumes "n \<le> D" and "n \<noteq> 0 \<Longrightarrow> scan_time t xs < unat n" and "n = 0 \<Longrightarrow> xs \<noteq> [] \<Longrightarrow> scan_time (snd (hd xs)) (tl xs) < unat D"
  shows "snd (key_run (defer_key D) t xs (n, p)) = p"
  using assms
proof (induction xs arbitrary: t n)
  case (Cons x xs)
  obtain b now where x: "x = (b, now)"
    by fastforce
  let ?e = "elapsed8 now t"
  have rest: "scan_time (snd (hd xs)) (tl xs) \<le> scan_time now xs"
    by (cases xs) auto
  have D: "scan_time now xs < unat D"
    using Cons.prems(2,3) \<open>n \<le> D\<close> by (cases "n = 0") (auto simp: x word_le_nat_alt)
  show ?case
  proof (cases "n = 0")
    case True
    then have "defer_key D ?e b (n, p) = (if b = p then 0 else D, p)"
      by (simp add: defer_key_simp)
    moreover have "snd (key_run (defer_key D) now xs (if b = p then 0 else D, p)) = p"
      using rest D by (intro Cons.IH) (auto split: if_splits)
    ultimately show ?thesis
      by (simp add: x)
  next
    case False
    with Cons.prems(2) have e: "?e < n" and r: "scan_time now xs < unat n - unat ?e"
      by (simp_all add: x word_less_nat_alt)
    then have u: "unat (n - ?e) = unat n - unat ?e" and le: "n - ?e \<le> D"
      using \<open>n \<le> D\<close> by (simp_all add: unat_sub word_less_nat_alt word_le_nat_alt)
    have "defer_key D ?e b (n, p) = (if b = p then 0 else n - ?e, p)"
      using e False by (simp add: defer_key_simp not_le)
    moreover have "snd (key_run (defer_key D) now xs (if b = p then 0 else n - ?e, p)) = p"
      using rest D r u le e by (intro Cons.IH) (auto split: if_splits)
    ultimately show ?thesis
      by (simp add: x)
  qed
qed simp

lemma defer_key_stays: "\<forall>x\<in>set xs. fst x = b \<Longrightarrow> snd (key_run (defer_key D) t xs (0, b)) = b"
  by (induction xs arbitrary: t) (auto simp: defer_key_simp)

lemma defer_key_follows:
  assumes "\<forall>x\<in>set xs. fst x = b" and "n \<noteq> 0" and "unat n \<le> scan_time t xs"
  shows "snd (key_run (defer_key D) t xs (n, p)) = b"
  using assms
proof (induction xs arbitrary: t n)
  case (Cons x xs)
  obtain now where x: "x = (b, now)"
    using Cons.prems(1) by (cases x) auto
  have stay: "snd (key_run (defer_key D) now xs (0, b)) = b"
    using Cons.prems(1) by (intro defer_key_stays) simp
  show ?case
  proof (cases "n \<le> elapsed8 now t")
    case True
    with Cons.prems(2) stay show ?thesis
      by (simp add: x defer_key_simp)
  next
    case False
    then have d: "unat (n - elapsed8 now t) = unat n - unat (elapsed8 now t)" and nz: "n - elapsed8 now t \<noteq> 0"
      by (auto simp: unat_sub word_le_nat_alt)
    show ?thesis
    proof (cases "b = p")
      case True
      with False stay Cons.prems(2) show ?thesis
        by (simp add: x defer_key_simp)
    next
      case b: False
      have "snd (key_run (defer_key D) now xs (n - elapsed8 now t, p)) = b"
        using Cons.prems d nz by (intro Cons.IH) (auto simp: x)
      with False b Cons.prems(2) show ?thesis
        by (simp add: x defer_key_simp)
    qed
  qed
qed (simp add: unat_eq_0)

lemma defer_key_bound: "n \<le> D \<Longrightarrow> fst (key_run (defer_key D) t xs (n, p)) \<le> D"
proof (induction xs arbitrary: t n p)
  case (Cons x xs)
  obtain b now n' p' where x: "x = (b, now)" and n': "defer_key D (elapsed8 now t) b (n, p) = (n', p')"
    by (metis surj_pair)
  then have "n' \<le> D"
    using Cons.prems by (auto simp: defer_key_simp word_le_nat_alt unat_sub split: if_splits)
  then show ?case
    using Cons.IH [of n' now p'] n' by (simp add: x)
qed simp

abbreviation defer_matrix :: "u8 \<Rightarrow> nat \<Rightarrow> nat \<Rightarrow> (matrix \<times> u32) list \<Rightarrow> matrix" where
  "defer_matrix D cols rows xs \<equiv>
     fst (scan_run (debounce_defer D cols rows) (replicate rows 0) xs (defer_start cols rows))"

lemma defer_matrix_bit:
  assumes "cols \<le> 32" and "D \<noteq> 0" and "i \<in> matrix_keys rows cols"
  shows "matrix_bit (defer_matrix D cols rows xs) i =
    snd (key_run (defer_key D) 0 (map (\<lambda>(raw, now). (matrix_bit raw i, now)) xs) (0, False))"
proof -
  have "matrix_bit (fst x) i = snd (key_at cols x i)" for x :: "matrix \<times> defer_state"
    by (cases x; cases i) (simp add: matrix_bit_def key_at_def)
  then show ?thesis
    using defer_run [OF assms, of xs 0] by simp
qed

text \<open>Deferred debouncing: when a scan sees a key in its cooked state, the cooked state stays for the next
  \<^verbatim>\<open>DEBOUNCE\<close> milliseconds after the following scan, whatever the raw matrix does; and a raw state that
  lasts \<^verbatim>\<open>DEBOUNCE\<close> milliseconds of scans becomes the cooked state.\<close>

theorem sym_defer_pk_debounces:
  assumes "cols \<le> 32" and "D \<noteq> 0" and "i \<in> matrix_keys rows cols"
  shows "(matrix_bit raw i = matrix_bit (defer_matrix D cols rows pre) i \<and> scan_time now' xs < unat D \<longrightarrow>
      matrix_bit (defer_matrix D cols rows (pre @ (raw, now) # (raw', now') # xs)) i = matrix_bit (defer_matrix D cols rows pre) i) \<and>
    ((\<forall>(raw'', _)\<in>set xs. matrix_bit raw'' i = matrix_bit raw i) \<and> unat D \<le> scan_time now xs \<longrightarrow>
      matrix_bit (defer_matrix D cols rows (pre @ (raw, now) # xs)) i = matrix_bit raw i)"
proof (intro conjI impI; elim conjE)
  let ?m = "map (\<lambda>(raw, now). (matrix_bit raw i, now))"
  obtain n p where k: "key_run (defer_key D) 0 (?m pre) (0, False) = (n, p)"
    by fastforce
  have nD: "n \<le> D"
    using defer_key_bound [of 0 D 0 "?m pre" False] k by simp
  let ?e = "elapsed8 now (scan_clock 0 pre)"
  note run = defer_matrix_bit [OF assms] key_run_append k
  {
    assume "matrix_bit raw i = matrix_bit (defer_matrix D cols rows pre) i" and short: "scan_time now' xs < unat D"
    then have "defer_key D ?e (matrix_bit raw i) (n, p) = (0, p)"
      by (auto simp: run defer_key_simp)
    moreover have "snd (key_run (defer_key D) now ((matrix_bit raw' i, now') # ?m xs) (0, p)) = p"
      using short by (intro defer_key_waits) (simp_all add: scan_time_map)
    ultimately show "matrix_bit (defer_matrix D cols rows (pre @ (raw, now) # (raw', now') # xs)) i =
        matrix_bit (defer_matrix D cols rows pre) i"
      by (simp add: run)
  next
    assume "\<forall>(raw'', _)\<in>set xs. matrix_bit raw'' i = matrix_bit raw i" and long: "unat D \<le> scan_time now xs"
    then have same: "\<forall>x\<in>set (?m xs). fst x = matrix_bit raw i"
      by auto
    obtain n' p' where k': "defer_key D ?e (matrix_bit raw i) (n, p) = (n', p')"
      by fastforce
    have "n' \<le> D" and z: "n' = 0 \<Longrightarrow> p' = matrix_bit raw i"
      using k' nD assms(2) by (auto simp: defer_key_simp word_le_nat_alt unat_sub split: if_splits)
    then have l: "unat n' \<le> scan_time now (?m xs)"
      using long by (simp add: scan_time_map word_le_nat_alt)
    have "snd (key_run (defer_key D) now (?m xs) (n', p')) = matrix_bit raw i"
      using defer_key_stays [OF same] defer_key_follows [OF same _ l] z by (cases "n' = 0") simp_all
    then show "matrix_bit (defer_matrix D cols rows (pre @ (raw, now) # xs)) i = matrix_bit raw i"
      by (simp add: run k')
  }
qed

theorem sym_defer_pk_debounces_witness:
  "\<not> matrix_bit (defer_matrix 5 17 6 [([0, 0, 0, 0, 0, 0], 7), ([0, 4, 0, 0, 0, 0], 9), ([0, 4, 0, 0, 0, 0], 13)]) (1, 2) \<and>
   matrix_bit (defer_matrix 5 17 6 [([0, 4, 0, 0, 0, 0], 9), ([0, 4, 0, 0, 0, 0], 14)]) (1, 2)"
proof -
  have c: "(17 :: nat) \<le> 32" "(5 :: u8) \<noteq> 0" "(1, 2) \<in> matrix_keys 6 17" and b: "bit (4 :: u32) 2"
    by (simp_all add: bit_numeral_word_iff)
  have e: "\<not> matrix_bit (defer_matrix 5 17 6 []) (1, 2)"
    unfolding defer_matrix_bit [OF c] by simp
  have "scan_time 9 [([0, 4, 0, 0, 0, 0 :: u32], 13)] < unat (5 :: u8)"
    and "unat (5 :: u8) \<le> scan_time 9 [([0, 4, 0, 0, 0, 0 :: u32], 14)]"
    by (simp_all add: unat_elapsed8)
  then show ?thesis
    using b e sym_defer_pk_debounces [OF c, where pre = "[]" and raw = "[0, 0, 0, 0, 0, 0]" and now = 7
        and raw' = "[0, 4, 0, 0, 0, 0]" and now' = 9 and xs = "[([0, 4, 0, 0, 0, 0], 13)]"]
      sym_defer_pk_debounces [OF c, where pre = "[]" and raw = "[0, 4, 0, 0, 0, 0]" and now = 9
        and raw' = "[]" and now' = 0 and xs = "[([0, 4, 0, 0, 0, 0], 14)]"]
    by (simp add: matrix_bit_def)
qed

end
