(* ===== verification/Debounce_Asym_Eager_Defer_Pk.thy ===== *)
theory Debounce_Asym_Eager_Defer_Pk
  imports Debounce
begin

text \<open>
  \<^verbatim>\<open>quantum/debounce/asym_eager_defer_pk.c\<close>: a press is reported at once, a release only after the key has
  been up for \<^verbatim>\<open>DEBOUNCE\<close> milliseconds. The counter of a key is a bit field of one flag and seven bits;
  \<open>D\<close> is \<^verbatim>\<open>DEBOUNCE\<close>, between 1 and 127 by the guards of the file.
\<close>

section \<open>Model\<close>

record asym_counter =
  pressed :: bool
  time :: "7 word"

type_synonym asym_state = "asym_counter debounce_state_mnu"

text \<open>\<^verbatim>\<open>debounce_init\<close> sets only the times; the flags of the fresh memory \<open>mem\<close> stay.\<close>

definition debounce_init_asym :: "asym_counter list \<Rightarrow> asym_state \<Rightarrow> asym_state" where
  "debounce_init_asym mem s = s\<lparr>debounce_counters := map (\<lambda>k. k\<lparr>time := 0\<rparr>) mem\<rparr>"

definition update_counter_asym ::
  "nat \<Rightarrow> matrix \<Rightarrow> u8 \<Rightarrow> nat \<Rightarrow> nat \<Rightarrow> matrix \<times> asym_state \<Rightarrow> matrix \<times> asym_state" where
  "update_counter_asym cols raw elapsed_time row col = (\<lambda>(cooked, s).
     let p = row * cols + col; k = debounce_counters s ! p; col_mask = push_bit col 1
     in if time k \<noteq> 0 then
          if ucast (time k) \<le> elapsed_time then
            let s = s\<lparr>debounce_counters := (debounce_counters s)[p := k\<lparr>time := 0\<rparr>]\<rparr>
            in if pressed k then (cooked, s\<lparr>matrix_need_update := True\<rparr>)
               else let cooked_next = (cooked ! row AND NOT col_mask) OR (raw ! row AND col_mask)
                    in (cooked[row := cooked_next],
                        s\<lparr>cooked_changed := cooked_changed s \<or> cooked_next XOR cooked ! row \<noteq> 0\<rparr>)
          else (cooked, s\<lparr>debounce_counters := (debounce_counters s)[p := k\<lparr>time := time k - ucast elapsed_time\<rparr>],
                          counters_need_update := True\<rparr>)
        else (cooked, s))"

definition update_debounce_counters_and_transfer_if_expired_asym ::
  "nat \<Rightarrow> nat \<Rightarrow> matrix \<Rightarrow> u8 \<Rightarrow> matrix \<times> asym_state \<Rightarrow> matrix \<times> asym_state" where
  "update_debounce_counters_and_transfer_if_expired_asym cols num_rows raw elapsed_time = (\<lambda>(cooked, s).
     for_upto num_rows (\<lambda>row. for_upto cols (update_counter_asym cols raw elapsed_time row))
       (cooked, s\<lparr>counters_need_update := False, matrix_need_update := False\<rparr>))"

definition transfer_cell_asym ::
  "7 word \<Rightarrow> nat \<Rightarrow> matrix \<Rightarrow> u32 \<Rightarrow> nat \<Rightarrow> nat \<Rightarrow> matrix \<times> asym_state \<Rightarrow> matrix \<times> asym_state" where
  "transfer_cell_asym D cols raw delta row col = (\<lambda>(cooked, s).
     let p = row * cols + col; k = debounce_counters s ! p; col_mask = push_bit col 1
     in if delta AND col_mask \<noteq> 0 then
          if time k = 0 then
            let k' = \<lparr>pressed = (raw ! row AND col_mask \<noteq> 0), time = D\<rparr>;
                s = s\<lparr>debounce_counters := (debounce_counters s)[p := k'], counters_need_update := True\<rparr>
            in if pressed k' then (cooked[row := cooked ! row XOR col_mask], s\<lparr>cooked_changed := True\<rparr>)
               else (cooked, s)
          else (cooked, s)
        else if time k \<noteq> 0 then
          if \<not> pressed k then (cooked, s\<lparr>debounce_counters := (debounce_counters s)[p := k\<lparr>time := 0\<rparr>]\<rparr>)
          else (cooked, s)
        else (cooked, s))"

definition transfer_matrix_values_asym ::
  "7 word \<Rightarrow> nat \<Rightarrow> nat \<Rightarrow> matrix \<Rightarrow> matrix \<times> asym_state \<Rightarrow> matrix \<times> asym_state" where
  "transfer_matrix_values_asym D cols num_rows raw = (\<lambda>(cooked, s).
     for_upto num_rows (\<lambda>row x. let delta = raw ! row XOR fst x ! row
        in for_upto cols (transfer_cell_asym D cols raw delta row) x)
       (cooked, s\<lparr>matrix_need_update := False\<rparr>))"

definition debounce_asym ::
  "7 word \<Rightarrow> nat \<Rightarrow> nat \<Rightarrow> matrix \<Rightarrow> bool \<Rightarrow> u32 \<Rightarrow> matrix \<times> asym_state \<Rightarrow> bool \<times> matrix \<times> asym_state" where
  "debounce_asym D cols num_rows raw changed now = (\<lambda>(cooked, s).
     let s = s\<lparr>cooked_changed := False\<rparr>;
         updated_last = counters_need_update s;
         (cooked, s) =
           (if counters_need_update s then
              let elapsed_time = elapsed8 now (last_time s); s = s\<lparr>last_time := now\<rparr>
              in if 0 < elapsed_time
                 then update_debounce_counters_and_transfer_if_expired_asym cols num_rows raw elapsed_time (cooked, s)
                 else (cooked, s)
            else (cooked, s));
         (cooked, s) =
           (if changed \<or> matrix_need_update s then
              let s = (if \<not> updated_last then s\<lparr>last_time := now\<rparr> else s)
              in transfer_matrix_values_asym D cols num_rows raw (cooked, s)
            else (cooked, s))
     in (cooked_changed s, cooked, s))"

section \<open>The automaton of one key\<close>

definition asym_expire :: "u8 \<Rightarrow> bool \<Rightarrow> asym_counter \<times> bool \<Rightarrow> asym_counter \<times> bool" where
  "asym_expire e b = (\<lambda>(k, p).
     if time k \<noteq> 0 then
       if ucast (time k) \<le> e then (k\<lparr>time := 0\<rparr>, if pressed k then p else b)
       else (k\<lparr>time := time k - ucast e\<rparr>, p)
     else (k, p))"

definition asym_wakes :: "u8 \<Rightarrow> asym_counter \<times> bool \<Rightarrow> bool" where
  "asym_wakes e k \<longleftrightarrow> time (fst k) \<noteq> 0 \<and> ucast (time (fst k)) \<le> e \<and> pressed (fst k)"

definition asym_transfer :: "7 word \<Rightarrow> bool \<Rightarrow> asym_counter \<times> bool \<Rightarrow> asym_counter \<times> bool" where
  "asym_transfer D b = (\<lambda>(k, p).
     if b \<noteq> p then if time k = 0 then (\<lparr>pressed = b, time = D\<rparr>, p \<or> b) else (k, p)
     else (if time k \<noteq> 0 \<and> \<not> pressed k then k\<lparr>time := 0\<rparr> else k, p))"

abbreviation asym_idle :: "asym_counter \<times> bool \<Rightarrow> bool" where
  "asym_idle k \<equiv> time (fst k) = 0"

definition asym_settled :: "bool \<Rightarrow> asym_counter \<times> bool \<Rightarrow> bool" where
  "asym_settled b = (\<lambda>(k, p). (b \<noteq> p \<longrightarrow> time k \<noteq> 0) \<and> (time k \<noteq> 0 \<and> \<not> pressed k \<longrightarrow> b \<noteq> p))"

section \<open>The loops, key by key\<close>

definition asym_sizes :: "nat \<Rightarrow> nat \<Rightarrow> matrix \<times> asym_state \<Rightarrow> bool" where
  "asym_sizes cols rows = (\<lambda>(cooked, s). length cooked = rows \<and> length (debounce_counters s) = rows * cols)"

abbreviation asym_frame :: "nat \<Rightarrow> nat \<Rightarrow> u32 \<Rightarrow> matrix \<times> asym_state \<Rightarrow> bool" where
  "asym_frame cols rows t x \<equiv> asym_sizes cols rows x \<and> last_time (snd x) = t"

definition asym_flag :: "matrix \<times> asym_state \<Rightarrow> nat \<Rightarrow> bool" where
  "asym_flag = (\<lambda>(cooked, s) x. if x = 0 then counters_need_update s else if x = 1 then matrix_need_update s else cooked_changed s)"

definition asym_update_flag :: "matrix \<Rightarrow> u8 \<Rightarrow> nat \<Rightarrow> nat \<times> nat \<Rightarrow> asym_counter \<times> bool \<Rightarrow> bool" where
  "asym_update_flag raw e x j k \<longleftrightarrow>
     (x = 0 \<and> e < ucast (time (fst k))) \<or> (x = 1 \<and> asym_wakes e k) \<or>
     (1 < x \<and> snd (asym_expire e (matrix_bit raw j) k) \<noteq> snd k)"

lemma unat_ucast_7_8 [simp]: "unat (ucast (w :: 7 word) :: u8) = unat w"
proof -
  have "unat w < 128"
    using unsigned_less [of w] by simp
  then show ?thesis
    by (simp add: unsigned_ucast_eq take_bit_nat_eq_self_iff)
qed

lemma ucast_7_8_eq_0 [simp]: "(ucast (w :: 7 word) :: u8) = 0 \<longleftrightarrow> w = 0"
  by (metis unat_eq_zero unat_ucast_7_8)

lemma update_counter_asym_cell:
  assumes "row < rows" and "col < cols" and "cols \<le> 32" and "asym_frame cols rows t x"
  shows "cell_step (matrix_keys rows cols) (asym_frame cols rows t) (key_at cols) asym_flag
    (\<lambda>j. asym_expire e (matrix_bit raw j)) (asym_update_flag raw e) {(row, col)} x
    (update_counter_asym cols raw e row col x)"
proof -
  have z: "e < ucast (time k) \<longrightarrow> time k \<noteq> 0" for k :: asym_counter
    by auto
  show ?thesis
  using assms cell_index_less [of row rows col cols] z
  by (cases x) (auto simp: cell_step_def asym_sizes_def update_counter_asym_def key_at_simp asym_expire_def asym_flag_def
      asym_update_flag_def asym_wakes_def nth_list_update cell_index_inj matrix_bit_def bit_merge_mask merge_mask_changes Let_def
      not_le xor.commute simp del: bit_simps)
qed

lemma asym_update_phase:
  assumes "asym_sizes cols rows x" and "cols \<le> 32"
    and "x' = update_debounce_counters_and_transfer_if_expired_asym cols rows raw e x"
  shows "asym_sizes cols rows x' \<and> last_time (snd x') = last_time (snd x)"
    and "j \<in> matrix_keys rows cols \<Longrightarrow> key_at cols x' j = asym_expire e (matrix_bit raw j) (key_at cols x j)"
    and "j \<in> matrix_keys rows cols \<Longrightarrow> \<not> asym_idle (key_at cols x' j) \<Longrightarrow> counters_need_update (snd x')"
    and "matrix_need_update (snd x') \<longleftrightarrow> (\<exists>j\<in>matrix_keys rows cols. asym_wakes e (key_at cols x j))"
    and "cooked_changed (snd x') \<longleftrightarrow> cooked_changed (snd x) \<or>
      (\<exists>j\<in>matrix_keys rows cols. snd (asym_expire e (matrix_bit raw j) (key_at cols x j)) \<noteq> snd (key_at cols x j))"
proof -
  obtain cooked s where x: "x = (cooked, s)"
    by fastforce
  let ?x0 = "(cooked, s\<lparr>counters_need_update := False, matrix_need_update := False\<rparr>)"
  have "cell_step (matrix_keys rows cols) (asym_frame cols rows (last_time s)) (key_at cols) asym_flag
    (\<lambda>j. asym_expire e (matrix_bit raw j)) (asym_update_flag raw e) (matrix_keys rows cols) ?x0 x'"
    unfolding assms(3) x update_debounce_counters_and_transfer_if_expired_asym_def prod.case
    by (intro matrix_cells row_cells update_counter_asym_cell) (use assms(1,2) in \<open>auto simp: asym_sizes_def x\<close>)
  note c = cell_stepD [OF this]
  have k0: "key_at cols ?x0 j = key_at cols x j" for j
    by (cases j) (simp add: key_at_def x)
  note fl = asym_flag_def asym_update_flag_def case_prod_unfold x
  show "asym_sizes cols rows x' \<and> last_time (snd x') = last_time (snd x)"
    using c(1) by (simp add: x)
  show key: "key_at cols x' j = asym_expire e (matrix_bit raw j) (key_at cols x j)" if "j \<in> matrix_keys rows cols" for j
    using c(2) [OF that] by (simp only: k0)
  have cnu: "counters_need_update (snd x') \<longleftrightarrow> (\<exists>j\<in>matrix_keys rows cols. e < ucast (time (fst (key_at cols x j))))"
    using c(3) [of 0] by (simp add: k0 fl)
  show "counters_need_update (snd x')" if "j \<in> matrix_keys rows cols" "\<not> asym_idle (key_at cols x' j)"
  proof -
    have "e < ucast (time (fst (key_at cols x j)))"
      using that key [OF that(1)] by (cases "key_at cols x j") (auto simp: asym_expire_def not_le split: if_splits)
    with that(1) show ?thesis
      unfolding cnu by blast
  qed
  show "matrix_need_update (snd x') \<longleftrightarrow> (\<exists>j\<in>matrix_keys rows cols. asym_wakes e (key_at cols x j))"
    using c(3) [of 1] by (simp add: k0 fl)
  show "cooked_changed (snd x') \<longleftrightarrow> cooked_changed (snd x) \<or>
      (\<exists>j\<in>matrix_keys rows cols. snd (asym_expire e (matrix_bit raw j) (key_at cols x j)) \<noteq> snd (key_at cols x j))"
    using c(3) [of 2] by (simp add: k0 fl)
qed

definition asym_transfer_flag :: "matrix \<Rightarrow> nat \<Rightarrow> nat \<times> nat \<Rightarrow> asym_counter \<times> bool \<Rightarrow> bool" where
  "asym_transfer_flag raw x j k \<longleftrightarrow> matrix_bit raw j \<noteq> snd k \<and> time (fst k) = 0 \<and>
     (x = 0 \<or> 1 < x \<and> matrix_bit raw j)"

lemma transfer_cell_asym_cell:
  assumes "row < rows" and "col < cols" and "cols \<le> 32" and "asym_frame cols rows t x"
    and "snd (key_at cols x (row, col)) = bit (cooked0 ! row) col"
  shows "cell_step (matrix_keys rows cols) (asym_frame cols rows t) (key_at cols) asym_flag
    (\<lambda>j. asym_transfer D (matrix_bit raw j)) (asym_transfer_flag raw) {(row, col)} x
    (transfer_cell_asym D cols raw (raw ! row XOR cooked0 ! row) row col x)"
  using assms cell_index_less [of row rows col cols]
  by (cases x) (auto simp: cell_step_def asym_sizes_def transfer_cell_asym_def key_at_simp asym_transfer_def asym_flag_def
      asym_transfer_flag_def nth_list_update cell_index_inj matrix_bit_def bit_xor_iff bit_mask_word Let_def)

lemma asym_transfer_phase:
  assumes "asym_sizes cols rows x" and "cols \<le> 32" and "x' = transfer_matrix_values_asym D cols rows raw x"
  shows "asym_sizes cols rows x' \<and> last_time (snd x') = last_time (snd x) \<and> \<not> matrix_need_update (snd x')"
    and "j \<in> matrix_keys rows cols \<Longrightarrow> key_at cols x' j = asym_transfer D (matrix_bit raw j) (key_at cols x j)"
    and "j \<in> matrix_keys rows cols \<Longrightarrow> \<not> asym_idle (key_at cols x' j) \<Longrightarrow>
      counters_need_update (snd x) \<or> asym_idle (key_at cols x j) \<Longrightarrow> counters_need_update (snd x')"
    and "cooked_changed (snd x') \<longleftrightarrow> cooked_changed (snd x) \<or>
      (\<exists>j\<in>matrix_keys rows cols. snd (asym_transfer D (matrix_bit raw j) (key_at cols x j)) \<noteq> snd (key_at cols x j))"
proof -
  obtain cooked s where x: "x = (cooked, s)"
    by fastforce
  let ?x0 = "(cooked, s\<lparr>matrix_need_update := False\<rparr>)"
  have "cell_step (matrix_keys rows cols) (asym_frame cols rows (last_time s)) (key_at cols) asym_flag
    (\<lambda>j. asym_transfer D (matrix_bit raw j)) (asym_transfer_flag raw) (matrix_keys rows cols) ?x0 x'"
    unfolding assms(3) x transfer_matrix_values_asym_def prod.case Let_def
    by (intro matrix_cells row_cells transfer_cell_asym_cell)
      (use assms(1,2) in \<open>auto simp: asym_sizes_def key_at_def case_prod_unfold x\<close>)
  note c = cell_stepD [OF this]
  have k0: "key_at cols ?x0 j = key_at cols x j" for j
    by (cases j) (simp add: key_at_def x)
  note fl = asym_flag_def asym_transfer_flag_def case_prod_unfold x
  have "\<not> matrix_need_update (snd x')"
    using c(3) [of 1] by (simp add: k0 fl)
  then show "asym_sizes cols rows x' \<and> last_time (snd x') = last_time (snd x) \<and> \<not> matrix_need_update (snd x')"
    using c(1) by (simp add: x)
  show key: "key_at cols x' j = asym_transfer D (matrix_bit raw j) (key_at cols x j)" if "j \<in> matrix_keys rows cols" for j
    using c(2) [OF that] by (simp only: k0)
  have cnu: "counters_need_update (snd x') \<longleftrightarrow> counters_need_update (snd x) \<or>
      (\<exists>j\<in>matrix_keys rows cols. matrix_bit raw j \<noteq> snd (key_at cols x j) \<and> time (fst (key_at cols x j)) = 0)"
    using c(3) [of 0] by (simp add: k0 fl)
  show "counters_need_update (snd x')" if "j \<in> matrix_keys rows cols" "\<not> asym_idle (key_at cols x' j)"
    "counters_need_update (snd x) \<or> asym_idle (key_at cols x j)"
  proof -
    have "counters_need_update (snd x) \<or> matrix_bit raw j \<noteq> snd (key_at cols x j) \<and> time (fst (key_at cols x j)) = 0"
      using that(2,3) key [OF that(1)] by (cases "key_at cols x j") (auto simp: asym_transfer_def split: if_splits)
    with that(1) show ?thesis
      unfolding cnu by blast
  qed
  have fl2: "snd (asym_transfer D b k) \<noteq> snd k \<longleftrightarrow> b \<noteq> snd k \<and> time (fst k) = 0 \<and> b" for b k
    by (cases k) (auto simp: asym_transfer_def)
  show "cooked_changed (snd x') \<longleftrightarrow> cooked_changed (snd x) \<or>
      (\<exists>j\<in>matrix_keys rows cols. snd (asym_transfer D (matrix_bit raw j) (key_at cols x j)) \<noteq> snd (key_at cols x j))"
    unfolding fl2 using c(3) [of 2] by (simp add: k0 fl)
qed

section \<open>The contract\<close>

lemma debounce_asym_phases:
  "debounce_asym D cols rows = phases_call (\<lambda>x. counters_need_update (snd x)) (\<lambda>x. matrix_need_update (snd x))
    (\<lambda>x. cooked_changed (snd x)) (\<lambda>x. last_time (snd x)) (\<lambda>t. apsnd (last_time_update (\<lambda>_. t)))
    (apsnd (cooked_changed_update (\<lambda>_. False))) (update_debounce_counters_and_transfer_if_expired_asym cols rows)
    (transfer_matrix_values_asym D cols rows)"
  by (auto simp: fun_eq_iff debounce_asym_def phases_call_def Let_def split: prod.splits)

lemma asym_key_laws:
  assumes "D \<noteq> 0"
  shows "asym_idle k \<Longrightarrow> asym_expire e b k = k \<and> \<not> asym_wakes e k"
    and "asym_expire 0 b k = k \<and> \<not> asym_wakes 0 k"
    and "asym_settled b (asym_transfer D b k)"
    and "asym_settled b k \<Longrightarrow> \<not> asym_wakes e k \<Longrightarrow> asym_transfer D b (asym_expire e b k) = asym_expire e b k"
    and "snd (asym_expire e b k) \<noteq> snd k \<Longrightarrow> snd (asym_transfer D b (asym_expire e b k)) = snd (asym_expire e b k)"
proof -
  have nz: "time j - ucast e \<noteq> 0" if "\<not> ucast (time j) \<le> e" for j :: asym_counter
  proof
    assume "time j - ucast e = 0"
    then have "unat (time j) = unat e mod 128"
      by (simp add: unsigned_ucast_eq take_bit_nat_def)
    then show False
      using that by (simp add: word_le_nat_alt)
  qed
  show "asym_idle k \<Longrightarrow> asym_expire e b k = k \<and> \<not> asym_wakes e k"
    by (cases k) (auto simp: asym_expire_def asym_wakes_def)
  show "asym_expire 0 b k = k \<and> \<not> asym_wakes 0 k"
    by (cases k) (auto simp: asym_expire_def asym_wakes_def)
  show "asym_settled b (asym_transfer D b k)"
    using assms by (cases k) (auto simp: asym_transfer_def asym_settled_def)
  show "asym_settled b k \<Longrightarrow> \<not> asym_wakes e k \<Longrightarrow> asym_transfer D b (asym_expire e b k) = asym_expire e b k"
    using nz [of "fst k"] by (cases k) (auto simp: asym_transfer_def asym_settled_def asym_wakes_def asym_expire_def)
  show "snd (asym_expire e b k) \<noteq> snd k \<Longrightarrow> snd (asym_transfer D b (asym_expire e b k)) = snd (asym_expire e b k)"
    by (cases k) (auto simp: asym_transfer_def asym_expire_def split: if_splits)
qed

lemma asym_contract:
  assumes "cols \<le> 32" and "D \<noteq> 0"
  shows "debounce_phases (matrix_keys rows cols) (key_at cols) matrix_bit snd (asym_sizes cols rows)
    (\<lambda>x. counters_need_update (snd x)) (\<lambda>x. matrix_need_update (snd x)) (\<lambda>x. cooked_changed (snd x))
    (\<lambda>x. last_time (snd x)) (\<lambda>t. apsnd (last_time_update (\<lambda>_. t))) (apsnd (cooked_changed_update (\<lambda>_. False)))
    (update_debounce_counters_and_transfer_if_expired_asym cols rows) (transfer_matrix_values_asym D cols rows)
    asym_expire asym_wakes (asym_transfer D) asym_idle asym_settled"
proof (unfold_locales, goal_cases)
  case 13 then show ?case by (rule asym_update_phase(1) [OF _ assms(1) refl])
next
  case 14 then show ?case by (rule asym_update_phase(2) [OF _ assms(1) refl])
next
  case 15 then show ?case by (rule asym_update_phase(3) [OF _ assms(1) refl])
next
  case 16 then show ?case by (rule asym_update_phase(4) [OF _ assms(1) refl])
next
  case 17 then show ?case by (rule asym_update_phase(5) [OF _ assms(1) refl])
next
  case 18 then show ?case by (rule asym_transfer_phase(1) [OF _ assms(1) refl])
next
  case 19 then show ?case by (rule asym_transfer_phase(2) [OF _ assms(1) refl])
next
  case 20 then show ?case by (rule asym_transfer_phase(3) [OF _ assms(1) refl])
next
  case 21 then show ?case by (rule asym_transfer_phase(4) [OF _ assms(1) refl])
qed (simp_all add: asym_key_laws [OF assms(2)] asym_sizes_def key_at_def fun_eq_iff case_prod_unfold)

interpretation q3_asym: debounce_phases "matrix_keys 6 17" "key_at 17" matrix_bit snd "asym_sizes 17 6"
    "\<lambda>x. counters_need_update (snd x)" "\<lambda>x. matrix_need_update (snd x)" "\<lambda>x. cooked_changed (snd x)"
    "\<lambda>x. last_time (snd x)" "\<lambda>t. apsnd (last_time_update (\<lambda>_. t))" "apsnd (cooked_changed_update (\<lambda>_. False))"
    "update_debounce_counters_and_transfer_if_expired_asym 17 6" "transfer_matrix_values_asym 20 17 6"
    asym_expire asym_wakes "asym_transfer 20" asym_idle asym_settled
  by (rule asym_contract) simp_all

section \<open>What a key does\<close>

definition asym_key :: "7 word \<Rightarrow> u8 \<Rightarrow> bool \<Rightarrow> asym_counter \<times> bool \<Rightarrow> asym_counter \<times> bool" where
  "asym_key D e b k = asym_transfer D b (asym_expire e b k)"

text \<open>The three kinds of states a key goes through: up (no counter), down (possibly within the time of
  its press) and in release (up for less than \<^verbatim>\<open>DEBOUNCE\<close>, still reported as down).\<close>

definition asym_up :: "asym_counter \<times> bool \<Rightarrow> bool" where
  "asym_up = (\<lambda>(k, p). \<not> p \<and> time k = 0)"

definition asym_down :: "7 word \<Rightarrow> asym_counter \<times> bool \<Rightarrow> bool" where
  "asym_down D = (\<lambda>(k, p). p \<and> time k \<le> D \<and> (time k \<noteq> 0 \<longrightarrow> pressed k))"

definition asym_release :: "7 word \<Rightarrow> asym_counter \<times> bool \<Rightarrow> bool" where
  "asym_release D = (\<lambda>(k, p). p \<and> time k \<noteq> 0 \<and> time k \<le> D \<and> \<not> pressed k)"

lemmas asym_kinds = asym_up_def asym_down_def asym_release_def

lemma asym_count_down:
  assumes "\<not> ucast (n :: 7 word) \<le> (e :: u8)"
  shows "unat (n - ucast e) = unat n - unat e" and "n - ucast e \<noteq> 0" and "n - ucast e \<le> n"
proof -
  have "unat n < 128"
    using unsigned_less [of n] by simp
  then have e: "unat e < unat n" "unat e < 128"
    using assms by (simp_all add: word_le_nat_alt)
  then have "unat (ucast e :: 7 word) = unat e"
    by (simp add: unsigned_ucast_eq take_bit_nat_eq_self_iff)
  then show u: "unat (n - ucast e) = unat n - unat e"
    using e by (simp add: unat_sub word_le_nat_alt)
  show "n - ucast e \<noteq> 0"
    using u e by (metis diff_is_0_eq not_le unat_0)
  show "n - ucast e \<le> n"
    using u by (simp add: word_le_nat_alt)
qed

lemma asym_key_True: "asym_up k \<or> asym_down D k \<or> asym_release D k \<Longrightarrow> asym_down D (asym_key D e True k)"
  using asym_count_down(2,3) [of "time (fst k)" e]
  by (cases k) (auto simp: asym_kinds asym_key_def asym_transfer_def asym_expire_def intro: order_trans)

lemma asym_key_False:
  assumes "D \<noteq> 0"
  shows "asym_up k \<Longrightarrow> asym_up (asym_key D e False k)"
    and "asym_down D k \<Longrightarrow> asym_down D (asym_key D e False k) \<or> asym_release D (asym_key D e False k)"
    and "asym_release D k \<Longrightarrow> asym_up (asym_key D e False k) \<or> asym_release D (asym_key D e False k)"
  using asym_count_down(2,3) [of "time (fst k)" e] assms
  by (cases k; auto simp: asym_kinds asym_key_def asym_transfer_def asym_expire_def intro: order_trans)+

lemma asym_key_kinds:
  assumes "D \<noteq> 0" and "asym_up k \<or> asym_down D k \<or> asym_release D k"
  shows "asym_up (key_run (asym_key D) t xs k) \<or> asym_down D (key_run (asym_key D) t xs k) \<or> asym_release D (key_run (asym_key D) t xs k)"
  using assms(2)
proof (induction xs arbitrary: t k)
  case (Cons x xs)
  obtain b now where x: "x = (b, now)"
    by fastforce
  let ?k = "asym_key D (elapsed8 now t) b k"
  have "asym_up ?k \<or> asym_down D ?k \<or> asym_release D ?k"
    using asym_key_True [OF Cons.prems] asym_key_False [OF assms(1), of k] Cons.prems by (cases b) metis+
  then show ?case
    using Cons.IH by (simp add: x)
qed simp

lemma asym_key_wait_step:
  assumes "D \<noteq> 0" and "asym_down D (k, p) \<or> asym_release D (k, p)"
    and "asym_release D (k, p) \<Longrightarrow> unat e < unat (time k)" and "asym_key D e b (k, p) = (k', p')"
  shows "asym_down D (k', p') \<or>
    asym_release D (k', p') \<and> (if asym_release D (k, p) then unat (time k') = unat (time k) - unat e else time k' = D)"
  using assms asym_count_down [of "time k" e]
  by (cases b) (auto simp: asym_kinds asym_key_def asym_transfer_def asym_expire_def word_le_nat_alt split: if_splits)

lemma asym_key_waits:
  assumes "D \<noteq> 0" and "asym_down D (k, p) \<or> asym_release D (k, p)"
    and "asym_release D (k, p) \<Longrightarrow> scan_time t xs < unat (time k)"
    and "asym_down D (k, p) \<Longrightarrow> xs \<noteq> [] \<Longrightarrow> scan_time (snd (hd xs)) (tl xs) < unat D"
  shows "snd (key_run (asym_key D) t xs (k, p))"
  using assms(2-4)
proof (induction xs arbitrary: t k p)
  case (Cons x xs)
  obtain b now where x: "x = (b, now)"
    by fastforce
  obtain k' p' where k': "asym_key D (elapsed8 now t) b (k, p) = (k', p')"
    by fastforce
  have rest: "scan_time (snd (hd xs)) (tl xs) \<le> scan_time now xs"
    by (cases xs) auto
  have D: "scan_time now xs < unat D"
    using Cons.prems by (auto simp: x asym_release_def word_le_nat_alt)
  have st: "asym_down D (k', p') \<or> asym_release D (k', p') \<and>
      (if asym_release D (k, p) then unat (time k') = unat (time k) - unat (elapsed8 now t) else time k' = D)"
    using Cons.prems(1,2) by (intro asym_key_wait_step [OF assms(1) _ _ k']) (auto simp: x)
  have "snd (key_run (asym_key D) now xs (k', p'))"
  proof (rule Cons.IH)
    show "asym_down D (k', p') \<or> asym_release D (k', p')"
      using st by blast
    show "scan_time now xs < unat (time k')" if "asym_release D (k', p')"
      using st that D Cons.prems(2) by (auto simp: x asym_kinds split: if_splits)
    show "scan_time (snd (hd xs)) (tl xs) < unat D"
      using rest D by simp
  qed
  then show ?case
    by (simp add: x k')
qed (auto simp: asym_kinds)

lemma asym_False_invariant:
  assumes "\<And>e k. P k \<Longrightarrow> P (asym_key D e False k)" and "\<forall>x\<in>set xs. \<not> fst x" and "P k"
  shows "P (key_run (asym_key D) t xs k)"
  using assms(2,3)
proof (induction xs arbitrary: t k)
  case (Cons x xs)
  obtain now where x: "x = (False, now)"
    using Cons.prems(1) by (cases x) auto
  have "P (key_run (asym_key D) now xs (asym_key D (elapsed8 now t) False k))"
    using Cons.prems assms(1) by (intro Cons.IH) simp_all
  then show ?case
    by (simp add: x)
qed simp

lemma asym_up_stays:
  assumes "D \<noteq> 0" and "\<forall>x\<in>set xs. \<not> fst x" and "asym_up k"
  shows "asym_up (key_run (asym_key D) t xs k)"
  using asym_key_False(1) [OF assms(1)] assms(2,3) by (rule asym_False_invariant)

lemma asym_not_down_stays:
  assumes "D \<noteq> 0" and "\<forall>x\<in>set xs. \<not> fst x" and "asym_up k \<or> asym_release D k"
  shows "\<not> asym_down D (key_run (asym_key D) t xs k)"
proof -
  have "asym_up (key_run (asym_key D) t xs k) \<or> asym_release D (key_run (asym_key D) t xs k)"
    by (rule asym_False_invariant [where P = "\<lambda>k. asym_up k \<or> asym_release D k", OF _ assms(2,3)]) (use asym_key_False [OF assms(1)] in metis)
  then show ?thesis
    by (auto simp: asym_kinds)
qed

text \<open>While the raw state is up: a release completes, and a press time runs out into a release.\<close>

lemma asym_release_completes:
  assumes "D \<noteq> 0" and "\<forall>x\<in>set xs. \<not> fst x" and "asym_release D (k, p)" and "unat (time k) \<le> scan_time t xs"
  shows "asym_up (key_run (asym_key D) t xs (k, p))"
  using assms(2-4)
proof (induction xs arbitrary: t k p)
  case (Cons x xs)
  obtain now where x: "x = (False, now)"
    using Cons.prems(1) by (cases x) auto
  obtain k' p' where k': "asym_key D (elapsed8 now t) False (k, p) = (k', p')"
    by fastforce
  have "asym_up (k', p') \<or> asym_release D (k', p') \<and> unat (time k') = unat (time k) - unat (elapsed8 now t)"
    using Cons.prems(2) k' asym_count_down [of "time k" "elapsed8 now t"]
    by (auto simp: asym_kinds asym_key_def asym_transfer_def asym_expire_def word_le_nat_alt split: if_splits)
  then have "asym_up (key_run (asym_key D) now xs (k', p'))"
  proof
    assume "asym_up (k', p')"
    with Cons.prems(1) show ?thesis
      by (intro asym_up_stays assms(1)) simp_all
  next
    assume "asym_release D (k', p') \<and> unat (time k') = unat (time k) - unat (elapsed8 now t)"
    with Cons.prems show ?thesis
      by (intro Cons.IH) (simp_all add: x)
  qed
  then show ?case
    by (simp add: x k')
qed (auto simp: asym_kinds unat_eq_0)

lemma asym_press_ends:
  assumes "D \<noteq> 0" and "\<forall>x\<in>set xs. \<not> fst x" and "xs \<noteq> []" and "asym_down D (k, p)" and "unat (time k) \<le> scan_time t xs"
  shows "\<not> asym_down D (key_run (asym_key D) t xs (k, p))"
  using assms(2-5)
proof (induction xs arbitrary: t k p)
  case (Cons x xs)
  obtain now where x: "x = (False, now)"
    using Cons.prems(1) by (cases x) auto
  obtain k' p' where k': "asym_key D (elapsed8 now t) False (k, p) = (k', p')"
    by fastforce
  have st: "asym_release D (k', p') \<or> asym_down D (k', p') \<and> 0 < unat (time k') \<and> unat (time k') = unat (time k) - unat (elapsed8 now t)"
    using Cons.prems(3) k' assms(1) asym_count_down [of "time k" "elapsed8 now t"]
    by (auto simp: asym_kinds asym_key_def asym_transfer_def asym_expire_def word_le_nat_alt unat_gt_0 split: if_splits)
  show ?case
  proof (cases "asym_release D (k', p')")
    case True
    with asym_not_down_stays [OF assms(1), of xs "(k', p')" now] Cons.prems(1) show ?thesis
      by (simp add: x k')
  next
    case False
    with st have "asym_down D (k', p')" "0 < unat (time k')" "unat (time k') = unat (time k) - unat (elapsed8 now t)"
      by auto
    moreover from this Cons.prems(4) have "xs \<noteq> []"
      by (auto simp: x)
    ultimately have "\<not> asym_down D (key_run (asym_key D) now xs (k', p'))"
      using Cons.prems by (intro Cons.IH) (simp_all add: x)
    then show ?thesis
      by (simp add: x k')
  qed
qed simp

lemma asym_two_spans:
  assumes D: "D \<noteq> 0" and kinds: "asym_up k \<or> asym_down D k \<or> asym_release D k"
    and F: "\<forall>x\<in>set ys. \<not> fst x" "\<forall>x\<in>set zs. \<not> fst x"
    and t: "unat D \<le> scan_time t1 ys" "unat D \<le> scan_time t2 zs"
  shows "asym_up (key_run (asym_key D) t2 zs (key_run (asym_key D) t1 ys k))"
proof -
  obtain k2 p2 where k2: "key_run (asym_key D) t1 ys k = (k2, p2)"
    by fastforce
  have "ys \<noteq> []"
    using D t(1) by (cases ys) (simp_all add: unat_eq_0)
  have "\<not> asym_down D (k2, p2)"
  proof (cases "asym_down D k")
    case True
    then have "unat (time (fst k)) \<le> unat D"
      by (auto simp: asym_down_def word_le_nat_alt)
    then show ?thesis
      using asym_press_ends [OF D F(1), of "fst k" "snd k" t1] True t(1) \<open>ys \<noteq> []\<close> k2 by simp
  next
    case False
    with kinds show ?thesis
      using asym_not_down_stays [OF D F(1), of k t1] k2 by auto
  qed
  then have "asym_up (k2, p2) \<or> asym_release D (k2, p2)"
    using asym_key_kinds [OF D kinds, of t1 ys] k2 by auto
  moreover have "unat (time k2) \<le> scan_time t2 zs" if "asym_release D (k2, p2)"
    using that t(2) by (simp add: asym_release_def word_le_nat_alt)
  ultimately show ?thesis
    unfolding k2 using asym_up_stays [OF D F(2)] asym_release_completes [OF D F(2)] by blast
qed

section \<open>Properties\<close>

definition asym_start :: "nat \<Rightarrow> asym_counter list \<Rightarrow> matrix \<times> asym_state" where
  "asym_start rows mem = (replicate rows 0, debounce_init_asym mem
     \<lparr>debounce_counters = [], last_time = 0, counters_need_update = False, cooked_changed = False, matrix_need_update = False\<rparr>)"

lemma asym_start_key:
  assumes "length mem = rows * cols" and "i \<in> matrix_keys rows cols"
  shows "asym_up (key_at cols (asym_start rows mem) i)"
  using assms cell_index_less by (auto simp: asym_start_def debounce_init_asym_def key_at_def asym_up_def)

lemma asym_start_ready:
  assumes "length mem = rows * cols"
  shows "asym_sizes cols rows (asym_start rows mem)" and "\<not> matrix_need_update (snd (asym_start rows mem))"
    and "\<not> counters_need_update (snd (asym_start rows mem))"
    and "\<forall>i\<in>matrix_keys rows cols. asym_settled (matrix_bit (replicate rows 0) i) (key_at cols (asym_start rows mem) i)"
  using assms asym_start_key [OF assms]
  by (auto simp: asym_start_def debounce_init_asym_def asym_sizes_def asym_settled_def asym_up_def key_at_def matrix_bit_def)

lemma asym_run:
  assumes "cols \<le> 32" and "D \<noteq> 0" and "length mem = rows * cols" and "i \<in> matrix_keys rows cols"
  shows "key_at cols (scan_run (debounce_asym D cols rows) (replicate rows 0) xs (asym_start rows mem)) i =
    key_run (asym_key D) t (map (\<lambda>(raw, now). (matrix_bit raw i, now)) xs) (key_at cols (asym_start rows mem) i)"
proof -
  have "\<forall>i\<in>matrix_keys rows cols. \<not> asym_idle (key_at cols (asym_start rows mem) i) \<longrightarrow>
      counters_need_update (snd (asym_start rows mem))"
    using asym_start_key [OF assms(3)] by (auto simp: asym_up_def case_prod_unfold)
  with asym_start_ready [OF assms(3)] show ?thesis
    using debounce_phases.phases_run [OF asym_contract [OF assms(1,2), of rows] _ _ asym_start_ready(4) [OF assms(3)] assms(4),
        where t = t and xs = xs]
    by (simp add: asym_key_def [abs_def] debounce_asym_phases [symmetric])
qed

abbreviation asym_matrix :: "7 word \<Rightarrow> nat \<Rightarrow> nat \<Rightarrow> asym_counter list \<Rightarrow> (matrix \<times> u32) list \<Rightarrow> matrix" where
  "asym_matrix D cols rows mem xs \<equiv>
     fst (scan_run (debounce_asym D cols rows) (replicate rows 0) xs (asym_start rows mem))"

lemma asym_matrix_bit:
  assumes "cols \<le> 32" and "D \<noteq> 0" and "length mem = rows * cols" and "i \<in> matrix_keys rows cols"
  shows "matrix_bit (asym_matrix D cols rows mem xs) i =
    snd (key_run (asym_key D) 0 (map (\<lambda>(raw, now). (matrix_bit raw i, now)) xs) (key_at cols (asym_start rows mem) i))"
proof -
  have "matrix_bit (fst x) i = snd (key_at cols x i)" for x :: "matrix \<times> asym_state"
    by (cases x; cases i) (simp add: matrix_bit_def key_at_def)
  then show ?thesis
    using asym_run [OF assms, of xs 0] by simp
qed

text \<open>A scan that sees a key down always leaves it reported as down, and then the key stays reported as
  down for \<^verbatim>\<open>DEBOUNCE\<close> milliseconds after the next scan, whatever the raw matrix does; a key that is up for
  two consecutive spans of \<^verbatim>\<open>DEBOUNCE\<close> milliseconds is reported as up.\<close>

theorem asym_eager_defer_pk_debounces:
  assumes "cols \<le> 32" and "D \<noteq> 0" and "length mem = rows * cols" and "i \<in> matrix_keys rows cols"
  shows "(matrix_bit raw i \<longrightarrow> matrix_bit (asym_matrix D cols rows mem (pre @ [(raw, now)])) i) \<and>
    (matrix_bit raw i \<and> scan_time now' xs < unat D \<longrightarrow>
      matrix_bit (asym_matrix D cols rows mem (pre @ (raw, now) # (raw', now') # xs)) i) \<and>
    ((\<forall>(raw'', _)\<in>set (ys @ zs). \<not> matrix_bit raw'' i) \<and> unat D \<le> scan_time (scan_clock 0 pre) ys \<and>
      unat D \<le> scan_time (scan_clock (scan_clock 0 pre) ys) zs \<longrightarrow>
      \<not> matrix_bit (asym_matrix D cols rows mem (pre @ ys @ zs)) i)"
proof -
  let ?m = "map (\<lambda>(raw, now). (matrix_bit raw i, now))"
  let ?k0 = "key_run (asym_key D) 0 (?m pre) (key_at cols (asym_start rows mem) i)"
  have kinds: "asym_up ?k0 \<or> asym_down D ?k0 \<or> asym_release D ?k0"
    using asym_key_kinds [OF assms(2)] asym_start_key [OF assms(3,4)] by blast
  note run = asym_matrix_bit [OF assms] key_run_append
  let ?k1 = "asym_key D (elapsed8 now (scan_clock 0 pre)) True ?k0"
  have down: "asym_down D ?k1"
    using asym_key_True [OF kinds] .
  have "snd ?k1"
    using down by (auto simp: asym_down_def)
  moreover have "snd (key_run (asym_key D) now ((b, now') # ?m xs) ?k1)" if "scan_time now' xs < unat D" for b
  proof -
    obtain k p where k: "?k1 = (k, p)"
      by fastforce
    then have "\<not> asym_release D (k, p)"
      using down by (auto simp: asym_kinds)
    with that down k show ?thesis
      unfolding k by (intro asym_key_waits [OF assms(2)]) (simp_all add: scan_time_map)
  qed
  moreover have "\<not> snd (key_run (asym_key D) t2 (?m zs) (key_run (asym_key D) t1 (?m ys) ?k0))"
    if up: "\<forall>(raw'', _)\<in>set (ys @ zs). \<not> matrix_bit raw'' i" and t: "unat D \<le> scan_time t1 ys" "unat D \<le> scan_time t2 zs" for t1 t2
  proof -
    have "\<forall>x\<in>set (?m ys). \<not> fst x" "\<forall>x\<in>set (?m zs). \<not> fst x"
      using up by (auto simp: case_prod_unfold)
    then have "asym_up (key_run (asym_key D) t2 (?m zs) (key_run (asym_key D) t1 (?m ys) ?k0))"
      using t by (intro asym_two_spans [OF assms(2) kinds]) (simp_all add: scan_time_map)
    then show ?thesis
      by (auto simp: asym_up_def)
  qed
  ultimately show ?thesis
    by (simp add: run)
qed

theorem asym_eager_defer_pk_debounces_witness:
  "matrix_bit (asym_matrix 5 17 6 (replicate 102 \<lparr>pressed = True, time = 9\<rparr>) [([0, 4, 0, 0, 0, 0], 7), ([0, 0, 0, 0, 0, 0], 8), ([0, 0, 0, 0, 0, 0], 12)]) (1, 2) \<and>
   \<not> matrix_bit (asym_matrix 5 17 6 (replicate 102 \<lparr>pressed = True, time = 9\<rparr>)
     [([0, 4, 0, 0, 0, 0], 7), ([0, 0, 0, 0, 0, 0], 12), ([0, 0, 0, 0, 0, 0], 17)]) (1, 2)"
proof -
  let ?mem = "replicate 102 \<lparr>pressed = True, time = 9\<rparr>"
  have c: "(17 :: nat) \<le> 32" "(5 :: 7 word) \<noteq> 0" "length ?mem = 6 * 17" "(1, 2) \<in> matrix_keys 6 17" and b: "bit (4 :: u32) 2"
    by (simp_all add: bit_numeral_word_iff)
  have "scan_time 8 [([0, 0, 0, 0, 0, 0 :: u32], 12)] < unat (5 :: 7 word)"
    and "unat (5 :: 7 word) \<le> scan_time 7 [([0, 0, 0, 0, 0, 0 :: u32], 12)]"
    and "unat (5 :: 7 word) \<le> scan_time 12 [([0, 0, 0, 0, 0, 0 :: u32], 17)]"
    by (simp_all add: unat_elapsed8)
  then show ?thesis
    using b asym_eager_defer_pk_debounces [OF c, where pre = "[]" and raw = "[0, 4, 0, 0, 0, 0]" and now = 7
        and raw' = "[0, 0, 0, 0, 0, 0]" and now' = 8 and xs = "[([0, 0, 0, 0, 0, 0], 12)]" and ys = "[]" and zs = "[]"]
      asym_eager_defer_pk_debounces [OF c, where pre = "[([0, 4, 0, 0, 0, 0], 7)]" and raw = "[]" and now = 0
        and raw' = "[]" and now' = 0 and xs = "[]" and ys = "[([0, 0, 0, 0, 0, 0], 12)]" and zs = "[([0, 0, 0, 0, 0, 0], 17)]"]
    by (simp add: matrix_bit_def)
qed

end
