(* ===== verification/Debounce_Rows.thy ===== *)
theory Debounce_Rows
  imports Debounce_Sym_Eager_Pk
begin

text \<open>
  The debounce algorithms of \<^verbatim>\<open>quantum/debounce\<close> that treat a row or the whole matrix as a unit:
  \<^verbatim>\<open>sym_eager_pr.c\<close>, \<^verbatim>\<open>sym_defer_pr.c\<close>, \<^verbatim>\<open>sym_defer_g.c\<close> and \<^verbatim>\<open>none.c\<close>. A row of \<^verbatim>\<open>sym_eager_pr\<close> behaves as a key of
  \<^verbatim>\<open>sym_eager_pk\<close> whose state is a whole row; it meets the same contract.
\<close>

section \<open>sym_eager_pr\<close>

subsection \<open>Model\<close>

type_synonym eager_pr_state = "u8 debounce_state_mnu"

definition debounce_init_eager_pr :: "nat \<Rightarrow> eager_pr_state \<Rightarrow> eager_pr_state" where
  "debounce_init_eager_pr num_rows s = s\<lparr>debounce_counters := replicate num_rows 0\<rparr>"

definition update_counter_eager_pr :: "u8 \<Rightarrow> nat \<Rightarrow> eager_pr_state \<Rightarrow> eager_pr_state" where
  "update_counter_eager_pr elapsed_time row s =
     (if debounce_counters s ! row \<noteq> 0 then
        if debounce_counters s ! row \<le> elapsed_time
        then s\<lparr>debounce_counters := (debounce_counters s)[row := 0], matrix_need_update := True\<rparr>
        else s\<lparr>debounce_counters := (debounce_counters s)[row := debounce_counters s ! row - elapsed_time],
               counters_need_update := True\<rparr>
      else s)"

definition update_debounce_counters_eager_pr :: "nat \<Rightarrow> u8 \<Rightarrow> eager_pr_state \<Rightarrow> eager_pr_state" where
  "update_debounce_counters_eager_pr num_rows elapsed_time s =
     for_upto num_rows (update_counter_eager_pr elapsed_time)
       (s\<lparr>counters_need_update := False, matrix_need_update := False\<rparr>)"

definition transfer_row_eager_pr :: "u8 \<Rightarrow> matrix \<Rightarrow> nat \<Rightarrow> matrix \<times> eager_pr_state \<Rightarrow> matrix \<times> eager_pr_state" where
  "transfer_row_eager_pr D raw row = (\<lambda>(cooked, s).
     let existing_row = cooked ! row; raw_row = raw ! row
     in if existing_row \<noteq> raw_row then
          if debounce_counters s ! row = 0 then
            (cooked[row := raw_row],
             s\<lparr>debounce_counters := (debounce_counters s)[row := D],
               cooked_changed := cooked_changed s \<or> cooked ! row XOR raw_row \<noteq> 0,
               counters_need_update := True\<rparr>)
          else (cooked, s)
        else (cooked, s))"

definition transfer_matrix_values_eager_pr :: "u8 \<Rightarrow> nat \<Rightarrow> matrix \<Rightarrow> matrix \<times> eager_pr_state \<Rightarrow> matrix \<times> eager_pr_state" where
  "transfer_matrix_values_eager_pr D num_rows raw = (\<lambda>(cooked, s).
     for_upto num_rows (transfer_row_eager_pr D raw) (cooked, s\<lparr>matrix_need_update := False\<rparr>))"

definition debounce_eager_pr ::
  "u8 \<Rightarrow> nat \<Rightarrow> matrix \<Rightarrow> bool \<Rightarrow> u32 \<Rightarrow> matrix \<times> eager_pr_state \<Rightarrow> bool \<times> matrix \<times> eager_pr_state" where
  "debounce_eager_pr D num_rows raw changed now = (\<lambda>(cooked, s).
     let s = s\<lparr>cooked_changed := False\<rparr>;
         updated_last = counters_need_update s;
         s = (if counters_need_update s then
                let elapsed_time = elapsed8 now (last_time s); s = s\<lparr>last_time := now\<rparr>
                in if 0 < elapsed_time then update_debounce_counters_eager_pr num_rows elapsed_time s else s
              else s);
         (cooked, s) =
           (if changed \<or> matrix_need_update s then
              let s = (if \<not> updated_last then s\<lparr>last_time := now\<rparr> else s)
              in transfer_matrix_values_eager_pr D num_rows raw (cooked, s)
            else (cooked, s))
     in (cooked_changed s, cooked, s))"

subsection \<open>The contract\<close>

definition row_at :: "matrix \<times> eager_pr_state \<Rightarrow> nat \<Rightarrow> u8 \<times> u32" where
  "row_at = (\<lambda>(cooked, s) r. (debounce_counters s ! r, cooked ! r))"

definition eager_pr_sizes :: "nat \<Rightarrow> matrix \<times> eager_pr_state \<Rightarrow> bool" where
  "eager_pr_sizes rows = (\<lambda>(cooked, s). length cooked = rows \<and> length (debounce_counters s) = rows)"

definition eager_pr_flag :: "matrix \<times> eager_pr_state \<Rightarrow> nat \<Rightarrow> bool" where
  "eager_pr_flag = (\<lambda>(cooked, s) x. if x = 0 then counters_need_update s else if x = 1 then matrix_need_update s else cooked_changed s)"

lemmas eager_pr_defs = row_at_def eager_pr_sizes_def eager_pr_flag_def

abbreviation eager_pr_frame :: "nat \<Rightarrow> u32 \<Rightarrow> matrix \<times> eager_pr_state \<Rightarrow> bool" where
  "eager_pr_frame rows t x \<equiv> eager_pr_sizes rows x \<and> last_time (snd x) = t"

definition eager_pr_update_flag :: "u8 \<Rightarrow> nat \<Rightarrow> nat \<Rightarrow> u8 \<times> u32 \<Rightarrow> bool" where
  "eager_pr_update_flag e f j k \<longleftrightarrow> (f = 0 \<and> e < fst k) \<or> (f = 1 \<and> eager_wakes e k)"

lemma update_counter_eager_pr_cell:
  assumes "row < rows" and "eager_pr_frame rows t (cooked, s)"
  shows "cell_step {..<rows} (\<lambda>s. eager_pr_frame rows t (cooked, s)) (\<lambda>s. row_at (cooked, s)) (\<lambda>s. eager_pr_flag (cooked, s))
    (\<lambda>j. eager_expire e b) (eager_pr_update_flag e) {row} s (update_counter_eager_pr e row s)"
  using assms
  by (auto simp: cell_step_def eager_pr_defs update_counter_eager_pr_def eager_expire_def eager_wakes_def
      eager_pr_update_flag_def nth_list_update)

lemma eager_pr_update_phase:
  assumes "eager_pr_sizes rows x" and "x' = apsnd (update_debounce_counters_eager_pr rows e) x"
  shows "eager_pr_sizes rows x' \<and> last_time (snd x') = last_time (snd x)"
    and "j \<in> {..<rows} \<Longrightarrow> row_at x' j = eager_expire e b (row_at x j)"
    and "j \<in> {..<rows} \<Longrightarrow> \<not> eager_idle (row_at x' j) \<Longrightarrow> counters_need_update (snd x')"
    and "matrix_need_update (snd x') \<longleftrightarrow> (\<exists>j\<in>{..<rows}. eager_wakes e (row_at x j))"
    and "cooked_changed (snd x') = cooked_changed (snd x)"
proof -
  obtain cooked s where x: "x = (cooked, s)"
    by fastforce
  let ?s0 = "s\<lparr>counters_need_update := False, matrix_need_update := False\<rparr>"
  define s' where "s' = for_upto rows (update_counter_eager_pr e) ?s0"
  have x': "x' = (cooked, s')"
    using assms(2) by (simp add: x s'_def update_debounce_counters_eager_pr_def)
  have "cell_step {..<rows} (\<lambda>s. eager_pr_frame rows (last_time (snd x)) (cooked, s)) (\<lambda>s. row_at (cooked, s))
      (\<lambda>s. eager_pr_flag (cooked, s)) (\<lambda>j. eager_expire e b) (eager_pr_update_flag e) {..<rows} ?s0 s'" for b
    unfolding s'_def
    by (intro unit_cells update_counter_eager_pr_cell) (use assms(1) in \<open>auto simp: x eager_pr_sizes_def\<close>)
  note c = cell_stepD [OF this]
  have k0: "row_at (cooked, ?s0) = row_at x"
    by (simp add: x row_at_def fun_eq_iff)
  note fl = eager_pr_flag_def eager_pr_update_flag_def x'
  show "eager_pr_sizes rows x' \<and> last_time (snd x') = last_time (snd x)"
    using c(1) by (simp add: x')
  show key: "row_at x' j = eager_expire e b (row_at x j)" if "j \<in> {..<rows}" for j b
    using c(2) [OF that] by (simp only: k0 x')
  show "counters_need_update (snd x')" if "j \<in> {..<rows}" "\<not> eager_idle (row_at x' j)"
  proof -
    have "e < fst (row_at x j)"
      using that key [OF that(1)] by (cases "row_at x j") (auto simp: eager_expire_def not_le split: if_splits)
    with c(3) [of 0] that(1) show ?thesis
      unfolding k0 by (auto simp: fl)
  qed
  show "matrix_need_update (snd x') \<longleftrightarrow> (\<exists>j\<in>{..<rows}. eager_wakes e (row_at x j))"
    using c(3) [of 1] by (simp add: k0 fl)
  show "cooked_changed (snd x') = cooked_changed (snd x)"
    using c(3) [of 2] by (simp add: fl x)
qed

definition eager_pr_transfer_flag :: "matrix \<Rightarrow> nat \<Rightarrow> nat \<Rightarrow> u8 \<times> u32 \<Rightarrow> bool" where
  "eager_pr_transfer_flag raw f j k \<longleftrightarrow> f \<noteq> 1 \<and> raw ! j \<noteq> snd k \<and> fst k = 0"

lemma transfer_row_eager_pr_cell:
  assumes "row < rows" and "eager_pr_frame rows t x"
  shows "cell_step {..<rows} (eager_pr_frame rows t) row_at eager_pr_flag
    (\<lambda>j. eager_transfer D (raw ! j)) (eager_pr_transfer_flag raw) {row} x (transfer_row_eager_pr D raw row x)"
  using assms
  by (cases x) (auto simp: cell_step_def eager_pr_defs transfer_row_eager_pr_def eager_transfer_def
      eager_pr_transfer_flag_def nth_list_update Let_def word_xor_eq_0)

lemma eager_pr_transfer_phase:
  assumes "eager_pr_sizes rows x" and "x' = transfer_matrix_values_eager_pr D rows raw x"
  shows "eager_pr_sizes rows x' \<and> last_time (snd x') = last_time (snd x) \<and> \<not> matrix_need_update (snd x')"
    and "j \<in> {..<rows} \<Longrightarrow> row_at x' j = eager_transfer D (raw ! j) (row_at x j)"
    and "j \<in> {..<rows} \<Longrightarrow> \<not> eager_idle (row_at x' j) \<Longrightarrow>
      counters_need_update (snd x) \<or> eager_idle (row_at x j) \<Longrightarrow> counters_need_update (snd x')"
    and "cooked_changed (snd x') \<longleftrightarrow> cooked_changed (snd x) \<or>
      (\<exists>j\<in>{..<rows}. snd (eager_transfer D (raw ! j) (row_at x j)) \<noteq> snd (row_at x j))"
proof -
  obtain cooked s where x: "x = (cooked, s)"
    by fastforce
  let ?x0 = "(cooked, s\<lparr>matrix_need_update := False\<rparr>)"
  have "cell_step {..<rows} (eager_pr_frame rows (last_time (snd x))) row_at eager_pr_flag
    (\<lambda>j. eager_transfer D (raw ! j)) (eager_pr_transfer_flag raw) {..<rows} ?x0 x'"
    unfolding assms(2) x transfer_matrix_values_eager_pr_def prod.case
    by (intro unit_cells transfer_row_eager_pr_cell) (use assms(1) in \<open>auto simp: x eager_pr_sizes_def\<close>)
  note c = cell_stepD [OF this]
  have k0: "row_at ?x0 = row_at x"
    by (simp add: x row_at_def fun_eq_iff)
  note fl = eager_pr_flag_def eager_pr_transfer_flag_def case_prod_unfold x
  have "\<not> matrix_need_update (snd x')"
    using c(3) [of 1] by (simp add: fl)
  with c(1) show "eager_pr_sizes rows x' \<and> last_time (snd x') = last_time (snd x) \<and> \<not> matrix_need_update (snd x')"
    by simp
  show key: "row_at x' j = eager_transfer D (raw ! j) (row_at x j)" if "j \<in> {..<rows}" for j
    using c(2) [OF that] by (simp only: k0)
  show "counters_need_update (snd x')" if "j \<in> {..<rows}" "\<not> eager_idle (row_at x' j)"
    "counters_need_update (snd x) \<or> eager_idle (row_at x j)"
  proof -
    have "counters_need_update (snd x) \<or> raw ! j \<noteq> snd (row_at x j) \<and> fst (row_at x j) = 0"
      using that(2,3) key [OF that(1)] by (cases "row_at x j") (auto simp: eager_transfer_def split: if_splits)
    with that(1) c(3) [of 0] show ?thesis
      unfolding k0 by (auto simp: fl)
  qed
  show "cooked_changed (snd x') \<longleftrightarrow> cooked_changed (snd x) \<or>
      (\<exists>j\<in>{..<rows}. snd (eager_transfer D (raw ! j) (row_at x j)) \<noteq> snd (row_at x j))"
    unfolding eager_transfer_flips using c(3) [of 2] unfolding k0 by (simp add: fl)
qed

lemma debounce_eager_pr_phases:
  "debounce_eager_pr D rows = phases_call (\<lambda>x. counters_need_update (snd x)) (\<lambda>x. matrix_need_update (snd x))
    (\<lambda>x. cooked_changed (snd x)) (\<lambda>x. last_time (snd x)) (\<lambda>t. apsnd (last_time_update (\<lambda>_. t)))
    (apsnd (cooked_changed_update (\<lambda>_. False))) (\<lambda>raw e. apsnd (update_debounce_counters_eager_pr rows e))
    (transfer_matrix_values_eager_pr D rows)"
  by (auto simp: fun_eq_iff debounce_eager_pr_def phases_call_def Let_def split: prod.splits)

interpretation eager_pr: debounce_phases "{..<rows}" row_at "(!)" snd "eager_pr_sizes rows"
    "\<lambda>x. counters_need_update (snd x)" "\<lambda>x. matrix_need_update (snd x)" "\<lambda>x. cooked_changed (snd x)"
    "\<lambda>x. last_time (snd x)" "\<lambda>t. apsnd (last_time_update (\<lambda>_. t))" "apsnd (cooked_changed_update (\<lambda>_. False))"
    "\<lambda>raw e. apsnd (update_debounce_counters_eager_pr rows e)" "transfer_matrix_values_eager_pr D rows"
    eager_expire eager_wakes "eager_transfer D" eager_idle eager_settled for rows D
proof (unfold_locales, goal_cases)
  case 13 then show ?case by (rule eager_pr_update_phase(1) [OF _ refl])
next
  case 14 then show ?case by (rule eager_pr_update_phase(2) [OF _ refl])
next
  case 15 then show ?case by (rule eager_pr_update_phase(3) [OF _ refl])
next
  case 16 then show ?case by (rule eager_pr_update_phase(4) [OF _ refl])
next
  case (17 x raw e) then show ?case
    using eager_pr_update_phase(5) [OF 17 refl] by (auto simp: eager_expire_def case_prod_unfold)
next
  case 18 then show ?case by (rule eager_pr_transfer_phase(1) [OF _ refl])
next
  case 19 then show ?case by (rule eager_pr_transfer_phase(2) [OF _ refl])
next
  case 20 then show ?case by (rule eager_pr_transfer_phase(3) [OF _ refl])
next
  case 21 then show ?case by (rule eager_pr_transfer_phase(4) [OF _ refl])
qed (auto simp: eager_pr_defs eager_expire_def eager_wakes_def eager_transfer_def eager_settled_def fun_eq_iff
    not_le split: if_splits prod.splits)

definition eager_pr_start :: "nat \<Rightarrow> matrix \<times> eager_pr_state" where
  "eager_pr_start rows = (replicate rows 0, debounce_init_eager_pr rows
     \<lparr>debounce_counters = [], last_time = 0, counters_need_update = False, cooked_changed = False, matrix_need_update = False\<rparr>)"

lemma eager_pr_run:
  assumes "r < rows"
  shows "row_at (scan_run (debounce_eager_pr D rows) (replicate rows 0) xs (eager_pr_start rows)) r =
    key_run (eager_key D) t (map (\<lambda>(raw, now). (raw ! r, now)) xs) (0, 0)"
proof -
  have key: "row_at (eager_pr_start rows) i = (0, 0)" if "i < rows" for i
    using that by (simp add: eager_pr_start_def debounce_init_eager_pr_def row_at_def)
  have "eager_pr_sizes rows (eager_pr_start rows)" "\<not> counters_need_update (snd (eager_pr_start rows))"
    "\<not> matrix_need_update (snd (eager_pr_start rows))"
    by (simp_all add: eager_pr_start_def debounce_init_eager_pr_def eager_pr_sizes_def)
  then show ?thesis
    using eager_pr.phases_run [of rows "eager_pr_start rows" t "replicate rows 0" r D xs] key assms
    by (simp add: eager_settled_def eager_key_eq debounce_eager_pr_phases [symmetric])
qed

definition eager_pr_row :: "u8 \<Rightarrow> nat \<Rightarrow> nat \<Rightarrow> (matrix \<times> u32) list \<Rightarrow> u32" where
  "eager_pr_row D rows r xs = fst (scan_run (debounce_eager_pr D rows) (replicate rows 0) xs (eager_pr_start rows)) ! r"

text \<open>\<^verbatim>\<open>sym_eager_pr\<close>: a row that has changed ignores the raw matrix for \<^verbatim>\<open>DEBOUNCE\<close> milliseconds; a raw row
  that lasts \<^verbatim>\<open>DEBOUNCE\<close> milliseconds of scans is the cooked row.\<close>

lemma sym_eager_pr_debounces:
  assumes "r < rows"
  shows "eager_pr_row D rows r (pre @ [(raw, now)]) \<noteq> eager_pr_row D rows r pre \<and> scan_time now xs < unat D \<longrightarrow>
      eager_pr_row D rows r (pre @ (raw, now) # xs) = eager_pr_row D rows r (pre @ [(raw, now)])"
    and "xs \<noteq> [] \<and> (\<forall>(raw', _)\<in>set xs. raw' ! r = v) \<and> unat D \<le> scan_time (scan_clock 0 pre) xs \<longrightarrow>
      eager_pr_row D rows r (pre @ xs) = v"
proof -
  let ?m = "map (\<lambda>(raw, now). (raw ! r, now))"
  let ?M = "eager_pr_row D rows r"
  have m: "?M xs = snd (key_run (eager_key D) 0 (?m xs) (0, 0))" for xs
    using eager_pr_run [OF assms(1), of D xs 0] by (cases "scan_run (debounce_eager_pr D rows) (replicate rows 0) xs (eager_pr_start rows)")
      (auto simp: eager_pr_row_def row_at_def dest: sym)
  obtain n p where k: "key_run (eager_key D) 0 (?m pre) (0, 0) = (n, p)"
    by fastforce
  have one: "?M (pre @ (raw, now) # xs) = ?M (pre @ [(raw, now)])" if "?M (pre @ [(raw, now)]) \<noteq> ?M pre" "scan_time now xs < unat D"
    using that eager_key_flip [of D "elapsed8 now (scan_clock 0 pre)" "raw ! r" n p] eager_key_deaf [of now "?m xs" D D "raw ! r"]
    by (simp add: m k key_run_append scan_time_map)
  have two: "?M (pre @ xs) = v" if "xs \<noteq> []" "\<forall>(raw', _)\<in>set xs. raw' ! r = v" "unat D \<le> scan_time (scan_clock 0 pre) xs"
  proof -
    have "n \<le> D"
      using eager_key_bound [of 0 D 0 "?m pre" 0] k by simp
    then have "snd (key_run (eager_key D) (scan_clock 0 pre) (?m xs) (n, p)) = v"
      using that by (intro eager_key_follows) (auto simp: scan_time_map word_le_nat_alt)
    then show ?thesis
      by (simp add: m k key_run_append)
  qed
  show "?M (pre @ [(raw, now)]) \<noteq> ?M pre \<and> scan_time now xs < unat D \<longrightarrow> ?M (pre @ (raw, now) # xs) = ?M (pre @ [(raw, now)])"
    and "xs \<noteq> [] \<and> (\<forall>(raw', _)\<in>set xs. raw' ! r = v) \<and> unat D \<le> scan_time (scan_clock 0 pre) xs \<longrightarrow> ?M (pre @ xs) = v"
    using one two by blast+
qed

section \<open>sym_defer_pr\<close>

text \<open>A row is copied when it has not changed for \<^verbatim>\<open>DEBOUNCE\<close> milliseconds. The parameter \<^verbatim>\<open>changed\<close> is not used,
  and there is no guard against a \<^verbatim>\<open>DEBOUNCE\<close> of 0.\<close>

record defer_pr_state =
  last_time16 :: u16
  countdowns :: "u8 list"
  last_raw :: matrix

definition debounce_init_defer_pr :: "nat \<Rightarrow> u16 \<Rightarrow> defer_pr_state" where
  "debounce_init_defer_pr num_rows now = \<lparr>last_time16 = now, countdowns = replicate num_rows 0, last_raw = replicate num_rows 0\<rparr>"

definition debounce_row_defer_pr ::
  "u8 \<Rightarrow> u8 \<Rightarrow> matrix \<Rightarrow> nat \<Rightarrow> bool \<times> matrix \<times> defer_pr_state \<Rightarrow> bool \<times> matrix \<times> defer_pr_state" where
  "debounce_row_defer_pr D elapsed raw row = (\<lambda>(cooked_changed, cooked, s).
     let raw_row = raw ! row; countdown = countdowns s ! row
     in if raw_row \<noteq> last_raw s ! row then
          (cooked_changed, cooked, s\<lparr>countdowns := (countdowns s)[row := D], last_raw := (last_raw s)[row := raw_row]\<rparr>)
        else if elapsed < countdown then
          (cooked_changed, cooked, s\<lparr>countdowns := (countdowns s)[row := countdown - elapsed]\<rparr>)
        else if countdown \<noteq> 0 then
          (cooked_changed \<or> cooked ! row XOR raw_row \<noteq> 0, cooked[row := raw_row], s\<lparr>countdowns := (countdowns s)[row := 0]\<rparr>)
        else (cooked_changed, cooked, s))"

definition debounce_defer_pr ::
  "u8 \<Rightarrow> nat \<Rightarrow> matrix \<Rightarrow> u16 \<Rightarrow> matrix \<times> defer_pr_state \<Rightarrow> bool \<times> matrix \<times> defer_pr_state" where
  "debounce_defer_pr D num_rows raw now = (\<lambda>(cooked, s).
     let elapsed16 = now - last_time16 s; elapsed = (if 255 < elapsed16 then 255 else ucast elapsed16) :: u8
     in for_upto num_rows (debounce_row_defer_pr D elapsed raw) (False, cooked, s\<lparr>last_time16 := now\<rparr>))"

text \<open>Countdown, last raw row and cooked row; the automaton of one row.\<close>

definition defer_pr_at :: "matrix \<times> defer_pr_state \<Rightarrow> nat \<Rightarrow> u8 \<times> u32 \<times> u32" where
  "defer_pr_at = (\<lambda>(cooked, s) r. (countdowns s ! r, last_raw s ! r, cooked ! r))"

fun defer_pr_row :: "u8 \<Rightarrow> u8 \<Rightarrow> u32 \<Rightarrow> u8 \<times> u32 \<times> u32 \<Rightarrow> u8 \<times> u32 \<times> u32" where
  "defer_pr_row D e raw (n, l, p) =
     (if raw \<noteq> l then (D, raw, p) else if e < n then (n - e, l, p) else if n \<noteq> 0 then (0, l, raw) else (n, l, p))"

definition defer_pr_sizes :: "nat \<Rightarrow> matrix \<times> defer_pr_state \<Rightarrow> bool" where
  "defer_pr_sizes rows = (\<lambda>(cooked, s). length cooked = rows \<and> length (countdowns s) = rows \<and> length (last_raw s) = rows)"

definition elapsed16 :: "u16 \<Rightarrow> u16 \<Rightarrow> u8" where
  "elapsed16 now since = (if 255 < now - since then 255 else ucast (now - since))"

lemma debounce_row_defer_pr_cell:
  assumes "row < rows" and "defer_pr_sizes rows (snd y) \<and> last_time16 (snd (snd y)) = now"
  shows "cell_step {..<rows} (\<lambda>y. defer_pr_sizes rows (snd y) \<and> last_time16 (snd (snd y)) = now) (\<lambda>y. defer_pr_at (snd y))
    (\<lambda>y (f :: unit). fst y) (\<lambda>r. defer_pr_row D e (raw ! r))
    (\<lambda>f r k. snd (snd (defer_pr_row D e (raw ! r) k)) \<noteq> snd (snd k)) {row} y (debounce_row_defer_pr D e raw row y)"
  using assms
  by (cases y) (auto simp: cell_step_def defer_pr_at_def defer_pr_sizes_def debounce_row_defer_pr_def nth_list_update Let_def
      word_xor_eq_0)

lemma debounce_defer_pr_spec:
  assumes "defer_pr_sizes rows x" and "debounce_defer_pr D rows raw now x = (ch, x')"
  shows "defer_pr_sizes rows x'" and "last_time16 (snd x') = now"
    and "r \<in> {..<rows} \<Longrightarrow> defer_pr_at x' r = defer_pr_row D (elapsed16 now (last_time16 (snd x))) (raw ! r) (defer_pr_at x r)"
    and "ch \<longleftrightarrow> (\<exists>r<rows. fst x' ! r \<noteq> fst x ! r)"
proof -
  obtain cooked s where x: "x = (cooked, s)"
    by fastforce
  let ?e = "elapsed16 now (last_time16 s)" and ?s0 = "s\<lparr>last_time16 := now\<rparr>"
  have y: "(ch, x') = for_upto rows (debounce_row_defer_pr D ?e raw) (False, cooked, ?s0)"
    using assms(2) by (simp add: x debounce_defer_pr_def Let_def elapsed16_def)
  have "cell_step {..<rows} (\<lambda>y. defer_pr_sizes rows (snd y) \<and> last_time16 (snd (snd y)) = now) (\<lambda>y. defer_pr_at (snd y))
    (\<lambda>y (f :: unit). fst y) (\<lambda>r. defer_pr_row D ?e (raw ! r))
    (\<lambda>f r k. snd (snd (defer_pr_row D ?e (raw ! r) k)) \<noteq> snd (snd k)) {..<rows} (False, cooked, ?s0) (ch, x')"
    unfolding y by (intro unit_cells debounce_row_defer_pr_cell) (use assms(1) in \<open>auto simp: x defer_pr_sizes_def\<close>)
  note c = cell_stepD [OF this]
  have at0: "defer_pr_at (snd (False, cooked, ?s0)) = defer_pr_at x"
    by (simp add: x defer_pr_at_def fun_eq_iff)
  show "defer_pr_sizes rows x'" "last_time16 (snd x') = now"
    using c(1) by simp_all
  show key: "defer_pr_at x' r = defer_pr_row D (elapsed16 now (last_time16 (snd x))) (raw ! r) (defer_pr_at x r)"
    if "r \<in> {..<rows}" for r
    using c(2) [OF that] unfolding at0 by (simp add: x)
  have "fst x' ! r = snd (snd (defer_pr_at x' r))" "fst x ! r = snd (snd (defer_pr_at x r))" for r
    by (simp_all add: defer_pr_at_def case_prod_unfold)
  then show "ch \<longleftrightarrow> (\<exists>r<rows. fst x' ! r \<noteq> fst x ! r)"
    using c(3) key unfolding at0 by (auto simp: x)
qed

text \<open>With \<^verbatim>\<open>DEBOUNCE\<close> 0 nothing is ever reported: a countdown starts at 0, and a countdown of 0 copies no row.\<close>

fun defer_pr_run :: "u8 \<Rightarrow> nat \<Rightarrow> (matrix \<times> u16) list \<Rightarrow> matrix \<times> defer_pr_state \<Rightarrow> matrix \<times> defer_pr_state" where
  "defer_pr_run D rows [] x = x"
| "defer_pr_run D rows ((raw, now) # xs) x = defer_pr_run D rows xs (snd (debounce_defer_pr D rows raw now x))"

lemma defer_pr_row_0: "fst k = 0 \<Longrightarrow> fst (defer_pr_row 0 e v k) = 0 \<and> snd (snd (defer_pr_row 0 e v k)) = snd (snd k)"
  by (cases k) auto

theorem sym_defer_pr_0_stuck:
  "fst (defer_pr_run 0 rows xs (replicate rows 0, debounce_init_defer_pr rows t)) = replicate rows 0"
proof -
  have "defer_pr_sizes rows x \<Longrightarrow> \<forall>r<rows. fst (defer_pr_at x r) = 0 \<Longrightarrow> fst (defer_pr_run 0 rows xs x) = fst x" for x
  proof (induction xs arbitrary: x)
    case (Cons a xs)
    obtain raw now where a: "a = (raw, now)"
      by fastforce
    obtain ch x' where c: "debounce_defer_pr 0 rows raw now x = (ch, x')"
      by (rule prod.exhaust)
    note sp = debounce_defer_pr_spec [OF Cons.prems(1) c]
    have row: "fst (defer_pr_at x' r) = 0 \<and> snd (snd (defer_pr_at x' r)) = snd (snd (defer_pr_at x r))" if "r < rows" for r
      using sp(3) [of r] that Cons.prems(2) defer_pr_row_0 by simp
    have "fst x' = fst x"
    proof (rule nth_equalityI)
      show "length (fst x') = length (fst x)"
        using sp(1) Cons.prems(1) by (simp add: defer_pr_sizes_def case_prod_unfold)
      show "fst x' ! r = fst x ! r" if "r < length (fst x')" for r
        using row [of r] that sp(1) by (simp add: defer_pr_at_def defer_pr_sizes_def case_prod_unfold)
    qed
    moreover have "fst (defer_pr_run 0 rows xs x') = fst x'"
      using sp(1) row by (intro Cons.IH) auto
    ultimately show ?case
      by (simp add: a c)
  qed simp
  then show ?thesis
    by (simp add: debounce_init_defer_pr_def defer_pr_sizes_def defer_pr_at_def)
qed

section \<open>sym_defer_g and none\<close>

text \<open>The whole matrix is copied when no key has changed for \<^verbatim>\<open>DEBOUNCE\<close> milliseconds, or at once.\<close>

record defer_g_state =
  debouncing :: bool
  debouncing_time :: u32

definition debounce_defer_g ::
  "u32 \<Rightarrow> matrix \<Rightarrow> bool \<Rightarrow> u32 \<Rightarrow> matrix \<times> defer_g_state \<Rightarrow> bool \<times> matrix \<times> defer_g_state" where
  "debounce_defer_g D raw changed now = (\<lambda>(cooked, s).
     if changed then (False, cooked, s\<lparr>debouncing := True, debouncing_time := now\<rparr>)
     else if debouncing s \<and> D \<le> TIMER_DIFF_FAST now (debouncing_time s) then
       (if cooked \<noteq> raw then (True, raw, s\<lparr>debouncing := False\<rparr>) else (False, cooked, s\<lparr>debouncing := False\<rparr>))
     else (False, cooked, s))"

definition debounce_none :: "matrix \<Rightarrow> bool \<Rightarrow> matrix \<Rightarrow> bool \<times> matrix" where
  "debounce_none raw changed cooked =
     (if changed then if cooked \<noteq> raw then (True, raw) else (False, cooked) else (False, cooked))"

text \<open>\<^verbatim>\<open>none.c\<close> always reports the raw matrix.\<close>

lemma none_follows: "scan_run (\<lambda>raw ch now. debounce_none raw ch) prev xs prev = (if xs = [] then prev else fst (last xs))"
  by (induction xs arbitrary: prev) (auto simp: debounce_none_def)

lemma debounce_defer_g_simp:
  "debounce_defer_g D raw changed now (cooked, s) =
     (if changed then (False, cooked, s\<lparr>debouncing := True, debouncing_time := now\<rparr>)
      else if debouncing s \<and> D \<le> now - debouncing_time s then (cooked \<noteq> raw, raw, s\<lparr>debouncing := False\<rparr>)
      else (False, cooked, s))"
  by (simp add: debounce_defer_g_def TIMER_DIFF_FAST_def)

lemma defer_g_stable:
  assumes "\<forall>(raw', now)\<in>set xs. raw' = raw" and "debouncing s"
  shows "fst (scan_run (debounce_defer_g D) raw xs (cooked, s)) =
    (if \<exists>(raw', now)\<in>set xs. D \<le> now - debouncing_time s then raw else cooked)"
  using assms
proof (induction xs arbitrary: cooked s)
  case (Cons x xs)
  obtain now where x: "x = (raw, now)"
    using Cons.prems(1) by (cases x) auto
  have same: "\<forall>(raw', now)\<in>set xs. raw' = raw"
    using Cons.prems(1) by simp
  have quiet: "fst (scan_run (debounce_defer_g D) raw ys (raw, s')) = raw"
    if "\<forall>(raw', now)\<in>set ys. raw' = raw" "\<not> debouncing s'" for ys s'
    using that by (induction ys) (auto simp: debounce_defer_g_simp)
  show ?case
  proof (cases "D \<le> now - debouncing_time s")
    case True
    then show ?thesis
      using Cons.prems(2) quiet [OF same] by (auto simp: x debounce_defer_g_simp)
  next
    case False
    then have "debounce_defer_g D raw False now (cooked, s) = (False, cooked, s)"
      by (simp add: debounce_defer_g_simp)
    then show ?thesis
      using Cons.IH [OF same Cons.prems(2)] False by (simp add: x)
  qed
qed simp

text \<open>After a change of the raw matrix at time \<open>t\<close>, as long as it stays the same, the cooked matrix becomes
  the raw one at the first scan \<^verbatim>\<open>DEBOUNCE\<close> milliseconds or more after \<open>t\<close>, and not before.\<close>

theorem sym_defer_g_debounces:
  assumes "raw \<noteq> prev" and "\<forall>(raw', now)\<in>set xs. raw' = raw"
  shows "fst (scan_run (debounce_defer_g D) prev ((raw, t) # xs) x) =
    (if \<exists>(raw', now)\<in>set xs. D \<le> now - t then raw else fst x)"
proof -
  obtain cooked s where x: "x = (cooked, s)"
    by fastforce
  show ?thesis
    using defer_g_stable [OF assms(2), of "s\<lparr>debouncing := True, debouncing_time := t\<rparr>" D cooked] assms(1)
    by (simp add: x debounce_defer_g_simp)
qed

theorem sym_defer_g_debounces_witness:
  "fst (scan_run (debounce_defer_g 5) [0] [([4], 7), ([4], 11), ([4], 12)] ([0], \<lparr>debouncing = False, debouncing_time = 0\<rparr>)) = [4]"
proof -
  have "[4] \<noteq> [0 :: u32]" and "\<forall>(raw', now)\<in>set [([4], 11), ([4], 12)]. raw' = [4 :: u32]"
    and "(5 :: u32) \<le> 12 - 7"
    by simp_all
  then show ?thesis
    using sym_defer_g_debounces [of "[4]" "[0]" "[([4], 11), ([4], 12)]" 5 7 "([0], \<lparr>debouncing = False, debouncing_time = 0\<rparr>)"]
    by simp
qed

end
