(* ===== verification/Layers.thy ===== *)
theory Layers
  imports Prelude
begin

text \<open>
  Layers (\<^verbatim>\<open>quantum/action_layer.c\<close>, \<^verbatim>\<open>action_layer.h\<close>) for the build of the Q3 Max: eight layers
  (\<^verbatim>\<open>LAYER_STATE_8BIT\<close>, \<^verbatim>\<open>MAX_LAYER_BITS\<close> 3), neither \<^verbatim>\<open>NO_ACTION_LAYER\<close> nor a strict layer release. The state is the two
  layer masks and the caches that remember, in three bit planes, from which layer each key was pressed.
  \<open>rows\<close>, \<open>cols\<close> are the matrix size; \<open>action_for_key\<close> gives the action code of a key on a layer. A cache
  index outside its array (an encoder number the firmware does not have) is undefined behaviour in C; the
  statements below are about indices inside.
\<close>

section \<open>Model\<close>

definition MAX_LAYER :: nat where
  "MAX_LAYER = 8"

definition MAX_LAYER_BITS :: nat where
  "MAX_LAYER_BITS = 3"

definition ACTION_TRANSPARENT :: u16 where
  "ACTION_TRANSPARENT = 1"

definition KEYLOC_ENCODER_CW :: nat where
  "KEYLOC_ENCODER_CW = 253"

definition KEYLOC_ENCODER_CCW :: nat where
  "KEYLOC_ENCODER_CCW = 252"

record keypos_t =
  col :: nat
  row :: nat

record layers =
  default_layer_state :: u8
  layer_state :: u8
  source_layers_cache :: "u8 list list"
  encoder_source_layers_cache :: "u8 list list"

record matrix_size =
  MATRIX_ROWS :: nat
  MATRIX_COLS :: nat

definition default_layer_state_set_kb :: "u8 \<Rightarrow> u8" where
  "default_layer_state_set_kb state = state"

definition default_layer_set :: "u8 \<Rightarrow> layers \<Rightarrow> layers" where
  "default_layer_set state s = s\<lparr>default_layer_state := default_layer_state_set_kb state\<rparr>"

definition default_layer_or :: "u8 \<Rightarrow> layers \<Rightarrow> layers" where
  "default_layer_or state s = default_layer_set (default_layer_state s OR state) s"

definition default_layer_and :: "u8 \<Rightarrow> layers \<Rightarrow> layers" where
  "default_layer_and state s = default_layer_set (default_layer_state s AND state) s"

definition default_layer_xor :: "u8 \<Rightarrow> layers \<Rightarrow> layers" where
  "default_layer_xor state s = default_layer_set (default_layer_state s XOR state) s"

definition layer_state_set_kb :: "u8 \<Rightarrow> u8" where
  "layer_state_set_kb state = state"

definition layer_state_set :: "u8 \<Rightarrow> layers \<Rightarrow> layers" where
  "layer_state_set state s = s\<lparr>layer_state := layer_state_set_kb state\<rparr>"

definition layer_clear :: "layers \<Rightarrow> layers" where
  "layer_clear = layer_state_set 0"

definition layer_state_cmp :: "u8 \<Rightarrow> u8 \<Rightarrow> bool" where
  "layer_state_cmp cmp_layer_state layer =
     (if cmp_layer_state = 0 then layer = 0 else cmp_layer_state AND push_bit (unat layer) 1 \<noteq> 0)"

definition layer_state_is :: "u8 \<Rightarrow> layers \<Rightarrow> bool" where
  "layer_state_is layer s = layer_state_cmp (layer_state s) layer"

definition layer_move :: "u8 \<Rightarrow> layers \<Rightarrow> layers" where
  "layer_move layer = layer_state_set (push_bit (unat layer) 1)"

definition layer_on :: "u8 \<Rightarrow> layers \<Rightarrow> layers" where
  "layer_on layer s = layer_state_set (layer_state s OR push_bit (unat layer) 1) s"

definition layer_off :: "u8 \<Rightarrow> layers \<Rightarrow> layers" where
  "layer_off layer s = layer_state_set (layer_state s AND NOT (push_bit (unat layer) 1)) s"

definition layer_invert :: "u8 \<Rightarrow> layers \<Rightarrow> layers" where
  "layer_invert layer s = layer_state_set (layer_state s XOR push_bit (unat layer) 1) s"

definition layer_or :: "u8 \<Rightarrow> layers \<Rightarrow> layers" where
  "layer_or state s = layer_state_set (layer_state s OR state) s"

definition layer_and :: "u8 \<Rightarrow> layers \<Rightarrow> layers" where
  "layer_and state s = layer_state_set (layer_state s AND state) s"

definition layer_xor :: "u8 \<Rightarrow> layers \<Rightarrow> layers" where
  "layer_xor state s = layer_state_set (layer_state s XOR state) s"

definition update_source_layers_cache_impl :: "u8 \<Rightarrow> nat \<Rightarrow> u8 list list \<Rightarrow> u8 list list" where
  "update_source_layers_cache_impl layer entry_number cache =
     (let storage_idx = entry_number div 8; storage_bit = entry_number mod 8
      in for_upto MAX_LAYER_BITS (\<lambda>bit_number cache.
           let cell = cache ! storage_idx ! bit_number;
               all_ones = (if layer AND push_bit bit_number 1 \<noteq> 0 then - 1 else 0)
           in cache[storage_idx := (cache ! storage_idx)[bit_number :=
                cell XOR ((all_ones XOR cell) AND push_bit storage_bit 1)]]) cache)"

definition read_source_layers_cache_impl :: "nat \<Rightarrow> u8 list list \<Rightarrow> u8" where
  "read_source_layers_cache_impl entry_number cache =
     (let storage_idx = entry_number div 8; storage_bit = entry_number mod 8
      in for_upto MAX_LAYER_BITS (\<lambda>bit_number layer.
           layer OR push_bit bit_number (if cache ! storage_idx ! bit_number AND push_bit storage_bit 1 \<noteq> 0 then 1 else 0)) 0)"

definition update_source_layers_cache :: "matrix_size \<Rightarrow> keypos_t \<Rightarrow> u8 \<Rightarrow> layers \<Rightarrow> layers" where
  "update_source_layers_cache m key layer s =
     (if row key < MATRIX_ROWS m \<and> col key < MATRIX_COLS m then
        s\<lparr>source_layers_cache :=
            update_source_layers_cache_impl layer (row key * MATRIX_COLS m + col key) (source_layers_cache s)\<rparr>
      else if row key = KEYLOC_ENCODER_CW \<or> row key = KEYLOC_ENCODER_CCW then
        s\<lparr>encoder_source_layers_cache :=
            update_source_layers_cache_impl layer (col key) (encoder_source_layers_cache s)\<rparr>
      else s)"

definition read_source_layers_cache :: "matrix_size \<Rightarrow> keypos_t \<Rightarrow> layers \<Rightarrow> u8" where
  "read_source_layers_cache m key s =
     (if row key < MATRIX_ROWS m \<and> col key < MATRIX_COLS m then
        read_source_layers_cache_impl (row key * MATRIX_COLS m + col key) (source_layers_cache s)
      else if row key = KEYLOC_ENCODER_CW \<or> row key = KEYLOC_ENCODER_CCW then
        read_source_layers_cache_impl (col key) (encoder_source_layers_cache s)
      else 0)"

text \<open>The loop of \<^verbatim>\<open>layer_switch_get_layer\<close>: \<open>n\<close> layers are still to be tried, the topmost first.\<close>

fun layer_switch_loop :: "(nat \<Rightarrow> keypos_t \<Rightarrow> u16) \<Rightarrow> keypos_t \<Rightarrow> u8 \<Rightarrow> nat \<Rightarrow> nat" where
  "layer_switch_loop action_for_key key layers 0 = 0"
| "layer_switch_loop action_for_key key layers (Suc i) =
     (if layers AND push_bit i 1 \<noteq> 0 \<and> action_for_key i key \<noteq> ACTION_TRANSPARENT then i
      else layer_switch_loop action_for_key key layers i)"

definition layer_switch_get_layer :: "(nat \<Rightarrow> keypos_t \<Rightarrow> u16) \<Rightarrow> keypos_t \<Rightarrow> layers \<Rightarrow> u8" where
  "layer_switch_get_layer action_for_key key s =
     word_of_nat (layer_switch_loop action_for_key key (layer_state s OR default_layer_state s) MAX_LAYER)"

definition layer_switch_get_action :: "(nat \<Rightarrow> keypos_t \<Rightarrow> u16) \<Rightarrow> keypos_t \<Rightarrow> layers \<Rightarrow> u16" where
  "layer_switch_get_action action_for_key key s = action_for_key (unat (layer_switch_get_layer action_for_key key s)) key"

definition store_or_get_action ::
  "(nat \<Rightarrow> keypos_t \<Rightarrow> u16) \<Rightarrow> matrix_size \<Rightarrow> bool \<Rightarrow> bool \<Rightarrow> keypos_t \<Rightarrow> layers \<Rightarrow> u16 \<times> layers" where
  "store_or_get_action action_for_key m disable_action_cache pressed key s =
     (if disable_action_cache then (layer_switch_get_action action_for_key key s, s)
      else let (layer, s) =
             (if pressed then
                let layer = layer_switch_get_layer action_for_key key s
                in (layer, update_source_layers_cache m key layer s)
              else (read_source_layers_cache m key s, s))
           in (action_for_key (unat layer) key, s))"

definition update_tri_layer_state :: "u8 \<Rightarrow> u8 \<Rightarrow> u8 \<Rightarrow> u8 \<Rightarrow> u8" where
  "update_tri_layer_state state layer1 layer2 layer3 =
     (let mask12 = push_bit (unat layer1) 1 OR push_bit (unat layer2) 1; mask3 = push_bit (unat layer3) 1
      in if state AND mask12 = mask12 then state OR mask3 else state AND NOT mask3)"

definition update_tri_layer :: "u8 \<Rightarrow> u8 \<Rightarrow> u8 \<Rightarrow> layers \<Rightarrow> layers" where
  "update_tri_layer layer1 layer2 layer3 s =
     layer_state_set (update_tri_layer_state (layer_state s) layer1 layer2 layer3) s"

section \<open>The source layer cache\<close>

definition cache_ok :: "nat \<Rightarrow> u8 list list \<Rightarrow> bool" where
  "cache_ok n cache \<longleftrightarrow> n \<le> 8 * length cache \<and> (\<forall>planes\<in>set cache. length planes = MAX_LAYER_BITS)"

lemma bit_blend:
  "bit (c XOR ((a XOR c) AND 2 ^ k)) i \<longleftrightarrow> (if i = k then bit a i else bit c i)" for a c :: "'a::len word"
  by (auto simp: bit_xor_iff bit_and_iff bit_mask_word dest: bit_imp_le_length)

definition cache_bit :: "u8 list list \<Rightarrow> nat \<Rightarrow> nat \<Rightarrow> bool" where
  "cache_bit cache e b = bit (cache ! (e div 8) ! b) (e mod 8)"

lemma storage_inj: "e div 8 = e' div 8 \<Longrightarrow> e mod 8 = e' mod 8 \<Longrightarrow> e = (e' :: nat)"
  by (metis div_mod_decomp)

lemma update_source_layers_cache_impl_spec:
  assumes "cache_ok n cache" and "e < n"
  shows "cache_ok n (update_source_layers_cache_impl layer e cache)"
    and "e' < n \<Longrightarrow> b < MAX_LAYER_BITS \<Longrightarrow>
      cache_bit (update_source_layers_cache_impl layer e cache) e' b = (if e' = e then bit layer b else cache_bit cache e' b)"
proof -
  let ?step = "\<lambda>bit_number cache. let cell = cache ! (e div 8) ! bit_number;
      all_ones = (if layer AND push_bit bit_number 1 \<noteq> 0 then - 1 else 0)
    in cache[e div 8 := (cache ! (e div 8))[bit_number := cell XOR ((all_ones XOR cell) AND push_bit (e mod 8) 1)]]"
  have idx: "x < n \<Longrightarrow> x div 8 < length cache" for x
    using assms(1) by (auto simp: cache_ok_def mult.commute intro!: less_mult_imp_div_less)
  have "length (for_upto MAX_LAYER_BITS ?step cache) = length cache \<and>
    (\<forall>planes\<in>set (for_upto MAX_LAYER_BITS ?step cache). length planes = MAX_LAYER_BITS) \<and>
    (\<forall>x<n. \<forall>b<MAX_LAYER_BITS. cache_bit (for_upto MAX_LAYER_BITS ?step cache) x b =
       (if x = e \<and> b < MAX_LAYER_BITS then bit layer b else cache_bit cache x b))"
  proof (rule for_upto_invariant [where P = "\<lambda>i c. length c = length cache \<and> (\<forall>planes\<in>set c. length planes = MAX_LAYER_BITS) \<and>
      (\<forall>x<n. \<forall>b<MAX_LAYER_BITS. cache_bit c x b = (if x = e \<and> b < i then bit layer b else cache_bit cache x b))"], goal_cases)
    case 1
    then show ?case
      using assms(1) by (simp add: cache_ok_def)
  next
    case (2 i c)
    then have len: "length (c ! (e div 8)) = MAX_LAYER_BITS" and ei: "e div 8 < length c"
      using idx [OF assms(2)] by simp_all
    have "\<forall>planes\<in>set (?step i c). length planes = MAX_LAYER_BITS"
      using 2 len ei by (auto simp: Let_def all_set_conv_all_nth nth_list_update)
    moreover have "cache_bit (?step i c) x b = (if x = e \<and> b < Suc i then bit layer b else cache_bit cache x b)"
      if "x < n" and "b < MAX_LAYER_BITS" for x b
      using 2 that len ei storage_inj [of x e]
      by (cases "x div 8 = e div 8"; cases "b = i")
        (auto simp: cache_bit_def Let_def nth_list_update bit_blend less_Suc_eq)
    ultimately show ?case
      using 2 by (simp add: Let_def)
  qed
  then have u: "length (update_source_layers_cache_impl layer e cache) = length cache"
      "\<forall>planes\<in>set (update_source_layers_cache_impl layer e cache). length planes = MAX_LAYER_BITS"
      "\<forall>x<n. \<forall>b<MAX_LAYER_BITS. cache_bit (update_source_layers_cache_impl layer e cache) x b =
         (if x = e then bit layer b else cache_bit cache x b)"
    by (simp_all add: update_source_layers_cache_impl_def Let_def)
  show "cache_ok n (update_source_layers_cache_impl layer e cache)"
    using u(1,2) assms(1) by (simp add: cache_ok_def)
  show "e' < n \<Longrightarrow> b < MAX_LAYER_BITS \<Longrightarrow>
      cache_bit (update_source_layers_cache_impl layer e cache) e' b = (if e' = e then bit layer b else cache_bit cache e' b)"
    using u(3) by simp
qed

lemma bit_read_source_layers_cache_impl:
  "bit (read_source_layers_cache_impl e cache) b \<longleftrightarrow> b < MAX_LAYER_BITS \<and> cache_bit cache e b"
  unfolding read_source_layers_cache_impl_def Let_def
  by (rule for_upto_invariant [where P = "\<lambda>i layer. bit layer b \<longleftrightarrow> b < i \<and> cache_bit cache e b"])
    (auto simp: bit_or_iff bit_mask_word cache_bit_def less_Suc_eq MAX_LAYER_BITS_def)

lemma read_update_source_layers_cache_impl:
  assumes "cache_ok n cache" and "e < n" and "e' < n"
  shows "read_source_layers_cache_impl e' (update_source_layers_cache_impl layer e cache) =
    (if e' = e then take_bit MAX_LAYER_BITS layer else read_source_layers_cache_impl e' cache)"
  using update_source_layers_cache_impl_spec(2) [OF assms(1,2,3)]
  by (intro bit_word_eqI) (auto simp: bit_read_source_layers_cache_impl bit_take_bit_iff)

section \<open>Keys\<close>

text \<open>The key positions that have a cache entry; \<open>encoders\<close> is the number of encoders.\<close>

definition has_entry :: "matrix_size \<Rightarrow> nat \<Rightarrow> keypos_t \<Rightarrow> bool" where
  "has_entry m encoders key \<longleftrightarrow>
     (row key < MATRIX_ROWS m \<and> col key < MATRIX_COLS m) \<or>
     ((row key = KEYLOC_ENCODER_CW \<or> row key = KEYLOC_ENCODER_CCW) \<and> col key < encoders)"

definition layers_ok :: "matrix_size \<Rightarrow> nat \<Rightarrow> layers \<Rightarrow> bool" where
  "layers_ok m encoders s \<longleftrightarrow> MATRIX_ROWS m \<le> KEYLOC_ENCODER_CCW \<and>
     cache_ok (MATRIX_ROWS m * MATRIX_COLS m) (source_layers_cache s) \<and> cache_ok encoders (encoder_source_layers_cache s)"

text \<open>Two positions that share their entry: the same key, or the two directions of one encoder.\<close>

definition same_entry :: "keypos_t \<Rightarrow> keypos_t \<Rightarrow> bool" where
  "same_entry k k' \<longleftrightarrow> col k = col k' \<and>
     (row k = row k' \<or> {row k, row k'} \<subseteq> {KEYLOC_ENCODER_CW, KEYLOC_ENCODER_CCW})"

lemma update_source_layers_cache_ok:
  assumes "layers_ok m encoders s" and "has_entry m encoders k"
  shows "layers_ok m encoders (update_source_layers_cache m k layer s)"
  using assms update_source_layers_cache_impl_spec(1) cell_index_less [of "row k" "MATRIX_ROWS m" "col k" "MATRIX_COLS m"]
  by (auto simp: layers_ok_def has_entry_def update_source_layers_cache_def)

lemma read_update_source_layers_cache:
  assumes ok: "layers_ok m encoders s" and k: "has_entry m encoders k" and k': "has_entry m encoders k'"
  shows "read_source_layers_cache m k' (update_source_layers_cache m k layer s) =
    (if same_entry k k' then take_bit MAX_LAYER_BITS layer else read_source_layers_cache m k' s)"
proof -
  have big: "MATRIX_ROWS m \<le> 252"
    using ok by (simp add: layers_ok_def KEYLOC_ENCODER_CCW_def)
  let ?in = "\<lambda>k. row k < MATRIX_ROWS m \<and> col k < MATRIX_COLS m"
  consider "?in k" "?in k'" | "?in k" "\<not> ?in k'" | "\<not> ?in k" "?in k'" | "\<not> ?in k" "\<not> ?in k'"
    by blast
  then show ?thesis
  proof cases
    case 1
    have "row k * MATRIX_COLS m + col k < MATRIX_ROWS m * MATRIX_COLS m"
      and "row k' * MATRIX_COLS m + col k' < MATRIX_ROWS m * MATRIX_COLS m"
      using 1 by (simp_all add: cell_index_less)
    moreover have "cache_ok (MATRIX_ROWS m * MATRIX_COLS m) (source_layers_cache s)"
      using ok by (simp add: layers_ok_def)
    ultimately show ?thesis
      using 1 big cell_index_inj [of "col k" "MATRIX_COLS m" "col k'" "row k" "row k'"]
      by (auto simp: read_source_layers_cache_def update_source_layers_cache_def read_update_source_layers_cache_impl
          same_entry_def KEYLOC_ENCODER_CW_def KEYLOC_ENCODER_CCW_def)
  next
    case 4
    then have "col k < encoders" "col k' < encoders"
      "row k = KEYLOC_ENCODER_CW \<or> row k = KEYLOC_ENCODER_CCW" "row k' = KEYLOC_ENCODER_CW \<or> row k' = KEYLOC_ENCODER_CCW"
      using k k' by (auto simp: has_entry_def)
    moreover have "cache_ok encoders (encoder_source_layers_cache s)"
      using ok by (simp add: layers_ok_def)
    ultimately show ?thesis
      using 4 by (auto simp: read_source_layers_cache_def update_source_layers_cache_def read_update_source_layers_cache_impl
          same_entry_def)
  qed (use k k' big in \<open>auto simp: read_source_layers_cache_def update_source_layers_cache_def same_entry_def has_entry_def
      KEYLOC_ENCODER_CW_def KEYLOC_ENCODER_CCW_def\<close>)
qed

section \<open>Remembering the layer of a press\<close>

text \<open>A memory with one cell per key, possibly shared by some keys: a value stays until a key with the
  same cell is stored again.\<close>

locale key_memory =
  fixes ok :: "'s \<Rightarrow> bool" and entry :: "'k \<Rightarrow> bool" and same :: "'k \<Rightarrow> 'k \<Rightarrow> bool"
    and put :: "'k \<Rightarrow> 'v \<Rightarrow> 's \<Rightarrow> 's" and get :: "'k \<Rightarrow> 's \<Rightarrow> 'v" and norm :: "'v \<Rightarrow> 'v"
  assumes put_ok: "ok s \<Longrightarrow> entry k \<Longrightarrow> ok (put k v s)"
    and get_put: "ok s \<Longrightarrow> entry k \<Longrightarrow> entry k' \<Longrightarrow> get k' (put k v s) = (if same k k' then norm v else get k' s)"
begin

lemma get_put_other: "ok s \<Longrightarrow> entry k \<Longrightarrow> entry k' \<Longrightarrow> \<not> same k k' \<Longrightarrow> get k' (put k v s) = get k' s"
  by (simp add: get_put)

lemma get_after_steps:
  assumes "ok s" and "\<forall>f\<in>set fs. \<forall>s. ok s \<longrightarrow> ok (f s) \<and> get k (f s) = get k s"
  shows "ok (fold (\<lambda>f. f) fs s) \<and> get k (fold (\<lambda>f. f) fs s) = get k s"
  using assms by (induction fs arbitrary: s) auto

end

interpretation layer_cache: key_memory "layers_ok m encoders" "has_entry m encoders" same_entry "update_source_layers_cache m"
    "read_source_layers_cache m" "take_bit MAX_LAYER_BITS" for m encoders
  by unfold_locales (fact update_source_layers_cache_ok read_update_source_layers_cache)+

section \<open>Choosing the layer\<close>

lemma layer_switch_loop_spec:
  fixes layers :: u8
  shows "layer_switch_loop afk key layers n =
    (let S = {i. i < n \<and> bit layers i \<and> afk i key \<noteq> ACTION_TRANSPARENT} in if S = {} then 0 else Max S)"
proof (induction n)
  case (Suc n)
  let ?S = "\<lambda>n. {i. i < n \<and> bit layers i \<and> afk i key \<noteq> ACTION_TRANSPARENT}"
  show ?case
  proof (cases "bit layers n \<and> afk n key \<noteq> ACTION_TRANSPARENT")
    case True
    then have "Max (?S (Suc n)) = n"
      by (intro Max_eqI) auto
    with True show ?thesis
      by (auto simp: Let_def)
  next
    case False
    then have "?S (Suc n) = ?S n"
      by (auto simp: less_Suc_eq)
    moreover have "layer_switch_loop afk key layers (Suc n) = layer_switch_loop afk key layers n"
      using False by auto
    ultimately show ?thesis
      using Suc by (simp only:)
  qed
qed simp

lemma layer_switch_loop_less: "0 < n \<Longrightarrow> layer_switch_loop afk key layers n < n"
proof (induction n)
  case (Suc n)
  then show ?case
    by (cases "n = 0") (auto intro: less_SucI)
qed simp

lemma layer_switch_get_layer_less: "unat (layer_switch_get_layer afk key s) < MAX_LAYER"
  using layer_switch_loop_less [of MAX_LAYER afk key "layer_state s OR default_layer_state s"]
  by (simp add: layer_switch_get_layer_def MAX_LAYER_def unsigned_of_nat take_bit_eq_mod)

section \<open>Properties\<close>

text \<open>A key acts on the topmost active layer on which it is not transparent, and on layer 0 if it is
  transparent on every active layer.\<close>

theorem layer_switch_topmost:
  "unat (layer_switch_get_layer afk key s) =
    (let S = {i. i < MAX_LAYER \<and> bit (layer_state s OR default_layer_state s) i \<and> afk i key \<noteq> ACTION_TRANSPARENT}
     in if S = {} then 0 else Max S)"
proof -
  have "layer_switch_loop afk key (layer_state s OR default_layer_state s) MAX_LAYER < 256"
    using layer_switch_loop_less [of MAX_LAYER afk key "layer_state s OR default_layer_state s"] by (simp add: MAX_LAYER_def)
  then show ?thesis
    unfolding layer_switch_loop_spec [symmetric]
    by (simp add: layer_switch_get_layer_def unsigned_of_nat take_bit_eq_mod)
qed

text \<open>What may happen between the press and the release of a key: other keys, and changes of the layers.\<close>

datatype layer_op = Key_op bool keypos_t | Layer_op u8 | Default_op u8

fun layer_step :: "(nat \<Rightarrow> keypos_t \<Rightarrow> u16) \<Rightarrow> matrix_size \<Rightarrow> layer_op \<Rightarrow> layers \<Rightarrow> layers" where
  "layer_step afk m (Key_op pressed k) s = snd (store_or_get_action afk m False pressed k s)"
| "layer_step afk m (Layer_op state) s = layer_state_set state s"
| "layer_step afk m (Default_op state) s = default_layer_set state s"

fun spares :: "matrix_size \<Rightarrow> nat \<Rightarrow> keypos_t \<Rightarrow> layer_op \<Rightarrow> bool" where
  "spares m encoders k (Key_op pressed k') \<longleftrightarrow> has_entry m encoders k' \<and> (pressed \<longrightarrow> \<not> same_entry k' k)"
| "spares m encoders k _ \<longleftrightarrow> True"

lemma layer_step_spares:
  assumes "layers_ok m encoders s" and "has_entry m encoders k" and "spares m encoders k op"
  shows "layers_ok m encoders (layer_step afk m op s) \<and>
    read_source_layers_cache m k (layer_step afk m op s) = read_source_layers_cache m k s"
proof (cases op)
  case (Key_op pressed k')
  with assms show ?thesis
    using layer_cache.put_ok layer_cache.get_put_other by (auto simp: store_or_get_action_def Let_def)
qed (use assms in \<open>simp_all add: layers_ok_def layer_state_set_def default_layer_set_def read_source_layers_cache_def\<close>)

lemma press_stored:
  assumes "layers_ok m encoders s" and "has_entry m encoders k" and "store_or_get_action afk m False True k s = (action, s')"
  shows "layers_ok m encoders s'" "read_source_layers_cache m k s' = layer_switch_get_layer afk k s"
    "action = afk (unat (layer_switch_get_layer afk k s)) k"
proof -
  let ?l = "layer_switch_get_layer afk k s"
  have s': "s' = update_source_layers_cache m k ?l s" and a: "action = afk (unat ?l) k"
    using assms(3) by (auto simp: store_or_get_action_def Let_def)
  show "layers_ok m encoders s'"
    unfolding s' using assms(1,2) by (rule layer_cache.put_ok)
  have "take_bit MAX_LAYER_BITS ?l = ?l"
    using layer_switch_get_layer_less [of afk k s]
    by (simp add: word_unat_eq_iff unat_mod take_bit_eq_mod MAX_LAYER_def MAX_LAYER_BITS_def)
  then show "read_source_layers_cache m k s' = ?l"
    unfolding s' using layer_cache.get_put [OF assms(1,2,2)] by (simp add: same_entry_def)
  show "action = afk (unat ?l) k"
    by (rule a)
qed

text \<open>C24: The release of a key triggers the action its press triggered, however the layers changed in between
  and whatever other keys did.\<close>

theorem release_matches_press:
  assumes "layers_ok m encoders s" and "has_entry m encoders k" and "\<forall>op\<in>set ops. spares m encoders k op"
    and "store_or_get_action afk m False True k s = (action, s')"
  shows "fst (store_or_get_action afk m False False k (fold (layer_step afk m) ops s')) = action"
proof -
  note p = press_stored [OF assms(1,2,4)]
  have "read_source_layers_cache m k (fold (\<lambda>f. f) (map (layer_step afk m) ops) s') = read_source_layers_cache m k s'"
    using layer_cache.get_after_steps [OF p(1), of "map (layer_step afk m) ops" k] layer_step_spares [OF _ assms(2)] assms(3)
    by auto
  then show ?thesis
    using p(2,3) by (simp add: store_or_get_action_def Let_def fold_map o_def)
qed

definition q3_matrix :: matrix_size where
  "q3_matrix = \<lparr>MATRIX_ROWS = 6, MATRIX_COLS = 17\<rparr>"

definition fresh_layers :: layers where
  "fresh_layers = \<lparr>default_layer_state = 1, layer_state = 0, source_layers_cache = replicate 13 [0, 0, 0],
     encoder_source_layers_cache = [[0, 0, 0]]\<rparr>"

lemma fresh_layers_ok: "layers_ok q3_matrix 1 fresh_layers"
  by (simp add: layers_ok_def q3_matrix_def fresh_layers_def cache_ok_def MAX_LAYER_BITS_def KEYLOC_ENCODER_CCW_def)

theorem release_matches_press_witness:
  "fst (store_or_get_action (\<lambda>l k. word_of_nat (l + 4)) q3_matrix False False \<lparr>col = 2, row = 1\<rparr>
     (fold (layer_step (\<lambda>l k. word_of_nat (l + 4)) q3_matrix) [Layer_op 2, Key_op True \<lparr>col = 3, row = 1\<rparr>]
       (snd (store_or_get_action (\<lambda>l k. word_of_nat (l + 4)) q3_matrix False True \<lparr>col = 2, row = 1\<rparr> fresh_layers)))) =
   fst (store_or_get_action (\<lambda>l k. word_of_nat (l + 4)) q3_matrix False True \<lparr>col = 2, row = 1\<rparr> fresh_layers)"
proof -
  have "has_entry q3_matrix 1 \<lparr>col = 2, row = 1\<rparr>"
    and "\<forall>op\<in>set [Layer_op 2, Key_op True \<lparr>col = 3, row = 1\<rparr>]. spares q3_matrix 1 \<lparr>col = 2, row = 1\<rparr> op"
    by (simp_all add: has_entry_def q3_matrix_def same_entry_def)
  then show ?thesis
    using release_matches_press [OF fresh_layers_ok, of "\<lparr>col = 2, row = 1\<rparr>" "[Layer_op 2, Key_op True \<lparr>col = 3, row = 1\<rparr>]"
        "\<lambda>l k. word_of_nat (l + 4)"]
    by (metis prod.collapse)
qed

definition active_layers :: "layers \<Rightarrow> nat set" where
  "active_layers s = {i. bit (layer_state s) i}"

lemma active_layer_on: "unat l < MAX_LAYER \<Longrightarrow> active_layers (layer_on l s) = insert (unat l) (active_layers s)"
  by (auto simp: active_layers_def layer_on_def layer_state_set_def layer_state_set_kb_def bit_or_iff bit_mask_word MAX_LAYER_def)

lemma active_layer_off: "unat l < MAX_LAYER \<Longrightarrow> active_layers (layer_off l s) = active_layers s - {unat l}"
  by (auto simp: active_layers_def layer_off_def layer_state_set_def layer_state_set_kb_def bit_and_iff bit_not_iff bit_mask_word MAX_LAYER_def
      dest: bit_imp_le_length)

text \<open>The layer operations are set operations on the active layers, and \<^verbatim>\<open>layer_state_is\<close> reads the set, with
  the empty set standing for layer 0.\<close>

theorem layer_operations:
  assumes "unat l < MAX_LAYER"
  shows "active_layers (layer_on l s) = insert (unat l) (active_layers s) \<and>
    active_layers (layer_off l s) = active_layers s - {unat l} \<and>
    active_layers (layer_move l s) = {unat l} \<and> active_layers (layer_clear s) = {} \<and>
    active_layers (layer_invert l s) = (if unat l \<in> active_layers s then active_layers s - {unat l} else insert (unat l) (active_layers s)) \<and>
    (layer_state_is l s \<longleftrightarrow> (if active_layers s = {} then l = 0 else unat l \<in> active_layers s))"
proof -
  have z: "layer_state s = 0 \<longleftrightarrow> {i. bit (layer_state s) i} = {}"
    by (auto intro: bit_word_eqI)
  show ?thesis
    using assms
    by (auto simp: active_layers_def layer_on_def layer_off_def layer_move_def layer_clear_def layer_invert_def
        layer_state_is_def layer_state_cmp_def layer_state_set_def layer_state_set_kb_def bit_or_iff bit_and_iff bit_not_iff
        bit_xor_iff bit_mask_word MAX_LAYER_def z dest: bit_imp_le_length)
qed

theorem layer_operations_witness:
  "active_layers (layer_on 3 fresh_layers) = {3} \<and> layer_state_is 0 fresh_layers"
proof -
  have "unat (3 :: u8) < MAX_LAYER" and "unat (0 :: u8) < MAX_LAYER" and "active_layers fresh_layers = {}"
    by (simp_all add: MAX_LAYER_def active_layers_def fresh_layers_def)
  then show ?thesis
    using layer_operations [of 3 fresh_layers] layer_operations [of 0 fresh_layers] by simp
qed

text \<open>Tri-layer: after \<^verbatim>\<open>update_tri_layer\<close> the third layer is on exactly when the first two are, and no other
  layer changes.\<close>

theorem tri_layer_on_iff:
  assumes "unat l1 < MAX_LAYER" and "unat l2 < MAX_LAYER" and "unat l3 < MAX_LAYER"
  shows "bit (update_tri_layer_state state l1 l2 l3) i \<longleftrightarrow>
    (if i = unat l3 then bit state (unat l1) \<and> bit state (unat l2) else bit state i)"
proof -
  have "state AND (2 ^ unat l1 OR 2 ^ unat l2) = 2 ^ unat l1 OR 2 ^ unat l2 \<longleftrightarrow> bit state (unat l1) \<and> bit state (unat l2)"
    (is "?A = ?B \<longleftrightarrow> _")
  proof -
    have "?A = ?B \<longleftrightarrow> (\<forall>n. bit ?A n = bit ?B n)"
      by (auto intro: bit_word_eqI)
    also have "\<dots> \<longleftrightarrow> bit state (unat l1) \<and> bit state (unat l2)"
      using assms by (auto simp: bit_and_iff bit_or_iff bit_mask_word MAX_LAYER_def)
    finally show ?thesis .
  qed
  then show ?thesis
    using assms(3) by (auto simp: update_tri_layer_state_def Let_def bit_or_iff bit_and_iff bit_not_iff bit_mask_word MAX_LAYER_def
        dest: bit_imp_le_length)
qed

end
