(* ===== verification/Ring_Queue.thy ===== *)
theory Ring_Queue
  imports Prelude
begin

text \<open>
  Ring buffers. The firmware keeps several queues as an array of \<open>N\<close> cells with a head index, where the
  next element is stored, and a tail index, where the oldest one is; the queue is empty when they are
  equal, so it holds at most \<open>N - 1\<close> elements. The locales state the two behaviours of a full queue: refuse
  the new element, or overwrite the oldest one.
\<close>

section \<open>Contents of a ring\<close>

definition ring_size :: "nat \<Rightarrow> nat \<Rightarrow> nat \<Rightarrow> nat" where
  "ring_size N head tail = (head + N - tail) mod N"

definition ring_list :: "nat \<Rightarrow> 'a list \<Rightarrow> nat \<Rightarrow> nat \<Rightarrow> 'a list" where
  "ring_list N buf head tail = map (\<lambda>i. buf ! ((tail + i) mod N)) [0..<ring_size N head tail]"

lemma length_ring_list [simp]: "length (ring_list N buf head tail) = ring_size N head tail"
  by (simp add: ring_list_def)

lemma ring_size_cases:
  "head < N \<Longrightarrow> tail < N \<Longrightarrow> ring_size N head tail = (if tail \<le> head then head - tail else head + N - tail)"
  by (auto simp: ring_size_def mod_if)

lemma ring_size_eq_0: "head < N \<Longrightarrow> tail < N \<Longrightarrow> ring_size N head tail = 0 \<longleftrightarrow> head = tail"
  by (auto simp: ring_size_cases)

lemma ring_size_less: "head < N \<Longrightarrow> ring_size N head tail < N"
  by (simp add: ring_size_def)

lemma ring_size_push:
  assumes "head < N" and "tail < N" and "(head + 1) mod N \<noteq> tail"
  shows "ring_size N ((head + 1) mod N) tail = Suc (ring_size N head tail)"
  using assms by (auto simp: ring_size_cases mod_if split: if_splits)

lemma ring_size_full:
  assumes "head < N" and "tail < N"
  shows "(head + 1) mod N = tail \<longleftrightarrow> Suc (ring_size N head tail) = N"
  using assms by (auto simp: ring_size_cases mod_if split: if_splits)

lemma ring_size_pop:
  assumes "head < N" and "tail < N" and "head \<noteq> tail"
  shows "ring_size N head tail = Suc (ring_size N head ((tail + 1) mod N))"
  using assms by (auto simp: ring_size_cases mod_if split: if_splits)

lemma ring_slot: "tail < N \<Longrightarrow> i < N \<Longrightarrow> (tail + i) mod N = (if tail + i < N then tail + i else tail + i - N)" for N :: nat
  by (auto simp: mod_if)

lemma ring_list_empty: "head < N \<Longrightarrow> tail < N \<Longrightarrow> ring_list N buf head tail = [] \<longleftrightarrow> head = tail"
  by (simp add: ring_list_def ring_size_eq_0)

lemma ring_list_push:
  assumes "head < N" and "tail < N" and "length buf = N" and "(head + 1) mod N \<noteq> tail"
  shows "ring_list N (buf[head := x]) ((head + 1) mod N) tail = ring_list N buf head tail @ [x]"
proof -
  let ?n = "ring_size N head tail"
  have n: "ring_size N ((head + 1) mod N) tail = Suc ?n"
    using assms(1,2,4) by (rule ring_size_push)
  have slot: "(tail + ?n) mod N = head"
    using assms(1,2) ring_size_less [OF assms(1), of tail] by (simp only: ring_slot) (auto simp: ring_size_cases)
  have other: "(tail + i) mod N \<noteq> head" if "i < ?n" for i
  proof -
    have "i < N"
      using that ring_size_less [OF assms(1), of tail] by simp
    then show ?thesis
      using that assms(1,2) by (simp only: ring_slot ring_size_cases) (auto split: if_splits)
  qed
  have "map (\<lambda>i. buf[head := x] ! ((tail + i) mod N)) [0..<?n] = map (\<lambda>i. buf ! ((tail + i) mod N)) [0..<?n]"
    using other by (intro map_cong refl nth_list_update_neq) (metis atLeastLessThan_iff set_upt)
  then show ?thesis
    unfolding ring_list_def n using assms(1,3) slot by simp
qed

lemma ring_list_pop:
  assumes "head < N" and "tail < N" and "head \<noteq> tail"
  shows "ring_list N buf head tail = buf ! tail # ring_list N buf head ((tail + 1) mod N)"
proof -
  have "[0..<ring_size N head tail] = 0 # map Suc [0..<ring_size N head ((tail + 1) mod N)]"
    using ring_size_pop [OF assms] by (simp add: upt_conv_Cons map_Suc_upt del: upt_Suc)
  moreover have "(Suc (tail + i)) mod N = ((tail + 1) mod N + i) mod N" for i
    by (simp add: mod_add_left_eq)
  ultimately show ?thesis
    using assms(2) by (simp add: ring_list_def o_def)
qed

lemma ring_list_drop_first:
  assumes "head < N" and "tail < N" and "length buf = N" and "(head + 1) mod N = tail" and "1 < N"
  shows "ring_list N (buf[head := x]) tail ((tail + 1) mod N) = tl (ring_list N buf head tail) @ [x]"
proof -
  have ne: "head \<noteq> tail" and ne': "(head + 1) mod N \<noteq> (tail + 1) mod N"
    using assms by (auto simp: mod_if split: if_splits)
  have "tl (ring_list N buf head tail) = ring_list N buf head ((tail + 1) mod N)"
    using ring_list_pop [OF assms(1,2) ne, of buf] by simp
  moreover have "ring_list N (buf[head := x]) ((head + 1) mod N) ((tail + 1) mod N) =
      ring_list N buf head ((tail + 1) mod N) @ [x]"
    using assms ne' by (intro ring_list_push) simp_all
  ultimately show ?thesis
    using assms(4) by simp
qed

section \<open>Interfaces\<close>

locale queue =
  fixes inv :: "'q \<Rightarrow> bool" and contents :: "'q \<Rightarrow> 'a list" and capacity :: nat
    and dequeue :: "'q \<Rightarrow> ('a \<times> 'q) option"
  assumes contents_bound: "inv q \<Longrightarrow> length (contents q) \<le> capacity"
    and dequeue_None: "inv q \<Longrightarrow> dequeue q = None \<longleftrightarrow> contents q = []"
    and dequeue_Some: "inv q \<Longrightarrow> dequeue q = Some (x, q') \<Longrightarrow> inv q' \<and> contents q = x # contents q'"
begin

lemma dequeue_cases:
  assumes "inv q"
  obtains "contents q = []" and "dequeue q = None"
  | x q' where "dequeue q = Some (x, q')" and "inv q'" and "contents q = x # contents q'"
  using assms dequeue_None dequeue_Some by (cases "dequeue q") fastforce+

end

text \<open>A full queue refuses the element.\<close>

locale bounded_queue = queue +
  fixes enqueue :: "'b \<Rightarrow> 'a \<Rightarrow> bool \<times> 'a"
  assumes enqueue_law: "inv q \<Longrightarrow> enqueue x q = (ok, q') \<Longrightarrow>
      inv q' \<and> (ok \<longleftrightarrow> length (contents q) < capacity) \<and> contents q' = (if ok then contents q @ [x] else contents q)"

text \<open>A full queue loses its oldest element.\<close>

locale overwriting_queue = queue +
  fixes enqueue :: "'b \<Rightarrow> 'a \<Rightarrow> 'a"
  assumes enqueue_law: "inv q \<Longrightarrow> inv (enqueue x q) \<and>
      contents (enqueue x q) = (if length (contents q) < capacity then contents q else tl (contents q)) @ [x]"
begin

text \<open>After any number of insertions the queue holds the most recent elements.\<close>

lemma enqueue_many:
  assumes "inv q" and "0 < capacity"
  shows "inv (fold enqueue xs q) \<and> contents (fold enqueue xs q) =
    drop (length (contents q) + length xs - capacity) (contents q @ xs)"
  using assms(1)
proof (induction xs arbitrary: q)
  case Nil
  then show ?case
    using contents_bound [of q] by simp
next
  case (Cons x xs)
  have e: "inv (enqueue x q)"
    "contents (enqueue x q) = (if length (contents q) < capacity then contents q else tl (contents q)) @ [x]"
    using Cons.prems enqueue_law by blast+
  show ?case
  proof (cases "length (contents q) < capacity")
    case True
    then show ?thesis
      using Cons.IH [OF e(1)] e(2) by simp
  next
    case False
    then have "length (contents q) = capacity"
      using contents_bound [OF Cons.prems] by simp
    then obtain y ys where "contents q = y # ys" "Suc (length ys) = capacity"
      using assms(2) by (cases "contents q") auto
    then show ?thesis
      using Cons.IH [OF e(1)] e(2) by (simp add: Suc_diff_le)
  qed
qed

end

end
