(* ===== verification/Tapping.thy ===== *)
theory Tapping
  imports Layers Ring_Queue "HOL-Library.Multiset"
begin

text \<open>
  Tap or hold (\<^verbatim>\<open>quantum/action_tapping.c\<close>, with \<^verbatim>\<open>is_tap_record\<close> and \<^verbatim>\<open>is_tap_action\<close> of \<^verbatim>\<open>quantum/action.c\<close>). The press of a key with two meanings is kept back until the
  key is released (a tap), the tapping term is over (a hold), or another key decides; the events that come in the meantime wait in a ring
  of eight cells. The build has neither \<^verbatim>\<open>COMBO_ENABLE\<close>, \<^verbatim>\<open>SWAP_HANDS_ENABLE\<close> nor \<^verbatim>\<open>RETRO_SHIFT\<close>, so that \<^verbatim>\<open>process_record_tap_hint\<close> does nothing.
  The rest of the firmware is the record \<open>tap_env\<close> over a state \<open>'w\<close> of its own: \<^verbatim>\<open>process_record\<close> may change the record it is given. Debug output is left out.
\<close>

section \<open>Model\<close>

subsection \<open>Events and records\<close>

datatype keyevent_type_t = TICK_EVENT | KEY_EVENT | ENCODER_CW_EVENT | ENCODER_CCW_EVENT | COMBO_EVENT

record keyevent_t =
  key :: keypos_t
  time :: u16
  ev_type :: keyevent_type_t
  pressed :: bool

record tap_t =
  interrupted :: bool
  tap_count :: nat

record keyrecord_t =
  event :: keyevent_t
  tap :: tap_t

definition KEYEQ :: "keypos_t \<Rightarrow> keypos_t \<Rightarrow> bool" where
  "KEYEQ a b \<longleftrightarrow> row a = row b \<and> col a = col b"

definition IS_NOEVENT :: "keyevent_t \<Rightarrow> bool" where
  "IS_NOEVENT e \<longleftrightarrow> ev_type e = TICK_EVENT"

definition IS_EVENT :: "keyevent_t \<Rightarrow> bool" where
  "IS_EVENT e \<longleftrightarrow> ev_type e \<noteq> TICK_EVENT"

definition TIMER_DIFF_16 :: "u16 \<Rightarrow> u16 \<Rightarrow> u16" where
  "TIMER_DIFF_16 a b = a - b"

text \<open>\<^verbatim>\<open>(keyrecord_t){0}\<close>.\<close>

definition no_record :: keyrecord_t where
  "no_record = \<lparr>event = \<lparr>key = \<lparr>col = 0, row = 0\<rparr>, time = 0, ev_type = TICK_EVENT, pressed = False\<rparr>,
     tap = \<lparr>interrupted = False, tap_count = 0\<rparr>\<rparr>"

subsection \<open>Actions\<close>

definition action_kind_id :: "u16 \<Rightarrow> nat" where
  "action_kind_id a = unat (drop_bit 12 a)"

definition action_code :: "u16 \<Rightarrow> nat" where
  "action_code a = unat (take_bit 8 a)"

definition action_mods :: "u16 \<Rightarrow> nat" where
  "action_mods a = unat (take_bit 4 (drop_bit 8 a))"

definition ACT_LMODS :: nat where "ACT_LMODS = 0"
definition ACT_RMODS :: nat where "ACT_RMODS = 1"
definition ACT_LMODS_TAP :: nat where "ACT_LMODS_TAP = 2"
definition ACT_RMODS_TAP :: nat where "ACT_RMODS_TAP = 3"
definition ACT_SWAP_HANDS :: nat where "ACT_SWAP_HANDS = 6"
definition ACT_LAYER_TAP :: nat where "ACT_LAYER_TAP = 10"
definition ACT_LAYER_TAP_EXT :: nat where "ACT_LAYER_TAP_EXT = 11"

definition OP_TAP_TOGGLE :: nat where "OP_TAP_TOGGLE = 0xF0"
definition OP_ON_OFF :: nat where "OP_ON_OFF = 0xF1"
definition OP_OFF_ON :: nat where "OP_OFF_ON = 0xF2"
definition OP_SET_CLEAR :: nat where "OP_SET_CLEAR = 0xF3"
definition OP_ONESHOT :: nat where "OP_ONESHOT = 0xF4"
definition OP_SH_TAP_TOGGLE :: nat where "OP_SH_TAP_TOGGLE = 0xF1"

definition KC_LEFT_CTRL :: nat where "KC_LEFT_CTRL = 0xE0"
definition KC_RIGHT_GUI :: nat where "KC_RIGHT_GUI = 0xE7"

lemmas action_constants =
  ACT_LMODS_def ACT_RMODS_def ACT_LMODS_TAP_def ACT_RMODS_TAP_def ACT_SWAP_HANDS_def ACT_LAYER_TAP_def ACT_LAYER_TAP_EXT_def
  OP_TAP_TOGGLE_def OP_ON_OFF_def OP_OFF_ON_def OP_SET_CLEAR_def OP_ONESHOT_def OP_SH_TAP_TOGGLE_def KC_LEFT_CTRL_def KC_RIGHT_GUI_def

definition IS_MODIFIER_KEYCODE :: "nat \<Rightarrow> bool" where
  "IS_MODIFIER_KEYCODE code \<longleftrightarrow> KC_LEFT_CTRL \<le> code \<and> code \<le> KC_RIGHT_GUI"

definition is_tap_action :: "u16 \<Rightarrow> bool" where
  "is_tap_action action =
     (if action_kind_id action \<in> {ACT_LMODS_TAP, ACT_RMODS_TAP, ACT_LAYER_TAP, ACT_LAYER_TAP_EXT} then
        action_code action \<le> KC_RIGHT_GUI \<or> action_code action = OP_TAP_TOGGLE \<or> action_code action = OP_ONESHOT
      else if action_kind_id action = ACT_SWAP_HANDS then
        action_code action \<le> KC_RIGHT_GUI \<or> action_code action = OP_SH_TAP_TOGGLE
      else False)"

subsection \<open>Environment and state\<close>

record 'w tap_env =
  env_process_record :: "keyrecord_t \<Rightarrow> 'w \<Rightarrow> keyrecord_t \<times> 'w"
  env_layer_switch_get_action :: "keypos_t \<Rightarrow> 'w \<Rightarrow> u16"
  env_tapping_term :: "keyrecord_t \<Rightarrow> 'w \<Rightarrow> u16"
  env_quick_tap_term :: "keyrecord_t \<Rightarrow> 'w \<Rightarrow> u16"
  env_permissive_hold :: "keyrecord_t \<Rightarrow> 'w \<Rightarrow> bool"
  env_hold_on_other_key_press :: "keyrecord_t \<Rightarrow> 'w \<Rightarrow> bool"
  env_clear_keyboard :: "'w \<Rightarrow> 'w"

record 'w tapping =
  tapping_key :: keyrecord_t
  waiting_buffer :: "keyrecord_t list"
  waiting_buffer_head :: nat
  waiting_buffer_tail :: nat
  world :: 'w

definition WAITING_BUFFER_SIZE :: nat where
  "WAITING_BUFFER_SIZE = 8"

definition is_tap_record :: "'w tap_env \<Rightarrow> keyrecord_t \<Rightarrow> 'w \<Rightarrow> bool" where
  "is_tap_record env r w =
     (if IS_NOEVENT (event r) then False else is_tap_action (env_layer_switch_get_action env (key (event r)) w))"

definition IS_TAPPING_RECORD :: "keyrecord_t \<Rightarrow> 'w tapping \<Rightarrow> bool" where
  "IS_TAPPING_RECORD r t \<longleftrightarrow> KEYEQ (key (event (tapping_key t))) (key (event r))"

definition WITHIN_TAPPING_TERM :: "'w tap_env \<Rightarrow> keyevent_t \<Rightarrow> 'w tapping \<Rightarrow> bool" where
  "WITHIN_TAPPING_TERM env e t \<longleftrightarrow>
     TIMER_DIFF_16 (time e) (time (event (tapping_key t))) < env_tapping_term env (tapping_key t) (world t)"

definition WITHIN_QUICK_TAP_TERM :: "'w tap_env \<Rightarrow> keyevent_t \<Rightarrow> 'w tapping \<Rightarrow> bool" where
  "WITHIN_QUICK_TAP_TERM env e t \<longleftrightarrow>
     TIMER_DIFF_16 (time e) (time (event (tapping_key t))) < env_quick_tap_term env (tapping_key t) (world t)"

text \<open>\<^verbatim>\<open>process_record(keyp)\<close> and \<^verbatim>\<open>process_record(&tapping_key)\<close>.\<close>

definition process_key :: "'w tap_env \<Rightarrow> keyrecord_t \<Rightarrow> 'w tapping \<Rightarrow> keyrecord_t \<times> 'w tapping" where
  "process_key env r t = (let (r, w) = env_process_record env r (world t) in (r, t\<lparr>world := w\<rparr>))"

definition process_tapping_key :: "'w tap_env \<Rightarrow> 'w tapping \<Rightarrow> 'w tapping" where
  "process_tapping_key env t = (let (r, t) = process_key env (tapping_key t) t in t\<lparr>tapping_key := r\<rparr>)"

subsection \<open>Waiting buffer\<close>

text \<open>The cells that the loops visit, from the tail to the head.\<close>

definition waiting_cells :: "'w tapping \<Rightarrow> nat list" where
  "waiting_cells t =
     map (\<lambda>i. (waiting_buffer_tail t + i) mod WAITING_BUFFER_SIZE)
       [0..<ring_size WAITING_BUFFER_SIZE (waiting_buffer_head t) (waiting_buffer_tail t)]"

definition waiting_buffer_enq :: "keyrecord_t \<Rightarrow> 'w tapping \<Rightarrow> bool \<times> 'w tapping" where
  "waiting_buffer_enq r t =
     (if IS_NOEVENT (event r) then (True, t)
      else if (waiting_buffer_head t + 1) mod WAITING_BUFFER_SIZE = waiting_buffer_tail t then (False, t)
      else (True, t\<lparr>waiting_buffer := (waiting_buffer t)[waiting_buffer_head t := r],
                    waiting_buffer_head := (waiting_buffer_head t + 1) mod WAITING_BUFFER_SIZE\<rparr>))"

definition waiting_buffer_clear :: "'w tapping \<Rightarrow> 'w tapping" where
  "waiting_buffer_clear t = t\<lparr>waiting_buffer_head := 0, waiting_buffer_tail := 0\<rparr>"

definition waiting_buffer_typed :: "keyevent_t \<Rightarrow> 'w tapping \<Rightarrow> bool" where
  "waiting_buffer_typed e t =
     list_ex (\<lambda>i. KEYEQ (key e) (key (event (waiting_buffer t ! i))) \<and> pressed e \<noteq> pressed (event (waiting_buffer t ! i))) (waiting_cells t)"

definition waiting_buffer_has_anykey_pressed :: "'w tapping \<Rightarrow> bool" where
  "waiting_buffer_has_anykey_pressed t = list_ex (\<lambda>i. pressed (event (waiting_buffer t ! i))) (waiting_cells t)"

definition waiting_buffer_scan_tap :: "'w tap_env \<Rightarrow> 'w tapping \<Rightarrow> 'w tapping" where
  "waiting_buffer_scan_tap env t =
     (if 0 < tap_count (tap (tapping_key t)) \<or> \<not> pressed (event (tapping_key t)) then t
      else case find (\<lambda>i. let candidate = waiting_buffer t ! i
               in IS_EVENT (event candidate) \<and> KEYEQ (key (event candidate)) (key (event (tapping_key t))) \<and> \<not> pressed (event candidate) \<and>
                  WITHIN_TAPPING_TERM env (event candidate) t) (waiting_cells t) of
             None \<Rightarrow> t
           | Some i \<Rightarrow>
               process_tapping_key env
                 (t\<lparr>tapping_key := (tapping_key t)\<lparr>tap := (tap (tapping_key t))\<lparr>tap_count := 1\<rparr>\<rparr>,
                    waiting_buffer := (waiting_buffer t)[i := (waiting_buffer t ! i)\<lparr>tap := (tap (waiting_buffer t ! i))\<lparr>tap_count := 1\<rparr>\<rparr>]\<rparr>))"

subsection \<open>The state machine\<close>

text \<open>The release of a key that was pressed before the tapping key: modifiers and layers are kept until the tapping key is decided.\<close>

definition release_waits :: "u16 \<Rightarrow> keyrecord_t \<Rightarrow> bool" where
  "release_waits action keyp =
     (if action_kind_id action \<in> {ACT_LMODS, ACT_RMODS} then
        action_mods action \<noteq> 0 \<and> action_code action = 0 \<or> IS_MODIFIER_KEYCODE (action_code action)
      else if action_kind_id action \<in> {ACT_LMODS_TAP, ACT_RMODS_TAP} then
        action_mods action \<noteq> 0 \<and> tap_count (tap keyp) = 0 \<or> IS_MODIFIER_KEYCODE (action_code action)
      else if action_kind_id action \<in> {ACT_LAYER_TAP, ACT_LAYER_TAP_EXT} then
        action_code action < OP_TAP_TOGGLE \<or> action_code action \<in> {OP_ON_OFF, OP_OFF_ON, OP_SET_CLEAR}
      else False)"

text \<open>The results: is the event consumed, the record as the code leaves it, and the new state.\<close>

type_synonym 'w tap_result = "bool \<times> keyrecord_t \<times> 'w tapping"

definition tapping_undecided :: "'w tap_env \<Rightarrow> keyrecord_t \<Rightarrow> 'w tapping \<Rightarrow> 'w tap_result" where
  "tapping_undecided env keyp t =
     (let e = event keyp
      in if IS_TAPPING_RECORD keyp t \<and> \<not> pressed e then
           let t = process_tapping_key env (t\<lparr>tapping_key := (tapping_key t)\<lparr>tap := (tap (tapping_key t))\<lparr>tap_count := 1\<rparr>\<rparr>\<rparr>)
           in (False, keyp\<lparr>tap := tap (tapping_key t)\<rparr>, t)
         else if \<not> pressed e \<and> waiting_buffer_typed e t \<and> env_permissive_hold env (tapping_key t) (world t) then
           (False, keyp, (process_tapping_key env t)\<lparr>tapping_key := no_record\<rparr>)
         else if \<not> pressed e \<and> \<not> waiting_buffer_typed e t then
           if release_waits (env_layer_switch_get_action env (key e) (world t)) keyp then (False, keyp, t)
           else let (keyp, t) = process_key env keyp t in (True, keyp, t)
         else if pressed e then
           let t = t\<lparr>tapping_key := (tapping_key t)\<lparr>tap := (tap (tapping_key t))\<lparr>interrupted := True\<rparr>\<rparr>\<rparr>
           in if env_hold_on_other_key_press env (tapping_key t) (world t)
              then (False, keyp, (process_tapping_key env t)\<lparr>tapping_key := no_record\<rparr>)
              else (False, keyp, t)
         else (False, keyp, t))"

text \<open>\<^verbatim>\<open>unregister key\<close>: the release that is made up for the last tap.\<close>

definition release_last_tap :: "'w tap_env \<Rightarrow> u16 \<Rightarrow> 'w tapping \<Rightarrow> 'w tapping" where
  "release_last_tap env now t =
     (if 1 < tap_count (tap (tapping_key t)) then
        snd (process_key env \<lparr>event = \<lparr>key = key (event (tapping_key t)), time = now, ev_type = ev_type (event (tapping_key t)), pressed = False\<rparr>,
               tap = tap (tapping_key t)\<rparr> t)
      else t)"

definition tapping_pressed_in_term :: "'w tap_env \<Rightarrow> keyrecord_t \<Rightarrow> 'w tapping \<Rightarrow> 'w tap_result" where
  "tapping_pressed_in_term env keyp t =
     (let e = event keyp
      in if IS_NOEVENT e then (True, keyp, t)
         else if tap_count (tap (tapping_key t)) = 0 then tapping_undecided env keyp t
         else if IS_TAPPING_RECORD keyp t \<and> \<not> pressed e then
           let (keyp, t) = process_key env (keyp\<lparr>tap := tap (tapping_key t)\<rparr>) t in (True, keyp, t\<lparr>tapping_key := keyp\<rparr>)
         else if is_tap_record env keyp (world t) \<and> pressed e then
           (True, keyp, waiting_buffer_scan_tap env ((release_last_tap env (time e) t)\<lparr>tapping_key := keyp\<rparr>))
         else let (keyp, t) = process_key env keyp t in (True, keyp, t))"

definition tapping_pressed_after_term :: "'w tap_env \<Rightarrow> keyrecord_t \<Rightarrow> 'w tapping \<Rightarrow> 'w tap_result" where
  "tapping_pressed_after_term env keyp t =
     (let e = event keyp
      in if tap_count (tap (tapping_key t)) = 0 then (False, keyp, (process_tapping_key env t)\<lparr>tapping_key := no_record\<rparr>)
         else if IS_NOEVENT e then (True, keyp, t)
         else if IS_TAPPING_RECORD keyp t \<and> \<not> pressed e then
           let (keyp, t) = process_key env (keyp\<lparr>tap := tap (tapping_key t)\<rparr>) t in (True, keyp, t\<lparr>tapping_key := no_record\<rparr>)
         else if is_tap_record env keyp (world t) \<and> pressed e then
           (True, keyp, waiting_buffer_scan_tap env ((release_last_tap env (time e) t)\<lparr>tapping_key := keyp\<rparr>))
         else let (keyp, t) = process_key env keyp t in (True, keyp, t))"

definition tapping_released :: "'w tap_env \<Rightarrow> keyrecord_t \<Rightarrow> 'w tapping \<Rightarrow> 'w tap_result" where
  "tapping_released env keyp t =
     (let e = event keyp
      in if WITHIN_TAPPING_TERM env e t then
           if IS_NOEVENT e then (True, keyp, t)
           else if pressed e then
             if IS_TAPPING_RECORD keyp t then
               if WITHIN_QUICK_TAP_TERM env e t \<and> \<not> interrupted (tap (tapping_key t)) \<and> 0 < tap_count (tap (tapping_key t)) then
                 let keyp = keyp\<lparr>tap := tap (tapping_key t)\<rparr>;
                     keyp = (if tap_count (tap keyp) < 15 then keyp\<lparr>tap := (tap keyp)\<lparr>tap_count := tap_count (tap keyp) + 1\<rparr>\<rparr> else keyp);
                     (keyp, t) = process_key env keyp t
                 in (True, keyp, t\<lparr>tapping_key := keyp\<rparr>)
               else (True, keyp, t\<lparr>tapping_key := keyp\<rparr>)
             else if is_tap_record env keyp (world t) then
               (True, keyp, waiting_buffer_scan_tap env (t\<lparr>tapping_key := keyp\<rparr>))
             else
               let (keyp, t) = process_key env keyp (t\<lparr>tapping_key := (tapping_key t)\<lparr>tap := (tap (tapping_key t))\<lparr>interrupted := True\<rparr>\<rparr>\<rparr>)
               in (True, keyp, t)
           else let (keyp, t) = process_key env keyp t in (True, keyp, t)
         else (False, keyp, t\<lparr>tapping_key := no_record\<rparr>))"

definition process_tapping :: "'w tap_env \<Rightarrow> keyrecord_t \<Rightarrow> 'w tapping \<Rightarrow> 'w tap_result" where
  "process_tapping env keyp t =
     (let e = event keyp
      in if IS_NOEVENT (event (tapping_key t)) then
           if \<not> IS_EVENT e then (True, keyp, t)
           else if pressed e \<and> is_tap_record env keyp (world t) then
             (True, keyp, waiting_buffer_scan_tap env (t\<lparr>tapping_key := keyp\<rparr>))
           else let (keyp, t) = process_key env keyp t in (True, keyp, t)
         else if pressed (event (tapping_key t)) then
           if WITHIN_TAPPING_TERM env e t then tapping_pressed_in_term env keyp t else tapping_pressed_after_term env keyp t
         else tapping_released env keyp t)"

text \<open>The loop over the waiting events; \<open>n\<close> bounds the number of iterations.\<close>

primrec process_waiting :: "'w tap_env \<Rightarrow> nat \<Rightarrow> 'w tapping \<Rightarrow> 'w tapping" where
  "process_waiting env 0 t = t"
| "process_waiting env (Suc n) t =
     (if waiting_buffer_tail t = waiting_buffer_head t then t
      else let (handled, r, t) = process_tapping env (waiting_buffer t ! waiting_buffer_tail t) t;
               t = t\<lparr>waiting_buffer := (waiting_buffer t)[waiting_buffer_tail t := r]\<rparr>
           in if handled then process_waiting env n (t\<lparr>waiting_buffer_tail := (waiting_buffer_tail t + 1) mod WAITING_BUFFER_SIZE\<rparr>) else t)"

definition action_tapping_process :: "'w tap_env \<Rightarrow> keyrecord_t \<Rightarrow> 'w tapping \<Rightarrow> 'w tapping" where
  "action_tapping_process env r t =
     (let (handled, r, t) = process_tapping env r t;
          t = (if handled then t
               else let (ok, t) = waiting_buffer_enq r t
                    in if ok then t
                       else (waiting_buffer_clear (t\<lparr>world := env_clear_keyboard env (world t)\<rparr>))\<lparr>tapping_key := no_record\<rparr>)
      in process_waiting env WAITING_BUFFER_SIZE t)"

section \<open>The waiting buffer as a queue\<close>

definition wb_inv :: "'w tapping \<Rightarrow> bool" where
  "wb_inv t \<longleftrightarrow> length (waiting_buffer t) = WAITING_BUFFER_SIZE \<and> waiting_buffer_head t < WAITING_BUFFER_SIZE \<and>
     waiting_buffer_tail t < WAITING_BUFFER_SIZE"

definition wb_contents :: "'w tapping \<Rightarrow> keyrecord_t list" where
  "wb_contents t = ring_list WAITING_BUFFER_SIZE (waiting_buffer t) (waiting_buffer_head t) (waiting_buffer_tail t)"

lemma wb_contents_cells: "wb_contents t = map ((!) (waiting_buffer t)) (waiting_cells t)"
  by (simp add: wb_contents_def ring_list_def waiting_cells_def)

lemma waiting_cells_less: "wb_inv t \<Longrightarrow> i \<in> set (waiting_cells t) \<Longrightarrow> i < length (waiting_buffer t)"
  by (auto simp: waiting_cells_def wb_inv_def WAITING_BUFFER_SIZE_def)

section \<open>No press is lost\<close>

subsection \<open>A log of what is processed\<close>

datatype tap_act = Processed keyrecord_t | Cleared

definition logged :: "'w tap_env \<Rightarrow> ('w \<times> tap_act list) tap_env" where
  "logged env =
     \<lparr>env_process_record = (\<lambda>r (w, l). let (r', w') = env_process_record env r w in (r', w', l @ [Processed r])),
      env_layer_switch_get_action = (\<lambda>k (w, l). env_layer_switch_get_action env k w),
      env_tapping_term = (\<lambda>r (w, l). env_tapping_term env r w),
      env_quick_tap_term = (\<lambda>r (w, l). env_quick_tap_term env r w),
      env_permissive_hold = (\<lambda>r (w, l). env_permissive_hold env r w),
      env_hold_on_other_key_press = (\<lambda>r (w, l). env_hold_on_other_key_press env r w),
      env_clear_keyboard = (\<lambda>(w, l). (env_clear_keyboard env w, l @ [Cleared]))\<rparr>"

text \<open>What is used of \<^verbatim>\<open>process_record\<close>: a record with a tap count that it is given does not come back as an undecided press. (\<^verbatim>\<open>process_action\<close>
  resets the count only with \<^verbatim>\<open>HOLD_ON_OTHER_KEY_PRESS\<close>.)\<close>

definition taps_stay :: "'w tap_env \<Rightarrow> bool" where
  "taps_stay env \<longleftrightarrow> (\<forall>r w. 0 < tap_count (tap r) \<longrightarrow>
     0 < tap_count (tap (fst (env_process_record env r w))) \<or> \<not> pressed (event (fst (env_process_record env r w))))"

definition press_of :: "keyevent_t \<Rightarrow> keyevent_t multiset" where
  "press_of e = (if IS_EVENT e \<and> pressed e then {#e#} else {#})"

fun act_press :: "tap_act \<Rightarrow> keyevent_t multiset" where
  "act_press (Processed r) = press_of (event r)"
| "act_press Cleared = {#}"

definition log_presses :: "tap_act list \<Rightarrow> keyevent_t multiset" where
  "log_presses l = sum_list (map act_press l)"

definition waiting_presses :: "'w tapping \<Rightarrow> keyevent_t multiset" where
  "waiting_presses t = sum_list (map (press_of \<circ> event) (wb_contents t))"

text \<open>The press of the tapping key while it is not decided.\<close>

definition pending :: "'w tapping \<Rightarrow> keyevent_t multiset" where
  "pending t = (if tap_count (tap (tapping_key t)) = 0 then press_of (event (tapping_key t)) else {#})"

definition fresh :: "keyrecord_t \<Rightarrow> bool" where
  "fresh r \<longleftrightarrow> (pressed (event r) \<longrightarrow> tap_count (tap r) = 0)"

definition same_queue :: "('w \<times> tap_act list) tapping \<Rightarrow> ('w \<times> tap_act list) tapping \<Rightarrow> bool" where
  "same_queue t t' \<longleftrightarrow> map event (waiting_buffer t') = map event (waiting_buffer t) \<and>
     waiting_buffer_head t' = waiting_buffer_head t \<and> waiting_buffer_tail t' = waiting_buffer_tail t \<and>
     (list_all fresh (wb_contents t) \<longrightarrow> list_all fresh (wb_contents t')) \<and>
     (Cleared \<in> set (snd (world t')) \<longleftrightarrow> Cleared \<in> set (snd (world t)))"

definition presses :: "('w \<times> tap_act list) tapping \<Rightarrow> keyevent_t multiset" where
  "presses t = log_presses (snd (world t)) + pending t"

definition accounts :: "keyrecord_t \<Rightarrow> ('w \<times> tap_act list) tapping \<Rightarrow> ('w \<times> tap_act list) tap_result \<Rightarrow> bool" where
  "accounts k t res = (case res of (handled, k', t') \<Rightarrow>
     same_queue t t' \<and> presses t' + (if handled then {#} else press_of (event k)) = presses t + press_of (event k) \<and>
     (\<not> handled \<longrightarrow> event k' = event k \<and> fresh k'))"

lemma log_presses_simps [simp]: "log_presses [] = {#}" "log_presses (l @ [a]) = log_presses l + act_press a"
  by (simp_all add: log_presses_def)

lemma wb_contents_update [simp]: "wb_contents (t\<lparr>tapping_key := k\<rparr>) = wb_contents t" "wb_contents (t\<lparr>world := w\<rparr>) = wb_contents t"
  by (simp_all add: wb_contents_def)

lemma same_queue_refl [simp]: "same_queue t t"
  by (simp add: same_queue_def)

lemma same_queue_trans: "same_queue t t' \<Longrightarrow> same_queue t' t'' \<Longrightarrow> same_queue t t''"
  by (simp add: same_queue_def)

lemma same_queue_tapping_key [simp]: "same_queue t (t'\<lparr>tapping_key := k\<rparr>) = same_queue t t'" "same_queue (t\<lparr>tapping_key := k\<rparr>) t' = same_queue t t'"
  by (simp_all add: same_queue_def)

lemma presses_no_record [simp]: "presses (t\<lparr>tapping_key := no_record\<rparr>) = log_presses (snd (world t))"
  by (simp add: presses_def pending_def no_record_def press_of_def IS_EVENT_def)

lemma press_of_released [simp]: "\<not> pressed e \<Longrightarrow> press_of e = {#}"
  by (simp add: press_of_def)

lemma press_of_tick [simp]: "IS_NOEVENT e \<Longrightarrow> press_of e = {#}"
  by (simp add: press_of_def IS_EVENT_def IS_NOEVENT_def)

lemma process_key_logged:
  assumes "process_key (logged env) r t = (r', t')"
  shows "same_queue t t'" "log_presses (snd (world t')) = log_presses (snd (world t)) + press_of (event r)" "tapping_key t' = tapping_key t"
    "taps_stay env \<Longrightarrow> 0 < tap_count (tap r) \<Longrightarrow> 0 < tap_count (tap r') \<or> \<not> pressed (event r')"
proof -
  obtain w' where r': "env_process_record env r (fst (world t)) = (r', w')" and t': "t' = t\<lparr>world := (w', snd (world t) @ [Processed r])\<rparr>"
    using assms by (auto simp: process_key_def logged_def split: prod.splits)
  show "same_queue t t'" "log_presses (snd (world t')) = log_presses (snd (world t)) + press_of (event r)" "tapping_key t' = tapping_key t"
    by (simp_all add: t' same_queue_def)
  show "0 < tap_count (tap r') \<or> \<not> pressed (event r')" if "taps_stay env" "0 < tap_count (tap r)"
    using that r' unfolding taps_stay_def by (metis fst_conv)
qed

lemma process_tapping_key_logged:
  shows "same_queue t (process_tapping_key (logged env) t)"
    "log_presses (snd (world (process_tapping_key (logged env) t))) = log_presses (snd (world t)) + press_of (event (tapping_key t))"
    "taps_stay env \<Longrightarrow> 0 < tap_count (tap (tapping_key t)) \<Longrightarrow> pending (process_tapping_key (logged env) t) = {#}"
proof -
  obtain r' t' where p: "process_key (logged env) (tapping_key t) t = (r', t')"
    by fastforce
  note l = process_key_logged [OF p]
  show "same_queue t (process_tapping_key (logged env) t)"
    "log_presses (snd (world (process_tapping_key (logged env) t))) = log_presses (snd (world t)) + press_of (event (tapping_key t))"
    using l(1,2) by (simp_all add: process_tapping_key_def p)
  show "pending (process_tapping_key (logged env) t) = {#}" if "taps_stay env" "0 < tap_count (tap (tapping_key t))"
    using l(4) [OF that] by (auto simp: process_tapping_key_def p pending_def)
qed

lemma scan_tap_accounts:
  assumes "taps_stay env" and "wb_inv t"
  shows "same_queue t (waiting_buffer_scan_tap (logged env) t)" "presses (waiting_buffer_scan_tap (logged env) t) = presses t"
proof -
  have "same_queue t (waiting_buffer_scan_tap (logged env) t) \<and> presses (waiting_buffer_scan_tap (logged env) t) = presses t"
  proof (cases "waiting_buffer_scan_tap (logged env) t = t")
    case False
    then obtain i where i: "i \<in> set (waiting_cells t)" "\<not> pressed (event (waiting_buffer t ! i))"
      and undecided: "tap_count (tap (tapping_key t)) = 0"
      and scan: "waiting_buffer_scan_tap (logged env) t = process_tapping_key (logged env)
        (t\<lparr>tapping_key := (tapping_key t)\<lparr>tap := (tap (tapping_key t))\<lparr>tap_count := 1\<rparr>\<rparr>,
           waiting_buffer := (waiting_buffer t)[i := (waiting_buffer t ! i)\<lparr>tap := (tap (waiting_buffer t ! i))\<lparr>tap_count := 1\<rparr>\<rparr>]\<rparr>)"
        (is "_ = process_tapping_key _ ?t")
      by (auto simp: waiting_buffer_scan_tap_def find_Some_iff Let_def in_set_conv_nth split: if_splits option.splits)
    have "i < length (waiting_buffer t)"
      using assms(2) i(1) by (rule waiting_cells_less)
    then have "same_queue t ?t"
      using i(2) assms(2) waiting_cells_less [OF assms(2)]
      by (auto simp: same_queue_def fresh_def wb_contents_cells waiting_cells_def list_all_iff nth_list_update intro!: nth_equalityI)
    then show ?thesis
      using process_tapping_key_logged [where t = ?t and env = env] assms(1) undecided scan by (auto simp: presses_def pending_def intro: same_queue_trans)
  qed simp
  then show "same_queue t (waiting_buffer_scan_tap (logged env) t)" "presses (waiting_buffer_scan_tap (logged env) t) = presses t"
    by simp_all
qed

subsection \<open>Every branch of the state machine accounts for the presses\<close>

lemma pending_set: "presses (t\<lparr>tapping_key := k\<rparr>) = log_presses (snd (world t)) + (if tap_count (tap k) = 0 then press_of (event k) else {#})"
  by (simp add: presses_def pending_def)

text \<open>The shapes of the branches: the record is processed, becomes the tapping key, or waits.\<close>

lemma accounts_process:
  assumes "process_key (logged env) k0 t = (k', t')" and "event k0 = event k"
  shows "accounts k t (True, k', t')"
  using process_key_logged [OF assms(1)] assms(2) by (simp add: accounts_def presses_def pending_def)

lemma accounts_process_now: "accounts k t (True, process_key (logged env) k t)"
  using accounts_process [of env k t _ _ k] by (cases "process_key (logged env) k t") simp

lemma accounts_process_keep:
  assumes "taps_stay env" and "process_key (logged env) k0 t = (k', t')" and "event k0 = event k" and "0 < tap_count (tap k0)" and "pending t = {#}"
  shows "accounts k t (True, k', t'\<lparr>tapping_key := k'\<rparr>)"
  using process_key_logged [OF assms(2)] assms by (auto simp: accounts_def presses_def pending_def)

lemma accounts_process_reset:
  assumes "process_key (logged env) k0 t = (k', t')" and "event k0 = event k" and "pending t = {#}"
  shows "accounts k t (True, k', t'\<lparr>tapping_key := no_record\<rparr>)"
  using process_key_logged [OF assms(1)] assms(2,3) by (simp add: accounts_def) (simp add: presses_def)

lemma accounts_start:
  assumes "taps_stay env" and "wb_inv t" and "same_queue t0 t" and "log_presses (snd (world t)) = presses t0" and "fresh k" and "pressed (event k)"
  shows "accounts k t0 (True, k', waiting_buffer_scan_tap (logged env) (t\<lparr>tapping_key := k\<rparr>))"
proof -
  have "wb_inv (t\<lparr>tapping_key := k\<rparr>)"
    using assms(2) by (simp add: wb_inv_def)
  from scan_tap_accounts [OF assms(1) this] show ?thesis
    using assms(3-6) by (auto simp: accounts_def pending_set fresh_def intro: same_queue_trans)
qed

lemma accounts_decided:
  assumes "tap_count (tap (tapping_key t)) = 0" and "fresh k"
  shows "accounts k t (False, k, (process_tapping_key (logged env) t)\<lparr>tapping_key := no_record\<rparr>)"
  using process_tapping_key_logged [where t = t and env = env] assms by (simp add: accounts_def) (simp add: presses_def pending_def)

lemma accounts_wait:
  assumes "same_queue t t'" and "presses t' = presses t" and "fresh k" and "event k' = event k" and "fresh k'"
  shows "accounts k t (False, k', t')"
  using assms by (simp add: accounts_def)

lemma tapping_undecided_accounts:
  assumes "taps_stay env" and "fresh k" and "tap_count (tap (tapping_key t)) = 0"
  shows "accounts k t (tapping_undecided (logged env) k t)"
proof -
  let ?t1 = "t\<lparr>tapping_key := (tapping_key t)\<lparr>tap := (tap (tapping_key t))\<lparr>tap_count := 1\<rparr>\<rparr>\<rparr>"
  let ?t2 = "t\<lparr>tapping_key := (tapping_key t)\<lparr>tap := (tap (tapping_key t))\<lparr>interrupted := True\<rparr>\<rparr>\<rparr>"
  have first: "accounts k t (False, k\<lparr>tap := tap (tapping_key (process_tapping_key (logged env) ?t1))\<rparr>, process_tapping_key (logged env) ?t1)"
    if "\<not> pressed (event k)"
    using process_tapping_key_logged [where t = ?t1 and env = env] assms that
    by (intro accounts_wait) (simp_all add: presses_def pending_def fresh_def)
  have other: "accounts k t (False, k, (process_tapping_key (logged env) ?t2)\<lparr>tapping_key := no_record\<rparr>)"
    using accounts_decided [of ?t2 k env] assms(2,3) by (simp add: accounts_def presses_def pending_def)
  have wait: "accounts k t (False, k, ?t2)"
    using assms(2,3) by (intro accounts_wait) (simp_all add: presses_def pending_def)
  show ?thesis
    using first other wait accounts_decided [OF assms(3,2)] accounts_wait [of t t k k] assms(2)
    by (auto simp: tapping_undecided_def Let_def split: prod.splits intro: accounts_process accounts_process_now)
qed

lemma release_last_tap_logged:
  "same_queue t (release_last_tap (logged env) now t)" "log_presses (snd (world (release_last_tap (logged env) now t))) = log_presses (snd (world t))"
  "wb_inv (release_last_tap (logged env) now t) = wb_inv t"
proof -
  obtain r' t' where p: "process_key (logged env) \<lparr>event = \<lparr>key = key (event (tapping_key t)), time = now, ev_type = ev_type (event (tapping_key t)),
      pressed = False\<rparr>, tap = tap (tapping_key t)\<rparr> t = (r', t')"
    by fastforce
  have "wb_inv t' = wb_inv t"
    using p by (auto simp: process_key_def wb_inv_def split: prod.splits)
  then show "same_queue t (release_last_tap (logged env) now t)"
    "log_presses (snd (world (release_last_tap (logged env) now t))) = log_presses (snd (world t))"
    "wb_inv (release_last_tap (logged env) now t) = wb_inv t"
    using process_key_logged(1,2) [OF p] by (simp_all add: release_last_tap_def p)
qed

lemma tapping_decided_accounts:
  assumes "taps_stay env" and "wb_inv t" and "fresh k" and "0 < tap_count (tap (tapping_key t))"
  shows "accounts k t (tapping_pressed_in_term (logged env) k t)" "accounts k t (tapping_pressed_after_term (logged env) k t)"
proof -
  have pend: "pending t = {#}"
    using assms(4) by (simp add: pending_def)
  have start: "accounts k t (True, k, waiting_buffer_scan_tap (logged env) ((release_last_tap (logged env) (time (event k)) t)\<lparr>tapping_key := k\<rparr>))"
    if "pressed (event k)"
    using release_last_tap_logged [where t = t and env = env and now = "time (event k)"] assms that pend
    by (intro accounts_start) (simp_all add: presses_def)
  have tick: "accounts k t (True, k, t)" if "IS_NOEVENT (event k)"
    using that by (simp add: accounts_def)
  show "accounts k t (tapping_pressed_in_term (logged env) k t)"
    using start tick assms(1,4) pend
    by (auto simp: tapping_pressed_in_term_def Let_def split: prod.splits intro: accounts_process_now accounts_process_keep)
  show "accounts k t (tapping_pressed_after_term (logged env) k t)"
    using start tick assms(1,4) pend
    by (auto simp: tapping_pressed_after_term_def Let_def split: prod.splits intro: accounts_process_now accounts_process_reset)
qed

lemma tapping_released_accounts:
  assumes "taps_stay env" and "wb_inv t" and "fresh k" and "\<not> pressed (event (tapping_key t))"
  shows "accounts k t (tapping_released (logged env) k t)"
proof -
  have pend: "pending t = {#}"
    using assms(4) by (simp add: pending_def)
  have quick: "accounts k t (let keyp = k\<lparr>tap := tap (tapping_key t)\<rparr>;
        keyp = (if tap_count (tap keyp) < 15 then keyp\<lparr>tap := (tap keyp)\<lparr>tap_count := tap_count (tap keyp) + 1\<rparr>\<rparr> else keyp);
        (keyp, t) = process_key (logged env) keyp t in (True, keyp, t\<lparr>tapping_key := keyp\<rparr>))"
    if "0 < tap_count (tap (tapping_key t))"
    using assms(1) that pend by (auto simp: Let_def split: prod.splits intro: accounts_process_keep)
  have again: "accounts k t (True, k, t\<lparr>tapping_key := k\<rparr>)" if "pressed (event k)"
    using assms(3) that pend by (simp add: accounts_def pending_set fresh_def) (simp add: presses_def)
  have start: "accounts k t (True, k, waiting_buffer_scan_tap (logged env) (t\<lparr>tapping_key := k\<rparr>))" if "pressed (event k)"
    using assms that pend by (intro accounts_start) (simp_all add: presses_def)
  have other: "accounts k t (let (keyp, t) = process_key (logged env) k
      (t\<lparr>tapping_key := (tapping_key t)\<lparr>tap := (tap (tapping_key t))\<lparr>interrupted := True\<rparr>\<rparr>\<rparr>) in (True, keyp, t))"
  proof -
    obtain r' t' where p: "process_key (logged env) k (t\<lparr>tapping_key := (tapping_key t)\<lparr>tap := (tap (tapping_key t))\<lparr>interrupted := True\<rparr>\<rparr>\<rparr>) = (r', t')"
      by fastforce
    then show ?thesis
      using process_key_logged(1-3) [OF p] assms(4) by (simp add: accounts_def presses_def pending_def)
  qed
  have tick: "accounts k t (True, k, t)" if "IS_NOEVENT (event k)"
    using that by (simp add: accounts_def)
  have late: "accounts k t (False, k, t\<lparr>tapping_key := no_record\<rparr>)"
    using assms(3) pend by (simp add: accounts_def) (simp add: presses_def)
  show ?thesis
    using quick again start other late tick
    by (simp add: tapping_released_def accounts_process_now Let_def)
qed

lemma process_tapping_accounts:
  assumes "taps_stay env" and "wb_inv t" and "fresh k"
  shows "accounts k t (process_tapping (logged env) k t)"
proof -
  have idle: "accounts k t (if \<not> IS_EVENT (event k) then (True, k, t)
      else if pressed (event k) \<and> is_tap_record (logged env) k (world t) then (True, k, waiting_buffer_scan_tap (logged env) (t\<lparr>tapping_key := k\<rparr>))
      else let (keyp, t) = process_key (logged env) k t in (True, keyp, t))" if "IS_NOEVENT (event (tapping_key t))"
  proof -
    have pend: "pending t = {#}"
      using that by (simp add: pending_def)
    have "accounts k t (True, k, waiting_buffer_scan_tap (logged env) (t\<lparr>tapping_key := k\<rparr>))" if "pressed (event k)"
      using assms that pend by (intro accounts_start) (simp_all add: presses_def)
    moreover have "accounts k t (True, k, t)" if "\<not> IS_EVENT (event k)"
      using that by (simp add: accounts_def press_of_def)
    ultimately show ?thesis
      by (auto split: prod.splits intro: accounts_process accounts_process_now)
  qed
  have held: "accounts k t (tapping_pressed_in_term (logged env) k t)" "accounts k t (tapping_pressed_after_term (logged env) k t)"
    using tapping_decided_accounts [OF assms] tapping_undecided_accounts [OF assms(1,3), of t] accounts_decided [of t k env] assms(3)
    by (cases "tap_count (tap (tapping_key t)) = 0";
        auto simp: tapping_pressed_in_term_def tapping_pressed_after_term_def Let_def accounts_def)+
  show ?thesis
    using idle held tapping_released_accounts [OF assms] by (simp add: process_tapping_def Let_def)
qed

subsection \<open>The waiting events\<close>

definition balance :: "('w \<times> tap_act list) tapping \<Rightarrow> keyevent_t multiset" where
  "balance t = presses t + waiting_presses t"

definition tap_inv :: "'w tapping \<Rightarrow> bool" where
  "tap_inv t \<longleftrightarrow> wb_inv t \<and> list_all fresh (wb_contents t)"

lemma ring_list_update_tail:
  assumes "head < N" and "tail < N" and "head \<noteq> tail"
  shows "ring_list N (buf[tail := x]) head ((tail + 1) mod N) = ring_list N buf head ((tail + 1) mod N)"
proof -
  have "((tail + 1) mod N + i) mod N \<noteq> tail" if "i < ring_size N head ((tail + 1) mod N)" for i
  proof
    assume "((tail + 1) mod N + i) mod N = tail"
    then have "(tail + (1 + i)) mod N = tail"
      by (simp add: mod_add_left_eq)
    moreover have "1 + i < N"
      using that ring_size_pop [OF assms] ring_size_less [OF assms(1), of tail] by simp
    ultimately show False
      using assms(2) by (auto simp: mod_if split: if_splits)
  qed
  then show ?thesis
    unfolding ring_list_def by (intro map_cong refl nth_list_update_neq) (metis atLeastLessThan_iff set_upt)
qed

lemma same_queue_inv:
  assumes "same_queue t t'" and "tap_inv t"
  shows "tap_inv t'" "map event (wb_contents t') = map event (wb_contents t)" "waiting_presses t' = waiting_presses t"
proof -
  have ev: "map event (waiting_buffer t') = map event (waiting_buffer t)"
    using assms(1) by (simp add: same_queue_def)
  then have len: "length (waiting_buffer t') = length (waiting_buffer t)"
    by (rule map_eq_imp_length_eq)
  have inv: "wb_inv t"
    using assms(2) by (simp add: tap_inv_def)
  then show "tap_inv t'"
    using assms len by (simp add: tap_inv_def wb_inv_def same_queue_def)
  have cells: "waiting_cells t' = waiting_cells t"
    using assms(1) by (simp add: same_queue_def waiting_cells_def)
  have "event (waiting_buffer t' ! i) = event (waiting_buffer t ! i)" if "i \<in> set (waiting_cells t)" for i
    using arg_cong [OF ev, of "\<lambda>xs. xs ! i"] waiting_cells_less [OF inv that] len by simp
  then show c: "map event (wb_contents t') = map event (wb_contents t)"
    by (simp add: wb_contents_cells cells)
  then have "map press_of (map event (wb_contents t')) = map press_of (map event (wb_contents t))"
    by (rule arg_cong)
  then show "waiting_presses t' = waiting_presses t"
    unfolding waiting_presses_def by (simp only: map_map)
qed

text \<open>The front of the queue, and what is left when the loop goes on.\<close>

definition advance :: "keyrecord_t \<Rightarrow> 'w tapping \<Rightarrow> 'w tapping" where
  "advance r t = t\<lparr>waiting_buffer := (waiting_buffer t)[waiting_buffer_tail t := r],
     waiting_buffer_tail := (waiting_buffer_tail t + 1) mod WAITING_BUFFER_SIZE\<rparr>"

lemma wb_contents_advance:
  assumes "wb_inv t" and "waiting_buffer_tail t \<noteq> waiting_buffer_head t"
  shows "wb_contents t = waiting_buffer t ! waiting_buffer_tail t # wb_contents (advance r t)" "wb_inv (advance r t)"
    "wb_contents (t\<lparr>waiting_buffer := (waiting_buffer t)[waiting_buffer_tail t := r]\<rparr>) = r # wb_contents (advance r t)"
proof -
  have i: "waiting_buffer_head t < WAITING_BUFFER_SIZE" "waiting_buffer_tail t < WAITING_BUFFER_SIZE" "waiting_buffer_head t \<noteq> waiting_buffer_tail t"
    using assms by (simp_all add: wb_inv_def)
  show "wb_contents t = waiting_buffer t ! waiting_buffer_tail t # wb_contents (advance r t)"
    using ring_list_pop [OF i] by (simp add: wb_contents_def advance_def ring_list_update_tail [OF i, simplified])
  show "wb_inv (advance r t)"
    using assms(1) by (auto simp: wb_inv_def advance_def)
  show "wb_contents (t\<lparr>waiting_buffer := (waiting_buffer t)[waiting_buffer_tail t := r]\<rparr>) = r # wb_contents (advance r t)"
    using ring_list_pop [OF i, of "(waiting_buffer t)[waiting_buffer_tail t := r]"] assms(1) by (simp add: wb_contents_def advance_def wb_inv_def)
qed

lemma process_waiting_step:
  assumes "taps_stay env" and "tap_inv t" and "waiting_buffer_tail t \<noteq> waiting_buffer_head t"
    and p: "process_tapping (logged env) (waiting_buffer t ! waiting_buffer_tail t) t = (handled, r, t1)"
  defines "t2 \<equiv> if handled then advance r t1 else t1\<lparr>waiting_buffer := (waiting_buffer t1)[waiting_buffer_tail t1 := r]\<rparr>"
  shows "tap_inv t2" "balance t2 = balance t" "Cleared \<in> set (snd (world t2)) \<longleftrightarrow> Cleared \<in> set (snd (world t))"
proof -
  let ?k = "waiting_buffer t ! waiting_buffer_tail t"
  have inv: "wb_inv t"
    using assms(2) by (simp add: tap_inv_def)
  have k: "fresh ?k"
    using assms(2) wb_contents_advance(1) [OF inv assms(3), of r] by (simp add: tap_inv_def)
  have acc: "accounts ?k t (handled, r, t1)"
    using process_tapping_accounts [OF assms(1) inv k] p by simp
  then have q: "same_queue t t1"
    by (simp add: accounts_def)
  have t1: "tap_inv t1" and ev: "map event (wb_contents t1) = map event (wb_contents t)" and wp: "waiting_presses t1 = waiting_presses t"
    using same_queue_inv [OF q assms(2)] by simp_all
  have inv1: "wb_inv t1" and ne: "waiting_buffer_tail t1 \<noteq> waiting_buffer_head t1"
    using t1 q assms(3) by (simp_all add: tap_inv_def same_queue_def)
  note w1 = wb_contents_advance [OF inv1 ne, of r] and w = wb_contents_advance [OF inv assms(3), of r]
  have front: "event (waiting_buffer t1 ! waiting_buffer_tail t1) = event ?k"
    using ev w1(1) w(1) by simp
  have split: "waiting_presses t = press_of (event ?k) + waiting_presses (advance r t1)"
    unfolding wp [symmetric] using w1(1) front by (simp add: waiting_presses_def)
  show "Cleared \<in> set (snd (world t2)) \<longleftrightarrow> Cleared \<in> set (snd (world t))"
    using q by (simp add: t2_def advance_def same_queue_def)
  show "tap_inv t2"
    using w1 t1 inv1 acc by (auto simp: t2_def tap_inv_def wb_inv_def accounts_def)
  have adv: "presses (advance r t1) = presses t1" "presses (t1\<lparr>waiting_buffer := b\<rparr>) = presses t1" for b
    by (simp_all add: presses_def pending_def advance_def)
  show "balance t2 = balance t"
    using acc split w1(3) by (auto simp: t2_def balance_def adv accounts_def waiting_presses_def ac_simps)
qed

lemma process_waiting_accounts:
  assumes "taps_stay env" and "tap_inv t"
  shows "tap_inv (process_waiting (logged env) n t) \<and> balance (process_waiting (logged env) n t) = balance t \<and>
    (Cleared \<in> set (snd (world (process_waiting (logged env) n t))) \<longleftrightarrow> Cleared \<in> set (snd (world t)))"
  using assms(2)
proof (induction n arbitrary: t)
  case (Suc n)
  obtain handled r t1 where p: "process_tapping (logged env) (waiting_buffer t ! waiting_buffer_tail t) t = (handled, r, t1)"
    by (metis prod_cases3)
  show ?case
    using Suc.IH process_waiting_step [OF assms(1) Suc.prems _ p] Suc.prems by (cases handled) (auto simp: p advance_def)
qed (simp)

lemma enq_accounts:
  assumes "tap_inv t" and "fresh r" and "waiting_buffer_enq r t = (True, t')"
  shows "tap_inv t'" "balance t' = balance t + press_of (event r)" "world t' = world t"
proof -
  have "tap_inv t' \<and> balance t' = balance t + press_of (event r) \<and> world t' = world t"
  proof (cases "IS_NOEVENT (event r)")
    case True
    then show ?thesis
      using assms by (auto simp: waiting_buffer_enq_def)
  next
    case False
    then have t': "t' = t\<lparr>waiting_buffer := (waiting_buffer t)[waiting_buffer_head t := r],
        waiting_buffer_head := (waiting_buffer_head t + 1) mod WAITING_BUFFER_SIZE\<rparr>"
      and room: "(waiting_buffer_head t + 1) mod WAITING_BUFFER_SIZE \<noteq> waiting_buffer_tail t"
      using assms(3) by (auto simp: waiting_buffer_enq_def split: if_splits)
    have inv: "wb_inv t"
      using assms(1) by (simp add: tap_inv_def)
    then have "wb_contents t' = wb_contents t @ [r]"
      using room by (simp add: t' wb_contents_def wb_inv_def ring_list_push [simplified])
    then show ?thesis
      using assms(1,2) inv by (auto simp: t' tap_inv_def wb_inv_def balance_def presses_def pending_def waiting_presses_def)
  qed
  then show "tap_inv t'" "balance t' = balance t + press_of (event r)" "world t' = world t"
    by simp_all
qed

lemma action_tapping_process_accounts:
  assumes "taps_stay env" and "tap_inv t" and "fresh r"
  defines "t' \<equiv> action_tapping_process (logged env) r t"
  shows "tap_inv t'" "Cleared \<notin> set (snd (world t')) \<Longrightarrow> balance t' = balance t + press_of (event r) \<and> Cleared \<notin> set (snd (world t))"
proof -
  obtain handled r1 t1 where p: "process_tapping (logged env) r t = (handled, r1, t1)"
    by (metis prod_cases3)
  obtain ok t2 where e: "waiting_buffer_enq r1 t1 = (ok, t2)"
    by fastforce
  have "wb_inv t"
    using assms(2) by (simp add: tap_inv_def)
  then have acc: "accounts r t (handled, r1, t1)"
    using process_tapping_accounts [OF assms(1) _ assms(3)] p by metis
  then have q: "same_queue t t1"
    by (simp add: accounts_def)
  note t1 = same_queue_inv [OF q assms(2)]
  define t3 where "t3 = (if handled then t1 else if ok then t2
     else (waiting_buffer_clear (t1\<lparr>world := env_clear_keyboard (logged env) (world t1)\<rparr>))\<lparr>tapping_key := no_record\<rparr>)"
  have t': "t' = process_waiting (logged env) WAITING_BUFFER_SIZE t3"
    using e by (auto simp: t'_def action_tapping_process_def p t3_def waiting_buffer_enq_def split: if_splits)
  have enq: "tap_inv t2 \<and> balance t2 = balance t1 + press_of (event r) \<and> world t2 = world t1" if "\<not> handled" ok
    using enq_accounts [OF t1(1), of r1 t2] e acc that by (simp add: accounts_def)
  have clear: "tap_inv ((waiting_buffer_clear (t1\<lparr>world := w\<rparr>))\<lparr>tapping_key := no_record\<rparr>)" for w
    using t1(1) by (simp add: tap_inv_def wb_inv_def waiting_buffer_clear_def wb_contents_def ring_list_def ring_size_def)
  have "tap_inv t3"
    using enq clear t1(1) by (simp add: t3_def)
  moreover have "balance t3 = balance t + press_of (event r) \<and> Cleared \<notin> set (snd (world t))" if "Cleared \<notin> set (snd (world t3))"
  proof -
    have "handled \<or> ok"
    proof (rule ccontr)
      assume "\<not> (handled \<or> ok)"
      then show False
        using that by (cases "world t1") (simp add: t3_def waiting_buffer_clear_def logged_def)
    qed
    then show ?thesis
      using enq acc t1(3) q that by (auto simp: t3_def balance_def accounts_def same_queue_def ac_simps split: if_splits)
  qed
  ultimately show "tap_inv t'" "Cleared \<notin> set (snd (world t')) \<Longrightarrow> balance t' = balance t + press_of (event r) \<and> Cleared \<notin> set (snd (world t))"
    using process_waiting_accounts [OF assms(1), of t3 WAITING_BUFFER_SIZE] by (simp_all add: t')
qed

text \<open>The state at start, and the records that \<^verbatim>\<open>action_exec\<close> makes.\<close>

definition tapping_init :: "'w \<Rightarrow> 'w tapping" where
  "tapping_init w = \<lparr>tapping_key = no_record, waiting_buffer = replicate WAITING_BUFFER_SIZE no_record, waiting_buffer_head = 0,
     waiting_buffer_tail = 0, world = w\<rparr>"

definition new_record :: "keyevent_t \<Rightarrow> keyrecord_t" where
  "new_record e = \<lparr>event = e, tap = \<lparr>interrupted = False, tap_count = 0\<rparr>\<rparr>"

definition tapping_run :: "'w tap_env \<Rightarrow> keyevent_t list \<Rightarrow> 'w tapping \<Rightarrow> 'w tapping" where
  "tapping_run env es t = fold (\<lambda>e. action_tapping_process env (new_record e)) es t"

lemma tapping_run_accounts:
  assumes "taps_stay env" and "tap_inv t"
  shows "tap_inv (tapping_run (logged env) es t)"
    "Cleared \<notin> set (snd (world (tapping_run (logged env) es t))) \<Longrightarrow>
      balance (tapping_run (logged env) es t) = balance t + sum_list (map press_of es) \<and> Cleared \<notin> set (snd (world t))"
proof -
  have "tap_inv (tapping_run (logged env) es t) \<and> (Cleared \<notin> set (snd (world (tapping_run (logged env) es t))) \<longrightarrow>
      balance (tapping_run (logged env) es t) = balance t + sum_list (map press_of es) \<and> Cleared \<notin> set (snd (world t)))"
    using assms(2)
  proof (induction es arbitrary: t)
    case (Cons e es)
    let ?t = "action_tapping_process (logged env) (new_record e) t"
    have "fresh (new_record e)" and e: "event (new_record e) = e"
      by (simp_all add: fresh_def new_record_def)
    note step = action_tapping_process_accounts [OF assms(1) Cons.prems this(1)]
    have run: "tapping_run (logged env) (e # es) t = tapping_run (logged env) es ?t"
      by (simp add: tapping_run_def)
    show ?case
      using Cons.IH [OF step(1)] step(2) unfolding run e by (simp add: add.assoc)
  qed (simp add: tapping_run_def)
  then show "tap_inv (tapping_run (logged env) es t)"
    "Cleared \<notin> set (snd (world (tapping_run (logged env) es t))) \<Longrightarrow>
      balance (tapping_run (logged env) es t) = balance t + sum_list (map press_of es) \<and> Cleared \<notin> set (snd (world t))"
    by simp_all
qed


text \<open>Mod-tap keys \<open>A\<close> (row 0, column 0) and a plain key \<open>B\<close> (column 1); the environment of a small keyboard.\<close>

definition demo_env :: "nat tap_env" where
  "demo_env = \<lparr>env_process_record = (\<lambda>r n. (r, n + 1)), env_layer_switch_get_action = (\<lambda>k _. if col k = 0 then 0x2104 else 0x05),
     env_tapping_term = (\<lambda>_ _. 200), env_quick_tap_term = (\<lambda>_ _. 200), env_permissive_hold = (\<lambda>_ _. False),
     env_hold_on_other_key_press = (\<lambda>_ _. False), env_clear_keyboard = (\<lambda>n. n)\<rparr>"

definition key_event :: "nat \<Rightarrow> u16 \<Rightarrow> bool \<Rightarrow> keyevent_t" where
  "key_event c now p = \<lparr>key = \<lparr>col = c, row = 0\<rparr>, time = now, ev_type = KEY_EVENT, pressed = p\<rparr>"

definition tick :: "u16 \<Rightarrow> keyevent_t" where
  "tick now = \<lparr>key = \<lparr>col = 0, row = 0\<rparr>, time = now, ev_type = TICK_EVENT, pressed = False\<rparr>"

lemma demo_taps_stay: "taps_stay demo_env"
  by (simp add: taps_stay_def demo_env_def)


section \<open>The loop ends by itself\<close>

definition queue_indices :: "'w tapping \<Rightarrow> nat \<times> nat \<times> nat" where
  "queue_indices t = (waiting_buffer_head t, waiting_buffer_tail t, length (waiting_buffer t))"

lemma queue_indices_key [simp]: "queue_indices (t\<lparr>tapping_key := k\<rparr>) = queue_indices t"
  by (simp add: queue_indices_def)

lemma process_key_indices: "process_key env r t = (r', t') \<Longrightarrow> queue_indices t' = queue_indices t"
  by (auto simp: process_key_def queue_indices_def split: prod.splits)

lemma process_key_indices_snd [simp]: "queue_indices (snd (process_key env r t)) = queue_indices t"
  by (metis process_key_indices prod.collapse)

lemma process_tapping_key_indices [simp]: "queue_indices (process_tapping_key env t) = queue_indices t"
  by (simp add: process_tapping_key_def case_prod_unfold Let_def)

lemma scan_tap_indices [simp]: "queue_indices (waiting_buffer_scan_tap env t) = queue_indices t"
  by (auto simp: waiting_buffer_scan_tap_def split: option.splits) (simp add: queue_indices_def)

lemma release_last_tap_indices [simp]: "queue_indices (release_last_tap env now t) = queue_indices t"
  by (simp add: release_last_tap_def)

lemma process_tapping_indices: "process_tapping env k t = (handled, r, t') \<Longrightarrow> queue_indices t' = queue_indices t"
  by (auto simp: process_tapping_def tapping_pressed_in_term_def tapping_pressed_after_term_def tapping_released_def tapping_undecided_def Let_def
      dest!: process_key_indices split: if_splits prod.splits)

text \<open>As many iterations as there are waiting events are enough, and there are never more than seven.\<close>

lemma process_waiting_enough:
  assumes "wb_inv t" and "ring_size WAITING_BUFFER_SIZE (waiting_buffer_head t) (waiting_buffer_tail t) \<le> n"
  shows "process_waiting env (n + m) t = process_waiting env n t"
  using assms
proof (induction n arbitrary: t)
  case 0
  then have "waiting_buffer_tail t = waiting_buffer_head t"
    using ring_size_eq_0 [of "waiting_buffer_head t" WAITING_BUFFER_SIZE "waiting_buffer_tail t"] by (simp add: wb_inv_def)
  then show ?case
    by (cases m) simp_all
next
  case (Suc n)
  show ?case
  proof (cases "waiting_buffer_tail t = waiting_buffer_head t")
    case False
    obtain handled r t1 where p: "process_tapping env (waiting_buffer t ! waiting_buffer_tail t) t = (handled, r, t1)"
      by (metis prod_cases3)
    have idx: "waiting_buffer_head t1 = waiting_buffer_head t" "waiting_buffer_tail t1 = waiting_buffer_tail t"
        "length (waiting_buffer t1) = length (waiting_buffer t)"
      using process_tapping_indices [OF p] by (simp_all add: queue_indices_def)
    have "ring_size WAITING_BUFFER_SIZE (waiting_buffer_head t) (waiting_buffer_tail t) =
        Suc (ring_size WAITING_BUFFER_SIZE (waiting_buffer_head t) ((waiting_buffer_tail t + 1) mod WAITING_BUFFER_SIZE))"
      using Suc.prems(1) False by (intro ring_size_pop) (auto simp: wb_inv_def)
    then show ?thesis
      using Suc.prems False p idx by (auto simp: wb_inv_def Let_def intro!: Suc.IH)
  qed simp
qed

lemma process_waiting_bound: "wb_inv t \<Longrightarrow> process_waiting env (WAITING_BUFFER_SIZE + m) t = process_waiting env WAITING_BUFFER_SIZE t"
  using ring_size_less [of "waiting_buffer_head t" WAITING_BUFFER_SIZE "waiting_buffer_tail t"]
  by (intro process_waiting_enough) (auto simp: wb_inv_def)

section \<open>Tap and hold\<close>

lemma process_waiting_empty [simp]: "waiting_buffer_tail t = waiting_buffer_head t \<Longrightarrow> process_waiting env n t = t"
  by (cases n) simp_all

definition queue_empty :: "'w tapping \<Rightarrow> bool" where
  "queue_empty t \<longleftrightarrow> wb_inv t \<and> waiting_buffer_tail t = waiting_buffer_head t"

lemma waiting_cells_empty: "queue_empty t \<Longrightarrow> waiting_cells t = []"
  by (auto simp: queue_empty_def waiting_cells_def wb_inv_def ring_size_eq_0)

lemma scan_tap_empty: "queue_empty t \<Longrightarrow> waiting_buffer_scan_tap env (t\<lparr>tapping_key := k\<rparr>) = t\<lparr>tapping_key := k\<rparr>"
  using waiting_cells_empty [of "t\<lparr>tapping_key := k\<rparr>"]
  by (simp add: waiting_buffer_scan_tap_def queue_empty_def wb_inv_def)

lemma tap_press_starts:
  assumes "queue_empty t" and "IS_NOEVENT (event (tapping_key t))" and "IS_EVENT (event r)" and "pressed (event r)" and "is_tap_record env r (world t)"
  shows "action_tapping_process env r t = t\<lparr>tapping_key := r\<rparr>"
  using assms scan_tap_empty [OF assms(1), of env r]
  by (simp add: action_tapping_process_def process_tapping_def queue_empty_def)

lemma tick_in_term:
  assumes "queue_empty t" and "IS_EVENT (event (tapping_key t))" and "pressed (event (tapping_key t))" and "IS_NOEVENT (event r)"
    and "WITHIN_TAPPING_TERM env (event r) t"
  shows "action_tapping_process env r t = t"
  using assms by (simp add: action_tapping_process_def process_tapping_def tapping_pressed_in_term_def queue_empty_def IS_EVENT_def IS_NOEVENT_def)

lemma tick_after_term:
  assumes "queue_empty t" and "IS_EVENT (event (tapping_key t))" and "pressed (event (tapping_key t))" and "IS_NOEVENT (event r)"
    and "tap_count (tap (tapping_key t)) = 0" and "\<not> WITHIN_TAPPING_TERM env (event r) t"
  shows "action_tapping_process env r t = (process_tapping_key env t)\<lparr>tapping_key := no_record\<rparr>"
proof -
  have "waiting_buffer_tail (process_tapping_key env t) = waiting_buffer_head (process_tapping_key env t)"
    using process_tapping_key_indices [of env t] assms(1) by (simp add: queue_indices_def queue_empty_def)
  then show ?thesis
    using assms by (simp add: action_tapping_process_def process_tapping_def tapping_pressed_after_term_def waiting_buffer_enq_def
        IS_EVENT_def IS_NOEVENT_def)
qed

text \<open>A release in the term: the press is processed as a tap, and so is the release.\<close>

lemma tap_release:
  assumes "queue_empty t" and "IS_EVENT (event (tapping_key t))" and "pressed (event (tapping_key t))" and "tap_count (tap (tapping_key t)) = 0"
    and "IS_EVENT (event r)" and "\<not> pressed (event r)" and "IS_TAPPING_RECORD r t" and tterm: "\<And>k w. env_tapping_term env k w = T"
    and in_term: "time (event r) - time (event (tapping_key t)) < T"
    and k1_def: "k1 = (tapping_key t)\<lparr>tap := (tap (tapping_key t))\<lparr>tap_count := 1\<rparr>\<rparr>"
    and keeps: "fst (env_process_record env k1 (world t)) = k1"
      "fst (env_process_record env (r\<lparr>tap := tap k1\<rparr>) (snd (env_process_record env k1 (world t)))) = r\<lparr>tap := tap k1\<rparr>"
  shows "\<exists>t'. action_tapping_process env r t = t' \<and> queue_empty t' \<and> tapping_key t' = r\<lparr>tap := tap k1\<rparr> \<and>
    world t' = snd (env_process_record env (r\<lparr>tap := tap k1\<rparr>) (snd (env_process_record env k1 (world t))))"
proof -
  obtain w1 where w1: "env_process_record env k1 (world t) = (k1, w1)"
    using keeps(1) by (metis prod.collapse)
  obtain w2 where w2: "env_process_record env (r\<lparr>tap := tap k1\<rparr>) w1 = (r\<lparr>tap := tap k1\<rparr>, w2)"
    using keeps(2) w1 by (metis prod.collapse snd_conv)
  let ?t1 = "t\<lparr>tapping_key := k1, world := w1\<rparr>" and ?r1 = "r\<lparr>tap := tap k1\<rparr>"
  let ?t2 = "?t1\<lparr>waiting_buffer := (waiting_buffer t)[waiting_buffer_head t := ?r1],
      waiting_buffer_head := (waiting_buffer_head t + 1) mod WAITING_BUFFER_SIZE\<rparr>"
  let ?t3 = "?t2\<lparr>tapping_key := ?r1, world := w2, waiting_buffer_tail := (waiting_buffer_head t + 1) mod WAITING_BUFFER_SIZE\<rparr>"
  have ev: "\<not> IS_NOEVENT (event r)" "\<not> IS_NOEVENT (event (tapping_key t))"
    using assms(2,5) by (simp_all add: IS_EVENT_def IS_NOEVENT_def)
  have inv: "length (waiting_buffer t) = WAITING_BUFFER_SIZE" "waiting_buffer_head t < WAITING_BUFFER_SIZE" "waiting_buffer_tail t = waiting_buffer_head t"
    using assms(1) by (simp_all add: queue_empty_def wb_inv_def)
  then have nxt: "(waiting_buffer_head t + 1) mod WAITING_BUFFER_SIZE \<noteq> waiting_buffer_head t"
    by (auto simp: WAITING_BUFFER_SIZE_def mod_if)
  have first: "process_tapping env r t = (False, ?r1, ?t1)"
    using ev assms(3,4,6,7) in_term w1
    by (simp add: process_tapping_def WITHIN_TAPPING_TERM_def TIMER_DIFF_16_def tterm tapping_pressed_in_term_def tapping_undecided_def
        process_tapping_key_def process_key_def k1_def Let_def)
  have enq: "waiting_buffer_enq ?r1 ?t1 = (True, ?t2)"
    using ev nxt inv by (simp add: waiting_buffer_enq_def)
  have second: "process_tapping env ?r1 ?t2 = (True, ?r1, ?t2\<lparr>tapping_key := ?r1, world := w2\<rparr>)"
    using ev assms(3,6,7) in_term w2
    by (simp add: process_tapping_def WITHIN_TAPPING_TERM_def TIMER_DIFF_16_def tterm tapping_pressed_in_term_def IS_TAPPING_RECORD_def
        process_key_def k1_def)
  obtain n where n: "WAITING_BUFFER_SIZE = Suc n"
    by (simp add: WAITING_BUFFER_SIZE_def)
  have "process_waiting env WAITING_BUFFER_SIZE ?t2 = ?t3"
    unfolding n process_waiting.simps using nxt inv second by (simp add: Let_def flip: n)
  then have "action_tapping_process env r t = ?t3"
    using first enq by (simp add: action_tapping_process_def)
  moreover have "queue_empty ?t3"
    using inv by (simp add: queue_empty_def wb_inv_def)
  ultimately show ?thesis
    using w1 w2 by simp
qed

text \<open>The ticks before the decision.\<close>

lemma ticks_in_term:
  assumes "queue_empty t" and "IS_EVENT (event (tapping_key t))" and "pressed (event (tapping_key t))"
    and tterm: "\<And>k w. env_tapping_term env k w = T" and "\<forall>now\<in>set ts. now - time (event (tapping_key t)) < T"
  shows "tapping_run env (map tick ts) t = t"
  using assms(5)
proof (induction ts)
  case (Cons now ts)
  have "action_tapping_process env (new_record (tick now)) t = t"
    using Cons.prems assms(1-3) by (intro tick_in_term) (simp_all add: new_record_def tick_def IS_NOEVENT_def WITHIN_TAPPING_TERM_def TIMER_DIFF_16_def tterm)
  with Cons show ?case
    by (simp add: tapping_run_def)
qed (simp add: tapping_run_def)


lemma tapping_init_idle: "queue_empty (tapping_init w)" "IS_NOEVENT (event (tapping_key (tapping_init w)))"
  by (simp_all add: queue_empty_def wb_inv_def tapping_init_def WAITING_BUFFER_SIZE_def no_record_def IS_NOEVENT_def)


text \<open>With tapping terms per key, a press can overtake an earlier one: the loop stops at the event that ends the second tapping key, and a
  press that comes before the next tick is processed first.\<close>

definition per_key_env :: "nat tap_env" where
  "per_key_env = demo_env\<lparr>env_layer_switch_get_action := (\<lambda>k _. if col k < 2 then 0x2104 else 0x05),
     env_tapping_term := (\<lambda>r _. if col (key (event r)) = 0 then 300 else 200)\<rparr>"

lemma press_overtakes_waiting_press:
  "map (\<lambda>a. case a of Processed r \<Rightarrow> col (key (event r)) | Cleared \<Rightarrow> 99)
     (snd (world (tapping_run (logged per_key_env)
        [key_event 0 0 True, key_event 1 10 True, key_event 2 215 True, tick 300, key_event 3 301 True, tick 302] (tapping_init (0, []))))) = [0, 1, 3, 2]"
  by code_simp

end
