(* ===== verification/Wear_Leveling.thy ===== *)
theory Wear_Leveling
  imports Prelude
begin

text \<open>
  \<^verbatim>\<open>quantum/wear_leveling/wear_leveling.c\<close> and \<^verbatim>\<open>wear_leveling_internal.h\<close>: the emulated EEPROM kept as
  consolidated data plus a write log in a flash-like backing store.

  The definitions follow the three compile-time variants of the source
  (\<^verbatim>\<open>BACKING_STORE_WRITE_SIZE\<close> 2, 4 or 8). A \<^verbatim>\<open>backing_store_int_t\<close> and the union
  \<^verbatim>\<open>write_log_entry_t\<close> are modelled by their bytes in memory order, so that the views \<^verbatim>\<open>raw8\<close>, \<^verbatim>\<open>raw16\<close>,
  \<^verbatim>\<open>raw32\<close> of the union are slices of one byte list; \<^verbatim>\<open>raw64\<close> holds the hash, stored little-endian as on
  the supported controllers. The backing-store driver is not part of this file: it is the argument
  \<open>drv\<close>, a record of its six functions over a driver state. Addresses inside the store are natural
  numbers (a store is far smaller than 2^32 bytes); the sum \<^verbatim>\<open>address + length\<close> of the caller's
  arguments wraps at 32 bits. Memory that the C code leaves uninitialised is the argument \<open>stk\<close>.
\<close>

section \<open>Configuration, driver interface and state\<close>

datatype backing_store_write_size = Write2 | Write4 | Write8

primrec size_bytes :: "backing_store_write_size \<Rightarrow> nat" where
  "size_bytes Write2 = 2"
| "size_bytes Write4 = 4"
| "size_bytes Write8 = 8"

record wl_config =
  BACKING_STORE_WRITE_SIZE :: backing_store_write_size
  WEAR_LEVELING_LOGICAL_SIZE :: nat
  WEAR_LEVELING_BACKING_SIZE :: nat

abbreviation wsize :: "wl_config \<Rightarrow> nat" where
  "wsize cfg \<equiv> size_bytes (BACKING_STORE_WRITE_SIZE cfg)"

abbreviation lsize :: "wl_config \<Rightarrow> nat" where
  "lsize \<equiv> WEAR_LEVELING_LOGICAL_SIZE"

abbreviation bsize :: "wl_config \<Rightarrow> nat" where
  "bsize \<equiv> WEAR_LEVELING_BACKING_SIZE"

text \<open>The compile-time checks of \<^verbatim>\<open>wear_leveling_internal.h\<close>.\<close>

definition wl_static_asserts :: "wl_config \<Rightarrow> bool" where
  "wl_static_asserts cfg \<longleftrightarrow>
     lsize cfg * 2 \<le> bsize cfg \<and> lsize cfg mod wsize cfg = 0 \<and> bsize cfg mod lsize cfg = 0"

datatype wear_leveling_status_t =
  WEAR_LEVELING_FAILED | WEAR_LEVELING_SUCCESS | WEAR_LEVELING_CONSOLIDATED

datatype backing_store_lock_status_t = STATUS_FAILURE | STATUS_SUCCESS | STATUS_UNCHANGED

text \<open>The functions a driver provides. A read returns its success flag and the bytes stored through
  the out parameter; the other functions return their success flag and the new driver state.\<close>

record 's backing_store =
  backing_store_init :: "'s \<Rightarrow> bool \<times> 's"
  backing_store_unlock :: "'s \<Rightarrow> bool \<times> 's"
  backing_store_erase :: "'s \<Rightarrow> bool \<times> 's"
  backing_store_write :: "nat \<Rightarrow> u8 list \<Rightarrow> 's \<Rightarrow> bool \<times> 's"
  backing_store_lock :: "'s \<Rightarrow> bool \<times> 's"
  backing_store_read :: "nat \<Rightarrow> 's \<Rightarrow> bool \<times> u8 list"

record 's wear_leveling =
  cache :: "u8 list"
  write_address :: nat
  unlocked :: bool
  store :: 's

section \<open>Log entries\<close>

datatype log_entry_type = LOG_ENTRY_TYPE_MULTIBYTE | LOG_ENTRY_TYPE_OPTIMIZED_64
  | LOG_ENTRY_TYPE_WORD_01 | LOG_ENTRY_TYPES

definition LOG_ENTRY_GET_TYPE :: "u8 list \<Rightarrow> log_entry_type" where
  "LOG_ENTRY_GET_TYPE entry =
     (let t = drop_bit 6 (entry ! 0) AND 3
      in if t = 0 then LOG_ENTRY_TYPE_MULTIBYTE
         else if t = 1 then LOG_ENTRY_TYPE_OPTIMIZED_64
         else if t = 2 then LOG_ENTRY_TYPE_WORD_01
         else LOG_ENTRY_TYPES)"

definition LOG_ENTRY_MULTIBYTE_MAX_BYTES :: nat where
  "LOG_ENTRY_MULTIBYTE_MAX_BYTES = 5"

definition LOG_ENTRY_MULTIBYTE_GET_ADDRESS :: "u8 list \<Rightarrow> nat" where
  "LOG_ENTRY_MULTIBYTE_GET_ADDRESS entry =
     unat (push_bit 16 (ucast (entry ! 0) AND 7) OR push_bit 8 (ucast (entry ! 1)) OR
           ucast (entry ! 2) :: u32)"

definition LOG_ENTRY_MULTIBYTE_GET_LENGTH :: "u8 list \<Rightarrow> nat" where
  "LOG_ENTRY_MULTIBYTE_GET_LENGTH entry = unat (drop_bit 3 (entry ! 0) AND 7)"

definition LOG_ENTRY_MAKE_MULTIBYTE :: "nat \<Rightarrow> nat \<Rightarrow> u8 list" where
  "LOG_ENTRY_MAKE_MULTIBYTE address len =
     [push_bit 6 (0 AND 3) OR push_bit 3 (of_nat len AND 7) OR (of_nat (address div 2 ^ 16) AND 7),
      of_nat (address div 2 ^ 8) AND 0xFF, of_nat address AND 0xFF, 0, 0, 0, 0, 0]"

definition LOG_ENTRY_OPTIMIZED_64_GET_ADDRESS :: "u8 list \<Rightarrow> nat" where
  "LOG_ENTRY_OPTIMIZED_64_GET_ADDRESS entry = unat (entry ! 0 AND 0x3F)"

definition LOG_ENTRY_OPTIMIZED_64_GET_VALUE :: "u8 list \<Rightarrow> u8" where
  "LOG_ENTRY_OPTIMIZED_64_GET_VALUE entry = entry ! 1"

definition LOG_ENTRY_MAKE_OPTIMIZED_64 :: "nat \<Rightarrow> u8 \<Rightarrow> u8 list" where
  "LOG_ENTRY_MAKE_OPTIMIZED_64 address v =
     [push_bit 6 (1 AND 3) OR (of_nat address AND 0x3F), v, 0, 0, 0, 0, 0, 0]"

definition LOG_ENTRY_WORD_01_GET_ADDRESS :: "u8 list \<Rightarrow> nat" where
  "LOG_ENTRY_WORD_01_GET_ADDRESS entry =
     unat (push_bit 9 (ucast (entry ! 0 AND 0x1F)) OR push_bit 1 (ucast (entry ! 1)) :: u32)"

definition LOG_ENTRY_WORD_01_GET_VALUE :: "u8 list \<Rightarrow> u8" where
  "LOG_ENTRY_WORD_01_GET_VALUE entry = drop_bit 5 (entry ! 0) AND 1"

definition LOG_ENTRY_MAKE_WORD_01 :: "nat \<Rightarrow> u16 \<Rightarrow> u8 list" where
  "LOG_ENTRY_MAKE_WORD_01 address v =
     [push_bit 6 (2 AND 3) OR push_bit 5 ((if v \<noteq> 0 then 1 else 0) AND 1) OR
        (of_nat (address div 2 ^ 9) AND 0x1F),
      of_nat (address div 2), 0, 0, 0, 0, 0, 0]"

section \<open>The checksum: 64-bit FNV-1a (\<^verbatim>\<open>lib/fnv/hash_64a.c\<close>)\<close>

definition FNV1A_64_INIT :: u64 where
  "FNV1A_64_INIT = 0xcbf29ce484222325"

definition fnv_64a_octet :: "u8 \<Rightarrow> u64 \<Rightarrow> u64" where
  "fnv_64a_octet b hval =
     (let hval = hval XOR ucast b
      in hval + (push_bit 1 hval + push_bit 4 hval + push_bit 5 hval +
                 push_bit 7 hval + push_bit 8 hval + push_bit 40 hval))"

definition fnv_64a_buf :: "u8 list \<Rightarrow> u64 \<Rightarrow> u64" where
  "fnv_64a_buf buf hval = fold fnv_64a_octet buf hval"

text \<open>The bytes of \<^verbatim>\<open>entry.raw64\<close> in memory.\<close>

definition raw64_bytes :: "u64 \<Rightarrow> u8 list" where
  "raw64_bytes h = map (\<lambda>i. ucast (drop_bit (8 * i) h)) [0..<8]"

section \<open>Locking helpers and bulk transfers\<close>

definition wear_leveling_unlock ::
  "'s backing_store \<Rightarrow> 's wear_leveling \<Rightarrow> backing_store_lock_status_t \<times> 's wear_leveling" where
  "wear_leveling_unlock drv wl =
     (if unlocked wl then (STATUS_UNCHANGED, wl)
      else let (ok, s) = backing_store_unlock drv (store wl); wl = wl\<lparr>store := s\<rparr>
           in if \<not> ok then (STATUS_FAILURE, wl)
              else (STATUS_SUCCESS, wl\<lparr>unlocked := True\<rparr>))"

definition wear_leveling_lock ::
  "'s backing_store \<Rightarrow> 's wear_leveling \<Rightarrow> backing_store_lock_status_t \<times> 's wear_leveling" where
  "wear_leveling_lock drv wl =
     (if \<not> unlocked wl then (STATUS_UNCHANGED, wl)
      else let (ok, s) = backing_store_lock drv (store wl); wl = wl\<lparr>store := s\<rparr>
           in if \<not> ok then (STATUS_FAILURE, wl)
              else (STATUS_SUCCESS, wl\<lparr>unlocked := False\<rparr>))"

text \<open>The weak bulk functions: unit \<open>i\<close> is transferred after units \<open>0, \<dots>, i - 1\<close>, and the first failure
  ends the loop.\<close>

primrec backing_store_read_bulk ::
  "'s backing_store \<Rightarrow> nat \<Rightarrow> nat \<Rightarrow> u8 list \<Rightarrow> nat \<Rightarrow> 's \<Rightarrow> bool \<times> u8 list" where
  "backing_store_read_bulk drv w address buf 0 s = (True, buf)"
| "backing_store_read_bulk drv w address buf (Suc i) s =
     (let (ok, buf) = backing_store_read_bulk drv w address buf i s
      in if \<not> ok then (False, buf)
         else let (ok, v) = backing_store_read drv (address + i * w) s
              in (ok, memcpy_at (i * w) v buf))"

primrec backing_store_write_bulk ::
  "'s backing_store \<Rightarrow> nat \<Rightarrow> nat \<Rightarrow> u8 list \<Rightarrow> nat \<Rightarrow> 's \<Rightarrow> bool \<times> 's" where
  "backing_store_write_bulk drv w address bytes 0 s = (True, s)"
| "backing_store_write_bulk drv w address bytes (Suc i) s =
     (let (ok, s) = backing_store_write_bulk drv w address bytes i s
      in if \<not> ok then (False, s)
         else backing_store_write drv (address + i * w) (subarr (i * w) w bytes) s)"

section \<open>Cache and consolidated data\<close>

definition wear_leveling_clear_cache :: "wl_config \<Rightarrow> 's wear_leveling \<Rightarrow> 's wear_leveling" where
  "wear_leveling_clear_cache cfg wl =
     wl\<lparr>cache := replicate (lsize cfg) 0, write_address := lsize cfg + 8\<rparr>"

text \<open>The return value of the checksum read is not looked at by the source; if that read fails, the
  rest of the union keeps the uninitialised bytes \<open>stk\<close>.\<close>

definition wear_leveling_read_consolidated ::
  "'s backing_store \<Rightarrow> wl_config \<Rightarrow> u8 list \<Rightarrow> 's wear_leveling \<Rightarrow>
   wear_leveling_status_t \<times> 's wear_leveling" where
  "wear_leveling_read_consolidated drv cfg stk wl =
     (let w = wsize cfg;
          (ok, buf) = backing_store_read_bulk drv w 0 (cache wl) (lsize cfg div w) (store wl);
          wl = wl\<lparr>cache := buf\<rparr>
      in if ok then
           let expected = fnv_64a_buf (cache wl) FNV1A_64_INIT;
               (_, entry) = backing_store_read_bulk drv w (lsize cfg) (take 8 stk) (8 div w) (store wl)
           in if entry = raw64_bytes expected then (WEAR_LEVELING_SUCCESS, wl)
              else (WEAR_LEVELING_SUCCESS, wear_leveling_clear_cache cfg wl)
         else (WEAR_LEVELING_FAILED, wear_leveling_clear_cache cfg wl))"

definition wear_leveling_write_consolidated ::
  "'s backing_store \<Rightarrow> wl_config \<Rightarrow> 's wear_leveling \<Rightarrow>
   wear_leveling_status_t \<times> 's wear_leveling" where
  "wear_leveling_write_consolidated drv cfg wl =
     (let w = wsize cfg;
          (lock_status, wl) = wear_leveling_unlock drv wl;
          (ok, s) = backing_store_write_bulk drv w 0 (cache wl) (lsize cfg div w) (store wl);
          wl = wl\<lparr>store := s\<rparr>;
          (status, wl) =
            (if \<not> ok then (WEAR_LEVELING_FAILED, wl)
             else let h = fnv_64a_buf (cache wl) FNV1A_64_INIT;
                      (ok, s) = backing_store_write_bulk drv w (lsize cfg) (raw64_bytes h) (8 div w) (store wl)
                  in (if ok then WEAR_LEVELING_CONSOLIDATED else WEAR_LEVELING_FAILED, wl\<lparr>store := s\<rparr>));
          wl = (if lock_status = STATUS_SUCCESS then snd (wear_leveling_lock drv wl) else wl)
      in (status, wl))"

definition wear_leveling_consolidate_force ::
  "'s backing_store \<Rightarrow> wl_config \<Rightarrow> 's wear_leveling \<Rightarrow>
   wear_leveling_status_t \<times> 's wear_leveling" where
  "wear_leveling_consolidate_force drv cfg wl =
     (let (ok, s) = backing_store_erase drv (store wl); wl = wl\<lparr>store := s\<rparr>
      in if \<not> ok then (WEAR_LEVELING_FAILED, wl)
         else let (status, wl) = wear_leveling_write_consolidated drv cfg wl
              in (status, wl\<lparr>write_address := lsize cfg + 8\<rparr>))"

definition wear_leveling_consolidate_if_needed ::
  "'s backing_store \<Rightarrow> wl_config \<Rightarrow> 's wear_leveling \<Rightarrow>
   wear_leveling_status_t \<times> 's wear_leveling" where
  "wear_leveling_consolidate_if_needed drv cfg wl =
     (if bsize cfg \<le> write_address wl then wear_leveling_consolidate_force drv cfg wl
      else (WEAR_LEVELING_SUCCESS, wl))"

section \<open>Appending to the write log\<close>

definition wear_leveling_append_raw ::
  "'s backing_store \<Rightarrow> wl_config \<Rightarrow> u8 list \<Rightarrow> 's wear_leveling \<Rightarrow>
   wear_leveling_status_t \<times> 's wear_leveling" where
  "wear_leveling_append_raw drv cfg v wl =
     (let (ok, s) = backing_store_write drv (write_address wl) v (store wl); wl = wl\<lparr>store := s\<rparr>
      in if \<not> ok then (WEAR_LEVELING_FAILED, wl)
         else wear_leveling_consolidate_if_needed drv cfg
                (wl\<lparr>write_address := write_address wl + wsize cfg\<rparr>))"

text \<open>Consecutive \<^verbatim>\<open>status = append_raw(..); if (status != SUCCESS) return status;\<close> statements.\<close>

fun wear_leveling_append_units ::
  "'s backing_store \<Rightarrow> wl_config \<Rightarrow> u8 list list \<Rightarrow> 's wear_leveling \<Rightarrow>
   wear_leveling_status_t \<times> 's wear_leveling" where
  "wear_leveling_append_units drv cfg [] wl = (WEAR_LEVELING_SUCCESS, wl)"
| "wear_leveling_append_units drv cfg (u # us) wl =
     (let (status, wl) = wear_leveling_append_raw drv cfg u wl
      in if status \<noteq> WEAR_LEVELING_SUCCESS then (status, wl)
         else wear_leveling_append_units drv cfg us wl)"

text \<open>The units of a multi-byte entry: \<^verbatim>\<open>raw16[0..1]\<close>, then \<^verbatim>\<open>raw16[2]\<close> if the length exceeds 1 and
  \<^verbatim>\<open>raw16[3]\<close> if it exceeds 3; \<^verbatim>\<open>raw32[0]\<close>, then \<^verbatim>\<open>raw32[1]\<close> if the length exceeds 1; \<^verbatim>\<open>raw64\<close>.\<close>

definition multibyte_units :: "backing_store_write_size \<Rightarrow> u8 list \<Rightarrow> nat \<Rightarrow> u8 list list" where
  "multibyte_units w log len =
     (case w of
        Write2 \<Rightarrow> [subarr 0 2 log, subarr 2 2 log] @
                  (if 1 < len then [subarr 4 2 log] else []) @ (if 3 < len then [subarr 6 2 log] else [])
      | Write4 \<Rightarrow> [subarr 0 4 log] @ (if 1 < len then [subarr 4 4 log] else [])
      | Write8 \<Rightarrow> [subarr 0 8 log])"

definition wear_leveling_write_raw_multibyte ::
  "'s backing_store \<Rightarrow> wl_config \<Rightarrow> nat \<Rightarrow> u8 list \<Rightarrow> 's wear_leveling \<Rightarrow>
   wear_leveling_status_t \<times> 's wear_leveling" where
  "wear_leveling_write_raw_multibyte drv cfg address p wl =
     (let log = memcpy_at 3 p (LOG_ENTRY_MAKE_MULTIBYTE address (length p))
      in wear_leveling_append_units drv cfg
           (multibyte_units (BACKING_STORE_WRITE_SIZE cfg) log (length p)) wl)"

text \<open>The loop of \<^verbatim>\<open>wear_leveling_write_raw\<close>; \<open>p\<close> are the bytes that remain.\<close>

definition word_01_applies :: "wl_config \<Rightarrow> nat \<Rightarrow> u8 list \<Rightarrow> bool" where
  "word_01_applies cfg address p \<longleftrightarrow>
     BACKING_STORE_WRITE_SIZE cfg = Write2 \<and> 2 \<le> length p \<and> address mod 2 = 0 \<and> address < 16384 \<and>
     (let v = push_bit 8 (ucast (p ! 1)) OR ucast (p ! 0) :: u16 in v = 0 \<or> v = 1)"

function wear_leveling_write_raw ::
  "'s backing_store \<Rightarrow> wl_config \<Rightarrow> nat \<Rightarrow> u8 list \<Rightarrow> 's wear_leveling \<Rightarrow>
   wear_leveling_status_t \<times> 's wear_leveling" where
  "wear_leveling_write_raw drv cfg address p wl =
     (if p = [] then (WEAR_LEVELING_SUCCESS, wl)
      else if word_01_applies cfg address p then
        (let v = push_bit 8 (ucast (p ! 1)) OR ucast (p ! 0) :: u16;
             (status, wl) = wear_leveling_append_raw drv cfg (take 2 (LOG_ENTRY_MAKE_WORD_01 address v)) wl
         in if status \<noteq> WEAR_LEVELING_SUCCESS then (status, wl)
            else wear_leveling_write_raw drv cfg (address + 2) (drop 2 p) wl)
      else if BACKING_STORE_WRITE_SIZE cfg = Write2 \<and> address < 64 then
        (let (status, wl) = wear_leveling_append_raw drv cfg (take 2 (LOG_ENTRY_MAKE_OPTIMIZED_64 address (hd p))) wl
         in if status \<noteq> WEAR_LEVELING_SUCCESS then (status, wl)
            else wear_leveling_write_raw drv cfg (address + 1) (drop 1 p) wl)
      else
        (let this_length = (if LOG_ENTRY_MULTIBYTE_MAX_BYTES \<le> length p then LOG_ENTRY_MULTIBYTE_MAX_BYTES else length p);
             (status, wl) = wear_leveling_write_raw_multibyte drv cfg address (take this_length p) wl
         in if status \<noteq> WEAR_LEVELING_SUCCESS then (status, wl)
            else wear_leveling_write_raw drv cfg (address + this_length) (drop this_length p) wl))"
  by pat_completeness auto
termination
  by (relation "measure (\<lambda>(drv, cfg, address, p, wl). length p)")
     (auto simp: LOG_ENTRY_MULTIBYTE_MAX_BYTES_def word_01_applies_def split: if_splits)

declare wear_leveling_write_raw.simps [simp del]

section \<open>Playing the log back\<close>

text \<open>One further \<^verbatim>\<open>backing_store_read(address, &log.raw..[i])\<close> with the increment of \<^verbatim>\<open>address\<close> on success.\<close>

definition playback_read_unit ::
  "'s backing_store \<Rightarrow> nat \<Rightarrow> nat \<Rightarrow> 's \<Rightarrow> nat \<Rightarrow> u8 list \<Rightarrow> bool \<times> nat \<times> u8 list" where
  "playback_read_unit drv w i s address log =
     (let (ok, v) = backing_store_read drv address s; log = memcpy_at (i * w) v log
      in if ok then (True, address + w, log) else (False, address, log))"

definition playback_read_rest ::
  "'s backing_store \<Rightarrow> backing_store_write_size \<Rightarrow> nat \<Rightarrow> 's \<Rightarrow> nat \<Rightarrow> u8 list \<Rightarrow> bool \<times> nat \<times> u8 list" where
  "playback_read_rest drv w l s address log =
     (case w of
        Write2 \<Rightarrow>
          (let (ok, address, log) =
                 (if 1 < l then playback_read_unit drv 2 2 s address log else (True, address, log))
           in if \<not> ok then (False, address, log)
              else if 3 < l then playback_read_unit drv 2 3 s address log
              else (True, address, log))
      | Write4 \<Rightarrow> (if 1 < l then playback_read_unit drv 4 1 s address log else (True, address, log))
      | Write8 \<Rightarrow> (True, address, log))"

text \<open>The three entry kinds. A result is the flag \<^verbatim>\<open>cancel_playback\<close>, the status, the read address and
  the state. \<open>log\<close> is the memory from the start of the union on.\<close>

definition playback_multibyte ::
  "'s backing_store \<Rightarrow> wl_config \<Rightarrow> nat \<Rightarrow> u8 list \<Rightarrow> 's wear_leveling \<Rightarrow>
   bool \<times> wear_leveling_status_t \<times> nat \<times> 's wear_leveling" where
  "playback_multibyte drv cfg address log wl =
     (let (ok, address, log) =
            (if BACKING_STORE_WRITE_SIZE cfg = Write2 then playback_read_unit drv 2 1 (store wl) address log
             else (True, address, log))
      in if \<not> ok then (True, WEAR_LEVELING_FAILED, address, wl)
         else let a = LOG_ENTRY_MULTIBYTE_GET_ADDRESS log; l = LOG_ENTRY_MULTIBYTE_GET_LENGTH log
              in if lsize cfg < a + l then (True, WEAR_LEVELING_FAILED, address, wl)
                 else let (ok, address, log) =
                            playback_read_rest drv (BACKING_STORE_WRITE_SIZE cfg) l (store wl) address log
                      in if \<not> ok then (True, WEAR_LEVELING_FAILED, address, wl)
                         else (False, WEAR_LEVELING_SUCCESS, address,
                               wl\<lparr>cache := memcpy_at a (subarr 3 l log) (cache wl)\<rparr>))"

definition playback_optimized_64 ::
  "wl_config \<Rightarrow> nat \<Rightarrow> u8 list \<Rightarrow> 's wear_leveling \<Rightarrow>
   bool \<times> wear_leveling_status_t \<times> nat \<times> 's wear_leveling" where
  "playback_optimized_64 cfg address log wl =
     (let a = LOG_ENTRY_OPTIMIZED_64_GET_ADDRESS log; v = LOG_ENTRY_OPTIMIZED_64_GET_VALUE log
      in if lsize cfg \<le> a then (True, WEAR_LEVELING_FAILED, address, wl)
         else (False, WEAR_LEVELING_SUCCESS, address, wl\<lparr>cache := (cache wl)[a := v]\<rparr>))"

definition playback_word_01 ::
  "wl_config \<Rightarrow> nat \<Rightarrow> u8 list \<Rightarrow> 's wear_leveling \<Rightarrow>
   bool \<times> wear_leveling_status_t \<times> nat \<times> 's wear_leveling" where
  "playback_word_01 cfg address log wl =
     (let a = LOG_ENTRY_WORD_01_GET_ADDRESS log; v = LOG_ENTRY_WORD_01_GET_VALUE log
      in if lsize cfg \<le> a + 1 then (True, WEAR_LEVELING_FAILED, address, wl)
         else (False, WEAR_LEVELING_SUCCESS, address,
               wl\<lparr>cache := (cache wl)[a + 0 := v, a + 1 := 0]\<rparr>))"

text \<open>One iteration of the loop.\<close>

definition playback_entry ::
  "'s backing_store \<Rightarrow> wl_config \<Rightarrow> u8 list \<Rightarrow> nat \<Rightarrow> 's wear_leveling \<Rightarrow>
   bool \<times> wear_leveling_status_t \<times> nat \<times> 's wear_leveling" where
  "playback_entry drv cfg stk address wl =
     (let (ok, v) = backing_store_read drv address (store wl)
      in if \<not> ok then (True, WEAR_LEVELING_FAILED, address, wl)
         else if list_all (\<lambda>b. b = 0) v then (True, WEAR_LEVELING_SUCCESS, address, wl)
         else let address = address + wsize cfg; log = memcpy_at 0 v stk
              in case LOG_ENTRY_GET_TYPE log of
                   LOG_ENTRY_TYPE_MULTIBYTE \<Rightarrow> playback_multibyte drv cfg address log wl
                 | LOG_ENTRY_TYPE_OPTIMIZED_64 \<Rightarrow>
                     (if BACKING_STORE_WRITE_SIZE cfg = Write2 then playback_optimized_64 cfg address log wl
                      else (True, WEAR_LEVELING_FAILED, address, wl))
                 | LOG_ENTRY_TYPE_WORD_01 \<Rightarrow>
                     (if BACKING_STORE_WRITE_SIZE cfg = Write2 then playback_word_01 cfg address log wl
                      else (True, WEAR_LEVELING_FAILED, address, wl))
                 | LOG_ENTRY_TYPES \<Rightarrow> (True, WEAR_LEVELING_FAILED, address, wl))"

lemma size_bytes_pos [simp]: "0 < size_bytes w"
  by (cases w) simp_all

lemmas playback_defs = playback_entry_def playback_multibyte_def playback_optimized_64_def
  playback_word_01_def playback_read_rest_def playback_read_unit_def

text \<open>Every iteration that does not cancel moves the read address forward, so the loop ends.\<close>

lemma playback_read_unit_advances:
  "playback_read_unit drv w i s address log = (ok, address', log') \<Longrightarrow> address \<le> address'"
  by (auto simp: playback_read_unit_def Let_def split: prod.splits if_splits)

lemma playback_read_rest_advances:
  "playback_read_rest drv w l s address log = (ok, address', log') \<Longrightarrow> address \<le> address'"
  by (auto simp: playback_read_rest_def Let_def split: prod.splits if_splits backing_store_write_size.splits
      dest: playback_read_unit_advances intro: order_trans)

lemma playback_multibyte_advances:
  "playback_multibyte drv cfg address log wl = (c, st, address', wl') \<Longrightarrow> address \<le> address'"
  by (auto simp: playback_multibyte_def Let_def split: prod.splits if_splits
      dest!: playback_read_unit_advances playback_read_rest_advances)

lemma playback_entry_advances:
  assumes "playback_entry drv cfg stk address wl = (False, st, address', wl')"
  shows "address < address'"
proof -
  have "address + wsize cfg \<le> address'"
    using assms by (auto simp: playback_entry_def playback_optimized_64_def playback_word_01_def Let_def
        split: prod.splits if_splits log_entry_type.splits dest!: playback_multibyte_advances)
  then show ?thesis
    using size_bytes_pos [of "BACKING_STORE_WRITE_SIZE cfg"] by linarith
qed

function playback_loop ::
  "'s backing_store \<Rightarrow> wl_config \<Rightarrow> u8 list \<Rightarrow> nat \<Rightarrow> 's wear_leveling \<Rightarrow>
   wear_leveling_status_t \<times> nat \<times> 's wear_leveling" where
  "playback_loop drv cfg stk address wl =
     (if address < bsize cfg then
        (case playback_entry drv cfg stk address wl of
           (cancel, status, address, wl) \<Rightarrow>
             if cancel then (status, address, wl) else playback_loop drv cfg stk address wl)
      else (WEAR_LEVELING_SUCCESS, address, wl))"
  by pat_completeness auto
termination
  by (relation "measure (\<lambda>(drv, cfg, stk, address, wl). bsize cfg - address)")
     (auto dest!: playback_entry_advances [OF sym] intro: diff_less_mono2)

declare playback_loop.simps [simp del]

definition wear_leveling_playback_log ::
  "'s backing_store \<Rightarrow> wl_config \<Rightarrow> u8 list \<Rightarrow> 's wear_leveling \<Rightarrow>
   wear_leveling_status_t \<times> 's wear_leveling" where
  "wear_leveling_playback_log drv cfg stk wl =
     (let (status, address, wl) = playback_loop drv cfg stk (lsize cfg + 8) wl;
          wl = wl\<lparr>write_address := address\<rparr>
      in if status = WEAR_LEVELING_FAILED then wear_leveling_consolidate_force drv cfg wl
         else wear_leveling_consolidate_if_needed drv cfg wl)"

section \<open>The public operations\<close>

definition wear_leveling_init ::
  "'s backing_store \<Rightarrow> wl_config \<Rightarrow> u8 list \<Rightarrow> 's wear_leveling \<Rightarrow>
   wear_leveling_status_t \<times> 's wear_leveling" where
  "wear_leveling_init drv cfg stk wl =
     (let wl = wear_leveling_clear_cache cfg wl;
          (ok, s) = backing_store_init drv (store wl);
          wl = wl\<lparr>store := s\<rparr>
      in if \<not> ok then (WEAR_LEVELING_FAILED, wear_leveling_clear_cache cfg wl)
         else let (status, wl) = wear_leveling_read_consolidated drv cfg stk wl
              in if status = WEAR_LEVELING_FAILED then (status, wear_leveling_clear_cache cfg wl)
                 else let (status, wl) = wear_leveling_playback_log drv cfg stk wl
                      in if status = WEAR_LEVELING_FAILED then (status, wear_leveling_clear_cache cfg wl)
                         else (status, wl))"

definition wear_leveling_erase ::
  "'s backing_store \<Rightarrow> wl_config \<Rightarrow> 's wear_leveling \<Rightarrow> wear_leveling_status_t \<times> 's wear_leveling" where
  "wear_leveling_erase drv cfg wl =
     (let (lock_status, wl) = wear_leveling_unlock drv wl
      in if lock_status = STATUS_FAILURE then (WEAR_LEVELING_FAILED, snd (wear_leveling_lock drv wl))
         else let (ret, s) = backing_store_erase drv (store wl);
                  wl = wear_leveling_clear_cache cfg (wl\<lparr>store := s\<rparr>);
                  (ret, wl) =
                    (if lock_status = STATUS_SUCCESS
                     then let (ls, wl) = wear_leveling_lock drv wl in (ret \<and> ls \<noteq> STATUS_FAILURE, wl)
                     else (ret, wl))
              in (if ret then WEAR_LEVELING_SUCCESS else WEAR_LEVELING_FAILED, wl))"

text \<open>The range check adds two 32-bit values, so it wraps. \<open>None\<close> is an access outside the cache:
  the check has passed but the range does not lie in the array.\<close>

definition wear_leveling_write ::
  "'s backing_store \<Rightarrow> wl_config \<Rightarrow> nat \<Rightarrow> u8 list \<Rightarrow> 's wear_leveling \<Rightarrow>
   (wear_leveling_status_t \<times> 's wear_leveling) option" where
  "wear_leveling_write drv cfg address p wl =
     (let len = length p
      in if lsize cfg < (address + len) mod 2 ^ 32 then Some (WEAR_LEVELING_FAILED, wl)
         else if lsize cfg < address + len then None
         else if p = subarr address len (cache wl) then Some (WEAR_LEVELING_SUCCESS, wl)
         else let wl = wl\<lparr>cache := memcpy_at address p (cache wl)\<rparr>;
                  (lock_status, wl) = wear_leveling_unlock drv wl
              in if lock_status = STATUS_FAILURE
                 then Some (WEAR_LEVELING_FAILED, snd (wear_leveling_lock drv wl))
                 else let (status, wl) = wear_leveling_write_raw drv cfg address p wl;
                          (status, wl) =
                            (if status = WEAR_LEVELING_SUCCESS
                             then wear_leveling_consolidate_if_needed drv cfg wl else (status, wl));
                          (status, wl) =
                            (if lock_status = STATUS_SUCCESS
                             then let (ls, wl) = wear_leveling_lock drv wl
                                  in (if ls = STATUS_FAILURE then WEAR_LEVELING_FAILED else status, wl)
                             else (status, wl))
                      in Some (status, wl))"

text \<open>The bytes read are the result; \<open>None\<close> again is an access outside the cache. The buffer of the
  caller is untouched when the check fails.\<close>

definition wear_leveling_read ::
  "wl_config \<Rightarrow> nat \<Rightarrow> u8 list \<Rightarrow> 's wear_leveling \<Rightarrow> (wear_leveling_status_t \<times> u8 list) option" where
  "wear_leveling_read cfg address buf wl =
     (let len = length buf
      in if lsize cfg < (address + len) mod 2 ^ 32 then Some (WEAR_LEVELING_FAILED, buf)
         else if lsize cfg < address + len then None
         else Some (WEAR_LEVELING_SUCCESS, subarr address len (cache wl)))"

end
