(* ===== verification/Wear_Leveling_Log.thy ===== *)
theory Wear_Leveling_Log
  imports Wear_Leveling
begin

text \<open>
  The write log of the wear-leveling store as a list of entries: what each entry encodes, the bytes
  it occupies, its effect on the cache, and that the decoding macros of
  \<^verbatim>\<open>wear_leveling_internal.h\<close> invert the encoding ones.
\<close>

section \<open>Decoding inverts encoding\<close>

lemma u8_masks:
  "(3 :: u8) = mask 2" "(7 :: u8) = mask 3" "(0x1F :: u8) = mask 5"
  "(0x3F :: u8) = mask 6" "(0xFF :: u8) = mask 8"
  by (simp_all add: mask_eq_exp_minus_1)

lemma u8_and_255: "x AND 0xFF = (x :: u8)"
  by (rule bit_word_eqI) (simp add: u8_masks bit_simps)

lemma u32_mask_3: "(7 :: u32) = mask 3"
  by (simp add: mask_eq_exp_minus_1)

lemma bit_nat_less_exp: "bit (k :: nat) n \<Longrightarrow> k < 2 ^ m \<Longrightarrow> n < m"
  by (metis bit_take_bit_iff take_bit_nat_eq_self)

lemma bit_nat_div:
  "bit (k div 256) n \<longleftrightarrow> bit k (n + 8)" "bit (k div 512) n \<longleftrightarrow> bit k (n + 9)"
  "bit (k div 65536) n \<longleftrightarrow> bit k (n + 16)" "bit (k div 2) n \<longleftrightarrow> bit k (n + 1)" for k :: nat
  using bit_drop_bit_eq [of 8 k] bit_drop_bit_eq [of 9 k] bit_drop_bit_eq [of 16 k]
  by (simp_all add: drop_bit_eq_div fun_eq_iff add.commute bit_Suc)

lemma bit_u8_exp: "bit (64 :: int) n \<longleftrightarrow> n = 6" "bit (128 :: int) n \<longleftrightarrow> n = 7"
  using bit_exp_iff [where 'a = int, of 6 n] bit_exp_iff [where 'a = int, of 7 n] by auto

lemma unat_eq_of_nat: "w = of_nat k \<Longrightarrow> k < 2 ^ LENGTH('a) \<Longrightarrow> unat (w :: 'a::len word) = k"
  by (simp add: unat_of_nat take_bit_nat_eq_self)

definition multibyte_head :: "nat \<Rightarrow> nat \<Rightarrow> u8" where
  "multibyte_head address len = push_bit 3 (of_nat len AND 7) OR (of_nat (address div 2 ^ 16) AND 7)"

lemma bit_multibyte_head:
  "bit (multibyte_head address len) n \<longleftrightarrow>
     (if n < 3 then bit address (n + 16) else n < 6 \<and> bit len (n - 3))"
  by (auto simp: multibyte_head_def u8_masks bit_simps bit_nat_div)

lemma multibyte_type: "log ! 0 = multibyte_head address len \<Longrightarrow> LOG_ENTRY_GET_TYPE log = LOG_ENTRY_TYPE_MULTIBYTE"
proof -
  assume "log ! 0 = multibyte_head address len"
  moreover have "drop_bit 6 (multibyte_head address len) AND 3 = 0"
    by (rule bit_word_eqI) (simp add: bit_simps bit_multibyte_head)
  ultimately show ?thesis
    by (simp add: LOG_ENTRY_GET_TYPE_def)
qed

lemma multibyte_length:
  assumes "log ! 0 = multibyte_head address len" and "len < 8"
  shows "LOG_ENTRY_MULTIBYTE_GET_LENGTH log = len"
proof -
  have "drop_bit 3 (multibyte_head address len) AND 7 = of_nat len"
    using assms(2) bit_nat_less_exp [of len _ 3]
    by (intro bit_word_eqI) (auto simp: bit_simps bit_multibyte_head u8_masks)
  with assms show ?thesis
    by (simp add: LOG_ENTRY_MULTIBYTE_GET_LENGTH_def unat_eq_of_nat)
qed

lemma multibyte_address:
  assumes "log ! 0 = multibyte_head address len" and "log ! 1 = of_nat (address div 2 ^ 8)"
    and "log ! 2 = of_nat address" and "address < 2 ^ 19"
  shows "LOG_ENTRY_MULTIBYTE_GET_ADDRESS log = address"
proof -
  have "push_bit 16 (ucast (log ! 0) AND 7) OR push_bit 8 (ucast (log ! 1)) OR ucast (log ! 2)
      = (of_nat address :: u32)" (is "?l = ?r")
  proof (rule bit_word_eqI)
    fix n assume "n < LENGTH(32)"
    then consider "n < 8" | "8 \<le> n" "n < 16" | "16 \<le> n" "n < 19" | "19 \<le> n"
      by linarith
    then show "bit ?l n \<longleftrightarrow> bit ?r n"
      using assms bit_nat_less_exp [of address n 19]
      by cases (auto simp: bit_simps bit_multibyte_head u32_mask_3 bit_nat_div)
  qed
  with assms(4) show ?thesis
    by (simp add: LOG_ENTRY_MULTIBYTE_GET_ADDRESS_def unat_eq_of_nat)
qed

lemma multibyte_head_nonzero:
  assumes "0 < len" and "len < 8"
  shows "multibyte_head address len \<noteq> 0"
proof
  assume "multibyte_head address len = 0"
  then have "drop_bit 3 (multibyte_head address len) AND 7 = 0"
    by simp
  moreover have "LOG_ENTRY_MULTIBYTE_GET_LENGTH [multibyte_head address len] = len"
    using assms(2) by (intro multibyte_length) simp_all
  ultimately show False
    using assms(1) by (simp add: LOG_ENTRY_MULTIBYTE_GET_LENGTH_def)
qed

lemma optimized_64_codec:
  assumes "address < 64" and "log ! 0 = push_bit 6 (1 AND 3) OR (of_nat address AND 0x3F)"
  shows "LOG_ENTRY_GET_TYPE log = LOG_ENTRY_TYPE_OPTIMIZED_64"
    and "LOG_ENTRY_OPTIMIZED_64_GET_ADDRESS log = address" and "log ! 0 \<noteq> 0"
proof -
  have head: "bit (log ! 0) n \<longleftrightarrow> n = 6 \<or> (n < 6 \<and> bit address n)" for n
    by (auto simp: assms(2) u8_masks bit_simps bit_u8_exp)
  have "drop_bit 6 (log ! 0) AND 3 = 1"
    by (rule bit_word_eqI) (auto simp: bit_simps head u8_masks)
  then show "LOG_ENTRY_GET_TYPE log = LOG_ENTRY_TYPE_OPTIMIZED_64"
    by (simp add: LOG_ENTRY_GET_TYPE_def)
  have "log ! 0 AND 0x3F = of_nat address"
    using assms(1) bit_nat_less_exp [of address _ 6]
    by (intro bit_word_eqI) (auto simp: bit_simps head u8_masks)
  with assms(1) show "LOG_ENTRY_OPTIMIZED_64_GET_ADDRESS log = address"
    by (simp add: LOG_ENTRY_OPTIMIZED_64_GET_ADDRESS_def unat_eq_of_nat)
  show "log ! 0 \<noteq> 0"
    using head [of 6] by auto
qed

lemma word_01_codec:
  assumes "address < 16384" and "address mod 2 = 0" and "v = 0 \<or> v = (1 :: u16)"
    and "take 2 log = take 2 (LOG_ENTRY_MAKE_WORD_01 address v)" and "2 \<le> length log"
  shows "LOG_ENTRY_GET_TYPE log = LOG_ENTRY_TYPE_WORD_01"
    and "LOG_ENTRY_WORD_01_GET_ADDRESS log = address"
    and "LOG_ENTRY_WORD_01_GET_VALUE log = ucast v" and "log ! 0 \<noteq> 0"
proof -
  have hd: "log ! 0 = push_bit 6 (2 AND 3) OR push_bit 5 ((if v \<noteq> 0 then 1 else 0) AND 1) OR
        (of_nat (address div 2 ^ 9) AND 0x1F)" and lo: "log ! 1 = of_nat (address div 2)"
    using arg_cong [OF assms(4), of "\<lambda>l. l ! 0"] arg_cong [OF assms(4), of "\<lambda>l. l ! 1"]
    by (simp_all add: LOG_ENTRY_MAKE_WORD_01_def)
  have head: "bit (log ! 0) n \<longleftrightarrow> n = 7 \<or> (n = 5 \<and> v = 1) \<or> (n < 5 \<and> bit address (n + 9))" for n
    using assms(3) by (auto simp: hd u8_masks bit_simps bit_u8_exp bit_nat_div)
  have "drop_bit 6 (log ! 0) AND 3 = 2"
    by (rule bit_word_eqI) (auto simp: bit_simps head u8_masks)
  then show "LOG_ENTRY_GET_TYPE log = LOG_ENTRY_TYPE_WORD_01"
    by (simp add: LOG_ENTRY_GET_TYPE_def)
  show "log ! 0 \<noteq> 0"
    using head [of 7] by auto
  show "LOG_ENTRY_WORD_01_GET_VALUE log = ucast v"
    unfolding LOG_ENTRY_WORD_01_GET_VALUE_def
    using assms(3) by (intro bit_word_eqI) (auto simp: bit_simps head)
  have b0: "\<not> bit address 0"
    using assms(2) by (simp add: bit_0 even_iff_mod_2_eq_zero)
  have "push_bit 9 (ucast (log ! 0 AND 0x1F)) OR push_bit 1 (ucast (log ! 1)) = (of_nat address :: u32)"
    (is "?l = ?r")
  proof (rule bit_word_eqI)
    fix n assume "n < LENGTH(32)"
    then consider "n = 0" | "0 < n" "n < 9" | "9 \<le> n" "n < 14" | "14 \<le> n"
      by linarith
    then show "bit ?l n \<longleftrightarrow> bit ?r n"
      using assms(1) bit_nat_less_exp [of address n 14]
      by cases (auto simp: bit_simps head lo u8_masks b0 bit_nat_div simp del: push_bit_Suc One_nat_def)
  qed
  with assms(1) show "LOG_ENTRY_WORD_01_GET_ADDRESS log = address"
    by (simp add: LOG_ENTRY_WORD_01_GET_ADDRESS_def unat_eq_of_nat)
qed

section \<open>Byte ranges of the store\<close>

text \<open>\<open>holds m a bs\<close>: the bytes \<open>bs\<close> lie in \<open>m\<close> from index \<open>a\<close> on.\<close>

definition holds :: "u8 list \<Rightarrow> nat \<Rightarrow> u8 list \<Rightarrow> bool" where
  "holds m a bs \<longleftrightarrow> a + length bs \<le> length m \<and> subarr a (length bs) m = bs"

lemma holds_Nil [simp]: "holds m a [] \<longleftrightarrow> a \<le> length m"
  by (simp add: holds_def subarr_def)

lemma holds_nth: "holds m a bs \<longleftrightarrow> a + length bs \<le> length m \<and> (\<forall>i<length bs. m ! (a + i) = bs ! i)"
  by (auto simp: holds_def nth_subarr list_eq_iff_nth_eq)

lemma holds_append: "holds m a (xs @ ys) \<longleftrightarrow> holds m a xs \<and> holds m (a + length xs) ys"
proof -
  have "(\<forall>i<length xs + length ys. m ! (a + i) = (xs @ ys) ! i) \<longleftrightarrow>
      (\<forall>i<length xs. m ! (a + i) = xs ! i) \<and> (\<forall>i<length ys. m ! (a + length xs + i) = ys ! i)"
    (is "?l \<longleftrightarrow> ?r")
  proof
    assume l: ?l
    show ?r
    proof (intro conjI allI impI)
      fix i assume "i < length xs"
      then show "m ! (a + i) = xs ! i" using l by (auto simp: nth_append dest: spec [of _ i])
    next
      fix i assume "i < length ys"
      then show "m ! (a + length xs + i) = ys ! i"
        using l by (auto simp: nth_append add.assoc dest: spec [of _ "length xs + i"])
    qed
  next
    assume r: ?r
    show ?l
    proof (intro allI impI)
      fix i assume i: "i < length xs + length ys"
      show "m ! (a + i) = (xs @ ys) ! i"
      proof (cases "i < length xs")
        case False
        with i have "i - length xs < length ys"
          by simp
        with r have "m ! (a + length xs + (i - length xs)) = ys ! (i - length xs)"
          by blast
        with False show ?thesis by (simp add: nth_append)
      qed (use r in \<open>simp add: nth_append\<close>)
    qed
  qed
  then show ?thesis
    by (auto simp: holds_nth add.assoc)
qed

lemma holds_memcpy_same: "a + length bs \<le> length m \<Longrightarrow> holds (memcpy_at a bs m) a bs"
  by (simp add: holds_def subarr_memcpy_same)

lemma holds_memcpy_above:
  "holds m a bs \<Longrightarrow> a + length bs \<le> b \<Longrightarrow> b + length ys \<le> length m \<Longrightarrow> holds (memcpy_at b ys m) a bs"
  by (simp add: holds_nth nth_memcpy_at)

lemma holds_subarr: "holds m a bs \<Longrightarrow> length bs = n \<Longrightarrow> subarr a n m = bs"
  by (auto simp: holds_def)

text \<open>\<open>zero_from m a\<close>: the store is erased from index \<open>a\<close> on.\<close>

definition zero_from :: "u8 list \<Rightarrow> nat \<Rightarrow> bool" where
  "zero_from m a \<longleftrightarrow> (\<forall>i. a \<le> i \<and> i < length m \<longrightarrow> m ! i = 0)"

lemma zero_from_mono: "zero_from m a \<Longrightarrow> a \<le> b \<Longrightarrow> zero_from m b"
  by (auto simp: zero_from_def)

lemma zero_from_memcpy:
  "zero_from m a \<Longrightarrow> a + length ys \<le> length m \<Longrightarrow> zero_from (memcpy_at a ys m) (a + length ys)"
  by (auto simp: zero_from_def nth_memcpy_at)

lemma zero_from_holds: "zero_from m a \<Longrightarrow> a \<le> b \<Longrightarrow> b + n \<le> length m \<Longrightarrow> holds m b (replicate n 0)"
  by (simp add: zero_from_def holds_nth)

section \<open>Entries\<close>

datatype log_entry = Multibyte nat "u8 list" | Optimized_64 nat u8 | Word_01 nat u16

text \<open>The union after the bytes \<open>p\<close> were copied into a multi-byte entry.\<close>

definition multibyte_log :: "nat \<Rightarrow> u8 list \<Rightarrow> u8 list" where
  "multibyte_log a p = memcpy_at 3 p (LOG_ENTRY_MAKE_MULTIBYTE a (length p))"

fun entry_bytes :: "backing_store_write_size \<Rightarrow> log_entry \<Rightarrow> u8 list" where
  "entry_bytes w (Multibyte a p) =
     concat (multibyte_units w (multibyte_log a p) (length p))"
| "entry_bytes w (Optimized_64 a v) = take 2 (LOG_ENTRY_MAKE_OPTIMIZED_64 a v)"
| "entry_bytes w (Word_01 a v) = take 2 (LOG_ENTRY_MAKE_WORD_01 a v)"

fun entry_ok :: "wl_config \<Rightarrow> log_entry \<Rightarrow> bool" where
  "entry_ok cfg (Multibyte a p) \<longleftrightarrow> 0 < length p \<and> length p \<le> 5 \<and> a + length p \<le> lsize cfg \<and> a < 2 ^ 19"
| "entry_ok cfg (Optimized_64 a v) \<longleftrightarrow> BACKING_STORE_WRITE_SIZE cfg = Write2 \<and> a < 64 \<and> a < lsize cfg"
| "entry_ok cfg (Word_01 a v) \<longleftrightarrow> BACKING_STORE_WRITE_SIZE cfg = Write2 \<and> a mod 2 = 0 \<and> a < 16384 \<and>
     (v = 0 \<or> v = 1) \<and> a + 1 < lsize cfg"

fun entry_apply :: "log_entry \<Rightarrow> u8 list \<Rightarrow> u8 list" where
  "entry_apply (Multibyte a p) c = memcpy_at a p c"
| "entry_apply (Optimized_64 a v) c = c[a := v]"
| "entry_apply (Word_01 a v) c = c[a := ucast v, a + 1 := 0]"

lemma length_MAKE [simp]:
  "length (LOG_ENTRY_MAKE_MULTIBYTE a n) = 8" "length (LOG_ENTRY_MAKE_OPTIMIZED_64 a v) = 8"
  "length (LOG_ENTRY_MAKE_WORD_01 a u) = 8"
  by (simp_all add: LOG_ENTRY_MAKE_MULTIBYTE_def LOG_ENTRY_MAKE_OPTIMIZED_64_def LOG_ENTRY_MAKE_WORD_01_def)

lemma length_entry_apply [simp]: "entry_ok cfg e \<Longrightarrow> length c = lsize cfg \<Longrightarrow> length (entry_apply e c) = lsize cfg"
  by (cases e) simp_all

text \<open>The bytes of a multi-byte entry are a prefix of the eight bytes of the union.\<close>

definition multibyte_size :: "backing_store_write_size \<Rightarrow> nat \<Rightarrow> nat" where
  "multibyte_size w len =
     (case w of Write2 \<Rightarrow> if 3 < len then 8 else if 1 < len then 6 else 4
              | Write4 \<Rightarrow> if 1 < len then 8 else 4 | Write8 \<Rightarrow> 8)"

lemma concat_multibyte_units:
  "length log = 8 \<Longrightarrow> concat (multibyte_units w log len) = take (multibyte_size w len) log"
  by (cases w)
     (auto simp: multibyte_units_def multibyte_size_def subarr_def length_Suc_conv eval_nat_numeral)

lemma units_length: "length log = 8 \<Longrightarrow> u \<in> set (multibyte_units w log len) \<Longrightarrow> length u = size_bytes w"
  by (cases w) (auto simp: multibyte_units_def split: if_splits)


lemma multibyte_log_nth:
  assumes "length p \<le> 5"
  shows "length (multibyte_log a p) = 8" "multibyte_log a p ! 0 = multibyte_head a (length p)"
    "multibyte_log a p ! 1 = of_nat (a div 2 ^ 8)" "multibyte_log a p ! 2 = of_nat a"
    "i < length p \<Longrightarrow> multibyte_log a p ! (3 + i) = p ! i"
  using assms
  by (simp_all add: multibyte_log_def nth_memcpy_at LOG_ENTRY_MAKE_MULTIBYTE_def multibyte_head_def u8_and_255)

text \<open>The memory of the union once a prefix of \<open>k\<close> bytes of the entry was read into it.\<close>

lemma nth_prefix: "i < k \<Longrightarrow> k \<le> length full \<Longrightarrow> length full \<le> length stk \<Longrightarrow>
    memcpy_at 0 (take k full) stk ! i = full ! i"
  by (simp add: nth_memcpy_at)

lemma multibyte_prefix:
  assumes "length p \<le> 5" and "a < 2 ^ 19" and "8 \<le> length stk" and "k \<le> 8" and "3 \<le> k"
  defines "log \<equiv> memcpy_at 0 (take k (multibyte_log a p)) stk"
  shows "LOG_ENTRY_MULTIBYTE_GET_ADDRESS log = a" "LOG_ENTRY_MULTIBYTE_GET_LENGTH log = length p"
    "3 + length p \<le> k \<Longrightarrow> subarr 3 (length p) log = p"
proof -
  note nth = multibyte_log_nth [OF assms(1), where a = a]
  have ln: "log ! i = multibyte_log a p ! i" if "i < k" for i
    using that assms(3,4) nth(1) by (simp add: log_def nth_prefix)
  show "LOG_ENTRY_MULTIBYTE_GET_ADDRESS log = a"
    using assms(2,5) nth ln by (intro multibyte_address [of log a "length p"]) simp_all
  show "LOG_ENTRY_MULTIBYTE_GET_LENGTH log = length p"
    using assms(1,5) nth ln by (intro multibyte_length [of log a]) simp_all
  assume k: "3 + length p \<le> k"
  have len: "length log = length stk"
    using assms(3,4) nth(1) by (simp add: log_def)
  show "subarr 3 (length p) log = p"
  proof (rule nth_equalityI)
    show "length (subarr 3 (length p) log) = length p"
      using k assms(3,4) len by (intro length_subarr) simp
    fix i assume "i < length (subarr 3 (length p) log)"
    then have "i < length p"
      by (simp add: subarr_def)
    then show "subarr 3 (length p) log ! i = p ! i"
      using k assms(3,4) len ln [of "3 + i"] nth(5) by (simp add: nth_subarr)
  qed
qed

lemma multibyte_prefix_type:
  assumes "0 < length p" and "length p \<le> 5" and "8 \<le> length stk" and "k \<le> 8" and "1 \<le> k"
  shows "LOG_ENTRY_GET_TYPE (memcpy_at 0 (take k (multibyte_log a p)) stk) = LOG_ENTRY_TYPE_MULTIBYTE"
    "\<not> list_all (\<lambda>b. b = 0) (take k (multibyte_log a p))"
proof -
  note nth = multibyte_log_nth [OF assms(2), where a = a]
  show "LOG_ENTRY_GET_TYPE (memcpy_at 0 (take k (multibyte_log a p)) stk) = LOG_ENTRY_TYPE_MULTIBYTE"
    using assms nth by (intro multibyte_type [of _ a "length p"]) (simp add: nth_prefix)
  have "take k (multibyte_log a p) ! 0 \<noteq> 0"
    using assms nth multibyte_head_nonzero by simp
  then show "\<not> list_all (\<lambda>b. b = 0) (take k (multibyte_log a p))"
    using assms nth by (auto simp: list_all_length intro!: exI [of _ 0])
qed

text \<open>The effect of an entry as a copy into the cache.\<close>

lemma word_01_split:
  fixes x y :: u8
  defines "v \<equiv> push_bit 8 (ucast y) OR ucast x :: u16"
  assumes "v = 0 \<or> v = 1"
  shows "x = ucast v" "y = 0"
proof -
  have x: "bit x n \<longleftrightarrow> bit v n" and y: "bit y n \<longleftrightarrow> bit v (n + 8)" if "n < 8" for n
    using that by (auto simp: v_def bit_simps dest: bit_imp_le_length)
  show "x = ucast v"
    by (rule bit_word_eqI) (simp add: x bit_simps)
  show "y = 0"
    using assms(2) by (intro bit_word_eqI) (auto simp: y bit_1_iff)
qed

lemma memcpy_at_1: "a < length c \<Longrightarrow> memcpy_at a [x] c = c[a := x]"
  by (simp add: memcpy_at_def upd_conv_take_nth_drop)

lemma memcpy_at_2: "a + 1 < length c \<Longrightarrow> memcpy_at a [x, y] c = c[a := x, a + 1 := y]"
  by (rule nth_equalityI) (auto simp: nth_memcpy_at nth_list_update nth_Cons')

lemma word_01_apply:
  assumes "word_01_applies cfg a p" and "a + length p \<le> length c"
  shows "entry_apply (Word_01 a (push_bit 8 (ucast (p ! 1)) OR ucast (p ! 0))) c = memcpy_at a (take 2 p) c"
proof -
  have v: "push_bit 8 (ucast (p ! 1)) OR ucast (p ! 0) = (0 :: u16) \<or>
      push_bit 8 (ucast (p ! 1)) OR ucast (p ! 0) = (1 :: u16)" and p: "2 \<le> length p"
    using assms(1) by (simp_all add: word_01_applies_def Let_def)
  have "take 2 p = [p ! 0, p ! 1]"
    using p by (cases p; cases "tl p") auto
  then show ?thesis
    using word_01_split [OF v] assms(2) p by (simp add: memcpy_at_2)
qed

section \<open>The state of the log\<close>

text \<open>The cache the consolidated area stands for: its bytes when the checksum fits, zeros otherwise.\<close>

definition log_base :: "wl_config \<Rightarrow> u8 list \<Rightarrow> u8 list" where
  "log_base cfg m =
     (if subarr (lsize cfg) 8 m = raw64_bytes (fnv_64a_buf (take (lsize cfg) m) FNV1A_64_INIT)
      then take (lsize cfg) m else replicate (lsize cfg) 0)"

abbreviation log_bytes :: "wl_config \<Rightarrow> log_entry list \<Rightarrow> u8 list" where
  "log_bytes cfg es \<equiv> concat (map (entry_bytes (BACKING_STORE_WRITE_SIZE cfg)) es)"

text \<open>\<open>log_state cfg m wa d\<close>: the store \<open>m\<close> holds a well-formed log that ends at \<open>wa\<close>, is erased from
  there on, and stands for the cache \<open>d\<close>.\<close>

definition log_state :: "wl_config \<Rightarrow> u8 list \<Rightarrow> nat \<Rightarrow> u8 list \<Rightarrow> bool" where
  "log_state cfg m wa d \<longleftrightarrow>
     (\<exists>es. (\<forall>e\<in>set es. entry_ok cfg e) \<and> holds m (lsize cfg + 8) (log_bytes cfg es) \<and>
        wa = lsize cfg + 8 + length (log_bytes cfg es) \<and> fold entry_apply es (log_base cfg m) = d) \<and>
     zero_from m wa"

lemma length_log_base: "lsize cfg \<le> length m \<Longrightarrow> length (log_base cfg m) = lsize cfg"
  by (simp add: log_base_def)

lemma length_fold_entry_apply:
  "(\<forall>e\<in>set es. entry_ok cfg e) \<Longrightarrow> length c = lsize cfg \<Longrightarrow> length (fold entry_apply es c) = lsize cfg"
  by (induction es arbitrary: c) simp_all

lemma entry_bytes_aligned:
  assumes "entry_ok cfg e"
  shows "wsize cfg dvd length (entry_bytes (BACKING_STORE_WRITE_SIZE cfg) e)"
proof (cases e)
  case (Multibyte a p)
  moreover have "length (multibyte_log a p) = 8"
    using assms Multibyte by (simp add: multibyte_log_nth)
  ultimately show ?thesis
    by (cases "BACKING_STORE_WRITE_SIZE cfg") (simp_all add: concat_multibyte_units multibyte_size_def)
qed (use assms in simp_all)

lemma log_bytes_aligned:
  "(\<forall>e\<in>set es. entry_ok cfg e) \<Longrightarrow> wsize cfg dvd length (log_bytes cfg es)"
  by (induction es) (simp_all add: entry_bytes_aligned)

lemma log_state_bounds:
  assumes "log_state cfg m wa d"
  shows "lsize cfg + 8 \<le> wa" "wa \<le> length m" "length d = lsize cfg"
  using assms by (auto simp: log_state_def holds_def length_fold_entry_apply length_log_base)

lemma log_base_memcpy:
  assumes "lsize cfg + 8 \<le> a" and "a + length ys \<le> length m"
  shows "log_base cfg (memcpy_at a ys m) = log_base cfg m"
proof -
  have "subarr (lsize cfg) 8 (memcpy_at a ys m) = subarr (lsize cfg) 8 m"
    and "subarr 0 (lsize cfg) (memcpy_at a ys m) = subarr 0 (lsize cfg) m"
    using assms by (intro subarr_memcpy_disjoint; simp)+
  then show ?thesis
    by (simp add: log_base_def)
qed

text \<open>Appending the bytes of an entry at the end of the log applies the entry to the cache.\<close>

lemma log_state_append:
  assumes "log_state cfg m wa d" and "entry_ok cfg e"
    and "bs = entry_bytes (BACKING_STORE_WRITE_SIZE cfg) e" and "wa + length bs \<le> length m"
  shows "log_state cfg (memcpy_at wa bs m) (wa + length bs) (entry_apply e d)"
proof -
  obtain es where es: "\<forall>e\<in>set es. entry_ok cfg e" "holds m (lsize cfg + 8) (log_bytes cfg es)"
      "wa = lsize cfg + 8 + length (log_bytes cfg es)" "fold entry_apply es (log_base cfg m) = d"
    and z: "zero_from m wa"
    using assms(1) by (auto simp: log_state_def)
  have "holds (memcpy_at wa bs m) (lsize cfg + 8) (log_bytes cfg (es @ [e]))"
    using es(2,3) assms(3,4) by (simp add: holds_append holds_memcpy_above holds_memcpy_same)
  moreover have "fold entry_apply (es @ [e]) (log_base cfg (memcpy_at wa bs m)) = entry_apply e d"
    using es(3,4) assms(4) by (simp add: log_base_memcpy)
  ultimately show ?thesis
    using es assms z unfolding log_state_def
    by (intro conjI exI [of _ "es @ [e]"]) (auto simp: zero_from_memcpy)
qed

text \<open>A freshly consolidated store.\<close>

definition consolidated :: "wl_config \<Rightarrow> u8 list \<Rightarrow> u8 list" where
  "consolidated cfg c =
     memcpy_at (lsize cfg) (raw64_bytes (fnv_64a_buf c FNV1A_64_INIT))
       (memcpy_at 0 c (replicate (bsize cfg) 0))"

lemma length_raw64_bytes [simp]: "length (raw64_bytes h) = 8"
  by (simp add: raw64_bytes_def)

lemma log_state_consolidated:
  assumes "length c = lsize cfg" and "lsize cfg + 8 \<le> bsize cfg"
  shows "log_state cfg (consolidated cfg c) (lsize cfg + 8) c"
proof -
  let ?m = "consolidated cfg c" and ?h = "raw64_bytes (fnv_64a_buf c FNV1A_64_INIT)"
  have len: "length ?m = bsize cfg"
    using assms by (simp add: consolidated_def)
  have nth: "?m ! i = (if i < lsize cfg then c ! i else if i < lsize cfg + 8 then ?h ! (i - lsize cfg) else 0)"
    if "i < bsize cfg" for i
    using assms that by (simp add: consolidated_def nth_memcpy_at)
  have "take (lsize cfg) ?m = c"
    using assms len nth by (intro nth_equalityI) simp_all
  moreover have "subarr (lsize cfg) 8 ?m = ?h"
    using assms len nth by (intro nth_equalityI) (simp_all add: nth_subarr)
  ultimately have "log_base cfg ?m = c"
    by (simp add: log_base_def)
  moreover have "zero_from ?m (lsize cfg + 8)"
    using len nth by (simp add: zero_from_def)
  ultimately show ?thesis
    using assms len by (auto simp: log_state_def intro!: exI [of _ "[]"])
qed

text \<open>An erased store stands for a cache of zeros.\<close>

lemma log_state_erased:
  assumes "lsize cfg + 8 \<le> bsize cfg"
  shows "log_state cfg (replicate (bsize cfg) 0) (lsize cfg + 8) (replicate (lsize cfg) 0)"
  using assms by (auto simp: log_state_def log_base_def zero_from_def intro!: exI [of _ "[]"])

end
