(* ===== verification/Wear_Leveling_Store.thy ===== *)
theory Wear_Leveling_Store
  imports Wear_Leveling_Log
begin

text \<open>
  What the wear-leveling code relies on of a backing-store driver, as a locale, and the behaviour of
  each internal routine on such a driver.
\<close>

section \<open>The interface of a backing store\<close>

text \<open>Beyond the compile-time checks, the log area must not be empty and the logical size must fit the
  19-bit address of a log entry, as the format description in the source states.\<close>

definition wl_config_ok :: "wl_config \<Rightarrow> bool" where
  "wl_config_ok cfg \<longleftrightarrow> wl_static_asserts cfg \<and> lsize cfg + 8 < bsize cfg \<and> lsize cfg \<le> 2 ^ 19"

text \<open>\<open>cells s\<close> is the content of the store as the driver presents it (erased bytes read as zero),
  \<open>opened s\<close> whether it is unlocked. Erasing and writing need an unlocked store, and only erased
  units are ever written.\<close>

locale backing_store_laws =
  fixes drv :: "'s backing_store" and cfg :: wl_config
    and valid :: "'s \<Rightarrow> bool" and cells :: "'s \<Rightarrow> u8 list" and opened :: "'s \<Rightarrow> bool"
  assumes config: "wl_config_ok cfg"
    and length_cells: "valid s \<Longrightarrow> length (cells s) = bsize cfg"
    and init_law: "valid s \<Longrightarrow> \<not> opened s \<Longrightarrow> backing_store_init drv s = (ok, s') \<Longrightarrow>
      ok \<and> valid s' \<and> cells s' = cells s \<and> \<not> opened s'"
    and unlock_law: "valid s \<Longrightarrow> backing_store_unlock drv s = (ok, s') \<Longrightarrow>
      ok \<and> valid s' \<and> cells s' = cells s \<and> opened s'"
    and lock_law: "valid s \<Longrightarrow> backing_store_lock drv s = (ok, s') \<Longrightarrow>
      ok \<and> valid s' \<and> cells s' = cells s \<and> \<not> opened s'"
    and erase_law: "valid s \<Longrightarrow> opened s \<Longrightarrow> backing_store_erase drv s = (ok, s') \<Longrightarrow>
      ok \<and> valid s' \<and> cells s' = replicate (bsize cfg) 0 \<and> opened s'"
    and write_law: "valid s \<Longrightarrow> opened s \<Longrightarrow> wsize cfg dvd a \<Longrightarrow> a + wsize cfg \<le> bsize cfg \<Longrightarrow>
      length v = wsize cfg \<Longrightarrow> holds (cells s) a (replicate (wsize cfg) 0) \<Longrightarrow>
      backing_store_write drv a v s = (ok, s') \<Longrightarrow>
      ok \<and> valid s' \<and> cells s' = memcpy_at a v (cells s) \<and> opened s'"
    and read_law: "valid s \<Longrightarrow> wsize cfg dvd a \<Longrightarrow> a + wsize cfg \<le> bsize cfg \<Longrightarrow>
      backing_store_read drv a s = (True, subarr a (wsize cfg) (cells s))"
begin

lemma sizes:
  "wsize cfg dvd lsize cfg" "wsize cfg dvd bsize cfg" "wsize cfg dvd 8" "0 < lsize cfg"
  "lsize cfg + 8 < bsize cfg" "lsize cfg \<le> 2 ^ 19"
proof -
  show d: "wsize cfg dvd lsize cfg" and "lsize cfg + 8 < bsize cfg" and "lsize cfg \<le> 2 ^ 19"
    using config by (simp_all add: wl_config_ok_def wl_static_asserts_def mod_eq_0_iff_dvd)
  have "lsize cfg dvd bsize cfg"
    using config by (simp add: wl_config_ok_def wl_static_asserts_def mod_eq_0_iff_dvd)
  then show "wsize cfg dvd bsize cfg"
    using d by (rule dvd_trans [rotated])
  from \<open>lsize cfg dvd bsize cfg\<close> \<open>lsize cfg + 8 < bsize cfg\<close> show "0 < lsize cfg"
    by (cases "lsize cfg = 0") auto
  show "wsize cfg dvd 8"
    by (cases "BACKING_STORE_WRITE_SIZE cfg") simp_all
qed

lemma aligned_room: "wsize cfg dvd a \<Longrightarrow> a < bsize cfg \<Longrightarrow> a + wsize cfg \<le> bsize cfg"
proof -
  assume "wsize cfg dvd a" and "a < bsize cfg"
  then obtain i j where "a = wsize cfg * i" and "bsize cfg = wsize cfg * j"
    using sizes(2) by (auto elim!: dvdE)
  with \<open>a < bsize cfg\<close> have "Suc i \<le> j"
    by simp
  then have "wsize cfg * Suc i \<le> wsize cfg * j"
    by (rule mult_le_mono2)
  with \<open>a = _\<close> \<open>bsize cfg = _\<close> show ?thesis
    by simp
qed

lemma read_holds:
  assumes "valid s" and "wsize cfg dvd a" and "holds (cells s) a u" and "length u = wsize cfg"
  shows "backing_store_read drv a s = (True, u)"
  using assms read_law [of s a] length_cells [of s] by (auto simp: holds_def)

section \<open>Bulk transfers\<close>

lemma read_bulk_spec:
  assumes "valid s" and "wsize cfg dvd a" and "a + n * wsize cfg \<le> bsize cfg"
    and "n * wsize cfg \<le> length buf"
  shows "backing_store_read_bulk drv (wsize cfg) a buf n s =
    (True, memcpy_at 0 (subarr a (n * wsize cfg) (cells s)) buf)"
  using assms(3,4)
proof (induction n)
  case 0
  then show ?case by (simp add: subarr_def)
next
  case (Suc n)
  let ?w = "wsize cfg" and ?m = "cells s"
  have len: "length ?m = bsize cfg"
    using assms(1) by (rule length_cells)
  have rd: "backing_store_read drv (a + n * ?w) s = (True, subarr (a + n * ?w) ?w ?m)"
    using Suc.prems assms by (intro read_law) simp_all
  have split: "subarr a (?w + n * ?w) ?m = subarr a (n * ?w) ?m @ subarr (a + n * ?w) ?w ?m"
    using subarr_split [of a "n * ?w" ?w ?m] by (simp only: add.commute [of ?w])
  have ln: "length (subarr a (n * ?w) ?m) = n * ?w"
    using Suc.prems len by (simp add: length_subarr)
  have "memcpy_at (0 + n * ?w) (subarr (a + n * ?w) ?w ?m) (memcpy_at 0 (subarr a (n * ?w) ?m) buf)
      = memcpy_at 0 (subarr a (n * ?w) ?m @ subarr (a + n * ?w) ?w ?m) buf"
    using memcpy_at_append [of 0 "subarr a (n * ?w) ?m" "subarr (a + n * ?w) ?w ?m" buf] Suc.prems len
    by (simp add: ln)
  with Suc rd split show ?case by simp
qed

lemma write_bulk_spec:
  assumes "valid s" and "opened s" and "wsize cfg dvd a" and "a + n * wsize cfg \<le> bsize cfg"
    and "n * wsize cfg \<le> length bs" and "holds (cells s) a (replicate (n * wsize cfg) 0)"
    and "backing_store_write_bulk drv (wsize cfg) a bs n s = (ok, s')"
  shows "ok \<and> valid s' \<and> opened s' \<and> cells s' = memcpy_at a (take (n * wsize cfg) bs) (cells s)"
  using assms(4-)
proof (induction n arbitrary: ok s')
  case 0
  then show ?case using assms by simp
next
  case (Suc n)
  let ?w = "wsize cfg"
  obtain ok1 s1 where bulk: "backing_store_write_bulk drv ?w a bs n s = (ok1, s1)"
    by fastforce
  have zeros: "holds (cells s) a (replicate (n * ?w) 0) \<and> holds (cells s) (a + n * ?w) (replicate ?w 0)"
    using Suc.prems(3) holds_append [of "cells s" a "replicate (n * ?w) 0" "replicate ?w 0"]
    by (simp add: replicate_add [symmetric] add.commute)
  have s1: "ok1 \<and> valid s1 \<and> opened s1 \<and> cells s1 = memcpy_at a (take (n * ?w) bs) (cells s)"
    using Suc.IH [OF _ _ _ bulk] Suc.prems zeros by simp
  have lens: "length (cells s) = bsize cfg" "length (take (n * ?w) bs) = n * ?w"
    using assms(1) length_cells Suc.prems by simp_all
  have z1: "holds (cells s1) (a + n * ?w) (replicate ?w 0)"
    using s1 zeros lens Suc.prems by (simp add: holds_nth nth_memcpy_at)
  have wr: "backing_store_write drv (a + n * ?w) (subarr (n * ?w) ?w bs) s1 = (ok, s')"
    using Suc.prems(4) bulk s1 by simp
  have "length (subarr (n * ?w) ?w bs) = ?w"
    using Suc.prems by (simp add: length_subarr)
  from write_law [OF _ _ _ _ this z1 wr] s1 Suc.prems assms(3)
  have "ok \<and> valid s' \<and> opened s' \<and> cells s' = memcpy_at (a + n * ?w) (subarr (n * ?w) ?w bs) (cells s1)"
    by simp
  moreover have "take (?w + n * ?w) bs = take (n * ?w) bs @ subarr (n * ?w) ?w bs"
    by (simp add: subarr_def add.commute [of ?w] take_add)
  moreover have "memcpy_at (a + n * ?w) (subarr (n * ?w) ?w bs) (memcpy_at a (take (n * ?w) bs) (cells s))
      = memcpy_at a (take (n * ?w) bs @ subarr (n * ?w) ?w bs) (cells s)"
    using memcpy_at_append [of a "take (n * ?w) bs" "subarr (n * ?w) ?w bs" "cells s"] Suc.prems lens
    by simp
  ultimately show ?case
    using s1 by simp
qed

section \<open>Playing back one entry\<close>

text \<open>While an entry is read, the memory of the union holds a growing prefix of the entry.\<close>

lemma read_unit_prefix:
  assumes "valid (store wl)" and "wsize cfg dvd a" and "holds (cells (store wl)) a (take n full)"
    and "k + wsize cfg \<le> n" and "n \<le> length full" and "length full \<le> length stk"
    and "wsize cfg dvd k" and "i * wsize cfg = k"
  shows "playback_read_unit drv (wsize cfg) i (store wl) (a + k) (memcpy_at 0 (take k full) stk) =
    (True, a + (k + wsize cfg), memcpy_at 0 (take (k + wsize cfg) full) stk)"
proof -
  let ?w = "wsize cfg" and ?m = "cells (store wl)"
  have "holds ?m (a + k) (subarr k ?w full)"
    using assms(3-5) by (auto simp: holds_nth nth_subarr add.assoc)
  moreover have "length (subarr k ?w full) = ?w"
    using assms(4,5) by (intro length_subarr) simp
  ultimately have rd: "backing_store_read drv (a + k) (store wl) = (True, subarr k ?w full)"
    using assms by (intro read_holds) simp_all
  have "take (k + ?w) full = take k full @ subarr k ?w full"
    by (simp add: subarr_def take_add)
  moreover have "memcpy_at (0 + length (take k full)) (subarr k ?w full) (memcpy_at 0 (take k full) stk) =
      memcpy_at 0 (take k full @ subarr k ?w full) stk"
    using assms(4-6) by (intro memcpy_at_append) (simp add: subarr_def)
  ultimately show ?thesis
    using rd assms(4,5,8) by (simp add: playback_read_unit_def)
qed

lemma playback_multibyte_spec:
  assumes "valid (store wl)" and "8 \<le> length stk" and "entry_ok cfg (Multibyte b p)"
    and "wsize cfg dvd a"
    and "holds (cells (store wl)) a (entry_bytes (BACKING_STORE_WRITE_SIZE cfg) (Multibyte b p))"
  shows "playback_multibyte drv cfg (a + wsize cfg)
      (memcpy_at 0 (take (wsize cfg) (multibyte_log b p)) stk) wl =
    (False, WEAR_LEVELING_SUCCESS, a + multibyte_size (BACKING_STORE_WRITE_SIZE cfg) (length p),
     wl\<lparr>cache := memcpy_at b p (cache wl)\<rparr>)"
proof -
  let ?full = "multibyte_log b p" and ?n = "multibyte_size (BACKING_STORE_WRITE_SIZE cfg) (length p)"
  have p: "0 < length p" "length p \<le> 5" "b + length p \<le> lsize cfg" "b < 2 ^ 19"
    using assms(3) by simp_all
  have full: "length ?full = 8"
    using p by (simp add: multibyte_log_nth)
  have n: "?n \<le> 8" "3 + length p \<le> ?n"
    using p by (cases "BACKING_STORE_WRITE_SIZE cfg"; simp add: multibyte_size_def)+
  have h: "holds (cells (store wl)) a (take ?n ?full)"
    using assms(5) full by (simp add: concat_multibyte_units)
  note unit = read_unit_prefix [OF assms(1,4) h, unfolded full]
  note mem = multibyte_prefix [OF p(2,4) assms(2)]
  show ?thesis
  proof (cases "BACKING_STORE_WRITE_SIZE cfg")
    case Write2
    then show ?thesis
      using unit [of 2 stk 1] unit [of 4 stk 2] unit [of 6 stk 3] assms(2) p n
        mem [of 4] mem [of 6] mem [of 8]
      by (auto simp: playback_multibyte_def playback_read_rest_def multibyte_size_def add.assoc)
  next
    case Write4
    then show ?thesis
      using unit [of 4 stk 1] assms(2) p n mem [of 4] mem [of 8]
      by (auto simp: playback_multibyte_def playback_read_rest_def multibyte_size_def add.assoc)
  next
    case Write8
    then show ?thesis
      using assms(2) p n mem [of 8]
      by (auto simp: playback_multibyte_def playback_read_rest_def multibyte_size_def)
  qed
qed

lemma playback_entry_spec:
  assumes "valid (store wl)" and "8 \<le> length stk" and "entry_ok cfg e" and "wsize cfg dvd a"
    and "holds (cells (store wl)) a (entry_bytes (BACKING_STORE_WRITE_SIZE cfg) e)"
  shows "playback_entry drv cfg stk a wl =
    (False, WEAR_LEVELING_SUCCESS, a + length (entry_bytes (BACKING_STORE_WRITE_SIZE cfg) e),
     wl\<lparr>cache := entry_apply e (cache wl)\<rparr>)"
proof (cases e)
  case (Multibyte b p)
  let ?w = "BACKING_STORE_WRITE_SIZE cfg" and ?full = "multibyte_log b p"
  have p: "0 < length p" "length p \<le> 5"
    using assms(3) Multibyte by simp_all
  have full: "length ?full = 8"
    using p by (simp add: multibyte_log_nth)
  have w: "1 \<le> wsize cfg" "wsize cfg \<le> 8" "wsize cfg \<le> multibyte_size ?w (length p)"
    using p by (cases ?w; simp add: multibyte_size_def)+
  have n: "multibyte_size ?w (length p) \<le> 8"
    by (cases ?w; simp add: multibyte_size_def)
  have h: "holds (cells (store wl)) a (take (multibyte_size ?w (length p)) ?full)"
    using assms(5) full Multibyte by (simp add: concat_multibyte_units)
  then have "holds (cells (store wl)) a (take (wsize cfg) ?full)"
    using w(3) n full by (simp add: holds_nth)
  then have "backing_store_read drv a (store wl) = (True, take (wsize cfg) ?full)"
    using assms(1,4) w full by (intro read_holds) simp_all
  then show ?thesis
    using playback_multibyte_spec [OF assms(1,2) _ assms(4), of b p] assms(3,5) Multibyte full n w
      multibyte_prefix_type [OF p assms(2), of "wsize cfg" b]
    by (simp add: playback_entry_def concat_multibyte_units)
next
  case (Optimized_64 b v)
  let ?log = "memcpy_at 0 (take 2 (LOG_ENTRY_MAKE_OPTIMIZED_64 b v)) stk"
  have w: "BACKING_STORE_WRITE_SIZE cfg = Write2" and b: "b < 64" "b < lsize cfg"
    using assms(3) Optimized_64 by simp_all
  have nth: "?log ! 0 = LOG_ENTRY_MAKE_OPTIMIZED_64 b v ! 0" "?log ! 1 = v"
    by (simp_all add: memcpy_at_def LOG_ENTRY_MAKE_OPTIMIZED_64_def)
  have rd: "backing_store_read drv a (store wl) = (True, take 2 (LOG_ENTRY_MAKE_OPTIMIZED_64 b v))"
    using assms w Optimized_64 by (intro read_holds) simp_all
  have codec: "LOG_ENTRY_GET_TYPE ?log = LOG_ENTRY_TYPE_OPTIMIZED_64"
      "LOG_ENTRY_OPTIMIZED_64_GET_ADDRESS ?log = b" "?log ! 0 \<noteq> 0"
    using optimized_64_codec [OF b(1), of ?log] nth by (simp_all add: LOG_ENTRY_MAKE_OPTIMIZED_64_def)
  have nz: "\<not> list_all (\<lambda>b. b = 0) (take 2 (LOG_ENTRY_MAKE_OPTIMIZED_64 b v))"
    using codec(3) nth by (auto simp: list_all_length intro!: exI [of _ 0])
  show ?thesis
    using rd codec nth nz b w Optimized_64
    by (simp add: playback_entry_def playback_optimized_64_def LOG_ENTRY_OPTIMIZED_64_GET_VALUE_def)
next
  case (Word_01 b v)
  let ?log = "memcpy_at 0 (take 2 (LOG_ENTRY_MAKE_WORD_01 b v)) stk"
  have w: "BACKING_STORE_WRITE_SIZE cfg = Write2"
    and b: "b < 16384" "b mod 2 = 0" "v = 0 \<or> v = 1" "b + 1 < lsize cfg"
    using assms(3) Word_01 by simp_all
  have tk: "take 2 ?log = take 2 (LOG_ENTRY_MAKE_WORD_01 b v)" and ln: "2 \<le> length ?log"
    using assms(2) by (simp_all add: memcpy_at_def)
  have rd: "backing_store_read drv a (store wl) = (True, take 2 (LOG_ENTRY_MAKE_WORD_01 b v))"
    using assms w Word_01 by (intro read_holds) simp_all
  note codec = word_01_codec [OF b(1-3) tk ln]
  have nz: "\<not> list_all (\<lambda>b. b = 0) (take 2 (LOG_ENTRY_MAKE_WORD_01 b v))"
    using codec(4) ln tk by (auto simp: list_all_length nth_take intro!: exI [of _ 0] dest: arg_cong [where f = "\<lambda>l. l ! 0"])
  show ?thesis
    using rd codec nz b w Word_01
    by (simp add: playback_entry_def playback_word_01_def)
qed

section \<open>Consolidation\<close>

text \<open>The store is open for writing and the lock flag agrees with it.\<close>

definition writable :: "'s wear_leveling \<Rightarrow> bool" where
  "writable wl \<longleftrightarrow> valid (store wl) \<and> opened (store wl) \<and> unlocked wl \<and> length (cache wl) = lsize cfg"

lemma consolidate_force_spec:
  assumes "writable wl"
  shows "\<exists>wl'. wear_leveling_consolidate_force drv cfg wl = (WEAR_LEVELING_CONSOLIDATED, wl') \<and>
    writable wl' \<and> cache wl' = cache wl \<and> write_address wl' = lsize cfg + 8 \<and>
    cells (store wl') = consolidated cfg (cache wl)"
proof -
  let ?w = "wsize cfg" and ?L = "lsize cfg" and ?h = "raw64_bytes (fnv_64a_buf (cache wl) FNV1A_64_INIT)"
  have wl: "valid (store wl)" "opened (store wl)" "unlocked wl" "length (cache wl) = ?L"
    using assms by (simp_all add: writable_def)
  obtain ok s1 where er: "backing_store_erase drv (store wl) = (ok, s1)"
    by fastforce
  have s1: "ok" "valid s1" "opened s1" "cells s1 = replicate (bsize cfg) 0"
    using erase_law [OF wl(1,2) er] by simp_all
  obtain ok2 s2 where b1: "backing_store_write_bulk drv ?w 0 (cache wl) (?L div ?w) s1 = (ok2, s2)"
    by fastforce
  have L: "?L div ?w * ?w = ?L" and eight: "8 div ?w * ?w = 8" and room: "?L + 8 < bsize cfg"
    using sizes by simp_all
  have s2: "ok2 \<and> valid s2 \<and> opened s2 \<and> cells s2 = memcpy_at 0 (take (?L div ?w * ?w) (cache wl)) (cells s1)"
    using s1 wl room by (intro write_bulk_spec [OF s1(2,3) _ _ _ _ b1]) (simp_all add: L holds_nth)
  then have c2: "cells s2 = memcpy_at 0 (cache wl) (replicate (bsize cfg) 0)"
    using wl L s1 by simp
  obtain ok3 s3 where b2: "backing_store_write_bulk drv ?w ?L ?h (8 div ?w) s2 = (ok3, s3)"
    by fastforce
  have "holds (cells s2) ?L (replicate 8 0)"
    using wl room by (simp add: c2 holds_nth nth_memcpy_at)
  then have s3: "ok3 \<and> valid s3 \<and> opened s3 \<and> cells s3 = memcpy_at ?L (take (8 div ?w * ?w) ?h) (cells s2)"
    using s2 room sizes(1) by (intro write_bulk_spec [OF _ _ _ _ _ _ b2]) (simp_all add: eight)
  then have c3: "cells s3 = consolidated cfg (cache wl)"
    by (simp add: consolidated_def eight c2)
  have "wear_leveling_consolidate_force drv cfg wl =
      (WEAR_LEVELING_CONSOLIDATED, wl\<lparr>store := s3, write_address := ?L + 8\<rparr>)"
    using er s1 b1 s2 b2 s3 wl
    by (simp add: wear_leveling_consolidate_force_def wear_leveling_write_consolidated_def
        wear_leveling_unlock_def Let_def)
  with s3 c3 wl show ?thesis
    by (simp add: writable_def)
qed

section \<open>Appending to the log\<close>

lemma append_raw_as_units:
  "wear_leveling_append_raw drv cfg u wl = wear_leveling_append_units drv cfg [u] wl"
  by (auto simp: Let_def split: prod.splits)

text \<open>Appending units either fits, and the units are written at the end of the log, or it reaches the
  end of the store, and the cache is consolidated.\<close>

lemma append_units_spec:
  assumes "writable wl" and "zero_from (cells (store wl)) (write_address wl)"
    and "wsize cfg dvd write_address wl" and "write_address wl < bsize cfg"
    and "\<forall>u\<in>set us. length u = wsize cfg"
    and "wear_leveling_append_units drv cfg us wl = (status, wl')"
  shows "writable wl' \<and> cache wl' = cache wl \<and>
    (if write_address wl + length (concat us) < bsize cfg
     then status = WEAR_LEVELING_SUCCESS \<and> write_address wl' = write_address wl + length (concat us) \<and>
       cells (store wl') = memcpy_at (write_address wl) (concat us) (cells (store wl))
     else status = WEAR_LEVELING_CONSOLIDATED \<and> write_address wl' = lsize cfg + 8 \<and>
       cells (store wl') = consolidated cfg (cache wl))"
  using assms
proof (induction us arbitrary: wl)
  case Nil
  then show ?case by simp
next
  case (Cons u us)
  let ?wa = "write_address wl" and ?m = "cells (store wl)"
  have wl: "valid (store wl)" "opened (store wl)" "length ?m = bsize cfg"
    using Cons.prems(1) length_cells by (simp_all add: writable_def)
  have u: "length u = wsize cfg"
    using Cons.prems(5) by simp
  have room: "?wa + wsize cfg \<le> bsize cfg"
    using Cons.prems(3,4) by (rule aligned_room)
  obtain ok s1 where wr: "backing_store_write drv ?wa u (store wl) = (ok, s1)"
    by fastforce
  have "holds ?m ?wa (replicate (wsize cfg) 0)"
    using zero_from_holds [OF Cons.prems(2) order_refl, of "wsize cfg"] room wl(3) by simp
  from write_law [OF wl(1,2) Cons.prems(3) room u this wr]
  have s1: "ok" "valid s1" "opened s1" "cells s1 = memcpy_at ?wa u ?m"
    by simp_all
  define wl1 where "wl1 = wl\<lparr>store := s1, write_address := ?wa + wsize cfg\<rparr>"
  have w1: "writable wl1" "cache wl1 = cache wl"
    using Cons.prems(1) s1 by (simp_all add: wl1_def writable_def)
  have ap: "wear_leveling_append_raw drv cfg u wl = wear_leveling_consolidate_if_needed drv cfg wl1"
    using wr s1 by (simp add: wear_leveling_append_raw_def wl1_def)
  show ?case
  proof (cases "bsize cfg \<le> ?wa + wsize cfg")
    case True
    obtain wl2 where "wear_leveling_consolidate_force drv cfg wl1 = (WEAR_LEVELING_CONSOLIDATED, wl2)"
      and w2: "writable wl2" "cache wl2 = cache wl" "write_address wl2 = lsize cfg + 8"
        "cells (store wl2) = consolidated cfg (cache wl)"
      using consolidate_force_spec [OF w1(1)] w1(2) by auto
    with True Cons.prems(6) ap have "status = WEAR_LEVELING_CONSOLIDATED" and "wl' = wl2"
      by (simp_all add: wear_leveling_consolidate_if_needed_def wl1_def)
    with w2 u True show ?thesis by simp
  next
    case False
    then have rest: "wear_leveling_append_units drv cfg us wl1 = (status, wl')"
      using Cons.prems(6) ap by (simp add: wear_leveling_consolidate_if_needed_def wl1_def)
    have "zero_from (cells (store wl1)) (write_address wl1)"
      using Cons.prems(2) room wl(3) s1(4) u zero_from_memcpy [of ?m ?wa u] by (simp add: wl1_def)
    moreover have "wsize cfg dvd write_address wl1" and "write_address wl1 < bsize cfg"
      using Cons.prems(3) False by (simp_all add: wl1_def)
    moreover have "\<forall>u\<in>set us. length u = wsize cfg"
      using Cons.prems(5) by simp
    ultimately have IH: "writable wl' \<and> cache wl' = cache wl1 \<and>
      (if write_address wl1 + length (concat us) < bsize cfg
       then status = WEAR_LEVELING_SUCCESS \<and> write_address wl' = write_address wl1 + length (concat us) \<and>
         cells (store wl') = memcpy_at (write_address wl1) (concat us) (cells (store wl1))
       else status = WEAR_LEVELING_CONSOLIDATED \<and> write_address wl' = lsize cfg + 8 \<and>
         cells (store wl') = consolidated cfg (cache wl1))"
      using Cons.IH [OF w1(1)] rest by blast
    have "memcpy_at (?wa + length u) (concat us) (memcpy_at ?wa u ?m) = memcpy_at ?wa (u @ concat us) ?m"
      if "?wa + length (u @ concat us) < bsize cfg"
      using that wl(3) by (intro memcpy_at_append) simp
    with IH u s1(4) w1(2) show ?thesis
      by (simp add: wl1_def add.assoc split: if_splits)
  qed
qed

text \<open>The state between the entries of one write: the log stands for \<open>d\<close>.\<close>

definition logging :: "u8 list \<Rightarrow> 's wear_leveling \<Rightarrow> bool" where
  "logging d wl \<longleftrightarrow> writable wl \<and> write_address wl < bsize cfg \<and>
     log_state cfg (cells (store wl)) (write_address wl) d"

lemma logging_aligned: "logging d wl \<Longrightarrow> wsize cfg dvd write_address wl"
  using sizes by (auto simp: logging_def log_state_def log_bytes_aligned)

lemma append_entry_spec:
  assumes "logging d wl" and "entry_ok cfg e" and "\<forall>u\<in>set us. length u = wsize cfg"
    and "concat us = entry_bytes (BACKING_STORE_WRITE_SIZE cfg) e"
    and "wear_leveling_append_units drv cfg us wl = (status, wl')"
  shows "cache wl' = cache wl \<and>
    (status = WEAR_LEVELING_SUCCESS \<and> logging (entry_apply e d) wl' \<or>
     status = WEAR_LEVELING_CONSOLIDATED \<and> logging (cache wl) wl')"
proof -
  have wl: "writable wl" "write_address wl < bsize cfg"
      "log_state cfg (cells (store wl)) (write_address wl) d"
    using assms(1) by (simp_all add: logging_def)
  have z: "zero_from (cells (store wl)) (write_address wl)"
    using wl(3) by (simp add: log_state_def)
  have len: "length (cells (store wl)) = bsize cfg" "length (cache wl) = lsize cfg"
    using wl(1) length_cells by (simp_all add: writable_def)
  note spec = append_units_spec [OF wl(1) z logging_aligned [OF assms(1)] wl(2) assms(3,5)]
  show ?thesis
  proof (cases "write_address wl + length (concat us) < bsize cfg")
    case True
    then have "log_state cfg (memcpy_at (write_address wl) (concat us) (cells (store wl)))
        (write_address wl + length (concat us)) (entry_apply e d)"
      using log_state_append [OF wl(3) assms(2,4)] len by simp
    with True spec show ?thesis by (simp add: logging_def)
  next
    case False
    with spec log_state_consolidated [of "cache wl" cfg] len sizes show ?thesis
      by (simp add: logging_def)
  qed
qed

lemma write_raw_step:
  assumes "logging d wl" and "address + length p \<le> lsize cfg" and "cache wl = memcpy_at address p d"
    and "entry_ok cfg e" and "entry_apply e d = memcpy_at address (take k p) d" and "k \<le> length p"
    and "\<forall>u\<in>set us. length u = wsize cfg" and "concat us = entry_bytes (BACKING_STORE_WRITE_SIZE cfg) e"
    and "wear_leveling_append_units drv cfg us wl = (st1, wl1)"
  shows "cache wl1 = cache wl \<and>
    (st1 = WEAR_LEVELING_SUCCESS \<and> logging (memcpy_at address (take k p) d) wl1 \<and>
       cache wl1 = memcpy_at (address + k) (drop k p) (memcpy_at address (take k p) d) \<or>
     st1 = WEAR_LEVELING_CONSOLIDATED \<and> logging (cache wl) wl1)"
proof -
  have "length d = lsize cfg"
    using assms(1) by (auto simp: logging_def dest: log_state_bounds)
  then have "memcpy_at (address + k) (drop k p) (memcpy_at address (take k p) d) = memcpy_at address p d"
    using memcpy_at_append [of address "take k p" "drop k p" d] assms(2,6) by simp
  then show ?thesis
    using append_entry_spec [OF assms(1,4,7-)] assms(3,5) by auto
qed

lemma write_raw_spec:
  assumes "logging d wl" and "address + length p \<le> lsize cfg" and "cache wl = memcpy_at address p d"
    and "wear_leveling_write_raw drv cfg address p wl = (status, wl')"
  shows "status \<noteq> WEAR_LEVELING_FAILED \<and> cache wl' = cache wl \<and> logging (cache wl) wl'"
  using assms
proof (induction p arbitrary: address wl d rule: length_induct)
  case (1 p)
  note prems = "1.prems"
  have d: "length d = lsize cfg"
    using prems(1) by (auto simp: logging_def dest: log_state_bounds)
  have done_step: ?case
    if ap: "wear_leveling_append_units drv cfg us wl = (st1, wl1)" and e: "entry_ok cfg e"
      "entry_apply e d = memcpy_at address (take k p) d" and k: "0 < k" "k \<le> length p"
      and us: "\<forall>u\<in>set us. length u = wsize cfg" "concat us = entry_bytes (BACKING_STORE_WRITE_SIZE cfg) e"
      and eq: "(if st1 \<noteq> WEAR_LEVELING_SUCCESS then (st1, wl1)
        else wear_leveling_write_raw drv cfg (address + k) (drop k p) wl1) = (status, wl')"
    for us st1 wl1 e k
  proof -
    note step = write_raw_step [OF prems(1-3) e k(2) us ap]
    show ?thesis
    proof (cases "st1 = WEAR_LEVELING_SUCCESS")
      case True
      then have "length (drop k p) < length p" and "address + k + length (drop k p) \<le> lsize cfg"
        and "wear_leveling_write_raw drv cfg (address + k) (drop k p) wl1 = (status, wl')"
        using k prems(2) eq by simp_all
      moreover have "logging (memcpy_at address (take k p) d) wl1" and "cache wl1 = cache wl"
        and "cache wl1 = memcpy_at (address + k) (drop k p) (memcpy_at address (take k p) d)"
        using step True by auto
      ultimately show ?thesis
        using "1.IH" by metis
    next
      case False
      with step eq show ?thesis by auto
    qed
  qed
  note unfold = prems(4) [unfolded wear_leveling_write_raw.simps [of drv cfg address p wl]]
  consider "p = []" | (word) "p \<noteq> []" "word_01_applies cfg address p"
    | (byte) "p \<noteq> []" "\<not> word_01_applies cfg address p" "BACKING_STORE_WRITE_SIZE cfg = Write2" "address < 64"
    | (multi) "p \<noteq> []" "\<not> word_01_applies cfg address p" "\<not> (BACKING_STORE_WRITE_SIZE cfg = Write2 \<and> address < 64)"
    by blast
  then show ?case
  proof cases
    case 1
    with unfold prems d show ?thesis by simp
  next
    case word
    let ?v = "push_bit 8 (ucast (p ! 1)) OR ucast (p ! 0) :: u16"
    have app: "BACKING_STORE_WRITE_SIZE cfg = Write2" "2 \<le> length p" "address mod 2 = 0" "address < 16384"
        "?v = 0 \<or> ?v = 1"
      using word(2) by (simp_all add: word_01_applies_def Let_def)
    obtain st1 wl1 where ap: "wear_leveling_append_units drv cfg [take 2 (LOG_ENTRY_MAKE_WORD_01 address ?v)] wl = (st1, wl1)"
      by fastforce
    show ?thesis
    proof (rule done_step [OF ap, of "Word_01 address ?v" 2])
      show "entry_apply (Word_01 address ?v) d = memcpy_at address (take 2 p) d"
        using word(2) prems(2) d by (intro word_01_apply) simp_all
      show "(if st1 \<noteq> WEAR_LEVELING_SUCCESS then (st1, wl1)
        else wear_leveling_write_raw drv cfg (address + 2) (drop 2 p) wl1) = (status, wl')"
        using unfold word ap by (simp add: append_raw_as_units Let_def del: wear_leveling_append_units.simps)
    qed (use app prems(2) in simp_all)
  next
    case byte
    obtain st1 wl1 where ap: "wear_leveling_append_units drv cfg [take 2 (LOG_ENTRY_MAKE_OPTIMIZED_64 address (hd p))] wl = (st1, wl1)"
      by fastforce
    have hd: "take 1 p = [hd p]" "0 < length p"
      using byte(1) by (cases p; simp)+
    have "address < length d"
      using hd(2) prems(2) d by linarith
    show ?thesis
    proof (rule done_step [OF ap, of "Optimized_64 address (hd p)" 1])
      show "entry_apply (Optimized_64 address (hd p)) d = memcpy_at address (take 1 p) d"
        using memcpy_at_1 [OF \<open>address < length d\<close>] hd(1) by (simp del: One_nat_def)
      show "(if st1 \<noteq> WEAR_LEVELING_SUCCESS then (st1, wl1)
        else wear_leveling_write_raw drv cfg (address + 1) (drop 1 p) wl1) = (status, wl')"
        using unfold byte ap by (simp add: append_raw_as_units Let_def del: wear_leveling_append_units.simps)
    qed (use byte hd prems(2) \<open>address < length d\<close> d in \<open>simp_all add: Suc_le_eq\<close>)
  next
    case multi
    define k where "k = (if LOG_ENTRY_MULTIBYTE_MAX_BYTES \<le> length p then LOG_ENTRY_MULTIBYTE_MAX_BYTES else length p)"
    have k: "0 < k" "k \<le> length p" "k \<le> 5" "length (take k p) = k"
      using multi(1) by (auto simp: k_def LOG_ENTRY_MULTIBYTE_MAX_BYTES_def)
    let ?log = "multibyte_log address (take k p)" and ?w = "BACKING_STORE_WRITE_SIZE cfg"
    obtain st1 wl1 where ap: "wear_leveling_append_units drv cfg (multibyte_units ?w ?log k) wl = (st1, wl1)"
      by fastforce
    show ?thesis
    proof (rule done_step [OF ap, of "Multibyte address (take k p)" k])
      show "entry_ok cfg (Multibyte address (take k p))"
        using k prems(2) sizes(6) by (auto simp: min_def)
      show "\<forall>u\<in>set (multibyte_units ?w ?log k). length u = wsize cfg"
        using k by (auto intro!: units_length simp: multibyte_log_nth)
      show "concat (multibyte_units ?w ?log k) = entry_bytes ?w (Multibyte address (take k p))"
        using k by simp
      show "(if st1 \<noteq> WEAR_LEVELING_SUCCESS then (st1, wl1)
        else wear_leveling_write_raw drv cfg (address + k) (drop k p) wl1) = (status, wl')"
        using unfold multi ap k(4)
        by (simp add: wear_leveling_write_raw_multibyte_def multibyte_log_def k_def [symmetric] Let_def)
    qed (use k in simp_all)
  qed
qed

end

end
