(* ===== verification/Wear_Leveling_Correct.thy ===== *)
theory Wear_Leveling_Correct
  imports Wear_Leveling_Store
begin

text \<open>
  Correctness of the wear-leveling store: every operation keeps the settled state, initialisation
  recovers the cache from the store, and any sequence of writes, erasures and power cycles behaves
  like the same sequence on a plain byte array.
\<close>

section \<open>Definitions\<close>

text \<open>The state between two calls: the store is locked, and its log stands for the cache.\<close>

definition wl_settled ::
  "wl_config \<Rightarrow> ('s \<Rightarrow> bool) \<Rightarrow> ('s \<Rightarrow> u8 list) \<Rightarrow> ('s \<Rightarrow> bool) \<Rightarrow> 's wear_leveling \<Rightarrow> bool" where
  "wl_settled cfg valid cells opened wl \<longleftrightarrow>
     valid (store wl) \<and> \<not> opened (store wl) \<and> \<not> unlocked wl \<and>
     write_address wl < bsize cfg \<and> log_state cfg (cells (store wl)) (write_address wl) (cache wl)"

text \<open>A power cycle keeps the store and clears the static variables.\<close>

definition power_cycle :: "wl_config \<Rightarrow> 's wear_leveling \<Rightarrow> 's wear_leveling" where
  "power_cycle cfg wl = \<lparr>cache = replicate (lsize cfg) 0, write_address = 0, unlocked = False, store = store wl\<rparr>"

datatype eeprom_op = Write_op nat "u8 list" | Erase_op | Reboot_op

text \<open>The emulated EEPROM as a byte array: an out-of-range write changes nothing.\<close>

fun eeprom_spec :: "eeprom_op \<Rightarrow> u8 list \<Rightarrow> u8 list" where
  "eeprom_spec (Write_op a p) mem = (if a + length p \<le> length mem then memcpy_at a p mem else mem)"
| "eeprom_spec Erase_op mem = replicate (length mem) 0"
| "eeprom_spec Reboot_op mem = mem"

fun wl_op :: "'s backing_store \<Rightarrow> wl_config \<Rightarrow> u8 list \<Rightarrow> eeprom_op \<Rightarrow> 's wear_leveling \<Rightarrow> 's wear_leveling" where
  "wl_op drv cfg stk (Write_op a p) wl =
     (case wear_leveling_write drv cfg a p wl of Some (_, wl') \<Rightarrow> wl' | None \<Rightarrow> wl)"
| "wl_op drv cfg stk Erase_op wl = snd (wear_leveling_erase drv cfg wl)"
| "wl_op drv cfg stk Reboot_op wl = snd (wear_leveling_init drv cfg stk (power_cycle cfg wl))"

fun op_in_range :: "eeprom_op \<Rightarrow> bool" where
  "op_in_range (Write_op a p) \<longleftrightarrow> a + length p < 2 ^ 32"
| "op_in_range _ \<longleftrightarrow> True"

section \<open>The operations on a lawful store\<close>

context backing_store_laws
begin

lemma playback_loop_spec:
  assumes "valid (store wl)" and "8 \<le> length stk" and "\<forall>e\<in>set es. entry_ok cfg e"
    and "wsize cfg dvd a" and "holds (cells (store wl)) a (log_bytes cfg es)"
    and "zero_from (cells (store wl)) (a + length (log_bytes cfg es))"
  shows "playback_loop drv cfg stk a wl =
    (WEAR_LEVELING_SUCCESS, a + length (log_bytes cfg es), wl\<lparr>cache := fold entry_apply es (cache wl)\<rparr>)"
  using assms
proof (induction es arbitrary: a wl)
  case Nil
  have len: "length (cells (store wl)) = bsize cfg"
    using Nil.prems(1) by (rule length_cells)
  show ?case
  proof (cases "a < bsize cfg")
    case True
    then have "holds (cells (store wl)) a (replicate (wsize cfg) 0)"
      using zero_from_holds [OF Nil.prems(6), of a "wsize cfg"] aligned_room [OF Nil.prems(4)] len by simp
    then have "backing_store_read drv a (store wl) = (True, replicate (wsize cfg) 0)"
      using Nil.prems(1,4) by (intro read_holds) simp_all
    with True show ?thesis
      by (simp add: playback_loop.simps [of drv cfg stk a wl] playback_entry_def list_all_length)
  next
    case False
    then show ?thesis by (simp add: playback_loop.simps [of drv cfg stk a wl])
  qed
next
  case (Cons e es)
  let ?bs = "entry_bytes (BACKING_STORE_WRITE_SIZE cfg) e"
  have h: "holds (cells (store wl)) a ?bs" "holds (cells (store wl)) (a + length ?bs) (log_bytes cfg es)"
    using Cons.prems(5) by (simp_all add: holds_append)
  have "playback_entry drv cfg stk a wl =
      (False, WEAR_LEVELING_SUCCESS, a + length ?bs, wl\<lparr>cache := entry_apply e (cache wl)\<rparr>)"
    using Cons.prems h(1) by (intro playback_entry_spec) simp_all
  moreover have "a < bsize cfg"
    using playback_entry_advances [OF calculation] h(1) length_cells [OF Cons.prems(1)]
    unfolding holds_def by linarith
  moreover have "wsize cfg dvd a + length ?bs"
    using Cons.prems(3,4) by (simp add: entry_bytes_aligned)
  ultimately show ?case
    using Cons.IH [of "wl\<lparr>cache := entry_apply e (cache wl)\<rparr>" "a + length ?bs"] Cons.prems h(2)
    by (simp add: playback_loop.simps [of drv cfg stk a wl] add.assoc)
qed

lemma read_consolidated_spec:
  assumes "valid (store wl)" and "8 \<le> length stk" and "length (cache wl) = lsize cfg"
    and "write_address wl = lsize cfg + 8"
  shows "wear_leveling_read_consolidated drv cfg stk wl =
    (WEAR_LEVELING_SUCCESS, wl\<lparr>cache := log_base cfg (cells (store wl))\<rparr>)"
proof -
  let ?w = "wsize cfg" and ?L = "lsize cfg" and ?m = "cells (store wl)"
  have L: "?L div ?w * ?w = ?L" and eight: "8 div ?w * ?w = 8"
    using sizes by simp_all
  have len: "length ?m = bsize cfg"
    using assms(1) by (rule length_cells)
  have "backing_store_read_bulk drv ?w 0 (cache wl) (?L div ?w) (store wl) = (True, memcpy_at 0 (subarr 0 ?L ?m) (cache wl))"
    using read_bulk_spec [OF assms(1), of 0 "?L div ?w" "cache wl"] L sizes assms(3) by simp
  moreover have "memcpy_at 0 (subarr 0 ?L ?m) (cache wl) = take ?L ?m"
    using assms(3) len sizes by (simp add: memcpy_at_def)
  ultimately have c: "backing_store_read_bulk drv ?w 0 (cache wl) (?L div ?w) (store wl) = (True, take ?L ?m)"
    by simp
  have "backing_store_read_bulk drv ?w ?L (take 8 stk) (8 div ?w) (store wl) = (True, memcpy_at 0 (subarr ?L 8 ?m) (take 8 stk))"
    using read_bulk_spec [OF assms(1) sizes(1), of "8 div ?w" "take 8 stk"] eight sizes assms(2) by simp
  moreover have "memcpy_at 0 (subarr ?L 8 ?m) (take 8 stk) = subarr ?L 8 ?m"
    using len sizes assms(2) by (simp add: memcpy_at_def)
  ultimately have h: "backing_store_read_bulk drv ?w ?L (take 8 stk) (8 div ?w) (store wl) = (True, subarr ?L 8 ?m)"
    by simp
  show ?thesis
    using c h assms(4)
    by (simp add: wear_leveling_read_consolidated_def log_base_def wear_leveling_clear_cache_def Let_def)
qed

abbreviation settled :: "'s wear_leveling \<Rightarrow> bool" where
  "settled \<equiv> wl_settled cfg valid cells opened"

lemma init_spec:
  assumes "valid (store wl)" and "8 \<le> length stk" and "\<not> unlocked wl" and "wa < bsize cfg"
    and "log_state cfg (cells (store wl)) wa d" and "\<not> opened (store wl)"
  shows "\<exists>wl'. wear_leveling_init drv cfg stk wl = (WEAR_LEVELING_SUCCESS, wl') \<and> settled wl' \<and>
    cache wl' = d \<and> write_address wl' = wa"
proof -
  obtain es where es: "\<forall>e\<in>set es. entry_ok cfg e" "holds (cells (store wl)) (lsize cfg + 8) (log_bytes cfg es)"
      "wa = lsize cfg + 8 + length (log_bytes cfg es)" "fold entry_apply es (log_base cfg (cells (store wl))) = d"
    and z: "zero_from (cells (store wl)) wa"
    using assms(5) by (auto simp: log_state_def)
  obtain ok s1 where i: "backing_store_init drv (store wl) = (ok, s1)"
    by fastforce
  have s1: "ok" "valid s1" "cells s1 = cells (store wl)" "\<not> opened s1"
    using init_law [OF assms(1,6) i] by simp_all
  define wl1 where "wl1 = (wear_leveling_clear_cache cfg wl)\<lparr>store := s1\<rparr>"
  let ?wl2 = "wl1\<lparr>cache := log_base cfg (cells s1)\<rparr>"
  have "wear_leveling_read_consolidated drv cfg stk wl1 = (WEAR_LEVELING_SUCCESS, ?wl2)"
    using read_consolidated_spec [of wl1 stk] s1 assms(2)
    by (simp add: wl1_def wear_leveling_clear_cache_def)
  moreover have "playback_loop drv cfg stk (lsize cfg + 8) ?wl2 = (WEAR_LEVELING_SUCCESS, wa, wl1\<lparr>cache := d\<rparr>)"
    using playback_loop_spec [of ?wl2 stk es "lsize cfg + 8"] es s1 z assms(2) sizes
    by (simp add: wl1_def)
  ultimately have "wear_leveling_init drv cfg stk wl = (WEAR_LEVELING_SUCCESS, wl1\<lparr>cache := d, write_address := wa\<rparr>)"
    using i s1(1) assms(4)
    by (simp add: wear_leveling_init_def wear_leveling_playback_log_def wear_leveling_consolidate_if_needed_def
        wl1_def wear_leveling_clear_cache_def Let_def)
  moreover have "settled (wl1\<lparr>cache := d, write_address := wa\<rparr>)"
    using s1 assms by (simp add: wl_settled_def wl1_def wear_leveling_clear_cache_def)
  ultimately show ?thesis by simp
qed

lemma unlock_spec:
  assumes "settled wl"
  shows "\<exists>wl'. wear_leveling_unlock drv wl = (STATUS_SUCCESS, wl') \<and> cache wl' = cache wl \<and>
    write_address wl' = write_address wl \<and> cells (store wl') = cells (store wl) \<and>
    valid (store wl') \<and> opened (store wl') \<and> unlocked wl'"
proof -
  obtain ok s1 where u: "backing_store_unlock drv (store wl) = (ok, s1)"
    by fastforce
  with unlock_law [OF _ u] assms show ?thesis
    by (simp add: wear_leveling_unlock_def wl_settled_def)
qed

lemma lock_spec:
  assumes "valid (store wl)" and "unlocked wl"
  shows "\<exists>wl'. wear_leveling_lock drv wl = (STATUS_SUCCESS, wl') \<and> cache wl' = cache wl \<and>
    write_address wl' = write_address wl \<and> cells (store wl') = cells (store wl) \<and>
    valid (store wl') \<and> \<not> opened (store wl') \<and> \<not> unlocked wl'"
proof -
  obtain ok s1 where u: "backing_store_lock drv (store wl) = (ok, s1)"
    by fastforce
  with lock_law [OF assms(1) u] assms show ?thesis
    by (simp add: wear_leveling_lock_def)
qed

lemma settled_length: "settled wl \<Longrightarrow> length (cache wl) = lsize cfg"
  by (auto simp: wl_settled_def dest: log_state_bounds)

lemma erase_spec:
  assumes "settled wl"
  shows "\<exists>wl'. wear_leveling_erase drv cfg wl = (WEAR_LEVELING_SUCCESS, wl') \<and> settled wl' \<and>
    cache wl' = replicate (lsize cfg) 0"
proof -
  obtain wl1 where u: "wear_leveling_unlock drv wl = (STATUS_SUCCESS, wl1)" "valid (store wl1)"
      "opened (store wl1)" "unlocked wl1"
    using unlock_spec [OF assms] by blast
  obtain ok s2 where e: "backing_store_erase drv (store wl1) = (ok, s2)"
    by fastforce
  have s2: "ok" "valid s2" "cells s2 = replicate (bsize cfg) 0"
    using erase_law [OF u(2,3) e] by simp_all
  let ?wl2 = "wear_leveling_clear_cache cfg (wl1\<lparr>store := s2\<rparr>)"
  obtain wl3 where l: "wear_leveling_lock drv ?wl2 = (STATUS_SUCCESS, wl3)" "cache wl3 = cache ?wl2"
      "write_address wl3 = write_address ?wl2" "cells (store wl3) = cells (store ?wl2)"
      "valid (store wl3)" "\<not> opened (store wl3)" "\<not> unlocked wl3"
    using lock_spec [of ?wl2] s2 u(4) by (auto simp: wear_leveling_clear_cache_def)
  have "wear_leveling_erase drv cfg wl = (WEAR_LEVELING_SUCCESS, wl3)"
    using u e s2 l by (simp add: wear_leveling_erase_def Let_def)
  with l s2 log_state_erased [of cfg] sizes show ?thesis
    by (simp add: wl_settled_def wear_leveling_clear_cache_def)
qed

lemma write_spec:
  assumes "settled wl" and "a + length p < 2 ^ 32"
  shows "\<exists>st wl'. wear_leveling_write drv cfg a p wl = Some (st, wl') \<and> settled wl' \<and>
    (st = WEAR_LEVELING_FAILED \<longleftrightarrow> lsize cfg < a + length p) \<and>
    cache wl' = eeprom_spec (Write_op a p) (cache wl)"
proof -
  have len: "length (cache wl) = lsize cfg"
    using assms(1) by (rule settled_length)
  consider "lsize cfg < a + length p" | "a + length p \<le> lsize cfg" "p = subarr a (length p) (cache wl)"
    | "a + length p \<le> lsize cfg" "p \<noteq> subarr a (length p) (cache wl)"
    by linarith
  then show ?thesis
  proof cases
    case 1
    with assms len show ?thesis by (simp add: wear_leveling_write_def)
  next
    case 2
    then have "memcpy_at a p (cache wl) = cache wl"
      using memcpy_at_subarr_id [of a "length p" "cache wl"] len by simp
    with 2 assms len show ?thesis by (simp add: wear_leveling_write_def)
  next
    case 3
    let ?c = "memcpy_at a p (cache wl)"
    obtain ok s1 where ul: "backing_store_unlock drv (store wl) = (ok, s1)"
      by fastforce
    have s1: "ok" "valid s1" "cells s1 = cells (store wl)" "opened s1"
      using unlock_law [OF _ ul] assms(1) by (simp_all add: wl_settled_def)
    define wl1 where "wl1 = wl\<lparr>cache := ?c, store := s1, unlocked := True\<rparr>"
    have u: "wear_leveling_unlock drv (wl\<lparr>cache := ?c\<rparr>) = (STATUS_SUCCESS, wl1)"
      using ul s1 assms(1) by (simp add: wear_leveling_unlock_def wl_settled_def wl1_def)
    have "logging (cache wl) wl1"
      using assms(1) s1 len 3(1) by (simp add: logging_def writable_def wl1_def wl_settled_def)
    moreover obtain st2 wl2 where wr: "wear_leveling_write_raw drv cfg a p wl1 = (st2, wl2)"
      by fastforce
    ultimately have w2: "st2 \<noteq> WEAR_LEVELING_FAILED" "cache wl2 = ?c" "logging ?c wl2"
      using write_raw_spec [of "cache wl" wl1 a p st2 wl2] 3(1) by (simp_all add: wl1_def)
    then have nc: "wear_leveling_consolidate_if_needed drv cfg wl2 = (WEAR_LEVELING_SUCCESS, wl2)"
      by (simp add: wear_leveling_consolidate_if_needed_def logging_def)
    obtain wl3 where l: "wear_leveling_lock drv wl2 = (STATUS_SUCCESS, wl3)" "cache wl3 = cache wl2"
        "write_address wl3 = write_address wl2" "cells (store wl3) = cells (store wl2)"
        "valid (store wl3)" "\<not> opened (store wl3)" "\<not> unlocked wl3"
      using lock_spec [of wl2] w2(3) by (auto simp: logging_def writable_def)
    have "wear_leveling_write drv cfg a p wl = Some (st2, wl3)"
      using 3 assms(2) u wr nc l(1) by (auto simp: wear_leveling_write_def Let_def)
    moreover have "settled wl3"
      using l w2 by (simp add: wl_settled_def logging_def)
    ultimately show ?thesis
      using 3(1) w2(1) l(2) w2(2) len by simp
  qed
qed

lemma op_spec:
  assumes "settled wl" and "op_in_range op" and "8 \<le> length stk"
  shows "settled (wl_op drv cfg stk op wl) \<and> cache (wl_op drv cfg stk op wl) = eeprom_spec op (cache wl)"
proof (cases op)
  case (Write_op a p)
  with write_spec [OF assms(1), of a p] assms(2) show ?thesis by auto
next
  case Erase_op
  with erase_spec [OF assms(1)] settled_length [OF assms(1)] show ?thesis by auto
next
  case Reboot_op
  have "wl_settled cfg valid cells opened wl"
    by (rule assms(1))
  then have "\<exists>wl'. wear_leveling_init drv cfg stk (power_cycle cfg wl) = (WEAR_LEVELING_SUCCESS, wl') \<and>
      settled wl' \<and> cache wl' = cache wl \<and> write_address wl' = write_address wl"
    using assms(3) by (intro init_spec) (simp_all add: power_cycle_def wl_settled_def)
  with Reboot_op show ?thesis by auto
qed

lemma run_spec:
  assumes "settled wl" and "\<forall>op\<in>set ops. op_in_range op" and "8 \<le> length stk"
  shows "settled (fold (wl_op drv cfg stk) ops wl) \<and>
    cache (fold (wl_op drv cfg stk) ops wl) = fold eeprom_spec ops (cache wl)"
  using assms by (induction ops arbitrary: wl) (simp_all add: op_spec)

end

section \<open>The in-memory store of the unit tests\<close>

text \<open>\<^verbatim>\<open>MockBackingStore\<close> of \<^verbatim>\<open>quantum/wear_leveling/tests/backing_mocks.cpp\<close> with its default callbacks: the
  complement of every value is stored, as in flash memory.\<close>

record mock_store =
  backing_storage :: "u8 list"
  locked :: bool

definition mock_backing_store :: "wl_config \<Rightarrow> mock_store backing_store" where
  "mock_backing_store cfg =
     \<lparr>backing_store_init = (\<lambda>s. (True, s)),
      backing_store_unlock = (\<lambda>s. (True, s\<lparr>locked := False\<rparr>)),
      backing_store_erase = (\<lambda>s. (True, s\<lparr>backing_storage := replicate (length (backing_storage s)) 0xFF\<rparr>)),
      backing_store_write = (\<lambda>a v s. (True, s\<lparr>backing_storage := memcpy_at a (map NOT v) (backing_storage s)\<rparr>)),
      backing_store_lock = (\<lambda>s. (True, s\<lparr>locked := True\<rparr>)),
      backing_store_read = (\<lambda>a s. (True, map NOT (subarr a (wsize cfg) (backing_storage s))))\<rparr>"

definition mock_valid :: "wl_config \<Rightarrow> mock_store \<Rightarrow> bool" where
  "mock_valid cfg s \<longleftrightarrow> length (backing_storage s) = bsize cfg"

definition mock_cells :: "mock_store \<Rightarrow> u8 list" where
  "mock_cells s = map NOT (backing_storage s)"

abbreviation mock_opened :: "mock_store \<Rightarrow> bool" where
  "mock_opened s \<equiv> \<not> locked s"

lemma u8_minus_256 [simp]: "(- 256 :: u8) = 0"
  by (simp add: word_eq_iff_unsigned)

lemma mock_laws:
  assumes "wl_config_ok cfg"
  shows "backing_store_laws (mock_backing_store cfg) cfg (mock_valid cfg) mock_cells mock_opened"
proof (unfold_locales, goal_cases)
  case 1
  show ?case by (rule assms)
next
  case (7 s a v ok s')
  then show ?case
    by (auto simp: mock_backing_store_def mock_valid_def mock_cells_def memcpy_at_def take_map drop_map o_def)
next
  case (8 s a)
  then show ?case
    by (simp add: mock_backing_store_def mock_cells_def subarr_def take_map drop_map)
qed (auto simp: mock_backing_store_def mock_valid_def mock_cells_def)

text \<open>The configuration of the Q3 Max (\<^verbatim>\<open>info.json\<close>: logical size 2048, backing size 4096) at each write
  size the embedded-flash driver may have.\<close>

definition q3_max_config :: "backing_store_write_size \<Rightarrow> wl_config" where
  "q3_max_config w = \<lparr>BACKING_STORE_WRITE_SIZE = w, WEAR_LEVELING_LOGICAL_SIZE = 2048, WEAR_LEVELING_BACKING_SIZE = 4096\<rparr>"

lemma q3_max_config_ok: "wl_config_ok (q3_max_config w)"
  by (cases w) (simp_all add: wl_config_ok_def wl_static_asserts_def q3_max_config_def)

interpretation mock_q3: backing_store_laws "mock_backing_store (q3_max_config w)" "q3_max_config w"
    "mock_valid (q3_max_config w)" mock_cells mock_opened for w
  by (intro mock_laws q3_max_config_ok)

text \<open>A small configuration for evaluation: 16 logical bytes in a store of 32.\<close>

definition small_config :: "backing_store_write_size \<Rightarrow> wl_config" where
  "small_config w = \<lparr>BACKING_STORE_WRITE_SIZE = w, WEAR_LEVELING_LOGICAL_SIZE = 16, WEAR_LEVELING_BACKING_SIZE = 32\<rparr>"

definition blank :: "wl_config \<Rightarrow> mock_store wear_leveling" where
  "blank cfg = \<lparr>cache = replicate (lsize cfg) 0, write_address = lsize cfg + 8, unlocked = False,
     store = \<lparr>backing_storage = replicate (bsize cfg) 0xFF, locked = True\<rparr>\<rparr>"

lemma small_config_ok: "wl_config_ok (small_config w)"
  by (cases w) (simp_all add: wl_config_ok_def wl_static_asserts_def small_config_def)

lemma blank_settled:
  assumes "wl_config_ok cfg"
  shows "wl_settled cfg (mock_valid cfg) mock_cells mock_opened (blank cfg)"
  using assms log_state_erased [of cfg]
  by (simp add: wl_settled_def blank_def mock_valid_def mock_cells_def wl_config_ok_def)

section \<open>Properties\<close>

text \<open>C1: on every lawful driver, any sequence of writes, erasures and power cycles leaves the cache of
  the wear-leveling store equal to the byte array obtained by the same sequence, whatever the write
  size, and the store stays settled.\<close>

theorem wear_leveling_refines_eeprom:
  assumes "backing_store_laws drv cfg valid cells opened"
    and "wl_settled cfg valid cells opened wl" and "\<forall>op\<in>set ops. op_in_range op" and "8 \<le> length stk"
  shows "wl_settled cfg valid cells opened (fold (wl_op drv cfg stk) ops wl) \<and>
    cache (fold (wl_op drv cfg stk) ops wl) = fold eeprom_spec ops (cache wl)"
  using assms by (rule backing_store_laws.run_spec)

theorem wear_leveling_refines_eeprom_witness:
  "cache (fold (wl_op (mock_backing_store (small_config Write2)) (small_config Write2) (replicate 10 0xA5))
     [Write_op 2 [1, 0, 7, 9], Reboot_op, Write_op 14 [5, 6, 7], Write_op 3 [4], Reboot_op] (blank (small_config Write2)))
   = [0, 0, 1, 4, 7, 9, 0, 0, 0, 0, 0, 0, 0, 0, 0, 0]"
proof -
  have "cache (fold (wl_op (mock_backing_store (small_config Write2)) (small_config Write2) (replicate 10 0xA5))
     [Write_op 2 [1, 0, 7, 9], Reboot_op, Write_op 14 [5, 6, 7], Write_op 3 [4], Reboot_op] (blank (small_config Write2)))
   = fold eeprom_spec [Write_op 2 [1, 0, 7, 9], Reboot_op, Write_op 14 [5, 6, 7], Write_op 3 [4], Reboot_op]
      (cache (blank (small_config Write2)))"
    using wear_leveling_refines_eeprom [OF mock_laws [OF small_config_ok] blank_settled [OF small_config_ok],
        of "[Write_op 2 [1, 0, 7, 9], Reboot_op, Write_op 14 [5, 6, 7], Write_op 3 [4], Reboot_op]" "replicate 10 0xA5" Write2]
    by simp
  also have "\<dots> = [0, 0, 1, 4, 7, 9, 0, 0, 0, 0, 0, 0, 0, 0, 0, 0]"
    by (simp add: blank_def small_config_def memcpy_at_def replicate_eq_replicate numeral_eq_Suc)
  finally show ?thesis .
qed

text \<open>after a power cycle, initialisation succeeds and restores the cache and the write address from
  the store alone.\<close>

theorem wear_leveling_init_recovers:
  assumes "backing_store_laws drv cfg valid cells opened"
    and "wl_settled cfg valid cells opened wl" and "8 \<le> length stk"
  shows "\<exists>wl'. wear_leveling_init drv cfg stk (power_cycle cfg wl) = (WEAR_LEVELING_SUCCESS, wl') \<and>
    cache wl' = cache wl \<and> write_address wl' = write_address wl \<and> wl_settled cfg valid cells opened wl'"
proof -
  have "\<exists>wl'. wear_leveling_init drv cfg stk (power_cycle cfg wl) = (WEAR_LEVELING_SUCCESS, wl') \<and>
      wl_settled cfg valid cells opened wl' \<and> cache wl' = cache wl \<and> write_address wl' = write_address wl"
    using assms by (intro backing_store_laws.init_spec) (simp_all add: power_cycle_def wl_settled_def)
  then show ?thesis by blast
qed

theorem wear_leveling_init_recovers_witness:
  "\<exists>wl'. wear_leveling_init (mock_backing_store (q3_max_config Write4)) (q3_max_config Write4) (replicate 10 0xA5)
      (power_cycle (q3_max_config Write4) (blank (q3_max_config Write4))) = (WEAR_LEVELING_SUCCESS, wl') \<and>
    cache wl' = replicate 2048 0 \<and> write_address wl' = 2056"
proof -
  have "cache (blank (q3_max_config Write4)) = replicate 2048 0"
    and "write_address (blank (q3_max_config Write4)) = 2056"
    by (simp_all add: blank_def q3_max_config_def)
  moreover have "8 \<le> length (replicate 10 (0xA5 :: u8))"
    by simp
  ultimately show ?thesis
    using wear_leveling_init_recovers [OF mock_q3.backing_store_laws_axioms blank_settled [OF q3_max_config_ok],
        of "replicate 10 0xA5" Write4]
    by auto
qed

text \<open>a write inside the logical area succeeds, and every later read returns the written bytes
  where it overlaps the write and the old bytes elsewhere.\<close>

theorem wear_leveling_write_read:
  assumes "backing_store_laws drv cfg valid cells opened"
    and "wl_settled cfg valid cells opened wl" and "a + length p \<le> lsize cfg" and "b + length buf \<le> lsize cfg"
  shows "\<exists>st wl'. wear_leveling_write drv cfg a p wl = Some (st, wl') \<and> st \<noteq> WEAR_LEVELING_FAILED \<and>
    wear_leveling_read cfg b buf wl' = Some (WEAR_LEVELING_SUCCESS, subarr b (length buf) (memcpy_at a p (cache wl)))"
proof -
  have L: "lsize cfg \<le> 2 ^ 19"
    using assms(1) by (rule backing_store_laws.sizes(6))
  then have r: "a + length p < 2 ^ 32" "b + length buf < 2 ^ 32"
    using assms(3,4) by simp_all
  have "length (cache wl) = lsize cfg"
    using assms(1,2) by (rule backing_store_laws.settled_length)
  with backing_store_laws.write_spec [OF assms(1,2) r(1)] assms(3,4) r(2) show ?thesis
    by (auto simp: wear_leveling_read_def)
qed

theorem wear_leveling_write_read_witness:
  "\<exists>st wl'. wear_leveling_write (mock_backing_store (small_config Write8)) (small_config Write8) 4 [1, 2]
      (blank (small_config Write8)) = Some (st, wl') \<and> st \<noteq> WEAR_LEVELING_FAILED \<and>
    wear_leveling_read (small_config Write8) 3 [0, 0, 0, 0] wl' = Some (WEAR_LEVELING_SUCCESS, [0, 1, 2, 0])"
proof -
  have "subarr 3 (length [0, 0, 0, 0 :: u8]) (memcpy_at 4 [1, 2] (cache (blank (small_config Write8)))) = [0, 1, 2, 0]"
    by (simp add: blank_def small_config_def memcpy_at_def subarr_def numeral_eq_Suc)
  moreover have "4 + length [1, 2 :: u8] \<le> lsize (small_config Write8)"
    and "3 + length [0, 0, 0, 0 :: u8] \<le> lsize (small_config Write8)"
    by (simp_all add: small_config_def)
  ultimately show ?thesis
    using wear_leveling_write_read [OF mock_laws [OF small_config_ok] blank_settled [OF small_config_ok],
        of 4 "[1, 2]" Write8 3 "[0, 0, 0, 0]"]
    by simp
qed



text \<open>the length field of a multi-byte entry is not limited to the five bytes an entry can carry:
  playing back an entry that claims six bytes copies the byte that follows the union in memory into the
  cache.\<close>

theorem playback_reads_past_entry:
  "playback_entry (mock_backing_store (small_config Write8)) (small_config Write8) (replicate 8 0 @ [x, y]) 24
     ((blank (small_config Write8))\<lparr>store := \<lparr>backing_storage =
        replicate 24 0xFF @ map NOT [0x30, 0, 0, 1, 2, 3, 4, 5], locked = True\<rparr>\<rparr>) =
   (False, WEAR_LEVELING_SUCCESS, 32,
    (blank (small_config Write8))\<lparr>store := \<lparr>backing_storage =
        replicate 24 0xFF @ map NOT [0x30, 0, 0, 1, 2, 3, 4, 5], locked = True\<rparr>,
      cache := [1, 2, 3, 4, 5, x, 0, 0, 0, 0, 0, 0, 0, 0, 0, 0]\<rparr>)"
  by code_simp

end
