(* ===== verification/Eeprom.thy ===== *)
theory Eeprom
  imports Wear_Leveling_Correct "HOL-Library.Monad_Syntax"
begin

text \<open>
  The EEPROM functions (\<^verbatim>\<open>drivers/eeprom/eeprom_driver.c\<close>) over the two block functions of a driver, and the driver
  on top of the wear-leveling store (\<^verbatim>\<open>drivers/eeprom/eeprom_wear_leveling.c\<close>). The locale \<open>eeprom_laws\<close> is what
  the users of the EEPROM rely on: a byte array that ignores accesses outside its range. Every lawful
  backing store gives such an EEPROM. The result \<open>None\<close> is an access outside the memory of the driver.
\<close>

section \<open>Model\<close>

text \<open>The block functions. A read gets the buffer of the caller and returns its new content.\<close>

record 'e eeprom_api =
  eeprom_read_block :: "nat \<Rightarrow> u8 list \<Rightarrow> 'e \<Rightarrow> u8 list option"
  eeprom_write_block :: "nat \<Rightarrow> u8 list \<Rightarrow> 'e \<Rightarrow> 'e option"

text \<open>The machine is little-endian.\<close>

definition u16_bytes :: "u16 \<Rightarrow> u8 list" where
  "u16_bytes v = [ucast v, ucast (drop_bit 8 v)]"

definition u32_bytes :: "u32 \<Rightarrow> u8 list" where
  "u32_bytes v = [ucast v, ucast (drop_bit 8 v), ucast (drop_bit 16 v), ucast (drop_bit 24 v)]"

definition bytes_u16 :: "u8 list \<Rightarrow> u16" where
  "bytes_u16 bs = ucast (bs ! 0) OR push_bit 8 (ucast (bs ! 1))"

definition bytes_u32 :: "u8 list \<Rightarrow> u32" where
  "bytes_u32 bs = ucast (bs ! 0) OR push_bit 8 (ucast (bs ! 1)) OR push_bit 16 (ucast (bs ! 2)) OR push_bit 24 (ucast (bs ! 3))"

definition eeprom_read_byte :: "'e eeprom_api \<Rightarrow> nat \<Rightarrow> 'e \<Rightarrow> u8 option" where
  "eeprom_read_byte api addr e = do { ret \<leftarrow> eeprom_read_block api addr [0] e; Some (ret ! 0) }"

definition eeprom_read_word :: "'e eeprom_api \<Rightarrow> nat \<Rightarrow> 'e \<Rightarrow> u16 option" where
  "eeprom_read_word api addr e = do { ret \<leftarrow> eeprom_read_block api addr (u16_bytes 0) e; Some (bytes_u16 ret) }"

definition eeprom_read_dword :: "'e eeprom_api \<Rightarrow> nat \<Rightarrow> 'e \<Rightarrow> u32 option" where
  "eeprom_read_dword api addr e = do { ret \<leftarrow> eeprom_read_block api addr (u32_bytes 0) e; Some (bytes_u32 ret) }"

definition eeprom_write_byte :: "'e eeprom_api \<Rightarrow> nat \<Rightarrow> u8 \<Rightarrow> 'e \<Rightarrow> 'e option" where
  "eeprom_write_byte api addr v e = eeprom_write_block api addr [v] e"

definition eeprom_write_word :: "'e eeprom_api \<Rightarrow> nat \<Rightarrow> u16 \<Rightarrow> 'e \<Rightarrow> 'e option" where
  "eeprom_write_word api addr v e = eeprom_write_block api addr (u16_bytes v) e"

definition eeprom_write_dword :: "'e eeprom_api \<Rightarrow> nat \<Rightarrow> u32 \<Rightarrow> 'e \<Rightarrow> 'e option" where
  "eeprom_write_dword api addr v e = eeprom_write_block api addr (u32_bytes v) e"

text \<open>\<open>stk\<close> is the uninitialised buffer on the stack.\<close>

definition eeprom_update_block :: "'e eeprom_api \<Rightarrow> u8 list \<Rightarrow> nat \<Rightarrow> u8 list \<Rightarrow> 'e \<Rightarrow> 'e option" where
  "eeprom_update_block api stk addr buf e =
     do { read_buf \<leftarrow> eeprom_read_block api addr (take (length buf) stk) e;
          if buf \<noteq> read_buf then eeprom_write_block api addr buf e else Some e }"

definition eeprom_update_byte :: "'e eeprom_api \<Rightarrow> nat \<Rightarrow> u8 \<Rightarrow> 'e \<Rightarrow> 'e option" where
  "eeprom_update_byte api addr v e =
     do { orig \<leftarrow> eeprom_read_byte api addr e; if orig \<noteq> v then eeprom_write_byte api addr v e else Some e }"

definition eeprom_update_word :: "'e eeprom_api \<Rightarrow> nat \<Rightarrow> u16 \<Rightarrow> 'e \<Rightarrow> 'e option" where
  "eeprom_update_word api addr v e =
     do { orig \<leftarrow> eeprom_read_word api addr e; if orig \<noteq> v then eeprom_write_word api addr v e else Some e }"

definition eeprom_update_dword :: "'e eeprom_api \<Rightarrow> nat \<Rightarrow> u32 \<Rightarrow> 'e \<Rightarrow> 'e option" where
  "eeprom_update_dword api addr v e =
     do { orig \<leftarrow> eeprom_read_dword api addr e; if orig \<noteq> v then eeprom_write_dword api addr v e else Some e }"

text \<open>\<^verbatim>\<open>eeprom_wear_leveling.c\<close>. The status of the store is not used.\<close>

definition wl_eeprom :: "'s backing_store \<Rightarrow> wl_config \<Rightarrow> 's wear_leveling eeprom_api" where
  "wl_eeprom drv cfg =
     \<lparr>eeprom_read_block = (\<lambda>addr buf wl. map_option snd (wear_leveling_read cfg addr buf wl)),
      eeprom_write_block = (\<lambda>addr buf wl. map_option snd (wear_leveling_write drv cfg addr buf wl))\<rparr>"

definition eeprom_driver_init :: "'s backing_store \<Rightarrow> wl_config \<Rightarrow> u8 list \<Rightarrow> 's wear_leveling \<Rightarrow> 's wear_leveling" where
  "eeprom_driver_init drv cfg stk wl = snd (wear_leveling_init drv cfg stk wl)"

definition eeprom_driver_erase :: "'s backing_store \<Rightarrow> wl_config \<Rightarrow> 's wear_leveling \<Rightarrow> 's wear_leveling" where
  "eeprom_driver_erase drv cfg wl = snd (wear_leveling_erase drv cfg wl)"

section \<open>Bytes of words\<close>

lemma length_u_bytes [simp]: "length (u16_bytes v) = 2" "length (u32_bytes w) = 4"
  by (simp_all add: u16_bytes_def u32_bytes_def)

lemma bytes_u16_u16_bytes [simp]: "bytes_u16 (u16_bytes v) = v"
  by (rule bit_word_eqI) (auto simp: bytes_u16_def u16_bytes_def bit_simps)

lemma bytes_u32_u32_bytes [simp]: "bytes_u32 (u32_bytes v) = v"
proof (rule bit_word_eqI)
  fix n
  assume "n < LENGTH(32)"
  then consider "n < 8" | "8 \<le> n" "n < 16" | "16 \<le> n" "n < 24" | "24 \<le> n" "n < 32"
    by fastforce
  then show "bit (bytes_u32 (u32_bytes v)) n = bit v n"
    by cases (auto simp: bytes_u32_def u32_bytes_def bit_simps)
qed

lemma u8_bit_outside [simp]: "8 \<le> n \<Longrightarrow> \<not> bit (x :: u8) n"
  by (auto dest: bit_imp_le_length)

lemma u16_bytes_of_list: "u16_bytes (bytes_u16 [x, y]) = [x, y]"
  by (auto simp: bytes_u16_def u16_bytes_def bit_simps intro!: bit_word_eqI)

lemma u32_bytes_of_list: "u32_bytes (bytes_u32 [x, y, z, t]) = [x, y, z, t]"
  by (auto simp: bytes_u32_def u32_bytes_def bit_simps intro!: bit_word_eqI)

lemma u16_bytes_bytes_u16 [simp]: "length bs = 2 \<Longrightarrow> u16_bytes (bytes_u16 bs) = bs"
  by (cases bs; cases "tl bs") (simp_all add: u16_bytes_of_list)

lemma u32_bytes_bytes_u32 [simp]: "length bs = 4 \<Longrightarrow> u32_bytes (bytes_u32 bs) = bs"
  by (cases bs; cases "tl bs"; cases "tl (tl bs)"; cases "tl (tl (tl bs))") (simp_all add: u32_bytes_of_list)

section \<open>The interface\<close>

locale eeprom_laws =
  fixes api :: "'e eeprom_api" and ok :: "'e \<Rightarrow> bool" and mem :: "'e \<Rightarrow> u8 list" and size :: nat
  assumes size_bound: "size \<le> 2 ^ 19"
    and length_mem: "ok e \<Longrightarrow> length (mem e) = size"
    and read_block: "ok e \<Longrightarrow> a + length buf < 2 ^ 32 \<Longrightarrow>
      eeprom_read_block api a buf e = Some (if a + length buf \<le> size then subarr a (length buf) (mem e) else buf)"
    and write_block: "ok e \<Longrightarrow> a + length p < 2 ^ 32 \<Longrightarrow>
      \<exists>e'. eeprom_write_block api a p e = Some e' \<and> ok e' \<and> mem e' = (if a + length p \<le> size then memcpy_at a p (mem e) else mem e)"
begin

lemma read_byte: "ok e \<Longrightarrow> a < 2 ^ 32 - 1 \<Longrightarrow> eeprom_read_byte api a e = Some (if a < size then mem e ! a else 0)"
  using length_mem [of e] by (auto simp: eeprom_read_byte_def read_block subarr_def take_Suc hd_drop_conv_nth)

lemma update_byte:
  assumes "ok e" and "a < 2 ^ 32 - 1"
  shows "\<exists>e'. eeprom_update_byte api a v e = Some e' \<and> ok e' \<and> mem e' = (if a < size then (mem e)[a := v] else mem e)"
proof (cases "(if a < size then mem e ! a else 0) = v")
  case True
  then have "eeprom_update_byte api a v e = Some e"
    using assms by (simp add: eeprom_update_byte_def read_byte)
  with True assms show ?thesis
    by (auto simp flip: length_mem)
next
  case False
  then have "eeprom_update_byte api a v e = eeprom_write_block api a [v] e"
    using assms by (simp add: eeprom_update_byte_def read_byte eeprom_write_byte_def)
  with write_block [of e a "[v]"] assms show ?thesis
    by (auto simp: memcpy_at_def upd_conv_take_nth_drop length_mem)
qed

text \<open>A value of \<open>n\<close> bytes: an update stores it and the next read returns it.\<close>

lemma update_value:
  assumes "ok e" and "a + n \<le> size"
    and enc: "\<And>v. length (enc v) = n" "\<And>v. dec (enc v) = v" "\<And>bs. length bs = n \<Longrightarrow> enc (dec bs) = bs"
  shows "\<exists>e'. do { orig \<leftarrow> do { ret \<leftarrow> eeprom_read_block api a (enc z) e; Some (dec ret) };
      if orig \<noteq> v then eeprom_write_block api a (enc v) e else Some e } = Some e' \<and> ok e' \<and> mem e' = memcpy_at a (enc v) (mem e) \<and>
    do { ret \<leftarrow> eeprom_read_block api a (enc z) e'; Some (dec ret) } = Some v"
proof -
  have r: "a + n < 2 ^ 32" "length (mem e) = size"
    using assms(1,2) size_bound length_mem by simp_all
  have read: "eeprom_read_block api a (enc z) e' = Some (subarr a n (mem e'))" if "ok e'" for e'
    using that r assms(2) enc(1) by (simp add: read_block)
  show ?thesis
  proof (cases "dec (subarr a n (mem e)) = v")
    case True
    then have "enc v = subarr a n (mem e)"
      using assms(2) r(2) enc(3) by auto
    with True read [OF assms(1)] assms(1,2) r show ?thesis
      by (simp add: memcpy_at_subarr_id)
  next
    case False
    from write_block [OF assms(1), of a "enc v"] assms(2) r obtain e' where
      "eeprom_write_block api a (enc v) e = Some e'" "ok e'" "mem e' = memcpy_at a (enc v) (mem e)"
      by (auto simp: enc(1))
    with False read [OF assms(1)] read [of e'] assms(2) r show ?thesis
      using subarr_memcpy_same [of a "enc v" "mem e"] by (simp add: enc)
  qed
qed

lemma update_word:
  assumes "ok e" and "a + 2 \<le> size"
  shows "\<exists>e'. eeprom_update_word api a v e = Some e' \<and> ok e' \<and> mem e' = memcpy_at a (u16_bytes v) (mem e) \<and> eeprom_read_word api a e' = Some v"
  unfolding eeprom_update_word_def eeprom_read_word_def eeprom_write_word_def
  by (rule update_value [OF assms]) simp_all

lemma update_dword:
  assumes "ok e" and "a + 4 \<le> size"
  shows "\<exists>e'. eeprom_update_dword api a v e = Some e' \<and> ok e' \<and> mem e' = memcpy_at a (u32_bytes v) (mem e) \<and> eeprom_read_dword api a e' = Some v"
  unfolding eeprom_update_dword_def eeprom_read_dword_def eeprom_write_dword_def
  by (rule update_value [OF assms]) simp_all

lemma update_block:
  assumes "ok e" and "a + length buf \<le> size" and "length buf \<le> length stk"
  shows "\<exists>e'. eeprom_update_block api stk a buf e = Some e' \<and> ok e' \<and> mem e' = memcpy_at a buf (mem e)"
proof -
  have r: "a + length buf < 2 ^ 32" "length (mem e) = size"
    using assms size_bound length_mem by simp_all
  have rd: "eeprom_read_block api a (take (length buf) stk) e = Some (subarr a (length buf) (mem e))"
    using assms r by (simp add: read_block min_absorb2)
  show ?thesis
  proof (cases "buf = subarr a (length buf) (mem e)")
    case True
    moreover from this have "memcpy_at a buf (mem e) = mem e"
      using assms(2) r(2) memcpy_at_subarr_id [of a "length buf" "mem e"] by simp
    ultimately show ?thesis
      using assms(1) rd by (simp add: eeprom_update_block_def)
  next
    case False
    then show ?thesis
      using rd write_block [OF assms(1) r(1)] assms(2) by (simp add: eeprom_update_block_def)
  qed
qed

end

section \<open>The wear-leveled EEPROM\<close>

text \<open>Every lawful backing store gives an EEPROM.\<close>

context backing_store_laws
begin

lemma wl_eeprom_laws: "eeprom_laws (wl_eeprom drv cfg) (wl_settled cfg valid cells opened) cache (lsize cfg)"
proof (unfold_locales, goal_cases)
  case 1
  show ?case by (rule sizes(6))
next
  case (2 e)
  then show ?case by (rule settled_length)
next
  case (3 e a buf)
  then show ?case by (simp add: wl_eeprom_def wear_leveling_read_def Let_def)
next
  case (4 e a p)
  from write_spec [OF this] settled_length [OF 4(1)] show ?case
    by (auto simp: wl_eeprom_def)
qed

text \<open>A restart finds the settled state again.\<close>

lemma reboot_keeps:
  assumes "wl_settled cfg valid cells opened wl" and "8 \<le> length stk"
  shows "wl_settled cfg valid cells opened (eeprom_driver_init drv cfg stk (power_cycle cfg wl)) \<and>
    cache (eeprom_driver_init drv cfg stk (power_cycle cfg wl)) = cache wl"
  using init_spec [where wl = "power_cycle cfg wl" and stk = stk and wa = "write_address wl" and d = "cache wl"] assms
  by (auto simp: eeprom_driver_init_def power_cycle_def wl_settled_def)

end

sublocale backing_store_laws \<subseteq> ee: eeprom_laws "wl_eeprom drv cfg" "wl_settled cfg valid cells opened" cache "lsize cfg"
  by (rule wl_eeprom_laws)

text \<open>The EEPROM keeps what was written over power cycles: an update of a word on any lawful backing store, followed by a restart, is read
  back.\<close>

theorem eeprom_word_survives_reboot:
  assumes "backing_store_laws drv cfg valid cells opened" and "wl_settled cfg valid cells opened wl"
    and "a + 2 \<le> lsize cfg" and "8 \<le> length stk"
  shows "\<exists>wl'. eeprom_update_word (wl_eeprom drv cfg) a v wl = Some wl' \<and>
    eeprom_read_word (wl_eeprom drv cfg) a (eeprom_driver_init drv cfg stk (power_cycle cfg wl')) = Some v"
proof -
  from backing_store_laws.wl_eeprom_laws [OF assms(1)] have E: "eeprom_laws (wl_eeprom drv cfg) (wl_settled cfg valid cells opened) cache (lsize cfg)" .
  obtain wl' where wl': "eeprom_update_word (wl_eeprom drv cfg) a v wl = Some wl'" "wl_settled cfg valid cells opened wl'"
      "eeprom_read_word (wl_eeprom drv cfg) a wl' = Some v"
    using eeprom_laws.update_word [OF E assms(2,3)] by blast
  have "cache (eeprom_driver_init drv cfg stk (power_cycle cfg wl')) = cache wl'"
    using backing_store_laws.reboot_keeps [OF assms(1) wl'(2) assms(4)] by simp
  then have "eeprom_read_word (wl_eeprom drv cfg) a (eeprom_driver_init drv cfg stk (power_cycle cfg wl')) = eeprom_read_word (wl_eeprom drv cfg) a wl'"
    by (simp add: eeprom_read_word_def wl_eeprom_def wear_leveling_read_def)
  then show ?thesis
    using wl' by simp
qed

theorem eeprom_word_survives_reboot_witness:
  "\<exists>wl'. eeprom_update_word (wl_eeprom (mock_backing_store (q3_max_config Write2)) (q3_max_config Write2)) 10 0x1234 (blank (q3_max_config Write2)) = Some wl' \<and>
    eeprom_read_word (wl_eeprom (mock_backing_store (q3_max_config Write2)) (q3_max_config Write2)) 10
      (eeprom_driver_init (mock_backing_store (q3_max_config Write2)) (q3_max_config Write2) (replicate 8 0xA5) (power_cycle (q3_max_config Write2) wl')) = Some 0x1234"
  using mock_laws [OF q3_max_config_ok] blank_settled [OF q3_max_config_ok]
  by (rule eeprom_word_survives_reboot) (simp_all add: q3_max_config_def)

end
