(* ===== verification/Dynamic_Keymap.thy ===== *)
theory Dynamic_Keymap
  imports Eeprom
begin

text \<open>
  The keymap in EEPROM (\<^verbatim>\<open>quantum/dynamic_keymap.c\<close>): keycodes of the matrix and the encoders, big-endian, followed by
  a buffer of zero-terminated macros. The sizes and addresses are the configuration \<open>dk_config\<close>; \<open>None\<close> again is an access outside
  the memory of the EEPROM driver. \<^verbatim>\<open>ENCODER_MAP_ENABLE\<close> is set, as for the Q3 Max.
\<close>

section \<open>Model\<close>

record dk_config =
  MATRIX_ROWS :: nat
  MATRIX_COLS :: nat
  NUM_ENCODERS :: nat
  DYNAMIC_KEYMAP_LAYER_COUNT :: nat
  DYNAMIC_KEYMAP_MACRO_COUNT :: nat
  DYNAMIC_KEYMAP_EEPROM_ADDR :: nat
  DYNAMIC_KEYMAP_EEPROM_MAX_ADDR :: nat

definition DYNAMIC_KEYMAP_ENCODER_EEPROM_ADDR :: "dk_config \<Rightarrow> nat" where
  "DYNAMIC_KEYMAP_ENCODER_EEPROM_ADDR c =
     DYNAMIC_KEYMAP_EEPROM_ADDR c + DYNAMIC_KEYMAP_LAYER_COUNT c * MATRIX_ROWS c * MATRIX_COLS c * 2"

definition DYNAMIC_KEYMAP_MACRO_EEPROM_ADDR :: "dk_config \<Rightarrow> nat" where
  "DYNAMIC_KEYMAP_MACRO_EEPROM_ADDR c = DYNAMIC_KEYMAP_ENCODER_EEPROM_ADDR c + DYNAMIC_KEYMAP_LAYER_COUNT c * NUM_ENCODERS c * 2 * 2"

definition DYNAMIC_KEYMAP_MACRO_EEPROM_SIZE :: "dk_config \<Rightarrow> nat" where
  "DYNAMIC_KEYMAP_MACRO_EEPROM_SIZE c = DYNAMIC_KEYMAP_EEPROM_MAX_ADDR c - DYNAMIC_KEYMAP_MACRO_EEPROM_ADDR c + 1"

text \<open>The compile-time checks; \<open>total_bytes\<close> is \<^verbatim>\<open>TOTAL_EEPROM_BYTE_COUNT\<close>.\<close>

definition dk_static_asserts :: "nat \<Rightarrow> dk_config \<Rightarrow> bool" where
  "dk_static_asserts total_bytes c \<longleftrightarrow> DYNAMIC_KEYMAP_EEPROM_MAX_ADDR c + 1 \<le> total_bytes \<and> DYNAMIC_KEYMAP_EEPROM_MAX_ADDR c \<le> 65535 \<and>
     DYNAMIC_KEYMAP_MACRO_EEPROM_ADDR c + 100 \<le> DYNAMIC_KEYMAP_EEPROM_MAX_ADDR c"

abbreviation KC_NO16 :: u16 where
  "KC_NO16 \<equiv> 0"

definition KC_TRNS :: u16 where
  "KC_TRNS = 1"

text \<open>The keymap in flash, of \<^verbatim>\<open>quantum/keymap_introspection.c\<close>: layers, rows, columns, and layers, encoders, directions.\<close>

record flash_keymap =
  keymaps :: "u16 list list list"
  encoder_map :: "u16 list list list"

definition keycode_at_keymap_location_raw :: "dk_config \<Rightarrow> flash_keymap \<Rightarrow> nat \<Rightarrow> nat \<Rightarrow> nat \<Rightarrow> u16" where
  "keycode_at_keymap_location_raw c f layer row column =
     (if layer < length (keymaps f) \<and> row < MATRIX_ROWS c \<and> column < MATRIX_COLS c then keymaps f ! layer ! row ! column else KC_TRNS)"

definition keycode_at_encodermap_location_raw :: "dk_config \<Rightarrow> flash_keymap \<Rightarrow> nat \<Rightarrow> nat \<Rightarrow> bool \<Rightarrow> u16" where
  "keycode_at_encodermap_location_raw c f layer encoder clockwise =
     (if layer < length (encoder_map f) \<and> encoder < NUM_ENCODERS c then encoder_map f ! layer ! encoder ! (if clockwise then 0 else 1) else KC_TRNS)"

definition dynamic_keymap_key_to_eeprom_address :: "dk_config \<Rightarrow> nat \<Rightarrow> nat \<Rightarrow> nat \<Rightarrow> nat" where
  "dynamic_keymap_key_to_eeprom_address c layer row column =
     DYNAMIC_KEYMAP_EEPROM_ADDR c + layer * MATRIX_ROWS c * MATRIX_COLS c * 2 + row * MATRIX_COLS c * 2 + column * 2"

definition dynamic_keymap_get_keycode :: "dk_config \<Rightarrow> 'e eeprom_api \<Rightarrow> nat \<Rightarrow> nat \<Rightarrow> nat \<Rightarrow> 'e \<Rightarrow> u16 option" where
  "dynamic_keymap_get_keycode c api layer row column e =
     (if DYNAMIC_KEYMAP_LAYER_COUNT c \<le> layer \<or> MATRIX_ROWS c \<le> row \<or> MATRIX_COLS c \<le> column then Some KC_NO16
      else let address = dynamic_keymap_key_to_eeprom_address c layer row column
           in do { hi \<leftarrow> eeprom_read_byte api address e;
                   lo \<leftarrow> eeprom_read_byte api (address + 1) e;
                   Some (push_bit 8 (ucast hi) OR ucast lo) })"

definition dynamic_keymap_set_keycode :: "dk_config \<Rightarrow> 'e eeprom_api \<Rightarrow> nat \<Rightarrow> nat \<Rightarrow> nat \<Rightarrow> u16 \<Rightarrow> 'e \<Rightarrow> 'e option" where
  "dynamic_keymap_set_keycode c api layer row column keycode e =
     (if DYNAMIC_KEYMAP_LAYER_COUNT c \<le> layer \<or> MATRIX_ROWS c \<le> row \<or> MATRIX_COLS c \<le> column then Some e
      else let address = dynamic_keymap_key_to_eeprom_address c layer row column
           in do { e \<leftarrow> eeprom_update_byte api address (ucast (drop_bit 8 keycode)) e;
                   eeprom_update_byte api (address + 1) (ucast (keycode AND 0xFF)) e })"

definition dynamic_keymap_encoder_to_eeprom_address :: "dk_config \<Rightarrow> nat \<Rightarrow> nat \<Rightarrow> nat" where
  "dynamic_keymap_encoder_to_eeprom_address c layer encoder_id =
     DYNAMIC_KEYMAP_ENCODER_EEPROM_ADDR c + layer * NUM_ENCODERS c * 2 * 2 + encoder_id * 2 * 2"

definition dynamic_keymap_get_encoder :: "dk_config \<Rightarrow> 'e eeprom_api \<Rightarrow> nat \<Rightarrow> nat \<Rightarrow> bool \<Rightarrow> 'e \<Rightarrow> u16 option" where
  "dynamic_keymap_get_encoder c api layer encoder_id clockwise e =
     (if DYNAMIC_KEYMAP_LAYER_COUNT c \<le> layer \<or> NUM_ENCODERS c \<le> encoder_id then Some KC_NO16
      else let address = dynamic_keymap_encoder_to_eeprom_address c layer encoder_id
           in do { hi \<leftarrow> eeprom_read_byte api (address + (if clockwise then 0 else 2)) e;
                   lo \<leftarrow> eeprom_read_byte api (address + (if clockwise then 0 else 2) + 1) e;
                   Some (push_bit 8 (ucast hi) OR ucast lo) })"

definition dynamic_keymap_set_encoder :: "dk_config \<Rightarrow> 'e eeprom_api \<Rightarrow> nat \<Rightarrow> nat \<Rightarrow> bool \<Rightarrow> u16 \<Rightarrow> 'e \<Rightarrow> 'e option" where
  "dynamic_keymap_set_encoder c api layer encoder_id clockwise keycode e =
     (if DYNAMIC_KEYMAP_LAYER_COUNT c \<le> layer \<or> NUM_ENCODERS c \<le> encoder_id then Some e
      else let address = dynamic_keymap_encoder_to_eeprom_address c layer encoder_id
           in do { e \<leftarrow> eeprom_update_byte api (address + (if clockwise then 0 else 2)) (ucast (drop_bit 8 keycode)) e;
                   eeprom_update_byte api (address + (if clockwise then 0 else 2) + 1) (ucast (keycode AND 0xFF)) e })"

text \<open>A loop whose body may access memory outside its bounds.\<close>

definition for_upto_option :: "nat \<Rightarrow> (nat \<Rightarrow> 'e \<Rightarrow> 'e option) \<Rightarrow> 'e \<Rightarrow> 'e option" where
  "for_upto_option n f e = for_upto n (\<lambda>i r. Option.bind r (f i)) (Some e)"

text \<open>The two inner loops of \<^verbatim>\<open>dynamic_keymap_reset\<close>, and the function.\<close>

definition reset_keys :: "dk_config \<Rightarrow> 'e eeprom_api \<Rightarrow> flash_keymap \<Rightarrow> nat \<Rightarrow> 'e \<Rightarrow> 'e option" where
  "reset_keys c api f layer =
     for_upto_option (MATRIX_ROWS c) (\<lambda>row. for_upto_option (MATRIX_COLS c) (\<lambda>column.
       dynamic_keymap_set_keycode c api layer row column (keycode_at_keymap_location_raw c f layer row column)))"

definition reset_encoders :: "dk_config \<Rightarrow> 'e eeprom_api \<Rightarrow> flash_keymap \<Rightarrow> nat \<Rightarrow> 'e \<Rightarrow> 'e option" where
  "reset_encoders c api f layer =
     for_upto_option (NUM_ENCODERS c) (\<lambda>encoder e. do {
       e \<leftarrow> dynamic_keymap_set_encoder c api layer encoder True (keycode_at_encodermap_location_raw c f layer encoder True) e;
       dynamic_keymap_set_encoder c api layer encoder False (keycode_at_encodermap_location_raw c f layer encoder False) e })"

definition dynamic_keymap_reset :: "dk_config \<Rightarrow> 'e eeprom_api \<Rightarrow> flash_keymap \<Rightarrow> 'e \<Rightarrow> 'e option" where
  "dynamic_keymap_reset c api f =
     for_upto_option (DYNAMIC_KEYMAP_LAYER_COUNT c) (\<lambda>layer e. do { e \<leftarrow> reset_keys c api f layer e; reset_encoders c api f layer e })"

text \<open>The loops of the buffer functions: \<open>base\<close> is the start of the area and \<open>limit\<close> its size.\<close>

fun get_buffer_loop :: "'e eeprom_api \<Rightarrow> nat \<Rightarrow> nat \<Rightarrow> nat \<Rightarrow> nat \<Rightarrow> 'e \<Rightarrow> u8 list option" where
  "get_buffer_loop api base limit offset 0 e = Some []"
| "get_buffer_loop api base limit offset (Suc n) e =
     do { v \<leftarrow> (if offset < limit then eeprom_read_byte api (base + offset) e else Some 0);
          vs \<leftarrow> get_buffer_loop api base limit (offset + 1) n e;
          Some (v # vs) }"

fun set_buffer_loop :: "'e eeprom_api \<Rightarrow> nat \<Rightarrow> nat \<Rightarrow> nat \<Rightarrow> u8 list \<Rightarrow> 'e \<Rightarrow> 'e option" where
  "set_buffer_loop api base limit offset [] e = Some e"
| "set_buffer_loop api base limit offset (v # vs) e =
     do { e \<leftarrow> (if offset < limit then eeprom_update_byte api (base + offset) v e else Some e);
          set_buffer_loop api base limit (offset + 1) vs e }"

definition dynamic_keymap_eeprom_size :: "dk_config \<Rightarrow> nat" where
  "dynamic_keymap_eeprom_size c = (DYNAMIC_KEYMAP_LAYER_COUNT c * MATRIX_ROWS c * MATRIX_COLS c * 2) mod 2 ^ 16"

definition dynamic_keymap_get_buffer :: "dk_config \<Rightarrow> 'e eeprom_api \<Rightarrow> nat \<Rightarrow> nat \<Rightarrow> 'e \<Rightarrow> u8 list option" where
  "dynamic_keymap_get_buffer c api offset sz e =
     get_buffer_loop api (DYNAMIC_KEYMAP_EEPROM_ADDR c) (dynamic_keymap_eeprom_size c) offset sz e"

definition dynamic_keymap_set_buffer :: "dk_config \<Rightarrow> 'e eeprom_api \<Rightarrow> nat \<Rightarrow> u8 list \<Rightarrow> 'e \<Rightarrow> 'e option" where
  "dynamic_keymap_set_buffer c api offset data e =
     set_buffer_loop api (DYNAMIC_KEYMAP_EEPROM_ADDR c) (dynamic_keymap_eeprom_size c) offset data e"

definition keycode_at_keymap_location :: "dk_config \<Rightarrow> 'e eeprom_api \<Rightarrow> nat \<Rightarrow> nat \<Rightarrow> nat \<Rightarrow> 'e \<Rightarrow> u16 option" where
  "keycode_at_keymap_location c api layer row column e =
     (if layer < DYNAMIC_KEYMAP_LAYER_COUNT c \<and> row < MATRIX_ROWS c \<and> column < MATRIX_COLS c
      then dynamic_keymap_get_keycode c api layer row column e else Some KC_NO16)"

definition keycode_at_encodermap_location :: "dk_config \<Rightarrow> 'e eeprom_api \<Rightarrow> nat \<Rightarrow> nat \<Rightarrow> bool \<Rightarrow> 'e \<Rightarrow> u16 option" where
  "keycode_at_encodermap_location c api layer encoder clockwise e =
     (if layer < DYNAMIC_KEYMAP_LAYER_COUNT c \<and> encoder < NUM_ENCODERS c
      then dynamic_keymap_get_encoder c api layer encoder clockwise e else Some KC_NO16)"

definition dynamic_keymap_macro_get_buffer :: "dk_config \<Rightarrow> 'e eeprom_api \<Rightarrow> nat \<Rightarrow> nat \<Rightarrow> 'e \<Rightarrow> u8 list option" where
  "dynamic_keymap_macro_get_buffer c api offset sz e =
     get_buffer_loop api (DYNAMIC_KEYMAP_MACRO_EEPROM_ADDR c) (DYNAMIC_KEYMAP_MACRO_EEPROM_SIZE c) offset sz e"

definition dynamic_keymap_macro_set_buffer :: "dk_config \<Rightarrow> 'e eeprom_api \<Rightarrow> nat \<Rightarrow> u8 list \<Rightarrow> 'e \<Rightarrow> 'e option" where
  "dynamic_keymap_macro_set_buffer c api offset data e =
     set_buffer_loop api (DYNAMIC_KEYMAP_MACRO_EEPROM_ADDR c) (DYNAMIC_KEYMAP_MACRO_EEPROM_SIZE c) offset data e"

definition dynamic_keymap_macro_reset :: "dk_config \<Rightarrow> 'e eeprom_api \<Rightarrow> 'e \<Rightarrow> 'e option" where
  "dynamic_keymap_macro_reset c api e =
     for_upto_option (DYNAMIC_KEYMAP_MACRO_EEPROM_SIZE c) (\<lambda>i. eeprom_update_byte api (DYNAMIC_KEYMAP_MACRO_EEPROM_ADDR c + i) 0) e"

subsection \<open>Sending a macro\<close>

abbreviation SS_QMK_PREFIX :: u8 where "SS_QMK_PREFIX \<equiv> 1"
abbreviation SS_TAP_CODE :: u8 where "SS_TAP_CODE \<equiv> 1"
abbreviation SS_DOWN_CODE :: u8 where "SS_DOWN_CODE \<equiv> 2"
abbreviation SS_UP_CODE :: u8 where "SS_UP_CODE \<equiv> 3"
abbreviation SS_DELAY_CODE :: u8 where "SS_DELAY_CODE \<equiv> 4"
abbreviation CHAR_BAR :: u8 where "CHAR_BAR \<equiv> 0x7C"

text \<open>The loop that skips \<open>m\<close> terminators, \<open>n\<close> bytes before the end: where the macro starts, or \<open>None\<close> when the
  end is reached first.\<close>

fun macro_skip :: "'e eeprom_api \<Rightarrow> nat \<Rightarrow> nat \<Rightarrow> nat \<Rightarrow> 'e \<Rightarrow> nat option option" where
  "macro_skip api 0 p n e = Some (Some p)"
| "macro_skip api (Suc m) p 0 e = Some None"
| "macro_skip api (Suc m) p (Suc n) e =
     do { v \<leftarrow> eeprom_read_byte api p e;
          macro_skip api (if v = 0 then m else Suc m) (p + 1) n e }"

text \<open>The loop that reads the digits of a delay, where \<open>k = 6 - i\<close> for the index \<open>i\<close> in \<^verbatim>\<open>data\<close>: the rest of the string and the
  position after it, or \<open>None\<close> when it aborts.\<close>

primrec macro_delay :: "'e eeprom_api \<Rightarrow> nat \<Rightarrow> nat \<Rightarrow> 'e \<Rightarrow> (u8 list \<times> nat) option option" where
  "macro_delay api 0 p e =
     do { v \<leftarrow> eeprom_read_byte api p e; Some (if v = CHAR_BAR then Some ([v], p + 1) else None) }"
| "macro_delay api (Suc k) p e =
     do { v \<leftarrow> eeprom_read_byte api p e;
          if v = 0 then Some None
          else if v = CHAR_BAR then Some (Some ([v], p + 1))
          else do { r \<leftarrow> macro_delay api k (p + 1) e; Some (map_option (\<lambda>(vs, q). (v # vs, q)) r) } }"

text \<open>One iteration of the sending loop: the string it sends and the next position, or \<open>None\<close> when it stops.\<close>

definition macro_next :: "'e eeprom_api \<Rightarrow> nat \<Rightarrow> 'e \<Rightarrow> (u8 list \<times> nat) option option" where
  "macro_next api p e =
     do { d0 \<leftarrow> eeprom_read_byte api p e;
          if d0 = 0 then Some None
          else if d0 = SS_QMK_PREFIX then do {
            d1 \<leftarrow> eeprom_read_byte api (p + 1) e;
            if d1 = 0 then Some None
            else if d1 = SS_TAP_CODE \<or> d1 = SS_DOWN_CODE \<or> d1 = SS_UP_CODE then do {
              d2 \<leftarrow> eeprom_read_byte api (p + 2) e;
              Some (if d2 = 0 then None else Some ([d0, d1, d2], p + 3)) }
            else if d1 = SS_DELAY_CODE then do {
              r \<leftarrow> macro_delay api 4 (p + 2) e;
              Some (map_option (\<lambda>(vs, q). (d0 # d1 # vs, q)) r) }
            else Some (Some ([d0, d1], p + 2)) }
          else Some (Some ([d0], p + 1)) }"

text \<open>The strings passed to \<^verbatim>\<open>send_string_with_delay\<close>, in order.\<close>

partial_function (option) macro_send_loop :: "'e eeprom_api \<Rightarrow> nat \<Rightarrow> 'e \<Rightarrow> u8 list list option" where
  "macro_send_loop api p e =
     do { r \<leftarrow> macro_next api p e;
          case r of
            None \<Rightarrow> Some []
          | Some (data, p) \<Rightarrow> do { rest \<leftarrow> macro_send_loop api p e; Some (data # rest) } }"

definition dynamic_keymap_macro_send :: "dk_config \<Rightarrow> 'e eeprom_api \<Rightarrow> nat \<Rightarrow> 'e \<Rightarrow> u8 list list option" where
  "dynamic_keymap_macro_send c api macro_id e =
     (if DYNAMIC_KEYMAP_MACRO_COUNT c \<le> macro_id then Some []
      else do {
        v \<leftarrow> eeprom_read_byte api (DYNAMIC_KEYMAP_MACRO_EEPROM_ADDR c + DYNAMIC_KEYMAP_MACRO_EEPROM_SIZE c - 1) e;
        if v \<noteq> 0 then Some []
        else do {
          p \<leftarrow> macro_skip api macro_id (DYNAMIC_KEYMAP_MACRO_EEPROM_ADDR c) (DYNAMIC_KEYMAP_MACRO_EEPROM_SIZE c) e;
          case p of None \<Rightarrow> Some [] | Some p \<Rightarrow> macro_send_loop api p e } })"

section \<open>Slots\<close>

text \<open>A keycode of the matrix or of an encoder, and where it is stored.\<close>

datatype dk_slot = Key_slot nat nat nat | Encoder_slot nat nat bool

fun valid_slot :: "dk_config \<Rightarrow> dk_slot \<Rightarrow> bool" where
  "valid_slot c (Key_slot l r k) \<longleftrightarrow> l < DYNAMIC_KEYMAP_LAYER_COUNT c \<and> r < MATRIX_ROWS c \<and> k < MATRIX_COLS c"
| "valid_slot c (Encoder_slot l i cw) \<longleftrightarrow> l < DYNAMIC_KEYMAP_LAYER_COUNT c \<and> i < NUM_ENCODERS c"

fun slot_index :: "dk_config \<Rightarrow> dk_slot \<Rightarrow> nat" where
  "slot_index c (Key_slot l r k) = (l * MATRIX_ROWS c + r) * MATRIX_COLS c + k"
| "slot_index c (Encoder_slot l i cw) =
     DYNAMIC_KEYMAP_LAYER_COUNT c * MATRIX_ROWS c * MATRIX_COLS c + ((l * NUM_ENCODERS c + i) * 2 + (if cw then 0 else 1))"

definition slot_addr :: "dk_config \<Rightarrow> dk_slot \<Rightarrow> nat" where
  "slot_addr c s = DYNAMIC_KEYMAP_EEPROM_ADDR c + slot_index c s * 2"

fun get_slot :: "dk_config \<Rightarrow> 'e eeprom_api \<Rightarrow> dk_slot \<Rightarrow> 'e \<Rightarrow> u16 option" where
  "get_slot c api (Key_slot l r k) e = dynamic_keymap_get_keycode c api l r k e"
| "get_slot c api (Encoder_slot l i cw) e = dynamic_keymap_get_encoder c api l i cw e"

fun set_slot :: "dk_config \<Rightarrow> 'e eeprom_api \<Rightarrow> dk_slot \<Rightarrow> u16 \<Rightarrow> 'e \<Rightarrow> 'e option" where
  "set_slot c api (Key_slot l r k) v e = dynamic_keymap_set_keycode c api l r k v e"
| "set_slot c api (Encoder_slot l i cw) v e = dynamic_keymap_set_encoder c api l i cw v e"

lemma key_index_less:
  assumes "valid_slot c (Key_slot l r k)"
  shows "slot_index c (Key_slot l r k) < DYNAMIC_KEYMAP_LAYER_COUNT c * MATRIX_ROWS c * MATRIX_COLS c"
proof -
  have "l * MATRIX_ROWS c + r < DYNAMIC_KEYMAP_LAYER_COUNT c * MATRIX_ROWS c"
    using assms by (intro cell_index_less) simp_all
  then show ?thesis
    using assms by (simp add: cell_index_less)
qed

lemma double_less: "x < n \<Longrightarrow> x * 2 + (if b then 0 else 1) < n * (2 :: nat)"
  by simp

lemma slot_index_less:
  assumes "valid_slot c s"
  shows "slot_index c s < DYNAMIC_KEYMAP_LAYER_COUNT c * MATRIX_ROWS c * MATRIX_COLS c + DYNAMIC_KEYMAP_LAYER_COUNT c * NUM_ENCODERS c * 2"
proof (cases s)
  case (Key_slot l r k)
  then show ?thesis
    using key_index_less [of c l r k] assms by simp
next
  case (Encoder_slot l i cw)
  then have "l * NUM_ENCODERS c + i < DYNAMIC_KEYMAP_LAYER_COUNT c * NUM_ENCODERS c"
    using assms by (intro cell_index_less) simp_all
  then have "(l * NUM_ENCODERS c + i) * 2 + (if cw then 0 else 1) < DYNAMIC_KEYMAP_LAYER_COUNT c * NUM_ENCODERS c * 2"
    by (rule double_less)
  then show ?thesis
    using Encoder_slot by simp
qed

lemma slot_index_inj:
  assumes "valid_slot c s" and "valid_slot c s'"
  shows "slot_index c s = slot_index c s' \<longleftrightarrow> s = s'"
proof (cases s; cases s')
  fix l r k l' r' k'
  assume "s = Key_slot l r k" and "s' = Key_slot l' r' k'"
  then show ?thesis
    using assms by (auto simp: cell_index_inj)
next
  fix l r k l' i' cw'
  assume "s = Key_slot l r k" and "s' = Encoder_slot l' i' cw'"
  then show ?thesis
    using key_index_less [of c l r k] assms by auto
next
  fix l i cw l' r' k'
  assume "s = Encoder_slot l i cw" and "s' = Key_slot l' r' k'"
  then show ?thesis
    using key_index_less [of c l' r' k'] assms by auto
next
  fix l i cw l' i' cw'
  assume e: "s = Encoder_slot l i cw" "s' = Encoder_slot l' i' cw'"
  have "(l * NUM_ENCODERS c + i) * 2 + (if cw then 0 else 1) = (l' * NUM_ENCODERS c + i') * 2 + (if cw' then 0 else 1) \<longleftrightarrow>
      l * NUM_ENCODERS c + i = l' * NUM_ENCODERS c + i' \<and> cw = cw'"
    by (subst cell_index_inj) auto
  then show ?thesis
    using assms e by (auto simp: cell_index_inj)
qed

section \<open>Macros as strings\<close>

text \<open>The next string that a macro sends and the rest of the macro; \<open>None\<close> at its end or when it is cut short.\<close>

definition next_token :: "u8 list \<Rightarrow> (u8 list \<times> u8 list) option" where
  "next_token m =
     (case m of
        [] \<Rightarrow> None
      | d0 # r \<Rightarrow>
          if d0 \<noteq> SS_QMK_PREFIX then Some ([d0], r)
          else case r of
              [] \<Rightarrow> None
            | d1 # t \<Rightarrow>
                if d1 = SS_TAP_CODE \<or> d1 = SS_DOWN_CODE \<or> d1 = SS_UP_CODE then
                  (case t of [] \<Rightarrow> None | d2 # u \<Rightarrow> Some ([d0, d1, d2], u))
                else if d1 = SS_DELAY_CODE then
                  let pre = takeWhile (\<lambda>b. b \<noteq> CHAR_BAR) t
                  in if length pre \<le> 4 \<and> length pre < length t then Some (d0 # d1 # pre @ [CHAR_BAR], drop (length pre + 1) t) else None
                else Some ([d0, d1], t))"

lemma takeWhile_split: "length (takeWhile P t) < length t \<Longrightarrow> t = takeWhile P t @ t ! length (takeWhile P t) # drop (length (takeWhile P t) + 1) t"
  by (metis Suc_eq_plus1 append_take_drop_id Cons_nth_drop_Suc takeWhile_eq_take)

lemma next_token_split: "next_token m = Some (d, rest) \<Longrightarrow> m = d @ rest"
  using takeWhile_split [of "\<lambda>b. b \<noteq> CHAR_BAR" "tl (tl m)"] nth_length_takeWhile [of "\<lambda>b. b \<noteq> CHAR_BAR" "tl (tl m)"]
  by (auto simp: next_token_def Let_def split: list.splits if_splits)

lemma next_token_shorter: "next_token m = Some (d, rest) \<Longrightarrow> length rest < length m"
  by (auto simp: next_token_def Let_def split: list.splits if_splits)

function macro_tokens :: "u8 list \<Rightarrow> u8 list list" where
  "macro_tokens m = (case next_token m of None \<Rightarrow> [] | Some (d, rest) \<Rightarrow> d # macro_tokens rest)"
  by auto
termination
  by (relation "measure length") (auto dest: next_token_shorter)

declare macro_tokens.simps [simp del]

text \<open>The macro buffer that holds the macros \<open>ms\<close>.\<close>

definition macro_image :: "u8 list list \<Rightarrow> u8 list" where
  "macro_image ms = concat (map (\<lambda>m. m @ [0]) ms)"

lemma last_macro_image: "macro_image ms \<noteq> [] \<Longrightarrow> last (macro_image ms) = 0"
  by (induction ms) (auto simp: macro_image_def)

section \<open>The keymap on a lawful EEPROM\<close>

definition be_at :: "nat \<Rightarrow> u8 list \<Rightarrow> u16" where
  "be_at a m = push_bit 8 (ucast (m ! a)) OR ucast (m ! (a + 1))"

lemma and_0xFF: "v AND 0xFF = take_bit 8 (v :: u16)"
  by (simp add: take_bit_eq_mask mask_eq_exp_minus_1)

lemma be_at_put: "a + 1 < length m \<Longrightarrow> be_at a (m[a := ucast (drop_bit 8 v), a + 1 := ucast (v AND 0xFF)]) = v"
proof -
  assume "a + 1 < length m"
  then have "be_at a (m[a := ucast (drop_bit 8 v), a + 1 := ucast (v AND 0xFF)]) =
      push_bit 8 (ucast (ucast (drop_bit 8 v) :: u8)) OR ucast (ucast (v AND 0xFF) :: u8)"
    by (simp add: be_at_def nth_list_update)
  also have "\<dots> = push_bit 8 (ucast (ucast (drop_bit 8 v) :: u8)) OR ucast (ucast (take_bit 8 v) :: u8)"
    by (simp only: and_0xFF)
  also have "\<dots> = v"
  proof (rule bit_word_eqI)
    fix n
    assume "n < LENGTH(16)"
    then consider "n < 8" | "8 \<le> n" "n < 16"
      by fastforce
    then show "bit (push_bit 8 (ucast (ucast (drop_bit 8 v) :: u8)) OR ucast (ucast (take_bit 8 v) :: u8) :: u16) n = bit v n"
      by cases (auto simp: bit_simps)
  qed
  finally show ?thesis .
qed

lemma be_at_bytes: "be_at a m = v \<Longrightarrow> m ! a = ucast (drop_bit 8 v) \<and> m ! (a + 1) = ucast v"
  by (auto simp: be_at_def bit_simps intro!: bit_word_eqI)

lemma for_upto_option_rule:
  assumes "P 0 e" and "\<And>i e. i < n \<Longrightarrow> P i e \<Longrightarrow> \<exists>e'. f i e = Some e' \<and> P (Suc i) e'"
  shows "\<exists>e'. for_upto_option n f e = Some e' \<and> P n e'"
  unfolding for_upto_option_def
  by (rule for_upto_invariant [where P = "\<lambda>i r. \<exists>e'. r = Some e' \<and> P i e'"]) (use assms in fastforce)+

lemma for_upto_option_sets:
  assumes "Q S e" and "\<And>i S e. i < n \<Longrightarrow> Q S e \<Longrightarrow> \<exists>e'. f i e = Some e' \<and> Q (S \<union> A i) e'"
  shows "\<exists>e'. for_upto_option n f e = Some e' \<and> Q (S \<union> (\<Union>i<n. A i)) e'"
proof (rule for_upto_option_rule [where P = "\<lambda>i e. Q (S \<union> (\<Union>j<i. A j)) e"])
  show "Q (S \<union> (\<Union>j<0. A j)) e"
    using assms(1) by simp
next
  fix i e
  assume "i < n" and "Q (S \<union> (\<Union>j<i. A j)) e"
  moreover have "S \<union> (\<Union>j<i. A j) \<union> A i = S \<union> (\<Union>j<Suc i. A j)"
    by (auto simp: lessThan_Suc)
  ultimately show "\<exists>e'. f i e = Some e' \<and> Q (S \<union> (\<Union>j<Suc i. A j)) e'"
    using assms(2) by metis
qed

lemma key_slot_addr: "dynamic_keymap_key_to_eeprom_address c l r k = slot_addr c (Key_slot l r k)"
  by (simp add: dynamic_keymap_key_to_eeprom_address_def slot_addr_def algebra_simps)

lemma encoder_slot_addr:
  "dynamic_keymap_encoder_to_eeprom_address c l i + (if cw then 0 else 2) = slot_addr c (Encoder_slot l i cw)"
  by (simp add: dynamic_keymap_encoder_to_eeprom_address_def slot_addr_def DYNAMIC_KEYMAP_ENCODER_EEPROM_ADDR_def algebra_simps)

lemmas slot_defs =
  dynamic_keymap_get_keycode_def dynamic_keymap_get_encoder_def dynamic_keymap_set_keycode_def dynamic_keymap_set_encoder_def
  key_slot_addr encoder_slot_addr Let_def

locale keymap_eeprom = eeprom_laws +
  fixes c :: dk_config
  assumes asserts: "dk_static_asserts size c"
begin

abbreviation macro_base :: nat where
  "macro_base \<equiv> DYNAMIC_KEYMAP_MACRO_EEPROM_ADDR c"

abbreviation macro_size :: nat where
  "macro_size \<equiv> DYNAMIC_KEYMAP_MACRO_EEPROM_SIZE c"

lemma macro_end: "macro_base + macro_size \<le> size" "100 < macro_size"
  using asserts by (auto simp: dk_static_asserts_def DYNAMIC_KEYMAP_MACRO_EEPROM_SIZE_def)

lemma slot_addr_less: "valid_slot c s \<Longrightarrow> slot_addr c s + 1 < macro_base"
  using slot_index_less [of c s]
  by (simp add: slot_addr_def DYNAMIC_KEYMAP_MACRO_EEPROM_ADDR_def DYNAMIC_KEYMAP_ENCODER_EEPROM_ADDR_def)

lemma in_range: "a < size \<Longrightarrow> a < 2 ^ 32 - 1"
  using size_bound by simp

lemma read_in: "ok e \<Longrightarrow> a < size \<Longrightarrow> eeprom_read_byte api a e = Some (mem e ! a)"
  using read_byte [of e a] in_range by simp

lemma slot_range:
  assumes "valid_slot c s"
  shows "slot_addr c s < size" "slot_addr c s + 1 < size"
  using slot_addr_less [OF assms] macro_end by simp_all

lemma get_slot_spec:
  assumes "ok e" and "valid_slot c s"
  shows "get_slot c api s e = Some (be_at (slot_addr c s) (mem e))"
proof -
  have a: "eeprom_read_byte api (slot_addr c s) e = Some (mem e ! slot_addr c s)"
    "eeprom_read_byte api (slot_addr c s + 1) e = Some (mem e ! (slot_addr c s + 1))"
    using read_in assms(1) slot_range [OF assms(2)] by blast+
  show ?thesis
    using a assms(2)
    by (cases s) (simp_all add: slot_defs be_at_def del: slot_index.simps)
qed

lemma update_in:
  assumes "ok e" and "a < size"
  shows "\<exists>e'. eeprom_update_byte api a v e = Some e' \<and> ok e' \<and> mem e' = (mem e)[a := v]"
  using update_byte [OF assms(1) in_range [OF assms(2)]] assms(2) by simp

lemma set_slot_spec:
  assumes "ok e" and "valid_slot c s"
  shows "\<exists>e'. set_slot c api s v e = Some e' \<and> ok e' \<and>
    mem e' = (mem e)[slot_addr c s := ucast (drop_bit 8 v), slot_addr c s + 1 := ucast (v AND 0xFF)]"
proof -
  obtain e1 where e1: "eeprom_update_byte api (slot_addr c s) (ucast (drop_bit 8 v)) e = Some e1" "ok e1"
      "mem e1 = (mem e)[slot_addr c s := ucast (drop_bit 8 v)]"
    using update_in [OF assms(1) slot_range(1) [OF assms(2)]] by blast
  obtain e2 where "eeprom_update_byte api (slot_addr c s + 1) (ucast (v AND 0xFF)) e1 = Some e2" "ok e2"
      "mem e2 = (mem e1)[slot_addr c s + 1 := ucast (v AND 0xFF)]"
    using update_in [OF e1(2) slot_range(2) [OF assms(2)]] by blast
  with e1 assms(2) show ?thesis
    by (cases s) (simp_all add: slot_defs del: slot_index.simps)
qed

lemma be_at_other:
  assumes "valid_slot c s" and "valid_slot c s'" and "s' \<noteq> s"
  shows "be_at (slot_addr c s') (m[slot_addr c s := x, slot_addr c s + 1 := y]) = be_at (slot_addr c s') m"
proof -
  have "slot_index c s' \<noteq> slot_index c s"
    using assms by (simp add: slot_index_inj)
  then have "slot_addr c s' + 1 < slot_addr c s \<or> slot_addr c s + 1 < slot_addr c s'"
    unfolding slot_addr_def by linarith
  then show ?thesis
    by (auto simp: be_at_def)
qed

text \<open>The keycodes as a map: setting one changes it and no other, and nothing outside the slots.\<close>

lemma set_slot_get:
  assumes "ok e" and "valid_slot c s"
  shows "\<exists>e'. set_slot c api s v e = Some e' \<and> ok e' \<and>
    (\<forall>s'. valid_slot c s' \<longrightarrow> get_slot c api s' e' = (if s' = s then Some v else get_slot c api s' e)) \<and>
    (\<forall>a \<ge> macro_base. mem e' ! a = mem e ! a)"
proof -
  obtain e' where e': "set_slot c api s v e = Some e'" "ok e'"
      "mem e' = (mem e)[slot_addr c s := ucast (drop_bit 8 v), slot_addr c s + 1 := ucast (v AND 0xFF)]"
    using set_slot_spec [OF assms] by blast
  have "be_at (slot_addr c s) (mem e') = v"
    unfolding e'(3) using slot_range(2) [OF assms(2)] length_mem [OF assms(1)] by (intro be_at_put) simp
  then have "get_slot c api s' e' = (if s' = s then Some v else get_slot c api s' e)" if "valid_slot c s'" for s'
    using that get_slot_spec [OF e'(2) that] get_slot_spec [OF assms(1) that] be_at_other [OF assms(2) that] e'(3) by auto
  moreover have "mem e' ! a = mem e ! a" if "macro_base \<le> a" for a
    using slot_addr_less [OF assms(2)] that e'(3) by simp
  ultimately show ?thesis
    using e' by blast
qed

section \<open>Reset\<close>

fun flash_slot :: "flash_keymap \<Rightarrow> dk_slot \<Rightarrow> u16" where
  "flash_slot f (Key_slot l r k) = keycode_at_keymap_location_raw c f l r k"
| "flash_slot f (Encoder_slot l i cw) = keycode_at_encodermap_location_raw c f l i cw"

definition resetting :: "flash_keymap \<Rightarrow> u8 list \<Rightarrow> dk_slot set \<Rightarrow> 'a \<Rightarrow> bool" where
  "resetting f m S e \<longleftrightarrow> ok e \<and> (\<forall>a \<ge> macro_base. mem e ! a = m ! a) \<and> (\<forall>s\<in>S. valid_slot c s \<and> get_slot c api s e = Some (flash_slot f s))"

lemma resetting_step:
  assumes "resetting f m S e" and "valid_slot c s" and "v = flash_slot f s"
  shows "\<exists>e'. set_slot c api s v e = Some e' \<and> resetting f m (insert s S) e'"
proof -
  obtain e' where "set_slot c api s v e = Some e'" "ok e'"
    "\<forall>s'. valid_slot c s' \<longrightarrow> get_slot c api s' e' = (if s' = s then Some v else get_slot c api s' e)"
    "\<forall>a \<ge> macro_base. mem e' ! a = mem e ! a"
    using set_slot_get [OF _ assms(2), of e v] assms(1) by (auto simp: resetting_def)
  with assms show ?thesis
    by (auto simp: resetting_def)
qed

definition layer_keys :: "nat \<Rightarrow> dk_slot set" where
  "layer_keys l = (\<Union>r<MATRIX_ROWS c. \<Union>k<MATRIX_COLS c. {Key_slot l r k})"

definition layer_encoders :: "nat \<Rightarrow> dk_slot set" where
  "layer_encoders l = (\<Union>i<NUM_ENCODERS c. {Encoder_slot l i True, Encoder_slot l i False})"

lemma reset_keys_spec:
  assumes lt: "l < DYNAMIC_KEYMAP_LAYER_COUNT c" and Q: "resetting f m S e"
  shows "\<exists>e'. reset_keys c api f l e = Some e' \<and> resetting f m (S \<union> layer_keys l) e'"
  unfolding reset_keys_def layer_keys_def
proof (rule for_upto_option_sets [where Q = "resetting f m", OF Q]; rule for_upto_option_sets [where Q = "resetting f m"])
  fix r S e k S' e'
  assume "r < MATRIX_ROWS c" "k < MATRIX_COLS c" "resetting f m S' e'"
  then show "\<exists>e''. dynamic_keymap_set_keycode c api l r k (keycode_at_keymap_location_raw c f l r k) e' = Some e'' \<and>
      resetting f m (S' \<union> {Key_slot l r k}) e''"
    using resetting_step [of f m S' e' "Key_slot l r k"] lt by simp
qed

lemma reset_encoders_spec:
  assumes lt: "l < DYNAMIC_KEYMAP_LAYER_COUNT c" and Q: "resetting f m S e"
  shows "\<exists>e'. reset_encoders c api f l e = Some e' \<and> resetting f m (S \<union> layer_encoders l) e'"
  unfolding reset_encoders_def layer_encoders_def
proof (rule for_upto_option_sets [where Q = "resetting f m", OF Q])
  fix i S e
  assume i: "i < NUM_ENCODERS c" "resetting f m S e"
  let ?set = "\<lambda>cw. dynamic_keymap_set_encoder c api l i cw (keycode_at_encodermap_location_raw c f l i cw)"
  obtain e1 where e1: "?set True e = Some e1" "resetting f m (insert (Encoder_slot l i True) S) e1"
    using resetting_step [OF i(2) _ refl, of "Encoder_slot l i True"] lt i(1) by auto
  obtain e2 where e2: "?set False e1 = Some e2" "resetting f m (insert (Encoder_slot l i False) (insert (Encoder_slot l i True) S)) e2"
    using resetting_step [OF e1(2) _ refl, of "Encoder_slot l i False"] lt i(1) by auto
  show "\<exists>e'. Option.bind (?set True e) (?set False) = Some e' \<and> resetting f m (S \<union> {Encoder_slot l i True, Encoder_slot l i False}) e'"
    using e1 e2 by (simp add: insert_commute)
qed

lemma reset_spec:
  assumes "ok e"
  shows "\<exists>e'. dynamic_keymap_reset c api f e = Some e' \<and> ok e' \<and> (\<forall>s. valid_slot c s \<longrightarrow> get_slot c api s e' = Some (flash_slot f s)) \<and>
    (\<forall>a \<ge> macro_base. mem e' ! a = mem e ! a)"
proof -
  let ?S = "\<Union>l<DYNAMIC_KEYMAP_LAYER_COUNT c. layer_keys l \<union> layer_encoders l"
  have "\<exists>e'. dynamic_keymap_reset c api f e = Some e' \<and> resetting f (mem e) ({} \<union> ?S) e'"
    unfolding dynamic_keymap_reset_def
  proof (rule for_upto_option_sets [where Q = "resetting f (mem e)"])
    show "resetting f (mem e) {} e"
      using assms by (simp add: resetting_def)
  next
    fix l S e1
    assume l: "l < DYNAMIC_KEYMAP_LAYER_COUNT c" "resetting f (mem e) S e1"
    then obtain e2 where e2: "reset_keys c api f l e1 = Some e2" "resetting f (mem e) (S \<union> layer_keys l) e2"
      using reset_keys_spec by blast
    then obtain e3 where "reset_encoders c api f l e2 = Some e3" "resetting f (mem e) (S \<union> layer_keys l \<union> layer_encoders l) e3"
      using reset_encoders_spec l(1) by blast
    with e2 show "\<exists>e'. do { e \<leftarrow> reset_keys c api f l e1; reset_encoders c api f l e } = Some e' \<and>
        resetting f (mem e) (S \<union> (layer_keys l \<union> layer_encoders l)) e'"
      by (simp add: Un_assoc)
  qed
  then obtain e' where e': "dynamic_keymap_reset c api f e = Some e'" "resetting f (mem e) ?S e'"
    by auto
  have "s \<in> ?S" if "valid_slot c s" for s
    using that by (cases s) (auto simp: layer_keys_def layer_encoders_def)
  then have "\<forall>s. valid_slot c s \<longrightarrow> get_slot c api s e' = Some (flash_slot f s)"
    using e'(2) unfolding resetting_def by metis
  with e' show ?thesis
    by (simp add: resetting_def)
qed

section \<open>Buffers\<close>

lemma get_buffer_spec:
  assumes "ok e" and "base + limit \<le> size"
  shows "get_buffer_loop api base limit offset n e = Some (map (\<lambda>i. if i < limit then mem e ! (base + i) else 0) [offset..<offset + n])"
  by (induction n arbitrary: offset) (use assms in \<open>simp_all add: read_in upt_conv_Cons del: upt_Suc\<close>)

lemma macro_get_buffer_cong:
  assumes "ok e" and "ok e'" and "\<forall>a \<ge> macro_base. mem e' ! a = mem e ! a"
  shows "dynamic_keymap_macro_get_buffer c api offset n e' = dynamic_keymap_macro_get_buffer c api offset n e"
  using assms by (simp add: dynamic_keymap_macro_get_buffer_def get_buffer_spec macro_end)

lemma keycode_buffer:
  assumes "ok e" and "valid_slot c (Key_slot l r k)" and "get_slot c api (Key_slot l r k) e = Some v"
  shows "dynamic_keymap_get_buffer c api (((l * MATRIX_ROWS c + r) * MATRIX_COLS c + k) * 2) 2 e = Some [ucast (drop_bit 8 v), ucast v]"
proof -
  let ?i = "slot_index c (Key_slot l r k)"
  let ?n = "DYNAMIC_KEYMAP_LAYER_COUNT c * MATRIX_ROWS c * MATRIX_COLS c"
  have "?n * 2 < 65536"
    using asserts unfolding dk_static_asserts_def DYNAMIC_KEYMAP_MACRO_EEPROM_ADDR_def DYNAMIC_KEYMAP_ENCODER_EEPROM_ADDR_def
    by linarith
  then have limit: "dynamic_keymap_eeprom_size c = ?n * 2"
    by (simp add: dynamic_keymap_eeprom_size_def)
  have i: "?i < ?n"
    using assms(2) by (rule key_index_less)
  have base: "DYNAMIC_KEYMAP_EEPROM_ADDR c + ?n * 2 \<le> size"
    using macro_end(1) by (simp add: DYNAMIC_KEYMAP_MACRO_EEPROM_ADDR_def DYNAMIC_KEYMAP_ENCODER_EEPROM_ADDR_def)
  have "be_at (DYNAMIC_KEYMAP_EEPROM_ADDR c + ?i * 2) (mem e) = v"
    using get_slot_spec [OF assms(1,2)] assms(3) by (simp add: slot_addr_def)
  then have "mem e ! (DYNAMIC_KEYMAP_EEPROM_ADDR c + ?i * 2) = ucast (drop_bit 8 v) \<and> mem e ! (DYNAMIC_KEYMAP_EEPROM_ADDR c + ?i * 2 + 1) = ucast v"
    by (rule be_at_bytes)
  moreover have "dynamic_keymap_get_buffer c api (?i * 2) 2 e =
      Some [mem e ! (DYNAMIC_KEYMAP_EEPROM_ADDR c + ?i * 2), mem e ! (DYNAMIC_KEYMAP_EEPROM_ADDR c + ?i * 2 + 1)]"
    unfolding dynamic_keymap_get_buffer_def limit get_buffer_spec [OF assms(1) base] using i by (simp add: numeral_2_eq_2)
  ultimately show ?thesis
    by simp
qed

lemma set_buffer_spec:
  assumes "ok e" and "base + limit \<le> size"
  shows "\<exists>e'. set_buffer_loop api base limit offset vs e = Some e' \<and> ok e' \<and>
    (\<forall>a < size. mem e' ! a = (if base + offset \<le> a \<and> a < base + offset + length vs \<and> a < base + limit then vs ! (a - base - offset) else mem e ! a))"
  using assms(1)
proof (induction vs arbitrary: offset e)
  case Nil
  then show ?case
    by auto
next
  case (Cons v vs)
  have "\<exists>e1. (if offset < limit then eeprom_update_byte api (base + offset) v e else Some e) = Some e1 \<and> ok e1 \<and>
      mem e1 = (if offset < limit then (mem e)[base + offset := v] else mem e)"
    using update_in [OF Cons.prems, of "base + offset"] Cons.prems assms(2) by simp
  then obtain e1 where e1: "(if offset < limit then eeprom_update_byte api (base + offset) v e else Some e) = Some e1" "ok e1"
      "mem e1 = (if offset < limit then (mem e)[base + offset := v] else mem e)"
    by blast
  obtain e2 where e2: "set_buffer_loop api base limit (offset + 1) vs e1 = Some e2" "ok e2"
      "\<forall>a < size. mem e2 ! a = (if base + (offset + 1) \<le> a \<and> a < base + (offset + 1) + length vs \<and> a < base + limit
         then vs ! (a - base - (offset + 1)) else mem e1 ! a)"
    using Cons.IH [OF e1(2), of "offset + 1"] by blast
  have "mem e2 ! a = (if base + offset \<le> a \<and> a < base + offset + length (v # vs) \<and> a < base + limit then (v # vs) ! (a - base - offset) else mem e ! a)"
    if "a < size" for a
  proof (cases "a = base + offset")
    case True
    then show ?thesis
      using e1(3) e2(3) that length_mem [OF Cons.prems] by simp
  next
    case False
    then have "mem e1 ! a = mem e ! a"
      using e1(3) by simp
    moreover from False have "base + (offset + 1) \<le> a \<longleftrightarrow> base + offset \<le> a"
      by auto
    moreover have "(v # vs) ! (a - base - offset) = vs ! (a - base - (offset + 1))" if "base + offset \<le> a"
      using that False by (simp add: nth_Cons')
    ultimately show ?thesis
      using e2(3) that by auto
  qed
  with e1 e2 show ?case
    by (simp only: set_buffer_loop.simps) auto
qed

section \<open>Macros\<close>

text \<open>What the EEPROM reads at an address, 0 behind its end; \<open>at_pos e p bs\<close>: the bytes \<open>bs\<close> are read from \<open>p\<close> on.\<close>

definition byte_at :: "'a \<Rightarrow> nat \<Rightarrow> u8" where
  "byte_at e a = (if a < size then mem e ! a else 0)"

primrec at_pos :: "'a \<Rightarrow> nat \<Rightarrow> u8 list \<Rightarrow> bool" where
  "at_pos e p [] \<longleftrightarrow> p < 2 ^ 31"
| "at_pos e p (b # bs) \<longleftrightarrow> byte_at e p = b \<and> at_pos e (p + 1) bs"

lemma at_pos_bound: "at_pos e p bs \<Longrightarrow> p + length bs < 2 ^ 31"
  by (induction bs arbitrary: p) fastforce+

lemma at_pos_append: "at_pos e p (as @ bs) \<Longrightarrow> at_pos e (p + length as) bs"
  by (induction as arbitrary: p) fastforce+

lemma at_pos_prefix: "at_pos e p (as @ bs) \<Longrightarrow> at_pos e p as"
  by (induction as arbitrary: p) (auto dest: at_pos_bound)

lemma at_pos_nth: "p + length bs < 2 ^ 31 \<Longrightarrow> (\<And>i. i < length bs \<Longrightarrow> byte_at e (p + i) = bs ! i) \<Longrightarrow> at_pos e p bs"
proof (induction bs arbitrary: p)
  case (Cons b bs)
  show ?case
    using Cons.prems(2) [of 0] Cons.prems(2) [of "Suc i" for i] Cons.prems(1) by (auto intro!: Cons.IH)
qed simp

lemma read_byte_at: "ok e \<Longrightarrow> p < 2 ^ 31 \<Longrightarrow> eeprom_read_byte api p e = Some (byte_at e p)"
  using read_byte [of e p] by (simp add: byte_at_def)

lemma read_at:
  assumes "ok e" and "at_pos e p (b # bs)"
  shows "eeprom_read_byte api p e = Some b"
  using read_byte_at [OF assms(1), of p] at_pos_bound [OF assms(2)] assms(2) by simp

lemma read_at_end:
  assumes "ok e" and "at_pos e p (bs @ [x])"
  shows "eeprom_read_byte api p e = Some (case bs of [] \<Rightarrow> x | b # bs \<Rightarrow> b)"
  using read_byte_at [OF assms(1), of p] at_pos_bound [OF assms(2)] assms(2) by (cases bs) simp_all

lemma macro_delay_spec:
  assumes "ok e" and "at_pos e p (r @ [0])" and "0 \<notin> set r" and "pre = takeWhile (\<lambda>b. b \<noteq> CHAR_BAR) r"
  shows "macro_delay api k p e = Some (if length pre \<le> k \<and> length pre < length r then Some (pre @ [CHAR_BAR], p + length pre + 1) else None)"
  using assms(2-)
proof (induction k arbitrary: p r pre)
  case 0
  then show ?case
    using read_at_end [OF assms(1) 0(1)] by (cases r) auto
next
  case (Suc k)
  show ?case
  proof (cases r)
    case Nil
    then show ?thesis
      using read_at_end [OF assms(1) Suc.prems(1)] Suc.prems(3) by simp
  next
    case (Cons b r')
    let ?pre = "takeWhile (\<lambda>b. b \<noteq> CHAR_BAR) r'"
    have "macro_delay api k (p + 1) e =
        Some (if length ?pre \<le> k \<and> length ?pre < length r' then Some (?pre @ [CHAR_BAR], p + 1 + length ?pre + 1) else None)"
      using Suc.prems Cons by (intro Suc.IH) auto
    then show ?thesis
      using Cons Suc.prems read_at_end [OF assms(1) Suc.prems(1)] by auto
  qed
qed

lemma macro_next_spec:
  assumes "ok e" and "at_pos e p (m @ [0])" and "0 \<notin> set m"
  shows "macro_next api p e = Some (map_option (\<lambda>(d, rest). (d, p + length d)) (next_token m))"
proof (cases m)
  case Nil
  then show ?thesis
    using read_at_end [OF assms(1,2)] by (simp add: macro_next_def next_token_def)
next
  case m: (Cons d0 r)
  then have r0: "eeprom_read_byte api p e = Some d0" and p1: "at_pos e (p + 1) (r @ [0])"
    using assms by (auto simp: read_at)
  show ?thesis
  proof (cases r)
    case Nil
    then show ?thesis
      using m r0 read_at_end [OF assms(1) p1] assms(3) by (auto simp: macro_next_def next_token_def)
  next
    case r: (Cons d1 t)
    then have r1: "eeprom_read_byte api (p + 1) e = Some d1" and p2: "at_pos e (p + 2) (t @ [0])"
      using assms(1) p1 by (auto simp: read_at)
    have "eeprom_read_byte api (p + 2) e = Some (case t of [] \<Rightarrow> 0 | b # bs \<Rightarrow> b)"
      using read_at_end [OF assms(1) p2] .
    with macro_delay_spec [OF assms(1) p2 _ refl, of 4] show ?thesis
      using m r r0 r1 assms(3) by (auto simp: macro_next_def next_token_def Let_def split: list.splits)
  qed
qed

lemma macro_send_loop_spec:
  "ok e \<Longrightarrow> at_pos e p (m @ [0]) \<Longrightarrow> 0 \<notin> set m \<Longrightarrow> macro_send_loop api p e = Some (macro_tokens m)"
proof (induction m arbitrary: p rule: macro_tokens.induct)
  case (1 m)
  show ?case
  proof (cases "next_token m")
    case None
    then show ?thesis
      using macro_next_spec [OF 1(2-)] by (subst macro_send_loop.simps, subst macro_tokens.simps) simp
  next
    case (Some x)
    then obtain d rest where x: "next_token m = Some (d, rest)"
      by (cases x) simp
    then have m: "m = d @ rest"
      by (rule next_token_split)
    have "at_pos e (p + length d) (rest @ [0])"
      using 1(3) at_pos_append [of e p d "rest @ [0]"] m by simp
    then have "macro_send_loop api (p + length d) e = Some (macro_tokens rest)"
      using 1(1) [OF x refl] 1(2,4) m by auto
    then show ?thesis
      using macro_next_spec [OF 1(2-)] x by (subst macro_send_loop.simps, subst macro_tokens.simps) simp
  qed
qed

lemma macro_skip_one:
  assumes "ok e" and "at_pos e p (m @ 0 # rest)" and "0 \<notin> set m" and "length m < n"
  shows "macro_skip api (Suc k) p n e = macro_skip api k (p + length m + 1) (n - length m - 1) e"
  using assms(2-)
proof (induction m arbitrary: p n)
  case Nil
  then show ?case
    using read_at [OF assms(1), of p 0 rest] by (cases n) simp_all
next
  case (Cons b m)
  then show ?case
    using read_at [OF assms(1), of p b "m @ 0 # rest"] by (cases n) auto
qed

lemma macro_skip_spec:
  assumes "ok e" and "at_pos e p (macro_image ms)" and "\<forall>m\<in>set ms. 0 \<notin> set m" and "length (macro_image ms) \<le> n" and "k < length ms"
  shows "\<exists>q rest. macro_skip api k p n e = Some (Some q) \<and> at_pos e q (ms ! k @ 0 # rest)"
  using assms(2-)
proof (induction ms arbitrary: p n k)
  case (Cons m ms)
  show ?case
  proof (cases k)
    case 0
    then show ?thesis
      using Cons.prems(1) by (auto simp: macro_image_def)
  next
    case (Suc j)
    have p: "at_pos e p (m @ 0 # macro_image ms)"
      using Cons.prems(1) by (simp add: macro_image_def)
    then have "at_pos e (p + length m + 1) (macro_image ms)"
      using at_pos_append [of e p "m @ [0]" "macro_image ms"] by simp
    moreover have "length (macro_image ms) \<le> n - length m - 1" and "length m < n"
      using Cons.prems(3) by (auto simp: macro_image_def)
    ultimately show ?thesis
      using Cons.IH [of "p + length m + 1" "n - length m - 1" j] Cons.prems macro_skip_one [OF assms(1) p, of n j] Suc by simp
  qed
qed simp

lemma macro_reset_spec:
  assumes "ok e"
  shows "\<exists>e'. dynamic_keymap_macro_reset c api e = Some e' \<and> ok e' \<and> (\<forall>i<macro_size. mem e' ! (macro_base + i) = 0)"
  unfolding dynamic_keymap_macro_reset_def
proof (rule for_upto_option_rule [where P = "\<lambda>n e. ok e \<and> (\<forall>i<n. mem e ! (macro_base + i) = 0)"])
  show "ok e \<and> (\<forall>i<0. mem e ! (macro_base + i) = 0)"
    using assms by simp
next
  fix n e
  assume n: "n < macro_size" and "ok e \<and> (\<forall>i<n. mem e ! (macro_base + i) = 0)"
  then show "\<exists>e'. eeprom_update_byte api (macro_base + n) 0 e = Some e' \<and> ok e' \<and> (\<forall>i<Suc n. mem e' ! (macro_base + i) = 0)"
    using update_in [of e "macro_base + n" 0] macro_end(1) length_mem [of e] by (auto simp: less_Suc_eq nth_list_update)
qed

lemma macro_roundtrip:
  assumes "ok e" and "\<forall>m\<in>set ms. 0 \<notin> set m" and "length (macro_image ms) \<le> macro_size" and "i < length ms" and "i < DYNAMIC_KEYMAP_MACRO_COUNT c"
  shows "\<exists>e1 e2. dynamic_keymap_macro_reset c api e = Some e1 \<and> dynamic_keymap_macro_set_buffer c api 0 (macro_image ms) e1 = Some e2 \<and>
    dynamic_keymap_macro_send c api i e2 = Some (macro_tokens (ms ! i))"
proof -
  obtain e1 where e1: "dynamic_keymap_macro_reset c api e = Some e1" "ok e1" "\<forall>i<macro_size. mem e1 ! (macro_base + i) = 0"
    using macro_reset_spec [OF assms(1)] by blast
  obtain e2 where e2: "dynamic_keymap_macro_set_buffer c api 0 (macro_image ms) e1 = Some e2" "ok e2"
      "\<forall>a < size. mem e2 ! a = (if macro_base \<le> a \<and> a < macro_base + length (macro_image ms) \<and> a < macro_base + macro_size
         then macro_image ms ! (a - macro_base) else mem e1 ! a)"
    using set_buffer_spec [OF e1(2) macro_end(1), of 0 "macro_image ms"] by (auto simp: dynamic_keymap_macro_set_buffer_def)
  have at: "at_pos e2 macro_base (macro_image ms)"
    using assms(3) macro_end(1) size_bound e2(3) by (intro at_pos_nth) (auto simp: byte_at_def)
  have "mem e2 ! (macro_base + macro_size - 1) = 0"
  proof (cases "length (macro_image ms) = macro_size")
    case True
    moreover from this have "macro_image ms \<noteq> []"
      using macro_end(2) by auto
    moreover from this have "last (macro_image ms) = 0"
      by (rule last_macro_image)
    ultimately show ?thesis
      using e2(3) macro_end by (auto simp: last_conv_nth)
  next
    case False
    then have "\<not> macro_base + macro_size - 1 < macro_base + length (macro_image ms)"
      using assms(3) by linarith
    moreover have "mem e1 ! (macro_base + macro_size - 1) = 0"
      using e1(3) [rule_format, of "macro_size - 1"] macro_end(2) by (simp add: add_diff_eq)
    ultimately show ?thesis
      using e2(3) macro_end by simp
  qed
  then have "eeprom_read_byte api (macro_base + macro_size - 1) e2 = Some 0"
    using read_in [OF e2(2), of "macro_base + macro_size - 1"] macro_end by simp
  moreover obtain q rest where q: "macro_skip api i macro_base macro_size e2 = Some (Some q)" "at_pos e2 q (ms ! i @ 0 # rest)"
    using macro_skip_spec [OF e2(2) at assms(2,3,4)] by blast
  moreover have "macro_send_loop api q e2 = Some (macro_tokens (ms ! i))"
    using e2(2) at_pos_prefix [of e2 q "ms ! i @ [0]" rest] q(2) assms(2,4) by (intro macro_send_loop_spec) simp_all
  ultimately show ?thesis
    using e1(1) e2(1) assms(5) by (simp add: dynamic_keymap_macro_send_def)
qed

end

section \<open>The keymap in the wear-leveled EEPROM\<close>

lemma wl_keymap:
  assumes "backing_store_laws drv cfg valid cells opened" and "dk_static_asserts (lsize cfg) c"
  shows "keymap_eeprom (wl_eeprom drv cfg) (wl_settled cfg valid cells opened) cache (lsize cfg) c"
proof -
  from assms(1) have "eeprom_laws (wl_eeprom drv cfg) (wl_settled cfg valid cells opened) cache (lsize cfg)"
    by (rule backing_store_laws.wl_eeprom_laws)
  then show ?thesis
    using assms(2) by (simp add: keymap_eeprom_def keymap_eeprom_axioms_def)
qed

text \<open>A configuration that passes the compile-time checks: 8 layers of 6 rows and 17 columns, one encoder, 16 macros.\<close>

definition q3_keymap_config :: dk_config where
  "q3_keymap_config = \<lparr>MATRIX_ROWS = 6, MATRIX_COLS = 17, NUM_ENCODERS = 1, DYNAMIC_KEYMAP_LAYER_COUNT = 8, DYNAMIC_KEYMAP_MACRO_COUNT = 16,
     DYNAMIC_KEYMAP_EEPROM_ADDR = 64, DYNAMIC_KEYMAP_EEPROM_MAX_ADDR = 2047\<rparr>"

lemma q3_keymap_asserts: "dk_static_asserts (lsize (q3_max_config w)) q3_keymap_config"
  by (simp add: dk_static_asserts_def q3_keymap_config_def q3_max_config_def DYNAMIC_KEYMAP_MACRO_EEPROM_ADDR_def
      DYNAMIC_KEYMAP_ENCODER_EEPROM_ADDR_def)

interpretation q3_keymap: keymap_eeprom "wl_eeprom (mock_backing_store (q3_max_config w)) (q3_max_config w)"
    "wl_settled (q3_max_config w) (mock_valid (q3_max_config w)) mock_cells mock_opened" cache "lsize (q3_max_config w)" q3_keymap_config for w
  by (rule wl_keymap [OF mock_laws [OF q3_max_config_ok] q3_keymap_asserts])

text \<open>C7: Setting the keycode of a key succeeds, keeps the store settled, and is what every later lookup of that key returns; the keycodes of
  all other keys and of the encoders stay.\<close>

theorem dynamic_keymap_set_get:
  assumes "backing_store_laws drv cfg valid cells opened" and "wl_settled cfg valid cells opened wl" and "dk_static_asserts (lsize cfg) c"
    and "l < DYNAMIC_KEYMAP_LAYER_COUNT c" and "r < MATRIX_ROWS c" and "k < MATRIX_COLS c"
  shows "\<exists>wl'. dynamic_keymap_set_keycode c (wl_eeprom drv cfg) l r k v wl = Some wl' \<and> wl_settled cfg valid cells opened wl' \<and>
    (\<forall>l' r' k'. keycode_at_keymap_location c (wl_eeprom drv cfg) l' r' k' wl' =
       (if (l', r', k') = (l, r, k) then Some v else keycode_at_keymap_location c (wl_eeprom drv cfg) l' r' k' wl)) \<and>
    (\<forall>l' i cw. keycode_at_encodermap_location c (wl_eeprom drv cfg) l' i cw wl' = keycode_at_encodermap_location c (wl_eeprom drv cfg) l' i cw wl)"
proof -
  let ?api = "wl_eeprom drv cfg"
  have "valid_slot c (Key_slot l r k)"
    using assms(4-6) by simp
  from keymap_eeprom.set_slot_get [OF wl_keymap [OF assms(1,3)] assms(2) this, of v]
  obtain wl' where wl': "dynamic_keymap_set_keycode c ?api l r k v wl = Some wl'" "wl_settled cfg valid cells opened wl'"
    and get: "\<And>s'. valid_slot c s' \<Longrightarrow> get_slot c ?api s' wl' = (if s' = Key_slot l r k then Some v else get_slot c ?api s' wl)"
    by auto
  have "keycode_at_keymap_location c ?api l' r' k' wl' =
      (if (l', r', k') = (l, r, k) then Some v else keycode_at_keymap_location c ?api l' r' k' wl)" for l' r' k'
    using get [of "Key_slot l' r' k'"] assms(4-6) by (auto simp: keycode_at_keymap_location_def)
  moreover have "keycode_at_encodermap_location c ?api l' i cw wl' = keycode_at_encodermap_location c ?api l' i cw wl" for l' i cw
    using get [of "Encoder_slot l' i cw"] by (auto simp: keycode_at_encodermap_location_def)
  ultimately show ?thesis
    using wl' by blast
qed

theorem dynamic_keymap_set_get_witness:
  "\<exists>wl'. dynamic_keymap_set_keycode q3_keymap_config (wl_eeprom (mock_backing_store (q3_max_config Write4)) (q3_max_config Write4)) 1 2 3 0x1234
      (blank (q3_max_config Write4)) = Some wl' \<and>
    keycode_at_keymap_location q3_keymap_config (wl_eeprom (mock_backing_store (q3_max_config Write4)) (q3_max_config Write4)) 1 2 3 wl' = Some 0x1234"
proof -
  have "1 < DYNAMIC_KEYMAP_LAYER_COUNT q3_keymap_config" "2 < MATRIX_ROWS q3_keymap_config" "3 < MATRIX_COLS q3_keymap_config"
    by (simp_all add: q3_keymap_config_def)
  from dynamic_keymap_set_get [OF mock_laws [OF q3_max_config_ok] blank_settled [OF q3_max_config_ok] q3_keymap_asserts this]
  show ?thesis
    by force
qed

text \<open>After a reset every key and encoder has the keycode of the keymap in flash, and the macros are untouched.\<close>

theorem dynamic_keymap_reset_restores:
  assumes "backing_store_laws drv cfg valid cells opened" and "wl_settled cfg valid cells opened wl" and "dk_static_asserts (lsize cfg) c"
  shows "\<exists>wl'. dynamic_keymap_reset c (wl_eeprom drv cfg) f wl = Some wl' \<and> wl_settled cfg valid cells opened wl' \<and>
    (\<forall>l r k. l < DYNAMIC_KEYMAP_LAYER_COUNT c \<and> r < MATRIX_ROWS c \<and> k < MATRIX_COLS c \<longrightarrow>
       keycode_at_keymap_location c (wl_eeprom drv cfg) l r k wl' = Some (keycode_at_keymap_location_raw c f l r k)) \<and>
    (\<forall>l i cw. l < DYNAMIC_KEYMAP_LAYER_COUNT c \<and> i < NUM_ENCODERS c \<longrightarrow>
       keycode_at_encodermap_location c (wl_eeprom drv cfg) l i cw wl' = Some (keycode_at_encodermap_location_raw c f l i cw)) \<and>
    (\<forall>n. dynamic_keymap_macro_get_buffer c (wl_eeprom drv cfg) 0 n wl' = dynamic_keymap_macro_get_buffer c (wl_eeprom drv cfg) 0 n wl)"
proof -
  let ?api = "wl_eeprom drv cfg"
  note K = wl_keymap [OF assms(1,3)]
  obtain wl' where wl': "dynamic_keymap_reset c ?api f wl = Some wl'" "wl_settled cfg valid cells opened wl'"
      "\<forall>s. valid_slot c s \<longrightarrow> get_slot c ?api s wl' = Some (keymap_eeprom.flash_slot c f s)"
      "\<forall>a \<ge> DYNAMIC_KEYMAP_MACRO_EEPROM_ADDR c. cache wl' ! a = cache wl ! a"
    using keymap_eeprom.reset_spec [OF K assms(2), of f] by blast
  have "keycode_at_keymap_location c ?api l r k wl' = Some (keycode_at_keymap_location_raw c f l r k)"
    if "l < DYNAMIC_KEYMAP_LAYER_COUNT c \<and> r < MATRIX_ROWS c \<and> k < MATRIX_COLS c" for l r k
    using wl'(3) [rule_format, of "Key_slot l r k"] that by (simp add: keycode_at_keymap_location_def keymap_eeprom.flash_slot.simps [OF K])
  moreover have "keycode_at_encodermap_location c ?api l i cw wl' = Some (keycode_at_encodermap_location_raw c f l i cw)"
    if "l < DYNAMIC_KEYMAP_LAYER_COUNT c \<and> i < NUM_ENCODERS c" for l i cw
    using wl'(3) [rule_format, of "Encoder_slot l i cw"] that
    by (simp add: keycode_at_encodermap_location_def keymap_eeprom.flash_slot.simps [OF K])
  moreover have "dynamic_keymap_macro_get_buffer c ?api 0 n wl' = dynamic_keymap_macro_get_buffer c ?api 0 n wl" for n
    by (rule keymap_eeprom.macro_get_buffer_cong [OF K assms(2) wl'(2,4)])
  ultimately show ?thesis
    using wl'(1,2) by blast
qed

definition sample_flash :: flash_keymap where
  "sample_flash = \<lparr>keymaps = [replicate 6 (replicate 17 4)], encoder_map = [[[0xA9, 0xAA]]]\<rparr>"

theorem dynamic_keymap_reset_restores_witness:
  "\<exists>wl'. dynamic_keymap_reset q3_keymap_config (wl_eeprom (mock_backing_store (q3_max_config Write2)) (q3_max_config Write2)) sample_flash
      (blank (q3_max_config Write2)) = Some wl' \<and>
    keycode_at_keymap_location q3_keymap_config (wl_eeprom (mock_backing_store (q3_max_config Write2)) (q3_max_config Write2)) 0 5 16 wl' = Some 4 \<and>
    keycode_at_keymap_location q3_keymap_config (wl_eeprom (mock_backing_store (q3_max_config Write2)) (q3_max_config Write2)) 7 0 0 wl' = Some KC_TRNS"
proof -
  obtain wl' where "dynamic_keymap_reset q3_keymap_config (wl_eeprom (mock_backing_store (q3_max_config Write2)) (q3_max_config Write2)) sample_flash
      (blank (q3_max_config Write2)) = Some wl'"
    "\<forall>l r k. l < DYNAMIC_KEYMAP_LAYER_COUNT q3_keymap_config \<and> r < MATRIX_ROWS q3_keymap_config \<and> k < MATRIX_COLS q3_keymap_config \<longrightarrow>
       keycode_at_keymap_location q3_keymap_config (wl_eeprom (mock_backing_store (q3_max_config Write2)) (q3_max_config Write2)) l r k wl' =
         Some (keycode_at_keymap_location_raw q3_keymap_config sample_flash l r k)"
    using dynamic_keymap_reset_restores [OF mock_laws [OF q3_max_config_ok] blank_settled [OF q3_max_config_ok] q3_keymap_asserts,
        where f = sample_flash] by blast
  then show ?thesis
    by (auto simp: q3_keymap_config_def keycode_at_keymap_location_raw_def sample_flash_def)
qed

text \<open>The host may read the keymap as a buffer of bytes: the two bytes of a key are its keycode, high byte first.\<close>

theorem dynamic_keymap_buffer_view:
  assumes "backing_store_laws drv cfg valid cells opened" and "wl_settled cfg valid cells opened wl" and "dk_static_asserts (lsize cfg) c"
    and "l < DYNAMIC_KEYMAP_LAYER_COUNT c" and "r < MATRIX_ROWS c" and "k < MATRIX_COLS c"
  shows "\<exists>v. dynamic_keymap_get_keycode c (wl_eeprom drv cfg) l r k wl = Some v \<and>
    dynamic_keymap_get_buffer c (wl_eeprom drv cfg) (((l * MATRIX_ROWS c + r) * MATRIX_COLS c + k) * 2) 2 wl = Some [ucast (drop_bit 8 v), ucast v]"
proof -
  note K = wl_keymap [OF assms(1,3)]
  have v: "valid_slot c (Key_slot l r k)"
    using assms(4-6) by simp
  then show ?thesis
    using keymap_eeprom.get_slot_spec [OF K assms(2) v] keymap_eeprom.keycode_buffer [OF K assms(2) v] by simp
qed

theorem dynamic_keymap_buffer_view_witness:
  "\<exists>v. dynamic_keymap_get_keycode q3_keymap_config (wl_eeprom (mock_backing_store (q3_max_config Write8)) (q3_max_config Write8)) 0 1 2
      (blank (q3_max_config Write8)) = Some v \<and>
    dynamic_keymap_get_buffer q3_keymap_config (wl_eeprom (mock_backing_store (q3_max_config Write8)) (q3_max_config Write8)) 38 2
      (blank (q3_max_config Write8)) = Some [ucast (drop_bit 8 v), ucast v]"
proof -
  have "0 < DYNAMIC_KEYMAP_LAYER_COUNT q3_keymap_config" "1 < MATRIX_ROWS q3_keymap_config" "2 < MATRIX_COLS q3_keymap_config"
    and "((0 * MATRIX_ROWS q3_keymap_config + 1) * MATRIX_COLS q3_keymap_config + 2) * 2 = 38"
    by (simp_all add: q3_keymap_config_def)
  with dynamic_keymap_buffer_view [OF mock_laws [OF q3_max_config_ok] blank_settled [OF q3_max_config_ok] q3_keymap_asserts this(1-3), of Write8]
  show ?thesis
    by simp
qed



end
