(* ===== verification/Keycodes.thy ===== *)
theory Keycodes
  imports Tapping Dynamic_Keymap
begin

text \<open>
  From keycodes to actions: the swaps of modifiers and keys (\<^verbatim>\<open>quantum/keycode_config.c\<close>), the translation of keycodes to action codes and the look-up of a key
  (\<^verbatim>\<open>quantum/keymap_common.c\<close>), and the fields of an action code (\<^verbatim>\<open>quantum/action_code.h\<close>). Keycodes have the short names of \<^verbatim>\<open>quantum/keycodes.h\<close>.
  Swapping hands is off in this build, and \<^verbatim>\<open>LEGACY_MAGIC_HANDLING\<close> is not defined. The bits \<^verbatim>\<open>nkro\<close> and \<^verbatim>\<open>oneshot_enable\<close> of \<^verbatim>\<open>keymap_config\<close> are in the states of
  \<^verbatim>\<open>Report\<close> and \<^verbatim>\<open>Action_Util\<close>.
\<close>

section \<open>Model\<close>

subsection \<open>Configuration\<close>

record keymap_config_t =
  swap_control_capslock :: bool
  capslock_to_control :: bool
  swap_lalt_lgui :: bool
  swap_ralt_rgui :: bool
  no_gui :: bool
  swap_grave_esc :: bool
  swap_backslash_backspace :: bool
  swap_lctl_lgui :: bool
  swap_rctl_rgui :: bool
  swap_escape_capslock :: bool

definition KC_ESC :: u16 where "KC_ESC = 0x29"
definition KC_BSPC :: u16 where "KC_BSPC = 0x2A"
definition KC_BSLS :: u16 where "KC_BSLS = 0x31"
definition KC_GRV :: u16 where "KC_GRV = 0x35"
definition KC_CAPS :: u16 where "KC_CAPS = 0x39"
definition KC_LCAP :: u16 where "KC_LCAP = 0x82"
definition KC_LCTL :: u16 where "KC_LCTL = 0xE0"
definition KC_LALT :: u16 where "KC_LALT = 0xE2"
definition KC_LGUI :: u16 where "KC_LGUI = 0xE3"
definition KC_RCTL :: u16 where "KC_RCTL = 0xE4"
definition KC_RALT :: u16 where "KC_RALT = 0xE6"
definition KC_RGUI :: u16 where "KC_RGUI = 0xE7"

lemmas kc_defs = KC_ESC_def KC_BSPC_def KC_BSLS_def KC_GRV_def KC_CAPS_def KC_LCAP_def KC_LCTL_def KC_LALT_def KC_LGUI_def KC_RCTL_def
  KC_RALT_def KC_RGUI_def

definition keycode_config :: "keymap_config_t \<Rightarrow> u16 \<Rightarrow> u16" where
  "keycode_config cfg keycode =
     (if keycode = KC_CAPS \<or> keycode = KC_LCAP then
        if swap_control_capslock cfg \<or> capslock_to_control cfg then KC_LCTL
        else if swap_escape_capslock cfg then KC_ESC else keycode
      else if keycode = KC_LCTL then
        if swap_control_capslock cfg then KC_CAPS
        else if swap_lctl_lgui cfg then if no_gui cfg then KC_NO16 else KC_LGUI
        else KC_LCTL
      else if keycode = KC_LALT then
        if swap_lalt_lgui cfg then if no_gui cfg then KC_NO16 else KC_LGUI else KC_LALT
      else if keycode = KC_LGUI then
        if swap_lalt_lgui cfg then KC_LALT
        else if swap_lctl_lgui cfg then KC_LCTL
        else if no_gui cfg then KC_NO16 else KC_LGUI
      else if keycode = KC_RCTL then
        if swap_rctl_rgui cfg then if no_gui cfg then KC_NO16 else KC_RGUI else KC_RCTL
      else if keycode = KC_RALT then
        if swap_ralt_rgui cfg then if no_gui cfg then KC_NO16 else KC_RGUI else KC_RALT
      else if keycode = KC_RGUI then
        if swap_ralt_rgui cfg then KC_RALT
        else if swap_rctl_rgui cfg then KC_RCTL
        else if no_gui cfg then KC_NO16 else KC_RGUI
      else if keycode = KC_GRV then if swap_grave_esc cfg then KC_ESC else KC_GRV
      else if keycode = KC_ESC then
        if swap_grave_esc cfg then KC_GRV else if swap_escape_capslock cfg then KC_CAPS else KC_ESC
      else if keycode = KC_BSLS then if swap_backslash_backspace cfg then KC_BSPC else KC_BSLS
      else if keycode = KC_BSPC then if swap_backslash_backspace cfg then KC_BSLS else KC_BSPC
      else keycode)"

definition MOD_LCTL :: u8 where "MOD_LCTL = 0x01"
definition MOD_LALT :: u8 where "MOD_LALT = 0x04"
definition MOD_LGUI :: u8 where "MOD_LGUI = 0x08"
definition MOD_RCTL :: u8 where "MOD_RCTL = 0x11"
definition MOD_RALT :: u8 where "MOD_RALT = 0x14"
definition MOD_RGUI :: u8 where "MOD_RGUI = 0x18"

lemmas mod_defs = MOD_LCTL_def MOD_LALT_def MOD_LGUI_def MOD_RCTL_def MOD_RALT_def MOD_RGUI_def

definition mod_config :: "keymap_config_t \<Rightarrow> u8 \<Rightarrow> u8" where
  "mod_config cfg m =
     (let m = (if swap_lalt_lgui cfg \<and> ((m AND MOD_RALT = MOD_LALT) \<noteq> (m AND MOD_RGUI = MOD_LGUI)) then m XOR (MOD_LALT OR MOD_LGUI) else m);
          m = (if swap_ralt_rgui cfg \<and> ((m AND MOD_RALT = MOD_RALT) \<noteq> (m AND MOD_RGUI = MOD_RGUI)) then m XOR (MOD_LALT OR MOD_LGUI) else m);
          m = (if swap_lctl_lgui cfg \<and> ((m AND MOD_RCTL = MOD_LCTL) \<noteq> (m AND MOD_RGUI = MOD_LGUI)) then m XOR (MOD_LCTL OR MOD_LGUI) else m);
          m = (if swap_rctl_rgui cfg \<and> ((m AND MOD_RCTL = MOD_RCTL) \<noteq> (m AND MOD_RGUI = MOD_RGUI)) then m XOR (MOD_LCTL OR MOD_LGUI) else m)
      in if no_gui cfg then (m AND NOT MOD_LGUI) AND NOT MOD_RGUI else m)"

subsection \<open>Keycodes and usages\<close>

definition IS_BASIC_KEYCODE :: "u16 \<Rightarrow> bool" where
  "IS_BASIC_KEYCODE code \<longleftrightarrow> 0x04 \<le> code \<and> code \<le> 0xA4"

definition IS_SYSTEM_KEYCODE :: "u16 \<Rightarrow> bool" where
  "IS_SYSTEM_KEYCODE code \<longleftrightarrow> 0xA5 \<le> code \<and> code \<le> 0xA7"

definition IS_CONSUMER_KEYCODE :: "u16 \<Rightarrow> bool" where
  "IS_CONSUMER_KEYCODE code \<longleftrightarrow> 0xA8 \<le> code \<and> code \<le> 0xC2"

definition IS_MOUSE_KEYCODE :: "u16 \<Rightarrow> bool" where
  "IS_MOUSE_KEYCODE code \<longleftrightarrow> 0xCD \<le> code \<and> code \<le> 0xDF"

definition IS_MOD_KEYCODE :: "u16 \<Rightarrow> bool" where
  "IS_MOD_KEYCODE code \<longleftrightarrow> KC_LCTL \<le> code \<and> code \<le> KC_RGUI"

text \<open>The usages of the keycodes from \<^verbatim>\<open>KC_SYSTEM_POWER\<close> and from \<^verbatim>\<open>KC_AUDIO_MUTE\<close> on, which are numbered without gaps.\<close>

definition system_usages :: "u16 list" where
  "system_usages = [0x81, 0x82, 0x83]"

definition consumer_usages :: "u16 list" where
  "consumer_usages = [0x0E2, 0x0E9, 0x0EA, 0x0B5, 0x0B6, 0x0B7, 0x0CD, 0x183, 0x0CC, 0x18A, 0x192, 0x194, 0x221, 0x223, 0x224, 0x225, 0x226,
     0x227, 0x22A, 0x0B3, 0x0B4, 0x06F, 0x070, 0x19F, 0x1CB, 0x29F, 0x2A0]"

definition KEYCODE2SYSTEM :: "u8 \<Rightarrow> u16" where
  "KEYCODE2SYSTEM k = (if 0xA5 \<le> k \<and> k \<le> 0xA7 then system_usages ! (unat k - 0xA5) else 0)"

definition KEYCODE2CONSUMER :: "u8 \<Rightarrow> u16" where
  "KEYCODE2CONSUMER k = (if 0xA8 \<le> k \<and> k \<le> 0xC2 then consumer_usages ! (unat k - 0xA8) else 0)"

subsection \<open>Action codes\<close>

definition ACTION :: "nat \<Rightarrow> u16 \<Rightarrow> u16" where
  "ACTION kind param = push_bit 12 (of_nat kind) OR param"

definition ACT_USAGE :: nat where "ACT_USAGE = 4"
definition ACT_MOUSEKEY :: nat where "ACT_MOUSEKEY = 5"
definition ACT_LAYER :: nat where "ACT_LAYER = 8"
definition ACT_LAYER_MODS :: nat where "ACT_LAYER_MODS = 9"

definition MODS_ONESHOT :: nat where "MODS_ONESHOT = 0"
definition MODS_TAP_TOGGLE :: nat where "MODS_TAP_TOGGLE = 1"
definition ON_PRESS :: u16 where "ON_PRESS = 1"
definition ON_RELEASE :: u16 where "ON_RELEASE = 2"
definition OP_BIT_AND :: u16 where "OP_BIT_AND = 0"
definition OP_BIT_OR :: u16 where "OP_BIT_OR = 1"
definition OP_BIT_XOR :: u16 where "OP_BIT_XOR = 2"
definition OP_BIT_SET :: u16 where "OP_BIT_SET = 3"

lemmas action_code_defs = ACT_USAGE_def ACT_MOUSEKEY_def ACT_LAYER_def ACT_LAYER_MODS_def MODS_ONESHOT_def MODS_TAP_TOGGLE_def
  ON_PRESS_def ON_RELEASE_def OP_BIT_AND_def OP_BIT_OR_def OP_BIT_XOR_def OP_BIT_SET_def

text \<open>The macros take the five packed modifier bits, the fifth of which is the flag for the right hand and falls into the kind.\<close>

definition ACTION_KEY :: "u16 \<Rightarrow> u16" where
  "ACTION_KEY k = ACTION ACT_LMODS k"

definition ACTION_MODS_KEY :: "u8 \<Rightarrow> u16 \<Rightarrow> u16" where
  "ACTION_MODS_KEY mods k = ACTION ACT_LMODS (push_bit 8 (ucast mods AND 0x1F) OR k)"

definition ACTION_MODS_TAP_KEY :: "u8 \<Rightarrow> u16 \<Rightarrow> u16" where
  "ACTION_MODS_TAP_KEY mods k = ACTION ACT_LMODS_TAP (push_bit 8 (ucast mods AND 0x1F) OR k)"

definition ACTION_MODS_ONESHOT :: "u8 \<Rightarrow> u16" where
  "ACTION_MODS_ONESHOT mods = ACTION ACT_LMODS_TAP (push_bit 8 (ucast mods AND 0x1F) OR of_nat MODS_ONESHOT)"

definition ACTION_USAGE_SYSTEM :: "u16 \<Rightarrow> u16" where
  "ACTION_USAGE_SYSTEM i = ACTION ACT_USAGE (push_bit 10 0 OR i)"

definition ACTION_USAGE_CONSUMER :: "u16 \<Rightarrow> u16" where
  "ACTION_USAGE_CONSUMER i = ACTION ACT_USAGE (push_bit 10 1 OR i)"

definition ACTION_MOUSEKEY :: "u16 \<Rightarrow> u16" where
  "ACTION_MOUSEKEY k = ACTION ACT_MOUSEKEY k"

definition ACTION_LAYER_BITOP :: "u16 \<Rightarrow> u16 \<Rightarrow> u16 \<Rightarrow> u16 \<Rightarrow> u16" where
  "ACTION_LAYER_BITOP op part bts on = ACTION ACT_LAYER (push_bit 10 op OR push_bit 8 on OR push_bit 5 part OR (bts AND 0x1F))"

definition ACTION_LAYER_TAP :: "u8 \<Rightarrow> u16 \<Rightarrow> u16" where
  "ACTION_LAYER_TAP layer k = ACTION ACT_LAYER_TAP (push_bit 8 (ucast layer) OR k)"

definition ACTION_LAYER_MODS :: "u8 \<Rightarrow> u16 \<Rightarrow> u16" where
  "ACTION_LAYER_MODS layer mods = ACTION ACT_LAYER_MODS (push_bit 8 (ucast layer) OR mods)"

definition ACTION_LAYER_GOTO :: "u8 \<Rightarrow> u16" where
  "ACTION_LAYER_GOTO layer = ACTION_LAYER_BITOP OP_BIT_SET (ucast layer div 4) (push_bit (unat layer mod 4) 1) ON_PRESS"

definition ACTION_LAYER_TOGGLE :: "u8 \<Rightarrow> u16" where
  "ACTION_LAYER_TOGGLE layer = ACTION_LAYER_BITOP OP_BIT_XOR (ucast layer div 4) (push_bit (unat layer mod 4) 1) ON_RELEASE"

definition ACTION_DEFAULT_LAYER_SET :: "u8 \<Rightarrow> u16" where
  "ACTION_DEFAULT_LAYER_SET layer = ACTION_LAYER_BITOP OP_BIT_SET (ucast layer div 4) (push_bit (unat layer mod 4) 1) 0"

text \<open>The fields of \<^verbatim>\<open>action_t\<close>, besides those of \<^verbatim>\<open>Tapping\<close>.\<close>

definition key_code :: "u16 \<Rightarrow> u8" where
  "key_code a = ucast a"

definition key_mods :: "u16 \<Rightarrow> u8" where
  "key_mods a = ucast (drop_bit 8 a AND 0xF)"

definition bitop_bits :: "u16 \<Rightarrow> u8" where
  "bitop_bits a = ucast (a AND 0xF)"

definition bitop_xbit :: "u16 \<Rightarrow> bool" where
  "bitop_xbit a = bit a 4"

definition bitop_part :: "u16 \<Rightarrow> nat" where
  "bitop_part a = unat (drop_bit 5 a AND 7)"

definition bitop_on :: "u16 \<Rightarrow> u16" where
  "bitop_on a = drop_bit 8 a AND 3"

definition bitop_op :: "u16 \<Rightarrow> u16" where
  "bitop_op a = drop_bit 10 a AND 3"

definition layer_mods_mods :: "u16 \<Rightarrow> u8" where
  "layer_mods_mods a = ucast a"

definition layer_mods_layer :: "u16 \<Rightarrow> u8" where
  "layer_mods_layer a = ucast (drop_bit 8 a AND 0xF)"

definition layer_tap_val :: "u16 \<Rightarrow> u8" where
  "layer_tap_val a = ucast (drop_bit 8 a AND 0x1F)"

definition usage_code :: "u16 \<Rightarrow> u16" where
  "usage_code a = a AND 0x3FF"

definition usage_page :: "u16 \<Rightarrow> u16" where
  "usage_page a = drop_bit 10 a AND 3"

lemmas action_fields = action_kind_id_def action_code_def action_mods_def key_code_def key_mods_def bitop_bits_def bitop_xbit_def bitop_part_def bitop_on_def
  bitop_op_def layer_mods_mods_def layer_mods_layer_def layer_tap_val_def usage_code_def usage_page_def

definition action_for_keycode :: "keymap_config_t \<Rightarrow> u16 \<Rightarrow> u16" where
  "action_for_keycode cfg keycode =
     (let keycode = keycode_config cfg keycode;
          layer5 = ucast (keycode AND 0x1F) :: u8
      in if IS_BASIC_KEYCODE keycode \<or> IS_MOD_KEYCODE keycode then ACTION_KEY keycode
         else if IS_SYSTEM_KEYCODE keycode then ACTION_USAGE_SYSTEM (KEYCODE2SYSTEM (ucast keycode))
         else if IS_CONSUMER_KEYCODE keycode then ACTION_USAGE_CONSUMER (KEYCODE2CONSUMER (ucast keycode))
         else if IS_MOUSE_KEYCODE keycode then ACTION_MOUSEKEY keycode
         else if keycode = KC_TRNS then ACTION_TRANSPARENT
         else if 0x0100 \<le> keycode \<and> keycode \<le> 0x1FFF then
           ACTION_MODS_KEY (mod_config cfg (ucast (drop_bit 8 keycode AND 0x1F))) (keycode_config cfg (keycode AND 0xFF))
         else if 0x4000 \<le> keycode \<and> keycode \<le> 0x4FFF then
           ACTION_LAYER_TAP (ucast (drop_bit 8 keycode AND 0xF)) (keycode_config cfg (keycode AND 0xFF))
         else if 0x5200 \<le> keycode \<and> keycode \<le> 0x521F then ACTION_LAYER_GOTO layer5
         else if 0x5220 \<le> keycode \<and> keycode \<le> 0x523F then ACTION_LAYER_TAP layer5 (of_nat OP_ON_OFF)
         else if 0x5240 \<le> keycode \<and> keycode \<le> 0x525F then ACTION_DEFAULT_LAYER_SET layer5
         else if 0x5260 \<le> keycode \<and> keycode \<le> 0x527F then ACTION_LAYER_TOGGLE layer5
         else if 0x5280 \<le> keycode \<and> keycode \<le> 0x529F then ACTION_LAYER_TAP layer5 (of_nat OP_ONESHOT)
         else if 0x52A0 \<le> keycode \<and> keycode \<le> 0x52BF then ACTION_MODS_ONESHOT (mod_config cfg layer5)
         else if 0x52C0 \<le> keycode \<and> keycode \<le> 0x52DF then ACTION_LAYER_TAP layer5 (of_nat OP_TAP_TOGGLE)
         else if 0x5000 \<le> keycode \<and> keycode \<le> 0x51FF then
           let m = mod_config cfg layer5
           in ACTION_LAYER_MODS (ucast (drop_bit 5 keycode AND 0xF)) (if m AND 0x10 \<noteq> 0 then push_bit 4 (ucast m) else ucast m)
         else if 0x2000 \<le> keycode \<and> keycode \<le> 0x3FFF then
           ACTION_MODS_TAP_KEY (mod_config cfg (ucast (drop_bit 8 keycode AND 0x1F))) (keycode_config cfg (keycode AND 0xFF))
         else 0)"

subsection \<open>Keys\<close>

definition keymap_key_to_keycode :: "dk_config \<Rightarrow> 'e eeprom_api \<Rightarrow> nat \<Rightarrow> keypos_t \<Rightarrow> 'e \<Rightarrow> u16 option" where
  "keymap_key_to_keycode c api layer k e =
     (if row k < dk_config.MATRIX_ROWS c \<and> col k < dk_config.MATRIX_COLS c then keycode_at_keymap_location c api layer (row k) (col k) e
      else if row k = KEYLOC_ENCODER_CW \<and> col k < NUM_ENCODERS c then keycode_at_encodermap_location c api layer (col k) True e
      else if row k = KEYLOC_ENCODER_CCW \<and> col k < NUM_ENCODERS c then keycode_at_encodermap_location c api layer (col k) False e
      else Some KC_NO16)"

definition action_for_key :: "dk_config \<Rightarrow> 'e eeprom_api \<Rightarrow> keymap_config_t \<Rightarrow> nat \<Rightarrow> keypos_t \<Rightarrow> 'e \<Rightarrow> u16 option" where
  "action_for_key c api cfg layer k e = map_option (action_for_keycode cfg) (keymap_key_to_keycode c api layer k e)"

section \<open>Swaps\<close>

text \<open>No key takes part in two swaps, and no key is turned off or doubled.\<close>

definition plain_swaps :: "keymap_config_t \<Rightarrow> bool" where
  "plain_swaps cfg \<longleftrightarrow> \<not> no_gui cfg \<and> \<not> capslock_to_control cfg \<and> \<not> (swap_control_capslock cfg \<and> (swap_lctl_lgui cfg \<or> swap_escape_capslock cfg)) \<and>
     \<not> (swap_lalt_lgui cfg \<and> swap_lctl_lgui cfg) \<and> \<not> (swap_ralt_rgui cfg \<and> swap_rctl_rgui cfg) \<and> \<not> (swap_grave_esc cfg \<and> swap_escape_capslock cfg)"

text \<open>Swaps are swaps: applied twice they give every keycode back, apart from the locking caps lock, which counts as caps lock.\<close>

theorem keycode_config_swaps:
  assumes "plain_swaps cfg" and "k \<noteq> KC_LCAP"
  shows "keycode_config cfg (keycode_config cfg k) = k"
proof (cases "k \<in> {KC_CAPS, KC_LCTL, KC_LALT, KC_LGUI, KC_RCTL, KC_RALT, KC_RGUI, KC_GRV, KC_ESC, KC_BSLS, KC_BSPC}")
  case True
  with assms(1) show ?thesis
    by (elim insertE emptyE) (auto simp: plain_swaps_def keycode_config_def kc_defs)
next
  case False
  with assms(2) show ?thesis
    by (simp add: keycode_config_def)
qed

definition demo_swaps :: keymap_config_t where
  "demo_swaps = \<lparr>swap_control_capslock = False, capslock_to_control = False, swap_lalt_lgui = True, swap_ralt_rgui = False, no_gui = False,
     swap_grave_esc = False, swap_backslash_backspace = True, swap_lctl_lgui = False, swap_rctl_rgui = True, swap_escape_capslock = True\<rparr>"

theorem keycode_config_swaps_witness: "keycode_config demo_swaps KC_LALT = KC_LGUI \<and> keycode_config demo_swaps KC_LGUI = KC_LALT"
proof -
  have k: "keycode_config demo_swaps KC_LALT = KC_LGUI" and c: "plain_swaps demo_swaps" "KC_LALT \<noteq> KC_LCAP"
    by code_simp+
  from keycode_config_swaps [OF c] show ?thesis
    unfolding k by simp
qed

text \<open>The modifier keys that five packed bits stand for.\<close>

definition packed_keys :: "u8 \<Rightarrow> u16 list" where
  "packed_keys m = map (\<lambda>i. KC_LCTL + of_nat i + (if bit m 4 then 4 else 0)) (filter (bit m) [0..<4])"

lemma two_bits:
  fixes m :: u8
  assumes "i \<noteq> j" and "i < 8" and "j < 8"
  shows "m AND (push_bit i 1 OR push_bit j 1) = push_bit i 1 \<longleftrightarrow> bit m i \<and> \<not> bit m j"
    and "m AND (push_bit i 1 OR push_bit j 1) = push_bit i 1 OR push_bit j 1 \<longleftrightarrow> bit m i \<and> bit m j"
  unfolding bit_eq_iff [of "m AND (push_bit i 1 OR push_bit j 1)"]
  using assms by (auto simp: bit_and_iff bit_or_iff bit_mask_word)

lemma mod_tests:
  "m AND MOD_RALT = MOD_LALT \<longleftrightarrow> bit m 2 \<and> \<not> bit m 4" "m AND MOD_RALT = MOD_RALT \<longleftrightarrow> bit m 2 \<and> bit m 4"
  "m AND MOD_RGUI = MOD_LGUI \<longleftrightarrow> bit m 3 \<and> \<not> bit m 4" "m AND MOD_RGUI = MOD_RGUI \<longleftrightarrow> bit m 3 \<and> bit m 4"
  "m AND MOD_RCTL = MOD_LCTL \<longleftrightarrow> bit m 0 \<and> \<not> bit m 4" "m AND MOD_RCTL = MOD_RCTL \<longleftrightarrow> bit m 0 \<and> bit m 4"
  using two_bits [of 2 4 m] two_bits [of 3 4 m] two_bits [of 0 4 m] by (simp_all add: mod_defs)

lemma flip_two_bits:
  fixes m :: u8
  assumes "a \<noteq> b" and "a < 8" and "b < 8"
  shows "bit (m XOR (push_bit a 1 OR push_bit b 1)) i \<longleftrightarrow> (if i = a \<or> i = b then \<not> bit m i else bit m i)"
  using assms by (auto simp: bit_xor_iff bit_or_iff bit_mask_word)

lemma mod_flips:
  "bit (m XOR (MOD_LALT OR MOD_LGUI)) i \<longleftrightarrow> (if i = 2 \<or> i = 3 then \<not> bit m i else bit m i)"
  "bit (m XOR (MOD_LCTL OR MOD_LGUI)) i \<longleftrightarrow> (if i = 0 \<or> i = 3 then \<not> bit m i else bit m i)"
  using flip_two_bits [of 2 3 m i] flip_two_bits [of 0 3 m i] by (simp_all add: mod_defs)

text \<open>Which two of the packed bits the configuration exchanges on one side.\<close>

definition mod_swap :: "keymap_config_t \<Rightarrow> bool \<Rightarrow> nat \<Rightarrow> nat" where
  "mod_swap cfg right =
     (if (if right then swap_ralt_rgui cfg else swap_lalt_lgui cfg) then id(2 := 3, 3 := 2)
      else if (if right then swap_rctl_rgui cfg else swap_lctl_lgui cfg) then id(0 := 3, 3 := 0) else id)"

lemma bit_mod_config:
  assumes "plain_swaps cfg"
  shows "bit (mod_config cfg m) i \<longleftrightarrow> bit m (mod_swap cfg (bit m 4) i)"
proof -
  have "\<not> no_gui cfg" "\<not> (swap_lalt_lgui cfg \<and> swap_lctl_lgui cfg)" "\<not> (swap_ralt_rgui cfg \<and> swap_rctl_rgui cfg)"
    using assms by (auto simp: plain_swaps_def)
  then show ?thesis
    by (cases "bit m 4"; cases "swap_lalt_lgui cfg"; cases "swap_lctl_lgui cfg"; cases "swap_ralt_rgui cfg"; cases "swap_rctl_rgui cfg")
      (auto simp: mod_config_def mod_tests mod_flips mod_swap_def Let_def)
qed

lemma keycode_config_mods:
  assumes "plain_swaps cfg" and "\<not> swap_control_capslock cfg" and "i < 4"
  shows "keycode_config cfg (KC_LCTL + of_nat i + (if right then 4 else 0)) = KC_LCTL + of_nat (mod_swap cfg right i) + (if right then 4 else 0)"
proof -
  have "i = 0 \<or> i = 1 \<or> i = 2 \<or> i = 3"
    using assms(3) by auto
  then show ?thesis
    using assms(1,2) by (elim disjE; cases right) (simp_all add: keycode_config_def kc_defs mod_swap_def plain_swaps_def)
qed

lemma mod_swap_less: "i < 4 \<Longrightarrow> mod_swap cfg right i < 4" "mod_swap cfg right (mod_swap cfg right i) = i" "mod_swap cfg right 4 = 4"
  by (auto simp: mod_swap_def)

text \<open>The swaps of modifiers packed into a keycode are those of the modifier keys.\<close>

theorem mod_config_agrees:
  assumes "plain_swaps cfg" and "\<not> swap_control_capslock cfg"
  shows "set (packed_keys (mod_config cfg m)) = keycode_config cfg ` set (packed_keys m)"
proof -
  let ?r = "bit m 4" and ?key = "\<lambda>i. KC_LCTL + of_nat i + (if bit m 4 then 4 else 0)"
  have "set (packed_keys (mod_config cfg m)) = ?key ` {i. i < 4 \<and> bit m (mod_swap cfg ?r i)}"
    using mod_swap_less(3) [of cfg ?r] by (auto simp: packed_keys_def bit_mod_config [OF assms(1)])
  also have "{i. i < 4 \<and> bit m (mod_swap cfg ?r i)} = mod_swap cfg ?r ` {i. i < 4 \<and> bit m i}"
    using mod_swap_less(1,2) by (auto simp: image_iff) metis
  also have "?key ` \<dots> = keycode_config cfg ` ?key ` {i. i < 4 \<and> bit m i}"
    unfolding image_image by (rule image_cong) (simp_all only: keycode_config_mods [OF assms] mem_Collect_eq)
  finally show ?thesis
    by (simp add: packed_keys_def image_comp)
qed

theorem mod_config_agrees_witness:
  "set (packed_keys (mod_config demo_swaps MOD_LALT)) = keycode_config demo_swaps ` set (packed_keys MOD_LALT) \<and> packed_keys MOD_LALT = [KC_LALT]"
proof -
  have c: "plain_swaps demo_swaps" "\<not> swap_control_capslock demo_swaps" and k: "packed_keys MOD_LALT = [KC_LALT]"
    by code_simp+
  from mod_config_agrees [OF c] k show ?thesis
    by simp
qed

text \<open>Without the GUI keys the packed modifiers of the right hand become those of the left hand, other than the modifier keys themselves.\<close>

lemma no_gui_moves_right_mods:
  assumes "no_gui cfg" and "\<not> swap_ralt_rgui cfg" and "\<not> swap_rctl_rgui cfg"
  shows "mod_config cfg MOD_RCTL = MOD_LCTL" "keycode_config cfg KC_RCTL = KC_RCTL"
  using assms by (simp_all add: mod_config_def keycode_config_def mod_defs kc_defs)

section \<open>Layers with modifiers\<close>

text \<open>Comparisons of a keycode in a known range with constants.\<close>

lemma above: "a \<le> k \<Longrightarrow> c < a \<Longrightarrow> \<not> k \<le> c" "a \<le> k \<Longrightarrow> c < a \<Longrightarrow> k \<noteq> c" for k :: u16
  by auto

lemma below: "k \<le> b \<Longrightarrow> b < c \<Longrightarrow> \<not> c \<le> k" "k \<le> b \<Longrightarrow> b < c \<Longrightarrow> k \<noteq> c" for k :: u16
  by auto

lemma keycode_config_high: "0x100 \<le> k \<Longrightarrow> keycode_config cfg k = k"
  by (simp add: keycode_config_def kc_defs above)

lemma no_basic_keycode:
  assumes "0x100 \<le> k"
  shows "\<not> IS_BASIC_KEYCODE k" "\<not> IS_MOD_KEYCODE k" "\<not> IS_SYSTEM_KEYCODE k" "\<not> IS_CONSUMER_KEYCODE k" "\<not> IS_MOUSE_KEYCODE k" "k \<noteq> KC_TRNS"
  by (simp_all add: above [OF assms] IS_BASIC_KEYCODE_def IS_MOD_KEYCODE_def IS_SYSTEM_KEYCODE_def IS_CONSUMER_KEYCODE_def IS_MOUSE_KEYCODE_def kc_defs
      KC_TRNS_def)

lemma high_keycode: "a \<le> k \<Longrightarrow> 0x100 \<le> a \<Longrightarrow> 0x100 \<le> k" for k :: u16
  by (rule order.trans)

lemma goto_action:
  assumes "0x5200 \<le> k" and "k \<le> 0x521F"
  shows "action_for_keycode cfg k = ACTION_LAYER_GOTO (ucast (k AND 0x1F))"
  using assms unfolding action_for_keycode_def Let_def keycode_config_high [OF high_keycode [OF assms(1)], simplified]
  by (simp add: no_basic_keycode [OF high_keycode [OF assms(1)], simplified] above [OF assms(1)] below [OF assms(2)])

lemma momentary_action:
  assumes "0x5220 \<le> k" and "k \<le> 0x523F"
  shows "action_for_keycode cfg k = ACTION_LAYER_TAP (ucast (k AND 0x1F)) (of_nat OP_ON_OFF)"
  using assms unfolding action_for_keycode_def Let_def keycode_config_high [OF high_keycode [OF assms(1)], simplified]
  by (simp add: no_basic_keycode [OF high_keycode [OF assms(1)], simplified] above [OF assms(1)] below [OF assms(2)])

lemma default_layer_action:
  assumes "0x5240 \<le> k" and "k \<le> 0x525F"
  shows "action_for_keycode cfg k = ACTION_DEFAULT_LAYER_SET (ucast (k AND 0x1F))"
  using assms unfolding action_for_keycode_def Let_def keycode_config_high [OF high_keycode [OF assms(1)], simplified]
  by (simp add: no_basic_keycode [OF high_keycode [OF assms(1)], simplified] above [OF assms(1)] below [OF assms(2)])

lemma toggle_layer_action:
  assumes "0x5260 \<le> k" and "k \<le> 0x527F"
  shows "action_for_keycode cfg k = ACTION_LAYER_TOGGLE (ucast (k AND 0x1F))"
  using assms unfolding action_for_keycode_def Let_def keycode_config_high [OF high_keycode [OF assms(1)], simplified]
  by (simp add: no_basic_keycode [OF high_keycode [OF assms(1)], simplified] above [OF assms(1)] below [OF assms(2)])

lemma oneshot_layer_action:
  assumes "0x5280 \<le> k" and "k \<le> 0x529F"
  shows "action_for_keycode cfg k = ACTION_LAYER_TAP (ucast (k AND 0x1F)) (of_nat OP_ONESHOT)"
  using assms unfolding action_for_keycode_def Let_def keycode_config_high [OF high_keycode [OF assms(1)], simplified]
  by (simp add: no_basic_keycode [OF high_keycode [OF assms(1)], simplified] above [OF assms(1)] below [OF assms(2)])

lemma layer_mod_action:
  assumes "0x5000 \<le> k" and "k \<le> 0x51FF" and m: "m = mod_config cfg (ucast (k AND 0x1F))"
  shows "action_for_keycode cfg k = ACTION_LAYER_MODS (ucast (drop_bit 5 k AND 0xF)) (if bit m 4 then push_bit 4 (ucast m) else ucast m)"
proof -
  have k: "0x100 \<le> k"
    using assms(1) by (rule order.trans [rotated]) simp
  have b: "m AND 0x10 \<noteq> 0 \<longleftrightarrow> bit m 4"
    using and_bit_mask_eq_0 [of m 4] by simp
  show ?thesis
    unfolding action_for_keycode_def Let_def keycode_config_high [OF k] m [symmetric] b
    using assms(1,2) by (simp add: no_basic_keycode [OF k] above [OF assms(1)] below [OF assms(2)])
qed

lemma mod_config_five: "5 \<le> i \<Longrightarrow> bit (mod_config cfg m) i \<Longrightarrow> bit m i"
  by (auto simp: mod_config_def Let_def mod_flips bit_and_iff split: if_splits)

text \<open>Bits of numerals of a word type are bits of integers.\<close>

lemma mask_bits [simp]: "bit (0xF :: int) i \<longleftrightarrow> i < 4" "bit (0x1F :: int) i \<longleftrightarrow> i < 5" "bit (0xFF :: int) i \<longleftrightarrow> i < 8"
proof -
  have *: "(0xF :: int) = mask 4" "(0x1F :: int) = mask 5" "(0xFF :: int) = mask 8"
    by (simp_all add: mask_eq_exp_minus_1)
  show "bit (0xF :: int) i \<longleftrightarrow> i < 4" "bit (0x1F :: int) i \<longleftrightarrow> i < 5" "bit (0xFF :: int) i \<longleftrightarrow> i < 8"
    unfolding * by (auto simp: bit_mask_iff)
qed

lemma kind_bit: "n < 4" if "kind < 16" and "bit kind n" for kind :: nat
proof (rule ccontr)
  assume "\<not> n < 4"
  then have "(2 :: nat) ^ 4 \<le> 2 ^ n"
    by (intro power_increasing) auto
  with that(1) have "kind div 2 ^ n = 0"
    by simp
  with that(2) show False
    by (simp add: bit_iff_odd)
qed

lemma bit_ACTION: "kind < 16 \<Longrightarrow> bit (ACTION kind param) i \<longleftrightarrow> 12 \<le> i \<and> i < 16 \<and> bit kind (i - 12) \<or> bit param i"
  by (auto simp: ACTION_def bit_or_iff bit_push_bit_iff bit_of_nat_iff)

text \<open>A layer key with modifiers of the left hand gets its layer and modifiers; with modifiers of the right hand the modifiers are right, but the flag
  of the hand runs into the layer, so that the next odd layer is switched on instead of an even one.\<close>

theorem layer_mod_decode:
  assumes "0x5000 \<le> k" and "k \<le> 0x51FF" and "m = mod_config cfg (ucast (k AND 0x1F))" and "layer = ucast (drop_bit 5 k AND 0xF)"
  shows "action_kind_id (action_for_keycode cfg k) = ACT_LAYER_MODS \<and>
    layer_mods_mods (action_for_keycode cfg k) = (if bit m 4 then push_bit 4 m else m) \<and>
    layer_mods_layer (action_for_keycode cfg k) = (if bit m 4 then layer OR 1 else layer)"
proof -
  have m: "\<not> bit m i" if "5 \<le> i" for i
    using that mod_config_five [OF that, of cfg "ucast (k AND 0x1F)"] by (auto simp: assms(3) bit_simps)
  have l: "\<not> bit layer i" if "4 \<le> i" for i
    using that by (auto simp: assms(4) bit_simps)
  then have l': "i < 4" if "bit layer i" for i
    using that not_le by blast
  note a = layer_mod_action [OF assms(1-3), folded assms(4)]
  let ?a = "action_for_keycode cfg k"
  have kind: "ACT_LAYER_MODS < 16"
    by (simp add: ACT_LAYER_MODS_def)
  have b: "bit ?a i \<longleftrightarrow> i < 16 \<and> (12 \<le> i \<and> bit ACT_LAYER_MODS (i - 12) \<or> 8 \<le> i \<and> bit layer (i - 8) \<or>
      (if bit m 4 then 4 \<le> i \<and> bit m (i - 4) else bit m i))" for i
    using m l by (auto simp: a ACTION_LAYER_MODS_def bit_ACTION [OF kind] bit_or_iff bit_push_bit_iff bit_unsigned_iff
        dest: bit_imp_le_length)
  have "drop_bit 12 ?a = of_nat ACT_LAYER_MODS"
    by (rule bit_word_eqI) (auto simp: b bit_drop_bit_eq bit_of_nat_iff m l dest: kind_bit [OF kind])
  then have 1: "action_kind_id ?a = ACT_LAYER_MODS"
    by (simp add: action_kind_id_def ACT_LAYER_MODS_def)
  have 2: "layer_mods_mods ?a = (if bit m 4 then push_bit 4 m else m)"
    by (rule bit_word_eqI) (auto simp: b layer_mods_mods_def bit_push_bit_iff bit_unsigned_iff)
  have 3: "layer_mods_layer ?a = (if bit m 4 then layer OR 1 else layer)"
    by (rule bit_word_eqI) (auto simp: b layer_mods_layer_def bit_and_iff bit_or_iff bit_drop_bit_eq bit_unsigned_iff bit_1_iff m l dest: l')
  from 1 2 3 show ?thesis
    by blast
qed

theorem layer_mod_decode_witness: "layer_mods_layer (action_for_keycode demo_swaps 0x5052) = 3"
proof -
  have k: "(0x5000 :: u16) \<le> 0x5052" "(0x5052 :: u16) \<le> 0x51FF"
    by simp_all
  have "bit (mod_config demo_swaps (ucast (0x5052 AND 0x1F :: u16))) 4"
    by (simp add: mod_config_def demo_swaps_def mod_defs)
  with layer_mod_decode [OF k refl refl, of demo_swaps] show ?thesis
    by simp
qed

end
