(* ===== verification/Report.thy ===== *)
theory Report
  imports Bitwise
begin

text \<open>
  The keyboard report (\<^verbatim>\<open>tmk_core/protocol/report.c\<close>, \<^verbatim>\<open>report.h\<close>): the set of pressed keys, kept either as
  six key bytes (6KRO, the build without \<^verbatim>\<open>RING_BUFFERED_6KRO_REPORT_ENABLE\<close>) or as a bitmap of 240 keys
  (NKRO). The locale \<open>key_report\<close> states what both representations promise; a run of presses and releases
  is verified once against it.
\<close>

section \<open>Model\<close>

abbreviation KC_NO :: u8 where
  "KC_NO \<equiv> 0"

definition KEYBOARD_REPORT_KEYS :: nat where
  "KEYBOARD_REPORT_KEYS = 6"

definition NKRO_REPORT_BITS :: nat where
  "NKRO_REPORT_BITS = 30"

record report_keyboard_t =
  kb_mods :: u8
  kb_reserved :: u8
  keys :: "u8 list"

record report_nkro_t =
  nkro_report_id :: u8
  nkro_mods :: u8
  bits :: "u8 list"

text \<open>The two report buffers and the switches that choose between them.\<close>

record reports =
  keyboard_report :: report_keyboard_t
  nkro_report :: report_nkro_t
  keyboard_protocol :: bool
  nkro :: bool

text \<open>The search of \<^verbatim>\<open>add_key_byte\<close>: where it stops, and the first free slot met before.\<close>

fun add_key_search :: "u8 \<Rightarrow> nat \<Rightarrow> nat option \<Rightarrow> u8 list \<Rightarrow> nat \<times> nat option" where
  "add_key_search code i free [] = (i, free)"
| "add_key_search code i free (k # ks) =
     (if k = code then (i, free)
      else add_key_search code (i + 1) (if free = None \<and> k = 0 then Some i else free) ks)"

definition add_key_byte :: "u8 \<Rightarrow> report_keyboard_t \<Rightarrow> report_keyboard_t" where
  "add_key_byte code r =
     (let (i, free) = add_key_search code 0 None (keys r)
      in if i = KEYBOARD_REPORT_KEYS
         then case free of Some e \<Rightarrow> r\<lparr>keys := (keys r)[e := code]\<rparr> | None \<Rightarrow> r
         else r)"

definition del_key_byte :: "u8 \<Rightarrow> report_keyboard_t \<Rightarrow> report_keyboard_t" where
  "del_key_byte code r = r\<lparr>keys := map (\<lambda>k. if k = code then 0 else k) (keys r)\<rparr>"

definition add_key_bit :: "u8 \<Rightarrow> report_nkro_t \<Rightarrow> report_nkro_t" where
  "add_key_bit code r =
     (let i = unat (drop_bit 3 code)
      in if i < NKRO_REPORT_BITS then r\<lparr>bits := (bits r)[i := bits r ! i OR push_bit (unat (code AND 7)) 1]\<rparr> else r)"

definition del_key_bit :: "u8 \<Rightarrow> report_nkro_t \<Rightarrow> report_nkro_t" where
  "del_key_bit code r =
     (let i = unat (drop_bit 3 code)
      in if i < NKRO_REPORT_BITS then r\<lparr>bits := (bits r)[i := bits r ! i AND NOT (push_bit (unat (code AND 7)) 1)]\<rparr> else r)"

definition add_key_to_report :: "u8 \<Rightarrow> reports \<Rightarrow> reports" where
  "add_key_to_report key s =
     (if keyboard_protocol s \<and> nkro s then s\<lparr>nkro_report := add_key_bit key (nkro_report s)\<rparr>
      else s\<lparr>keyboard_report := add_key_byte key (keyboard_report s)\<rparr>)"

definition del_key_from_report :: "u8 \<Rightarrow> reports \<Rightarrow> reports" where
  "del_key_from_report key s =
     (if keyboard_protocol s \<and> nkro s then s\<lparr>nkro_report := del_key_bit key (nkro_report s)\<rparr>
      else s\<lparr>keyboard_report := del_key_byte key (keyboard_report s)\<rparr>)"

definition clear_keys_from_report :: "reports \<Rightarrow> reports" where
  "clear_keys_from_report s =
     (if keyboard_protocol s \<and> nkro s
      then s\<lparr>nkro_report := (nkro_report s)\<lparr>bits := replicate NKRO_REPORT_BITS 0\<rparr>\<rparr>
      else s\<lparr>keyboard_report := (keyboard_report s)\<lparr>keys := replicate KEYBOARD_REPORT_KEYS 0\<rparr>\<rparr>)"

definition is_key_pressed :: "u8 \<Rightarrow> reports \<Rightarrow> bool" where
  "is_key_pressed key s =
     (if key = KC_NO then False
      else if keyboard_protocol s \<and> nkro s then
        (if unat (drop_bit 3 key) < NKRO_REPORT_BITS
         then bits (nkro_report s) ! unat (drop_bit 3 key) AND push_bit (unat (key AND 7)) 1 \<noteq> 0
         else False)
      else key \<in> set (keys (keyboard_report s)))"

definition has_anykey :: "reports \<Rightarrow> u8" where
  "has_anykey s =
     (let p = (if keyboard_protocol s \<and> nkro s then bits (nkro_report s) else keys (keyboard_report s))
      in fold (\<lambda>b cnt. if b \<noteq> 0 then cnt + 1 else cnt) p 0)"

text \<open>\<^verbatim>\<open>get_first_key\<close>; \<open>None\<close> when it reads \<^verbatim>\<open>bits[NKRO_REPORT_BITS]\<close>, behind the array.\<close>

definition get_first_key :: "reports \<Rightarrow> u8 option" where
  "get_first_key s =
     (if keyboard_protocol s \<and> nkro s then
        let b = bits (nkro_report s); i = length (takeWhile (\<lambda>x. x = 0) b)
        in if i < length b then Some (push_bit 3 (word_of_nat i) OR biton (b ! i)) else None
      else Some (keys (keyboard_report s) ! 0))"

section \<open>Indices of the bitmap\<close>

lemma unat_drop_bit_3: "unat (drop_bit 3 (k :: u8)) = unat k div 8"
  by (simp add: drop_bit_eq_div unat_div)

lemma unat_and_7: "unat (k AND 7 :: u8) = unat k mod 8"
proof -
  have "k AND 7 = take_bit 3 k"
    by (simp add: take_bit_eq_mask mask_eq_exp_minus_1)
  then show ?thesis
    by (simp add: take_bit_eq_mod unat_mod)
qed

lemma bitmap_index_inj: "unat k div 8 = unat j div 8 \<and> unat k mod 8 = unat j mod 8 \<longleftrightarrow> k = (j :: u8)"
  by (metis div_mod_decomp word_unat_eq_iff)

section \<open>What a report promises\<close>

text \<open>Presses and releases, and the set of keys that are down after them.\<close>

datatype key_event = Press u8 | Release u8

fun keys_down :: "key_event list \<Rightarrow> u8 set \<Rightarrow> u8 set" where
  "keys_down [] S = S"
| "keys_down (Press k # es) S = keys_down es (insert k S)"
| "keys_down (Release k # es) S = keys_down es (S - {k})"

fun event_code :: "key_event \<Rightarrow> u8" where
  "event_code (Press k) = k"
| "event_code (Release k) = k"

fun report_run :: "(u8 \<Rightarrow> 'r \<Rightarrow> 'r) \<Rightarrow> (u8 \<Rightarrow> 'r \<Rightarrow> 'r) \<Rightarrow> key_event list \<Rightarrow> 'r \<Rightarrow> 'r" where
  "report_run add del [] r = r"
| "report_run add del (Press k # es) r = report_run add del es (add k r)"
| "report_run add del (Release k # es) r = report_run add del es (del k r)"

text \<open>\<open>fits S\<close>: a report can hold the keys \<open>S\<close>.\<close>

locale key_report =
  fixes valid :: "'r \<Rightarrow> bool" and keyset :: "'r \<Rightarrow> u8 set" and fits :: "u8 set \<Rightarrow> bool"
    and add :: "u8 \<Rightarrow> 'r \<Rightarrow> 'r" and del :: "u8 \<Rightarrow> 'r \<Rightarrow> 'r" and clear :: "'r \<Rightarrow> 'r" and is_pressed :: "u8 \<Rightarrow> 'r \<Rightarrow> bool"
  assumes add_valid: "valid r \<Longrightarrow> valid (add k r)"
    and add_fits: "valid r \<Longrightarrow> k \<noteq> KC_NO \<Longrightarrow> fits (insert k (keyset r)) \<Longrightarrow> keyset (add k r) = insert k (keyset r)"
    and add_full: "valid r \<Longrightarrow> keyset (add k r) \<subseteq> insert k (keyset r)"
    and del_law: "valid r \<Longrightarrow> valid (del k r) \<and> keyset (del k r) = keyset r - {k}"
    and clear_law: "valid r \<Longrightarrow> valid (clear r) \<and> keyset (clear r) = {}"
    and pressed_law: "valid r \<Longrightarrow> is_pressed k r \<longleftrightarrow> k \<in> keyset r"
    and keyset_nonzero: "valid r \<Longrightarrow> KC_NO \<notin> keyset r"
begin

lemma run_no_ghosts:
  "valid r \<Longrightarrow> keyset r \<subseteq> S \<Longrightarrow> valid (report_run add del es r) \<and> keyset (report_run add del es r) \<subseteq> keys_down es S"
proof (induction es arbitrary: r S)
  case (Cons e es)
  show ?case
  proof (cases e)
    case (Press k)
    then show ?thesis
      using Cons add_valid [of r k] add_full [of r k] by (simp add: subset_iff) blast
  next
    case (Release k)
    then show ?thesis
      using Cons.IH [of "del k r" "S - {k}"] Cons.prems del_law [of r k] by (simp add: Diff_mono)
  qed
qed simp

lemma run_exact:
  assumes "valid r" and "keyset r = S" and "\<forall>n\<le>length es. fits (keys_down (take n es) S)"
    and "KC_NO \<notin> event_code ` set es"
  shows "keyset (report_run add del es r) = keys_down es S"
  using assms
proof (induction es arbitrary: r S)
  case (Cons e es)
  have f: "\<forall>n\<le>length es. fits (keys_down (e # take n es) S)"
    using Cons.prems(3) by (metis Suc_le_mono length_Cons take_Suc_Cons)
  show ?case
  proof (cases e)
    case (Press k)
    with Cons.prems(4) have "k \<noteq> KC_NO"
      by auto
    moreover have "fits (insert k S)"
      using f Press by (metis keys_down.simps(1,2) take0 zero_le)
    ultimately have "keyset (add k r) = insert k S"
      using Cons.prems(1,2) add_fits by simp
    then show ?thesis
      using Cons.IH [of "add k r" "insert k S"] Cons.prems f Press add_valid by simp
  next
    case (Release k)
    have "keyset (del k r) = S - {k}" and "valid (del k r)"
      using Cons.prems(1,2) del_law by simp_all
    then show ?thesis
      using Cons.IH [of "del k r" "S - {k}"] Cons.prems f Release by simp
  qed
qed simp

end

section \<open>The six key bytes\<close>

definition kro6_valid :: "report_keyboard_t \<Rightarrow> bool" where
  "kro6_valid r \<longleftrightarrow> length (keys r) = KEYBOARD_REPORT_KEYS \<and> distinct (filter (\<lambda>k. k \<noteq> 0) (keys r))"

definition kro6_keyset :: "report_keyboard_t \<Rightarrow> u8 set" where
  "kro6_keyset r = set (keys r) - {0}"

lemma add_key_search_spec:
  "add_key_search code i free ks =
    (if code \<in> set ks
     then (i + length (takeWhile (\<lambda>k. k \<noteq> code) ks), snd (add_key_search code i free (takeWhile (\<lambda>k. k \<noteq> code) ks)))
     else (i + length ks,
       if free = None \<and> 0 \<in> set ks then Some (i + length (takeWhile (\<lambda>k. k \<noteq> 0) ks)) else free))"
  by (induction ks arbitrary: i free) auto

lemma add_key_search_not_in:
  "code \<notin> set ks \<Longrightarrow> add_key_search code 0 None ks =
    (length ks, if 0 \<in> set ks then Some (length (takeWhile (\<lambda>k. k \<noteq> 0) ks)) else None)"
  by (subst add_key_search_spec) simp

lemma add_key_search_in: "code \<in> set ks \<Longrightarrow> fst (add_key_search code 0 None ks) < length ks"
proof -
  assume "code \<in> set ks"
  then have "length (takeWhile (\<lambda>k. k \<noteq> code) ks) < length ks"
    by (induction ks) auto
  then show ?thesis
    using \<open>code \<in> set ks\<close> by (subst add_key_search_spec) simp
qed

lemma add_key_byte_cases:
  assumes "length (keys r) = KEYBOARD_REPORT_KEYS"
  shows "add_key_byte code r =
    (if code \<in> set (keys r) \<or> 0 \<notin> set (keys r) then r
     else r\<lparr>keys := (keys r)[length (takeWhile (\<lambda>k. k \<noteq> 0) (keys r)) := code]\<rparr>)"
  using assms add_key_search_not_in [of code "keys r"] add_key_search_in [of code "keys r"]
  by (cases "code \<in> set (keys r)") (auto simp: add_key_byte_def split: prod.splits)

lemma first_zero_split:
  assumes "0 \<in> set (ks :: u8 list)"
  obtains us vs where "ks = us @ 0 # vs" and "0 \<notin> set us" and "length (takeWhile (\<lambda>k. k \<noteq> 0) ks) = length us"
proof -
  obtain us vs where ks: "ks = us @ 0 # vs" and us: "0 \<notin> set us"
    using split_list_first [OF assms] by blast
  have "takeWhile (\<lambda>k. k \<noteq> 0) (us @ 0 # vs) = us"
    using us by (induction us) auto
  then show ?thesis
    using that [OF ks us] by (simp add: ks)
qed

lemma add_key_byte_spec:
  assumes "kro6_valid r"
  shows "kro6_valid (add_key_byte code r)"
    and "kro6_keyset (add_key_byte code r) = (if 0 \<in> set (keys r) then insert code (kro6_keyset r) - {0} else kro6_keyset r)"
proof -
  have len: "length (keys r) = KEYBOARD_REPORT_KEYS" and d: "distinct (filter (\<lambda>k. k \<noteq> 0) (keys r))"
    using assms by (simp_all add: kro6_valid_def)
  have "kro6_valid (add_key_byte code r) \<and> kro6_keyset (add_key_byte code r) =
      (if 0 \<in> set (keys r) then insert code (kro6_keyset r) - {0} else kro6_keyset r)"
  proof (cases "code \<in> set (keys r) \<or> 0 \<notin> set (keys r)")
    case True
    then show ?thesis
      using assms by (auto simp: add_key_byte_cases [OF len] kro6_keyset_def)
  next
    case False
    then obtain us vs where ks: "keys r = us @ 0 # vs" "0 \<notin> set us" "length (takeWhile (\<lambda>k. k \<noteq> 0) (keys r)) = length us"
      using first_zero_split by blast
    have "add_key_byte code r = r\<lparr>keys := us @ code # vs\<rparr>"
      using False ks by (simp add: add_key_byte_cases [OF len])
    then show ?thesis
      using False ks d len by (auto simp: kro6_valid_def kro6_keyset_def)
  qed
  then show "kro6_valid (add_key_byte code r)"
    and "kro6_keyset (add_key_byte code r) = (if 0 \<in> set (keys r) then insert code (kro6_keyset r) - {0} else kro6_keyset r)"
    by blast+
qed

lemma kro6_full:
  assumes "kro6_valid r" and "0 \<notin> set (keys r)"
  shows "card (kro6_keyset r) = KEYBOARD_REPORT_KEYS"
proof -
  have "filter (\<lambda>k. k \<noteq> 0) (keys r) = keys r"
    using assms(2) by (auto simp: filter_id_conv)
  then have "distinct (keys r)" and "kro6_keyset r = set (keys r)"
    using assms by (auto simp: kro6_valid_def kro6_keyset_def)
  then show ?thesis
    using assms(1) by (simp add: distinct_card kro6_valid_def)
qed

lemma distinct_del: "distinct (filter (\<lambda>k. k \<noteq> 0) ks) \<Longrightarrow> distinct (filter (\<lambda>k. k \<noteq> 0) (map (\<lambda>k. if k = c then 0 else k) ks))"
  for c :: u8
  by (induction ks) (auto split: if_splits)

abbreviation kro6_clear :: "report_keyboard_t \<Rightarrow> report_keyboard_t" where
  "kro6_clear r \<equiv> r\<lparr>keys := replicate KEYBOARD_REPORT_KEYS 0\<rparr>"

interpretation kro6: key_report kro6_valid kro6_keyset "\<lambda>S. card S \<le> KEYBOARD_REPORT_KEYS" add_key_byte del_key_byte kro6_clear
    "\<lambda>k r. k \<noteq> KC_NO \<and> k \<in> set (keys r)"
proof (unfold_locales, goal_cases)
  case (1 r k)
  then show ?case by (rule add_key_byte_spec)
next
  case (2 r k)
  have "k \<in> kro6_keyset r" if "0 \<notin> set (keys r)"
  proof (rule ccontr)
    assume "k \<notin> kro6_keyset r"
    then have "card (insert k (kro6_keyset r)) = Suc KEYBOARD_REPORT_KEYS"
      using kro6_full [OF 2(1) that] by (simp add: kro6_keyset_def)
    with 2(3) show False
      by simp
  qed
  then show ?case
    using add_key_byte_spec(2) [OF 2(1), of k] 2(2) by (auto simp: kro6_keyset_def)
next
  case (3 r k)
  then show ?case
    using add_key_byte_spec(2) by auto
next
  case (4 r k)
  then show ?case
    using distinct_del [of "keys r" k] by (auto simp: kro6_valid_def kro6_keyset_def del_key_byte_def)
next
  case (5 r)
  then show ?case
    by (auto simp: kro6_valid_def kro6_keyset_def)
qed (auto simp: kro6_keyset_def)

section \<open>The bitmap\<close>

definition nkro_valid :: "report_nkro_t \<Rightarrow> bool" where
  "nkro_valid r \<longleftrightarrow> length (bits r) = NKRO_REPORT_BITS"

definition nkro_keyset :: "report_nkro_t \<Rightarrow> u8 set" where
  "nkro_keyset r = {k. k \<noteq> 0 \<and> unat k < 8 * NKRO_REPORT_BITS \<and> bit (bits r ! (unat k div 8)) (unat k mod 8)}"

definition nkro_fits :: "u8 set \<Rightarrow> bool" where
  "nkro_fits S \<longleftrightarrow> (\<forall>k\<in>S. unat k < 8 * NKRO_REPORT_BITS)"

abbreviation nkro_clear :: "report_nkro_t \<Rightarrow> report_nkro_t" where
  "nkro_clear r \<equiv> r\<lparr>bits := replicate NKRO_REPORT_BITS 0\<rparr>"

lemmas bitmap_defs = unat_drop_bit_3 unat_and_7 bit_or_iff bit_and_iff bit_not_iff bit_mask_word

lemma add_key_bit_keyset:
  assumes "nkro_valid r"
  shows "nkro_keyset (add_key_bit k r) = (if unat k < 8 * NKRO_REPORT_BITS then insert k (nkro_keyset r) - {0} else nkro_keyset r)"
proof -
  have "unat j mod 8 = unat k mod 8 \<and> unat k div 8 = unat j div 8 \<longleftrightarrow> j = k" for j
    using bitmap_index_inj [of j k] by auto
  then show ?thesis
    using assms
    by (auto simp: nkro_keyset_def add_key_bit_def nkro_valid_def Let_def bitmap_defs nth_list_update NKRO_REPORT_BITS_def
        div_less_iff_less_mult)
qed

lemma del_key_bit_keyset:
  assumes "nkro_valid r"
  shows "nkro_keyset (del_key_bit k r) = nkro_keyset r - {k}"
proof -
  have "unat j mod 8 = unat k mod 8 \<and> unat k div 8 = unat j div 8 \<longleftrightarrow> j = k" for j
    using bitmap_index_inj [of j k] by auto
  then show ?thesis
    using assms
    by (auto simp: nkro_keyset_def del_key_bit_def nkro_valid_def Let_def bitmap_defs nth_list_update NKRO_REPORT_BITS_def
        div_less_iff_less_mult)
qed

definition nkro_pressed :: "u8 \<Rightarrow> report_nkro_t \<Rightarrow> bool" where
  "nkro_pressed key r \<longleftrightarrow> key \<noteq> KC_NO \<and> unat (drop_bit 3 key) < NKRO_REPORT_BITS \<and>
     bits r ! unat (drop_bit 3 key) AND push_bit (unat (key AND 7)) 1 \<noteq> 0"

interpretation nkro: key_report nkro_valid nkro_keyset nkro_fits add_key_bit del_key_bit nkro_clear nkro_pressed
proof (unfold_locales, goal_cases)
  case (1 r k)
  then show ?case by (simp add: nkro_valid_def add_key_bit_def Let_def)
next
  case (2 r k)
  have zero: "0 \<notin> nkro_keyset r"
    by (simp add: nkro_keyset_def)
  from 2 show ?case
    using add_key_bit_keyset [OF 2(1), of k] zero by (auto simp: nkro_fits_def)
next
  case (3 r k)
  then show ?case
    by (auto simp: add_key_bit_keyset)
next
  case (4 r k)
  then show ?case
    by (simp add: del_key_bit_keyset) (simp add: nkro_valid_def del_key_bit_def Let_def)
next
  case (5 r)
  then show ?case
    by (auto simp: nkro_valid_def nkro_keyset_def NKRO_REPORT_BITS_def)
next
  case (6 r k)
  then show ?case
    by (auto simp: nkro_pressed_def nkro_keyset_def unat_drop_bit_3 unat_and_7 NKRO_REPORT_BITS_def)
qed (simp add: nkro_keyset_def)

section \<open>The report in use\<close>

definition nkro_mode :: "reports \<Rightarrow> bool" where
  "nkro_mode s \<longleftrightarrow> keyboard_protocol s \<and> nkro s"

definition reports_valid :: "bool \<Rightarrow> reports \<Rightarrow> bool" where
  "reports_valid m s \<longleftrightarrow> kro6_valid (keyboard_report s) \<and> nkro_valid (nkro_report s) \<and> nkro_mode s = m"

definition report_fits :: "bool \<Rightarrow> u8 set \<Rightarrow> bool" where
  "report_fits m S \<longleftrightarrow> (if m then nkro_fits S else card S \<le> KEYBOARD_REPORT_KEYS)"

definition reported :: "reports \<Rightarrow> u8 set" where
  "reported s = {k. is_key_pressed k s}"

lemma is_key_pressed_cases:
  "is_key_pressed k s \<longleftrightarrow>
    (if nkro_mode s then nkro_pressed k (nkro_report s) else k \<noteq> KC_NO \<and> k \<in> set (keys (keyboard_report s)))"
  by (simp add: is_key_pressed_def nkro_mode_def nkro_pressed_def)

lemma reported_cases:
  assumes "reports_valid m s"
  shows "reported s = (if m then nkro_keyset (nkro_report s) else kro6_keyset (keyboard_report s))"
  using assms nkro.pressed_law kro6.pressed_law
  by (auto simp: reported_def is_key_pressed_cases reports_valid_def)

interpretation rep: key_report "reports_valid m" reported "report_fits m" add_key_to_report del_key_from_report
    clear_keys_from_report is_key_pressed for m
proof (unfold_locales, goal_cases)
  case (1 r k)
  then show ?case
    using nkro.add_valid kro6.add_valid by (simp add: reports_valid_def nkro_mode_def add_key_to_report_def)
next
  case (2 r k)
  have "reports_valid m (add_key_to_report k r)"
    using 2(1) nkro.add_valid kro6.add_valid by (simp add: reports_valid_def nkro_mode_def add_key_to_report_def)
  then show ?case
    using 2 nkro.add_fits [of "nkro_report r" k] kro6.add_fits [of "keyboard_report r" k]
    by (simp add: reported_cases [of m] report_fits_def)
      (simp add: add_key_to_report_def reports_valid_def nkro_mode_def split: if_splits)
next
  case (3 r k)
  have "reports_valid m (add_key_to_report k r)"
    using 3 nkro.add_valid kro6.add_valid by (simp add: reports_valid_def nkro_mode_def add_key_to_report_def)
  then show ?case
    using 3 nkro.add_full [of "nkro_report r" k] kro6.add_full [of "keyboard_report r" k]
    by (simp add: reported_cases [of m])
      (simp add: add_key_to_report_def reports_valid_def nkro_mode_def split: if_splits)
next
  case (4 r k)
  have v: "reports_valid m (del_key_from_report k r)"
    using 4 nkro.del_law kro6.del_law by (simp add: reports_valid_def nkro_mode_def del_key_from_report_def)
  then show ?case
    using 4 nkro.del_law [of "nkro_report r" k] kro6.del_law [of "keyboard_report r" k]
    by (simp add: reported_cases [of m])
      (simp add: del_key_from_report_def reports_valid_def nkro_mode_def split: if_splits)
next
  case (5 r)
  have v: "reports_valid m (clear_keys_from_report r)"
    using 5 nkro.clear_law kro6.clear_law by (simp add: reports_valid_def nkro_mode_def clear_keys_from_report_def)
  then show ?case
    using 5 nkro.clear_law [of "nkro_report r"] kro6.clear_law [of "keyboard_report r"]
    by (simp add: reported_cases [of m])
      (simp add: clear_keys_from_report_def reports_valid_def nkro_mode_def split: if_splits)
next
  case (6 r k)
  then show ?case
    by (simp add: reported_def)
next
  case (7 r)
  then show ?case
    by (simp add: reported_def is_key_pressed_def)
qed

section \<open>Properties\<close>

text \<open>C27: While the keys that are down fit the report (at most six of them, or codes below 240 for the bitmap),
  the report shows exactly the keys that are down, after every sequence of presses and releases.\<close>

theorem report_tracks_keys:
  assumes "reports_valid m s" and "\<forall>n\<le>length es. report_fits m (keys_down (take n es) {})" and "KC_NO \<notin> event_code ` set es"
  shows "reported (report_run add_key_to_report del_key_from_report es (clear_keys_from_report s)) = keys_down es {}"
  using rep.clear_law [OF assms(1)] rep.run_exact [OF _ _ assms(2,3)] by blast

definition fresh_reports :: "bool \<Rightarrow> reports" where
  "fresh_reports m = \<lparr>keyboard_report = \<lparr>kb_mods = 0, kb_reserved = 0, keys = replicate 6 0\<rparr>,
     nkro_report = \<lparr>nkro_report_id = 6, nkro_mods = 0, bits = replicate 30 0\<rparr>, keyboard_protocol = True, nkro = m\<rparr>"

lemma fresh_reports_valid: "reports_valid m (fresh_reports m)"
  by (simp add: reports_valid_def fresh_reports_def kro6_valid_def nkro_valid_def nkro_mode_def KEYBOARD_REPORT_KEYS_def
      NKRO_REPORT_BITS_def)

theorem report_tracks_keys_witness:
  "reported (report_run add_key_to_report del_key_from_report [Press 4, Press 5, Release 4, Press 6]
     (clear_keys_from_report (fresh_reports True))) = {5, 6}"
proof -
  let ?es = "[Press 4, Press 5, Release 4, Press 6]"
  have "report_fits True (keys_down (take n ?es) {})" for n
    by (cases n rule: nat.exhaust; cases "n - 1"; cases "n - 2"; cases "n - 3")
      (auto simp: report_fits_def nkro_fits_def NKRO_REPORT_BITS_def)
  moreover have "KC_NO \<notin> event_code ` set ?es"
    by simp
  ultimately show ?thesis
    using report_tracks_keys [OF fresh_reports_valid [of True], of ?es] by (auto simp: insert_Diff_if)
qed

text \<open>Even when more keys are pressed than the report can hold, it never shows a key that is not down; when
  every key has been released it is empty.\<close>

theorem report_no_ghost_keys:
  assumes "reports_valid m s"
  shows "reported (report_run add_key_to_report del_key_from_report es (clear_keys_from_report s)) \<subseteq> keys_down es {}"
  using rep.clear_law [OF assms] rep.run_no_ghosts by blast

theorem report_no_ghost_keys_witness:
  "reported (report_run add_key_to_report del_key_from_report
     [Press 4, Press 5, Press 6, Press 7, Press 8, Press 9, Press 10, Release 4, Release 5, Release 6, Release 7, Release 8, Release 9, Release 10]
     (clear_keys_from_report (fresh_reports False))) = {}"
  using report_no_ghost_keys [OF fresh_reports_valid, of
      "[Press 4, Press 5, Press 6, Press 7, Press 8, Press 9, Press 10, Release 4, Release 5, Release 6, Release 7, Release 8, Release 9, Release 10]" False]
  by auto

lemma first_nonzero:
  assumes "i = length (takeWhile (\<lambda>x. x = 0) bs)" and "\<exists>b\<in>set bs. b \<noteq> (0 :: u8)"
  shows "i < length bs" and "bs ! i \<noteq> 0" and "j < i \<Longrightarrow> bs ! j = 0"
proof -
  show "i < length bs"
    unfolding assms(1) using assms(2) by (induction bs) auto
  then show "bs ! i \<noteq> 0"
    using nth_length_takeWhile assms(1) by blast
  show "bs ! j = 0" if "j < i"
    using that set_takeWhileD [of "bs ! j" "\<lambda>x. x = 0" bs] assms(1) by (metis nth_mem takeWhile_nth)
qed

lemma highest_bit:
  assumes "w \<noteq> 0"
  shows "bit w (highest w)" and "highest w < n \<Longrightarrow> \<not> bit w n"
proof -
  have "Max (bits_of w) \<in> bits_of w"
    using assms by (intro Max_in) simp_all
  then show "bit w (highest w)"
    using assms by (simp add: highest_def bits_of_def)
  show "\<not> bit w n" if "highest w < n"
    using that assms Max_ge [of "bits_of w" n] by (auto simp: highest_def) (auto simp: bits_of_def)
qed

lemma bitmap_code:
  assumes "i < 30" and "n < 8"
  shows "unat (push_bit 3 (word_of_nat i) OR word_of_nat n :: u8) = 8 * i + n"
proof -
  have "push_bit 3 (word_of_nat i) OR word_of_nat n = (push_bit 3 (word_of_nat i) + word_of_nat n :: u8)"
  proof (rule disjunctive_add [symmetric])
    fix k
    have "k < 3" if "bit n k"
    proof (rule ccontr)
      assume "\<not> k < 3"
      then have "8 \<le> (2 :: nat) ^ k"
        using power_increasing [of 3 k "2 :: nat"] by simp
      with assms(2) have "n div 2 ^ k = 0"
        by simp
      with that show False
        by (simp add: bit_iff_odd)
    qed
    then show "\<not> bit (push_bit 3 (word_of_nat i) :: u8) k \<or> \<not> bit (word_of_nat n :: u8) k"
      by (auto simp: bit_push_bit_iff bit_of_nat_iff)
  qed
  also have "unat \<dots> = 8 * i + n"
    using assms by (simp add: push_bit_eq_mult unat_word_ariths unat_of_nat)
  finally show ?thesis .
qed

text \<open>\<^verbatim>\<open>get_first_key\<close> in NKRO mode: with no key in the bitmap it reads behind the array; otherwise it returns a
  key of the lowest byte in use, the highest one of that byte.\<close>

theorem get_first_key_nkro:
  assumes "reports_valid True s"
  shows "(get_first_key s = None \<longleftrightarrow> (\<forall>b\<in>set (bits (nkro_report s)). b = 0)) \<and>
    (get_first_key s = Some k \<longrightarrow> unat k < 240 \<and> bit (bits (nkro_report s) ! (unat k div 8)) (unat k mod 8) \<and>
      (\<forall>j. unat j < 240 \<and> bit (bits (nkro_report s) ! (unat j div 8)) (unat j mod 8) \<longrightarrow>
         unat k div 8 \<le> unat j div 8 \<and> (unat j div 8 = unat k div 8 \<longrightarrow> j \<le> (k :: u8))))"
proof -
  define B where "B = bits (nkro_report s)"
  define i where "i = length (takeWhile (\<lambda>x. x = 0) B)"
  have mode: "keyboard_protocol s \<and> nkro s" and len: "length B = 30"
    using assms by (simp_all add: reports_valid_def nkro_mode_def nkro_valid_def NKRO_REPORT_BITS_def B_def)
  have g: "get_first_key s = (if i < 30 then Some (push_bit 3 (word_of_nat i) OR biton (B ! i)) else None)"
    using mode len by (simp add: get_first_key_def Let_def B_def [symmetric] i_def)
  show ?thesis
  proof (cases "\<forall>b\<in>set B. b = 0")
    case True
    then have "takeWhile (\<lambda>x. x = 0) B = B"
      by (simp add: takeWhile_eq_all_conv)
    then have "i = 30"
      unfolding i_def len [symmetric] by (rule arg_cong)
    with True g show ?thesis
      by (simp add: B_def [symmetric])
  next
    case False
    then have ex: "\<exists>b\<in>set B. b \<noteq> 0"
      by blast
    note f = first_nonzero [OF i_def ex, unfolded len]
    let ?h = "highest (B ! i)"
    have h: "?h < 8"
      using highest_less [of "B ! i"] by simp
    have b: "biton (B ! i) = word_of_nat ?h"
      using biton_correct [of "B ! i" 0 0] by (intro word_unat_eq_iff [THEN iffD2]) (use h in \<open>simp add: unsigned_of_nat take_bit_eq_mod\<close>)
    have u: "unat (push_bit 3 (word_of_nat i) OR biton (B ! i)) = 8 * i + ?h"
      unfolding b using f(1) h by (rule bitmap_code)
    have low: "i \<le> unat j div 8" if "bit (B ! (unat j div 8)) (unat j mod 8)" for j :: u8
      using that f(3) by (metis bit_0_eq not_le bot_apply bot_bool_def)
    have high: "unat j mod 8 \<le> ?h" if "bit (B ! i) (unat j mod 8)" for j :: u8
      using that highest_bit(2) [OF f(2)] not_less by blast
    have "k = push_bit 3 (word_of_nat i) OR biton (B ! i) \<Longrightarrow>
      unat k < 240 \<and> bit (B ! (unat k div 8)) (unat k mod 8) \<and>
      (\<forall>j. unat j < 240 \<and> bit (B ! (unat j div 8)) (unat j mod 8) \<longrightarrow>
         unat k div 8 \<le> unat j div 8 \<and> (unat j div 8 = unat k div 8 \<longrightarrow> j \<le> k))"
    proof -
      assume "k = push_bit 3 (word_of_nat i) OR biton (B ! i)"
      then have k: "unat k = 8 * i + ?h" "unat k div 8 = i" "unat k mod 8 = ?h"
        using u h by simp_all
      have "j \<le> k" if "unat j div 8 = i" "bit (B ! i) (unat j mod 8)" for j :: u8
      proof -
        have "unat j = 8 * i + unat j mod 8"
          using that(1) by (metis mult_div_mod_eq)
        with high [OF that(2)] k(1) show ?thesis
          by (simp add: word_le_nat_alt)
      qed
      with k f(1) h low highest_bit(1) [OF f(2)] show ?thesis
        by auto
    qed
    with g f(1) False show ?thesis
      unfolding B_def [symmetric] by auto
  qed
qed

theorem get_first_key_nkro_witness: "get_first_key (fresh_reports True) = None"
proof -
  have "\<forall>b\<in>set (bits (nkro_report (fresh_reports True))). b = 0"
    by (simp add: fresh_reports_def)
  then show ?thesis
    using get_first_key_nkro [OF fresh_reports_valid] by blast
qed

end
