(* ===== verification/Action_Util.thy ===== *)
theory Action_Util
  imports Report Tapping
begin

text \<open>
  Modifiers, one-shot modifiers and layers, and the sending of keyboard reports (\<^verbatim>\<open>quantum/action_util.c\<close>, with \<^verbatim>\<open>host_keyboard_send\<close> and
  \<^verbatim>\<open>host_nkro_send\<close> of \<^verbatim>\<open>tmk_core/protocol/host.c\<close>). \<open>T\<close> is \<^verbatim>\<open>ONESHOT_TIMEOUT\<close>, zero when it is not defined; \<open>now\<close> is \<^verbatim>\<open>timer_read()\<close>. The build has neither
  \<^verbatim>\<open>KEY_OVERRIDE_ENABLE\<close>, \<^verbatim>\<open>SWAP_HANDS_ENABLE\<close> nor a neutralizer keycode, and the hooks for changes do nothing. Operations that have an effect outside return it in a list.
\<close>

section \<open>Model\<close>

record action_util =
  real_mods :: u8
  weak_mods :: u8
  oneshot_mods :: u8
  oneshot_locked_mods :: u8
  oneshot_time :: u16
  oneshot_layer_data :: u8
  oneshot_layer_time :: u16
  last_report_6kro :: report_keyboard_t
  last_report_nkro :: report_nkro_t
  reports_of :: reports
  layers_of :: layers
  cfg_oneshot_enable :: bool
  driver :: bool

datatype host_call = Host_keyboard report_keyboard_t | Host_nkro report_nkro_t | Update_keymap_config

subsection \<open>One-shot modifiers\<close>

definition add_oneshot_locked_mods :: "u8 \<Rightarrow> action_util \<Rightarrow> action_util" where
  "add_oneshot_locked_mods mods s =
     (if oneshot_locked_mods s AND mods \<noteq> mods then s\<lparr>oneshot_locked_mods := oneshot_locked_mods s OR mods\<rparr> else s)"

definition set_oneshot_locked_mods :: "u8 \<Rightarrow> action_util \<Rightarrow> action_util" where
  "set_oneshot_locked_mods mods s = (if mods \<noteq> oneshot_locked_mods s then s\<lparr>oneshot_locked_mods := mods\<rparr> else s)"

definition clear_oneshot_locked_mods :: "action_util \<Rightarrow> action_util" where
  "clear_oneshot_locked_mods s = (if oneshot_locked_mods s \<noteq> 0 then s\<lparr>oneshot_locked_mods := 0\<rparr> else s)"

definition del_oneshot_locked_mods :: "u8 \<Rightarrow> action_util \<Rightarrow> action_util" where
  "del_oneshot_locked_mods mods s =
     (if oneshot_locked_mods s AND mods \<noteq> 0 then s\<lparr>oneshot_locked_mods := oneshot_locked_mods s AND NOT mods\<rparr> else s)"

definition has_oneshot_mods_timed_out :: "u16 \<Rightarrow> u16 \<Rightarrow> action_util \<Rightarrow> bool" where
  "has_oneshot_mods_timed_out T now s = (if 0 < T then T \<le> TIMER_DIFF_16 now (oneshot_time s) else False)"

definition add_oneshot_mods :: "u16 \<Rightarrow> u16 \<Rightarrow> u8 \<Rightarrow> action_util \<Rightarrow> action_util" where
  "add_oneshot_mods T now mods s =
     (if oneshot_mods s AND mods \<noteq> mods
      then let s = (if 0 < T then s\<lparr>oneshot_time := now\<rparr> else s) in s\<lparr>oneshot_mods := oneshot_mods s OR mods\<rparr>
      else s)"

definition del_oneshot_mods :: "u16 \<Rightarrow> u16 \<Rightarrow> u8 \<Rightarrow> action_util \<Rightarrow> action_util" where
  "del_oneshot_mods T now mods s =
     (if oneshot_mods s AND mods \<noteq> 0
      then let s = s\<lparr>oneshot_mods := oneshot_mods s AND NOT mods\<rparr>
           in if 0 < T then s\<lparr>oneshot_time := (if oneshot_mods s \<noteq> 0 then now else 0)\<rparr> else s
      else s)"

definition set_oneshot_mods :: "u16 \<Rightarrow> u16 \<Rightarrow> u8 \<Rightarrow> action_util \<Rightarrow> action_util" where
  "set_oneshot_mods T now mods s =
     (if cfg_oneshot_enable s \<and> oneshot_mods s \<noteq> mods
      then let s = (if 0 < T then s\<lparr>oneshot_time := now\<rparr> else s) in s\<lparr>oneshot_mods := mods\<rparr>
      else s)"

definition clear_oneshot_mods :: "u16 \<Rightarrow> action_util \<Rightarrow> action_util" where
  "clear_oneshot_mods T s =
     (if oneshot_mods s \<noteq> 0 then let s = s\<lparr>oneshot_mods := 0\<rparr> in if 0 < T then s\<lparr>oneshot_time := 0\<rparr> else s else s)"

subsection \<open>One-shot layer\<close>

definition ONESHOT_PRESSED :: u8 where "ONESHOT_PRESSED = 1"
definition ONESHOT_OTHER_KEY_PRESSED :: u8 where "ONESHOT_OTHER_KEY_PRESSED = 2"
definition ONESHOT_START :: u8 where "ONESHOT_START = 3"
definition ONESHOT_TOGGLED :: u8 where "ONESHOT_TOGGLED = 4"

lemmas oneshot_constants = ONESHOT_PRESSED_def ONESHOT_OTHER_KEY_PRESSED_def ONESHOT_START_def ONESHOT_TOGGLED_def

definition get_oneshot_layer :: "action_util \<Rightarrow> u8" where
  "get_oneshot_layer s = drop_bit 3 (oneshot_layer_data s)"

definition get_oneshot_layer_state :: "action_util \<Rightarrow> u8" where
  "get_oneshot_layer_state s = oneshot_layer_data s AND 7"

definition has_oneshot_layer_timed_out :: "u16 \<Rightarrow> u16 \<Rightarrow> action_util \<Rightarrow> bool" where
  "has_oneshot_layer_timed_out T now s \<longleftrightarrow>
     T \<le> TIMER_DIFF_16 now (oneshot_layer_time s) \<and> get_oneshot_layer_state s AND ONESHOT_TOGGLED = 0"

definition set_oneshot_layer :: "u16 \<Rightarrow> u16 \<Rightarrow> u8 \<Rightarrow> u8 \<Rightarrow> action_util \<Rightarrow> action_util" where
  "set_oneshot_layer T now layer state s =
     (if cfg_oneshot_enable s then
        let s = s\<lparr>oneshot_layer_data := push_bit 3 layer OR state\<rparr>;
            s = s\<lparr>layers_of := layer_on layer (layers_of s)\<rparr>
        in if 0 < T then s\<lparr>oneshot_layer_time := now\<rparr> else s
      else s\<lparr>layers_of := layer_on layer (layers_of s)\<rparr>)"

definition reset_oneshot_layer :: "u16 \<Rightarrow> action_util \<Rightarrow> action_util" where
  "reset_oneshot_layer T s = (let s = s\<lparr>oneshot_layer_data := 0\<rparr> in if 0 < T then s\<lparr>oneshot_layer_time := 0\<rparr> else s)"

definition clear_oneshot_layer_state :: "u16 \<Rightarrow> u8 \<Rightarrow> action_util \<Rightarrow> action_util" where
  "clear_oneshot_layer_state T state s =
     (let start_state = oneshot_layer_data s;
          s = s\<lparr>oneshot_layer_data := oneshot_layer_data s AND NOT state\<rparr>
      in if get_oneshot_layer_state s = 0 \<and> start_state \<noteq> oneshot_layer_data s \<and> cfg_oneshot_enable s
         then reset_oneshot_layer T (s\<lparr>layers_of := layer_off (get_oneshot_layer s) (layers_of s)\<rparr>)
         else s)"

definition is_oneshot_layer_active :: "action_util \<Rightarrow> bool" where
  "is_oneshot_layer_active s \<longleftrightarrow> get_oneshot_layer_state s \<noteq> 0"

definition oneshot_set :: "u16 \<Rightarrow> bool \<Rightarrow> action_util \<Rightarrow> host_call list \<times> action_util" where
  "oneshot_set T active s =
     (if cfg_oneshot_enable s \<noteq> active
      then ([Update_keymap_config], clear_oneshot_layer_state T ONESHOT_OTHER_KEY_PRESSED (s\<lparr>cfg_oneshot_enable := active\<rparr>))
      else ([], s))"

definition oneshot_toggle :: "u16 \<Rightarrow> action_util \<Rightarrow> host_call list \<times> action_util" where
  "oneshot_toggle T s = oneshot_set T (\<not> cfg_oneshot_enable s) s"

definition oneshot_enable :: "u16 \<Rightarrow> action_util \<Rightarrow> host_call list \<times> action_util" where
  "oneshot_enable T s = oneshot_set T True s"

definition oneshot_disable :: "u16 \<Rightarrow> action_util \<Rightarrow> host_call list \<times> action_util" where
  "oneshot_disable T s = oneshot_set T False s"

subsection \<open>Modifiers and keys\<close>

definition add_mods :: "u8 \<Rightarrow> action_util \<Rightarrow> action_util" where
  "add_mods mods s = s\<lparr>real_mods := real_mods s OR mods\<rparr>"

definition del_mods :: "u8 \<Rightarrow> action_util \<Rightarrow> action_util" where
  "del_mods mods s = s\<lparr>real_mods := real_mods s AND NOT mods\<rparr>"

definition set_mods :: "u8 \<Rightarrow> action_util \<Rightarrow> action_util" where
  "set_mods mods s = s\<lparr>real_mods := mods\<rparr>"

definition clear_mods :: "action_util \<Rightarrow> action_util" where
  "clear_mods s = s\<lparr>real_mods := 0\<rparr>"

definition add_weak_mods :: "u8 \<Rightarrow> action_util \<Rightarrow> action_util" where
  "add_weak_mods mods s = s\<lparr>weak_mods := weak_mods s OR mods\<rparr>"

definition del_weak_mods :: "u8 \<Rightarrow> action_util \<Rightarrow> action_util" where
  "del_weak_mods mods s = s\<lparr>weak_mods := weak_mods s AND NOT mods\<rparr>"

definition set_weak_mods :: "u8 \<Rightarrow> action_util \<Rightarrow> action_util" where
  "set_weak_mods mods s = s\<lparr>weak_mods := mods\<rparr>"

definition clear_weak_mods :: "action_util \<Rightarrow> action_util" where
  "clear_weak_mods s = s\<lparr>weak_mods := 0\<rparr>"

definition has_anymod :: "action_util \<Rightarrow> u8" where
  "has_anymod s = bitpop (real_mods s)"

definition add_key :: "u8 \<Rightarrow> action_util \<Rightarrow> action_util" where
  "add_key code s = s\<lparr>reports_of := add_key_to_report code (reports_of s)\<rparr>"

definition del_key :: "u8 \<Rightarrow> action_util \<Rightarrow> action_util" where
  "del_key code s = s\<lparr>reports_of := del_key_from_report code (reports_of s)\<rparr>"

definition clear_keys :: "action_util \<Rightarrow> action_util" where
  "clear_keys s = s\<lparr>reports_of := clear_keys_from_report (reports_of s)\<rparr>"

subsection \<open>Sending\<close>

definition get_mods_for_report :: "u16 \<Rightarrow> u16 \<Rightarrow> action_util \<Rightarrow> u8 \<times> action_util" where
  "get_mods_for_report T now s =
     (let mods = real_mods s OR weak_mods s
      in if oneshot_mods s \<noteq> 0 then
           let s = (if has_oneshot_mods_timed_out T now s then clear_oneshot_mods T s else s);
               mods = mods OR oneshot_mods s;
               s = (if has_anykey (reports_of s) \<noteq> 0 then clear_oneshot_mods T s else s)
           in (mods, s)
         else (mods, s))"

definition host_keyboard_send :: "report_keyboard_t \<Rightarrow> action_util \<Rightarrow> host_call list \<times> action_util" where
  "host_keyboard_send report s = (if \<not> driver s then ([], s) else ([Host_keyboard report], s))"

definition REPORT_ID_NKRO :: u8 where
  "REPORT_ID_NKRO = 6"

text \<open>The report number is written to the report itself, \<^verbatim>\<open>*nkro_report\<close>.\<close>

definition host_nkro_send :: "action_util \<Rightarrow> host_call list \<times> action_util" where
  "host_nkro_send s =
     (if \<not> driver s then ([], s)
      else let s = s\<lparr>reports_of := (reports_of s)\<lparr>nkro_report := (nkro_report (reports_of s))\<lparr>nkro_report_id := REPORT_ID_NKRO\<rparr>\<rparr>\<rparr>
           in ([Host_nkro (nkro_report (reports_of s))], s))"

definition send_6kro_report :: "u16 \<Rightarrow> u16 \<Rightarrow> action_util \<Rightarrow> host_call list \<times> action_util" where
  "send_6kro_report T now s =
     (let (mods, s) = get_mods_for_report T now s;
          s = s\<lparr>reports_of := (reports_of s)\<lparr>keyboard_report := (keyboard_report (reports_of s))\<lparr>kb_mods := mods\<rparr>\<rparr>\<rparr>;
          report = keyboard_report (reports_of s)
      in if report \<noteq> last_report_6kro s then host_keyboard_send report (s\<lparr>last_report_6kro := report\<rparr>) else ([], s))"

definition send_nkro_report :: "u16 \<Rightarrow> u16 \<Rightarrow> action_util \<Rightarrow> host_call list \<times> action_util" where
  "send_nkro_report T now s =
     (let (mods, s) = get_mods_for_report T now s;
          s = s\<lparr>reports_of := (reports_of s)\<lparr>nkro_report := (nkro_report (reports_of s))\<lparr>nkro_mods := mods\<rparr>\<rparr>\<rparr>
      in if nkro_report (reports_of s) \<noteq> last_report_nkro s
         then host_nkro_send (s\<lparr>last_report_nkro := nkro_report (reports_of s)\<rparr>) else ([], s))"

definition send_keyboard_report :: "u16 \<Rightarrow> u16 \<Rightarrow> action_util \<Rightarrow> host_call list \<times> action_util" where
  "send_keyboard_report T now s =
     (if keyboard_protocol (reports_of s) \<and> nkro (reports_of s) then send_nkro_report T now s else send_6kro_report T now s)"

section \<open>The host is in step\<close>

text \<open>Any sequence of the operations above, with the time of those that read the clock. The protocol does not change in between.\<close>

datatype au_op = Add_key u8 | Del_key u8 | Clear_keys | Add_mods u8 | Del_mods u8 | Set_mods u8 | Add_weak u8 | Del_weak u8 | Clear_weak
  | Set_oneshot u16 u8 | Add_oneshot u16 u8 | Del_oneshot u16 u8 | Set_layer u16 u8 u8 | Clear_layer u8 | Send u16

fun au_do :: "u16 \<Rightarrow> au_op \<Rightarrow> action_util \<Rightarrow> host_call list \<times> action_util" where
  "au_do T (Add_key k) s = ([], add_key k s)"
| "au_do T (Del_key k) s = ([], del_key k s)"
| "au_do T Clear_keys s = ([], clear_keys s)"
| "au_do T (Add_mods m) s = ([], add_mods m s)"
| "au_do T (Del_mods m) s = ([], del_mods m s)"
| "au_do T (Set_mods m) s = ([], set_mods m s)"
| "au_do T (Add_weak m) s = ([], add_weak_mods m s)"
| "au_do T (Del_weak m) s = ([], del_weak_mods m s)"
| "au_do T Clear_weak s = ([], clear_weak_mods s)"
| "au_do T (Set_oneshot now m) s = ([], set_oneshot_mods T now m s)"
| "au_do T (Add_oneshot now m) s = ([], add_oneshot_mods T now m s)"
| "au_do T (Del_oneshot now m) s = ([], del_oneshot_mods T now m s)"
| "au_do T (Set_layer now l st) s = ([], set_oneshot_layer T now l st s)"
| "au_do T (Clear_layer st) s = ([], clear_oneshot_layer_state T st s)"
| "au_do T (Send now) s = send_keyboard_report T now s"

fun au_run :: "u16 \<Rightarrow> au_op list \<Rightarrow> host_call list \<times> action_util \<Rightarrow> host_call list \<times> action_util" where
  "au_run T [] x = x"
| "au_run T (a # as) (es, s) = (let (es', s) = au_do T a s in au_run T as (es @ es', s))"

lemma au_run_append: "au_run T (as @ bs) x = au_run T bs (au_run T as x)"
  by (induction as arbitrary: x) (auto split: prod.splits)

definition zero_6kro :: report_keyboard_t where
  "zero_6kro = \<lparr>kb_mods = 0, kb_reserved = 0, keys = replicate KEYBOARD_REPORT_KEYS 0\<rparr>"

definition zero_nkro :: report_nkro_t where
  "zero_nkro = \<lparr>nkro_report_id = 0, nkro_mods = 0, bits = replicate NKRO_REPORT_BITS 0\<rparr>"

text \<open>What the host has got; at start it takes all keys to be up.\<close>

fun got_6kro :: "host_call list \<Rightarrow> report_keyboard_t list" where
  "got_6kro [] = []"
| "got_6kro (Host_keyboard r # es) = r # got_6kro es"
| "got_6kro (_ # es) = got_6kro es"

fun got_nkro :: "host_call list \<Rightarrow> report_nkro_t list" where
  "got_nkro [] = []"
| "got_nkro (Host_nkro r # es) = r # got_nkro es"
| "got_nkro (_ # es) = got_nkro es"

definition nkro_content :: "report_nkro_t \<Rightarrow> u8 \<times> u8 list" where
  "nkro_content r = (nkro_mods r, bits r)"

definition host_6kro :: "host_call list \<Rightarrow> report_keyboard_t" where
  "host_6kro es = last (zero_6kro # got_6kro es)"

definition host_nkro :: "host_call list \<Rightarrow> report_nkro_t" where
  "host_nkro es = last (zero_nkro # got_nkro es)"

definition no_repeats :: "host_call list \<Rightarrow> bool" where
  "no_repeats es = distinct_adj (zero_6kro # got_6kro es)"

definition in_step :: "host_call list \<Rightarrow> action_util \<Rightarrow> bool" where
  "in_step es s \<longleftrightarrow> driver s \<and> last_report_6kro s = host_6kro es \<and> no_repeats es \<and> nkro_content (last_report_nkro s) = nkro_content (host_nkro es)"

definition au_boot :: "bool \<Rightarrow> action_util" where
  "au_boot m = \<lparr>real_mods = 0, weak_mods = 0, oneshot_mods = 0, oneshot_locked_mods = 0, oneshot_time = 0, oneshot_layer_data = 0,
     oneshot_layer_time = 0, last_report_6kro = zero_6kro, last_report_nkro = zero_nkro,
     reports_of = \<lparr>keyboard_report = zero_6kro, nkro_report = zero_nkro, keyboard_protocol = True, nkro = m\<rparr>,
     layers_of = \<lparr>default_layer_state = 1, layer_state = 0, source_layers_cache = [], encoder_source_layers_cache = []\<rparr>,
     cfg_oneshot_enable = True, driver = True\<rparr>"

lemma got_append: "got_6kro (es @ fs) = got_6kro es @ got_6kro fs" "got_nkro (es @ fs) = got_nkro es @ got_nkro fs"
  by (induction es rule: got_6kro.induct) simp_all

lemma host_snoc [simp]:
  "host_6kro (es @ [Host_keyboard r]) = r" "host_6kro (es @ [Host_nkro q]) = host_6kro es"
  "host_nkro (es @ [Host_nkro q]) = q" "host_nkro (es @ [Host_keyboard r]) = host_nkro es"
  "no_repeats (es @ [Host_nkro q]) = no_repeats es" "no_repeats (es @ [Host_keyboard r]) \<longleftrightarrow> no_repeats es \<and> host_6kro es \<noteq> r"
  using distinct_adj_append_iff [of "zero_6kro # got_6kro es" "[r]"]
  by (simp_all add: host_6kro_def host_nkro_def no_repeats_def got_append)

lemma get_mods_frame:
  assumes "get_mods_for_report T now s = (mods, s')"
  shows "driver s' = driver s" "last_report_6kro s' = last_report_6kro s" "last_report_nkro s' = last_report_nkro s" "reports_of s' = reports_of s"
    "real_mods s' = real_mods s" "weak_mods s' = weak_mods s"
  using assms by (auto simp: get_mods_for_report_def clear_oneshot_mods_def Let_def split: if_splits)

definition report_known :: "host_call list \<Rightarrow> action_util \<Rightarrow> bool" where
  "report_known es s \<longleftrightarrow>
     (if keyboard_protocol (reports_of s) \<and> nkro (reports_of s) then nkro_content (nkro_report (reports_of s)) = nkro_content (host_nkro es)
      else keyboard_report (reports_of s) = host_6kro es)"

lemma send_in_step:
  assumes "in_step es s" and "send_keyboard_report T now s = (fs, s')"
  shows "in_step (es @ fs) s' \<and> report_known (es @ fs) s' \<and> keyboard_protocol (reports_of s') = keyboard_protocol (reports_of s) \<and>
    nkro (reports_of s') = nkro (reports_of s)"
proof -
  obtain mods s1 where m: "get_mods_for_report T now s = (mods, s1)"
    by fastforce
  note f = get_mods_frame [OF m]
  show ?thesis
    using assms f by (auto simp: in_step_def report_known_def send_keyboard_report_def send_nkro_report_def send_6kro_report_def m Let_def
        host_nkro_send_def host_keyboard_send_def nkro_content_def split: if_splits)
qed

text \<open>The part of the state that matters to the host; only keys and sending change it.\<close>

definition au_frame :: "action_util \<Rightarrow> bool \<times> report_keyboard_t \<times> report_nkro_t \<times> reports" where
  "au_frame s = (driver s, last_report_6kro s, last_report_nkro s, reports_of s)"

lemma au_frame_in_step: "au_frame s' = au_frame s \<Longrightarrow> in_step es s' = in_step es s \<and> reports_of s' = reports_of s"
  by (simp add: au_frame_def in_step_def)

lemma au_frames:
  "au_frame (set_oneshot_mods T now m s) = au_frame s" "au_frame (add_oneshot_mods T now m s) = au_frame s"
  "au_frame (del_oneshot_mods T now m s) = au_frame s" "au_frame (set_oneshot_layer T now l st s) = au_frame s"
  "au_frame (clear_oneshot_layer_state T st s) = au_frame s"
  by (simp_all add: au_frame_def set_oneshot_mods_def add_oneshot_mods_def del_oneshot_mods_def set_oneshot_layer_def clear_oneshot_layer_state_def
      reset_oneshot_layer_def Let_def)

lemmas oneshot_frame = au_frames [THEN au_frame_in_step, THEN conjunct1] au_frames [THEN au_frame_in_step, THEN conjunct2]

lemma keys_frame:
  "in_step es (add_key k s) = in_step es s" "in_step es (del_key k s) = in_step es s" "in_step es (clear_keys s) = in_step es s"
  "keyboard_protocol (reports_of (add_key k s)) = keyboard_protocol (reports_of s)" "keyboard_protocol (reports_of (del_key k s)) = keyboard_protocol (reports_of s)"
  "keyboard_protocol (reports_of (clear_keys s)) = keyboard_protocol (reports_of s)"
  "nkro (reports_of (add_key k s)) = nkro (reports_of s)" "nkro (reports_of (del_key k s)) = nkro (reports_of s)" "nkro (reports_of (clear_keys s)) = nkro (reports_of s)"
  by (simp_all add: in_step_def add_key_def del_key_def clear_keys_def add_key_to_report_def del_key_from_report_def clear_keys_from_report_def)

lemma mods_frame:
  "au_frame (add_mods m s) = au_frame s" "au_frame (del_mods m s) = au_frame s" "au_frame (set_mods m s) = au_frame s"
  "au_frame (add_weak_mods m s) = au_frame s" "au_frame (del_weak_mods m s) = au_frame s" "au_frame (clear_weak_mods s) = au_frame s"
  by (simp_all add: au_frame_def add_mods_def del_mods_def set_mods_def add_weak_mods_def del_weak_mods_def clear_weak_mods_def)

lemmas mods_in_step = mods_frame [THEN au_frame_in_step, THEN conjunct1] mods_frame [THEN au_frame_in_step, THEN conjunct2]

lemma au_do_in_step:
  assumes "in_step es s" and "au_do T a s = (fs, s')"
  shows "in_step (es @ fs) s'" "keyboard_protocol (reports_of s') = keyboard_protocol (reports_of s)" "nkro (reports_of s') = nkro (reports_of s)"
proof -
  have "in_step (es @ fs) s' \<and> keyboard_protocol (reports_of s') = keyboard_protocol (reports_of s) \<and> nkro (reports_of s') = nkro (reports_of s)"
  proof (cases "\<exists>now. a = Send now")
    case True
    then show ?thesis
      using assms send_in_step by auto
  next
    case False
    then show ?thesis
      using assms by (cases a) (auto simp: oneshot_frame keys_frame mods_in_step)
  qed
  then show "in_step (es @ fs) s'" "keyboard_protocol (reports_of s') = keyboard_protocol (reports_of s)" "nkro (reports_of s') = nkro (reports_of s)"
    by simp_all
qed

lemma au_run_in_step:
  assumes "in_step es s" and "au_run T as (es, s) = (es', s')"
  shows "in_step es' s' \<and> keyboard_protocol (reports_of s') = keyboard_protocol (reports_of s) \<and> nkro (reports_of s') = nkro (reports_of s)"
  using assms
proof (induction as arbitrary: es s)
  case (Cons a as)
  obtain fs s1 where a: "au_do T a s = (fs, s1)"
    by fastforce
  show ?case
    using Cons.IH [of "es @ fs" s1] Cons.prems a au_do_in_step [OF Cons.prems(1) a] by simp
qed simp

text \<open>After any sequence of operations that ends with sending, the host has the keys and modifiers that the firmware has in its report; and in the six-key
  protocol it never gets the same report twice in a row.\<close>

theorem host_in_step:
  assumes "au_run T (as @ [Send now]) ([], au_boot m) = (es, s)"
  shows "(if m then nkro_content (nkro_report (reports_of s)) = nkro_content (last (zero_nkro # got_nkro es))
      else keyboard_report (reports_of s) = last (zero_6kro # got_6kro es)) \<and> distinct_adj (zero_6kro # got_6kro es)"
proof -
  obtain es1 s1 where r1: "au_run T as ([], au_boot m) = (es1, s1)"
    by fastforce
  obtain fs where send: "send_keyboard_report T now s1 = (fs, s)" and es: "es = es1 @ fs"
    using assms r1 by (auto simp: au_run_append split: prod.splits)
  have "in_step [] (au_boot m)"
    by (simp add: in_step_def au_boot_def host_6kro_def host_nkro_def no_repeats_def)
  from au_run_in_step [OF this r1] have i: "in_step es1 s1" "keyboard_protocol (reports_of s1)" "nkro (reports_of s1) = m"
    by (simp_all add: au_boot_def)
  from send_in_step [OF i(1) send] i(2,3) show ?thesis
    by (simp add: in_step_def report_known_def es host_6kro_def host_nkro_def no_repeats_def split: if_splits)
qed

theorem host_in_step_witness:
  "\<exists>es s. au_run 0 ([Add_key 4, Send 1, Send 2, Add_mods 2] @ [Send 3]) ([], au_boot False) = (es, s) \<and>
    keyboard_report (reports_of s) = last (zero_6kro # got_6kro es) \<and> distinct_adj (zero_6kro # got_6kro es)"
proof -
  obtain es s where r: "au_run 0 ([Add_key 4, Send 1, Send 2, Add_mods 2] @ [Send 3]) ([], au_boot False) = (es, s)"
    by fastforce
  from host_in_step [OF r] r show ?thesis
    by auto
qed

section \<open>One-shot modifiers\<close>

definition report_mods :: "action_util \<Rightarrow> u8" where
  "report_mods s = (if keyboard_protocol (reports_of s) \<and> nkro (reports_of s) then nkro_mods (nkro_report (reports_of s)) else kb_mods (keyboard_report (reports_of s)))"

fun arms_oneshot :: "au_op \<Rightarrow> bool" where
  "arms_oneshot (Set_oneshot _ _) = True"
| "arms_oneshot (Add_oneshot _ _) = True"
| "arms_oneshot _ = False"

lemma get_mods_cases:
  assumes "get_mods_for_report T now s = (mods, s')"
  shows "has_oneshot_mods_timed_out T now s \<Longrightarrow> mods = real_mods s OR weak_mods s \<and> oneshot_mods s' = 0"
    "\<not> has_oneshot_mods_timed_out T now s \<Longrightarrow> mods = real_mods s OR weak_mods s OR oneshot_mods s \<and>
      oneshot_mods s' = (if has_anykey (reports_of s) \<noteq> 0 then 0 else oneshot_mods s)"
  using assms by (auto simp: get_mods_for_report_def clear_oneshot_mods_def Let_def or.assoc split: if_splits)

lemma mods_of_update: "r\<lparr>kb_mods := m\<rparr> = l \<Longrightarrow> kb_mods l = m" "r'\<lparr>nkro_mods := m\<rparr> = l' \<Longrightarrow> nkro_mods l' = m"
  by auto

lemma send_mods:
  assumes "send_keyboard_report T now s = (fs, s')"
  shows "\<exists>mods s1. get_mods_for_report T now s = (mods, s1) \<and> report_mods s' = mods \<and> oneshot_mods s' = oneshot_mods s1 \<and>
    real_mods s' = real_mods s \<and> weak_mods s' = weak_mods s"
proof -
  obtain mods s1 where m: "get_mods_for_report T now s = (mods, s1)"
    by fastforce
  note f = get_mods_frame [OF m]
  show ?thesis
    using assms f by (auto simp: send_keyboard_report_def send_nkro_report_def send_6kro_report_def m Let_def report_mods_def
        host_nkro_send_def host_keyboard_send_def dest: mods_of_update split: if_splits)
qed

lemma au_do_unarmed: "oneshot_mods s = 0 \<Longrightarrow> \<not> arms_oneshot a \<Longrightarrow> au_do T a s = (fs, s') \<Longrightarrow> oneshot_mods s' = 0"
proof (cases a)
  case (Send now)
  assume "oneshot_mods s = 0" and "au_do T a s = (fs, s')"
  then show ?thesis
    using Send send_mods [of T now s fs s'] get_mods_cases [of T now s]
    by (cases "has_oneshot_mods_timed_out T now s") auto
qed (auto simp: add_key_def del_key_def clear_keys_def add_mods_def del_mods_def set_mods_def add_weak_mods_def del_weak_mods_def clear_weak_mods_def
    del_oneshot_mods_def set_oneshot_layer_def clear_oneshot_layer_state_def reset_oneshot_layer_def Let_def)

lemma au_run_unarmed:
  "oneshot_mods s = 0 \<Longrightarrow> \<not> list_ex arms_oneshot as \<Longrightarrow> au_run T as (es, s) = (es', s') \<Longrightarrow> oneshot_mods s' = 0"
proof (induction as arbitrary: es s)
  case (Cons a as)
  obtain fs s1 where a: "au_do T a s = (fs, s1)"
    by fastforce
  then show ?case
    using Cons.IH [of s1 "es @ fs"] Cons.prems au_do_unarmed [OF Cons.prems(1) _ a] by simp
qed simp

text \<open>C26: One-shot modifiers go out with the next report that has a key, and with no report after it, whatever happens in between, until new ones are set.\<close>

theorem oneshot_mods_once:
  assumes "has_anykey (reports_of s) \<noteq> 0" and "\<not> has_oneshot_mods_timed_out T now s" and "send_keyboard_report T now s = (fs, s1)"
    and "\<not> list_ex arms_oneshot as" and "au_run T (as @ [Send now']) (es, s1) = (es', s2)"
  shows "report_mods s1 = real_mods s OR weak_mods s OR oneshot_mods s \<and> report_mods s2 = real_mods s2 OR weak_mods s2"
proof -
  have one: "report_mods s1 = real_mods s OR weak_mods s OR oneshot_mods s" "oneshot_mods s1 = 0"
    using send_mods [OF assms(3)] get_mods_cases(2) [of T now s] assms(1,2) by auto
  obtain es3 s3 where r: "au_run T as (es, s1) = (es3, s3)"
    by fastforce
  obtain gs where send: "send_keyboard_report T now' s3 = (gs, s2)"
    using assms(5) r by (auto simp: au_run_append split: prod.splits)
  have "oneshot_mods s3 = 0"
    using au_run_unarmed [OF one(2) assms(4) r] .
  then have "report_mods s2 = real_mods s2 OR weak_mods s2"
    using send_mods [OF send] get_mods_cases [of T now' s3] by (cases "has_oneshot_mods_timed_out T now' s3") auto
  with one(1) show ?thesis
    by simp
qed

definition oneshot_demo :: action_util where
  "oneshot_demo = add_key 4 (set_oneshot_mods 0 0 2 (au_boot False))"

theorem oneshot_mods_once_witness:
  "\<exists>fs s1 es' s2. send_keyboard_report 0 1 oneshot_demo = (fs, s1) \<and> au_run 0 ([Del_key 4, Add_key 5] @ [Send 2]) ([], s1) = (es', s2) \<and>
    report_mods s1 = 2 \<and> report_mods s2 = real_mods s2 OR weak_mods s2"
proof -
  have d: "has_anykey (reports_of oneshot_demo) \<noteq> 0" "\<not> has_oneshot_mods_timed_out 0 1 oneshot_demo"
    "real_mods oneshot_demo = 0" "weak_mods oneshot_demo = 0" "oneshot_mods oneshot_demo = 2"
    by code_simp+
  obtain fs s1 where s1: "send_keyboard_report 0 1 oneshot_demo = (fs, s1)"
    by fastforce
  obtain es' s2 where s2: "au_run 0 ([Del_key 4, Add_key 5] @ [Send 2]) ([], s1) = (es', s2)"
    by fastforce
  from oneshot_mods_once [OF d(1,2) s1 _ s2] d(3-5) have "report_mods s1 = 2 \<and> report_mods s2 = real_mods s2 OR weak_mods s2"
    by simp
  with s1 s2 show ?thesis
    by blast
qed

section \<open>One-shot layer\<close>

lemma small_bits:
  fixes w :: u8
  assumes "w < 2 ^ k" and "k < 8" and "k \<le> n"
  shows "\<not> bit w n"
proof -
  have "take_bit k w = w"
    using assms(1,2) by (simp add: less_mask_eq word_less_nat_alt take_bit_eq_mask)
  then show ?thesis
    using assms(3) by (metis bit_take_bit_iff not_less)
qed

lemma oneshot_data_bits:
  fixes layer state d :: u8
  assumes "state < 8"
  shows "layer < 32 \<Longrightarrow> drop_bit 3 (push_bit 3 layer OR state) = layer" "(push_bit 3 layer OR state) AND 7 = state"
    "drop_bit 3 (d AND NOT state) = drop_bit 3 d"
proof -
  have t: "\<not> bit state n" if "3 \<le> n" for n
    using small_bits [of state 3 n] assms that by simp
  show "drop_bit 3 (d AND NOT state) = drop_bit 3 d"
    by (rule bit_word_eqI) (auto simp: bit_drop_bit_eq bit_and_iff bit_not_iff t dest: bit_imp_le_length)
  show "drop_bit 3 (push_bit 3 layer OR state) = layer" if "layer < 32"
  proof (rule bit_word_eqI)
    fix n assume "n < LENGTH(8)"
    have "\<not> bit layer n" if "5 \<le> n"
      using small_bits [of layer 5 n] \<open>layer < 32\<close> that by simp
    then show "bit (drop_bit 3 (push_bit 3 layer OR state)) n = bit layer n"
      by (cases "5 \<le> n") (auto simp: bit_drop_bit_eq bit_or_iff bit_push_bit_iff t)
  qed
  have m: "(7 :: u8) = mask 3"
    by (simp add: mask_eq_exp_minus_1)
  show "(push_bit 3 layer OR state) AND 7 = state"
    unfolding m by (rule bit_word_eqI) (auto simp: bit_and_iff bit_or_iff bit_push_bit_iff bit_mask_iff t, meson not_less t)
qed

lemma set_oneshot_layer_fields:
  assumes "cfg_oneshot_enable s" and "unat layer < MAX_LAYER" and "state < 8"
  shows "get_oneshot_layer (set_oneshot_layer T now layer state s) = layer" "get_oneshot_layer_state (set_oneshot_layer T now layer state s) = state"
    "cfg_oneshot_enable (set_oneshot_layer T now layer state s)"
    "layers_of (set_oneshot_layer T now layer state s) = layer_on layer (layers_of s)"
proof -
  have "layer < 32"
    using assms(2) by (simp add: word_less_nat_alt MAX_LAYER_def)
  then show "get_oneshot_layer (set_oneshot_layer T now layer state s) = layer" "get_oneshot_layer_state (set_oneshot_layer T now layer state s) = state"
    "cfg_oneshot_enable (set_oneshot_layer T now layer state s)"
    "layers_of (set_oneshot_layer T now layer state s) = layer_on layer (layers_of s)"
    using assms by (simp_all add: set_oneshot_layer_def get_oneshot_layer_def get_oneshot_layer_state_def Let_def oneshot_data_bits del: drop_bit_or)
qed

lemma clear_oneshot_layer_keeps:
  assumes "state < 8" and "get_oneshot_layer_state s AND NOT state \<noteq> 0"
  shows "get_oneshot_layer (clear_oneshot_layer_state T state s) = get_oneshot_layer s"
    "get_oneshot_layer_state (clear_oneshot_layer_state T state s) = get_oneshot_layer_state s AND NOT state"
    "cfg_oneshot_enable (clear_oneshot_layer_state T state s) = cfg_oneshot_enable s"
    "layers_of (clear_oneshot_layer_state T state s) = layers_of s"
  using assms by (simp_all add: clear_oneshot_layer_state_def get_oneshot_layer_def get_oneshot_layer_state_def Let_def oneshot_data_bits ac_simps del: drop_bit_and)

lemma clear_oneshot_layer_ends:
  assumes "state < 8" and "get_oneshot_layer_state s AND NOT state = 0" and "get_oneshot_layer_state s \<noteq> 0" and "cfg_oneshot_enable s"
  shows "oneshot_layer_data (clear_oneshot_layer_state T state s) = 0"
    "layers_of (clear_oneshot_layer_state T state s) = layer_off (get_oneshot_layer s) (layers_of s)"
proof -
  have z: "(oneshot_layer_data s AND NOT state) AND 7 = 0"
    using assms(2) by (simp add: get_oneshot_layer_state_def ac_simps)
  then have "oneshot_layer_data s \<noteq> oneshot_layer_data s AND NOT state"
    using assms(3) unfolding get_oneshot_layer_state_def by metis
  with z show "oneshot_layer_data (clear_oneshot_layer_state T state s) = 0"
    "layers_of (clear_oneshot_layer_state T state s) = layer_off (get_oneshot_layer s) (layers_of s)"
    using assms(1,4) by (simp_all add: clear_oneshot_layer_state_def reset_oneshot_layer_def get_oneshot_layer_def get_oneshot_layer_state_def
        Let_def oneshot_data_bits del: drop_bit_and)
qed

text \<open>A one-shot layer is on from the press of its key until both that key has been released and another key has been pressed, in either order; then
  it is off, no one-shot layer is left, and the other layers are as they were.\<close>

theorem oneshot_layer_lifecycle:
  assumes "cfg_oneshot_enable s" and "unat layer < MAX_LAYER"
    and "(a, b) \<in> {(ONESHOT_PRESSED, ONESHOT_OTHER_KEY_PRESSED), (ONESHOT_OTHER_KEY_PRESSED, ONESHOT_PRESSED)}"
    and "s1 = set_oneshot_layer T now layer ONESHOT_START s" and "s2 = clear_oneshot_layer_state T a s1" and "s3 = clear_oneshot_layer_state T b s2"
  shows "is_oneshot_layer_active s1 \<and> is_oneshot_layer_active s2 \<and>
    active_layers (layers_of s1) = insert (unat layer) (active_layers (layers_of s)) \<and> active_layers (layers_of s2) = active_layers (layers_of s1) \<and>
    \<not> is_oneshot_layer_active s3 \<and> oneshot_layer_data s3 = 0 \<and> active_layers (layers_of s3) = active_layers (layers_of s) - {unat layer}"
proof -
  have ab: "a < 8" "b < 8" "3 AND NOT a = b" "b AND NOT b = 0" "b \<noteq> 0"
    using assms(3) by (auto simp: oneshot_constants)
  have s1: "get_oneshot_layer s1 = layer" "get_oneshot_layer_state s1 = 3" "cfg_oneshot_enable s1" "layers_of s1 = layer_on layer (layers_of s)"
    using set_oneshot_layer_fields [OF assms(1,2), of 3] by (simp_all add: assms(4) ONESHOT_START_def)
  then have s2: "get_oneshot_layer s2 = layer" "get_oneshot_layer_state s2 = b" "cfg_oneshot_enable s2" "layers_of s2 = layers_of s1"
    using clear_oneshot_layer_keeps [OF ab(1), of s1 T] ab by (simp_all add: assms(5))
  then have s3: "oneshot_layer_data s3 = 0" "layers_of s3 = layer_off layer (layers_of s1)"
    using clear_oneshot_layer_ends [OF ab(2), of s2 T] ab by (simp_all add: assms(6))
  show ?thesis
    using ab(5) assms(2) by (auto simp: is_oneshot_layer_active_def s1 s2 s3 get_oneshot_layer_state_def [of s3] active_layer_on active_layer_off)
qed

theorem oneshot_layer_lifecycle_witness:
  "\<exists>s1 s2 s3. s1 = set_oneshot_layer 0 0 2 ONESHOT_START (au_boot False) \<and> s2 = clear_oneshot_layer_state 0 ONESHOT_OTHER_KEY_PRESSED s1 \<and>
    s3 = clear_oneshot_layer_state 0 ONESHOT_PRESSED s2 \<and> 2 \<in> active_layers (layers_of s2) \<and> 2 \<notin> active_layers (layers_of s3)"
proof -
  have "cfg_oneshot_enable (au_boot False)" and "unat (2 :: u8) < MAX_LAYER"
    by (simp_all add: au_boot_def MAX_LAYER_def)
  from oneshot_layer_lifecycle [OF this, of ONESHOT_OTHER_KEY_PRESSED ONESHOT_PRESSED _ 0 0, OF _ refl refl refl] show ?thesis
    by simp
qed

end
