(* ===== verification/Action.thy ===== *)
theory Action
  imports Keycodes Action_Util
begin

text \<open>
  Execution of actions (\<^verbatim>\<open>quantum/action.c\<close>, with \<^verbatim>\<open>host_system_send\<close> and \<^verbatim>\<open>host_consumer_send\<close> of \<^verbatim>\<open>host.c\<close>). What leaves this part of the firmware - reports to the host,
  calls of the mouse keys, the LEDs and the delay loop - is appended to \<open>calls\<close>; \<open>clock\<close> is what \<^verbatim>\<open>timer_read()\<close> returns. \<^verbatim>\<open>process_record_quantum\<close>, which may consume an event, and
  \<^verbatim>\<open>post_process_record_quantum\<close> are arguments. The build has no \<^verbatim>\<open>COMBO_ENABLE\<close>, \<^verbatim>\<open>REPEAT_KEY_ENABLE\<close>, \<^verbatim>\<open>SWAP_HANDS_ENABLE\<close>, \<^verbatim>\<open>RETRO_TAPPING\<close>,
  \<^verbatim>\<open>ONESHOT_TAP_TOGGLE\<close>, \<^verbatim>\<open>HOLD_ON_OTHER_KEY_PRESS\<close>, \<^verbatim>\<open>LOCKING_SUPPORT_ENABLE\<close>, \<^verbatim>\<open>COMMAND_ENABLE\<close>, \<^verbatim>\<open>PROGRAMMABLE_BUTTON_ENABLE\<close> and no pointing device.
\<close>

section \<open>Model\<close>

datatype call = Host host_call | Send_system u16 | Send_consumer u16 | Mousekey_on u8 | Mousekey_off u8 | Mousekey_send | Mousekey_clear
  | Led_set | Wait_ms nat

record actions =
  util :: action_util
  last_system_usage :: u16
  last_consumer_usage :: u16
  disable_action_cache :: bool
  clock :: u16
  calls :: "call list"

record act_env =
  ONESHOT_TIMEOUT :: u16
  afk :: "nat \<Rightarrow> keypos_t \<Rightarrow> u16"
  matrix :: matrix_size
  TAPPING_TERM :: u16
  QUICK_TAP_TERM :: u16
  pre_process_record_quantum :: "keyrecord_t \<Rightarrow> actions \<Rightarrow> bool \<times> actions"
  process_record_quantum :: "keyrecord_t \<Rightarrow> actions \<Rightarrow> bool \<times> actions"
  post_process_record_quantum :: "keyrecord_t \<Rightarrow> actions \<Rightarrow> actions"

definition TAPPING_TOGGLE :: nat where "TAPPING_TOGGLE = 5"
definition TAP_CODE_DELAY :: nat where "TAP_CODE_DELAY = 0"
definition TAP_HOLD_CAPS_DELAY :: nat where "TAP_HOLD_CAPS_DELAY = 80"

definition call :: "call \<Rightarrow> actions \<Rightarrow> actions" where
  "call c s = s\<lparr>calls := calls s @ [c]\<rparr>"

definition on_util :: "(action_util \<Rightarrow> action_util) \<Rightarrow> actions \<Rightarrow> actions" where
  "on_util f s = s\<lparr>util := f (util s)\<rparr>"

definition on_layers :: "(layers \<Rightarrow> layers) \<Rightarrow> actions \<Rightarrow> actions" where
  "on_layers f = on_util (\<lambda>u. u\<lparr>layers_of := f (layers_of u)\<rparr>)"

definition send_report :: "act_env \<Rightarrow> actions \<Rightarrow> actions" where
  "send_report env s =
     (let (es, u) = send_keyboard_report (ONESHOT_TIMEOUT env) (clock s) (util s) in s\<lparr>util := u, calls := calls s @ map Host es\<rparr>)"

definition host_system_send :: "u16 \<Rightarrow> actions \<Rightarrow> actions" where
  "host_system_send usage s =
     (if usage = last_system_usage s then s
      else let s = s\<lparr>last_system_usage := usage\<rparr> in if \<not> driver (util s) then s else call (Send_system usage) s)"

definition host_consumer_send :: "u16 \<Rightarrow> actions \<Rightarrow> actions" where
  "host_consumer_send usage s =
     (if usage = last_consumer_usage s then s
      else let s = s\<lparr>last_consumer_usage := usage\<rparr> in if \<not> driver (util s) then s else call (Send_consumer usage) s)"

subsection \<open>Keycodes and modifiers\<close>

definition register_mouse :: "u8 \<Rightarrow> bool \<Rightarrow> actions \<Rightarrow> actions" where
  "register_mouse mouse_keycode press s =
     call Mousekey_send (if press then call (Mousekey_on mouse_keycode) s else call (Mousekey_off mouse_keycode) s)"

definition MOD_BIT :: "u8 \<Rightarrow> u8" where
  "MOD_BIT code = push_bit (unat (code AND 7)) 1"

definition register_code :: "act_env \<Rightarrow> u8 \<Rightarrow> actions \<Rightarrow> actions" where
  "register_code env code s =
     (if code = KC_NO then s
      else if IS_BASIC_KEYCODE (ucast code) then
        let s = (if is_key_pressed code (reports_of (util s)) then send_report env (on_util (del_key code) s) else s)
        in send_report env (on_util (add_key code) s)
      else if IS_MOD_KEYCODE (ucast code) then send_report env (on_util (add_mods (MOD_BIT code)) s)
      else if IS_SYSTEM_KEYCODE (ucast code) then host_system_send (KEYCODE2SYSTEM code) s
      else if IS_CONSUMER_KEYCODE (ucast code) then host_consumer_send (KEYCODE2CONSUMER code) s
      else if IS_MOUSE_KEYCODE (ucast code) then register_mouse code True s
      else s)"

definition unregister_code :: "act_env \<Rightarrow> u8 \<Rightarrow> actions \<Rightarrow> actions" where
  "unregister_code env code s =
     (if code = KC_NO then s
      else if IS_BASIC_KEYCODE (ucast code) then send_report env (on_util (del_key code) s)
      else if IS_MOD_KEYCODE (ucast code) then send_report env (on_util (del_mods (MOD_BIT code)) s)
      else if IS_SYSTEM_KEYCODE (ucast code) then host_system_send 0 s
      else if IS_CONSUMER_KEYCODE (ucast code) then host_consumer_send 0 s
      else if IS_MOUSE_KEYCODE (ucast code) then register_mouse code False s
      else s)"

definition tap_code_delay :: "act_env \<Rightarrow> u8 \<Rightarrow> nat \<Rightarrow> actions \<Rightarrow> actions" where
  "tap_code_delay env code delay s = unregister_code env code (for_upto delay (\<lambda>_. call (Wait_ms 1)) (register_code env code s))"

definition tap_code :: "act_env \<Rightarrow> u8 \<Rightarrow> actions \<Rightarrow> actions" where
  "tap_code env code = tap_code_delay env code (if ucast code = KC_CAPS then TAP_HOLD_CAPS_DELAY else TAP_CODE_DELAY)"

definition register_mods :: "act_env \<Rightarrow> u8 \<Rightarrow> actions \<Rightarrow> actions" where
  "register_mods env mods s = (if mods \<noteq> 0 then send_report env (on_util (add_mods mods) s) else s)"

definition unregister_mods :: "act_env \<Rightarrow> u8 \<Rightarrow> actions \<Rightarrow> actions" where
  "unregister_mods env mods s = (if mods \<noteq> 0 then send_report env (on_util (del_mods mods) s) else s)"

definition register_weak_mods :: "act_env \<Rightarrow> u8 \<Rightarrow> actions \<Rightarrow> actions" where
  "register_weak_mods env mods s = (if mods \<noteq> 0 then send_report env (on_util (add_weak_mods mods) s) else s)"

definition unregister_weak_mods :: "act_env \<Rightarrow> u8 \<Rightarrow> actions \<Rightarrow> actions" where
  "unregister_weak_mods env mods s = (if mods \<noteq> 0 then send_report env (on_util (del_weak_mods mods) s) else s)"

definition clear_keyboard_but_mods_and_keys :: "act_env \<Rightarrow> actions \<Rightarrow> actions" where
  "clear_keyboard_but_mods_and_keys env s =
     (let s = host_consumer_send 0 (host_system_send 0 s);
          s = send_report env (on_util clear_weak_mods s)
      in call Mousekey_send (call Mousekey_clear s))"

definition clear_keyboard_but_mods :: "act_env \<Rightarrow> actions \<Rightarrow> actions" where
  "clear_keyboard_but_mods env s = clear_keyboard_but_mods_and_keys env (on_util clear_keys s)"

definition clear_keyboard :: "act_env \<Rightarrow> actions \<Rightarrow> actions" where
  "clear_keyboard env s = clear_keyboard_but_mods env (on_util clear_mods s)"

subsection \<open>Actions\<close>

text \<open>\<^verbatim>\<open>case ACT_LMODS\<close>, and the same code for one-shot modifiers that are turned off.\<close>

definition mods_and_key :: "act_env \<Rightarrow> bool \<Rightarrow> u8 \<Rightarrow> u8 \<Rightarrow> actions \<Rightarrow> actions" where
  "mods_and_key env press mods code s =
     (let strong = IS_MOD_KEYCODE (ucast code) \<or> code = KC_NO
      in if press then
           let s = (if mods \<noteq> 0 then send_report env (on_util (if strong then add_mods mods else add_weak_mods mods) s) else s)
           in register_code env code s
         else
           let s = unregister_code env code s
           in if mods \<noteq> 0 then send_report env (on_util (if strong then del_mods mods else del_weak_mods mods) s) else s)"

text \<open>The modifiers of the left or the right hand.\<close>

definition hand_mods :: "nat \<Rightarrow> u16 \<Rightarrow> u8" where
  "hand_mods left action = (if action_kind_id action = left then key_mods action else push_bit 4 (key_mods action))"

definition tap_delay :: "u8 \<Rightarrow> actions \<Rightarrow> actions" where
  "tap_delay code = call (Wait_ms (if ucast code = KC_CAPS then TAP_HOLD_CAPS_DELAY else TAP_CODE_DELAY))"

text \<open>\<^verbatim>\<open>case ACT_LMODS_TAP\<close>; \<open>n\<close> is the tap count.\<close>

definition mods_tap :: "act_env \<Rightarrow> bool \<Rightarrow> nat \<Rightarrow> u16 \<Rightarrow> actions \<Rightarrow> actions" where
  "mods_tap env press n action s =
     (let mods = hand_mods ACT_LMODS_TAP action; code = key_code action
      in if action_code action = MODS_ONESHOT then
           if \<not> cfg_oneshot_enable (util s) then mods_and_key env press mods code s
           else if press then
             if n = 0 then register_mods env mods s
             else if n = 1 then on_util (add_oneshot_mods (ONESHOT_TIMEOUT env) (clock s) mods) s
             else s
           else if n = 0 then
             on_util (del_oneshot_locked_mods mods) (on_util (del_oneshot_mods (ONESHOT_TIMEOUT env) (clock s) mods) (unregister_mods env mods s))
           else s
         else if action_code action = MODS_TAP_TOGGLE then
           if press then if n \<le> TAPPING_TOGGLE then register_mods env mods s else s
           else if n < TAPPING_TOGGLE then unregister_mods env mods s else s
         else if press then if 0 < n then register_code env code s else register_mods env mods s
         else if 0 < n then unregister_code env code (tap_delay code s) else unregister_mods env mods s)"

text \<open>\<^verbatim>\<open>case ACT_USAGE\<close>.\<close>

definition usage_action :: "bool \<Rightarrow> u16 \<Rightarrow> actions \<Rightarrow> actions" where
  "usage_action press action s =
     (if usage_page action = 0 then host_system_send (if press then usage_code action else 0) s
      else if usage_page action = 1 then host_consumer_send (if press then usage_code action else 0) s
      else s)"

text \<open>\<^verbatim>\<open>case ACT_LAYER\<close>.\<close>

definition layer_bitop :: "bool \<Rightarrow> u16 \<Rightarrow> layers \<Rightarrow> layers" where
  "layer_bitop press action l =
     (let shift = bitop_part action * 4;
          bts = push_bit shift (bitop_bits action);
          msk = (if bitop_xbit action then NOT (push_bit shift 0xF) else 0)
      in if bitop_on action = 0 then
           if \<not> press then
             if bitop_op action = OP_BIT_AND then default_layer_and (bts OR msk) l
             else if bitop_op action = OP_BIT_OR then default_layer_or (bts OR msk) l
             else if bitop_op action = OP_BIT_XOR then default_layer_xor (bts OR msk) l
             else default_layer_set (bts OR msk) l
           else l
         else if (if press then bitop_on action AND ON_PRESS else bitop_on action AND ON_RELEASE) \<noteq> 0 then
           if bitop_op action = OP_BIT_AND then layer_and (bts OR msk) l
           else if bitop_op action = OP_BIT_OR then layer_or (bts OR msk) l
           else if bitop_op action = OP_BIT_XOR then layer_xor (bts OR msk) l
           else layer_state_set (bts OR msk) l
         else l)"

text \<open>\<^verbatim>\<open>case ACT_LAYER_MODS\<close>.\<close>

definition layer_mods :: "act_env \<Rightarrow> bool \<Rightarrow> u16 \<Rightarrow> actions \<Rightarrow> actions" where
  "layer_mods env press action s =
     (if press then register_mods env (layer_mods_mods action) (on_layers (layer_on (layer_mods_layer action)) s)
      else on_layers (layer_off (layer_mods_layer action)) (unregister_mods env (layer_mods_mods action) s))"

text \<open>\<^verbatim>\<open>case ACT_LAYER_TAP\<close>.\<close>

definition layer_tap :: "act_env \<Rightarrow> bool \<Rightarrow> nat \<Rightarrow> u16 \<Rightarrow> actions \<Rightarrow> actions" where
  "layer_tap env press n action s =
     (let val = layer_tap_val action; code = key_code action; T = ONESHOT_TIMEOUT env
      in if action_code action = OP_TAP_TOGGLE then
           if (if press then n < TAPPING_TOGGLE else n \<le> TAPPING_TOGGLE) then on_layers (layer_invert val) s else s
         else if action_code action = OP_ON_OFF then on_layers (if press then layer_on val else layer_off val) s
         else if action_code action = OP_OFF_ON then on_layers (if press then layer_off val else layer_on val) s
         else if action_code action = OP_SET_CLEAR then on_layers (if press then layer_move val else layer_clear) s
         else if action_code action = OP_ONESHOT then
           if \<not> cfg_oneshot_enable (util s) then on_layers (if press then layer_on val else layer_off val) s
           else if press then on_util (set_oneshot_layer T (clock s) val ONESHOT_START) (on_layers (layer_on val) s)
           else
             let s = on_util (clear_oneshot_layer_state T ONESHOT_PRESSED) s
             in if 1 < n then on_util (clear_oneshot_layer_state T ONESHOT_OTHER_KEY_PRESSED) s else s
         else if press then if 0 < n then register_code env code s else on_layers (layer_on val) s
         else if 0 < n then unregister_code env code (tap_delay code s) else on_layers (layer_off val) s)"

text \<open>The two \<^verbatim>\<open>switch\<close> statements of \<^verbatim>\<open>process_action\<close>.\<close>

definition execute_action :: "act_env \<Rightarrow> keyrecord_t \<Rightarrow> u16 \<Rightarrow> actions \<Rightarrow> actions" where
  "execute_action env r action s =
     (let press = pressed (event r); n = tap_count (tap r); kind = action_kind_id action;
          s = (if kind = ACT_LMODS \<or> kind = ACT_RMODS then mods_and_key env press (hand_mods ACT_LMODS action) (key_code action) s
               else if kind = ACT_LMODS_TAP \<or> kind = ACT_RMODS_TAP then mods_tap env press n action s
               else if kind = ACT_USAGE then usage_action press action s
               else if kind = ACT_MOUSEKEY then register_mouse (key_code action) press s
               else if kind = ACT_LAYER then on_layers (layer_bitop press action) s
               else if kind = ACT_LAYER_MODS then layer_mods env press action s
               else if kind = ACT_LAYER_TAP \<or> kind = ACT_LAYER_TAP_EXT then layer_tap env press n action s
               else s)
      in if kind \<in> {ACT_LAYER, ACT_LAYER_MODS, ACT_LAYER_TAP, ACT_LAYER_TAP_EXT} then call Led_set s else s)"

text \<open>Does the press of this key end a one-shot layer?\<close>

definition ends_oneshot_layer :: "keyrecord_t \<Rightarrow> u16 \<Rightarrow> actions \<Rightarrow> bool" where
  "ends_oneshot_layer r action s \<longleftrightarrow> is_oneshot_layer_active (util s) \<and> pressed (event r) \<and>
     (action_kind_id action = ACT_USAGE \<or>
      \<not> (IS_MOD_KEYCODE (ucast (key_code action)) \<or>
         (action_kind_id action = ACT_LMODS_TAP \<or> action_kind_id action = ACT_RMODS_TAP) \<and>
         (action_code action \<le> MODS_TAP_TOGGLE \<or> tap_count (tap r) = 0))) \<and>
     cfg_oneshot_enable (util s)"

function process_record :: "act_env \<Rightarrow> keyrecord_t \<Rightarrow> actions \<Rightarrow> keyrecord_t \<times> actions"
  and process_record_handler :: "act_env \<Rightarrow> keyrecord_t \<Rightarrow> actions \<Rightarrow> keyrecord_t \<times> actions"
  and process_action :: "act_env \<Rightarrow> keyrecord_t \<Rightarrow> u16 \<Rightarrow> actions \<Rightarrow> keyrecord_t \<times> actions" where
  "process_record env r s =
     (if IS_NOEVENT (event r) then (r, s)
      else let (go, s) = process_record_quantum env r s
           in if \<not> go then
                (r, if is_oneshot_layer_active (util s) \<and> pressed (event r) \<and> cfg_oneshot_enable (util s)
                    then on_util (clear_oneshot_layer_state (ONESHOT_TIMEOUT env) ONESHOT_OTHER_KEY_PRESSED) s else s)
              else let (r, s) = process_record_handler env r s in (r, post_process_record_quantum env r s))"
| "process_record_handler env r s =
     (let (action, l) = store_or_get_action (afk env) (matrix env) (disable_action_cache s) (pressed (event r)) (key (event r)) (layers_of (util s))
      in process_action env r action (on_layers (\<lambda>_. l) s))"
| "process_action env r action s =
     (let ends = ends_oneshot_layer r action s;
          s = (if ends then on_util (clear_oneshot_layer_state (ONESHOT_TIMEOUT env) ONESHOT_OTHER_KEY_PRESSED) s else s);
          do_release_oneshot = (ends \<and> \<not> is_oneshot_layer_active (util s));
          s = execute_action env r action s
      in if do_release_oneshot \<and> get_oneshot_layer_state (util s) AND ONESHOT_PRESSED = 0 then
           let r = r\<lparr>event := (event r)\<lparr>pressed := False\<rparr>\<rparr>;
               s = on_layers (layer_on (get_oneshot_layer (util s))) s;
               (r, s) = process_record env r s
           in (r, on_layers (layer_off (get_oneshot_layer (util s))) s)
         else (r, s))"
  by pat_completeness auto

termination
  by (relation "measure (\<lambda>x. case x of Inl (env, r, s) \<Rightarrow> (if pressed (event r) then 3 else 0) + 2
      | Inr (Inl (env, r, s)) \<Rightarrow> (if pressed (event r) then 3 else 0) + 1
      | Inr (Inr (env, r, a, s)) \<Rightarrow> (if pressed (event r) then 3 else 0))") (auto simp: ends_oneshot_layer_def)

definition process_record_nocache :: "act_env \<Rightarrow> keyrecord_t \<Rightarrow> actions \<Rightarrow> keyrecord_t \<times> actions" where
  "process_record_nocache env r s =
     (let (r, s) = process_record env r (s\<lparr>disable_action_cache := True\<rparr>) in (r, s\<lparr>disable_action_cache := False\<rparr>))"

declare process_record.simps [simp del] process_record_handler.simps [simp del] process_action.simps [simp del]

section \<open>Invariants of actions\<close>

text \<open>What the host has been sent.\<close>

fun host_log :: "call list \<Rightarrow> host_call list" where
  "host_log [] = []"
| "host_log (Host e # cs) = e # host_log cs"
| "host_log (_ # cs) = host_log cs"

lemma host_log_append [simp]: "host_log (cs @ ds) = host_log cs @ host_log ds"
  by (induction cs rule: host_log.induct) simp_all

lemma host_log_map [simp]: "host_log (map Host es) = es"
  by (induction es) simp_all

definition caches :: "actions \<Rightarrow> bool \<times> u8 list list \<times> u8 list list" where
  "caches s = (disable_action_cache s, source_layers_cache (layers_of (util s)), encoder_source_layers_cache (layers_of (util s)))"

text \<open>A step that neither sends a report nor changes one, nor the cache of layers.\<close>

definition silent :: "actions \<Rightarrow> actions \<Rightarrow> bool" where
  "silent s s' \<longleftrightarrow> au_frame (util s') = au_frame (util s) \<and> host_log (calls s') = host_log (calls s) \<and> caches s' = caches s"

named_theorems silent_steps

lemma silent_refl [silent_steps]: "silent s s"
  by (simp add: silent_def)

lemma silent_trans: "silent s s' \<Longrightarrow> silent s' s'' \<Longrightarrow> silent s s''"
  by (simp add: silent_def)

fun is_host :: "call \<Rightarrow> bool" where
  "is_host (Host _) = True"
| "is_host _ = False"

lemma silent_call [silent_steps]: "\<not> is_host c \<Longrightarrow> silent s (call c s)"
  by (cases c) (simp_all add: silent_def call_def caches_def)

lemma silent_usage [silent_steps]: "silent s (host_system_send u s)" "silent s (host_consumer_send u s)"
  by (simp_all add: silent_def host_system_send_def host_consumer_send_def call_def caches_def Let_def)

lemma silent_mods [silent_steps]:
  "silent s (on_util (add_mods m) s)" "silent s (on_util (del_mods m) s)" "silent s (on_util clear_mods s)"
  "silent s (on_util (add_weak_mods m) s)" "silent s (on_util (del_weak_mods m) s)" "silent s (on_util clear_weak_mods s)"
  "silent s (on_util (add_oneshot_mods T n m) s)" "silent s (on_util (del_oneshot_mods T n m) s)" "silent s (on_util (clear_oneshot_mods T) s)"
  "silent s (on_util (del_oneshot_locked_mods m) s)"
  by (simp_all add: silent_def on_util_def caches_def au_frame_def add_mods_def del_mods_def clear_mods_def add_weak_mods_def del_weak_mods_def
      clear_weak_mods_def add_oneshot_mods_def del_oneshot_mods_def clear_oneshot_mods_def del_oneshot_locked_mods_def Let_def)

text \<open>Layer operations change the two layer states only.\<close>

definition states_only :: "(layers \<Rightarrow> layers) \<Rightarrow> bool" where
  "states_only f \<longleftrightarrow> (\<forall>l. source_layers_cache (f l) = source_layers_cache l \<and> encoder_source_layers_cache (f l) = encoder_source_layers_cache l)"

lemmas layer_op_defs = layer_on_def layer_off_def layer_move_def layer_clear_def layer_invert_def layer_and_def layer_or_def layer_xor_def layer_state_set_def
  default_layer_set_def default_layer_or_def default_layer_and_def default_layer_xor_def

lemma states_only_ops [silent_steps]:
  "states_only (layer_on l)" "states_only (layer_off l)" "states_only (layer_move l)" "states_only layer_clear" "states_only (layer_invert l)"
  by (simp_all add: states_only_def layer_op_defs)

lemma states_only_bitop [silent_steps]: "states_only (layer_bitop press action)"
  by (simp add: states_only_def layer_bitop_def layer_op_defs Let_def)

lemma silent_layers [silent_steps]: "states_only f \<Longrightarrow> silent s (on_layers f s)"
  by (simp add: silent_def on_layers_def on_util_def caches_def au_frame_def states_only_def)

lemma silent_oneshot_layer [silent_steps]:
  "silent s (on_util (set_oneshot_layer T n l st) s)" "silent s (on_util (clear_oneshot_layer_state T st) s)"
  by (simp_all add: silent_def on_util_def caches_def au_frame_def set_oneshot_layer_def clear_oneshot_layer_state_def reset_oneshot_layer_def
      layer_op_defs Let_def)

text \<open>An invariant \<open>I\<close> of whole actions, which may be broken down to \<open>J\<close> between the change of a report and its sending.\<close>

locale action_invariant =
  fixes env :: act_env and I J :: "actions \<Rightarrow> bool"
  assumes weaken: "I s \<Longrightarrow> J s"
    and send: "J s \<Longrightarrow> I (send_report env s)"
    and keys: "J s \<Longrightarrow> J (on_util (add_key k) s)" "J s \<Longrightarrow> J (on_util (del_key k) s)" "J s \<Longrightarrow> J (on_util clear_keys s)"
    and silent_I: "silent s s' \<Longrightarrow> I s \<Longrightarrow> I s'"
    and silent_J: "silent s s' \<Longrightarrow> J s \<Longrightarrow> J s'"
begin

lemma silent_inv: "silent s s' \<Longrightarrow> I s \<Longrightarrow> I s' = True" "silent s s' \<Longrightarrow> I s \<Longrightarrow> I (send_report env s') = True"
  using send silent_I silent_J weaken by blast+

lemmas prim_inv = silent_mods [THEN silent_inv(1)] silent_mods [THEN silent_inv(2)] silent_usage [THEN silent_inv(1)] silent_call [THEN silent_inv(1)]
  silent_layers [THEN silent_inv(1)] silent_oneshot_layer [THEN silent_inv(1)] states_only_ops states_only_bitop send keys weaken

lemma register_mouse_inv: "I s \<Longrightarrow> I (register_mouse c p s)"
  by (simp add: register_mouse_def prim_inv)

lemma register_code_inv: "I s \<Longrightarrow> I (register_code env code s)"
  by (simp add: register_code_def Let_def register_mouse_inv prim_inv)

lemma unregister_code_inv: "I s \<Longrightarrow> I (unregister_code env code s)"
  by (simp add: unregister_code_def register_mouse_inv prim_inv)

lemma mods_inv:
  "I s \<Longrightarrow> I (register_mods env m s)" "I s \<Longrightarrow> I (unregister_mods env m s)"
  "I s \<Longrightarrow> I (register_weak_mods env m s)" "I s \<Longrightarrow> I (unregister_weak_mods env m s)"
  by (simp_all add: register_mods_def unregister_mods_def register_weak_mods_def unregister_weak_mods_def prim_inv)

lemmas code_inv = register_code_inv unregister_code_inv register_mouse_inv mods_inv prim_inv

lemma mods_and_key_inv: "I s \<Longrightarrow> I (mods_and_key env p m c s)"
  by (simp add: mods_and_key_def Let_def code_inv)

lemma tap_delay_inv: "I s \<Longrightarrow> I (tap_delay c s)"
  by (simp add: tap_delay_def prim_inv)

lemma mods_tap_inv: "I s \<Longrightarrow> I (mods_tap env p n a s)"
  by (simp add: mods_tap_def Let_def tap_delay_inv mods_and_key_inv code_inv)

lemma layer_mods_inv: "I s \<Longrightarrow> I (layer_mods env p a s)"
  by (simp add: layer_mods_def code_inv)

lemma layer_tap_inv: "I s \<Longrightarrow> I (layer_tap env p n a s)"
  by (simp add: layer_tap_def Let_def tap_delay_inv code_inv)

lemma usage_action_inv: "I s \<Longrightarrow> I (usage_action p a s)"
  by (simp add: usage_action_def prim_inv)

lemma execute_action_inv: "I s \<Longrightarrow> I (execute_action env r a s)"
  by (simp add: execute_action_def Let_def usage_action_inv mods_and_key_inv mods_tap_inv layer_mods_inv layer_tap_inv code_inv)

lemma clear_keyboard_inv: "I s \<Longrightarrow> I (clear_keyboard env s)"
  unfolding clear_keyboard_def clear_keyboard_but_mods_def clear_keyboard_but_mods_and_keys_def Let_def
  by (intro silent_I [OF silent_call] send silent_J [OF silent_mods(6)] silent_J [OF silent_usage(1)] silent_J [OF silent_usage(2)] keys
      silent_J [OF silent_mods(3)] weaken) simp_all

end

text \<open>The look-up of the action, which stores the layer of a press.\<close>

definition remember_layer :: "act_env \<Rightarrow> keyrecord_t \<Rightarrow> actions \<Rightarrow> actions" where
  "remember_layer env r s = on_layers (\<lambda>_. snd (store_or_get_action (afk env) (matrix env) (disable_action_cache s) (pressed (event r))
     (key (event r)) (layers_of (util s)))) s"

definition release_record :: "keyrecord_t \<Rightarrow> keyrecord_t" where
  "release_record r = r\<lparr>event := (event r)\<lparr>pressed := False\<rparr>\<rparr>"

text \<open>\<^verbatim>\<open>process_action\<close> in steps: the one-shot layer before, the action, and the early release of the key.\<close>

definition oneshot_before :: "act_env \<Rightarrow> keyrecord_t \<Rightarrow> u16 \<Rightarrow> actions \<Rightarrow> actions" where
  "oneshot_before env r a s =
     (if ends_oneshot_layer r a s then on_util (clear_oneshot_layer_state (ONESHOT_TIMEOUT env) ONESHOT_OTHER_KEY_PRESSED) s else s)"

definition releases_early :: "act_env \<Rightarrow> keyrecord_t \<Rightarrow> u16 \<Rightarrow> actions \<Rightarrow> bool" where
  "releases_early env r a s \<longleftrightarrow> ends_oneshot_layer r a s \<and> \<not> is_oneshot_layer_active (util (oneshot_before env r a s)) \<and>
     get_oneshot_layer_state (util (execute_action env r a (oneshot_before env r a s))) AND ONESHOT_PRESSED = 0"

lemma process_action_steps:
  "process_action env r a s =
    (let s2 = execute_action env r a (oneshot_before env r a s)
     in if releases_early env r a s
        then let (r, s) = process_record env (release_record r) (on_layers (layer_on (get_oneshot_layer (util s2))) s2)
             in (r, on_layers (layer_off (get_oneshot_layer (util s))) s)
        else (r, s2))"
  unfolding process_action.simps [of env r a s] releases_early_def oneshot_before_def release_record_def Let_def conj_assoc ..

lemma process_action_released: "\<not> pressed (event r) \<Longrightarrow> process_action env r a s = (r, execute_action env r a s)"
  by (simp add: process_action_steps releases_early_def oneshot_before_def ends_oneshot_layer_def)

text \<open>An invariant of the processing of the records \<open>R\<close>.\<close>

locale action_run = action_invariant +
  fixes R :: "keyrecord_t \<Rightarrow> bool"
  assumes release: "R r \<Longrightarrow> R (release_record r)"
    and remember: "R r \<Longrightarrow> I s \<Longrightarrow> I (remember_layer env r s)"
    and quantum: "R r \<Longrightarrow> I s \<Longrightarrow> I (snd (process_record_quantum env r s))"
    and post_quantum: "R r \<Longrightarrow> I s \<Longrightarrow> I (post_process_record_quantum env r s)"
begin

lemma record_step:
  assumes action: "\<And>a s. I s \<Longrightarrow> R (fst (process_action env r a s)) \<and> I (snd (process_action env r a s))" and "R r" and "I s"
  shows "R (fst (process_record env r s)) \<and> I (snd (process_record env r s))"
proof -
  obtain go s1 where q: "process_record_quantum env r s = (go, s1)"
    by fastforce
  have s1: "I s1"
    using quantum [OF assms(2,3)] q by simp
  obtain a l where a: "store_or_get_action (afk env) (matrix env) (disable_action_cache s1) (pressed (event r)) (key (event r)) (layers_of (util s1)) = (a, l)"
    by fastforce
  have "I (on_layers (\<lambda>_. l) s1)"
    using remember [OF assms(2) s1] a by (simp add: remember_layer_def)
  then have "R (fst (process_record_handler env r s1)) \<and> I (snd (process_record_handler env r s1))"
    using action by (simp add: process_record_handler.simps a)
  then show ?thesis
    using s1 q assms(2,3) post_quantum
    by (cases "process_record_handler env r s1") (simp add: process_record.simps prim_inv)
qed

lemma action_step:
  assumes rec: "\<And>s. I s \<Longrightarrow> R (fst (process_record env (release_record r) s)) \<and> I (snd (process_record env (release_record r) s))" and "I s"
  shows "(R r \<longrightarrow> R (fst (process_action env r a s))) \<and> I (snd (process_action env r a s))"
proof -
  define s2 where "s2 = execute_action env r a (oneshot_before env r a s)"
  have s2: "I s2"
    unfolding s2_def oneshot_before_def using assms(2) by (simp add: execute_action_inv prim_inv)
  then have "I (on_layers (layer_on (get_oneshot_layer (util s2))) s2)"
    by (simp add: prim_inv)
  then show ?thesis
    using rec [of "on_layers (layer_on (get_oneshot_layer (util s2))) s2"] s2
    by (simp add: process_action_steps prim_inv case_prod_unfold Let_def flip: s2_def)
qed

lemma process_record_released: "R (release_record r) \<Longrightarrow> I s \<Longrightarrow>
  R (fst (process_record env (release_record r) s)) \<and> I (snd (process_record env (release_record r) s))"
  by (rule record_step) (simp_all add: process_action_released release_record_def execute_action_inv)

lemma process_action_inv: "R (release_record r) \<Longrightarrow> I s \<Longrightarrow> I (snd (process_action env r a s))"
  using action_step process_record_released by blast

lemma process_record_inv: "R r \<Longrightarrow> I s \<Longrightarrow> R (fst (process_record env r s)) \<and> I (snd (process_record env r s))"
proof -
  assume r: "R r" and s: "I s"
  then have "R (fst (process_action env r a s)) \<and> I (snd (process_action env r a s))" if "I s" for a s
    using action_step process_record_released release that by blast
  then show ?thesis
    using record_step r s by blast
qed

lemma process_records_inv: "\<forall>r\<in>set rs. R r \<Longrightarrow> I s \<Longrightarrow> I (fold (\<lambda>r s. snd (process_record env r s)) rs s)"
  by (induction rs arbitrary: s) (simp_all add: process_record_inv)

end

section \<open>The host knows the report\<close>

text \<open>The last report that the host got has the keys and modifiers of the report in the firmware; \<open>m\<close> says which of the two reports is in use.\<close>

definition host_behind :: "bool \<Rightarrow> actions \<Rightarrow> bool" where
  "host_behind m s \<longleftrightarrow> in_step (host_log (calls s)) (util s) \<and> reports_valid m (reports_of (util s))"

definition host_knows :: "bool \<Rightarrow> actions \<Rightarrow> bool" where
  "host_knows m s \<longleftrightarrow> host_behind m s \<and> report_known (host_log (calls s)) (util s)"

lemma keys_of_update: "r\<lparr>kb_mods := m\<rparr> = l \<Longrightarrow> keys l = keys r" "r'\<lparr>nkro_mods := m\<rparr> = l' \<Longrightarrow> bits l' = bits r'"
  by auto

lemma send_reports:
  assumes "send_keyboard_report T now u = (es, u')"
  shows "keys (keyboard_report (reports_of u')) = keys (keyboard_report (reports_of u))" "bits (nkro_report (reports_of u')) = bits (nkro_report (reports_of u))"
    "nkro_mode (reports_of u') = nkro_mode (reports_of u)"
proof -
  obtain mods u1 where g: "get_mods_for_report T now u = (mods, u1)"
    by fastforce
  have u': "u' = snd (send_keyboard_report T now u)"
    using assms by simp
  show "keys (keyboard_report (reports_of u')) = keys (keyboard_report (reports_of u))" "bits (nkro_report (reports_of u')) = bits (nkro_report (reports_of u))"
    "nkro_mode (reports_of u') = nkro_mode (reports_of u)"
    unfolding u' using get_mods_frame(4) [OF g]
    by (simp_all add: send_keyboard_report_def send_nkro_report_def send_6kro_report_def g Let_def host_nkro_send_def host_keyboard_send_def nkro_mode_def)
      (auto dest: keys_of_update)
qed

lemma same_keys:
  assumes "keys (keyboard_report r') = keys (keyboard_report r)" and "bits (nkro_report r') = bits (nkro_report r)" and "nkro_mode r' = nkro_mode r"
  shows "reports_valid m r' = reports_valid m r" "reported r' = reported r"
  using assms by (simp_all add: reports_valid_def kro6_valid_def nkro_valid_def reported_def is_key_pressed_cases nkro_pressed_def)

lemma send_valid:
  assumes "send_keyboard_report T now u = (es, u')"
  shows "reports_valid m (reports_of u') = reports_valid m (reports_of u)" "reported (reports_of u') = reported (reports_of u)"
  by (rule same_keys; rule send_reports [OF assms])+

lemma send_report_knows: "host_behind m s \<Longrightarrow> host_knows m (send_report env s)"
proof -
  obtain es u where s: "send_keyboard_report (ONESHOT_TIMEOUT env) (clock s) (util s) = (es, u)"
    by fastforce
  assume "host_behind m s"
  then show ?thesis
    using send_in_step [OF _ s] send_valid(1) [OF s] by (simp add: host_behind_def host_knows_def send_report_def s)
qed

lemma silent_reports: "silent s s' \<Longrightarrow> host_behind m s' = host_behind m s" "silent s s' \<Longrightarrow> host_knows m s' = host_knows m s"
  by (simp_all add: silent_def host_behind_def host_knows_def in_step_def report_known_def au_frame_def)

lemma key_ops_behind:
  assumes "host_behind m s"
  shows "host_behind m (on_util (add_key k) s)" "host_behind m (on_util (del_key k) s)" "host_behind m (on_util clear_keys s)"
  using assms rep.add_valid rep.del_law rep.clear_law
  by (simp_all add: host_behind_def on_util_def keys_frame) (simp_all add: add_key_def del_key_def clear_keys_def)

interpretation known: action_invariant env "host_knows m" "host_behind m" for env m
proof
  show "host_knows m s \<Longrightarrow> host_behind m s" for s
    by (simp add: host_knows_def)
qed (auto simp: silent_reports intro: key_ops_behind send_report_knows)

section \<open>The layer of a press is remembered\<close>

definition remembers :: "matrix_size \<Rightarrow> nat \<Rightarrow> keypos_t \<Rightarrow> u8 \<Rightarrow> actions \<Rightarrow> bool" where
  "remembers mx encoders k l s \<longleftrightarrow> \<not> disable_action_cache s \<and> layers_ok mx encoders (layers_of (util s)) \<and>
     read_source_layers_cache mx k (layers_of (util s)) = l"

lemma caches_remembers: "caches s' = caches s \<Longrightarrow> remembers mx encoders k l s' = remembers mx encoders k l s"
  by (simp add: caches_def remembers_def layers_ok_def read_source_layers_cache_def)

lemma get_mods_layers: "get_mods_for_report T now u = (mods, u') \<Longrightarrow> layers_of u' = layers_of u"
  by (auto simp: get_mods_for_report_def clear_oneshot_mods_def Let_def split: if_splits)

lemma send_report_layers: "layers_of (util (send_report env s)) = layers_of (util s)" "disable_action_cache (send_report env s) = disable_action_cache s"
proof -
  obtain mods u1 where g: "get_mods_for_report (ONESHOT_TIMEOUT env) (clock s) (util s) = (mods, u1)"
    by fastforce
  show "layers_of (util (send_report env s)) = layers_of (util s)" "disable_action_cache (send_report env s) = disable_action_cache s"
    using get_mods_layers [OF g]
    by (simp_all add: send_report_def send_keyboard_report_def send_nkro_report_def send_6kro_report_def g Let_def host_nkro_send_def host_keyboard_send_def)
qed

lemma caches_ops:
  "caches (send_report env s) = caches s" "caches (on_util (add_key c) s) = caches s" "caches (on_util (del_key c) s) = caches s"
  "caches (on_util clear_keys s) = caches s"
  by (simp_all add: caches_def send_report_layers) (simp_all add: on_util_def add_key_def del_key_def clear_keys_def)

interpretation remembered: action_invariant env "remembers mx encoders k l" "remembers mx encoders k l" for env mx encoders k l
  by unfold_locales (auto simp: silent_def intro: caches_remembers [THEN iffD2] caches_ops)

section \<open>What the host sees\<close>

text \<open>The sets of keys in the reports that the host got, the empty one at start included.\<close>

definition host_keysets :: "bool \<Rightarrow> host_call list \<Rightarrow> u8 set list" where
  "host_keysets m es = (if m then map nkro_keyset (zero_nkro # got_nkro es) else map kro6_keyset (zero_6kro # got_6kro es))"

definition seen :: "bool \<Rightarrow> actions \<Rightarrow> u8 set list" where
  "seen m s = host_keysets m (host_log (calls s))"

definition down :: "actions \<Rightarrow> u8 set" where
  "down s = reported (reports_of (util s))"

lemma mode_of_valid: "reports_valid m r \<Longrightarrow> (keyboard_protocol r \<and> nkro r) = m"
  by (simp add: reports_valid_def nkro_mode_def)

lemma content_keyset: "nkro_content a = nkro_content b \<Longrightarrow> nkro_keyset a = nkro_keyset b"
  by (simp add: nkro_content_def nkro_keyset_def)

lemma keyset_mods: "kro6_keyset (r\<lparr>kb_mods := m\<rparr>) = kro6_keyset r" "nkro_keyset (q\<lparr>nkro_mods := m\<rparr>) = nkro_keyset q"
  "nkro_keyset (q\<lparr>nkro_report_id := i\<rparr>) = nkro_keyset q"
  by (simp_all add: kro6_keyset_def nkro_keyset_def)

lemma last_seen: "last (seen m s) = (if m then nkro_keyset (host_nkro (host_log (calls s))) else kro6_keyset (host_6kro (host_log (calls s))))"
  by (simp add: seen_def host_keysets_def host_nkro_def host_6kro_def last_map)

lemma in_step_keysets:
  assumes "in_step (host_log (calls s)) (util s)"
  shows "last (seen m s) = (if m then nkro_keyset (last_report_nkro (util s)) else kro6_keyset (last_report_6kro (util s)))"
proof -
  have "nkro_keyset (last_report_nkro (util s)) = nkro_keyset (host_nkro (host_log (calls s)))"
    using assms by (intro content_keyset) (simp add: in_step_def)
  with assms show ?thesis
    by (simp add: last_seen in_step_def)
qed

lemma knows_last_seen:
  assumes "host_knows m s"
  shows "last (seen m s) = down s"
proof -
  have v: "reports_valid m (reports_of (util s))" and k: "report_known (host_log (calls s)) (util s)"
    using assms by (simp_all add: host_knows_def host_behind_def)
  have "m \<Longrightarrow> nkro_keyset (nkro_report (reports_of (util s))) = nkro_keyset (host_nkro (host_log (calls s)))"
    using k mode_of_valid [OF v] by (intro content_keyset) (simp add: report_known_def)
  then show ?thesis
    using k mode_of_valid [OF v] reported_cases [OF v] by (simp add: last_seen down_def report_known_def)
qed

lemma send_emits:
  assumes "host_behind m s" and "down s \<noteq> last (seen m s)"
  shows "seen m (send_report env s) = seen m s @ [down s]"
proof -
  let ?u = "util s" and ?es = "host_log (calls s)"
  obtain mods u1 where g: "get_mods_for_report (ONESHOT_TIMEOUT env) (clock s) ?u = (mods, u1)"
    by fastforce
  note f = get_mods_frame [OF g]
  have v: "reports_valid m (reports_of ?u)" and st: "in_step ?es ?u" and d: "driver ?u"
    using assms(1) by (simp_all add: host_behind_def in_step_def)
  show ?thesis
  proof (cases m)
    case True
    have mode: "keyboard_protocol (reports_of ?u)" "nkro (reports_of ?u)" and keys: "down s = nkro_keyset (nkro_report (reports_of ?u))"
      using True mode_of_valid [OF v] reported_cases [OF v] by (simp_all add: down_def)
    have "(nkro_report (reports_of ?u))\<lparr>nkro_mods := mods\<rparr> \<noteq> last_report_nkro ?u"
      using assms(2) True in_step_keysets [OF st, of m] keys keyset_mods(2) by metis
    then have "fst (send_keyboard_report (ONESHOT_TIMEOUT env) (clock s) ?u) =
        [Host_nkro ((nkro_report (reports_of ?u))\<lparr>nkro_mods := mods, nkro_report_id := REPORT_ID_NKRO\<rparr>)]"
      by (simp add: send_keyboard_report_def mode send_nkro_report_def g f host_nkro_send_def d)
    then show ?thesis
      by (simp add: True seen_def host_keysets_def send_report_def case_prod_unfold Let_def got_append keyset_mods keys)
  next
    case False
    have mode: "\<not> (keyboard_protocol (reports_of ?u) \<and> nkro (reports_of ?u))" and keys: "down s = kro6_keyset (keyboard_report (reports_of ?u))"
      using False mode_of_valid [OF v] reported_cases [OF v] by (simp_all add: down_def)
    have "(keyboard_report (reports_of ?u))\<lparr>kb_mods := mods\<rparr> \<noteq> last_report_6kro ?u"
      using assms(2) False in_step_keysets [OF st, of m] keys keyset_mods(1) by metis
    then have "fst (send_keyboard_report (ONESHOT_TIMEOUT env) (clock s) ?u) = [Host_keyboard ((keyboard_report (reports_of ?u))\<lparr>kb_mods := mods\<rparr>)]"
      using mode by (auto simp: send_keyboard_report_def send_6kro_report_def g f host_keyboard_send_def d Let_def)
    then show ?thesis
      by (simp add: False seen_def host_keysets_def send_report_def case_prod_unfold Let_def got_append keyset_mods keys)
  qed
qed

lemma down_ops:
  "down (send_report env s) = down s" "\<And>f. au_frame (f (util s)) = au_frame (util s) \<Longrightarrow> down (on_util f s) = down s"
  "down (call c s) = down s" "down (on_layers f s) = down s" "down (host_system_send u s) = down s" "down (host_consumer_send u s) = down s"
proof -
  obtain es u where s: "send_keyboard_report (ONESHOT_TIMEOUT env) (clock s) (util s) = (es, u)"
    by fastforce
  then show "down (send_report env s) = down s"
    using send_valid(2) [OF s] by (simp add: down_def send_report_def)
qed (simp_all add: down_def on_util_def on_layers_def call_def au_frame_def host_system_send_def host_consumer_send_def Let_def)

lemma down_keys:
  assumes "host_behind m s"
  shows "down (on_util (del_key c) s) = down s - {c}" "down (on_util clear_keys s) = {}"
    "c \<noteq> KC_NO \<Longrightarrow> report_fits m (insert c (down s)) \<Longrightarrow> down (on_util (add_key c) s) = insert c (down s)"
  using assms rep.del_law [of m "reports_of (util s)" c] rep.clear_law [of m "reports_of (util s)"] rep.add_fits [of m "reports_of (util s)" c]
  by (simp_all add: host_behind_def down_def on_util_def del_key_def clear_keys_def add_key_def)

lemma seen_util: "seen m (on_util f s) = seen m s"
  by (simp add: seen_def on_util_def)

lemma basic_not_no: "IS_BASIC_KEYCODE (ucast c) \<Longrightarrow> c \<noteq> KC_NO"
  by (auto simp: IS_BASIC_KEYCODE_def)

lemma knows_behind: "host_knows m s \<Longrightarrow> host_behind m s"
  by (simp add: host_knows_def)

lemma del_key_sent:
  assumes "host_knows m s" and s'_def: "s' = send_report env (on_util (del_key c) s)"
  shows "host_knows m s'" "down s' = down s - {c}" "c \<in> down s \<Longrightarrow> seen m s' = seen m s @ [down s - {c}]"
proof -
  have b: "host_behind m (on_util (del_key c) s)"
    using assms(1) by (intro key_ops_behind knows_behind)
  have d: "down (on_util (del_key c) s) = down s - {c}"
    using down_keys(1) knows_behind [OF assms(1)] by blast
  show "host_knows m s'" "down s' = down s - {c}"
    unfolding s'_def using b d by (simp_all add: send_report_knows down_ops)
  show "seen m s' = seen m s @ [down s - {c}]" if "c \<in> down s"
    unfolding s'_def using send_emits [OF b] knows_last_seen [OF assms(1)] that d by (auto simp: seen_util)
qed

lemma add_key_sent:
  assumes "host_knows m s" and "c \<noteq> KC_NO" and "report_fits m (insert c (down s))"
    and s'_def: "s' = send_report env (on_util (add_key c) s)"
  shows "host_knows m s'" "down s' = insert c (down s)" "c \<notin> down s \<Longrightarrow> seen m s' = seen m s @ [insert c (down s)]"
proof -
  have b: "host_behind m (on_util (add_key c) s)"
    using assms(1) by (intro key_ops_behind knows_behind)
  have d: "down (on_util (add_key c) s) = insert c (down s)"
    using down_keys(3) knows_behind [OF assms(1)] assms(2,3) by blast
  show "host_knows m s'" "down s' = insert c (down s)"
    unfolding s'_def using b d by (simp_all add: send_report_knows down_ops)
  show "seen m s' = seen m s @ [insert c (down s)]" if "c \<notin> down s"
    unfolding s'_def using send_emits [OF b] knows_last_seen [OF assms(1)] that d by (auto simp: seen_util)
qed

lemma register_basic:
  assumes "host_knows m s" and "IS_BASIC_KEYCODE (ucast c)" and "report_fits m (insert c (down s))"
  shows "host_knows m (register_code env c s)" "down (register_code env c s) = insert c (down s)"
    "seen m (register_code env c s) = seen m s @ (if c \<in> down s then [down s - {c}] else []) @ [insert c (down s)]"
proof -
  note c = basic_not_no [OF assms(2)]
  define s1 where "s1 = (if c \<in> down s then send_report env (on_util (del_key c) s) else s)"
  have s1: "host_knows m s1" "down s1 = down s - {c}" "seen m s1 = seen m s @ (if c \<in> down s then [down s - {c}] else [])"
    using assms(1) del_key_sent [OF assms(1) refl] by (auto simp: s1_def)
  have r: "register_code env c s = send_report env (on_util (add_key c) s1)"
    using assms(2) c by (simp add: register_code_def s1_def down_def reported_def)
  have fits: "report_fits m (insert c (down s1))"
    using s1(2) assms(3) by simp
  note a = add_key_sent [OF s1(1) c fits refl, of env, folded r]
  show "host_knows m (register_code env c s)" "down (register_code env c s) = insert c (down s)"
    "seen m (register_code env c s) = seen m s @ (if c \<in> down s then [down s - {c}] else []) @ [insert c (down s)]"
    using a s1 by simp_all
qed

lemma unregister_basic:
  assumes "host_knows m s" and "IS_BASIC_KEYCODE (ucast c)"
  shows "host_knows m (unregister_code env c s)" "down (unregister_code env c s) = down s - {c}"
    "c \<in> down s \<Longrightarrow> seen m (unregister_code env c s) = seen m s @ [down s - {c}]"
  using del_key_sent [OF assms(1) refl] assms(2) basic_not_no [OF assms(2)] by (simp_all add: unregister_code_def)

text \<open>Registering a key that is down already makes the host see it come up and go down again; registering another key makes the host see it go down. Unregistering
  shows the host the remaining keys.\<close>

theorem register_code_seen:
  assumes "host_knows m s" and "IS_BASIC_KEYCODE (ucast c)" and "report_fits m (insert c (down s))"
  shows "seen m (register_code env c s) = seen m s @ (if c \<in> down s then [down s - {c}] else []) @ [insert c (down s)] \<and>
    down (register_code env c s) = insert c (down s) \<and>
    seen m (unregister_code env c (register_code env c s)) = seen m (register_code env c s) @ [down s - {c}]"
  using register_basic [OF assms, of env] unregister_basic(3) [OF _ assms(2), of m "register_code env c s" env] by simp

lemma send_report_fields:
  "real_mods (util (send_report env s)) = real_mods (util s)" "weak_mods (util (send_report env s)) = weak_mods (util s)"
  "last_system_usage (send_report env s) = last_system_usage s" "last_consumer_usage (send_report env s) = last_consumer_usage s"
proof -
  obtain mods u1 where g: "get_mods_for_report (ONESHOT_TIMEOUT env) (clock s) (util s) = (mods, u1)"
    by fastforce
  show "real_mods (util (send_report env s)) = real_mods (util s)" "weak_mods (util (send_report env s)) = weak_mods (util s)"
    "last_system_usage (send_report env s) = last_system_usage s" "last_consumer_usage (send_report env s) = last_consumer_usage s"
    using get_mods_frame(5,6) [OF g]
    by (simp_all add: send_report_def send_keyboard_report_def send_nkro_report_def send_6kro_report_def g Let_def host_nkro_send_def host_keyboard_send_def)
qed

lemma usage_fields:
  "util (host_system_send u s) = util s" "util (host_consumer_send u s) = util s"
  "last_system_usage (host_system_send u s) = u" "last_consumer_usage (host_consumer_send u s) = u"
  "last_system_usage (host_consumer_send u s) = last_system_usage s" "last_consumer_usage (host_system_send u s) = last_consumer_usage s"
  by (simp_all add: host_system_send_def host_consumer_send_def call_def Let_def)

text \<open>\<^verbatim>\<open>clear_keyboard\<close>: no keys, no usages, and no modifiers other than one-shot ones; and the host knows it.\<close>

theorem clear_keyboard_clears:
  assumes "host_knows m s"
  shows "host_knows m (clear_keyboard env s) \<and> down (clear_keyboard env s) = {} \<and> last (seen m (clear_keyboard env s)) = {} \<and>
    real_mods (util (clear_keyboard env s)) = 0 \<and> weak_mods (util (clear_keyboard env s)) = 0 \<and>
    last_system_usage (clear_keyboard env s) = 0 \<and> last_consumer_usage (clear_keyboard env s) = 0"
proof -
  let ?s = "clear_keyboard env s"
  have k: "host_knows m ?s"
    using assms by (rule known.clear_keyboard_inv)
  have "host_behind m (on_util clear_mods s)"
    using knows_behind [OF assms] silent_reports(1) [OF silent_mods(3)] by blast
  then have "down (on_util clear_keys (on_util clear_mods s)) = {}"
    by (rule down_keys(2))
  then have d: "down ?s = {}"
    by (simp add: clear_keyboard_def clear_keyboard_but_mods_def clear_keyboard_but_mods_and_keys_def Let_def down_ops)
      (simp add: down_def on_util_def usage_fields clear_weak_mods_def)
  have "real_mods (util ?s) = 0" "weak_mods (util ?s) = 0" "last_system_usage ?s = 0" "last_consumer_usage ?s = 0"
    by (simp_all add: clear_keyboard_def clear_keyboard_but_mods_def clear_keyboard_but_mods_and_keys_def Let_def call_def send_report_fields on_util_def
        usage_fields clear_weak_mods_def clear_keys_def clear_mods_def)
  with k d knows_last_seen [OF k] show ?thesis
    by simp
qed

section \<open>The state at start\<close>

definition actions_boot :: "bool \<Rightarrow> actions" where
  "actions_boot m = \<lparr>util = (au_boot m)\<lparr>layers_of := fresh_layers\<rparr>, last_system_usage = 0, last_consumer_usage = 0, disable_action_cache = False,
     clock = 0, calls = []\<rparr>"

lemma boot_knows: "host_knows m (actions_boot m)"
  by (simp add: host_knows_def host_behind_def actions_boot_def au_boot_def in_step_def report_known_def host_6kro_def host_nkro_def no_repeats_def
      reports_valid_def nkro_mode_def kro6_valid_def nkro_valid_def zero_6kro_def zero_nkro_def)

text \<open>The hooks as \<^verbatim>\<open>action.c\<close> defines them, where nothing else does.\<close>

definition default_env :: "(nat \<Rightarrow> keypos_t \<Rightarrow> u16) \<Rightarrow> act_env" where
  "default_env f = \<lparr>ONESHOT_TIMEOUT = 0, afk = f, matrix = q3_matrix, TAPPING_TERM = 200, QUICK_TAP_TERM = 200,
     pre_process_record_quantum = (\<lambda>r s. (True, s)), process_record_quantum = (\<lambda>r s. (True, s)), post_process_record_quantum = (\<lambda>r s. s)\<rparr>"

lemma zero_keysets [simp]: "kro6_keyset zero_6kro = {}" "nkro_keyset zero_nkro = {}"
  by (auto simp: kro6_keyset_def nkro_keyset_def zero_6kro_def zero_nkro_def NKRO_REPORT_BITS_def)

lemma boot_seen: "seen m (actions_boot m) = [{}]"
  by (simp add: seen_def host_keysets_def actions_boot_def)

lemma boot_down: "down (actions_boot m) = {}"
  using knows_last_seen [OF boot_knows, of m] by (simp add: boot_seen)

theorem register_code_seen_witness:
  "seen False (register_code (default_env (\<lambda>_ _. 0)) 4 (actions_boot False)) = [{}, {4}]"
proof -
  have "IS_BASIC_KEYCODE (ucast (4 :: u8))" and "report_fits False (insert 4 (down (actions_boot False)))"
    by (simp_all add: IS_BASIC_KEYCODE_def report_fits_def boot_down KEYBOARD_REPORT_KEYS_def)
  from register_code_seen [OF boot_knows this] show ?thesis
    by (simp add: boot_down boot_seen)
qed

theorem clear_keyboard_clears_witness: "down (clear_keyboard (default_env (\<lambda>_ _. 0)) (actions_boot True)) = {}"
  using clear_keyboard_clears [OF boot_knows, of True] by blast

section \<open>Layer keys\<close>

lemma layer_cases:
  assumes "unat (l :: u8) < MAX_LAYER"
  shows "l \<in> {0, 1, 2, 3, 4, 5, 6, 7}"
proof -
  have "unat l \<in> {0, 1, 2, 3, 4, 5, 6, 7}"
    using assms by (auto simp: MAX_LAYER_def)
  then show ?thesis
    by (auto simp: word_unat_eq_iff)
qed

lemma layer_keycode_range:
  assumes "unat (l :: u8) < MAX_LAYER" and "b \<in> {0x5200, 0x5220, 0x5240, 0x5260 :: u16}"
  shows "b \<le> b + ucast l" "b + ucast l \<le> b + 0x1F" "ucast ((b + ucast l) AND 0x1F) = l"
  using layer_cases [OF assms(1)] assms(2) by (elim insertE emptyE; simp)+

lemma layer_key_actions:
  assumes l: "unat l < MAX_LAYER"
  shows "action_for_keycode cfg (0x5200 + ucast l) = ACTION_LAYER_GOTO l" "action_for_keycode cfg (0x5220 + ucast l) = ACTION_LAYER_TAP l 0xF1"
    "action_for_keycode cfg (0x5240 + ucast l) = ACTION_DEFAULT_LAYER_SET l" "action_for_keycode cfg (0x5260 + ucast l) = ACTION_LAYER_TOGGLE l"
proof -
  have r: "b \<le> b + ucast l" "b + ucast l \<le> b + 0x1F" "ucast ((b + ucast l) AND 0x1F) = l" if "b \<in> {0x5200, 0x5220, 0x5240, 0x5260 :: u16}" for b
    using layer_keycode_range [OF l that] by blast+
  show "action_for_keycode cfg (0x5200 + ucast l) = ACTION_LAYER_GOTO l"
    using goto_action [of "0x5200 + ucast l" cfg] r [of "0x5200"] by simp
  show "action_for_keycode cfg (0x5220 + ucast l) = ACTION_LAYER_TAP l 0xF1"
    using momentary_action [of "0x5220 + ucast l" cfg] r [of "0x5220"] by (simp add: OP_ON_OFF_def)
  show "action_for_keycode cfg (0x5240 + ucast l) = ACTION_DEFAULT_LAYER_SET l"
    using default_layer_action [of "0x5240 + ucast l" cfg] r [of "0x5240"] by simp
  show "action_for_keycode cfg (0x5260 + ucast l) = ACTION_LAYER_TOGGLE l"
    using toggle_layer_action [of "0x5260 + ucast l" cfg] r [of "0x5260"] by simp
qed

lemma layer_key_bitops:
  assumes l: "unat l < MAX_LAYER"
  shows "layer_bitop True (ACTION_LAYER_GOTO l) = layer_move l" "layer_bitop False (ACTION_LAYER_GOTO l) = id"
    "layer_bitop True (ACTION_LAYER_TOGGLE l) = id" "layer_bitop False (ACTION_LAYER_TOGGLE l) = layer_invert l"
    "layer_bitop True (ACTION_DEFAULT_LAYER_SET l) = id" "layer_bitop False (ACTION_DEFAULT_LAYER_SET l) = default_layer_set (push_bit (unat l) 1)"
  using layer_cases [OF l]
  by (elim insertE emptyE; simp add: fun_eq_iff layer_bitop_def ACTION_LAYER_GOTO_def ACTION_LAYER_TOGGLE_def ACTION_DEFAULT_LAYER_SET_def
      ACTION_LAYER_BITOP_def ACTION_def action_fields action_code_defs layer_move_def layer_invert_def layer_xor_def)+

lemma layer_key_kinds:
  assumes l: "unat l < MAX_LAYER"
  shows "action_kind_id (ACTION_LAYER_GOTO l) = ACT_LAYER" "action_kind_id (ACTION_LAYER_TOGGLE l) = ACT_LAYER"
    "action_kind_id (ACTION_DEFAULT_LAYER_SET l) = ACT_LAYER" "action_kind_id (ACTION_LAYER_TAP l 0xF1) = ACT_LAYER_TAP"
    "action_code (ACTION_LAYER_TAP l 0xF1) = OP_ON_OFF" "layer_tap_val (ACTION_LAYER_TAP l 0xF1) = l"
  using layer_cases [OF l]
  by (elim insertE emptyE; simp add: ACTION_LAYER_GOTO_def ACTION_LAYER_TOGGLE_def ACTION_DEFAULT_LAYER_SET_def ACTION_LAYER_TAP_def
      ACTION_LAYER_BITOP_def ACTION_def action_fields action_code_defs action_constants)+

text \<open>From keycode to effect: the keys that switch layers. \<^verbatim>\<open>MO\<close> switches its layer on while it is held, \<^verbatim>\<open>TO\<close> makes it the only layer, \<^verbatim>\<open>TG\<close> inverts it
  when it is released, and \<^verbatim>\<open>DF\<close> makes it the default layer when it is released.\<close>

theorem layer_keys:
  assumes "unat l < MAX_LAYER"
  shows "execute_action env r (action_for_keycode cfg (0x5220 + ucast l)) s =
      call Led_set (on_layers (if pressed (event r) then layer_on l else layer_off l) s) \<and>
    execute_action env r (action_for_keycode cfg (0x5200 + ucast l)) s = call Led_set (on_layers (if pressed (event r) then layer_move l else id) s) \<and>
    execute_action env r (action_for_keycode cfg (0x5260 + ucast l)) s = call Led_set (on_layers (if pressed (event r) then id else layer_invert l) s) \<and>
    execute_action env r (action_for_keycode cfg (0x5240 + ucast l)) s =
      call Led_set (on_layers (if pressed (event r) then id else default_layer_set (push_bit (unat l) 1)) s)"
  unfolding layer_key_actions [OF assms]
  by (cases "pressed (event r)")
    (simp_all add: execute_action_def layer_key_kinds [OF assms] layer_key_bitops [OF assms] layer_tap_def Let_def action_constants action_code_defs)

theorem layer_keys_witness:
  "execute_action (default_env (\<lambda>_ _. 0)) (new_record \<lparr>key = \<lparr>col = 0, row = 0\<rparr>, time = 0, ev_type = KEY_EVENT, pressed = True\<rparr>)
     (action_for_keycode demo_swaps 0x5223) (actions_boot True) = call Led_set (on_layers (layer_on 3) (actions_boot True))"
proof -
  have "unat (3 :: u8) < MAX_LAYER"
    by (simp add: MAX_LAYER_def)
  from layer_keys [OF this] show ?thesis
    by (simp add: new_record_def)
qed

end
