(* ===== verification/Action_Exec.thy ===== *)
theory Action_Exec
  imports Action
begin

text \<open>
  The whole way of an event: \<^verbatim>\<open>action_exec\<close> of \<^verbatim>\<open>quantum/action.c\<close> hands it to the tapping code of \<^verbatim>\<open>Tapping\<close>, which here runs on the real \<^verbatim>\<open>process_record\<close>,
  \<^verbatim>\<open>clear_keyboard\<close> and layers. \<^verbatim>\<open>TAPPING_TERM\<close> and \<^verbatim>\<open>QUICK_TAP_TERM\<close> are constants; \<^verbatim>\<open>PERMISSIVE_HOLD\<close> and \<^verbatim>\<open>HOLD_ON_OTHER_KEY_PRESS\<close> are not defined.
\<close>

section \<open>Model\<close>

definition tap_env_of :: "act_env \<Rightarrow> actions tap_env" where
  "tap_env_of env =
     \<lparr>env_process_record = process_record env,
      env_layer_switch_get_action = (\<lambda>k s. layer_switch_get_action (afk env) k (layers_of (util s))),
      env_tapping_term = (\<lambda>r s. TAPPING_TERM env), env_quick_tap_term = (\<lambda>r s. QUICK_TAP_TERM env),
      env_permissive_hold = (\<lambda>r s. False), env_hold_on_other_key_press = (\<lambda>r s. False),
      env_clear_keyboard = clear_keyboard env\<rparr>"

definition oneshot_timeouts :: "u16 \<Rightarrow> actions \<Rightarrow> actions" where
  "oneshot_timeouts T w =
     (if cfg_oneshot_enable (util w) \<and> 0 < T then
        let w = (if has_oneshot_layer_timed_out T (clock w) (util w)
                 then on_util (clear_oneshot_layer_state T ONESHOT_OTHER_KEY_PRESSED) w else w)
        in if has_oneshot_mods_timed_out T (clock w) (util w) then on_util (clear_oneshot_mods T) w else w
      else w)"

definition action_exec :: "act_env \<Rightarrow> keyevent_t \<Rightarrow> actions tapping \<Rightarrow> actions tapping" where
  "action_exec env e t =
     (let w = (if pressed e then on_util clear_weak_mods (world t) else world t);
          r = new_record e;
          w = oneshot_timeouts (ONESHOT_TIMEOUT env) w
      in if IS_NOEVENT e then action_tapping_process (tap_env_of env) r (t\<lparr>world := w\<rparr>)
         else let (go, w) = pre_process_record_quantum env r w
              in if go then action_tapping_process (tap_env_of env) r (t\<lparr>world := w\<rparr>) else t\<lparr>world := w\<rparr>)"

text \<open>Events with the time at which they come in.\<close>

definition exec_at :: "act_env \<Rightarrow> keyevent_t \<times> u16 \<Rightarrow> actions tapping \<Rightarrow> actions tapping" where
  "exec_at env x t = action_exec env (fst x) (t\<lparr>world := (world t)\<lparr>clock := snd x\<rparr>\<rparr>)"

section \<open>Invariants of what tapping runs on\<close>

locale tap_world =
  fixes env :: "'w tap_env" and P :: "'w \<Rightarrow> bool"
  assumes process: "P w \<Longrightarrow> P (snd (env_process_record env r w))"
    and clear: "P w \<Longrightarrow> P (env_clear_keyboard env w)"
begin

lemma process_key_world: "P (world t) \<Longrightarrow> P (world (snd (process_key env r t)))"
  by (simp add: process_key_def case_prod_unfold process Let_def)

lemma process_tapping_key_world: "P (world t) \<Longrightarrow> P (world (process_tapping_key env t))"
  by (simp add: process_tapping_key_def case_prod_unfold process_key_world Let_def)

lemma scan_tap_world: "P (world t) \<Longrightarrow> P (world (waiting_buffer_scan_tap env t))"
  by (simp add: waiting_buffer_scan_tap_def process_tapping_key_world split: option.split)

lemma release_last_tap_world: "P (world t) \<Longrightarrow> P (world (release_last_tap env now t))"
  by (simp add: release_last_tap_def process_key_world)

lemmas key_world = process_key_world process_tapping_key_world scan_tap_world release_last_tap_world

lemma process_tapping_world: "P (world t) \<Longrightarrow> P (world (snd (snd (process_tapping env r t))))"
  by (simp add: process_tapping_def tapping_pressed_in_term_def tapping_undecided_def tapping_pressed_after_term_def tapping_released_def key_world
      case_prod_unfold Let_def)

lemma process_waiting_world: "P (world t) \<Longrightarrow> P (world (process_waiting env n t))"
proof (induction n arbitrary: t)
  case (Suc n)
  then show ?case
    by (simp add: case_prod_unfold Let_def process_tapping_world)
qed simp

lemma action_tapping_world: "P (world t) \<Longrightarrow> P (world (action_tapping_process env r t))"
  by (simp add: action_tapping_process_def case_prod_unfold Let_def process_tapping_world waiting_buffer_enq_def waiting_buffer_clear_def clear
      process_waiting_world)

end

section \<open>The host is never left behind\<close>

definition hooks_keep :: "act_env \<Rightarrow> (actions \<Rightarrow> bool) \<Rightarrow> bool" where
  "hooks_keep env P \<longleftrightarrow> (\<forall>r s. P s \<longrightarrow> P (snd (pre_process_record_quantum env r s)) \<and> P (snd (process_record_quantum env r s)) \<and>
     P (post_process_record_quantum env r s))"

lemma remember_knows: "host_knows m (remember_layer env r s) = host_knows m s"
  by (simp add: remember_layer_def on_layers_def on_util_def host_knows_def host_behind_def in_step_def report_known_def)

locale knowing_hooks =
  fixes env :: act_env and m :: bool
  assumes hooks: "hooks_keep env (host_knows m)"
begin

lemma exec_knows_run: "action_run env (host_knows m) (host_behind m) (\<lambda>_. True)"
  using hooks by unfold_locales (simp_all add: remember_knows hooks_keep_def)

end

sublocale knowing_hooks \<subseteq> run: action_run env "host_knows m" "host_behind m" "\<lambda>_. True"
  by (rule exec_knows_run)

sublocale knowing_hooks \<subseteq> tapw: tap_world "tap_env_of env" "host_knows m"
  by unfold_locales (simp_all add: tap_env_of_def run.process_record_inv known.clear_keyboard_inv)

context knowing_hooks
begin

lemma timeouts_knows: "host_knows m w \<Longrightarrow> host_knows m (oneshot_timeouts T w)"
  by (simp add: oneshot_timeouts_def Let_def known.prim_inv)

lemma action_exec_knows: "host_knows m (world t) \<Longrightarrow> host_knows m (world (action_exec env e t))"
  using hooks by (simp add: action_exec_def Let_def case_prod_unfold tapw.action_tapping_world timeouts_knows known.prim_inv hooks_keep_def)

lemma exec_at_knows: "host_knows m (world t) \<Longrightarrow> host_knows m (world (exec_at env x t))"
  unfolding exec_at_def by (rule action_exec_knows) (simp add: host_knows_def host_behind_def)

lemma exec_run_knows: "host_knows m (world t) \<Longrightarrow> host_knows m (world (fold (exec_at env) xs t))"
  by (induction xs arbitrary: t) (simp_all add: exec_at_knows)

end

interpretation default_hooks: knowing_hooks "default_env f" m for f m
  by unfold_locales (simp add: hooks_keep_def default_env_def)

text \<open>C2: Whatever events come in at whatever times, after each of them the last report that the host got shows exactly the keys that the firmware has in its report;
  hooks may send reports of their own as long as they leave this so.\<close>

theorem exec_host_knows:
  assumes "hooks_keep env (host_knows m)" and "host_knows m (world t)"
  shows "host_knows m (world (fold (exec_at env) xs t)) \<and> last (seen m (world (fold (exec_at env) xs t))) = down (world (fold (exec_at env) xs t))"
  using knowing_hooks.exec_run_knows [OF knowing_hooks.intro [OF assms(1)] assms(2)] knows_last_seen by blast

theorem exec_host_knows_witness:
  "\<exists>t. t = fold (exec_at (default_env (\<lambda>l k. 4))) [(\<lparr>key = \<lparr>col = 1, row = 1\<rparr>, time = 7, ev_type = KEY_EVENT, pressed = True\<rparr>, 7)]
      (tapping_init (actions_boot True)) \<and> last (seen True (world t)) = down (world t)"
proof -
  have "hooks_keep (default_env (\<lambda>l k. 4)) (host_knows True)" and "host_knows True (world (tapping_init (actions_boot True)))"
    by (simp_all add: hooks_keep_def default_env_def tapping_init_def boot_knows)
  from exec_host_knows [OF this] show ?thesis
    by blast
qed

section \<open>No key is left down\<close>

definition silent_hooks :: "act_env \<Rightarrow> bool" where
  "silent_hooks env \<longleftrightarrow> (\<forall>r s. silent s (snd (process_record_quantum env r s)) \<and> silent s (post_process_record_quantum env r s))"

text \<open>The records of other keys: none of them is a press that shares the entry of \<open>k\<close> in the cache.\<close>

definition spares_key :: "matrix_size \<Rightarrow> nat \<Rightarrow> keypos_t \<Rightarrow> keyrecord_t \<Rightarrow> bool" where
  "spares_key mx encoders k r \<longleftrightarrow> has_entry mx encoders (key (event r)) \<and> (pressed (event r) \<longrightarrow> \<not> same_entry (key (event r)) k)"

lemma silent_same:
  assumes "silent s s'"
  shows "remembers mx encoders k l s' = remembers mx encoders k l s" "host_knows m s' = host_knows m s" "down s' = down s"
  using assms caches_remembers [of s' s] silent_reports(2) [OF assms] by (simp_all add: silent_def down_def au_frame_def)

lemma remember_spares:
  assumes "spares_key (matrix env) encoders k r" and "has_entry (matrix env) encoders k" and "remembers (matrix env) encoders k l s"
  shows "remembers (matrix env) encoders k l (remember_layer env r s)"
proof -
  let ?p = "pressed (event r)" and ?k = "key (event r)" and ?l = "layers_of (util s)"
  have "layers_ok (matrix env) encoders (layer_step (afk env) (matrix env) (Key_op ?p ?k) ?l) \<and>
    read_source_layers_cache (matrix env) k (layer_step (afk env) (matrix env) (Key_op ?p ?k) ?l) = read_source_layers_cache (matrix env) k ?l"
    using assms by (intro layer_step_spares) (simp_all add: remembers_def spares_key_def)
  then show ?thesis
    using assms(3) by (simp add: remembers_def remember_layer_def on_layers_def on_util_def)
qed

lemma remembers_run:
  assumes "silent_hooks env" and "has_entry (matrix env) encoders k"
  shows "action_run env (remembers (matrix env) encoders k l) (remembers (matrix env) encoders k l) (spares_key (matrix env) encoders k)"
proof
  show "spares_key (matrix env) encoders k (release_record r)" if "spares_key (matrix env) encoders k r" for r
    using that by (simp add: spares_key_def release_record_def)
  show "remembers (matrix env) encoders k l (remember_layer env r s)"
    if "spares_key (matrix env) encoders k r" "remembers (matrix env) encoders k l s" for r s
    using that assms(2) by (intro remember_spares)
  show "remembers (matrix env) encoders k l (snd (process_record_quantum env r s))" "remembers (matrix env) encoders k l (post_process_record_quantum env r s)"
    if "remembers (matrix env) encoders k l s" for r s
    using that assms(1) silent_same(1) [of s "snd (process_record_quantum env r s)"] silent_same(1) [of s "post_process_record_quantum env r s"]
    by (simp_all add: silent_hooks_def)
qed

lemma silent_hooks_run:
  assumes "silent_hooks env"
  shows "action_run env (host_knows m) (host_behind m) (\<lambda>_. True)"
proof
  show "host_knows m (snd (process_record_quantum env r s))" "host_knows m (post_process_record_quantum env r s)" if "host_knows m s" for r s
    using that assms silent_same(2) [of s "snd (process_record_quantum env r s)"] silent_same(2) [of s "post_process_record_quantum env r s"]
    by (simp_all add: silent_hooks_def)
qed (simp_all add: remember_knows)

lemma silent_hook:
  assumes "silent_hooks env" and "process_record_quantum env r s = (go, s1)"
  shows "silent s s1"
  using assms unfolding silent_hooks_def by (metis snd_conv)

lemma process_record_go:
  assumes "IS_EVENT (event r)" and "process_record_quantum env r s = (True, s1)" and "process_record_handler env r s1 = (r', s2)"
  shows "process_record env r s = (r', post_process_record_quantum env r' s2)"
  using assms by (simp add: process_record.simps IS_EVENT_def IS_NOEVENT_def)

lemma press_remembers:
  assumes hooks: "silent_hooks env" and k: "has_entry (matrix env) encoders k" and s: "layers_ok (matrix env) encoders (layers_of (util s))" "\<not> disable_action_cache s"
    and r: "IS_EVENT (event r)" "pressed (event r)" "key (event r) = k" and q: "process_record_quantum env r s = (True, s1)"
  shows "remembers (matrix env) encoders k (layer_switch_get_layer (afk env) k (layers_of (util s1))) (snd (process_record env r s))"
proof -
  let ?l = "layer_switch_get_layer (afk env) k (layers_of (util s1))"
  have sil: "silent s s1"
    by (rule silent_hook [OF hooks q])
  then have s1: "layers_ok (matrix env) encoders (layers_of (util s1))" "\<not> disable_action_cache s1"
    using s by (simp_all add: silent_def caches_def layers_ok_def)
  obtain a l where a: "store_or_get_action (afk env) (matrix env) False True k (layers_of (util s1)) = (a, l)"
    by fastforce
  note st = press_stored [OF s1(1) k a]
  have rem: "remembers (matrix env) encoders k ?l (on_layers (\<lambda>_. l) s1)"
    using s1(2) st(1,2) by (simp add: remembers_def on_layers_def on_util_def)
  have "spares_key (matrix env) encoders k (release_record r)"
    using k r by (simp add: spares_key_def release_record_def)
  then have inv: "remembers (matrix env) encoders k ?l (snd (process_action env r a (on_layers (\<lambda>_. l) s1)))"
    by (rule action_run.process_action_inv [OF remembers_run [OF hooks k] _ rem])
  obtain r2 s2 where p: "process_record_handler env r s1 = (r2, s2)"
    by fastforce
  have "remembers (matrix env) encoders k ?l s2"
    using inv p r s1(2) a by (simp add: process_record_handler.simps)
  moreover have "silent s2 (post_process_record_quantum env r2 s2)"
    using hooks by (simp add: silent_hooks_def)
  ultimately show ?thesis
    using silent_same(1) process_record_go [OF r(1) q p] by simp
qed

lemma release_executes:
  assumes s: "remembers (matrix env) encoders k l s1" and r: "IS_EVENT (event r)" "\<not> pressed (event r)" "key (event r) = k"
    and q: "process_record_quantum env r s = (True, s1)"
  shows "process_record env r s = (r, post_process_record_quantum env r (execute_action env r (afk env (unat l) k) s1))"
proof -
  have "on_layers (\<lambda>_. layers_of (util s1)) s1 = s1"
    by (simp add: on_layers_def on_util_def)
  then have "process_record_handler env r s1 = (r, execute_action env r (afk env (unat l) k) s1)"
    using s r by (simp add: process_record_handler.simps remembers_def store_or_get_action_def process_action_released)
  from process_record_go [OF r(1) q this] show ?thesis .
qed

lemma release_key_up:
  assumes "host_knows m s" and "\<not> pressed (event r)" and "action_kind_id a \<in> {ACT_LMODS, ACT_RMODS}" and "IS_BASIC_KEYCODE (ucast (key_code a))"
  shows "down (execute_action env r a s) = down s - {key_code a}"
proof -
  let ?s = "send_report env (on_util (del_key (key_code a)) s)"
  have u: "unregister_code env (key_code a) s = ?s"
    using assms(4) basic_not_no [OF assms(4)] by (simp add: unregister_code_def)
  have d: "down ?s = down s - {key_code a}"
    using del_key_sent(2) [OF assms(1) refl] .
  have "down (on_util (del_mods x) ?s) = down ?s" "down (on_util (del_weak_mods x) ?s) = down ?s" for x
    by (simp_all add: down_ops mods_frame)
  then show ?thesis
    using assms(2,3) d by (auto simp: execute_action_def mods_and_key_def u down_ops action_constants action_code_defs Let_def)
qed

text \<open>C5: A key that was pressed and is released is up: whatever other keys did in between, whatever layers they changed, the keycode that the press put into the report is no
  longer in it, and the host knows it.\<close>

theorem released_key_is_up:
  assumes hooks: "silent_hooks env" "\<forall>r s. fst (process_record_quantum env r s)"
    and s: "host_knows m s" "layers_ok (matrix env) encoders (layers_of (util s))" "\<not> disable_action_cache s"
    and k: "has_entry (matrix env) encoders k"
    and press: "IS_EVENT (event r)" "pressed (event r)" "key (event r) = k"
    and release: "IS_EVENT (event r')" "\<not> pressed (event r')" "key (event r') = k"
    and others: "\<forall>r\<in>set rs. spares_key (matrix env) encoders k r"
    and a: "a = fst (store_or_get_action (afk env) (matrix env) False True k (layers_of (util (snd (process_record_quantum env r s)))))"
      "action_kind_id a \<in> {ACT_LMODS, ACT_RMODS}" "IS_BASIC_KEYCODE (ucast (key_code a))"
    and s': "s' = fold (\<lambda>r s. snd (process_record env r s)) (r # rs @ [r']) s"
  shows "key_code a \<notin> down s' \<and> last (seen m s') = down s'"
proof -
  obtain s1 where q: "process_record_quantum env r s = (True, s1)"
    using hooks(2) by (metis prod.collapse)
  let ?l = "layer_switch_get_layer (afk env) k (layers_of (util s1))"
  define s2 where "s2 = fold (\<lambda>r s. snd (process_record env r s)) rs (snd (process_record env r s))"
  have k2: "host_knows m s2"
    using action_run.process_records_inv [OF silent_hooks_run [OF hooks(1), of m], of "r # rs" s] s(1) by (simp add: s2_def)
  have rem: "remembers (matrix env) encoders k ?l s2"
    unfolding s2_def by (rule action_run.process_records_inv [OF remembers_run [OF hooks(1) k] others press_remembers [OF hooks(1) k s(2,3) press q]])
  obtain s3 where q3: "process_record_quantum env r' s2 = (True, s3)"
    using hooks(2) by (metis prod.collapse)
  have sil: "silent s2 s3"
    by (rule silent_hook [OF hooks(1) q3])
  have k3: "host_knows m s3" and rem3: "remembers (matrix env) encoders k ?l s3"
    using k2 rem silent_same [OF sil] by simp_all
  have s1: "layers_ok (matrix env) encoders (layers_of (util s1))"
    using silent_hook [OF hooks(1) q] s(2) by (simp add: silent_def caches_def layers_ok_def)
  have act: "afk env (unat ?l) k = a"
    using press_stored(3) [OF s1 k] a(1) q by (metis prod.collapse snd_conv)
  define s4 where "s4 = execute_action env r' a s3"
  have s'4: "s' = post_process_record_quantum env r' s4"
    using release_executes [OF rem3 release q3] act by (simp add: s' s4_def flip: s2_def)
  have "host_knows m s4"
    unfolding s4_def using k3 by (rule known.execute_action_inv)
  moreover have "key_code a \<notin> down s4"
    using release_key_up [OF k3 release(2) a(2,3)] by (simp add: s4_def)
  moreover have "silent s4 s'"
    using hooks(1) by (simp add: s'4 silent_hooks_def)
  ultimately show ?thesis
    using silent_same(2,3) [of s4 s'] knows_last_seen [of m s'] by simp
qed

definition demo_keys :: "nat \<Rightarrow> keypos_t \<Rightarrow> u16" where
  "demo_keys l k = (if col k = 2 then 4 else 0xA1F1)"

definition key_record :: "nat \<Rightarrow> bool \<Rightarrow> keyrecord_t" where
  "key_record c p = new_record \<lparr>key = \<lparr>col = c, row = 1\<rparr>, time = 1, ev_type = KEY_EVENT, pressed = p\<rparr>"

theorem released_key_is_up_witness:
  "4 \<notin> down (fold (\<lambda>r s. snd (process_record (default_env demo_keys) r s)) (key_record 2 True # [key_record 3 True] @ [key_record 2 False])
     (actions_boot False))"
proof -
  let ?e = "default_env demo_keys" and ?k = "\<lparr>col = 2, row = 1\<rparr> :: keypos_t"
  have hooks: "silent_hooks ?e" "\<forall>r s. fst (process_record_quantum ?e r s)"
    by (simp_all add: silent_hooks_def default_env_def silent_refl)
  have s: "layers_ok (matrix ?e) 1 (layers_of (util (actions_boot False)))" "\<not> disable_action_cache (actions_boot False)"
    using fresh_layers_ok by (simp_all add: default_env_def actions_boot_def)
  have k: "has_entry (matrix ?e) 1 ?k" "\<forall>r\<in>set [key_record 3 True]. spares_key (matrix ?e) 1 ?k r"
    by (simp_all add: has_entry_def spares_key_def same_entry_def default_env_def q3_matrix_def key_record_def new_record_def)
  have r: "IS_EVENT (event (key_record 2 True))" "pressed (event (key_record 2 True))" "key (event (key_record 2 True)) = ?k"
    "IS_EVENT (event (key_record 2 False))" "\<not> pressed (event (key_record 2 False))" "key (event (key_record 2 False)) = ?k"
    by (simp_all add: key_record_def new_record_def IS_EVENT_def)
  have a: "4 = fst (store_or_get_action (afk ?e) (matrix ?e) False True ?k (layers_of (util (snd (process_record_quantum ?e (key_record 2 True) (actions_boot False))))))"
    by (simp add: store_or_get_action_def Let_def default_env_def demo_keys_def)
  have c: "action_kind_id 4 \<in> {ACT_LMODS, ACT_RMODS}" "IS_BASIC_KEYCODE (ucast (key_code 4))" "key_code 4 = 4"
    by (simp_all add: action_kind_id_def ACT_LMODS_def ACT_RMODS_def IS_BASIC_KEYCODE_def key_code_def)
  from released_key_is_up [OF hooks boot_knows s k(1) r k(2) a c(1,2) refl] c(3) show ?thesis
    by simp
qed

section \<open>Keys with a modifier on hold\<close>

definition plain_hooks :: "act_env \<Rightarrow> bool" where
  "plain_hooks env \<longleftrightarrow> (\<forall>r s. pre_process_record_quantum env r s = (True, s) \<and> process_record_quantum env r s = (True, s) \<and>
     post_process_record_quantum env r s = s)"

lemma plain_silent: "plain_hooks env \<Longrightarrow> silent_hooks env"
  by (simp add: plain_hooks_def silent_hooks_def silent_refl)

lemma process_action_plain: "\<not> is_oneshot_layer_active (util s) \<Longrightarrow> process_action env r a s = (r, execute_action env r a s)"
  by (simp add: process_action_steps releases_early_def oneshot_before_def ends_oneshot_layer_def)

lemma press_executes:
  assumes "plain_hooks env" and "\<not> is_oneshot_layer_active (util s)" and "\<not> disable_action_cache s" and "IS_EVENT (event r)" and "pressed (event r)"
  shows "process_record env r s =
    (r, execute_action env r (layer_switch_get_action (afk env) (key (event r)) (layers_of (util s))) (remember_layer env r s))"
proof -
  have q: "process_record_quantum env r s = (True, s)" and post: "post_process_record_quantum env r' s' = s'" for r' s'
    using assms(1) by (simp_all add: plain_hooks_def)
  have "\<not> is_oneshot_layer_active (util (remember_layer env r s))"
    using assms(2) by (simp add: remember_layer_def on_layers_def on_util_def is_oneshot_layer_active_def get_oneshot_layer_state_def)
  then have "process_record_handler env r s =
      (r, execute_action env r (layer_switch_get_action (afk env) (key (event r)) (layers_of (util s))) (remember_layer env r s))"
    using assms(3,5) by (simp add: process_record_handler.simps remember_layer_def store_or_get_action_def layer_switch_get_action_def Let_def process_action_plain)
  from process_record_go [OF assms(4) q this] post show ?thesis
    by simp
qed

text \<open>The world after the part of \<^verbatim>\<open>action_exec\<close> before tapping.\<close>

lemma action_exec_plain:
  assumes "plain_hooks env" and "ONESHOT_TIMEOUT env = 0"
  shows "action_exec env e t = action_tapping_process (tap_env_of env) (new_record e)
    (t\<lparr>world := (if pressed e then on_util clear_weak_mods (world t) else world t)\<rparr>)"
  using assms by (simp add: action_exec_def plain_hooks_def oneshot_timeouts_def Let_def)

lemma action_code_key: "action_code a = unat (key_code a)"
  by (simp add: action_code_def key_code_def unsigned_ucast_eq unsigned_take_bit_eq)

lemma unat_widen: "unat (ucast (c :: u8) :: u16) = unat c"
proof -
  have "take_bit 16 (unat c) = unat c"
    using unat_less_256 [of c] by (intro take_bit_nat_eq_self) (simp del: unat_less_256)
  then show ?thesis
    by (simp add: unsigned_ucast_eq)
qed

lemma basic_tap_code:
  assumes "IS_BASIC_KEYCODE (ucast (key_code a))"
  shows "action_code a \<noteq> MODS_ONESHOT" "action_code a \<noteq> MODS_TAP_TOGGLE" "action_code a \<le> KC_RIGHT_GUI"
proof -
  have "4 \<le> unat (key_code a)" "unat (key_code a) \<le> 0xA4"
    using assms by (simp_all add: IS_BASIC_KEYCODE_def word_le_nat_alt unat_widen)
  then show "action_code a \<noteq> MODS_ONESHOT" "action_code a \<noteq> MODS_TAP_TOGGLE" "action_code a \<le> KC_RIGHT_GUI"
    by (simp_all add: action_code_key MODS_ONESHOT_def MODS_TAP_TOGGLE_def KC_RIGHT_GUI_def)
qed

lemma mod_tap_action:
  assumes "action_kind_id a \<in> {ACT_LMODS_TAP, ACT_RMODS_TAP}" and "IS_BASIC_KEYCODE (ucast (key_code a))"
  shows "pressed (event r) \<Longrightarrow> 0 < tap_count (tap r) \<Longrightarrow> execute_action env r a s = register_code env (key_code a) s"
    "pressed (event r) \<Longrightarrow> tap_count (tap r) = 0 \<Longrightarrow> execute_action env r a s = register_mods env (hand_mods ACT_LMODS_TAP a) s"
    "\<not> pressed (event r) \<Longrightarrow> 0 < tap_count (tap r) \<Longrightarrow> execute_action env r a s = unregister_code env (key_code a) (tap_delay (key_code a) s)"
    "is_tap_action a"
  using assms basic_tap_code [OF assms(2)]
  by (auto simp: execute_action_def mods_tap_def Let_def is_tap_action_def action_constants action_code_defs)

lemma register_fields:
  assumes "IS_BASIC_KEYCODE (ucast c)"
  shows "real_mods (util (register_code env c s)) = real_mods (util s)" "real_mods (util (unregister_code env c s)) = real_mods (util s)"
  using assms by (simp_all add: register_code_def unregister_code_def Let_def send_report_fields on_util_def add_key_def del_key_def)

lemma remember_layer_fields [simp]:
  "down (remember_layer env r s) = down s" "seen m (remember_layer env r s) = seen m s" "real_mods (util (remember_layer env r s)) = real_mods (util s)"
  by (simp_all add: remember_layer_def on_layers_def on_util_def down_def seen_def)

lemma tap_delay_fields [simp]:
  "down (tap_delay c s) = down s" "seen m (tap_delay c s) = seen m s" "util (tap_delay c s) = util s"
  by (simp_all add: tap_delay_def call_def down_def seen_def)

text \<open>A tap of such a key, in process: the host sees the key go down and up, and no modifier.\<close>

lemma tapped_records:
  assumes hooks: "plain_hooks env" and s: "host_knows m s" "layers_ok (matrix env) encoders (layers_of (util s))" "\<not> disable_action_cache s"
      "\<not> is_oneshot_layer_active (util s)" and k: "has_entry (matrix env) encoders k"
    and r: "IS_EVENT (event r)" "pressed (event r)" "key (event r) = k" "tap_count (tap r) = 1"
    and r': "IS_EVENT (event r')" "\<not> pressed (event r')" "key (event r') = k" "tap_count (tap r') = 1"
    and a: "a = layer_switch_get_action (afk env) k (layers_of (util s))" "action_kind_id a \<in> {ACT_LMODS_TAP, ACT_RMODS_TAP}"
      "IS_BASIC_KEYCODE (ucast (key_code a))" "key_code a \<notin> down s" "report_fits m (insert (key_code a) (down s))"
    and p: "process_record env r s = (r1, s1)" "process_record env r' s1 = (r2, s2)"
  shows "r1 = r" "r2 = r'" "seen m s2 = seen m s @ [insert (key_code a) (down s), down s]" "real_mods (util s2) = real_mods (util s)"
proof -
  let ?c = "key_code a" and ?l = "layer_switch_get_layer (afk env) k (layers_of (util s))"
  have q: "process_record_quantum env r s = (True, s)" for r s
    using hooks by (simp add: plain_hooks_def)
  have s1: "r1 = r" "s1 = register_code env ?c (remember_layer env r s)"
    using press_executes [OF hooks s(4,3) r(1,2)] r(2-4) p(1) mod_tap_action(1) [OF a(2,3), of r] by (simp_all flip: a(1))
  show "r1 = r"
    by (rule s1)
  have "host_knows m (remember_layer env r s)"
    using s(1) by (simp add: remember_knows)
  note d = register_basic [OF this a(3), of env, folded s1(2), simplified, OF a(5)]
  have "remembers (matrix env) encoders k ?l s1"
    using press_remembers [OF plain_silent [OF hooks] k s(2,3) r(1-3) q] p(1) by simp
  moreover have "afk env (unat ?l) k = a"
    by (simp add: a(1) layer_switch_get_action_def)
  ultimately have s2: "r2 = r'" "s2 = unregister_code env ?c (tap_delay ?c s1)"
    using release_executes [OF _ r'(1-3) q, of encoders ?l s1] p(2) mod_tap_action(3) [OF a(2,3) r'(2)] r'(4) hooks by (simp_all add: plain_hooks_def)
  show "r2 = r'"
    by (rule s2)
  have "host_knows m (tap_delay ?c s1)"
    using d(1) by (rule known.tap_delay_inv)
  from unregister_basic(3) [OF this a(3), of env, folded s2(2)] show "seen m s2 = seen m s @ [insert ?c (down s), down s]"
    using d(2,3) a(4) by simp
  show "real_mods (util s2) = real_mods (util s)"
    using register_fields [OF a(3)] by (simp add: s2 s1)
qed

lemma weak_mods_fields:
  "down (on_util clear_weak_mods w) = down w" "seen m (on_util clear_weak_mods w) = seen m w" "layers_of (util (on_util clear_weak_mods w)) = layers_of (util w)"
  "real_mods (util (on_util clear_weak_mods w)) = real_mods (util w)" "disable_action_cache (on_util clear_weak_mods w) = disable_action_cache w"
  "is_oneshot_layer_active (util (on_util clear_weak_mods w)) = is_oneshot_layer_active (util w)"
  by (simp_all add: down_def seen_def on_util_def clear_weak_mods_def is_oneshot_layer_active_def get_oneshot_layer_state_def)

lemma tap_env_fields [simp]:
  "env_process_record (tap_env_of env) = process_record env" "env_tapping_term (tap_env_of env) r w = TAPPING_TERM env"
  "env_layer_switch_get_action (tap_env_of env) k w = layer_switch_get_action (afk env) k (layers_of (util w))"
  by (simp_all add: tap_env_of_def)

lemma register_mods_fields:
  "down (register_mods env mods s) = down s" "real_mods (util (register_mods env mods s)) = real_mods (util s) OR mods"
  by (simp_all add: register_mods_def down_ops mods_frame send_report_fields) (simp_all add: on_util_def add_mods_def)

lemma tap_key_pressed:
  assumes env: "plain_hooks env" "ONESHOT_TIMEOUT env = 0" and idle: "queue_empty t" "IS_NOEVENT (event (tapping_key t))"
    and press: "IS_EVENT e" "pressed e" "is_tap_action (layer_switch_get_action (afk env) (key e) (layers_of (util (world t))))"
  shows "action_exec env e t = t\<lparr>world := on_util clear_weak_mods (world t), tapping_key := new_record e\<rparr>"
  using tap_press_starts [of "t\<lparr>world := on_util clear_weak_mods (world t)\<rparr>" "new_record e" "tap_env_of env"] idle press
  by (simp add: action_exec_plain [OF env] queue_empty_def wb_inv_def is_tap_record_def new_record_def IS_EVENT_def IS_NOEVENT_def weak_mods_fields)

text \<open>The key is down and not decided.\<close>

definition undecided :: "keyevent_t \<Rightarrow> 'w tapping \<Rightarrow> bool" where
  "undecided e t \<longleftrightarrow> queue_empty t \<and> tapping_key t = new_record e \<and> IS_EVENT e \<and> pressed e"

lemma undecided_facts:
  "undecided e t \<Longrightarrow> queue_empty t" "undecided e t \<Longrightarrow> IS_EVENT (event (tapping_key t))" "undecided e t \<Longrightarrow> pressed (event (tapping_key t))"
  "undecided e t \<Longrightarrow> tap_count (tap (tapping_key t)) = 0" "undecided e t \<Longrightarrow> event (tapping_key t) = e"
  by (simp_all add: undecided_def new_record_def)

lemma mod_tap_released:
  assumes env: "plain_hooks env" "ONESHOT_TIMEOUT env = 0" and t: "undecided e t"
    and w: "host_knows m (world t)" "layers_ok (matrix env) encoders (layers_of (util (world t)))" "\<not> disable_action_cache (world t)"
      "\<not> is_oneshot_layer_active (util (world t))" "has_entry (matrix env) encoders (key e)"
    and a: "a = layer_switch_get_action (afk env) (key e) (layers_of (util (world t)))" "action_kind_id a \<in> {ACT_LMODS_TAP, ACT_RMODS_TAP}"
      "IS_BASIC_KEYCODE (ucast (key_code a))" "key_code a \<notin> down (world t)" "report_fits m (insert (key_code a) (down (world t)))"
    and e': "IS_EVENT e'" "\<not> pressed e'" "key e' = key e" "time e' - time e < TAPPING_TERM env"
  shows "seen m (world (action_exec env e' t)) = seen m (world t) @ [insert (key_code a) (down (world t)), down (world t)]"
    "real_mods (util (world (action_exec env e' t))) = real_mods (util (world t))"
proof -
  let ?r = "(tapping_key t)\<lparr>tap := (tap (tapping_key t))\<lparr>tap_count := 1\<rparr>\<rparr>" and ?w = "world t"
  let ?r' = "(new_record e')\<lparr>tap := tap ?r\<rparr>"
  note u = undecided_facts [OF t]
  obtain r1 s1 where p1: "process_record env ?r ?w = (r1, s1)"
    by fastforce
  obtain r2 s2 where p2: "process_record env ?r' s1 = (r2, s2)"
    by fastforce
  have r: "IS_EVENT (event ?r)" "pressed (event ?r)" "key (event ?r) = key e" "tap_count (tap ?r) = 1"
    "IS_EVENT (event ?r')" "\<not> pressed (event ?r')" "key (event ?r') = key e" "tap_count (tap ?r') = 1"
    using u e' by (simp_all add: new_record_def)
  note x = tapped_records [OF env(1) w r a p1 p2]
  have "t\<lparr>world := ?w\<rparr> = t"
    by simp
  then have "world (action_exec env e' t) = s2"
    using tap_release [OF u(1-4), of "new_record e'" "tap_env_of env" "TAPPING_TERM env", OF _ _ _ _ _ refl] p1 p2 x(1,2) u e'
    by (simp add: action_exec_plain [OF env] new_record_def IS_TAPPING_RECORD_def KEYEQ_def)
  with x(3,4) show "seen m (world (action_exec env e' t)) = seen m (world t) @ [insert (key_code a) (down (world t)), down (world t)]"
    "real_mods (util (world (action_exec env e' t))) = real_mods (util (world t))"
    by simp_all
qed

lemma mod_tap_held:
  assumes env: "plain_hooks env" "ONESHOT_TIMEOUT env = 0" and t: "undecided e t"
    and w: "\<not> disable_action_cache (world t)" "\<not> is_oneshot_layer_active (util (world t))"
    and a: "a = layer_switch_get_action (afk env) (key e) (layers_of (util (world t)))" "action_kind_id a \<in> {ACT_LMODS_TAP, ACT_RMODS_TAP}"
      "IS_BASIC_KEYCODE (ucast (key_code a))" and now: "TAPPING_TERM env \<le> now - time e"
  shows "down (world (action_exec env (tick now) t)) = down (world t)"
    "real_mods (util (world (action_exec env (tick now) t))) = real_mods (util (world t)) OR hand_mods ACT_LMODS_TAP a"
proof -
  note u = undecided_facts [OF t]
  have "t\<lparr>world := world t\<rparr> = t"
    by simp
  then have "action_exec env (tick now) t = (process_tapping_key (tap_env_of env) t)\<lparr>tapping_key := no_record\<rparr>"
    using tick_after_term [OF u(1-3) _ u(4), of "new_record (tick now)" "tap_env_of env"] now u(5)
    by (simp add: action_exec_plain [OF env] new_record_def tick_def IS_NOEVENT_def WITHIN_TAPPING_TERM_def TIMER_DIFF_16_def not_less)
  then have "world (action_exec env (tick now) t) = snd (process_record env (new_record e) (world t))"
    using t by (simp add: process_tapping_key_def process_key_def case_prod_unfold Let_def undecided_def)
  also have "\<dots> = register_mods env (hand_mods ACT_LMODS_TAP a) (remember_layer env (new_record e) (world t))"
    using press_executes [OF env(1) w(2,1), of "new_record e"] t a(1) mod_tap_action(2) [OF a(2,3), of "new_record e"]
    by (simp add: new_record_def undecided_def)
  finally show "down (world (action_exec env (tick now) t)) = down (world t)"
    "real_mods (util (world (action_exec env (tick now) t))) = real_mods (util (world t)) OR hand_mods ACT_LMODS_TAP a"
    by (simp_all add: register_mods_fields)
qed


definition mt_keys :: "nat \<Rightarrow> keypos_t \<Rightarrow> u16" where
  "mt_keys l k = 0x2104"

definition key_at :: "u16 \<Rightarrow> bool \<Rightarrow> keyevent_t" where
  "key_at now p = \<lparr>key = \<lparr>col = 2, row = 1\<rparr>, time = now, ev_type = KEY_EVENT, pressed = p\<rparr>"


section \<open>A key on a one-shot layer\<close>

lemma send_report_oneshot: "oneshot_layer_data (util (send_report env s)) = oneshot_layer_data (util s)"
proof -
  obtain mods u1 where g: "get_mods_for_report (ONESHOT_TIMEOUT env) (clock s) (util s) = (mods, u1)"
    by fastforce
  then have "oneshot_layer_data u1 = oneshot_layer_data (util s)"
    by (auto simp: get_mods_for_report_def clear_oneshot_mods_def Let_def split: if_splits)
  then show ?thesis
    by (simp add: send_report_def send_keyboard_report_def send_nkro_report_def send_6kro_report_def g Let_def host_nkro_send_def host_keyboard_send_def)
qed

lemma code_layers:
  assumes "IS_BASIC_KEYCODE (ucast c)"
  shows "layers_of (util (register_code env c s)) = layers_of (util s)" "layers_of (util (unregister_code env c s)) = layers_of (util s)"
    "oneshot_layer_data (util (register_code env c s)) = oneshot_layer_data (util s)"
    "oneshot_layer_data (util (unregister_code env c s)) = oneshot_layer_data (util s)"
  using assms basic_not_no [OF assms]
  by (simp_all add: register_code_def unregister_code_def Let_def send_report_layers send_report_oneshot) (simp_all add: on_util_def add_key_def del_key_def send_report_layers send_report_oneshot)

lemma key_action:
  assumes "action_kind_id a \<in> {ACT_LMODS, ACT_RMODS}" and "hand_mods ACT_LMODS a = 0"
  shows "execute_action env r a s = (if pressed (event r) then register_code env (key_code a) s else unregister_code env (key_code a) s)"
  using assms by (auto simp: execute_action_def mods_and_key_def Let_def action_constants action_code_defs)

lemma basic_no_modifier: "IS_BASIC_KEYCODE c \<Longrightarrow> \<not> IS_MOD_KEYCODE c"
  using below(1) [of c "0xA4" "0xE0"] by (auto simp: IS_BASIC_KEYCODE_def IS_MOD_KEYCODE_def kc_defs)

text \<open>The press ends the layer, and the key is pressed.\<close>

lemma oneshot_key_pressed:
  assumes s: "cfg_oneshot_enable (util s)" "get_oneshot_layer_state (util s) = ONESHOT_OTHER_KEY_PRESSED" "get_oneshot_layer (util s) = l"
    and r: "pressed (event r)" and a: "action_kind_id a \<in> {ACT_LMODS, ACT_RMODS}" "hand_mods ACT_LMODS a = 0" "IS_BASIC_KEYCODE (ucast (key_code a))"
    and s1: "s1 = on_util (clear_oneshot_layer_state (ONESHOT_TIMEOUT env) ONESHOT_OTHER_KEY_PRESSED) s" and s2: "s2 = register_code env (key_code a) s1"
  shows "releases_early env r a s" "execute_action env r a (oneshot_before env r a s) = s2" "oneshot_layer_data (util s2) = 0"
    "layers_of (util s2) = layer_off l (layers_of (util s))"
proof -
  have ends: "ends_oneshot_layer r a s"
    using s r a basic_no_modifier [OF a(3)] by (auto simp: ends_oneshot_layer_def is_oneshot_layer_active_def oneshot_constants action_constants action_code_defs)
  have c: "oneshot_layer_data (util s1) = 0" "layers_of (util s1) = layer_off l (layers_of (util s))"
    using clear_oneshot_layer_ends [of ONESHOT_OTHER_KEY_PRESSED "util s" "ONESHOT_TIMEOUT env"] s
    by (simp_all add: s1 on_util_def oneshot_constants)
  then show d: "oneshot_layer_data (util s2) = 0" "layers_of (util s2) = layer_off l (layers_of (util s))"
    by (simp_all add: s2 code_layers [OF a(3)])
  have b: "oneshot_before env r a s = s1"
    using ends by (simp add: oneshot_before_def s1)
  then show e: "execute_action env r a (oneshot_before env r a s) = s2"
    using r by (simp add: key_action [OF a(1,2)] s2)
  show "releases_early env r a s"
    unfolding releases_early_def e using ends b c(1) d(1) by (simp add: is_oneshot_layer_active_def get_oneshot_layer_state_def)
qed

lemma remember_layer_state: "layer_state (layers_of (util (remember_layer env r s))) = layer_state (layers_of (util s))"
  by (simp add: remember_layer_def on_layers_def on_util_def store_or_get_action_def update_source_layers_cache_def Let_def)

lemma remember_oneshot:
  "cfg_oneshot_enable (util (remember_layer env r s)) = cfg_oneshot_enable (util s)"
  "get_oneshot_layer_state (util (remember_layer env r s)) = get_oneshot_layer_state (util s)"
  "get_oneshot_layer (util (remember_layer env r s)) = get_oneshot_layer (util s)"
  by (simp_all add: remember_layer_def on_layers_def on_util_def get_oneshot_layer_state_def get_oneshot_layer_def)

lemma oneshot_key_processed:
  assumes hooks: "plain_hooks env" and s: "layers_ok (matrix env) encoders (layers_of (util s))" "\<not> disable_action_cache s"
    and one: "cfg_oneshot_enable (util s)" "get_oneshot_layer_state (util s) = ONESHOT_OTHER_KEY_PRESSED"
    and r: "IS_EVENT (event r)" "pressed (event r)" "has_entry (matrix env) encoders (key (event r))"
    and a: "a = layer_switch_get_action (afk env) (key (event r)) (layers_of (util s))" "action_kind_id a \<in> {ACT_LMODS, ACT_RMODS}"
      "hand_mods ACT_LMODS a = 0" "IS_BASIC_KEYCODE (ucast (key_code a))"
    and s1: "s1 = on_util (clear_oneshot_layer_state (ONESHOT_TIMEOUT env) ONESHOT_OTHER_KEY_PRESSED) (remember_layer env r s)"
    and s2: "s2 = register_code env (key_code a) s1"
  shows "process_record env r s = (release_record r, on_layers (layer_off 0) (unregister_code env (key_code a) (on_layers (layer_on 0) s2)))"
proof -
  let ?k = "key (event r)" and ?s0 = "remember_layer env r s" and ?s3 = "on_layers (layer_on 0) s2"
  let ?l = "layer_switch_get_layer (afk env) ?k (layers_of (util s))"
  have q: "process_record_quantum env r s = (True, s)" and post: "post_process_record_quantum env r s = s" for r s
    using hooks by (simp_all add: plain_hooks_def)
  obtain x l where st: "store_or_get_action (afk env) (matrix env) False True ?k (layers_of (util s)) = (x, l)"
    by fastforce
  note st' = press_stored [OF s(1) r(3) st]
  have x: "x = a" and afk: "afk env (unat ?l) ?k = a"
    using st'(3) a(1) by (simp_all add: layer_switch_get_action_def)
  have s0: "?s0 = on_layers (\<lambda>_. l) s"
    using st s(2) r(2) by (simp add: remember_layer_def)
  have "remembers (matrix env) encoders ?k ?l ?s0"
    using st'(1,2) s(2) by (simp add: s0 remembers_def on_layers_def on_util_def)
  then have rem: "remembers (matrix env) encoders ?k ?l ?s3"
    unfolding s2 s1 by (simp add: remembered.prim_inv remembered.register_code_inv)
  note o1 = oneshot_key_pressed [OF _ _ refl r(2) a(2-4) s1 s2, unfolded remember_oneshot, OF one]
  have rel: "IS_EVENT (event (release_record r))" "\<not> pressed (event (release_record r))" "key (event (release_record r)) = ?k"
    using r by (simp_all add: release_record_def IS_EVENT_def)
  have "process_record env (release_record r) ?s3 = (release_record r, unregister_code env (key_code a) ?s3)"
    using release_executes [OF rem rel q] post rel(2) by (simp add: afk key_action [OF a(2,3)])
  moreover have "get_oneshot_layer (util s2) = 0" "get_oneshot_layer (util (unregister_code env (key_code a) ?s3)) = 0"
    using o1(3) by (simp_all add: get_oneshot_layer_def code_layers [OF a(4)]) (simp add: on_layers_def on_util_def)
  ultimately have "process_action env r a ?s0 = (release_record r, on_layers (layer_off 0) (unregister_code env (key_code a) ?s3))"
    using o1(1,2) by (simp add: process_action_steps)
  then have "process_record_handler env r s = (release_record r, on_layers (layer_off 0) (unregister_code env (key_code a) ?s3))"
    using st s(2) r(2) x by (simp add: process_record_handler.simps s0)
  from process_record_go [OF r(1) q this] post show ?thesis
    by simp
qed

text \<open>C23: After the key of a one-shot layer has been tapped, the next key is looked up on that layer and is pressed and released at once: the host sees it go down and up, and the
  one-shot layer is off. (The code switches layer 0 on and off around the release, the one-shot layer being forgotten already, so layer 0 is off as well.)\<close>

theorem oneshot_layer_key:
  assumes hooks: "plain_hooks env" and s: "host_knows m s" "layers_ok (matrix env) encoders (layers_of (util s))" "\<not> disable_action_cache s"
    and one: "cfg_oneshot_enable (util s)" "get_oneshot_layer_state (util s) = ONESHOT_OTHER_KEY_PRESSED" "get_oneshot_layer (util s) = l" "unat l < MAX_LAYER"
    and r: "IS_EVENT (event r)" "pressed (event r)" "has_entry (matrix env) encoders (key (event r))"
    and a: "a = layer_switch_get_action (afk env) (key (event r)) (layers_of (util s))" "action_kind_id a \<in> {ACT_LMODS, ACT_RMODS}"
      "hand_mods ACT_LMODS a = 0" "IS_BASIC_KEYCODE (ucast (key_code a))" "key_code a \<notin> down s" "report_fits m (insert (key_code a) (down s))"
    and p: "process_record env r s = (r', s')"
  shows "seen m s' = seen m s @ [insert (key_code a) (down s), down s] \<and> \<not> is_oneshot_layer_active (util s') \<and>
    active_layers (layers_of (util s')) = active_layers (layers_of (util s)) - {unat l, 0} \<and> r' = release_record r"
proof -
  let ?c = "key_code a" and ?s0 = "remember_layer env r s"
  define s1 where "s1 = on_util (clear_oneshot_layer_state (ONESHOT_TIMEOUT env) ONESHOT_OTHER_KEY_PRESSED) ?s0"
  define s2 where "s2 = register_code env ?c s1"
  define s3 where "s3 = on_layers (layer_on 0) s2"
  have s': "r' = release_record r" "s' = on_layers (layer_off 0) (unregister_code env ?c s3)"
    using oneshot_key_processed [OF hooks s(2,3) one(1,2) r a(1-4) s1_def s2_def] p by (simp_all add: s3_def)
  note o1 = oneshot_key_pressed [OF _ _ refl r(2) a(2-4) s1_def s2_def, unfolded remember_oneshot, OF one(1,2), unfolded one(3)]
  have sil: "silent ?s0 s1" "silent s2 s3"
    by (simp_all add: s1_def s3_def silent_oneshot_layer silent_layers states_only_ops)
  have k1: "host_knows m s1" "down s1 = down s" "seen m s1 = seen m s"
    using silent_same(2,3) [OF sil(1)] s(1) by (simp_all add: remember_knows) (simp add: s1_def seen_util)
  have fits: "report_fits m (insert ?c (down s1))"
    using a(6) k1(2) by simp
  note k2 = register_basic [OF k1(1) a(4) fits, of env, folded s2_def]
  have k3: "host_knows m s3" "down s3 = down s2" "seen m s3 = seen m s2"
    using silent_same(2,3) [OF sil(2)] k2(1) by simp_all (simp add: s3_def on_layers_def seen_util)
  have "seen m s' = seen m s3 @ [down s3 - {?c}]"
    using unregister_basic(3) [OF k3(1) a(4), of env] k2(2) k3(2) by (simp add: s' on_layers_def seen_util)
  then have seen: "seen m s' = seen m s @ [insert ?c (down s), down s]"
    using k1 k2 k3 a(5) by simp
  have "oneshot_layer_data (util s') = oneshot_layer_data (util s2)"
    by (simp add: s' s3_def on_layers_def on_util_def) (simp add: code_layers [OF a(4)])
  then have off: "\<not> is_oneshot_layer_active (util s')"
    using o1(3) by (simp add: is_oneshot_layer_active_def get_oneshot_layer_state_def)
  have "layers_of (util s') = layer_off 0 (layer_on 0 (layer_off l (layers_of (util ?s0))))"
    using o1(4) by (simp add: s' on_layers_def on_util_def code_layers [OF a(4)]) (simp add: s3_def on_layers_def on_util_def)
  then have "active_layers (layers_of (util s')) = active_layers (layers_of (util s)) - {unat l, 0}"
    using one(4) remember_layer_state [of env r s] by (auto simp: active_layer_on active_layer_off MAX_LAYER_def active_layers_def [of "layers_of _"])
  with seen off s'(1) show ?thesis
    by blast
qed

definition layered_keys :: "nat \<Rightarrow> keypos_t \<Rightarrow> u16" where
  "layered_keys l k = (if l = 1 then 5 else 4)"

text \<open>The keyboard after the key of the one-shot layer 1 has been tapped.\<close>

definition oneshot_boot :: actions where
  "oneshot_boot = on_util (clear_oneshot_layer_state 0 ONESHOT_PRESSED) (on_util (set_oneshot_layer 0 0 1 ONESHOT_START) (actions_boot True))"

lemma oneshot_boot_state:
  "oneshot_layer_data (util oneshot_boot) = 10" "layer_state (layers_of (util oneshot_boot)) = 2" "cfg_oneshot_enable (util oneshot_boot)"
  "default_layer_state (layers_of (util oneshot_boot)) = 1"
  by (simp_all add: oneshot_boot_def on_util_def clear_oneshot_layer_state_def set_oneshot_layer_def actions_boot_def au_boot_def fresh_layers_def
      layer_op_defs layer_state_set_kb_def oneshot_constants get_oneshot_layer_state_def Let_def)

lemma layered_key_found: "layer_switch_loop layered_keys k (3 :: u8) 8 = 1"
  by code_simp

theorem oneshot_layer_key_witness:
  "seen True (snd (process_record (default_env layered_keys) (new_record (key_at 100 True)) oneshot_boot)) = [{}, {5}, {}]"
proof -
  let ?e = "default_env layered_keys" and ?r = "new_record (key_at 100 True)" and ?s = oneshot_boot
  obtain r' s' where p: "process_record ?e ?r ?s = (r', s')"
    by fastforce
  have sil: "silent (actions_boot True) ?s"
    unfolding oneshot_boot_def by (rule silent_trans [OF silent_oneshot_layer(1) silent_oneshot_layer(2)])
  have h: "host_knows True ?s" "down ?s = {}" "seen True ?s = [{}]"
    using silent_same(2,3) [OF sil] by (simp_all add: boot_knows boot_down) (simp add: oneshot_boot_def seen_util boot_seen)
  have e: "plain_hooks ?e"
    by (simp add: plain_hooks_def default_env_def)
  have l: "layers_ok (matrix ?e) 1 (layers_of (util ?s))" "\<not> disable_action_cache ?s"
    using sil fresh_layers_ok by (simp_all add: silent_def caches_def layers_ok_def actions_boot_def default_env_def)
  have one: "cfg_oneshot_enable (util ?s)" "get_oneshot_layer_state (util ?s) = ONESHOT_OTHER_KEY_PRESSED" "get_oneshot_layer (util ?s) = 1"
      "unat (1 :: u8) < MAX_LAYER"
    by (simp_all add: oneshot_boot_state get_oneshot_layer_state_def get_oneshot_layer_def oneshot_constants MAX_LAYER_def)
  have r: "IS_EVENT (event ?r)" "pressed (event ?r)" "has_entry (matrix ?e) 1 (key (event ?r))"
    by (simp_all add: new_record_def key_at_def IS_EVENT_def has_entry_def default_env_def q3_matrix_def)
  have a: "5 = layer_switch_get_action (afk ?e) (key (event ?r)) (layers_of (util ?s))" "action_kind_id 5 \<in> {ACT_LMODS, ACT_RMODS}"
      "hand_mods ACT_LMODS 5 = 0" "IS_BASIC_KEYCODE (ucast (key_code 5))" "key_code 5 \<notin> down ?s" "report_fits True (insert (key_code 5) (down ?s))"
    by (simp_all add: h(2) layer_switch_get_action_def layer_switch_get_layer_def oneshot_boot_state default_env_def MAX_LAYER_def layered_key_found
        layered_keys_def action_kind_id_def key_mods_def action_constants hand_mods_def IS_BASIC_KEYCODE_def key_code_def report_fits_def nkro_fits_def NKRO_REPORT_BITS_def)
  from oneshot_layer_key [OF e h(1) l one r a p] p show ?thesis
    by (simp add: h key_code_def)
qed

end
