(* ===== verification/Wear_Leveling_Efl.thy ===== *)
theory Wear_Leveling_Efl
  imports Eeprom
begin

text \<open>
  The backing store in the flash of the controller (\<^verbatim>\<open>platforms/chibios/drivers/wear_leveling/wear_leveling_efl.c\<close>), for builds that do not
  define \<^verbatim>\<open>WEAR_LEVELING_EFL_FIRST_SECTOR\<close>, as the Q3 Max: the driver takes the last sectors of the flash that together have the backing size. The flash functions of
  ChibiOS, which the driver calls, are the record \<open>efl_hal\<close>; \<open>flash_load\<close> is the load from the memory-mapped flash, with a flag for an error-correction
  fault during it. Offsets are natural numbers: a flash is far smaller than 4 GB. A value is the list of its bytes.
\<close>

section \<open>Model\<close>

datatype flash_error_t = FLASH_NO_ERROR | FLASH_BUSY_ERASING | FLASH_ERROR

record 'h efl_hal =
  sectors_count :: nat
  flashGetSectorOffset :: "nat \<Rightarrow> nat"
  flashGetSectorSize :: "nat \<Rightarrow> nat"
  eflStart :: "'h \<Rightarrow> bool \<times> 'h"
  eflStop :: "'h \<Rightarrow> 'h"
  flashStartEraseSector :: "nat \<Rightarrow> 'h \<Rightarrow> flash_error_t \<times> 'h"
  flashWaitErase :: "'h \<Rightarrow> flash_error_t \<times> 'h"
  flashProgram :: "nat \<Rightarrow> u8 list \<Rightarrow> 'h \<Rightarrow> flash_error_t \<times> 'h"
  flash_load :: "nat \<Rightarrow> nat \<Rightarrow> 'h \<Rightarrow> u8 list \<times> bool"

text \<open>The static variables, and the state of the flash.\<close>

record 'h efl =
  base_offset :: nat
  first_sector :: nat
  sector_count :: nat
  is_issuing_read :: bool
  ecc_error_occurred :: bool
  hal :: 'h

definition efl_reset :: "'h \<Rightarrow> 'h efl" where
  "efl_reset h = \<lparr>base_offset = 2 ^ 32 - 1, first_sector = 2 ^ 16 - 1, sector_count = 2 ^ 16 - 1, is_issuing_read = False,
     ecc_error_occurred = False, hal = h\<rparr>"

definition efl_backing_store_lock :: "'h efl_hal \<Rightarrow> 'h efl \<Rightarrow> bool \<times> 'h efl" where
  "efl_backing_store_lock H s = (True, s\<lparr>hal := eflStop H (hal s)\<rparr>)"

definition efl_backing_store_unlock :: "'h efl_hal \<Rightarrow> 'h efl \<Rightarrow> bool \<times> 'h efl" where
  "efl_backing_store_unlock H s = (let (ok, h) = eflStart H (hal s) in (ok, s\<lparr>hal := h\<rparr>))"

text \<open>The loop of \<^verbatim>\<open>backing_store_init\<close>: the first argument counts the sectors not yet visited, so that the sector of this iteration is its predecessor.\<close>

fun efl_search :: "nat \<Rightarrow> 'h efl_hal \<Rightarrow> nat \<Rightarrow> nat \<Rightarrow> nat \<Rightarrow> nat \<Rightarrow> 'h efl \<Rightarrow> 'h efl" where
  "efl_search 0 H flash_size backing_size last_sector counter s = s"
| "efl_search (Suc k) H flash_size backing_size last_sector counter s =
     (let s = s\<lparr>first_sector := k\<rparr>
      in if flash_size \<le> flashGetSectorOffset H k then efl_search k H flash_size backing_size k counter s
         else let counter = counter + flashGetSectorSize H k
              in if backing_size \<le> counter then s\<lparr>sector_count := last_sector - k, base_offset := flashGetSectorOffset H k\<rparr>
                 else efl_search k H flash_size backing_size last_sector counter s)"

definition efl_find :: "'h efl_hal \<Rightarrow> nat \<Rightarrow> nat \<Rightarrow> 'h efl \<Rightarrow> 'h efl" where
  "efl_find H flash_size backing_size s = efl_search (sectors_count H) H flash_size backing_size (sectors_count H) 0 s"

definition efl_backing_store_init :: "'h efl_hal \<Rightarrow> nat \<Rightarrow> nat \<Rightarrow> 'h efl \<Rightarrow> bool \<times> 'h efl" where
  "efl_backing_store_init H flash_size backing_size s = (let (_, s) = efl_backing_store_lock H s in (True, efl_find H flash_size backing_size s))"

definition flash_ok :: "flash_error_t \<Rightarrow> bool" where
  "flash_ok status \<longleftrightarrow> \<not> (status \<noteq> FLASH_NO_ERROR \<and> status \<noteq> FLASH_BUSY_ERASING)"

definition efl_erase_sector :: "'h efl_hal \<Rightarrow> nat \<Rightarrow> bool \<times> 'h efl \<Rightarrow> bool \<times> 'h efl" where
  "efl_erase_sector H i = (\<lambda>(ret, s).
     let (status, h) = flashStartEraseSector H (first_sector s + i) (hal s);
         ret = (if flash_ok status then ret else False);
         (status, h) = flashWaitErase H h;
         ret = (if flash_ok status then ret else False)
     in (ret, s\<lparr>hal := h\<rparr>))"

definition efl_backing_store_erase :: "'h efl_hal \<Rightarrow> 'h efl \<Rightarrow> bool \<times> 'h efl" where
  "efl_backing_store_erase H s = for_upto (sector_count s) (efl_erase_sector H) (True, s)"

definition efl_backing_store_write :: "'h efl_hal \<Rightarrow> nat \<Rightarrow> u8 list \<Rightarrow> 'h efl \<Rightarrow> bool \<times> 'h efl" where
  "efl_backing_store_write H address value s =
     (let (status, h) = flashProgram H (base_offset s + address) (map NOT value) (hal s) in (status = FLASH_NO_ERROR, s\<lparr>hal := h\<rparr>))"

definition backing_store_allow_ecc_errors :: "'h efl \<Rightarrow> bool" where
  "backing_store_allow_ecc_errors s = is_issuing_read s"

definition backing_store_signal_ecc_error :: "'h efl \<Rightarrow> 'h efl" where
  "backing_store_signal_ecc_error s = s\<lparr>ecc_error_occurred := True\<rparr>"

text \<open>A fault during the load is signalled by the interrupt handler when faults are allowed.\<close>

definition backing_store_safe_read_from_location :: "'h efl_hal \<Rightarrow> nat \<Rightarrow> nat \<Rightarrow> 'h efl \<Rightarrow> u8 list \<times> 'h efl" where
  "backing_store_safe_read_from_location H n offset s =
     (let s = s\<lparr>is_issuing_read := True, ecc_error_occurred := False\<rparr>;
          (bytes, fault) = flash_load H offset n (hal s);
          s = (if fault \<and> backing_store_allow_ecc_errors s then backing_store_signal_ecc_error s else s)
      in (map NOT bytes, s\<lparr>is_issuing_read := False\<rparr>))"

definition efl_backing_store_read :: "'h efl_hal \<Rightarrow> nat \<Rightarrow> nat \<Rightarrow> 'h efl \<Rightarrow> (bool \<times> u8 list) \<times> 'h efl" where
  "efl_backing_store_read H n address s =
     (let (tmp, s) = backing_store_safe_read_from_location H n (base_offset s + address) s
      in if ecc_error_occurred s then ((False, replicate n 0), s\<lparr>ecc_error_occurred := False\<rparr>) else ((True, tmp), s))"

text \<open>The driver as the wear-leveling code sees it. Reading leaves both flags cleared, as it finds them.\<close>

definition efl_driver :: "'h efl_hal \<Rightarrow> nat \<Rightarrow> wl_config \<Rightarrow> 'h efl backing_store" where
  "efl_driver H flash_size cfg =
     \<lparr>backing_store_init = efl_backing_store_init H flash_size (bsize cfg),
      backing_store_unlock = efl_backing_store_unlock H,
      backing_store_erase = efl_backing_store_erase H,
      backing_store_write = efl_backing_store_write H,
      backing_store_lock = efl_backing_store_lock H,
      backing_store_read = (\<lambda>a s. fst (efl_backing_store_read H (wsize cfg) a s))\<rparr>"

lemma efl_read_keeps_state:
  assumes "\<not> is_issuing_read s" and "\<not> ecc_error_occurred s"
  shows "snd (efl_backing_store_read H n a s) = s"
  using assms by (cases s) (simp add: efl_backing_store_read_def backing_store_safe_read_from_location_def backing_store_signal_ecc_error_def
      Let_def case_prod_unfold)

lemma memcpy_at_extend:
  assumes "a + length xs + length ys \<le> length m" and "b = a + length xs"
  shows "memcpy_at b ys (memcpy_at a xs m) = memcpy_at a (xs @ ys) m"
  using memcpy_at_append [of a xs ys m] assms by simp

text \<open>A state in which the driver has been initialised, what the wear-leveling code sees of the flash, and whether it may write.\<close>

definition efl_valid :: "'h efl_hal \<Rightarrow> nat \<Rightarrow> wl_config \<Rightarrow> ('h \<Rightarrow> bool) \<Rightarrow> 'h efl \<Rightarrow> bool" where
  "efl_valid H flash_size cfg good s \<longleftrightarrow> good (hal s) \<and> efl_find H flash_size (bsize cfg) s = s \<and> \<not> is_issuing_read s \<and> \<not> ecc_error_occurred s"

definition efl_cells :: "wl_config \<Rightarrow> ('h \<Rightarrow> u8 list) \<Rightarrow> 'h efl \<Rightarrow> u8 list" where
  "efl_cells cfg mem s = map NOT (subarr (base_offset s) (bsize cfg) (mem (hal s)))"

definition efl_opened :: "('h \<Rightarrow> bool) \<Rightarrow> 'h efl \<Rightarrow> bool" where
  "efl_opened started s = started (hal s)"

section \<open>Finding the sectors\<close>

text \<open>The flash functions as their documentation describes them: sectors lie one after the other, erasing sets the bytes of a sector to ones,
  programming erased bytes stores the value, both while the driver is started. \<open>usable\<close> sectors are inside the flash, and they are large enough for the store.\<close>

locale efl_flash =
  fixes H :: "'h efl_hal" and flash_size :: nat and cfg :: wl_config and usable :: nat
    and good :: "'h \<Rightarrow> bool" and mem :: "'h \<Rightarrow> u8 list" and started :: "'h \<Rightarrow> bool"
  assumes config: "wl_config_ok cfg"
    and usable: "0 < usable" "usable \<le> sectors_count H"
    and inside: "i < usable \<Longrightarrow> flashGetSectorOffset H i < flash_size"
    and outside: "usable \<le> i \<Longrightarrow> i < sectors_count H \<Longrightarrow> flash_size \<le> flashGetSectorOffset H i"
    and consecutive: "Suc i < usable \<Longrightarrow> flashGetSectorOffset H (Suc i) = flashGetSectorOffset H i + flashGetSectorSize H i"
    and aligned: "i < usable \<Longrightarrow> 8 dvd flashGetSectorOffset H i"
    and flash_end: "flashGetSectorOffset H (usable - 1) + flashGetSectorSize H (usable - 1) \<le> flash_size"
    and room: "flashGetSectorOffset H 0 + bsize cfg \<le> flashGetSectorOffset H (usable - 1) + flashGetSectorSize H (usable - 1)"
    and length_mem: "good h \<Longrightarrow> length (mem h) = flash_size"
    and start_law: "good h \<Longrightarrow> eflStart H h = (ok, h') \<Longrightarrow> ok \<and> good h' \<and> mem h' = mem h \<and> started h'"
    and stop_law: "good h \<Longrightarrow> good (eflStop H h) \<and> mem (eflStop H h) = mem h \<and> \<not> started (eflStop H h)"
    and erase_law: "good h \<Longrightarrow> started h \<Longrightarrow> i < usable \<Longrightarrow> flashStartEraseSector H i h = (e1, h1) \<Longrightarrow> flashWaitErase H h1 = (e2, h2) \<Longrightarrow>
      flash_ok e1 \<and> flash_ok e2 \<and> good h2 \<and> started h2 \<and>
      mem h2 = memcpy_at (flashGetSectorOffset H i) (replicate (flashGetSectorSize H i) 0xFF) (mem h)"
    and program_law: "good h \<Longrightarrow> started h \<Longrightarrow> length v dvd offset \<Longrightarrow> offset + length v \<le> flash_size \<Longrightarrow>
      subarr offset (length v) (mem h) = replicate (length v) 0xFF \<Longrightarrow> flashProgram H offset v h = (e, h') \<Longrightarrow>
      e = FLASH_NO_ERROR \<and> good h' \<and> started h' \<and> mem h' = memcpy_at offset v (mem h)"
    and load_law: "good h \<Longrightarrow> offset + n \<le> flash_size \<Longrightarrow> flash_load H offset n h = (subarr offset n (mem h), False)"
begin

text \<open>The end of sector \<open>i - 1\<close>, which is the start of sector \<open>i\<close>.\<close>

definition bound :: "nat \<Rightarrow> nat" where
  "bound i = (if i = 0 then flashGetSectorOffset H 0 else flashGetSectorOffset H (i - 1) + flashGetSectorSize H (i - 1))"

lemma bound_offset: "i < usable \<Longrightarrow> flashGetSectorOffset H i = bound i"
  using consecutive [of "i - 1"] by (cases i) (simp_all add: bound_def)

lemma bound_Suc: "i < usable \<Longrightarrow> bound (Suc i) = bound i + flashGetSectorSize H i"
  using bound_offset [of i] by (simp add: bound_def)

lemma bound_mono: "i \<le> j \<Longrightarrow> j \<le> usable \<Longrightarrow> bound i \<le> bound j"
proof (induction j)
  case (Suc j)
  then show ?case
    using bound_Suc [of j] by (cases "i = Suc j") auto
qed simp

lemma bound_end: "bound usable \<le> flash_size" "bound 0 + bsize cfg \<le> bound usable"
  using flash_end room usable(1) by (simp_all add: bound_def)

lemma search_outside:
  "usable + d \<le> sectors_count H \<Longrightarrow>
    efl_search (usable + d) H flash_size n (usable + d) 0 s =
    efl_search usable H flash_size n usable 0 (if d = 0 then s else s\<lparr>first_sector := usable\<rparr>)"
proof (induction d arbitrary: s)
  case (Suc d)
  then show ?case
    using outside [of "usable + d"] by (simp add: Let_def)
qed simp

lemma search_inside:
  assumes "0 < k" and "k \<le> usable" and "bound usable - bound k < bsize cfg"
  shows "\<exists>k0<k. bound k0 + bsize cfg \<le> bound usable \<and>
    (\<forall>s. efl_search k H flash_size (bsize cfg) usable (bound usable - bound k) s =
      s\<lparr>first_sector := k0, sector_count := usable - k0, base_offset := bound k0\<rparr>)"
  using assms
proof (induction k)
  case (Suc k)
  have k: "k < usable"
    using Suc.prems by simp
  have counter: "bound usable - bound (Suc k) + flashGetSectorSize H k = bound usable - bound k"
    using bound_mono [of "Suc k" usable] bound_Suc [OF k] k by simp
  have step: "efl_search (Suc k) H flash_size (bsize cfg) usable (bound usable - bound (Suc k)) s =
     (if bsize cfg \<le> bound usable - bound k then s\<lparr>first_sector := k, sector_count := usable - k, base_offset := bound k\<rparr>
      else efl_search k H flash_size (bsize cfg) usable (bound usable - bound k) (s\<lparr>first_sector := k\<rparr>))" for s
    using inside [OF k] bound_offset [OF k] counter by (simp add: Let_def not_le)
  show ?case
  proof (cases "bsize cfg \<le> bound usable - bound k")
    case True
    then show ?thesis
      using step bound_mono [of k usable] k by (intro exI [of _ k]) auto
  next
    case False
    then have "0 < k"
      using bound_end(2) by (cases k) auto
    then obtain k0 where k0: "k0 < k" "bound k0 + bsize cfg \<le> bound usable"
      and IH: "\<forall>s. efl_search k H flash_size (bsize cfg) usable (bound usable - bound k) s =
        s\<lparr>first_sector := k0, sector_count := usable - k0, base_offset := bound k0\<rparr>"
      using Suc.IH k False by (auto simp: not_le)
    show ?thesis
      unfolding step using False k0 IH by (intro exI [of _ k0]) simp
  qed
qed simp

lemma find_spec:
  obtains k0 where "k0 < usable" and "bound k0 + bsize cfg \<le> bound usable"
    and "\<And>s. efl_find H flash_size (bsize cfg) s = s\<lparr>first_sector := k0, sector_count := usable - k0, base_offset := bound k0\<rparr>"
proof -
  have "0 < bsize cfg"
    using config by (auto simp: wl_config_ok_def)
  then obtain k0 where k0: "k0 < usable" "bound k0 + bsize cfg \<le> bound usable"
    and search: "\<forall>s. efl_search usable H flash_size (bsize cfg) usable 0 s =
      s\<lparr>first_sector := k0, sector_count := usable - k0, base_offset := bound k0\<rparr>"
    using search_inside [of usable] usable(1) by auto
  have "efl_find H flash_size (bsize cfg) s = s\<lparr>first_sector := k0, sector_count := usable - k0, base_offset := bound k0\<rparr>" for s
    using search_outside [of "sectors_count H - usable" "bsize cfg" s] usable(2) search by (simp add: efl_find_def)
  with k0 show thesis
    by (rule that)
qed

section \<open>The driver is a lawful backing store\<close>

abbreviation valid :: "'h efl \<Rightarrow> bool" where
  "valid \<equiv> efl_valid H flash_size cfg good"

abbreviation cells :: "'h efl \<Rightarrow> u8 list" where
  "cells \<equiv> efl_cells cfg mem"

lemma valid_hal:
  assumes "valid s" and "good h"
  shows "valid (s\<lparr>hal := h\<rparr>)"
proof -
  obtain k0 where find: "\<And>s. efl_find H flash_size (bsize cfg) s = s\<lparr>first_sector := k0, sector_count := usable - k0, base_offset := bound k0\<rparr>"
    using find_spec by blast
  show ?thesis
    using assms unfolding efl_valid_def find by (cases s) simp
qed

lemma valid_region:
  assumes "valid s"
  shows "first_sector s + sector_count s = usable" "first_sector s < usable" "base_offset s = bound (first_sector s)"
    "base_offset s + bsize cfg \<le> bound usable" "base_offset s + bsize cfg \<le> flash_size" "8 dvd base_offset s" "length (mem (hal s)) = flash_size"
proof -
  obtain k0 where k0: "k0 < usable" "bound k0 + bsize cfg \<le> bound usable"
    and find: "\<And>s. efl_find H flash_size (bsize cfg) s = s\<lparr>first_sector := k0, sector_count := usable - k0, base_offset := bound k0\<rparr>"
    using find_spec by blast
  have "s = s\<lparr>first_sector := k0, sector_count := usable - k0, base_offset := bound k0\<rparr>"
    using assms find by (simp add: efl_valid_def)
  then have s: "first_sector s = k0" "sector_count s = usable - k0" "base_offset s = bound k0"
    by (cases s, simp)+
  show "first_sector s + sector_count s = usable" "first_sector s < usable" "base_offset s = bound (first_sector s)"
    "base_offset s + bsize cfg \<le> bound usable" "base_offset s + bsize cfg \<le> flash_size"
    using s k0 bound_end(1) by simp_all
  show "8 dvd base_offset s"
    using s k0(1) aligned bound_offset by metis
  show "length (mem (hal s)) = flash_size"
    using assms length_mem by (simp add: efl_valid_def)
qed

lemma erase_sectors:
  assumes "valid s" and "started (hal s)"
  shows "\<exists>h. efl_backing_store_erase H s = (True, s\<lparr>hal := h\<rparr>) \<and> good h \<and> started h \<and>
    mem h = memcpy_at (base_offset s) (replicate (bound usable - base_offset s) 0xFF) (mem (hal s))"
proof -
  note r = valid_region [OF assms(1)]
  define P where "P i x \<longleftrightarrow> (\<exists>h. x = (True, s\<lparr>hal := h\<rparr>) \<and> good h \<and> started h \<and>
      mem h = memcpy_at (base_offset s) (replicate (bound (first_sector s + i) - base_offset s) 0xFF) (mem (hal s)))" for i x
  have "P (sector_count s) (for_upto (sector_count s) (efl_erase_sector H) (True, s))"
  proof (rule for_upto_invariant)
    show "P 0 (True, s)"
      unfolding P_def using assms r(3) by (intro exI [of _ "hal s"]) (simp add: efl_valid_def)
  next
    fix i x
    assume i: "i < sector_count s" and "P i x"
    then obtain h where x: "x = (True, s\<lparr>hal := h\<rparr>)" and h: "good h" "started h"
      "mem h = memcpy_at (base_offset s) (replicate (bound (first_sector s + i) - base_offset s) 0xFF) (mem (hal s))"
      by (auto simp: P_def)
    let ?k = "first_sector s + i"
    have k: "?k < usable"
      using i r(1) by simp
    obtain e1 h1 e2 h2 where e: "flashStartEraseSector H ?k h = (e1, h1)" "flashWaitErase H h1 = (e2, h2)"
      by fastforce
    note l = erase_law [OF h(1,2) k e]
    have b: "base_offset s \<le> bound ?k" "bound (Suc ?k) \<le> bound usable" "bound (Suc ?k) = bound ?k + flashGetSectorSize H ?k"
      using bound_mono [of "first_sector s" ?k] bound_mono [of "Suc ?k" usable] bound_Suc [OF k] k r(3) by simp_all
    have "mem h2 = memcpy_at (base_offset s) (replicate (bound (Suc ?k) - base_offset s) 0xFF) (mem (hal s))"
      using l b h(3) bound_offset [OF k] bound_end(1) r(7)
      by (simp add: memcpy_at_extend replicate_add [symmetric])
    then show "P (Suc i) (efl_erase_sector H i x)"
      using l e by (auto simp: P_def x efl_erase_sector_def)
  qed
  then show ?thesis
    using r(1) by (auto simp: P_def efl_backing_store_erase_def)
qed

lemma cells_hal: "cells (s\<lparr>hal := h\<rparr>) = map NOT (subarr (base_offset s) (bsize cfg) (mem h))"
  by (simp add: efl_cells_def)

lemma driver_laws: "backing_store_laws (efl_driver H flash_size cfg) cfg valid cells (efl_opened started)"
proof (unfold_locales, goal_cases)
  case 1
  show ?case by (rule config)
next
  case (2 s)
  then show ?case
    using valid_region(5,7) [OF 2] by (simp add: efl_cells_def)
next
  case (3 s ok s')
  have h: "good (eflStop H (hal s))" "mem (eflStop H (hal s)) = mem (hal s)" "\<not> started (eflStop H (hal s))"
    using stop_law [of "hal s"] 3(1) by (simp_all add: efl_valid_def)
  have "efl_find H flash_size (bsize cfg) (s\<lparr>hal := eflStop H (hal s)\<rparr>) = s\<lparr>hal := eflStop H (hal s)\<rparr>"
    using valid_hal [OF 3(1) h(1)] by (simp add: efl_valid_def)
  then have "ok" "s' = s\<lparr>hal := eflStop H (hal s)\<rparr>"
    using 3(3) by (simp_all add: efl_driver_def efl_backing_store_init_def efl_backing_store_lock_def)
  then show ?case
    using valid_hal [OF 3(1) h(1)] h by (simp add: efl_cells_def efl_opened_def)
next
  case (4 s ok s')
  obtain h where h: "eflStart H (hal s) = (ok, h)" "s' = s\<lparr>hal := h\<rparr>"
    using 4(2) by (auto simp: efl_driver_def efl_backing_store_unlock_def split: prod.splits)
  then show ?case
    using start_law [OF _ h(1)] 4(1) valid_hal [OF 4(1), of h] by (simp add: efl_valid_def efl_cells_def efl_opened_def)
next
  case (5 s ok s')
  have "good (eflStop H (hal s))" "mem (eflStop H (hal s)) = mem (hal s)" "\<not> started (eflStop H (hal s))"
    using stop_law [of "hal s"] 5(1) by (simp_all add: efl_valid_def)
  then show ?case
    using 5 valid_hal [OF 5(1)] by (auto simp: efl_driver_def efl_backing_store_lock_def efl_cells_def efl_opened_def)
next
  case (6 s ok s')
  note r = valid_region [OF 6(1)]
  obtain h where e: "efl_backing_store_erase H s = (True, s\<lparr>hal := h\<rparr>)" "good h" "started h"
    and m: "mem h = memcpy_at (base_offset s) (replicate (bound usable - base_offset s) 0xFF) (mem (hal s))"
    using erase_sectors [OF 6(1)] 6(2) by (auto simp: efl_opened_def)
  have "subarr (base_offset s) (bsize cfg) (mem h) = replicate (bsize cfg) 0xFF"
    unfolding m using r(4,7) bound_end(1) by (intro nth_equalityI) (simp_all add: nth_subarr nth_memcpy_at)
  then show ?case
    using 6(3) e valid_hal [OF 6(1)] by (auto simp: efl_driver_def cells_hal efl_opened_def)
next
  case (7 s a v ok s')
  note r = valid_region [OF 7(1)]
  have w: "wsize cfg dvd 8"
    by (cases "BACKING_STORE_WRITE_SIZE cfg") simp_all
  have d: "length (map NOT v) dvd base_offset s + a"
    using 7(3,5) r(6) w by (auto intro: dvd_add dvd_trans)
  have f: "base_offset s + a + length (map NOT v) \<le> flash_size"
    using 7(4,5) r(5) by simp
  have "map NOT (subarr (base_offset s + a) (wsize cfg) (mem (hal s))) = replicate (wsize cfg) 0"
    using 7(4,6) r(5,7) by (auto simp: holds_def efl_cells_def subarr_def take_map drop_map add.commute drop_drop take_drop min_def)
  then have "map (NOT \<circ> NOT) (subarr (base_offset s + a) (wsize cfg) (mem (hal s))) = replicate (wsize cfg) (NOT 0)"
    by (metis map_map map_replicate)
  then have erased: "subarr (base_offset s + a) (length (map NOT v)) (mem (hal s)) = replicate (length (map NOT v)) 0xFF"
    using 7(5) by (simp add: o_def)
  obtain e h where p: "flashProgram H (base_offset s + a) (map NOT v) (hal s) = (e, h)"
    by fastforce
  have h: "e = FLASH_NO_ERROR" "good h" "started h" "mem h = memcpy_at (base_offset s + a) (map NOT v) (mem (hal s))"
    using program_law [OF _ _ d f erased p] 7(1,2) by (simp_all add: efl_valid_def efl_opened_def)
  have "map NOT (subarr (base_offset s) (bsize cfg) (mem h)) = memcpy_at a v (cells s)"
    unfolding h(4) efl_cells_def using 7(4,5) r(5,7)
    by (intro nth_equalityI) (auto simp: nth_subarr nth_memcpy_at)
  then show ?case
    using 7(7) p h valid_hal [OF 7(1)] by (auto simp: efl_driver_def efl_backing_store_write_def cells_hal efl_opened_def)
next
  case (8 s a)
  note r = valid_region [OF 8(1)]
  have "flash_load H (base_offset s + a) (wsize cfg) (hal s) = (subarr (base_offset s + a) (wsize cfg) (mem (hal s)), False)"
    using load_law [of "hal s"] 8(1,3) r(5) by (simp add: efl_valid_def)
  moreover have "map NOT (subarr (base_offset s + a) (wsize cfg) (mem (hal s))) = subarr a (wsize cfg) (cells s)"
    unfolding efl_cells_def using 8(3) r(5,7) by (intro nth_equalityI) (auto simp: nth_subarr add.assoc)
  ultimately show ?case
    by (simp add: efl_driver_def efl_backing_store_read_def backing_store_safe_read_from_location_def)
qed

end

sublocale efl_flash \<subseteq> bs: backing_store_laws "efl_driver H flash_size cfg" cfg "efl_valid H flash_size cfg good" "efl_cells cfg mem" "efl_opened started"
  by (rule driver_laws)

section \<open>Power loss\<close>

text \<open>When the power goes, the flash keeps its content and all static variables get their initial values, those of the driver too; the flash
  driver is stopped.\<close>

definition efl_power_loss :: "'h efl_hal \<Rightarrow> wl_config \<Rightarrow> 'h efl wear_leveling \<Rightarrow> 'h efl wear_leveling" where
  "efl_power_loss H cfg wl = \<lparr>cache = replicate (lsize cfg) 0, write_address = 0, unlocked = False, store = efl_reset (eflStop H (hal (store wl)))\<rparr>"

context efl_flash
begin

lemma find_reset:
  assumes "valid s" and "good h"
  shows "efl_find H flash_size (bsize cfg) (efl_reset h) = s\<lparr>hal := h\<rparr>"
proof -
  obtain k0 where find: "\<And>s. efl_find H flash_size (bsize cfg) s = s\<lparr>first_sector := k0, sector_count := usable - k0, base_offset := bound k0\<rparr>"
    using find_spec by blast
  have "s\<lparr>hal := h\<rparr> = s\<lparr>hal := h, first_sector := k0, sector_count := usable - k0, base_offset := bound k0\<rparr>"
    using valid_hal [OF assms] find by (simp add: efl_valid_def)
  also have "\<dots> = (efl_reset h)\<lparr>first_sector := k0, sector_count := usable - k0, base_offset := bound k0\<rparr>"
    using assms(1) by (cases s) (simp add: efl_reset_def efl_valid_def)
  finally show ?thesis
    by (simp only: find)
qed

text \<open>Starting again with the initial values is the same as starting with the values of before.\<close>

lemma init_after_power_loss:
  assumes "wl_settled cfg valid cells (efl_opened started) wl"
  shows "wear_leveling_init (efl_driver H flash_size cfg) cfg stk (efl_power_loss H cfg wl) =
    wear_leveling_init (efl_driver H flash_size cfg) cfg stk (power_cycle cfg (wl\<lparr>store := (store wl)\<lparr>hal := eflStop H (hal (store wl))\<rparr>\<rparr>))"
proof -
  have v: "valid (store wl)"
    using assms by (simp add: wl_settled_def)
  have g: "good (eflStop H (hal (store wl)))" "good (eflStop H (eflStop H (hal (store wl))))"
    using v stop_law by (simp_all add: efl_valid_def)
  have "backing_store_init (efl_driver H flash_size cfg) (efl_reset (eflStop H (hal (store wl)))) =
      backing_store_init (efl_driver H flash_size cfg) ((store wl)\<lparr>hal := eflStop H (hal (store wl))\<rparr>)"
    using find_reset [OF v g(2)] valid_hal [OF v g(2)]
    by (simp add: efl_driver_def efl_backing_store_init_def efl_backing_store_lock_def efl_valid_def) (simp add: efl_reset_def)
  then show ?thesis
    by (simp add: wear_leveling_init_def efl_power_loss_def power_cycle_def wear_leveling_clear_cache_def)
qed

lemma settled_stopped:
  assumes "wl_settled cfg valid cells (efl_opened started) wl"
  shows "wl_settled cfg valid cells (efl_opened started) (wl\<lparr>store := (store wl)\<lparr>hal := eflStop H (hal (store wl))\<rparr>\<rparr>)"
  using assms stop_law [of "hal (store wl)"] valid_hal [of "store wl" "eflStop H (hal (store wl))"]
  by (simp add: wl_settled_def efl_valid_def efl_cells_def efl_opened_def)

lemma word_survives:
  assumes settled: "wl_settled cfg valid cells (efl_opened started) wl" and range: "a + 2 \<le> lsize cfg" and stk: "8 \<le> length stk"
  shows "\<exists>wl'. eeprom_update_word (wl_eeprom (efl_driver H flash_size cfg) cfg) a v wl = Some wl' \<and>
    wl_settled cfg valid cells (efl_opened started) wl' \<and>
    eeprom_read_word (wl_eeprom (efl_driver H flash_size cfg) cfg) a
      (eeprom_driver_init (efl_driver H flash_size cfg) cfg stk (efl_power_loss H cfg wl')) = Some v"
proof -
  obtain wl' where wl': "eeprom_update_word (wl_eeprom (efl_driver H flash_size cfg) cfg) a v wl = Some wl'" "wl_settled cfg valid cells (efl_opened started) wl'"
      "eeprom_read_word (wl_eeprom (efl_driver H flash_size cfg) cfg) a wl' = Some v"
    using bs.ee.update_word [OF settled range] by blast
  let ?wl = "wl'\<lparr>store := (store wl')\<lparr>hal := eflStop H (hal (store wl'))\<rparr>\<rparr>"
  have "cache (eeprom_driver_init (efl_driver H flash_size cfg) cfg stk (efl_power_loss H cfg wl')) = cache wl'"
    using bs.reboot_keeps [OF settled_stopped [OF wl'(2)] stk] init_after_power_loss [OF wl'(2)] by (simp add: eeprom_driver_init_def)
  then have "eeprom_read_word (wl_eeprom (efl_driver H flash_size cfg) cfg) a
      (eeprom_driver_init (efl_driver H flash_size cfg) cfg stk (efl_power_loss H cfg wl')) =
    eeprom_read_word (wl_eeprom (efl_driver H flash_size cfg) cfg) a wl'"
    by (simp add: eeprom_read_word_def wl_eeprom_def wear_leveling_read_def)
  with wl' show ?thesis
    by auto
qed

end

text \<open>C12: On every flash that behaves as documented, a word that is updated in the emulated EEPROM is read back after the power was lost: the driver finds its sectors again,
  and the log in them gives the same data.\<close>

theorem efl_word_survives_power_loss:
  assumes "efl_flash H flash_size cfg usable good mem started"
    and "wl_settled cfg (efl_valid H flash_size cfg good) (efl_cells cfg mem) (efl_opened started) wl" and "a + 2 \<le> lsize cfg" and "8 \<le> length stk"
  shows "\<exists>wl'. eeprom_update_word (wl_eeprom (efl_driver H flash_size cfg) cfg) a v wl = Some wl' \<and>
    eeprom_read_word (wl_eeprom (efl_driver H flash_size cfg) cfg) a
      (eeprom_driver_init (efl_driver H flash_size cfg) cfg stk (efl_power_loss H cfg wl')) = Some v"
  using efl_flash.word_survives [OF assms] by blast

section \<open>A flash\<close>

text \<open>A flash of 256 kB with the sectors of an STM32F401: four of 16 kB, one of 64 kB, one of 128 kB. Erasing starts at once.\<close>

record flash_chip =
  chip_mem :: "u8 list"
  chip_started :: bool

definition chip_sizes :: "nat list" where
  "chip_sizes = [16384, 16384, 16384, 16384, 65536, 131072]"

definition chip_offset :: "nat \<Rightarrow> nat" where
  "chip_offset i = sum_list (take i chip_sizes)"

definition chip_hal :: "flash_chip efl_hal" where
  "chip_hal = \<lparr>sectors_count = 6, flashGetSectorOffset = chip_offset, flashGetSectorSize = (\<lambda>i. chip_sizes ! i),
     eflStart = (\<lambda>h. (True, h\<lparr>chip_started := True\<rparr>)), eflStop = (\<lambda>h. h\<lparr>chip_started := False\<rparr>),
     flashStartEraseSector = (\<lambda>i h. (FLASH_NO_ERROR, h\<lparr>chip_mem := memcpy_at (chip_offset i) (replicate (chip_sizes ! i) 0xFF) (chip_mem h)\<rparr>)),
     flashWaitErase = (\<lambda>h. (FLASH_NO_ERROR, h)),
     flashProgram = (\<lambda>offset v h. (FLASH_NO_ERROR, h\<lparr>chip_mem := memcpy_at offset v (chip_mem h)\<rparr>)),
     flash_load = (\<lambda>offset n h. (subarr offset n (chip_mem h), False))\<rparr>"

definition chip_good :: "flash_chip \<Rightarrow> bool" where
  "chip_good h \<longleftrightarrow> length (chip_mem h) = 262144"

lemma less_6_cases: "i < (6 :: nat) \<Longrightarrow> i \<in> {0, 1, 2, 3, 4, 5}"
  by auto

lemma chip_end: "i < 6 \<Longrightarrow> chip_offset i + chip_sizes ! i \<le> 262144" "i < 6 \<Longrightarrow> 8 dvd chip_offset i" "i < 6 \<Longrightarrow> 0 < chip_sizes ! i"
  using less_6_cases [of i] by (auto simp: chip_offset_def chip_sizes_def)

lemma chip_laws:
  assumes "wl_config_ok cfg" and "bsize cfg \<le> 262144"
  shows "efl_flash chip_hal 262144 cfg 6 chip_good chip_mem chip_started"
proof (unfold_locales, goal_cases)
  case 1
  show ?case by (rule assms(1))
next
  case (4 i)
  then show ?case
    using chip_end(1,3) [of i] by (simp add: chip_hal_def)
next
  case (6 i)
  then show ?case
    using less_6_cases [of i] by (auto simp: chip_hal_def chip_offset_def chip_sizes_def)
next
  case (7 i)
  then show ?case
    using chip_end(2) [of i] by (simp add: chip_hal_def)
next
  case (13 h i e1 h1 e2 h2)
  then show ?case
    using chip_end(1) [of i] by (auto simp: chip_hal_def chip_good_def flash_ok_def)
next
  case (14 h v offset e h')
  then show ?case
    by (auto simp: chip_hal_def chip_good_def)
qed (use assms(2) in \<open>auto simp: chip_hal_def chip_good_def chip_offset_def chip_sizes_def\<close>)

interpretation q3_flash: efl_flash chip_hal 262144 "q3_max_config w" 6 chip_good chip_mem chip_started for w
  by (rule chip_laws [OF q3_max_config_ok]) (simp add: q3_max_config_def)

text \<open>The first start of the keyboard: the flash is erased.\<close>

definition chip_blank :: "wl_config \<Rightarrow> flash_chip efl wear_leveling" where
  "chip_blank cfg = \<lparr>cache = replicate (lsize cfg) 0, write_address = lsize cfg + 8, unlocked = False,
     store = efl_find chip_hal 262144 (bsize cfg) (efl_reset \<lparr>chip_mem = replicate 262144 0xFF, chip_started = False\<rparr>)\<rparr>"

lemma chip_blank_settled:
  assumes "wl_config_ok cfg" and "bsize cfg \<le> 262144"
  shows "wl_settled cfg (efl_valid chip_hal 262144 cfg chip_good) (efl_cells cfg chip_mem) (efl_opened chip_started) (chip_blank cfg)"
proof -
  note F = chip_laws [OF assms]
  let ?s = "store (chip_blank cfg)"
  obtain k0 where find: "\<And>s. efl_find chip_hal 262144 (bsize cfg) s = s\<lparr>first_sector := k0, sector_count := 6 - k0, base_offset := efl_flash.bound chip_hal k0\<rparr>"
    using efl_flash.find_spec [OF F] by blast
  have s: "hal ?s = \<lparr>chip_mem = replicate 262144 0xFF, chip_started = False\<rparr>" "\<not> is_issuing_read ?s" "\<not> ecc_error_occurred ?s"
    by (simp_all add: chip_blank_def find efl_reset_def)
  have valid: "efl_valid chip_hal 262144 cfg chip_good ?s"
    using s by (simp add: efl_valid_def chip_good_def) (simp add: chip_blank_def find)
  have "subarr (base_offset ?s) (bsize cfg) (replicate 262144 (0xFF :: u8)) = replicate (bsize cfg) 0xFF"
    using efl_flash.valid_region(5) [OF F valid] by (intro nth_equalityI) (simp_all add: nth_subarr)
  then have "efl_cells cfg chip_mem ?s = replicate (bsize cfg) 0"
    using s(1) by (simp add: efl_cells_def)
  then show ?thesis
    using valid s(1) assms(1) log_state_erased [of cfg]
    by (simp add: wl_settled_def efl_opened_def wl_config_ok_def) (simp add: chip_blank_def)
qed

theorem efl_word_survives_power_loss_witness:
  "\<exists>wl'. eeprom_update_word (wl_eeprom (efl_driver chip_hal 262144 (q3_max_config Write4)) (q3_max_config Write4)) 38 0xBEEF
      (chip_blank (q3_max_config Write4)) = Some wl' \<and>
    eeprom_read_word (wl_eeprom (efl_driver chip_hal 262144 (q3_max_config Write4)) (q3_max_config Write4)) 38
      (eeprom_driver_init (efl_driver chip_hal 262144 (q3_max_config Write4)) (q3_max_config Write4) (replicate 8 0)
        (efl_power_loss chip_hal (q3_max_config Write4) wl')) = Some 0xBEEF"
proof -
  have size: "bsize (q3_max_config Write4) \<le> 262144" "38 + 2 \<le> lsize (q3_max_config Write4)"
    by (simp_all add: q3_max_config_def)
  show ?thesis
    by (rule efl_word_survives_power_loss [OF q3_flash.efl_flash_axioms chip_blank_settled [OF q3_max_config_ok size(1)] size(2)]) simp
qed

end
