(* ===== verification/Report_Buffer.thy ===== *)
theory Report_Buffer
  imports Ring_Queue Report
begin

text \<open>
  The queue of reports for the wireless module (\<^verbatim>\<open>keyboards/keychron/common/wireless/report_buffer.c\<close>). Reports wait in
  a ring of 256 cells; \<^verbatim>\<open>report_buffer_task\<close> takes one out when the previous one is done, and sends it again until
  the module acknowledges it (\<^verbatim>\<open>report_buffer_set_retry(0)\<close>) or the retries are used up. The clock is read once per
  call, as \<open>now\<close>; \<open>connected\<close> is \<^verbatim>\<open>wireless_get_state() == WT_CONNECTED\<close>. The result of the task lists
  the calls it makes to the transport. All transport functions are registered (\<^verbatim>\<open>lkbt51.c\<close> registers them all), and
  NKRO reports are enabled for wireless (\<^verbatim>\<open>WIRELESS_NKRO_ENABLE\<close>) or not according to \<open>nkro_enable\<close>.
\<close>

section \<open>Model\<close>

definition REPORT_BUFFER_QUEUE_SIZE :: nat where
  "REPORT_BUFFER_QUEUE_SIZE = 256"

definition RETPORT_RETRY_COUNT :: u8 where
  "RETPORT_RETRY_COUNT = 30"

definition DEFAULT_2P4G_REPORT_INVERVAL_MS :: u8 where
  "DEFAULT_2P4G_REPORT_INVERVAL_MS = 1"

text \<open>\<^verbatim>\<open>report_buffer_t\<close>: the tag and the union.\<close>

datatype report_buffer_t =
  REPORT_TYPE_NONE | REPORT_TYPE_KB report_keyboard_t | REPORT_TYPE_NKRO report_nkro_t | REPORT_TYPE_CONSUMER u16

record report_buffer =
  report_interval :: u8
  report_timer_buffer :: u32
  retry_time_buffer :: u32
  report_buffer_queue :: "report_buffer_t list"
  report_buffer_queue_head :: nat
  report_buffer_queue_tail :: nat
  kb_rpt :: report_buffer_t
  retry :: u8

text \<open>The calls the task makes.\<close>

datatype transport_call = Send_keyboard report_keyboard_t | Send_nkro report_nkro_t | Send_consumer u16 | Lpm_timer_reset

definition report_buffer_init :: "u32 \<Rightarrow> report_buffer \<Rightarrow> report_buffer" where
  "report_buffer_init now s =
     s\<lparr>report_buffer_queue := replicate REPORT_BUFFER_QUEUE_SIZE REPORT_TYPE_NONE, report_buffer_queue_head := 0,
       report_buffer_queue_tail := 0, retry := 0, report_timer_buffer := now\<rparr>"

definition report_buffer_enqueue :: "report_buffer_t \<Rightarrow> report_buffer \<Rightarrow> bool \<times> report_buffer" where
  "report_buffer_enqueue report s =
     (let next = (report_buffer_queue_head s + 1) mod REPORT_BUFFER_QUEUE_SIZE
      in if next = report_buffer_queue_tail s then (False, s)
         else (True, s\<lparr>report_buffer_queue := (report_buffer_queue s)[report_buffer_queue_head s := report],
                       report_buffer_queue_head := next\<rparr>))"

definition report_buffer_dequeue :: "report_buffer \<Rightarrow> (report_buffer_t \<times> report_buffer) option" where
  "report_buffer_dequeue s =
     (if report_buffer_queue_head s = report_buffer_queue_tail s then None
      else Some (report_buffer_queue s ! report_buffer_queue_tail s,
             s\<lparr>report_buffer_queue_tail := (report_buffer_queue_tail s + 1) mod REPORT_BUFFER_QUEUE_SIZE\<rparr>))"

definition report_buffer_is_empty :: "report_buffer \<Rightarrow> bool" where
  "report_buffer_is_empty s \<longleftrightarrow> report_buffer_queue_head s = report_buffer_queue_tail s"

definition report_buffer_update_timer :: "u32 \<Rightarrow> report_buffer \<Rightarrow> report_buffer" where
  "report_buffer_update_timer now s = s\<lparr>report_timer_buffer := now\<rparr>"

definition report_buffer_next_inverval :: "u32 \<Rightarrow> report_buffer \<Rightarrow> bool" where
  "report_buffer_next_inverval now s \<longleftrightarrow> ucast (report_interval s) < now - report_timer_buffer s"

definition report_buffer_set_inverval :: "u8 \<Rightarrow> report_buffer \<Rightarrow> report_buffer" where
  "report_buffer_set_inverval interval s = s\<lparr>report_interval := interval\<rparr>"

definition report_buffer_get_retry :: "report_buffer \<Rightarrow> u8" where
  "report_buffer_get_retry s = retry s"

definition report_buffer_set_retry :: "u8 \<Rightarrow> report_buffer \<Rightarrow> report_buffer" where
  "report_buffer_set_retry n s = s\<lparr>retry := n\<rparr>"

text \<open>The first half of the task: is there something to send now?\<close>

definition report_buffer_pending :: "u32 \<Rightarrow> report_buffer \<Rightarrow> bool \<times> report_buffer" where
  "report_buffer_pending now s =
     (if retry s = 0 then
        case report_buffer_dequeue s of
          None \<Rightarrow> (False, s)
        | Some (report, s) \<Rightarrow>
            (let s = s\<lparr>kb_rpt := report\<rparr>
             in if report \<noteq> REPORT_TYPE_NONE \<and> 2 < now
                then (True, s\<lparr>retry := RETPORT_RETRY_COUNT, retry_time_buffer := now\<rparr>)
                else (False, s))
      else if 2 < now - retry_time_buffer s then (True, s\<lparr>retry := retry s - 1, retry_time_buffer := now\<rparr>)
      else (False, s))"

definition report_buffer_send :: "bool \<Rightarrow> report_buffer_t \<Rightarrow> transport_call list" where
  "report_buffer_send nkro_enable report =
     (case report of
        REPORT_TYPE_NKRO r \<Rightarrow> (if nkro_enable then [Send_nkro r] else [])
      | REPORT_TYPE_KB r \<Rightarrow> [Send_keyboard r]
      | REPORT_TYPE_CONSUMER c \<Rightarrow> [Send_consumer c]
      | REPORT_TYPE_NONE \<Rightarrow> [])"

definition report_buffer_task :: "bool \<Rightarrow> bool \<Rightarrow> u32 \<Rightarrow> report_buffer \<Rightarrow> transport_call list \<times> report_buffer" where
  "report_buffer_task nkro_enable connected now s =
     (if connected \<and> (\<not> report_buffer_is_empty s \<or> retry s \<noteq> 0) \<and> report_buffer_next_inverval now s then
        let (pending_data, s) = report_buffer_pending now s
        in if pending_data
           then (report_buffer_send nkro_enable (kb_rpt s) @ [Lpm_timer_reset], s\<lparr>report_timer_buffer := now\<rparr>)
           else ([], s)
      else ([], s))"

section \<open>The queue\<close>

definition rb_inv :: "report_buffer \<Rightarrow> bool" where
  "rb_inv s \<longleftrightarrow> length (report_buffer_queue s) = REPORT_BUFFER_QUEUE_SIZE \<and>
     report_buffer_queue_head s < REPORT_BUFFER_QUEUE_SIZE \<and> report_buffer_queue_tail s < REPORT_BUFFER_QUEUE_SIZE"

definition rb_contents :: "report_buffer \<Rightarrow> report_buffer_t list" where
  "rb_contents s = ring_list REPORT_BUFFER_QUEUE_SIZE (report_buffer_queue s) (report_buffer_queue_head s) (report_buffer_queue_tail s)"

lemma queue_size_pos [simp]: "0 < REPORT_BUFFER_QUEUE_SIZE"
  by (simp add: REPORT_BUFFER_QUEUE_SIZE_def)

interpretation rbq: bounded_queue rb_inv rb_contents "REPORT_BUFFER_QUEUE_SIZE - 1" report_buffer_dequeue report_buffer_enqueue
proof (unfold_locales, goal_cases)
  case (1 q)
  then show ?case
    using ring_size_less [of "report_buffer_queue_head q" REPORT_BUFFER_QUEUE_SIZE "report_buffer_queue_tail q"]
    by (simp add: rb_inv_def rb_contents_def)
next
  case (2 q)
  then show ?case
    by (simp add: rb_inv_def rb_contents_def report_buffer_dequeue_def ring_list_empty)
next
  case (3 q x q')
  then show ?case
    using ring_list_pop [of "report_buffer_queue_head q" REPORT_BUFFER_QUEUE_SIZE "report_buffer_queue_tail q" "report_buffer_queue q"]
    by (auto simp: rb_inv_def rb_contents_def report_buffer_dequeue_def split: if_splits)
next
  case (4 q x ok q')
  then show ?case
    using ring_list_push [of "report_buffer_queue_head q" REPORT_BUFFER_QUEUE_SIZE "report_buffer_queue_tail q" "report_buffer_queue q" x]
      ring_size_full [of "report_buffer_queue_head q" REPORT_BUFFER_QUEUE_SIZE "report_buffer_queue_tail q"]
      ring_size_less [of "report_buffer_queue_head q" REPORT_BUFFER_QUEUE_SIZE "report_buffer_queue_tail q"]
    by (auto simp: rb_inv_def rb_contents_def report_buffer_enqueue_def Let_def split: if_splits)
qed

section \<open>What the task does\<close>

lemma rb_frame [simp]:
  "rb_inv (s\<lparr>kb_rpt := r\<rparr>) = rb_inv s" "rb_inv (s\<lparr>retry := n\<rparr>) = rb_inv s" "rb_inv (s\<lparr>retry_time_buffer := t\<rparr>) = rb_inv s"
  "rb_inv (s\<lparr>report_timer_buffer := t\<rparr>) = rb_inv s"
  "rb_contents (s\<lparr>kb_rpt := r\<rparr>) = rb_contents s" "rb_contents (s\<lparr>retry := n\<rparr>) = rb_contents s"
  "rb_contents (s\<lparr>retry_time_buffer := t\<rparr>) = rb_contents s" "rb_contents (s\<lparr>report_timer_buffer := t\<rparr>) = rb_contents s"
  by (simp_all add: rb_inv_def rb_contents_def)

lemma dequeue_frame:
  "report_buffer_dequeue s = Some (x, s') \<Longrightarrow>
    retry s' = retry s \<and> kb_rpt s' = kb_rpt s \<and> report_interval s' = report_interval s \<and> report_timer_buffer s' = report_timer_buffer s"
  by (auto simp: report_buffer_dequeue_def split: if_splits)

lemma is_empty_contents: "rb_inv s \<Longrightarrow> report_buffer_is_empty s \<longleftrightarrow> rb_contents s = []"
  by (simp add: report_buffer_is_empty_def rb_inv_def rb_contents_def ring_list_empty)

text \<open>The cases of a task call on a queue without empty reports, after the first two milliseconds: nothing
  happens, the next report is taken out and sent for the first time, or the last one is sent again.\<close>

lemma task_cases:
  assumes "rb_inv s" and "REPORT_TYPE_NONE \<notin> set (rb_contents s)" and "2 < now"
    and "report_buffer_task nkro_enable connected now s = (calls, s')"
  obtains (idle) "calls = []" and "s' = s"
  | (first) x where "calls \<noteq> []" and "retry s = 0" and "rb_inv s'" and "rb_contents s = x # rb_contents s'" and "kb_rpt s' = x"
      and "retry s' = RETPORT_RETRY_COUNT"
  | (again) "calls \<noteq> []" and "retry s \<noteq> 0" and "rb_inv s'" and "rb_contents s' = rb_contents s" and "kb_rpt s' = kb_rpt s"
      and "retry s' = retry s - 1"
proof (cases "connected \<and> (\<not> report_buffer_is_empty s \<or> retry s \<noteq> 0) \<and> report_buffer_next_inverval now s")
  case False
  then show ?thesis
    using assms(4) idle by (auto simp: report_buffer_task_def)
next
  case go: True
  show ?thesis
  proof (cases "retry s = 0")
    case True
    then have "rb_contents s \<noteq> []"
      using go is_empty_contents [OF assms(1)] by simp
    with assms(1) obtain x q where d: "report_buffer_dequeue s = Some (x, q)" "rb_inv q" "rb_contents s = x # rb_contents q"
      by (cases rule: rbq.dequeue_cases) simp_all
    then have "x \<noteq> REPORT_TYPE_NONE"
      using assms(2) by auto
    then show ?thesis
      using go True d assms(3,4)
      by (intro first [of x]) (auto simp: report_buffer_task_def report_buffer_pending_def Let_def)
  next
    case False
    show ?thesis
    proof (cases "2 < now - retry_time_buffer s")
      case True
      then show ?thesis
        using go False assms(1,4) by (intro again) (auto simp: report_buffer_task_def report_buffer_pending_def Let_def)
    next
      case late: False
      then show ?thesis
        using go False assms(4) by (intro idle) (auto simp: report_buffer_task_def report_buffer_pending_def Let_def)
    qed
  qed
qed

section \<open>Order and completeness\<close>

datatype rb_op = Enqueue report_buffer_t | Task bool u32 | Ack

text \<open>A run of the buffer with its history: the reports accepted by the queue, the reports sent for the
  first time, and all transmissions.\<close>

record rb_history =
  buffer :: report_buffer
  accepted :: "report_buffer_t list"
  firsts :: "report_buffer_t list"
  sent :: "report_buffer_t list"

fun rb_step :: "bool \<Rightarrow> rb_op \<Rightarrow> rb_history \<Rightarrow> rb_history" where
  "rb_step nkro_enable (Enqueue r) h =
     (let (ok, s) = report_buffer_enqueue r (buffer h)
      in h\<lparr>buffer := s, accepted := accepted h @ (if ok then [r] else [])\<rparr>)"
| "rb_step nkro_enable (Task connected now) h =
     (let (calls, s) = report_buffer_task nkro_enable connected now (buffer h);
          new = (if calls = [] then [] else [kb_rpt s])
      in h\<lparr>buffer := s, firsts := firsts h @ (if retry (buffer h) = 0 then new else []), sent := sent h @ new\<rparr>)"
| "rb_step nkro_enable Ack h = h\<lparr>buffer := report_buffer_set_retry 0 (buffer h)\<rparr>"

fun op_ok :: "rb_op \<Rightarrow> bool" where
  "op_ok (Enqueue r) \<longleftrightarrow> r \<noteq> REPORT_TYPE_NONE"
| "op_ok (Task connected now) \<longleftrightarrow> 2 < now"
| "op_ok Ack \<longleftrightarrow> True"

definition rb_start :: "report_buffer \<Rightarrow> u32 \<Rightarrow> rb_history" where
  "rb_start s now = \<lparr>buffer = report_buffer_init now s, accepted = [], firsts = [], sent = []\<rparr>"

text \<open>\<open>repeats xs ns\<close>: the elements of \<open>xs\<close>, each repeated.\<close>

definition repeats :: "'a list \<Rightarrow> nat list \<Rightarrow> 'a list" where
  "repeats xs ns = concat (map (\<lambda>(n, x). replicate n x) (zip ns xs))"

lemma repeats_snoc: "length ns = length xs \<Longrightarrow> repeats (xs @ [x]) (ns @ [n]) = repeats xs ns @ replicate n x"
  by (simp add: repeats_def)

definition rb_good :: "rb_history \<Rightarrow> bool" where
  "rb_good h \<longleftrightarrow> rb_inv (buffer h) \<and> REPORT_TYPE_NONE \<notin> set (rb_contents (buffer h)) \<and>
     firsts h @ rb_contents (buffer h) = accepted h \<and>
     (\<exists>ns. length ns = length (firsts h) \<and> sent h = repeats (firsts h) ns \<and> (\<forall>n\<in>set ns. 1 \<le> n \<and> n \<le> 31) \<and>
        (retry (buffer h) \<noteq> 0 \<longrightarrow> firsts h \<noteq> [] \<and> kb_rpt (buffer h) = last (firsts h) \<and> last ns + unat (retry (buffer h)) \<le> 31))"

lemma rb_goodI:
  assumes "rb_inv (buffer h)" and "REPORT_TYPE_NONE \<notin> set (rb_contents (buffer h))"
    and "firsts h @ rb_contents (buffer h) = accepted h" and "length ns = length (firsts h)" and "sent h = repeats (firsts h) ns"
    and "\<And>n. n \<in> set ns \<Longrightarrow> 1 \<le> n \<and> n \<le> 31"
    and "retry (buffer h) \<noteq> 0 \<Longrightarrow> firsts h \<noteq> [] \<and> kb_rpt (buffer h) = last (firsts h) \<and> last ns + unat (retry (buffer h)) \<le> 31"
  shows "rb_good h"
  using assms unfolding rb_good_def by blast

lemma rb_step_good:
  assumes "rb_good h" and "op_ok op"
  shows "rb_good (rb_step nkro_enable op h)"
proof -
  obtain ns where g: "rb_inv (buffer h)" "REPORT_TYPE_NONE \<notin> set (rb_contents (buffer h))"
    "firsts h @ rb_contents (buffer h) = accepted h" "length ns = length (firsts h)" "sent h = repeats (firsts h) ns"
    "\<forall>n\<in>set ns. 1 \<le> n \<and> n \<le> 31"
    "retry (buffer h) \<noteq> 0 \<longrightarrow> firsts h \<noteq> [] \<and> kb_rpt (buffer h) = last (firsts h) \<and> last ns + unat (retry (buffer h)) \<le> 31"
    using assms(1) unfolding rb_good_def by blast
  show ?thesis
  proof (cases op)
    case (Enqueue r)
    obtain ok s where e: "report_buffer_enqueue r (buffer h) = (ok, s)"
      by fastforce
    have "retry s = retry (buffer h) \<and> kb_rpt s = kb_rpt (buffer h)"
      using e by (auto simp: report_buffer_enqueue_def Let_def split: if_splits)
    with rbq.enqueue_law [OF g(1) e] g assms(2) Enqueue e show ?thesis
      by (intro rb_goodI [where ns = ns]) auto
  next
    case Ack
    with g show ?thesis
      by (intro rb_goodI [where ns = ns]) (auto simp: report_buffer_set_retry_def)
  next
    case (Task connected now)
    with assms(2) have now: "2 < now"
      by simp
    obtain calls s where t: "report_buffer_task nkro_enable connected now (buffer h) = (calls, s)"
      by fastforce
    from g(1,2) now t show ?thesis
    proof (cases rule: task_cases)
      case idle
      with g t Task show ?thesis
        by (intro rb_goodI [where ns = ns]) (auto simp: Let_def)
    next
      case (first x)
      with g t Task show ?thesis
        by (intro rb_goodI [where ns = "ns @ [1]"]) (auto simp: repeats_snoc RETPORT_RETRY_COUNT_def Let_def)
    next
      case again
      then obtain fs x where fs: "firsts h = fs @ [x]" "kb_rpt (buffer h) = x"
        using g(7) by (metis append_butlast_last_id)
      then obtain ms n where ms: "ns = ms @ [n]" "length ms = length fs"
        using g(4) by (cases ns rule: rev_cases) auto
      have "unat (retry (buffer h) - 1) = unat (retry (buffer h)) - 1" and "0 < unat (retry (buffer h))"
        using again(2) by (simp_all add: unat_minus_one unat_gt_0)
      then have n: "Suc n \<le> 31" "Suc n + unat (retry (buffer h) - 1) \<le> 31"
        using g(7) again(2) ms by auto
      have "repeats (fs @ [x]) (ms @ [Suc n]) = repeats (fs @ [x]) (ms @ [n]) @ [x]"
        using ms by (simp add: repeats_snoc flip: replicate_append_same)
      with again g t Task fs ms n show ?thesis
        by (intro rb_goodI [where ns = "ms @ [Suc n]"]) (auto simp: Let_def)
    qed
  qed
qed

lemma rb_start_good: "rb_good (rb_start s now)"
  by (rule rb_goodI [where ns = "[]"])
    (simp_all add: rb_start_def report_buffer_init_def rb_inv_def rb_contents_def ring_list_def ring_size_def repeats_def)

lemma rb_run_good: "list_all op_ok ops \<Longrightarrow> rb_good h \<Longrightarrow> rb_good (fold (rb_step nkro_enable) ops h)"
  by (induction ops arbitrary: h) (simp_all add: rb_step_good)


definition rb_sample :: report_buffer where
  "rb_sample = \<lparr>report_interval = DEFAULT_2P4G_REPORT_INVERVAL_MS, report_timer_buffer = 0, retry_time_buffer = 0,
     report_buffer_queue = [], report_buffer_queue_head = 0, report_buffer_queue_tail = 0, kb_rpt = REPORT_TYPE_NONE, retry = 0\<rparr>"

definition rb_sample_ops :: "rb_op list" where
  "rb_sample_ops = [Enqueue (REPORT_TYPE_CONSUMER 5), Enqueue (REPORT_TYPE_CONSUMER 0), Task True 10, Task True 20, Ack]"


section \<open>Progress\<close>

definition rb_work :: "report_buffer \<Rightarrow> nat" where
  "rb_work s = 31 * length (rb_contents s) + unat (retry s)"

text \<open>Clock values far enough apart for the report interval and for the retry delay.\<close>

fun spaced :: "u8 \<Rightarrow> u32 \<Rightarrow> u32 list \<Rightarrow> bool" where
  "spaced interval prev [] \<longleftrightarrow> True"
| "spaced interval prev (t # ts) \<longleftrightarrow> 2 < t \<and> 2 < t - prev \<and> ucast interval < t - prev \<and> spaced interval t ts"

definition rb_ready :: "u32 \<Rightarrow> report_buffer \<Rightarrow> bool" where
  "rb_ready prev s \<longleftrightarrow> rb_inv s \<and> REPORT_TYPE_NONE \<notin> set (rb_contents s) \<and> report_timer_buffer s = prev \<and>
     (retry s \<noteq> 0 \<longrightarrow> retry_time_buffer s = prev)"

lemma rb_work_0: "rb_work s = 0 \<longleftrightarrow> rb_contents s = [] \<and> retry s = 0"
  by (auto simp: rb_work_def unat_eq_0)

lemma task_idle: "rb_inv s \<Longrightarrow> rb_work s = 0 \<Longrightarrow> report_buffer_task nkro_enable True now s = ([], s)"
  by (simp add: rb_work_0 report_buffer_task_def is_empty_contents)

lemma task_progress:
  assumes "rb_ready prev s" and "2 < now" and "2 < now - prev" and "ucast (report_interval s) < now - prev" and "rb_work s \<noteq> 0"
    and "s' = snd (report_buffer_task nkro_enable True now s)"
  shows "rb_ready now s' \<and> report_interval s' = report_interval s \<and> Suc (rb_work s') = rb_work s"
proof (cases "retry s = 0")
  case True
  then have ne: "rb_contents s \<noteq> []" and inv: "rb_inv s"
    using assms(1,5) by (auto simp: rb_work_0 rb_ready_def)
  from inv ne obtain x q where d: "report_buffer_dequeue s = Some (x, q)" "rb_inv q" "rb_contents s = x # rb_contents q"
    by (cases rule: rbq.dequeue_cases) simp_all
  moreover have "x \<noteq> REPORT_TYPE_NONE" "REPORT_TYPE_NONE \<notin> set (rb_contents q)"
    using assms(1) d(3) by (auto simp: rb_ready_def)
  ultimately show ?thesis
    using True assms dequeue_frame [OF d(1)] inv
    by (auto simp: report_buffer_task_def report_buffer_pending_def Let_def rb_ready_def is_empty_contents rb_work_def
        report_buffer_next_inverval_def RETPORT_RETRY_COUNT_def)
next
  case False
  moreover from this have "Suc (unat (retry s - 1)) = unat (retry s)"
    by (simp add: unat_minus_one unat_gt_0)
  ultimately show ?thesis
    using assms
    by (auto simp: report_buffer_task_def report_buffer_pending_def Let_def rb_ready_def rb_work_def report_buffer_next_inverval_def)
qed

definition task_run :: "bool \<Rightarrow> u32 list \<Rightarrow> report_buffer \<Rightarrow> report_buffer" where
  "task_run nkro_enable ts s = fold (\<lambda>t s. snd (report_buffer_task nkro_enable True t s)) ts s"

lemma task_run_idle: "rb_inv s \<Longrightarrow> rb_work s = 0 \<Longrightarrow> task_run nkro_enable ts s = s"
  by (induction ts) (simp_all add: task_run_def task_idle)

lemma task_inv: "rb_inv s \<Longrightarrow> rb_inv (snd (report_buffer_task nkro_enable connected t s))"
  by (auto simp: report_buffer_task_def report_buffer_pending_def Let_def dest: rbq.dequeue_Some split: option.splits prod.splits)

lemma task_run_inv: "rb_inv s \<Longrightarrow> rb_inv (task_run nkro_enable ts s)"
  by (induction ts arbitrary: s) (simp_all add: task_run_def task_inv)

lemma task_run_drains:
  "rb_ready prev s \<Longrightarrow> spaced (report_interval s) prev ts \<Longrightarrow> rb_work s \<le> length ts \<Longrightarrow> rb_work (task_run nkro_enable ts s) = 0"
proof (induction ts arbitrary: prev s)
  case Nil
  then show ?case
    by (simp add: task_run_def)
next
  case (Cons t ts)
  show ?case
  proof (cases "rb_work s = 0")
    case True
    then show ?thesis
      using Cons.prems(1) by (simp add: task_run_idle rb_ready_def)
  next
    case False
    define s' where "s' = snd (report_buffer_task nkro_enable True t s)"
    have "rb_ready t s' \<and> report_interval s' = report_interval s \<and> Suc (rb_work s') = rb_work s"
      using Cons.prems False by (intro task_progress [OF _ _ _ _ _ s'_def]) auto
    then have "rb_work (task_run nkro_enable ts s') = 0"
      using Cons.prems by (intro Cons.IH) auto
    then show ?thesis
      by (simp add: task_run_def s'_def)
  qed
qed

text \<open>While the keyboard stays connected the buffer empties even if the module never acknowledges: as many task
  calls as there are transmissions left (31 per waiting report plus the retries of the current one), each later than the
  report interval and the retry delay after the last, leave the queue empty and no retry pending.\<close>

theorem report_buffer_drains:
  assumes "rb_ready prev s" and "spaced (report_interval s) prev ts" and "31 * length (rb_contents s) + unat (retry s) \<le> length ts"
  shows "report_buffer_is_empty (task_run nkro_enable ts s) \<and> retry (task_run nkro_enable ts s) = 0"
proof -
  have w: "rb_work (task_run nkro_enable ts s) = 0"
    using assms by (intro task_run_drains) (simp_all add: rb_work_def)
  have "rb_inv (task_run nkro_enable ts s)"
    using assms(1) by (intro task_run_inv) (simp add: rb_ready_def)
  then show ?thesis
    using w by (simp add: rb_work_0 is_empty_contents)
qed

definition rb_sample_one :: report_buffer where
  "rb_sample_one = snd (report_buffer_enqueue (REPORT_TYPE_CONSUMER 5) (report_buffer_init 0 rb_sample))"

theorem report_buffer_drains_witness:
  "report_buffer_is_empty (task_run True (map (\<lambda>i. 4 * of_nat i) [1..<32]) rb_sample_one) \<and>
   retry (task_run True (map (\<lambda>i. 4 * of_nat i) [1..<32]) rb_sample_one) = 0"
proof (rule report_buffer_drains [where prev = 0])
  show "rb_ready 0 rb_sample_one"
    by code_simp
  show "spaced (report_interval rb_sample_one) 0 (map (\<lambda>i. 4 * of_nat i) [1..<32])"
    by code_simp
  show "31 * length (rb_contents rb_sample_one) + unat (retry rb_sample_one) \<le> length (map (\<lambda>i. 4 * of_nat i) [1..<32] :: u32 list)"
    by code_simp
qed

end
