(* ===== verification/Wireless.thy ===== *)
theory Wireless
  imports Report_Buffer
begin

text \<open>
  The wireless state machine (\<^verbatim>\<open>keyboards/keychron/common/wireless/wireless.c\<close>): the event queue filled by the driver of
  the module, one handler per event, the connection requests, and the host driver that turns reports into
  buffered reports or connection requests. The build modelled is that of \<^verbatim>\<open>keychron/q3_max\<close>: \<^verbatim>\<open>NKRO_ENABLE\<close>,
  \<^verbatim>\<open>WIRELESS_NKRO_ENABLE\<close> and \<^verbatim>\<open>BAT_LOW_LED_PIN\<close> defined, \<^verbatim>\<open>LOW_BAT_IND_INDEX\<close> and \<^verbatim>\<open>DISABLE_REPORT_BUFFER\<close> not, and
  every function of \<^verbatim>\<open>wireless_transport\<close> registered. Calls to the module, the indicator, the battery, the
  power management and the keyboard hooks are results of the operations, in order; \<open>wireless_env\<close> has what these
  parts answer. \<^verbatim>\<open>clear_keyboard\<close> sends reports through the host driver: these are further sends of the run.
\<close>

section \<open>Model\<close>

datatype wt_state_t = WT_RESET | WT_INITIALIZED | WT_DISCONNECTED | WT_CONNECTED | WT_PARING | WT_RECONNECTING | WT_SUSPEND

datatype event_type_t =
  EVT_NONE | EVT_RESET | EVT_DISCOVERABLE | EVT_RECONNECTING | EVT_CONNECTED | EVT_DISCONNECTED | EVT_BT_PINCODE_ENTRY |
  EVT_EXIT_BT_PINCODE_ENTRY | EVT_SLEEP | EVT_HID_SET_PROTOCOL | EVT_HID_INDICATOR | EVT_CONECTION_INTERVAL

text \<open>The members of the union \<^verbatim>\<open>params\<close> are all one byte: \<open>params\<close> is that byte.\<close>

record wireless_event_t =
  evt_type :: event_type_t
  params :: u8

definition WT_EVENT_QUEUE_SIZE :: nat where
  "WT_EVENT_QUEUE_SIZE = 16"

record report_mouse_t =
  mouse_buttons :: u8
  mouse_x :: u8
  mouse_y :: u8
  mouse_v :: u8
  mouse_h :: u8

record report_extra_t =
  extra_report_id :: u8
  usage :: u16

definition REPORT_ID_SYSTEM :: u8 where
  "REPORT_ID_SYSTEM = 3"

definition REPORT_ID_CONSUMER :: u8 where
  "REPORT_ID_CONSUMER = 4"

text \<open>\<^verbatim>\<open>keymap_config.nkro\<close> is bit 7 of \<^verbatim>\<open>keymap_config.raw\<close>.\<close>

record wireless =
  host_index :: u8
  led_state :: u8
  wireless_state :: wt_state_t
  pincodeEntry :: bool
  wireless_report_protocol :: bool
  wireless_event_queue :: "wireless_event_t list"
  wireless_event_queue_head :: nat
  wireless_event_queue_tail :: nat
  reports_out :: report_buffer
  keymap_config_raw :: u16

text \<open>What the other parts answer while an operation runs.\<close>

record wireless_env =
  battery_is_critical_low :: bool
  battery_is_empty :: bool
  battery_get_percentage :: u8
  timer_read32 :: u32
  indicator_is_running :: bool
  eeconfig_read_keymap :: u16

datatype wcall =
  Transport transport_call | Connect_ex u8 u16 | Pairing_ex u8 | Disconnect | Send_system u16 | Send_mouse report_mouse_t |
  Update_bat_level u8 | Transport_task | Indicator_init | Indicator_task | Indicator_set wt_state_t u8 | Indicator_battery_low_enable bool |
  Led_update_kb u8 | Clear_keyboard | Battery_init | Battery_task | Lpm_init | Lpm_reset | Lpm_task | Wait_ms nat | Common_task |
  Kb_reset u8 | Kb_discoverable u8 | Kb_reconnecting u8 | Kb_connected u8 | Kb_disconnected u8 | Kb_pin_entry | Kb_pin_exit | Kb_sleep

type_synonym wop = "wireless_env \<Rightarrow> wireless \<Rightarrow> wcall list \<times> wireless"

definition no_event :: wireless_event_t where
  "no_event = \<lparr>evt_type = EVT_NONE, params = 0\<rparr>"

definition wireless_event_queue_init :: "wireless \<Rightarrow> wireless" where
  "wireless_event_queue_init s =
     s\<lparr>wireless_event_queue := replicate WT_EVENT_QUEUE_SIZE no_event, wireless_event_queue_head := 0, wireless_event_queue_tail := 0\<rparr>"

definition wireless_event_enqueue :: "wireless_event_t \<Rightarrow> wireless \<Rightarrow> wireless" where
  "wireless_event_enqueue event s =
     (let next = (wireless_event_queue_head s + 1) mod WT_EVENT_QUEUE_SIZE;
          s = (if next = wireless_event_queue_tail s
               then s\<lparr>wireless_event_queue_tail := (wireless_event_queue_tail s + 1) mod WT_EVENT_QUEUE_SIZE\<rparr> else s)
      in s\<lparr>wireless_event_queue := (wireless_event_queue s)[wireless_event_queue_head s := event],
           wireless_event_queue_head := next\<rparr>)"

definition wireless_event_dequeue :: "wireless \<Rightarrow> (wireless_event_t \<times> wireless) option" where
  "wireless_event_dequeue s =
     (if wireless_event_queue_head s = wireless_event_queue_tail s then None
      else Some (wireless_event_queue s ! wireless_event_queue_tail s,
             s\<lparr>wireless_event_queue_tail := (wireless_event_queue_tail s + 1) mod WT_EVENT_QUEUE_SIZE\<rparr>))"

definition wireless_init :: wop where
  "wireless_init e s =
     (let s = s\<lparr>wireless_state := WT_INITIALIZED\<rparr>;
          s = wireless_event_queue_init s
      in ([Indicator_init, Battery_init, Lpm_init], s\<lparr>reports_out := report_buffer_init (timer_read32 e) (reports_out s)\<rparr>))"

definition wireless_pairing_ex :: "u8 \<Rightarrow> wop" where
  "wireless_pairing_ex host_idx e s =
     (if battery_is_critical_low e then ([], s)
      else ([Pairing_ex host_idx], s\<lparr>wireless_state := WT_PARING, host_index := host_idx\<rparr>))"

definition wireless_pairing :: wop where
  "wireless_pairing e s =
     (if battery_is_critical_low e then ([], s)
      else let (calls, s) = wireless_pairing_ex 0 e s in (calls, s\<lparr>wireless_state := WT_PARING\<rparr>))"

definition wireless_connect :: wop where
  "wireless_connect e s =
     (if battery_is_critical_low e \<or> timer_read32 e = 0 then ([], s)
      else ((if wireless_state s = WT_RECONNECTING \<and> \<not> indicator_is_running e
             then [Indicator_set (wireless_state s) (host_index s)] else []) @ [Connect_ex 0 0],
            s\<lparr>wireless_state := WT_RECONNECTING\<rparr>))"

definition wireless_connect_ex :: "u8 \<Rightarrow> u16 \<Rightarrow> wop" where
  "wireless_connect_ex host_idx timeout e s =
     (if battery_is_critical_low e then ([], s)
      else if host_idx \<noteq> 0 \<and> host_index s = host_idx \<and> wireless_state s = WT_CONNECTED then ([], s)
      else let s = (if host_idx \<noteq> 0 then s\<lparr>host_index := host_idx, led_state := 0\<rparr> else s)
           in ([Connect_ex host_idx timeout], s\<lparr>wireless_state := WT_RECONNECTING\<rparr>))"

definition wireless_disconnect :: wop where
  "wireless_disconnect e s = ([Disconnect], s)"

definition wireless_enter_reset :: "u8 \<Rightarrow> wop" where
  "wireless_enter_reset reason e s = ([Kb_reset reason], s\<lparr>wireless_state := WT_RESET\<rparr>)"

definition wireless_enter_discoverable :: "u8 \<Rightarrow> wop" where
  "wireless_enter_discoverable host_idx e s =
     (let s = s\<lparr>host_index := host_idx, wireless_state := WT_PARING\<rparr>
      in ([Indicator_set (wireless_state s) host_idx, Kb_discoverable host_idx], s))"

definition wireless_enter_reconnecting :: "u8 \<Rightarrow> wop" where
  "wireless_enter_reconnecting host_idx e s =
     (let s = s\<lparr>host_index := host_idx, wireless_state := WT_RECONNECTING\<rparr>
      in ([Indicator_set (wireless_state s) host_idx, Kb_reconnecting host_idx], s))"

definition wireless_enter_connected :: "u8 \<Rightarrow> wop" where
  "wireless_enter_connected host_idx e s =
     (let s = s\<lparr>wireless_state := WT_CONNECTED, host_index := host_idx\<rparr>
      in ([Indicator_set (wireless_state s) host_idx, Clear_keyboard, Kb_connected host_idx] @
          (if battery_is_empty e then [Indicator_battery_low_enable True] else []) @
          [Update_bat_level (battery_get_percentage e)], s))"

definition wireless_enter_disconnected :: "u8 \<Rightarrow> wop" where
  "wireless_enter_disconnected host_idx e s =
     (let previous_state = wireless_state s;
          s = s\<lparr>led_state := 0\<rparr>;
          s' = s\<lparr>wireless_state := WT_DISCONNECTED, reports_out := (report_buffer_init (timer_read32 e) (reports_out s))\<lparr>retry := 0\<rparr>\<rparr>
      in ([Led_update_kb (led_state s)] @
          (if previous_state = WT_CONNECTED then [Lpm_reset, Indicator_set WT_SUSPEND host_idx]
           else [Indicator_set (wireless_state s') host_idx]) @
          [Kb_disconnected host_idx, Indicator_battery_low_enable False], s'))"

definition wireless_enter_bluetooth_pin_code_entry :: wop where
  "wireless_enter_bluetooth_pin_code_entry e s =
     ([Kb_pin_entry], s\<lparr>keymap_config_raw := unset_bit 7 (keymap_config_raw s), pincodeEntry := True\<rparr>)"

definition wireless_exit_bluetooth_pin_code_entry :: wop where
  "wireless_exit_bluetooth_pin_code_entry e s =
     ([Kb_pin_exit], s\<lparr>keymap_config_raw := eeconfig_read_keymap e, pincodeEntry := False\<rparr>)"

definition wireless_enter_sleep :: wop where
  "wireless_enter_sleep e s =
     (let s = s\<lparr>led_state := 0\<rparr>
      in if wireless_state s = WT_PARING
         then ([Kb_sleep, Indicator_set WT_SUSPEND 0, Indicator_battery_low_enable False], s\<lparr>wireless_state := WT_SUSPEND\<rparr>)
         else ([], s))"

definition wireless_hid_set_protocol :: "bool \<Rightarrow> wireless \<Rightarrow> wireless" where
  "wireless_hid_set_protocol report_protocol s = s\<lparr>wireless_report_protocol := False\<rparr>"

definition wreless_keyboard_leds :: "wireless \<Rightarrow> u8" where
  "wreless_keyboard_leds s = (if wireless_state s = WT_CONNECTED then led_state s else 0)"

text \<open>The result of \<^verbatim>\<open>report_buffer_enqueue\<close> is not used.\<close>

definition buffer_report :: "report_buffer_t \<Rightarrow> wireless \<Rightarrow> wireless" where
  "buffer_report r s = s\<lparr>reports_out := snd (report_buffer_enqueue r (reports_out s))\<rparr>"

definition wireless_send_keyboard :: "report_keyboard_t \<Rightarrow> wop" where
  "wireless_send_keyboard report e s =
     (if battery_is_critical_low e then ([], s)
      else if wireless_state s = WT_PARING \<and> \<not> pincodeEntry s then ([], s)
      else if wireless_state s = WT_CONNECTED \<or> wireless_state s = WT_PARING \<and> pincodeEntry s
      then ([], buffer_report (REPORT_TYPE_KB report) s)
      else if wireless_state s \<noteq> WT_RESET then wireless_connect e s else ([], s))"

definition wireless_send_nkro :: "report_nkro_t \<Rightarrow> wop" where
  "wireless_send_nkro report e s =
     (if battery_is_critical_low e then ([], s)
      else if wireless_state s = WT_PARING \<and> \<not> pincodeEntry s then ([], s)
      else if wireless_state s = WT_CONNECTED \<or> wireless_state s = WT_PARING \<and> pincodeEntry s
      then ([Transport (Send_nkro report)], buffer_report (REPORT_TYPE_NKRO report) s)
      else if wireless_state s \<noteq> WT_RESET then wireless_connect e s else ([], s))"

definition wireless_send_mouse :: "report_mouse_t \<Rightarrow> wop" where
  "wireless_send_mouse report e s =
     (if battery_is_critical_low e then ([], s)
      else if wireless_state s = WT_CONNECTED then ([Send_mouse report], s)
      else if wireless_state s \<noteq> WT_RESET then wireless_connect e s else ([], s))"

definition wireless_send_system :: "u16 \<Rightarrow> wop" where
  "wireless_send_system data e s =
     (if wireless_state s = WT_CONNECTED then ([Send_system data], s)
      else if wireless_state s \<noteq> WT_RESET then wireless_connect e s else ([], s))"

definition wireless_send_consumer :: "u16 \<Rightarrow> wop" where
  "wireless_send_consumer data e s =
     (if wireless_state s = WT_CONNECTED then
        if report_buffer_is_empty (reports_out s) \<and> report_buffer_next_inverval (timer_read32 e) (reports_out s)
        then ([Transport (Send_consumer data)], s\<lparr>reports_out := report_buffer_update_timer (timer_read32 e) (reports_out s)\<rparr>)
        else ([], buffer_report (REPORT_TYPE_CONSUMER data) s)
      else if wireless_state s \<noteq> WT_RESET then wireless_connect e s else ([], s))"

definition wireless_send_extra :: "report_extra_t \<Rightarrow> wop" where
  "wireless_send_extra report e s =
     (if battery_is_critical_low e then ([], s)
      else if extra_report_id report = REPORT_ID_SYSTEM then wireless_send_system (usage report) e s
      else if extra_report_id report = REPORT_ID_CONSUMER then wireless_send_consumer (usage report) e s
      else ([], s))"

text \<open>\<open>wireless_event\<close> is the body of the loop of \<^verbatim>\<open>wireless_event_task\<close>.\<close>

definition wireless_event :: "wireless_event_t \<Rightarrow> wop" where
  "wireless_event event e s =
     (case evt_type event of
        EVT_RESET \<Rightarrow> wireless_enter_reset (params event) e s
      | EVT_CONNECTED \<Rightarrow> wireless_enter_connected (params event) e s
      | EVT_DISCOVERABLE \<Rightarrow> wireless_enter_discoverable (params event) e s
      | EVT_RECONNECTING \<Rightarrow> wireless_enter_reconnecting (params event) e s
      | EVT_DISCONNECTED \<Rightarrow> wireless_enter_disconnected (params event) e s
      | EVT_BT_PINCODE_ENTRY \<Rightarrow> wireless_enter_bluetooth_pin_code_entry e s
      | EVT_EXIT_BT_PINCODE_ENTRY \<Rightarrow> wireless_exit_bluetooth_pin_code_entry e s
      | EVT_SLEEP \<Rightarrow> wireless_enter_sleep e s
      | EVT_HID_INDICATOR \<Rightarrow> ([], s\<lparr>led_state := params event\<rparr>)
      | EVT_HID_SET_PROTOCOL \<Rightarrow> ([], wireless_hid_set_protocol (params event \<noteq> 0) s)
      | EVT_CONECTION_INTERVAL \<Rightarrow> ([], s\<lparr>reports_out := report_buffer_set_inverval (params event) (reports_out s)\<rparr>)
      | EVT_NONE \<Rightarrow> ([], s))"

text \<open>The loop runs until the queue is empty; it would run forever on indices outside the ring.\<close>

partial_function (option) wireless_event_task :: "wireless_env \<Rightarrow> wireless \<Rightarrow> (wcall list \<times> wireless) option" where
  "wireless_event_task e s =
     (case wireless_event_dequeue s of
        None \<Rightarrow> Some ([], s)
      | Some (event, s) \<Rightarrow>
          Option.bind (wireless_event_task e (snd (wireless_event event e s)))
            (\<lambda>(calls, s'). Some (fst (wireless_event event e s) @ calls, s')))"

definition wireless_low_battery_shutdown :: wop where
  "wireless_low_battery_shutdown e s =
     ([Indicator_battery_low_enable False, Clear_keyboard, Wait_ms 50] @
      (if bit (keymap_config_raw s) 7 then [Transport (Send_nkro \<lparr>nkro_report_id = 0, nkro_mods = 0, bits = replicate 30 0\<rparr>)]
       else [Transport (Send_keyboard \<lparr>kb_mods = 0, kb_reserved = 0, keys = replicate 6 0\<rparr>)]) @
      [Wait_ms 10, Transport (Send_consumer 0), Wait_ms 10, Send_mouse \<lparr>mouse_buttons = 0, mouse_x = 0, mouse_y = 0, mouse_v = 0, mouse_h = 0\<rparr>,
       Wait_ms 300, Disconnect],
      s\<lparr>reports_out := report_buffer_init (timer_read32 e) (reports_out s)\<rparr>)"

text \<open>\<open>deliver\<close> is \<^verbatim>\<open>wireless_transport.task\<close>: the driver of the module reads its packets and enqueues events.\<close>

definition wireless_task :: "(wireless \<Rightarrow> wireless) \<Rightarrow> wireless_env \<Rightarrow> wireless \<Rightarrow> (wcall list \<times> wireless) option" where
  "wireless_task deliver e s =
     Option.bind (wireless_event_task e (deliver s)) (\<lambda>(calls, s).
       let (sends, b) = report_buffer_task True (wireless_state s = WT_CONNECTED) (timer_read32 e) (reports_out s)
       in Some (Transport_task # calls @ map Transport sends @ [Indicator_task, Common_task, Battery_task, Lpm_task],
                s\<lparr>reports_out := b\<rparr>))"

section \<open>The event queue\<close>

definition wq_inv :: "wireless \<Rightarrow> bool" where
  "wq_inv s \<longleftrightarrow> length (wireless_event_queue s) = WT_EVENT_QUEUE_SIZE \<and>
     wireless_event_queue_head s < WT_EVENT_QUEUE_SIZE \<and> wireless_event_queue_tail s < WT_EVENT_QUEUE_SIZE"

definition wq_contents :: "wireless \<Rightarrow> wireless_event_t list" where
  "wq_contents s = ring_list WT_EVENT_QUEUE_SIZE (wireless_event_queue s) (wireless_event_queue_head s) (wireless_event_queue_tail s)"

lemma event_queue_size [simp]: "1 < WT_EVENT_QUEUE_SIZE" "0 < WT_EVENT_QUEUE_SIZE"
  by (simp_all add: WT_EVENT_QUEUE_SIZE_def)

interpretation wq: overwriting_queue wq_inv wq_contents "WT_EVENT_QUEUE_SIZE - 1" wireless_event_dequeue wireless_event_enqueue
proof (unfold_locales, goal_cases)
  case (1 q)
  then show ?case
    using ring_size_less [of "wireless_event_queue_head q" WT_EVENT_QUEUE_SIZE "wireless_event_queue_tail q"]
    by (simp add: wq_inv_def wq_contents_def)
next
  case (2 q)
  then show ?case
    by (simp add: wq_inv_def wq_contents_def wireless_event_dequeue_def ring_list_empty)
next
  case (3 q x q')
  then show ?case
    using ring_list_pop [of "wireless_event_queue_head q" WT_EVENT_QUEUE_SIZE "wireless_event_queue_tail q" "wireless_event_queue q"]
    by (auto simp: wq_inv_def wq_contents_def wireless_event_dequeue_def split: if_splits)
next
  case (4 q x)
  let ?h = "wireless_event_queue_head q" and ?t = "wireless_event_queue_tail q"
  have i: "?h < WT_EVENT_QUEUE_SIZE" "?t < WT_EVENT_QUEUE_SIZE" "length (wireless_event_queue q) = WT_EVENT_QUEUE_SIZE"
    using 4 by (simp_all add: wq_inv_def)
  show ?case
  proof (cases "(?h + 1) mod WT_EVENT_QUEUE_SIZE = ?t")
    case True
    with i ring_list_drop_first [OF i True event_queue_size(1), of x] ring_size_full [OF i(1,2)] show ?thesis
      by (auto simp: wq_inv_def wq_contents_def wireless_event_enqueue_def Let_def)
  next
    case False
    with i ring_list_push [OF i False, of x] ring_size_full [OF i(1,2)] ring_size_less [OF i(1), of ?t] show ?thesis
      by (auto simp: wq_inv_def wq_contents_def wireless_event_enqueue_def Let_def)
  qed
qed

text \<open>The events one after the other.\<close>

primrec wireless_events :: "wireless_env \<Rightarrow> wireless_event_t list \<Rightarrow> wireless \<Rightarrow> wcall list \<times> wireless" where
  "wireless_events e [] s = ([], s)"
| "wireless_events e (ev # evs) s =
     (let (calls, s) = wireless_event ev e s; (more, s) = wireless_events e evs s in (calls @ more, s))"

lemmas wireless_handler_defs =
  wireless_enter_reset_def wireless_enter_discoverable_def wireless_enter_reconnecting_def wireless_enter_connected_def
  wireless_enter_disconnected_def wireless_enter_bluetooth_pin_code_entry_def wireless_exit_bluetooth_pin_code_entry_def
  wireless_enter_sleep_def wireless_hid_set_protocol_def

text \<open>The handlers neither read nor write the queue.\<close>

lemma wireless_event_tail:
  "wireless_event ev e (s\<lparr>wireless_event_queue_tail := t\<rparr>) =
    apsnd (\<lambda>s. s\<lparr>wireless_event_queue_tail := t\<rparr>) (wireless_event ev e s)"
  by (simp add: wireless_event_def wireless_handler_defs Let_def split: event_type_t.split)

lemma wireless_event_queue_frame:
  "wireless_event_queue (snd (wireless_event ev e s)) = wireless_event_queue s"
  "wireless_event_queue_head (snd (wireless_event ev e s)) = wireless_event_queue_head s"
  "wireless_event_queue_tail (snd (wireless_event ev e s)) = wireless_event_queue_tail s"
  by (simp_all add: wireless_event_def wireless_handler_defs Let_def split: event_type_t.split)

lemma wireless_events_tail:
  "wireless_events e evs (s\<lparr>wireless_event_queue_tail := t\<rparr>) =
    apsnd (\<lambda>s. s\<lparr>wireless_event_queue_tail := t\<rparr>) (wireless_events e evs s)"
  by (induction evs arbitrary: s) (simp_all add: wireless_event_tail apsnd_def map_prod_def split: prod.splits)

lemma wireless_events_queue_frame:
  "wireless_event_queue_head (snd (wireless_events e evs s)) = wireless_event_queue_head s"
  using wireless_event_queue_frame by (induction evs arbitrary: s) (simp_all split: prod.splits, metis snd_conv)

lemma wireless_event_task_all:
  assumes "wq_inv s"
  shows "wireless_event_task e s =
    Some (apsnd (\<lambda>s'. s'\<lparr>wireless_event_queue_tail := wireless_event_queue_head s\<rparr>) (wireless_events e (wq_contents s) s))"
  using assms
proof (induction "wq_contents s" arbitrary: s)
  case Nil
  then have "wireless_event_dequeue s = None" and "wireless_event_queue_tail s = wireless_event_queue_head s"
    using wq.dequeue_None [OF Nil.prems] by (auto simp: wireless_event_dequeue_def split: if_splits)
  then show ?case
    using Nil.hyps by (subst wireless_event_task.simps) simp
next
  case (Cons ev evs)
  from Cons.prems show ?case
  proof (cases rule: wq.dequeue_cases)
    case 1
    then show ?thesis
      using Cons.hyps(2) by simp
  next
    case (2 x q)
    then have x: "x = ev" "wq_contents q = evs"
      using Cons.hyps(2) by auto
    define q' where "q' = snd (wireless_event ev e q)"
    have q': "wq_inv q'" "wq_contents q' = evs" "wireless_event_queue_head q' = wireless_event_queue_head q"
      using 2(2) x(2) by (simp_all add: q'_def wq_inv_def wq_contents_def wireless_event_queue_frame)
    have q: "q = s\<lparr>wireless_event_queue_tail := wireless_event_queue_tail q\<rparr>" and h: "wireless_event_queue_head q = wireless_event_queue_head s"
      using 2(1) by (auto simp: wireless_event_dequeue_def split: if_splits)
    have s: "q' = (snd (wireless_event ev e s))\<lparr>wireless_event_queue_tail := wireless_event_queue_tail q\<rparr>"
      "fst (wireless_event ev e q) = fst (wireless_event ev e s)"
      using wireless_event_tail [where ev = ev and e = e and s = s and t = "wireless_event_queue_tail q"] q by (simp_all add: q'_def)
    have "wireless_event_task e s = Option.bind (wireless_event_task e q') (\<lambda>(calls, s'). Some (fst (wireless_event ev e q) @ calls, s'))"
      using 2(1) x by (subst wireless_event_task.simps) (simp add: q'_def)
    also have "wireless_event_task e q' =
        Some (apsnd (\<lambda>s'. s'\<lparr>wireless_event_queue_tail := wireless_event_queue_head q'\<rparr>) (wireless_events e evs q'))"
      using Cons.hyps(1) [of q'] q' by simp
    finally show ?thesis
      using s q'(3) h Cons.hyps(2) [symmetric] by (simp add: wireless_events_tail split: prod.splits)
  qed
qed

text \<open>C36: However many events the driver enqueues on an empty queue, \<^verbatim>\<open>wireless_event_task\<close> returns, handles the most recent 15
  of them in the order of their arrival, and leaves the queue empty.\<close>

theorem wireless_event_task_latest:
  assumes "wq_inv s" and "wq_contents s = []" and "q = fold wireless_event_enqueue evs s"
    and "(calls, s') = wireless_events e (drop (length evs - 15) evs) q"
  shows "wireless_event_task e q = Some (calls, s'\<lparr>wireless_event_queue_tail := wireless_event_queue_head s'\<rparr>)"
proof -
  have "wq_inv q \<and> wq_contents q = drop (length evs - 15) evs"
    unfolding assms(3) using wq.enqueue_many [OF assms(1), where xs = evs] assms(2) by (simp add: WT_EVENT_QUEUE_SIZE_def)
  moreover have "wireless_event_queue_head s' = wireless_event_queue_head q"
    using wireless_events_queue_frame [of e "drop (length evs - 15) evs" q] by (simp flip: assms(4))
  ultimately show ?thesis
    using wireless_event_task_all [where s = q and e = e] by (simp flip: assms(4))
qed

text \<open>A state after power-on.\<close>

definition wireless_sample :: wireless where
  "wireless_sample = \<lparr>host_index = 0, led_state = 0, wireless_state = WT_RESET, pincodeEntry = False, wireless_report_protocol = True,
     wireless_event_queue = replicate WT_EVENT_QUEUE_SIZE no_event, wireless_event_queue_head = 0, wireless_event_queue_tail = 0,
     reports_out = report_buffer_init 0 rb_sample, keymap_config_raw = 0\<rparr>"

definition wireless_env_sample :: wireless_env where
  "wireless_env_sample = \<lparr>battery_is_critical_low = False, battery_is_empty = False, battery_get_percentage = 80, timer_read32 = 100,
     indicator_is_running = False, eeconfig_read_keymap = 0\<rparr>"

definition wireless_sample_events :: "wireless_event_t list" where
  "wireless_sample_events = \<lparr>evt_type = EVT_CONNECTED, params = 2\<rparr> # replicate 15 \<lparr>evt_type = EVT_HID_INDICATOR, params = 1\<rparr>"

lemma wireless_sample_inv: "wq_inv wireless_sample \<and> wq_contents wireless_sample = []"
  by (simp add: wireless_sample_def wq_inv_def wq_contents_def ring_list_empty)

theorem wireless_event_task_latest_witness:
  "\<exists>s'. wireless_event_task wireless_env_sample (fold wireless_event_enqueue wireless_sample_events wireless_sample) = Some ([], s') \<and>
    wireless_state s' = WT_RESET \<and> led_state s' = 1"
proof -
  obtain calls s' where e: "(calls, s') = wireless_events wireless_env_sample (drop (length wireless_sample_events - 15) wireless_sample_events)
      (fold wireless_event_enqueue wireless_sample_events wireless_sample)"
    by (metis surj_pair)
  have "fst (calls, s') = [] \<and> wireless_state (snd (calls, s')) = WT_RESET \<and> led_state (snd (calls, s')) = 1"
    unfolding e by code_simp
  then show ?thesis
    using wireless_event_task_latest [OF conjunct1 [OF wireless_sample_inv] conjunct2 [OF wireless_sample_inv] refl e]
    by simp
qed

section \<open>The state machine\<close>

datatype wlabel =
  L_init | L_event wireless_event_t | L_connect | L_connect_ex u8 u16 | L_pairing | L_pairing_ex u8 | L_disconnect |
  L_keyboard report_keyboard_t | L_nkro report_nkro_t | L_mouse report_mouse_t | L_extra report_extra_t | L_report_task | L_shutdown

fun wireless_do :: "wlabel \<Rightarrow> wop" where
  "wireless_do L_init e s = wireless_init e s"
| "wireless_do (L_event ev) e s = wireless_event ev e s"
| "wireless_do L_connect e s = wireless_connect e s"
| "wireless_do (L_connect_ex h t) e s = wireless_connect_ex h t e s"
| "wireless_do L_pairing e s = wireless_pairing e s"
| "wireless_do (L_pairing_ex h) e s = wireless_pairing_ex h e s"
| "wireless_do L_disconnect e s = wireless_disconnect e s"
| "wireless_do (L_keyboard r) e s = wireless_send_keyboard r e s"
| "wireless_do (L_nkro r) e s = wireless_send_nkro r e s"
| "wireless_do (L_mouse r) e s = wireless_send_mouse r e s"
| "wireless_do (L_extra r) e s = wireless_send_extra r e s"
| "wireless_do L_report_task e s =
     (let (sends, b) = report_buffer_task True (wireless_state s = WT_CONNECTED) (timer_read32 e) (reports_out s)
      in (map Transport sends, s\<lparr>reports_out := b\<rparr>))"
| "wireless_do L_shutdown e s = wireless_low_battery_shutdown e s"

text \<open>Runs of the machine, with the operations performed and what the environment answered.\<close>

inductive wireless_run :: "wireless \<Rightarrow> (wlabel \<times> wireless_env) list \<Rightarrow> wireless \<Rightarrow> bool" where
  start: "wireless_run s [] s"
| step: "wireless_run s tr s1 \<Longrightarrow> wireless_do l e s1 = (calls, s2) \<Longrightarrow> wireless_run s (tr @ [(l, e)]) s2"

text \<open>The operations that leave a connection to host \<open>h\<close> alone.\<close>

fun keeps_connection :: "u8 \<Rightarrow> wlabel \<times> wireless_env \<Rightarrow> bool" where
  "keeps_connection h (L_event ev, e) \<longleftrightarrow>
     evt_type ev \<notin> {EVT_RESET, EVT_DISCOVERABLE, EVT_RECONNECTING, EVT_CONNECTED, EVT_DISCONNECTED}"
| "keeps_connection h (L_init, e) \<longleftrightarrow> False"
| "keeps_connection h (L_connect, e) \<longleftrightarrow> battery_is_critical_low e \<or> timer_read32 e = 0"
| "keeps_connection h (L_connect_ex h' t, e) \<longleftrightarrow> battery_is_critical_low e \<or> h' \<noteq> 0 \<and> h' = h"
| "keeps_connection h (L_pairing, e) \<longleftrightarrow> battery_is_critical_low e"
| "keeps_connection h (L_pairing_ex h', e) \<longleftrightarrow> battery_is_critical_low e"
| "keeps_connection h (_, e) \<longleftrightarrow> True"

definition connected_event :: "u8 \<Rightarrow> wlabel \<times> wireless_env \<Rightarrow> bool" where
  "connected_event h x \<longleftrightarrow> (\<exists>e. x = (L_event \<lparr>evt_type = EVT_CONNECTED, params = h\<rparr>, e))"

lemmas wireless_op_defs =
  wireless_init_def wireless_event_queue_init_def wireless_connect_def wireless_connect_ex_def wireless_pairing_def
  wireless_pairing_ex_def wireless_disconnect_def wireless_send_keyboard_def wireless_send_nkro_def wireless_send_mouse_def
  wireless_send_extra_def wireless_send_system_def wireless_send_consumer_def wireless_low_battery_shutdown_def buffer_report_def

text \<open>Only the event \<^verbatim>\<open>EVT_CONNECTED\<close> makes the machine connected; every other operation that leaves it connected
  started from a connected state, kept the host, and is one of those listed.\<close>

lemma wireless_do_connected:
  assumes "wireless_do l e s = (calls, s')" and "wireless_state s' = WT_CONNECTED"
  shows "connected_event (host_index s') (l, e) \<or>
    wireless_state s = WT_CONNECTED \<and> host_index s' = host_index s \<and> keeps_connection (host_index s') (l, e)"
proof (cases l)
  case (L_event ev)
  then show ?thesis
    using assms by (cases ev; cases "evt_type ev")
      (auto simp: connected_event_def wireless_event_def wireless_handler_defs Let_def split: if_splits)
next
  case (L_extra r)
  then show ?thesis
    using assms by (auto simp: wireless_op_defs split: if_splits)
next
  case (L_report_task)
  then show ?thesis
    using assms by (auto split: prod.splits)
qed (use assms in \<open>auto simp: wireless_op_defs Let_def split: if_splits\<close>)

text \<open>C13: The keyboard believes it is connected to a host only since the module reported that connection: some \<^verbatim>\<open>EVT_CONNECTED\<close>
  carried the index of the current host, and after it there was no reset, disconnection, pairing or connection event or request that
  took effect.\<close>

theorem wireless_connected_only_by_event:
  assumes "wireless_run s0 tr s" and "wireless_state s0 \<noteq> WT_CONNECTED" and "wireless_state s = WT_CONNECTED"
  shows "\<exists>before x after. tr = before @ x # after \<and> connected_event (host_index s) x \<and> list_all (keeps_connection (host_index s)) after"
  using assms
proof (induction rule: wireless_run.induct)
  case (start s)
  then show ?case
    by simp
next
  case (step s tr s1 l e calls s2)
  from wireless_do_connected [OF step.hyps(2) step.prems(2)] show ?case
  proof
    assume "connected_event (host_index s2) (l, e)"
    then show ?thesis
      by (intro exI [of _ tr] exI [of _ "(l, e)"] exI [of _ "[]"]) simp
  next
    assume k: "wireless_state s1 = WT_CONNECTED \<and> host_index s2 = host_index s1 \<and> keeps_connection (host_index s2) (l, e)"
    then obtain before x rest where "tr = before @ x # rest" "connected_event (host_index s1) x"
      "list_all (keeps_connection (host_index s1)) rest"
      using step.IH step.prems(1) by blast
    with k have "tr @ [(l, e)] = before @ x # (rest @ [(l, e)]) \<and> connected_event (host_index s2) x \<and>
        list_all (keeps_connection (host_index s2)) (rest @ [(l, e)])"
      by auto
    then show ?thesis
      by blast
  qed
qed

theorem wireless_connected_only_by_event_witness:
  "\<exists>s. wireless_run wireless_sample [(L_init, wireless_env_sample), (L_event \<lparr>evt_type = EVT_CONNECTED, params = 2\<rparr>, wireless_env_sample)] s \<and>
    wireless_state s = WT_CONNECTED \<and> host_index s = 2 \<and>
    (\<exists>before x after. [(L_init, wireless_env_sample), (L_event \<lparr>evt_type = EVT_CONNECTED, params = 2\<rparr>, wireless_env_sample)] = before @ x # after \<and>
       connected_event 2 x \<and> list_all (keeps_connection 2) after)"
proof -
  let ?l1 = "(L_init, wireless_env_sample)" and ?ev = "\<lparr>evt_type = EVT_CONNECTED, params = 2\<rparr> :: wireless_event_t"
  let ?l2 = "(L_event ?ev, wireless_env_sample)"
  let ?s1 = "snd (wireless_init wireless_env_sample wireless_sample)"
  let ?s2 = "snd (wireless_event ?ev wireless_env_sample ?s1)"
  have "wireless_run wireless_sample ([] @ [?l1]) ?s1"
    by (rule wireless_run.step [OF wireless_run.start, of _ _ _ "fst (wireless_init wireless_env_sample wireless_sample)"]) simp
  then have r: "wireless_run wireless_sample (([] @ [?l1]) @ [?l2]) ?s2"
    by (rule wireless_run.step [of _ _ _ _ _ "fst (wireless_event ?ev wireless_env_sample ?s1)"]) simp
  have s: "wireless_state ?s2 = WT_CONNECTED" "host_index ?s2 = 2"
    by (simp_all add: wireless_event_def wireless_enter_connected_def Let_def)
  have "wireless_state wireless_sample \<noteq> WT_CONNECTED"
    by (simp add: wireless_sample_def)
  from wireless_connected_only_by_event [OF r this s(1)] r s show ?thesis
    by auto
qed

section \<open>From a report to the module\<close>

lemma buffer_report_contents:
  assumes "rb_inv (reports_out s)"
  shows "rb_inv (reports_out (buffer_report r s)) \<and>
    rb_contents (reports_out (buffer_report r s)) =
      (if length (rb_contents (reports_out s)) < 255 then rb_contents (reports_out s) @ [r] else rb_contents (reports_out s))"
proof -
  obtain ok b where e: "report_buffer_enqueue r (reports_out s) = (ok, b)"
    by fastforce
  from rbq.enqueue_law [OF assms e] show ?thesis
    by (auto simp: buffer_report_def e REPORT_BUFFER_QUEUE_SIZE_def)
qed

text \<open>What becomes of a keyboard report: with a critically low battery, before the module is up, and while pairing without a pin
  code it is dropped; while connected, or while a pin code is typed, it joins the buffer unless that already
  holds 255 reports, and then it is lost; in every other state it is lost too, and the keyboard asks the module to reconnect.\<close>

theorem wireless_send_keyboard_cases:
  assumes "rb_inv (reports_out s)" and "wireless_send_keyboard r e s = (calls, s')"
  shows "if battery_is_critical_low e \<or> wireless_state s = WT_RESET \<or> wireless_state s = WT_PARING \<and> \<not> pincodeEntry s
    then calls = [] \<and> s' = s
    else if wireless_state s = WT_CONNECTED \<or> wireless_state s = WT_PARING
    then calls = [] \<and> wireless_state s' = wireless_state s \<and>
      rb_contents (reports_out s') = rb_contents (reports_out s) @ (if length (rb_contents (reports_out s)) < 255 then [REPORT_TYPE_KB r] else [])
    else reports_out s' = reports_out s \<and>
      (if timer_read32 e = 0 then calls = [] \<and> s' = s else last calls = Connect_ex 0 0 \<and> wireless_state s' = WT_RECONNECTING)"
  using assms buffer_report_contents [OF assms(1), of "REPORT_TYPE_KB r"]
  by (auto simp: wireless_send_keyboard_def wireless_connect_def buffer_report_def split: if_splits)

definition wireless_sample_connected :: wireless where
  "wireless_sample_connected = wireless_sample\<lparr>wireless_state := WT_CONNECTED, host_index := 1\<rparr>"

definition sample_report :: report_keyboard_t where
  "sample_report = \<lparr>kb_mods = 0, kb_reserved = 0, keys = [4, 0, 0, 0, 0, 0]\<rparr>"

lemma wireless_sample_connected_rb: "rb_inv (reports_out wireless_sample_connected)"
  by (simp add: wireless_sample_connected_def wireless_sample_def rb_inv_def report_buffer_init_def)

theorem wireless_send_keyboard_cases_witness:
  "\<exists>s'. wireless_send_keyboard sample_report wireless_env_sample wireless_sample_connected = ([], s') \<and>
    rb_contents (reports_out s') = rb_contents (reports_out wireless_sample_connected) @ [REPORT_TYPE_KB sample_report]"
proof -
  obtain calls s' where e: "wireless_send_keyboard sample_report wireless_env_sample wireless_sample_connected = (calls, s')"
    by fastforce
  have "length (rb_contents (reports_out wireless_sample_connected)) < 255"
    by code_simp
  with wireless_send_keyboard_cases [OF wireless_sample_connected_rb e] e show ?thesis
    by (auto simp: wireless_sample_connected_def wireless_env_sample_def)
qed

text \<open>An idle wireless connection: nothing queued, nothing to send again.\<close>

definition wireless_idle :: "wireless \<Rightarrow> bool" where
  "wireless_idle s \<longleftrightarrow> wireless_state s = WT_CONNECTED \<and> wq_inv s \<and> wq_contents s = [] \<and> rb_inv (reports_out s) \<and>
     rb_contents (reports_out s) = [] \<and> retry (reports_out s) = 0"

lemma buffer_report_frame:
  "wireless_event_queue (buffer_report r s) = wireless_event_queue s" "wireless_event_queue_head (buffer_report r s) = wireless_event_queue_head s"
  "wireless_event_queue_tail (buffer_report r s) = wireless_event_queue_tail s" "wireless_state (buffer_report r s) = wireless_state s"
  "report_timer_buffer (reports_out (buffer_report r s)) = report_timer_buffer (reports_out s)"
  "report_interval (reports_out (buffer_report r s)) = report_interval (reports_out s)"
  "retry (reports_out (buffer_report r s)) = retry (reports_out s)"
  by (simp_all add: buffer_report_def report_buffer_enqueue_def Let_def)

text \<open>The task on a connection with one waiting report and no event.\<close>

lemma wireless_task_sends:
  assumes "wq_inv s" and "wq_contents s = []" and "wireless_state s = WT_CONNECTED" and "rb_inv (reports_out s)"
    and "rb_contents (reports_out s) = [x]" and "x \<noteq> REPORT_TYPE_NONE" and "retry (reports_out s) = 0"
    and "2 < timer_read32 e" and "report_buffer_next_inverval (timer_read32 e) (reports_out s)"
  shows "\<exists>s'. wireless_task (\<lambda>s. s) e s =
    Some (Transport_task # map Transport (report_buffer_send True x @ [Lpm_timer_reset]) @ [Indicator_task, Common_task, Battery_task, Lpm_task], s') \<and>
    rb_contents (reports_out s') = [] \<and> wireless_state s' = WT_CONNECTED"
proof -
  let ?b = "reports_out s"
  have "\<not> report_buffer_is_empty ?b"
    using assms(4,5) by (simp add: is_empty_contents)
  moreover obtain q where "report_buffer_dequeue ?b = Some (x, q)" "rb_contents q = []"
    using assms(4,5) by (cases rule: rbq.dequeue_cases) auto
  ultimately have t: "report_buffer_task True True (timer_read32 e) ?b =
      (report_buffer_send True x @ [Lpm_timer_reset],
       q\<lparr>kb_rpt := x, retry := RETPORT_RETRY_COUNT, retry_time_buffer := timer_read32 e, report_timer_buffer := timer_read32 e\<rparr>)"
    using assms(6-9) by (simp add: report_buffer_task_def report_buffer_pending_def)
  have ev: "wireless_event_task e s = Some ([], s\<lparr>wireless_event_queue_tail := wireless_event_queue_head s\<rparr>)"
    using wireless_event_task_all [OF assms(1), of e] assms(2) by simp
  show ?thesis
    using \<open>rb_contents q = []\<close> assms(3) by (simp add: wireless_task_def ev t)
qed

text \<open>C31: End to end: a report handed to the host driver of an idle connection is passed to the module by the next call of \<^verbatim>\<open>wireless_task\<close> that
  comes after the report interval and finds no event, and the buffer is empty again.\<close>

theorem wireless_key_reaches_module:
  assumes "wireless_idle s" and "\<not> battery_is_critical_low e1"
    and "2 < timer_read32 e2" and "report_buffer_next_inverval (timer_read32 e2) (reports_out s)"
  shows "\<exists>calls s'. wireless_task (\<lambda>s. s) e2 (snd (wireless_send_keyboard r e1 s)) = Some (calls, s') \<and>
    Transport (Send_keyboard r) \<in> set calls \<and> rb_contents (reports_out s') = [] \<and> wireless_state s' = WT_CONNECTED"
proof -
  let ?s = "buffer_report (REPORT_TYPE_KB r) s"
  have i: "wireless_state s = WT_CONNECTED" "wq_inv s" "wq_contents s = []" "rb_inv (reports_out s)"
    "rb_contents (reports_out s) = []" "retry (reports_out s) = 0"
    using assms(1) by (simp_all add: wireless_idle_def)
  have snd: "snd (wireless_send_keyboard r e1 s) = ?s"
    using assms(2) i(1) by (simp add: wireless_send_keyboard_def)
  have "\<exists>s'. wireless_task (\<lambda>s. s) e2 ?s = Some (Transport_task # map Transport (report_buffer_send True (REPORT_TYPE_KB r) @ [Lpm_timer_reset]) @
      [Indicator_task, Common_task, Battery_task, Lpm_task], s') \<and> rb_contents (reports_out s') = [] \<and> wireless_state s' = WT_CONNECTED"
    using i assms(3,4) buffer_report_contents [OF i(4), of "REPORT_TYPE_KB r"]
    by (intro wireless_task_sends) (simp_all add: buffer_report_frame wq_inv_def wq_contents_def report_buffer_next_inverval_def)
  then show ?thesis
    unfolding snd by (auto simp: report_buffer_send_def)
qed

theorem wireless_key_reaches_module_witness:
  "\<exists>calls s'. wireless_task (\<lambda>s. s) wireless_env_sample (snd (wireless_send_keyboard sample_report wireless_env_sample wireless_sample_connected)) =
      Some (calls, s') \<and> Transport (Send_keyboard sample_report) \<in> set calls \<and> rb_contents (reports_out s') = [] \<and> wireless_state s' = WT_CONNECTED"
proof (rule wireless_key_reaches_module)
  show "wireless_idle wireless_sample_connected"
    by code_simp
  show "\<not> battery_is_critical_low wireless_env_sample"
    by (simp add: wireless_env_sample_def)
  show "2 < timer_read32 wireless_env_sample"
    by (simp add: wireless_env_sample_def)
  show "report_buffer_next_inverval (timer_read32 wireless_env_sample) (reports_out wireless_sample_connected)"
    by code_simp
qed

end
