(* ===== verification/QMKata.thy ===== *)
theory QMKata
  imports Layers Dynamic_Keymap
begin

text \<open>
  The host protocol of this firmware (\<^verbatim>\<open>keyboards/keychron/q3_max/qmkata_sysex_handler.c\<close>, with the entry point \<^verbatim>\<open>qmkata_recv_data\<close>
  of \<^verbatim>\<open>qmkata/QMKata.cpp\<close> and the host-driven LEDs and the Mac/Windows switch of \<^verbatim>\<open>q3_max_user.c\<close>): messages from the host set and read configurations, drive
  single LEDs, select the default layer, load and call code in RAM, and read and write memory and EEPROM (\<^verbatim>\<open>DEVEL_BUILD\<close>). A handler
  returns the messages it sends and the new state; \<open>None\<close> is an access outside the message, a table or a buffer, or a call through a null pointer.
  Debug output is left out. The loaded code is the parameter \<open>run\<close>.
\<close>

section \<open>Model\<close>

subsection \<open>Constants\<close>

definition QMKATA_CMD_SET :: u8 where "QMKATA_CMD_SET = 1"
definition QMKATA_CMD_GET :: u8 where "QMKATA_CMD_GET = 2"
definition QMKATA_CMD_RESPONSE :: u8 where "QMKATA_CMD_RESPONSE = 0x0F"

definition QMKATA_ID_CONTROL :: u8 where "QMKATA_ID_CONTROL = 0xFF"
definition QMKATA_ID_RGB_MATRIX_BUF :: u8 where "QMKATA_ID_RGB_MATRIX_BUF = 1"
definition QMKATA_ID_DEFAULT_LAYER :: u8 where "QMKATA_ID_DEFAULT_LAYER = 2"
definition QMKATA_ID_CLI :: u8 where "QMKATA_ID_CLI = 3"
definition QMKATA_ID_STATUS :: u8 where "QMKATA_ID_STATUS = 4"
definition QMKATA_ID_MACWIN_MODE :: u8 where "QMKATA_ID_MACWIN_MODE = 5"
definition QMKATA_ID_STRUCT_LAYOUT :: u8 where "QMKATA_ID_STRUCT_LAYOUT = 8"
definition QMKATA_ID_CONFIG :: u8 where "QMKATA_ID_CONFIG = 9"
definition QMKATA_ID_DYNLD_FUNCTION :: u8 where "QMKATA_ID_DYNLD_FUNCTION = 250"
definition QMKATA_ID_DYNLD_FUNEXEC :: u8 where "QMKATA_ID_DYNLD_FUNEXEC = 251"

lemmas qmkata_constants =
  QMKATA_CMD_SET_def QMKATA_CMD_GET_def QMKATA_CMD_RESPONSE_def QMKATA_ID_CONTROL_def QMKATA_ID_RGB_MATRIX_BUF_def QMKATA_ID_DEFAULT_LAYER_def
  QMKATA_ID_CLI_def QMKATA_ID_STATUS_def QMKATA_ID_MACWIN_MODE_def QMKATA_ID_STRUCT_LAYOUT_def QMKATA_ID_CONFIG_def
  QMKATA_ID_DYNLD_FUNCTION_def QMKATA_ID_DYNLD_FUNEXEC_def

definition DYNLD_FUN_ID_EXEC :: nat where "DYNLD_FUN_ID_EXEC = 1"
definition DYNLD_FUN_ID_TEST :: nat where "DYNLD_FUN_ID_TEST = 2"
definition DYNLD_FUN_ID_MAX :: nat where "DYNLD_FUN_ID_MAX = 3"
definition DYNLD_FUNC_SIZE :: nat where "DYNLD_FUNC_SIZE = 1024"

subsection \<open>State\<close>

record led_entry =
  duration :: u8
  led_r :: u8
  led_g :: u8
  led_b :: u8

text \<open>\<^verbatim>\<open>rgb_matrix_host_buffer_t\<close>.\<close>

record rgb_matrix_host_buffer =
  led :: "led_entry list"
  written :: bool

text \<open>The variables the handlers reach. \<open>config_mem\<close> and \<open>status_mem\<close> are the objects of the two tables as bytes, at the indices of
  the tables; \<open>func\<close> tells which function pointers are set; \<open>ram\<close> is the memory the command line reads and writes.\<close>

record 'e qmkata =
  host_buf :: rgb_matrix_host_buffer
  layer_vars :: layers
  config_mem :: "u8 list list"
  status_mem :: "u8 list list"
  dynld_func_buf :: "u8 list list"
  func :: "bool list"
  s_keyb_user_macwin_mode :: int
  s_keyb_switch_macwin_mode :: int
  ram :: "u32 \<Rightarrow> u8"
  eeprom :: 'e

record qmkata_env =
  env_battery_percentage :: u8
  env_battery_voltage :: u16

datatype qeffect = Send_sysex u8 "u8 list" | Call_address u32 | Debug_led_on int | Send_version

type_synonym 'e qresult = "(qeffect list \<times> 'e qmkata) option"

text \<open>The bytes of a message; outside it there is nothing to read.\<close>

definition byte :: "u8 list \<Rightarrow> nat \<Rightarrow> u8 option" where
  "byte buf i = (if i < length buf then Some (buf ! i) else None)"

definition u32_at :: "u8 list \<Rightarrow> nat \<Rightarrow> u32 option" where
  "u32_at buf i = (if i + 4 \<le> length buf then Some (bytes_u32 (subarr i 4 buf)) else None)"

definition respond :: "u8 list \<Rightarrow> qeffect" where
  "respond resp = Send_sysex QMKATA_CMD_RESPONSE resp"

subsection \<open>LEDs set by the host\<close>

function set_rgb_loop :: "nat \<Rightarrow> u8 list \<Rightarrow> nat \<Rightarrow> rgb_matrix_host_buffer \<Rightarrow> rgb_matrix_host_buffer option" where
  "set_rgb_loop len buf i h =
     (if i < len then do {
        li \<leftarrow> byte buf i;
        if unat li < length (led h) then do {
          d \<leftarrow> byte buf (i + 1);
          r \<leftarrow> byte buf (i + 2);
          g \<leftarrow> byte buf (i + 3);
          b \<leftarrow> byte buf (i + 4);
          set_rgb_loop len buf (i + 5)
            (h\<lparr>led := (led h)[unat li := \<lparr>duration = d, led_r = r, led_g = g, led_b = b\<rparr>], written := True\<rparr>) }
        else Some h }
      else Some h)"
  by pat_completeness auto
termination
  by (relation "measure (\<lambda>(len, buf, i, h). len - i)") auto

declare set_rgb_loop.simps [simp del]

definition qmkata_set_rgb_matrix_buf :: "nat \<Rightarrow> u8 list \<Rightarrow> 'e qmkata \<Rightarrow> 'e qresult" where
  "qmkata_set_rgb_matrix_buf len buf s =
     do { h \<leftarrow> set_rgb_loop len buf 0 (host_buf s); Some ([], s\<lparr>host_buf := h\<rparr>) }"

text \<open>One frame: the LEDs set (index and color) and the new buffer.\<close>

definition rgb_matrix_host_buf_render :: "rgb_matrix_host_buffer \<Rightarrow> (nat \<times> u8 \<times> u8 \<times> u8) list \<times> rgb_matrix_host_buffer" where
  "rgb_matrix_host_buf_render h =
     (if \<not> written h then ([], h)
      else let (out, h, matrix_set) = for_upto (length (led h)) (\<lambda>li (out, h, matrix_set).
             let l = led h ! li
             in if 0 < duration l
                then (out @ [(li, led_r l, led_g l, led_b l)], h\<lparr>led := (led h)[li := l\<lparr>duration := duration l - 1\<rparr>]\<rparr>, True)
                else (out, h, matrix_set)) ([], h, False)
           in (out, if matrix_set then h else h\<lparr>written := False\<rparr>))"

subsection \<open>Default layer and Mac/Windows mode\<close>

text \<open>\<^verbatim>\<open>1 << buf[0]\<close> is undefined from 32 on.\<close>

definition qmkata_set_default_layer :: "u8 list \<Rightarrow> 'e qmkata \<Rightarrow> 'e qresult" where
  "qmkata_set_default_layer buf s =
     do { l \<leftarrow> byte buf 0;
          if 32 \<le> l then None else Some ([], s\<lparr>layer_vars := default_layer_set (push_bit (unat l) 1) (layer_vars s)\<rparr>) }"

definition keyb_user_set_macwin_mode :: "int \<Rightarrow> 'e qmkata \<Rightarrow> 'e qmkata" where
  "keyb_user_set_macwin_mode mode s =
     (let s = s\<lparr>s_keyb_user_macwin_mode := mode\<rparr>;
          mode = (if mode < 0 then s_keyb_switch_macwin_mode s else mode);
          layer = 0 :: nat;
          layer = (if mode = 0x6D then 0 else layer);
          layer = (if mode = 0x77 then 2 else layer)
      in s\<lparr>layer_vars := default_layer_set (push_bit layer 1) (layer_vars s)\<rparr>)"

definition keyb_user_get_macwin_mode :: "'e qmkata \<Rightarrow> int" where
  "keyb_user_get_macwin_mode s = (if s_keyb_user_macwin_mode s < 0 then s_keyb_switch_macwin_mode s else s_keyb_user_macwin_mode s)"

definition dip_switch_update_user :: "nat \<Rightarrow> bool \<Rightarrow> 'e qmkata \<Rightarrow> bool \<times> 'e qmkata" where
  "dip_switch_update_user index active s =
     (if index = 0 then
        let s = s\<lparr>s_keyb_switch_macwin_mode := (if active then 0x77 else 0x6D)\<rparr>
        in (s_keyb_user_macwin_mode s \<noteq> -1, s)
      else (False, s))"

definition dip_switch_update_kb :: "nat \<Rightarrow> bool \<Rightarrow> 'e qmkata \<Rightarrow> 'e qmkata" where
  "dip_switch_update_kb index active s =
     (let (handled, s) = dip_switch_update_user index active s
      in if handled then s
         else if index = 0 then s\<lparr>layer_vars := default_layer_set (push_bit (if active then 2 else 0) 1) (layer_vars s)\<rparr>
         else s)"

definition qmkata_set_macwin_mode :: "u8 list \<Rightarrow> 'e qmkata \<Rightarrow> 'e qresult" where
  "qmkata_set_macwin_mode buf s =
     do { m \<leftarrow> byte buf 0;
          Some ([], keyb_user_set_macwin_mode (if m = 0x2D then -1 else int (unat m)) s) }"

definition qmkata_get_macwin_mode :: "u8 \<Rightarrow> 'e qmkata \<Rightarrow> 'e qresult" where
  "qmkata_get_macwin_mode seqnum s =
     Some ([respond [seqnum, QMKATA_ID_MACWIN_MODE, word_of_int (keyb_user_get_macwin_mode s)]], s)"

subsection \<open>Status and configuration\<close>

text \<open>The sizes of the two tables (6 rows of 4 bytes, 17 columns).\<close>

definition s_status_size :: "nat list" where
  "s_status_size = [0, 6, 1, 24]"

definition s_config_size :: "nat list" where
  "s_config_size = [0, 1, 4, 8, 2, 204, 1, 4]"

text \<open>\<^verbatim>\<open>struct battery_status\<close>: level, a byte of padding, voltage, charging, a byte of padding.\<close>

definition battery_status_bytes :: "u8 \<Rightarrow> u16 \<Rightarrow> u8 \<Rightarrow> u8 list" where
  "battery_status_bytes level voltage charging = [level, 0] @ u16_bytes voltage @ [charging, 0]"

definition qmkata_get_status :: "qmkata_env \<Rightarrow> u8 \<Rightarrow> u8 list \<Rightarrow> 'e qmkata \<Rightarrow> 'e qresult" where
  "qmkata_get_status env seqnum buf s =
     do { i \<leftarrow> byte buf 0;
          if i = 0 \<or> length s_status_size \<le> unat i then Some ([], s)
          else let s = (if i = 1 then s\<lparr>status_mem := (status_mem s)[1 :=
                          battery_status_bytes (env_battery_percentage env) (env_battery_voltage env) 1]\<rparr> else s)
               in Some ([respond ([seqnum, QMKATA_ID_STATUS, i] @ take (s_status_size ! unat i) (status_mem s ! unat i))], s) }"

text \<open>Entry 5 is the keymap in flash: a store to it is not possible.\<close>

definition qmkata_set_config :: "u8 list \<Rightarrow> 'e qmkata \<Rightarrow> 'e qresult" where
  "qmkata_set_config buf s =
     do { i \<leftarrow> byte buf 0;
          if i = 0 \<or> length s_config_size \<le> unat i then Some ([], s)
          else if i = 5 \<or> length buf < 1 + s_config_size ! unat i then None
          else Some ([], s\<lparr>config_mem := (config_mem s)[unat i := subarr 1 (s_config_size ! unat i) buf]\<rparr>) }"

definition qmkata_get_config :: "u8 \<Rightarrow> u8 list \<Rightarrow> 'e qmkata \<Rightarrow> 'e qresult" where
  "qmkata_get_config seqnum buf s =
     do { i \<leftarrow> byte buf 0;
          if i = 0 \<or> length s_config_size \<le> unat i then Some ([], s)
          else Some ([respond ([seqnum, QMKATA_ID_CONFIG, i] @ take (s_config_size ! unat i) (config_mem s ! unat i))], s) }"

subsection \<open>Descriptions of the structures\<close>

text \<open>The macros that append to \<^verbatim>\<open>resp\<close>; the compiler puts the first bit field into the lowest bit.\<close>

definition STRUCT_LAYOUT :: "u8 \<Rightarrow> u8 \<Rightarrow> u8 \<Rightarrow> u8 \<Rightarrow> u8 list" where
  "STRUCT_LAYOUT lid sid sz flags = [QMKATA_ID_STRUCT_LAYOUT, lid, sid, sz, flags]"

definition BITFIELD :: "u8 \<Rightarrow> u8 \<Rightarrow> u8 \<Rightarrow> u8 list" where
  "BITFIELD fid index nbits = [fid, 1, index, nbits]"

definition BYTEFIELD :: "u8 \<Rightarrow> u8 \<Rightarrow> u8 list" where
  "BYTEFIELD fid offset = [fid, 2, offset, 1]"

definition U16FIELD :: "u8 \<Rightarrow> u8 \<Rightarrow> u8 list" where
  "U16FIELD fid offset = [fid, 3, offset, 2]"

definition ARRAYFIELD :: "u8 \<Rightarrow> u8 \<Rightarrow> u8 \<Rightarrow> u8 \<Rightarrow> u8 list" where
  "ARRAYFIELD fid type offset sz = [fid, 0x80 OR type, offset, sz]"

definition struct_layout_status :: "u8 \<Rightarrow> u8 list list" where
  "struct_layout_status seqnum =
     [[seqnum] @ STRUCT_LAYOUT QMKATA_ID_STATUS 1 6 1 @ BYTEFIELD 1 0 @ U16FIELD 2 2 @ BYTEFIELD 3 4,
      [seqnum] @ STRUCT_LAYOUT QMKATA_ID_STATUS 2 1 1 @ BYTEFIELD 1 0,
      [seqnum] @ STRUCT_LAYOUT QMKATA_ID_STATUS 3 24 1 @ ARRAYFIELD 1 4 0 6]"

definition struct_layout_config :: "u8 \<Rightarrow> u8 list list" where
  "struct_layout_config seqnum =
     [[seqnum] @ STRUCT_LAYOUT QMKATA_ID_CONFIG 1 1 0 @ BITFIELD 1 0 1 @ BITFIELD 2 1 1 @ BITFIELD 3 2 1 @ BITFIELD 4 3 1,
      [seqnum] @ STRUCT_LAYOUT QMKATA_ID_CONFIG 2 4 0 @ BITFIELD 1 0 1 @ BITFIELD 2 1 1 @ BITFIELD 3 2 1,
      [seqnum] @ STRUCT_LAYOUT QMKATA_ID_CONFIG 3 8 0 @ BITFIELD 1 0 2 @ BITFIELD 2 2 6 @ BYTEFIELD 3 1 @ BYTEFIELD 4 2 @ BYTEFIELD 5 3 @
        BYTEFIELD 6 4 @ BYTEFIELD 7 5,
      [seqnum] @ STRUCT_LAYOUT QMKATA_ID_CONFIG 4 2 0 @ concat (map (\<lambda>bp. BITFIELD (of_nat bp + 1) (of_nat bp) 1) [0..<13]),
      [seqnum] @ STRUCT_LAYOUT QMKATA_ID_CONFIG 5 204 1 @ ARRAYFIELD 1 3 0 102,
      [seqnum] @ STRUCT_LAYOUT QMKATA_ID_CONFIG 6 1 0 @ BYTEFIELD 1 0,
      [seqnum] @ STRUCT_LAYOUT QMKATA_ID_CONFIG 7 4 0 @ BITFIELD 1 0 1 @ BITFIELD 2 1 1]"

definition qmkata_get_struct_layout :: "u8 \<Rightarrow> u8 list \<Rightarrow> 'e qmkata \<Rightarrow> 'e qresult" where
  "qmkata_get_struct_layout seqnum buf s =
     do { i \<leftarrow> byte buf 0;
          Some (if i = QMKATA_ID_STATUS then map respond (struct_layout_status seqnum)
                else if i = QMKATA_ID_CONTROL then []
                else if i = QMKATA_ID_CONFIG then map respond (struct_layout_config seqnum) else [], s) }"

subsection \<open>Code loaded by the host\<close>

text \<open>\<^verbatim>\<open>load_function\<close>; \<open>data\<close> are the bytes from the pointer to the end of the message, \<open>len\<close> the length passed.\<close>

definition load_function :: "nat \<Rightarrow> u8 list \<Rightarrow> nat \<Rightarrow> nat \<Rightarrow> 'e qmkata \<Rightarrow> (int \<times> 'e qmkata) option" where
  "load_function fun_id data offset len s =
     (if offset = 0xFFFF then
        if DYNLD_FUN_ID_MAX \<le> fun_id then None
        else Some (0, if take 2 (dynld_func_buf s ! fun_id) \<noteq> [0, 0] then s\<lparr>func := (func s)[fun_id := True]\<rparr> else s)
      else if DYNLD_FUNC_SIZE < offset + len then
        if DYNLD_FUN_ID_MAX \<le> fun_id then None
        else Some (-1, s\<lparr>dynld_func_buf := (dynld_func_buf s)[fun_id := replicate DYNLD_FUNC_SIZE 0], func := (func s)[fun_id := False]\<rparr>)
      else if DYNLD_FUN_ID_MAX \<le> fun_id then Some (-1, s)
      else let s = (if offset = 0
                    then s\<lparr>func := (func s)[fun_id := False], dynld_func_buf := (dynld_func_buf s)[fun_id := replicate DYNLD_FUNC_SIZE 0]\<rparr>
                    else s)
           in if offset = 0 \<and> 2 \<le> len \<and> length data < 2 then None
              else if offset = 0 \<and> 2 \<le> len \<and> take 2 data = [0, 0] then Some (0, s)
              else if length data < len then None
              else Some (0, s\<lparr>dynld_func_buf := (dynld_func_buf s)[fun_id := memcpy_at offset (take len data) (dynld_func_buf s ! fun_id)]\<rparr>))"

definition u16_at :: "u8 list \<Rightarrow> nat \<Rightarrow> nat option" where
  "u16_at buf i = do { lo \<leftarrow> byte buf i; hi \<leftarrow> byte buf (i + 1); Some (unat lo + 256 * unat hi) }"

text \<open>\<open>len\<close> is a byte: \<^verbatim>\<open>len -= 4\<close> wraps for shorter messages.\<close>

definition qmkata_set_dynld_function :: "u8 \<Rightarrow> u8 \<Rightarrow> u8 list \<Rightarrow> 'e qmkata \<Rightarrow> 'e qresult" where
  "qmkata_set_dynld_function seqnum len buf s =
     do { fun_id \<leftarrow> u16_at buf 0;
          offset \<leftarrow> u16_at buf 2;
          (rc, s) \<leftarrow> load_function fun_id (drop 4 buf) offset (unat (len - 4)) s;
          Some ([respond [seqnum, QMKATA_ID_DYNLD_FUNCTION, word_of_int rc]], s) }"

text \<open>\<open>run i\<close> calls the code in buffer \<open>i\<close>. The pointer of the test function is called without a check.\<close>

definition qmkata_set_dynld_funexec ::
  "(nat \<Rightarrow> 'e qmkata \<Rightarrow> u32 \<times> 'e qmkata) \<Rightarrow> u8 \<Rightarrow> u8 list \<Rightarrow> 'e qmkata \<Rightarrow> 'e qresult" where
  "qmkata_set_dynld_funexec run seqnum buf s =
     do { fun_id \<leftarrow> u16_at buf 0;
          (rc, s) \<leftarrow>
            (if fun_id = DYNLD_FUN_ID_EXEC then Some (if func s ! DYNLD_FUN_ID_EXEC then run DYNLD_FUN_ID_EXEC s else (-1, s))
             else if fun_id = DYNLD_FUN_ID_TEST then (if func s ! DYNLD_FUN_ID_TEST then Some (run DYNLD_FUN_ID_TEST s) else None)
             else Some (-1, s));
          Some ([respond ([seqnum, QMKATA_ID_DYNLD_FUNEXEC] @ u32_bytes rc)], s) }"

subsection \<open>Command line\<close>

definition cli_error :: "u8 \<Rightarrow> u8 \<Rightarrow> u8 \<Rightarrow> qeffect" where
  "cli_error seqnum cli_seq err = respond [seqnum, QMKATA_ID_CLI, cli_seq, err]"

definition ram_read :: "u32 \<Rightarrow> nat \<Rightarrow> (u32 \<Rightarrow> u8) \<Rightarrow> u8 list" where
  "ram_read addr n m = map (\<lambda>i. m (addr + of_nat i)) [0..<n]"

definition ram_write :: "u32 \<Rightarrow> u8 list \<Rightarrow> (u32 \<Rightarrow> u8) \<Rightarrow> u32 \<Rightarrow> u8" where
  "ram_write addr bs m = fold (\<lambda>i m. m(addr + of_nat i := bs ! i)) [0..<length bs] m"

definition cli_memory :: "u8 \<Rightarrow> u8 \<Rightarrow> bool \<Rightarrow> bool \<Rightarrow> u8 list \<Rightarrow> 'e qmkata \<Rightarrow> 'e qresult" where
  "cli_memory seqnum cli_seq wr lo buf s =
     (if lo then Some ([cli_error seqnum cli_seq 0x75], s)
      else do {
        addr \<leftarrow> u32_at buf 2;
        len \<leftarrow> byte buf 6;
        if \<not> wr then
          Some (if 64 < len then ([cli_error seqnum cli_seq 0x69], s)
                else ([respond ([seqnum, QMKATA_ID_CLI, cli_seq] @ ram_read addr (unat len) (ram s))], s))
        else do {
          val \<leftarrow> u32_at buf 7;
          Some (if len = 1 \<or> len = 2 \<or> len = 4
                then ([cli_error seqnum cli_seq 0], s\<lparr>ram := ram_write addr (take (unat len) (u32_bytes val)) (ram s)\<rparr>)
                else ([cli_error seqnum cli_seq 0x69, cli_error seqnum cli_seq 0], s)) } })"

fun eeprom_read_bytes :: "'e eeprom_api \<Rightarrow> nat \<Rightarrow> nat \<Rightarrow> 'e \<Rightarrow> u8 list option" where
  "eeprom_read_bytes api addr 0 e = Some []"
| "eeprom_read_bytes api addr (Suc n) e =
     do { v \<leftarrow> eeprom_read_byte api addr e; vs \<leftarrow> eeprom_read_bytes api (addr + 1) n e; Some (v # vs) }"

definition cli_eeprom_read :: "'e eeprom_api \<Rightarrow> u32 \<Rightarrow> u8 \<Rightarrow> 'e \<Rightarrow> u8 list option" where
  "cli_eeprom_read api addr len e =
     (if len = 1 then map_option (\<lambda>v. [v]) (eeprom_read_byte api (unat addr) e)
      else if len = 2 then map_option u16_bytes (eeprom_read_word api (unat addr) e)
      else if len = 4 then map_option u32_bytes (eeprom_read_dword api (unat addr) e)
      else eeprom_read_bytes api (unat addr) (unat len) e)"

definition cli_eeprom_update :: "'e eeprom_api \<Rightarrow> u32 \<Rightarrow> u8 \<Rightarrow> u32 \<Rightarrow> 'e \<Rightarrow> 'e option" where
  "cli_eeprom_update api addr len val e =
     (if len = 1 then eeprom_update_byte api (unat addr) (ucast val) e
      else if len = 2 then eeprom_update_word api (unat addr) (ucast val) e
      else if len = 4 then eeprom_update_dword api (unat addr) val e
      else Some e)"

definition EECONFIG_USER :: u32 where "EECONFIG_USER = 19"
definition EECONFIG_USER_DATA_SIZE :: u32 where "EECONFIG_USER_DATA_SIZE = 0"

definition cli_eeprom_layout :: "dk_config \<Rightarrow> u8 list" where
  "cli_eeprom_layout c =
     [1] @ u32_bytes (of_nat (dynamic_keymap_key_to_eeprom_address c 0 0 0)) @
       u32_bytes (of_nat (DYNAMIC_KEYMAP_LAYER_COUNT c * MATRIX_ROWS c * MATRIX_COLS c * 2)) @
     [2] @ u32_bytes EECONFIG_USER @ u32_bytes EECONFIG_USER_DATA_SIZE"

definition cli_eeprom :: "dk_config \<Rightarrow> 'e eeprom_api \<Rightarrow> u8 \<Rightarrow> u8 \<Rightarrow> bool \<Rightarrow> bool \<Rightarrow> u8 list \<Rightarrow> 'e qmkata \<Rightarrow> 'e qresult" where
  "cli_eeprom c api seqnum cli_seq wr lo buf s =
     (if lo then Some ([respond ([seqnum, QMKATA_ID_CLI, cli_seq] @ cli_eeprom_layout c)], s)
      else do {
        addr \<leftarrow> u32_at buf 2;
        len \<leftarrow> byte buf 6;
        if \<not> wr then
          if 64 < len then Some ([cli_error seqnum cli_seq 0x69], s)
          else do {
            bs \<leftarrow> cli_eeprom_read api addr len (eeprom s);
            Some ([respond ([seqnum, QMKATA_ID_CLI, cli_seq] @ bs)], s) }
        else do {
          val \<leftarrow> u32_at buf 7;
          e \<leftarrow> cli_eeprom_update api addr len val (eeprom s);
          Some ((if len = 1 \<or> len = 2 \<or> len = 4 then [] else [cli_error seqnum cli_seq 0x69]) @ [cli_error seqnum cli_seq 0],
                s\<lparr>eeprom := e\<rparr>) } })"

text \<open>\<^verbatim>\<open>thumb_fun_addr\<close> sets the lowest bit of the address (\<^verbatim>\<open>THUMB_PRESENT\<close>).\<close>

definition thumb_fun_addr :: "u32 \<Rightarrow> u32" where
  "thumb_fun_addr a = a OR 1"

definition cli_call :: "u8 \<Rightarrow> u8 \<Rightarrow> u8 list \<Rightarrow> 'e qmkata \<Rightarrow> 'e qresult" where
  "cli_call seqnum cli_seq buf s =
     do { fun_addr \<leftarrow> u32_at buf 2;
          Some ([if fun_addr \<noteq> 0 then Call_address (thumb_fun_addr fun_addr) else Debug_led_on 0, cli_error seqnum cli_seq 0], s) }"

definition qmkata_set_cli :: "dk_config \<Rightarrow> 'e eeprom_api \<Rightarrow> u8 \<Rightarrow> u8 list \<Rightarrow> 'e qmkata \<Rightarrow> 'e qresult" where
  "qmkata_set_cli c api seqnum buf s =
     do { cli_seq \<leftarrow> byte buf 0;
          cmd \<leftarrow> byte buf 1;
          let wr = bit cmd 7; lo = bit cmd 6; cli_cmd = cmd AND 0x3F in
            if cli_cmd = 1 then cli_memory seqnum cli_seq wr lo buf s
            else if cli_cmd = 2 then cli_eeprom c api seqnum cli_seq wr lo buf s
            else if cli_cmd = 3 then cli_call seqnum cli_seq buf s
            else Some ([cli_error seqnum cli_seq 0x75], s) }"

subsection \<open>Dispatch\<close>

definition qmkata_sysex_handler ::
  "dk_config \<Rightarrow> 'e eeprom_api \<Rightarrow> (nat \<Rightarrow> 'e qmkata \<Rightarrow> u32 \<times> 'e qmkata) \<Rightarrow> qmkata_env \<Rightarrow> u8 \<Rightarrow> u8 \<Rightarrow> u8 list \<Rightarrow> 'e qmkata \<Rightarrow> 'e qresult" where
  "qmkata_sysex_handler c api run env cmd len buf s =
     (if len < 2 then Some ([], s)
      else do {
        seqnum \<leftarrow> byte buf 0;
        i \<leftarrow> byte buf 1;
        let len = len - 2; buf = drop 2 buf in
          if cmd = QMKATA_CMD_SET then
            if i = QMKATA_ID_CLI then qmkata_set_cli c api seqnum buf s
            else if i = QMKATA_ID_RGB_MATRIX_BUF then qmkata_set_rgb_matrix_buf (unat len) buf s
            else if i = QMKATA_ID_DEFAULT_LAYER then qmkata_set_default_layer buf s
            else if i = QMKATA_ID_MACWIN_MODE then qmkata_set_macwin_mode buf s
            else if i = QMKATA_ID_DYNLD_FUNCTION then qmkata_set_dynld_function seqnum len buf s
            else if i = QMKATA_ID_DYNLD_FUNEXEC then qmkata_set_dynld_funexec run seqnum buf s
            else if i = QMKATA_ID_CONFIG then qmkata_set_config buf s
            else Some ([], s)
          else if cmd = QMKATA_CMD_GET then
            if i = QMKATA_ID_MACWIN_MODE then qmkata_get_macwin_mode seqnum s
            else if i = QMKATA_ID_STATUS then qmkata_get_status env seqnum buf s
            else if i = QMKATA_ID_STRUCT_LAYOUT then qmkata_get_struct_layout seqnum buf s
            else if i = QMKATA_ID_CONFIG then qmkata_get_config seqnum buf s
            else Some ([], s)
          else Some ([], s) })"

text \<open>\<^verbatim>\<open>qmkata_recv_data\<close> of \<^verbatim>\<open>QMKata.cpp\<close>: the raw HID packet \<open>data\<close>, for messages without the 7-bit encoding. The length passed on
  still counts the command byte. The flag is the result 0.\<close>

definition qmkata_recv_data ::
  "dk_config \<Rightarrow> 'e eeprom_api \<Rightarrow> (nat \<Rightarrow> 'e qmkata \<Rightarrow> u32 \<times> 'e qmkata) \<Rightarrow> qmkata_env \<Rightarrow> u8 list \<Rightarrow> 'e qmkata \<Rightarrow>
   (bool \<times> qeffect list \<times> 'e qmkata) option" where
  "qmkata_recv_data c api run env data s =
     (let len = of_nat (length data) :: u8; data = drop 1 data; len = len - 1
      in do {
        start \<leftarrow> byte data 0;
        if start = 0xF1 then
          let data = drop 1 data; len = len - 1 in do {
            cmd \<leftarrow> byte data 0;
            if cmd = 0x79 then Some (True, [Send_version], s)
            else do { (es, s) \<leftarrow> qmkata_sysex_handler c api run env cmd len (drop 1 data) s; Some (True, es, s) } }
        else Some (False, [], s) })"

section \<open>Loading code\<close>

definition dynld_ok :: "'e qmkata \<Rightarrow> bool" where
  "dynld_ok s \<longleftrightarrow> length (dynld_func_buf s) = DYNLD_FUN_ID_MAX \<and> length (func s) = DYNLD_FUN_ID_MAX \<and>
     (\<forall>b\<in>set (dynld_func_buf s). length b = DYNLD_FUNC_SIZE)"

lemma dynld_ok_nth: "dynld_ok s \<Longrightarrow> i < DYNLD_FUN_ID_MAX \<Longrightarrow> length (dynld_func_buf s ! i) = DYNLD_FUNC_SIZE"
  by (simp add: dynld_ok_def)

text \<open>When is a buffer or the message left? For the code numbers that have no buffer the number is checked too late.\<close>

lemma load_function_None:
  assumes "len \<le> length data"
  shows "load_function fun_id data offset len s = None \<longleftrightarrow>
    DYNLD_FUN_ID_MAX \<le> fun_id \<and> (offset = 0xFFFF \<or> DYNLD_FUNC_SIZE < offset + len)"
  using assms by (auto simp: load_function_def Let_def)

text \<open>The messages that load \<open>code\<close> in the chunks \<open>cs\<close>, and the one that activates it.\<close>

definition dynld_message :: "nat \<Rightarrow> nat \<Rightarrow> u8 list \<Rightarrow> u8 list" where
  "dynld_message fun_id offset chunk =
     [0, QMKATA_ID_DYNLD_FUNCTION, of_nat fun_id, of_nat (fun_id div 256), of_nat offset, of_nat (offset div 256)] @ chunk"

fun dynld_messages :: "nat \<Rightarrow> nat \<Rightarrow> u8 list list \<Rightarrow> u8 list list" where
  "dynld_messages fun_id offset [] = [dynld_message fun_id 0xFFFF []]"
| "dynld_messages fun_id offset (c # cs) = dynld_message fun_id offset c # dynld_messages fun_id (offset + length c) cs"

primrec handle_all :: "(u8 list \<Rightarrow> 'e qmkata \<Rightarrow> 'e qresult) \<Rightarrow> u8 list list \<Rightarrow> 'e qmkata \<Rightarrow> 'e qmkata option" where
  "handle_all h [] s = Some s"
| "handle_all h (m # ms) s = do { (_, s) \<leftarrow> h m s; handle_all h ms s }"

abbreviation set_message where
  "set_message c api run env m \<equiv> qmkata_sysex_handler c api run env QMKATA_CMD_SET (of_nat (length m)) m"

lemma u16_at_pair: "u16_at (of_nat x # of_nat (x div 256) # bs) 0 = Some x" if "x < 65536"
  using that by (simp add: u16_at_def byte_def unsigned_of_nat take_bit_eq_mod)

lemma u16_at_pair2: "u16_at (a # b # of_nat x # of_nat (x div 256) # bs) 2 = Some x" if "x < 65536"
  using that by (simp add: u16_at_def byte_def unsigned_of_nat take_bit_eq_mod)

lemma dynld_message_handled:
  assumes "fun_id < 65536" and "offset < 65536" and "length chunk < 250"
  shows "set_message c api run env (dynld_message fun_id offset chunk) s =
    do { (rc, s) \<leftarrow> load_function fun_id chunk offset (length chunk) s;
         Some ([respond [0, QMKATA_ID_DYNLD_FUNCTION, word_of_int rc]], s) }"
proof -
  have "unat (of_nat (6 + length chunk) :: u8) = 6 + length chunk"
    using assms(3) unfolding unsigned_of_nat by (simp add: take_bit_eq_mod)
  then have ge: "\<not> of_nat (6 + length chunk) < (2 :: u8)"
    unfolding word_less_nat_alt by (simp only:) simp
  have len: "of_nat (6 + length chunk) - 2 - 4 = (of_nat (length chunk) :: u8)"
    by simp
  have n: "unat (of_nat (length chunk) :: u8) = length chunk"
    using assms(3) by (simp add: unsigned_of_nat take_bit_eq_mod)
  let ?buf = "of_nat fun_id # of_nat (fun_id div 256) # of_nat offset # of_nat (offset div 256) # chunk"
  have "set_message c api run env (dynld_message fun_id offset chunk) s =
      qmkata_set_dynld_function 0 (of_nat (6 + length chunk) - 2) ?buf s"
    using ge by (simp add: dynld_message_def qmkata_sysex_handler_def byte_def qmkata_constants)
  also have "\<dots> = do { (rc, s) \<leftarrow> load_function fun_id chunk offset (length chunk) s;
      Some ([respond [0, QMKATA_ID_DYNLD_FUNCTION, word_of_int rc]], s) }"
    unfolding qmkata_set_dynld_function_def len u16_at_pair [OF assms(1)] u16_at_pair2 [OF assms(2)] by (simp add: n)
  finally show ?thesis .
qed

text \<open>\<open>loading f code s0 s\<close>: the buffer of \<open>f\<close> holds \<open>code\<close>, the other functions are as in \<open>s0\<close>.\<close>

definition loading :: "nat \<Rightarrow> u8 list \<Rightarrow> 'e qmkata \<Rightarrow> 'e qmkata \<Rightarrow> bool" where
  "loading f code s0 s \<longleftrightarrow> dynld_ok s \<and> dynld_func_buf s ! f = code @ replicate (DYNLD_FUNC_SIZE - length code) 0 \<and>
     (\<forall>j<DYNLD_FUN_ID_MAX. j \<noteq> f \<longrightarrow> dynld_func_buf s ! j = dynld_func_buf s0 ! j \<and> func s ! j = func s0 ! j)"

lemma memcpy_at_zeros:
  "length code + length c \<le> n \<Longrightarrow> memcpy_at (length code) c (code @ replicate (n - length code) 0) = (code @ c) @ replicate (n - length (code @ c)) 0"
  by (simp add: memcpy_at_def)

lemma loading_update:
  assumes "dynld_ok s" and "f < DYNLD_FUN_ID_MAX" and "length code \<le> DYNLD_FUNC_SIZE"
    and "dynld_func_buf s' = (dynld_func_buf s)[f := code @ replicate (DYNLD_FUNC_SIZE - length code) 0]"
    and "length (func s') = length (func s)" and "\<forall>j. j \<noteq> f \<longrightarrow> func s' ! j = func s ! j"
    and "\<forall>j<DYNLD_FUN_ID_MAX. j \<noteq> f \<longrightarrow> dynld_func_buf s ! j = dynld_func_buf s0 ! j \<and> func s ! j = func s0 ! j"
  shows "loading f code s0 s'"
proof -
  have "length y = DYNLD_FUNC_SIZE" if "y \<in> set (dynld_func_buf s')" for y
  proof -
    let ?b = "code @ replicate (DYNLD_FUNC_SIZE - length code) (0 :: u8)"
    have "set (dynld_func_buf s') \<subseteq> insert ?b (set (dynld_func_buf s))"
      unfolding assms(4) by (rule set_update_subset_insert)
    then have "y = ?b \<or> y \<in> set (dynld_func_buf s)"
      using that by (simp only: subset_iff insert_iff)
    then show ?thesis
      using assms(1,3) by (auto simp: dynld_ok_def)
  qed
  moreover have "length (dynld_func_buf s') = DYNLD_FUN_ID_MAX" "length (func s') = DYNLD_FUN_ID_MAX"
    using assms(1,4,5) by (simp_all add: dynld_ok_def)
  ultimately have "dynld_ok s'"
    unfolding dynld_ok_def by blast
  moreover have "dynld_func_buf s' ! f = code @ replicate (DYNLD_FUNC_SIZE - length code) 0"
    using assms(1,2,4) by (simp add: dynld_ok_def)
  moreover have "dynld_func_buf s' ! j = dynld_func_buf s0 ! j \<and> func s' ! j = func s0 ! j" if "j < DYNLD_FUN_ID_MAX" "j \<noteq> f" for j
    using assms(4,6,7) that by simp
  ultimately show ?thesis
    by (simp add: loading_def)
qed

lemma load_first:
  assumes "dynld_ok s" and "f < DYNLD_FUN_ID_MAX" and "2 \<le> length c" and "length c \<le> DYNLD_FUNC_SIZE" and "take 2 c \<noteq> [0, 0]"
  shows "\<exists>s'. load_function f c 0 (length c) s = Some (0, s') \<and> loading f c s s'"
proof -
  let ?s1 = "s\<lparr>func := (func s)[f := False], dynld_func_buf := (dynld_func_buf s)[f := replicate DYNLD_FUNC_SIZE 0]\<rparr>"
  let ?s2 = "?s1\<lparr>dynld_func_buf := (dynld_func_buf ?s1)[f := memcpy_at 0 c (dynld_func_buf ?s1 ! f)]\<rparr>"
  have "load_function f c 0 (length c) s = Some (0, ?s2)"
    using assms by (simp add: load_function_def)
  moreover have "memcpy_at 0 c (dynld_func_buf ?s1 ! f) = c @ replicate (DYNLD_FUNC_SIZE - length c) 0"
    using memcpy_at_zeros [of "[]" c DYNLD_FUNC_SIZE] assms by (simp add: dynld_ok_def)
  then have "loading f c s ?s2"
    using assms by (intro loading_update [where s = s]) simp_all
  ultimately show ?thesis
    by blast
qed

lemma load_next:
  assumes "loading f code s0 s" and "f < DYNLD_FUN_ID_MAX" and "code \<noteq> []" and "length code + length c \<le> DYNLD_FUNC_SIZE"
  shows "\<exists>s'. load_function f c (length code) (length c) s = Some (0, s') \<and> loading f (code @ c) s0 s'"
proof -
  let ?s1 = "s\<lparr>dynld_func_buf := (dynld_func_buf s)[f := memcpy_at (length code) c (dynld_func_buf s ! f)]\<rparr>"
  have "load_function f c (length code) (length c) s = Some (0, ?s1)"
    using assms by (auto simp: load_function_def DYNLD_FUNC_SIZE_def)
  moreover have "memcpy_at (length code) c (dynld_func_buf s ! f) = (code @ c) @ replicate (DYNLD_FUNC_SIZE - length (code @ c)) 0"
    using assms memcpy_at_zeros [of code c DYNLD_FUNC_SIZE] by (simp only: loading_def)
  then have "loading f (code @ c) s0 ?s1"
    using assms by (intro loading_update [where s = s]) (simp_all add: loading_def)
  ultimately show ?thesis
    by blast
qed

lemma load_activate:
  assumes "loading f code s0 s" and "f < DYNLD_FUN_ID_MAX" and "2 \<le> length code" and "take 2 code \<noteq> [0, 0]"
  shows "\<exists>s'. load_function f [] 0xFFFF 0 s = Some (0, s') \<and> loading f code s0 s' \<and> func s' ! f"
  using assms by (auto simp: load_function_def loading_def dynld_ok_def)

lemma load_rest:
  assumes "loading f code s0 s" and "f < DYNLD_FUN_ID_MAX" and "2 \<le> length code" and "take 2 code \<noteq> [0, 0]"
    and "length code + length (concat cs) \<le> DYNLD_FUNC_SIZE" and "\<forall>c\<in>set cs. length c < 250"
  shows "\<exists>s'. handle_all (set_message dk api run env) (dynld_messages f (length code) cs) s = Some s' \<and> loading f (code @ concat cs) s0 s' \<and> func s' ! f"
  using assms
proof (induction cs arbitrary: code s)
  case Nil
  then show ?case
    using load_activate [OF Nil.prems(1-4)] by (auto simp: dynld_message_handled DYNLD_FUN_ID_MAX_def)
next
  case (Cons c cs)
  then obtain s1 where s1: "load_function f c (length code) (length c) s = Some (0, s1)" "loading f (code @ c) s0 s1"
    using load_next [of f code s0 s c] by fastforce
  have "length code < 65536" "f < 65536"
    using Cons.prems(2,5) by (simp_all add: DYNLD_FUNC_SIZE_def DYNLD_FUN_ID_MAX_def)
  then have "set_message dk api run env (dynld_message f (length code) c) s = Some ([respond [0, QMKATA_ID_DYNLD_FUNCTION, word_of_int 0]], s1)"
    using Cons.prems(6) s1(1) by (simp add: dynld_message_handled)
  then show ?case
    using Cons.IH [OF s1(2)] Cons.prems by (simp add: add.assoc)
qed


definition no_eeprom :: "unit eeprom_api" where
  "no_eeprom = \<lparr>eeprom_read_block = (\<lambda>a buf e. Some buf), eeprom_write_block = (\<lambda>a buf e. Some e)\<rparr>"

definition no_code :: "nat \<Rightarrow> unit qmkata \<Rightarrow> u32 \<times> unit qmkata" where
  "no_code i s = (0, s)"

definition no_env :: qmkata_env where
  "no_env = \<lparr>env_battery_percentage = 50, env_battery_voltage = 3700\<rparr>"

definition qmkata_boot :: "'e \<Rightarrow> 'e qmkata" where
  "qmkata_boot e = \<lparr>host_buf = \<lparr>led = replicate 87 \<lparr>duration = 0, led_r = 0, led_g = 0, led_b = 0\<rparr>, written = False\<rparr>,
     layer_vars = \<lparr>default_layer_state = 1, layer_state = 0, source_layers_cache = [], encoder_source_layers_cache = []\<rparr>,
     config_mem = map (\<lambda>n. replicate n 0) s_config_size, status_mem = map (\<lambda>n. replicate n 0) s_status_size,
     dynld_func_buf = replicate DYNLD_FUN_ID_MAX (replicate DYNLD_FUNC_SIZE 0), func = replicate DYNLD_FUN_ID_MAX False,
     s_keyb_user_macwin_mode = -1, s_keyb_switch_macwin_mode = -1, ram = (\<lambda>_. 0), eeprom = e\<rparr>"

abbreviation qmkata_sample :: "unit qmkata" where
  "qmkata_sample \<equiv> qmkata_boot ()"

lemma qmkata_sample_dynld: "dynld_ok qmkata_sample"
  by (simp add: qmkata_boot_def dynld_ok_def)




section \<open>Configuration\<close>

definition config_get_message :: "u8 \<Rightarrow> u8 \<Rightarrow> u8 list" where
  "config_get_message seqnum i = [seqnum, QMKATA_ID_CONFIG, i]"

definition config_set_message :: "u8 \<Rightarrow> u8 list \<Rightarrow> u8 list" where
  "config_set_message i v = [0, QMKATA_ID_CONFIG, i] @ v"

abbreviation get_message where
  "get_message c api run env m \<equiv> qmkata_sysex_handler c api run env QMKATA_CMD_GET (of_nat (length m)) m"

definition config_ok :: "'e qmkata \<Rightarrow> bool" where
  "config_ok s \<longleftrightarrow> map length (config_mem s) = s_config_size"

lemma config_get_handled:
  assumes "config_ok s"
  shows "get_message c api run env (config_get_message seqnum i) s =
    Some (if i = 0 \<or> 8 \<le> i then [] else [respond ([seqnum, QMKATA_ID_CONFIG, i] @ config_mem s ! unat i)], s)"
proof -
  have "take (s_config_size ! unat i) (config_mem s ! unat i) = config_mem s ! unat i" if "unat i < 8"
  proof -
    have "length (config_mem s) = 8"
      using arg_cong [OF assms [unfolded config_ok_def], of length] by (simp add: s_config_size_def)
    then have "length (config_mem s ! unat i) = s_config_size ! unat i"
      using assms that by (metis config_ok_def nth_map)
    then show ?thesis
      by simp
  qed
  moreover have "(8 :: u8) \<le> i \<longleftrightarrow> 8 \<le> unat i"
    by (simp add: word_le_nat_alt)
  moreover have "length s_config_size = 8"
    by (simp add: s_config_size_def)
  ultimately show ?thesis
    by (simp add: config_get_message_def qmkata_sysex_handler_def byte_def qmkata_get_config_def qmkata_constants)
qed

lemma config_set_handled:
  assumes "i \<noteq> 0" and "i < 8" and "i \<noteq> 5" and "length v = s_config_size ! unat i"
  shows "set_message c api run env (config_set_message i v) s = Some ([], s\<lparr>config_mem := (config_mem s)[unat i := v]\<rparr>)"
proof -
  have i: "unat i < 8"
    using assms(2) by (simp add: word_less_nat_alt)
  then have "unat i \<in> {0, 1, 2, 3, 4, 5, 6, 7}"
    by auto
  then have "length v \<le> 204"
    using assms(4) by (auto simp: s_config_size_def)
  then have "unat (of_nat (3 + length v) :: u8) = 3 + length v"
    unfolding unsigned_of_nat by (simp add: take_bit_eq_mod)
  then have "\<not> of_nat (3 + length v) < (2 :: u8)"
    unfolding word_less_nat_alt by (simp only:) simp
  moreover have "length s_config_size = 8"
    by (simp add: s_config_size_def)
  ultimately show ?thesis
    using assms i by (simp add: config_set_message_def qmkata_sysex_handler_def byte_def qmkata_set_config_def qmkata_constants subarr_def)
qed

text \<open>A configuration that the host sets is what it reads back, byte by byte, and no other configuration changes.\<close>

theorem qmkata_config_roundtrip:
  assumes "config_ok s" and "i \<noteq> 0" and "i < 8" and "i \<noteq> 5" and "length v = s_config_size ! unat i"
  shows "\<exists>s'. set_message c api run env (config_set_message i v) s = Some ([], s') \<and>
    (\<forall>q j. get_message c api run env (config_get_message q j) s' =
       (if j = i then Some ([respond ([q, QMKATA_ID_CONFIG, i] @ v)], s')
        else map_option (\<lambda>(es, _). (es, s')) (get_message c api run env (config_get_message q j) s)))"
proof -
  let ?s = "s\<lparr>config_mem := (config_mem s)[unat i := v]\<rparr>"
  have len: "length (config_mem s) = 8"
    using arg_cong [OF assms(1) [unfolded config_ok_def], of length] by (simp add: s_config_size_def)
  have i: "unat i < 8"
    using assms(3) by (simp add: word_less_nat_alt)
  then have ok: "config_ok ?s"
    using assms(1,5) by (simp add: config_ok_def map_update list_update_id)
  have "get_message c api run env (config_get_message q j) ?s =
      (if j = i then Some ([respond ([q, QMKATA_ID_CONFIG, i] @ v)], ?s)
       else map_option (\<lambda>(es, _). (es, ?s)) (get_message c api run env (config_get_message q j) s))" for q j
    unfolding config_get_handled [OF ok] config_get_handled [OF assms(1)]
    using assms(2,3) len i by (auto simp: nth_list_update not_le dest: word_unat_eq_iff [THEN iffD2])
  then show ?thesis
    using config_set_handled [OF assms(2-5)] by blast
qed

theorem qmkata_config_roundtrip_witness:
  "\<exists>s'. set_message q3_keymap_config no_eeprom no_code no_env (config_set_message 6 [12]) qmkata_sample = Some ([], s') \<and>
    get_message q3_keymap_config no_eeprom no_code no_env (config_get_message 7 6) s' = Some ([respond [7, QMKATA_ID_CONFIG, 6, 12]], s')"
proof -
  have sample: "config_ok qmkata_sample"
    by (simp add: config_ok_def qmkata_boot_def s_config_size_def)
  have six: "(6 :: u8) \<noteq> 0" "(6 :: u8) < 8" "(6 :: u8) \<noteq> 5"
    by simp_all
  have size: "length [12 :: u8] = s_config_size ! unat (6 :: u8)"
    by (simp add: s_config_size_def)
  obtain s' where set: "set_message q3_keymap_config no_eeprom no_code no_env (config_set_message 6 [12]) qmkata_sample = Some ([], s')"
    and get: "\<forall>q j. get_message q3_keymap_config no_eeprom no_code no_env (config_get_message q j) s' =
       (if j = 6 then Some ([respond ([q, QMKATA_ID_CONFIG, 6] @ [12])], s')
        else map_option (\<lambda>(es, _). (es, s')) (get_message q3_keymap_config no_eeprom no_code no_env (config_get_message q j) qmkata_sample))"
    using qmkata_config_roundtrip [OF sample six size] by blast
  show ?thesis
    using set get [THEN spec [where x = 7], THEN spec [where x = 6]] by auto
qed

section \<open>LEDs\<close>

text \<open>The buffer of the firmware always has this form: a LED that is on is announced by \<open>written\<close>.\<close>

definition host_ok :: "rgb_matrix_host_buffer \<Rightarrow> bool" where
  "host_ok h \<longleftrightarrow> (\<forall>l\<in>set (led h). 0 < duration l \<longrightarrow> written h)"

definition led_off :: "led_entry \<Rightarrow> led_entry" where
  "led_off l = (if 0 < duration l then l\<lparr>duration := duration l - 1\<rparr> else l)"

text \<open>The colors of the LEDs that are on for more than \<open>n\<close> frames.\<close>

definition shown :: "nat \<Rightarrow> led_entry list \<Rightarrow> (nat \<times> u8 \<times> u8 \<times> u8) list" where
  "shown n ls = map (\<lambda>i. (i, led_r (ls ! i), led_g (ls ! i), led_b (ls ! i))) (filter (\<lambda>i. n < unat (duration (ls ! i))) [0..<length ls])"

lemma led_off_on [simp]: "led_r (led_off l) = led_r l" "led_g (led_off l) = led_g l" "led_b (led_off l) = led_b l"
  "unat (duration (led_off l)) = unat (duration l) - 1"
  by (auto simp: led_off_def unat_minus_one word_gt_0)

lemma shown_led_off: "shown n (map led_off ls) = shown (Suc n) ls"
  unfolding shown_def by (auto intro!: map_cong filter_cong)

lemma render_loop:
  "for_upto (length (led h)) (\<lambda>li (out, h, matrix_set).
     let l = led h ! li
     in if 0 < duration l
        then (out @ [(li, led_r l, led_g l, led_b l)], h\<lparr>led := (led h)[li := l\<lparr>duration := duration l - 1\<rparr>]\<rparr>, True)
        else (out, h, matrix_set)) ([], h, False) =
   (shown 0 (led h), h\<lparr>led := map led_off (led h)\<rparr>, \<exists>l\<in>set (led h). 0 < duration l)"
    (is "?loop = _")
proof -
  define P where "P m t \<longleftrightarrow> t = (map (\<lambda>i. (i, led_r (led h ! i), led_g (led h ! i), led_b (led h ! i))) (filter (\<lambda>i. 0 < unat (duration (led h ! i))) [0..<m]),
      h\<lparr>led := map led_off (take m (led h)) @ drop m (led h)\<rparr>, \<exists>l\<in>set (take m (led h)). 0 < duration l)" for m t
  have "P (length (led h)) ?loop"
  proof (rule for_upto_invariant)
    show "P 0 ([], h, False)"
      by (simp add: P_def)
  next
    fix m t
    assume m: "m < length (led h)" and P: "P m t"
    have upd: "(map led_off (take m (led h)) @ y # ys)[m := x] = map led_off (take m (led h)) @ x # ys" for x y ys
      using m by (simp add: list_update_append)
    have nth: "(map led_off (take m (led h)) @ y # ys) ! m = y" for y ys
      using m by (simp add: nth_append)
    have split: "drop m (led h) = led h ! m # drop (Suc m) (led h)"
      using m by (simp add: Cons_nth_drop_Suc)
    show "P (Suc m) ((\<lambda>(out, h, matrix_set).
       let l = led h ! m
       in if 0 < duration l
          then (out @ [(m, led_r l, led_g l, led_b l)], h\<lparr>led := (led h)[m := l\<lparr>duration := duration l - 1\<rparr>]\<rparr>, True)
          else (out, h, matrix_set)) t)"
      using P m by (auto simp: P_def nth upd take_Suc_conv_app_nth led_off_def Let_def word_gt_0 unat_gt_0 split)
  qed
  then show ?thesis
    by (simp add: P_def shown_def)
qed

lemma render_spec:
  assumes "host_ok h"
  shows "rgb_matrix_host_buf_render h =
    (shown 0 (led h), h\<lparr>led := map led_off (led h), written := \<exists>l\<in>set (led h). 0 < duration l\<rparr>)"
proof (cases "written h")
  case True
  then show ?thesis
    unfolding rgb_matrix_host_buf_render_def render_loop by (auto simp: Let_def)
next
  case False
  with assms have "\<forall>l\<in>set (led h). duration l = 0"
    by (auto simp: host_ok_def word_gt_0)
  moreover from this have "map led_off (led h) = led h" "shown 0 (led h) = []"
    by (auto simp: led_off_def shown_def filter_empty_conv intro: map_idI)
  ultimately show ?thesis
    using False by (cases h) (auto simp: rgb_matrix_host_buf_render_def)
qed

lemma render_keeps_ok: "host_ok h \<Longrightarrow> host_ok (snd (rgb_matrix_host_buf_render h))"
  by (auto simp: render_spec host_ok_def led_off_def split: if_splits)

lemma render_frames:
  "host_ok h \<Longrightarrow> fst (rgb_matrix_host_buf_render (((snd \<circ> rgb_matrix_host_buf_render) ^^ n) h)) = shown n (led h)"
proof (induction n arbitrary: h)
  case (Suc n)
  then show ?case
    using Suc.IH [OF render_keeps_ok [OF Suc.prems]]
    by (simp only: funpow_Suc_right o_apply) (simp add: render_spec shown_led_off)
qed (simp add: render_spec)

text \<open>A message with entries for the LEDs.\<close>

definition led_bytes :: "nat \<times> led_entry \<Rightarrow> u8 list" where
  "led_bytes e = [of_nat (fst e), duration (snd e), led_r (snd e), led_g (snd e), led_b (snd e)]"

definition rgb_message :: "u8 \<Rightarrow> (nat \<times> led_entry) list \<Rightarrow> u8 list" where
  "rgb_message q es = [q, QMKATA_ID_RGB_MATRIX_BUF] @ concat (map led_bytes es)"

definition set_leds :: "(nat \<times> led_entry) list \<Rightarrow> led_entry list \<Rightarrow> led_entry list" where
  "set_leds es ls = fold (\<lambda>(i, l) ls. ls[i := l]) es ls"

lemma length_set_leds [simp]: "length (set_leds es ls) = length ls"
  unfolding set_leds_def by (induction es arbitrary: ls) auto

lemma length_led_bytes_1: "length (led_bytes e) = 5"
  by (simp add: led_bytes_def)

lemma length_led_bytes [simp]: "length (concat (map led_bytes es)) = 5 * length es"
  by (induction es) (simp_all add: led_bytes_def)

lemma set_rgb_loop_entries:
  assumes "\<forall>(i, _)\<in>set es. i < length (led h)" and "length (led h) \<le> 256" and "host_ok h"
  shows "\<exists>h'. set_rgb_loop (length pre + 5 * length es) (pre @ concat (map led_bytes es)) (length pre) h = Some h' \<and>
    host_ok h' \<and> led h' = set_leds es (led h)"
  using assms
proof (induction es arbitrary: h pre)
  case Nil
  then show ?case
    by (simp add: set_rgb_loop.simps set_leds_def)
next
  case (Cons e es)
  obtain i l where e: "e = (i, l)"
    by force
  have i: "i < length (led h)" "unat (of_nat i :: u8) = i"
    using Cons.prems(1,2) e unfolding unsigned_of_nat by (auto simp: take_bit_eq_mod)
  let ?h = "h\<lparr>led := (led h)[i := l], written := True\<rparr>"
  have ok: "host_ok ?h"
    by (simp add: host_ok_def)
  have "byte (pre @ led_bytes e @ concat (map led_bytes es)) (length pre + k) = Some (led_bytes e ! k)" if "k < 5" for k
    using that by (simp add: byte_def nth_append length_led_bytes_1)
  from this [of 0] this [of 1] this [of 2] this [of 3] this [of 4]
  have "set_rgb_loop (length pre + 5 * length (e # es)) (pre @ concat (map led_bytes (e # es))) (length pre) h =
      set_rgb_loop (length (pre @ led_bytes e) + 5 * length es) ((pre @ led_bytes e) @ concat (map led_bytes es)) (length (pre @ led_bytes e)) ?h"
    by (subst set_rgb_loop.simps) (cases l, simp add: led_bytes_def e i eval_nat_numeral)
  then show ?case
    using Cons.IH [of ?h "pre @ led_bytes e"] Cons.prems ok by (simp add: e set_leds_def)
qed



section \<open>Mac and Windows mode\<close>

definition macwin_layer :: "int \<Rightarrow> nat" where
  "macwin_layer mode = (if mode = 0x77 then 2 else 0)"

text \<open>What changes the mode: a message of the host, and the switch.\<close>

inductive macwin_step :: "'e qmkata \<Rightarrow> 'e qmkata \<Rightarrow> bool" where
  host_sets: "qmkata_set_macwin_mode buf s = Some (es, s') \<Longrightarrow> macwin_step s s'"
| switch_moves: "macwin_step s (dip_switch_update_kb index active s)"

inductive_cases macwin_stepE: "macwin_step s s'"

inductive macwin_reachable :: "'e qmkata \<Rightarrow> bool" where
  boot: "s_keyb_user_macwin_mode s = -1 \<Longrightarrow> s_keyb_switch_macwin_mode s = -1 \<Longrightarrow> default_layer_state (layer_vars s) = 1 \<Longrightarrow> macwin_reachable s"
| step: "macwin_reachable s \<Longrightarrow> macwin_step s s' \<Longrightarrow> macwin_reachable s'"

definition macwin_inv :: "'e qmkata \<Rightarrow> bool" where
  "macwin_inv s \<longleftrightarrow> s_keyb_user_macwin_mode s \<in> {-1..255} \<and> s_keyb_switch_macwin_mode s \<in> {-1, 0x6D, 0x77} \<and>
     default_layer_state (layer_vars s) = push_bit (macwin_layer (keyb_user_get_macwin_mode s)) 1"

lemmas macwin_defs = macwin_inv_def macwin_layer_def keyb_user_get_macwin_mode_def keyb_user_set_macwin_mode_def
  default_layer_set_def default_layer_state_set_kb_def Let_def

lemma macwin_inv_host: "macwin_inv s \<Longrightarrow> m \<in> {-1..255} \<Longrightarrow> macwin_inv (keyb_user_set_macwin_mode m s)"
  by (auto simp: macwin_defs)

lemma macwin_inv_switch: "macwin_inv s \<Longrightarrow> macwin_inv (dip_switch_update_kb index active s)"
  by (auto simp: macwin_defs dip_switch_update_kb_def dip_switch_update_user_def)

lemma macwin_inv_step: "macwin_inv s \<Longrightarrow> macwin_step s s' \<Longrightarrow> macwin_inv s'"
proof (erule macwin_stepE)
  fix buf es
  assume "macwin_inv s" and "qmkata_set_macwin_mode buf s = Some (es, s')"
  moreover have "int (unat m) \<in> {-1..255}" for m :: u8
    using uint_bounded [of m] by (simp add: order.trans [OF _ uint_nonnegative])
  ultimately show "macwin_inv s'"
    by (auto simp: qmkata_set_macwin_mode_def split: Option.bind_splits if_splits intro!: macwin_inv_host)
qed (simp add: macwin_inv_switch)

lemma macwin_reachable_inv: "macwin_reachable s \<Longrightarrow> macwin_inv s"
proof (induction rule: macwin_reachable.induct)
  case (boot s)
  then show ?case
    by (simp add: macwin_defs)
qed (rule macwin_inv_step)

lemma macwin_byte: "(word_of_int m :: u8) = 0x77 \<longleftrightarrow> m = 0x77" if "-1 \<le> m" "m \<le> 255"
proof
  assume "(word_of_int m :: u8) = 0x77"
  then have "m mod 256 = 0x77"
    unfolding word_uint_eq_iff by (simp add: unsigned_of_int take_bit_eq_mod)
  with that show "m = 0x77"
    by (cases "m = -1") simp_all
qed simp



section \<open>Descriptions fit into one packet\<close>

text \<open>Every description that \<^verbatim>\<open>qmkata_get_struct_layout\<close> sends fits into the 60 bytes of the array \<^verbatim>\<open>resp\<close> it is built in.\<close>

lemma struct_layout_fits:
  "\<forall>r\<in>set (struct_layout_status seqnum @ struct_layout_config seqnum). length r \<le> 60"
  by (simp add: struct_layout_status_def struct_layout_config_def STRUCT_LAYOUT_def BITFIELD_def BYTEFIELD_def U16FIELD_def ARRAYFIELD_def
      length_concat comp_def sum_list_triv)

end
