(* ===== verification/Eeconfig.thy ===== *)
theory Eeconfig
  imports Dynamic_Keymap
begin

text \<open>
  The settings in the EEPROM (\<^verbatim>\<open>quantum/eeconfig.c\<close>, without keyboard and user data blocks) and the part of \<^verbatim>\<open>quantum/via.c\<close> that validates the area of VIA: three bytes
  made from the date of the build say whether the dynamic keymap in the EEPROM belongs to this firmware. The order of the writes is what makes an interrupted
  initialization harmless, so initialization is also given as the list of its byte updates.
\<close>

section \<open>Model\<close>

definition EECONFIG_MAGIC_NUMBER :: u16 where "EECONFIG_MAGIC_NUMBER = 0xFEE6"
definition EECONFIG_MAGIC_NUMBER_OFF :: u16 where "EECONFIG_MAGIC_NUMBER_OFF = 0xFFFF"
definition EECONFIG_MAGIC :: nat where "EECONFIG_MAGIC = 0"
definition EECONFIG_DEBUG :: nat where "EECONFIG_DEBUG = 2"
definition EECONFIG_DEFAULT_LAYER :: nat where "EECONFIG_DEFAULT_LAYER = 3"
definition EECONFIG_KEYMAP :: nat where "EECONFIG_KEYMAP = 4"
definition EECONFIG_BACKLIGHT :: nat where "EECONFIG_BACKLIGHT = 6"
definition EECONFIG_AUDIO :: nat where "EECONFIG_AUDIO = 7"
definition EECONFIG_RGBLIGHT :: nat where "EECONFIG_RGBLIGHT = 8"
definition EECONFIG_UNICODEMODE :: nat where "EECONFIG_UNICODEMODE = 12"
definition EECONFIG_STENOMODE :: nat where "EECONFIG_STENOMODE = 13"
definition EECONFIG_HANDEDNESS :: nat where "EECONFIG_HANDEDNESS = 14"
definition EECONFIG_KEYBOARD :: nat where "EECONFIG_KEYBOARD = 15"
definition EECONFIG_USER :: nat where "EECONFIG_USER = 19"
definition EECONFIG_UNUSED :: nat where "EECONFIG_UNUSED = 23"
definition EECONFIG_RGB_MATRIX :: nat where "EECONFIG_RGB_MATRIX = 24"
definition EECONFIG_HAPTIC :: nat where "EECONFIG_HAPTIC = 32"
definition EECONFIG_RGBLIGHT_EXTENDED :: nat where "EECONFIG_RGBLIGHT_EXTENDED = 36"
definition EECONFIG_SIZE :: nat where "EECONFIG_SIZE = 37"

lemmas eeconfig_addrs = EECONFIG_MAGIC_def EECONFIG_DEBUG_def EECONFIG_DEFAULT_LAYER_def EECONFIG_KEYMAP_def EECONFIG_BACKLIGHT_def EECONFIG_AUDIO_def
  EECONFIG_RGBLIGHT_def EECONFIG_UNICODEMODE_def EECONFIG_STENOMODE_def EECONFIG_HANDEDNESS_def EECONFIG_KEYBOARD_def EECONFIG_USER_def EECONFIG_UNUSED_def
  EECONFIG_RGB_MATRIX_def EECONFIG_HAPTIC_def EECONFIG_RGBLIGHT_EXTENDED_def EECONFIG_SIZE_def

subsection \<open>The area of VIA\<close>

record via_build =
  QMK_BUILDDATE :: "u8 list"
  VIA_EEPROM_LAYOUT_OPTIONS_SIZE :: nat
  VIA_EEPROM_LAYOUT_OPTIONS_DEFAULT :: u32

definition VIA_EEPROM_MAGIC_ADDR :: nat where
  "VIA_EEPROM_MAGIC_ADDR = EECONFIG_SIZE"

definition VIA_EEPROM_LAYOUT_OPTIONS_ADDR :: nat where
  "VIA_EEPROM_LAYOUT_OPTIONS_ADDR = VIA_EEPROM_MAGIC_ADDR + 3"

text \<open>\<^verbatim>\<open>magic0\<close>, \<^verbatim>\<open>magic1\<close>, \<^verbatim>\<open>magic2\<close>: year, month and day.\<close>

definition via_magic :: "via_build \<Rightarrow> nat \<Rightarrow> u8" where
  "via_magic b i = (let p = QMK_BUILDDATE b in push_bit 4 (p ! (3 * i + 2) AND 0x0F) OR (p ! (3 * i + 3) AND 0x0F))"

definition via_eeprom_is_valid :: "via_build \<Rightarrow> 'e eeprom_api \<Rightarrow> 'e \<Rightarrow> bool option" where
  "via_eeprom_is_valid b api e =
     do { v0 \<leftarrow> eeprom_read_byte api VIA_EEPROM_MAGIC_ADDR e;
          if v0 \<noteq> via_magic b 0 then Some False
          else do { v1 \<leftarrow> eeprom_read_byte api (VIA_EEPROM_MAGIC_ADDR + 1) e;
                    if v1 \<noteq> via_magic b 1 then Some False
                    else do { v2 \<leftarrow> eeprom_read_byte api (VIA_EEPROM_MAGIC_ADDR + 2) e; Some (v2 = via_magic b 2) } } }"

definition via_eeprom_set_valid :: "via_build \<Rightarrow> 'e eeprom_api \<Rightarrow> bool \<Rightarrow> 'e \<Rightarrow> 'e option" where
  "via_eeprom_set_valid b api valid e =
     do { e \<leftarrow> eeprom_update_byte api VIA_EEPROM_MAGIC_ADDR (if valid then via_magic b 0 else 0xFF) e;
          e \<leftarrow> eeprom_update_byte api (VIA_EEPROM_MAGIC_ADDR + 1) (if valid then via_magic b 1 else 0xFF) e;
          eeprom_update_byte api (VIA_EEPROM_MAGIC_ADDR + 2) (if valid then via_magic b 2 else 0xFF) e }"

definition via_get_layout_options :: "via_build \<Rightarrow> 'e eeprom_api \<Rightarrow> 'e \<Rightarrow> u32 option" where
  "via_get_layout_options b api e =
     for_upto_option (VIA_EEPROM_LAYOUT_OPTIONS_SIZE b) (\<lambda>i value. do {
       v \<leftarrow> eeprom_read_byte api (VIA_EEPROM_LAYOUT_OPTIONS_ADDR + i) e;
       Some (push_bit 8 value OR ucast v) }) 0"

text \<open>After \<open>i\<close> rounds \<^verbatim>\<open>value\<close> has been shifted by \<open>8 * i\<close> and \<^verbatim>\<open>target\<close> is \<open>i\<close> below the last byte.\<close>

definition via_set_layout_options :: "via_build \<Rightarrow> 'e eeprom_api \<Rightarrow> u32 \<Rightarrow> 'e \<Rightarrow> 'e option" where
  "via_set_layout_options b api value =
     for_upto_option (VIA_EEPROM_LAYOUT_OPTIONS_SIZE b) (\<lambda>i.
       eeprom_update_byte api (VIA_EEPROM_LAYOUT_OPTIONS_ADDR + VIA_EEPROM_LAYOUT_OPTIONS_SIZE b - 1 - i) (ucast (drop_bit (8 * i) value AND 0xFF)))"

definition eeconfig_init_via :: "via_build \<Rightarrow> dk_config \<Rightarrow> flash_keymap \<Rightarrow> 'e eeprom_api \<Rightarrow> 'e \<Rightarrow> 'e option" where
  "eeconfig_init_via b c f api e =
     do { e \<leftarrow> via_eeprom_set_valid b api False e;
          e \<leftarrow> via_set_layout_options b api (VIA_EEPROM_LAYOUT_OPTIONS_DEFAULT b) e;
          e \<leftarrow> dynamic_keymap_reset c api f e;
          e \<leftarrow> dynamic_keymap_macro_reset c api e;
          via_eeprom_set_valid b api True e }"

definition via_init :: "via_build \<Rightarrow> dk_config \<Rightarrow> flash_keymap \<Rightarrow> 'e eeprom_api \<Rightarrow> 'e \<Rightarrow> 'e option" where
  "via_init b c f api e =
     do { _ \<leftarrow> via_get_layout_options b api e;
          valid \<leftarrow> via_eeprom_is_valid b api e;
          if \<not> valid then eeconfig_init_via b c f api e else Some e }"

subsection \<open>Settings\<close>

definition eeconfig_read_debug :: "'e eeprom_api \<Rightarrow> 'e \<Rightarrow> u8 option" where
  "eeconfig_read_debug api = eeprom_read_byte api EECONFIG_DEBUG"

definition eeconfig_update_debug :: "'e eeprom_api \<Rightarrow> u8 \<Rightarrow> 'e \<Rightarrow> 'e option" where
  "eeconfig_update_debug api = eeprom_update_byte api EECONFIG_DEBUG"

definition eeconfig_read_default_layer :: "'e eeprom_api \<Rightarrow> 'e \<Rightarrow> u8 option" where
  "eeconfig_read_default_layer api = eeprom_read_byte api EECONFIG_DEFAULT_LAYER"

definition eeconfig_update_default_layer :: "'e eeprom_api \<Rightarrow> u8 \<Rightarrow> 'e \<Rightarrow> 'e option" where
  "eeconfig_update_default_layer api = eeprom_update_byte api EECONFIG_DEFAULT_LAYER"

definition eeconfig_read_keymap :: "'e eeprom_api \<Rightarrow> 'e \<Rightarrow> u16 option" where
  "eeconfig_read_keymap api = eeprom_read_word api EECONFIG_KEYMAP"

definition eeconfig_update_keymap :: "'e eeprom_api \<Rightarrow> u16 \<Rightarrow> 'e \<Rightarrow> 'e option" where
  "eeconfig_update_keymap api = eeprom_update_word api EECONFIG_KEYMAP"

definition eeconfig_read_audio :: "'e eeprom_api \<Rightarrow> 'e \<Rightarrow> u8 option" where
  "eeconfig_read_audio api = eeprom_read_byte api EECONFIG_AUDIO"

definition eeconfig_update_audio :: "'e eeprom_api \<Rightarrow> u8 \<Rightarrow> 'e \<Rightarrow> 'e option" where
  "eeconfig_update_audio api = eeprom_update_byte api EECONFIG_AUDIO"

definition eeconfig_read_kb :: "'e eeprom_api \<Rightarrow> 'e \<Rightarrow> u32 option" where
  "eeconfig_read_kb api = eeprom_read_dword api EECONFIG_KEYBOARD"

definition eeconfig_update_kb :: "'e eeprom_api \<Rightarrow> u32 \<Rightarrow> 'e \<Rightarrow> 'e option" where
  "eeconfig_update_kb api = eeprom_update_dword api EECONFIG_KEYBOARD"

definition eeconfig_read_user :: "'e eeprom_api \<Rightarrow> 'e \<Rightarrow> u32 option" where
  "eeconfig_read_user api = eeprom_read_dword api EECONFIG_USER"

definition eeconfig_update_user :: "'e eeprom_api \<Rightarrow> u32 \<Rightarrow> 'e \<Rightarrow> 'e option" where
  "eeconfig_update_user api = eeprom_update_dword api EECONFIG_USER"

definition eeconfig_read_haptic :: "'e eeprom_api \<Rightarrow> 'e \<Rightarrow> u32 option" where
  "eeconfig_read_haptic api = eeprom_read_dword api EECONFIG_HAPTIC"

definition eeconfig_update_haptic :: "'e eeprom_api \<Rightarrow> u32 \<Rightarrow> 'e \<Rightarrow> 'e option" where
  "eeconfig_update_haptic api = eeprom_update_dword api EECONFIG_HAPTIC"

definition eeconfig_read_handedness :: "'e eeprom_api \<Rightarrow> 'e \<Rightarrow> bool option" where
  "eeconfig_read_handedness api e = map_option (\<lambda>v. v \<noteq> 0) (eeprom_read_byte api EECONFIG_HANDEDNESS e)"

definition eeconfig_update_handedness :: "'e eeprom_api \<Rightarrow> bool \<Rightarrow> 'e \<Rightarrow> 'e option" where
  "eeconfig_update_handedness api val = eeprom_update_byte api EECONFIG_HANDEDNESS (if val then 1 else 0)"

definition eeconfig_init_user :: "'e eeprom_api \<Rightarrow> 'e \<Rightarrow> 'e option" where
  "eeconfig_init_user api = eeconfig_update_user api 0"

definition eeconfig_init_kb :: "'e eeprom_api \<Rightarrow> 'e \<Rightarrow> 'e option" where
  "eeconfig_init_kb api e = do { e \<leftarrow> eeconfig_update_kb api 0 e; eeconfig_init_user api e }"

subsection \<open>Initialization\<close>

text \<open>\<open>erase\<close> is \<^verbatim>\<open>eeprom_driver_erase\<close>; \<open>stk\<close> is the uninitialised buffer of \<^verbatim>\<open>eeprom_update_block\<close>. The result has the new value of \<^verbatim>\<open>default_layer_state\<close>.\<close>

definition eeconfig_init_quantum ::
  "via_build \<Rightarrow> dk_config \<Rightarrow> flash_keymap \<Rightarrow> 'e eeprom_api \<Rightarrow> ('e \<Rightarrow> 'e) \<Rightarrow> u8 list \<Rightarrow> 'e \<Rightarrow> (u8 \<times> 'e) option" where
  "eeconfig_init_quantum b c f api erase stk e =
     do { e \<leftarrow> eeprom_update_word api EECONFIG_MAGIC EECONFIG_MAGIC_NUMBER (erase e);
          e \<leftarrow> eeprom_update_byte api EECONFIG_DEBUG 0 e;
          let default_layer_state = 1;
          e \<leftarrow> eeprom_update_byte api EECONFIG_DEFAULT_LAYER default_layer_state e;
          e \<leftarrow> eeprom_update_word api EECONFIG_KEYMAP 0x1400 e;
          e \<leftarrow> eeprom_update_byte api EECONFIG_BACKLIGHT 0 e;
          e \<leftarrow> eeprom_update_byte api EECONFIG_AUDIO 0xFF e;
          e \<leftarrow> eeprom_update_dword api EECONFIG_RGBLIGHT 0 e;
          e \<leftarrow> eeprom_update_byte api EECONFIG_RGBLIGHT_EXTENDED 0 e;
          e \<leftarrow> eeprom_update_byte api EECONFIG_UNUSED 0 e;
          e \<leftarrow> eeprom_update_byte api EECONFIG_UNICODEMODE 0 e;
          e \<leftarrow> eeprom_update_byte api EECONFIG_STENOMODE 0 e;
          e \<leftarrow> eeprom_update_block api stk EECONFIG_RGB_MATRIX (replicate 8 0) e;
          e \<leftarrow> eeprom_update_dword api EECONFIG_HAPTIC 0 e;
          e \<leftarrow> via_eeprom_set_valid b api False e;
          e \<leftarrow> eeconfig_init_via b c f api e;
          e \<leftarrow> eeconfig_init_kb api e;
          Some (default_layer_state, e) }"

definition eeconfig_init ::
  "via_build \<Rightarrow> dk_config \<Rightarrow> flash_keymap \<Rightarrow> 'e eeprom_api \<Rightarrow> ('e \<Rightarrow> 'e) \<Rightarrow> u8 list \<Rightarrow> 'e \<Rightarrow> (u8 \<times> 'e) option" where
  "eeconfig_init = eeconfig_init_quantum"

definition eeconfig_enable :: "'e eeprom_api \<Rightarrow> 'e \<Rightarrow> 'e option" where
  "eeconfig_enable api = eeprom_update_word api EECONFIG_MAGIC EECONFIG_MAGIC_NUMBER"

definition eeconfig_disable :: "'e eeprom_api \<Rightarrow> ('e \<Rightarrow> 'e) \<Rightarrow> 'e \<Rightarrow> 'e option" where
  "eeconfig_disable api erase e = eeprom_update_word api EECONFIG_MAGIC EECONFIG_MAGIC_NUMBER_OFF (erase e)"

definition eeconfig_is_enabled :: "via_build \<Rightarrow> 'e eeprom_api \<Rightarrow> 'e \<Rightarrow> bool option" where
  "eeconfig_is_enabled b api e =
     do { v \<leftarrow> eeprom_read_word api EECONFIG_MAGIC e; if v = EECONFIG_MAGIC_NUMBER then via_eeprom_is_valid b api e else Some False }"

definition eeconfig_is_disabled :: "via_build \<Rightarrow> 'e eeprom_api \<Rightarrow> 'e \<Rightarrow> bool option" where
  "eeconfig_is_disabled b api e =
     do { v \<leftarrow> eeprom_read_word api EECONFIG_MAGIC e;
          if v \<noteq> EECONFIG_MAGIC_NUMBER_OFF then map_option Not (via_eeprom_is_valid b api e) else Some True }"

section \<open>Initialization as a list of updates\<close>

fun run_updates :: "'e eeprom_api \<Rightarrow> (nat \<times> u8) list \<Rightarrow> 'e \<Rightarrow> 'e option" where
  "run_updates api [] e = Some e"
| "run_updates api ((a, v) # us) e = do { e \<leftarrow> eeprom_update_byte api a v e; run_updates api us e }"

lemma run_updates_fun:
  "run_updates api [] = Some" "run_updates api ((a, v) # us) = (\<lambda>e. Option.bind (eeprom_update_byte api a v e) (run_updates api us))"
  by (rule ext, simp)+

lemma run_updates_append: "run_updates api (us @ vs) e = Option.bind (run_updates api us e) (run_updates api vs)"
  by (induction api us e rule: run_updates.induct) (simp_all split: Option.bind_split)

lemma run_updates_append_fun: "run_updates api (us @ vs) = (\<lambda>e. Option.bind (run_updates api us e) (run_updates api vs))"
  by (rule ext) (rule run_updates_append)

lemma for_upto_option_updates:
  assumes "\<And>i e. i < n \<Longrightarrow> F i e = run_updates api (us i) e"
  shows "for_upto_option n F e = run_updates api (concat (map us [0..<n])) e"
  using assms
proof (induction n)
  case (Suc n)
  have "F n = run_updates api (us n)"
    using Suc.prems by (intro ext) simp
  with Suc show ?case
    by (simp add: for_upto_option_def run_updates_append)
qed (simp add: for_upto_option_def)

definition word_updates :: "nat \<Rightarrow> u16 \<Rightarrow> (nat \<times> u8) list" where
  "word_updates a v = [(a, ucast (drop_bit 8 v)), (a + 1, ucast (v AND 0xFF))]"

definition key_updates :: "dk_config \<Rightarrow> flash_keymap \<Rightarrow> nat \<Rightarrow> (nat \<times> u8) list" where
  "key_updates c f l = concat (map (\<lambda>r. concat (map (\<lambda>k.
     word_updates (dynamic_keymap_key_to_eeprom_address c l r k) (keycode_at_keymap_location_raw c f l r k)) [0..<MATRIX_COLS c])) [0..<MATRIX_ROWS c])"

definition encoder_updates :: "dk_config \<Rightarrow> flash_keymap \<Rightarrow> nat \<Rightarrow> (nat \<times> u8) list" where
  "encoder_updates c f l = concat (map (\<lambda>i. let a = dynamic_keymap_encoder_to_eeprom_address c l i in
     word_updates a (keycode_at_encodermap_location_raw c f l i True) @ word_updates (a + 2) (keycode_at_encodermap_location_raw c f l i False))
       [0..<NUM_ENCODERS c])"

definition reset_updates :: "dk_config \<Rightarrow> flash_keymap \<Rightarrow> (nat \<times> u8) list" where
  "reset_updates c f = concat (map (\<lambda>l. key_updates c f l @ encoder_updates c f l) [0..<DYNAMIC_KEYMAP_LAYER_COUNT c])"

definition macro_updates :: "dk_config \<Rightarrow> (nat \<times> u8) list" where
  "macro_updates c = map (\<lambda>i. (DYNAMIC_KEYMAP_MACRO_EEPROM_ADDR c + i, 0)) [0..<DYNAMIC_KEYMAP_MACRO_EEPROM_SIZE c]"

definition valid_updates :: "via_build \<Rightarrow> bool \<Rightarrow> (nat \<times> u8) list" where
  "valid_updates b v = map (\<lambda>i. (VIA_EEPROM_MAGIC_ADDR + i, if v then via_magic b i else 0xFF)) [0, 1, 2]"

definition layout_updates :: "via_build \<Rightarrow> u32 \<Rightarrow> (nat \<times> u8) list" where
  "layout_updates b value = map (\<lambda>i. (VIA_EEPROM_LAYOUT_OPTIONS_ADDR + VIA_EEPROM_LAYOUT_OPTIONS_SIZE b - 1 - i, ucast (drop_bit (8 * i) value AND 0xFF)))
     [0..<VIA_EEPROM_LAYOUT_OPTIONS_SIZE b]"

definition body_updates :: "via_build \<Rightarrow> dk_config \<Rightarrow> flash_keymap \<Rightarrow> (nat \<times> u8) list" where
  "body_updates b c f = layout_updates b (VIA_EEPROM_LAYOUT_OPTIONS_DEFAULT b) @ reset_updates c f @ macro_updates c"

definition init_via_updates :: "via_build \<Rightarrow> dk_config \<Rightarrow> flash_keymap \<Rightarrow> (nat \<times> u8) list" where
  "init_via_updates b c f = valid_updates b False @ body_updates b c f @ valid_updates b True"

lemma length_valid_updates [simp]: "length (valid_updates b v) = 3"
  by (simp add: valid_updates_def)

lemma set_valid_updates: "via_eeprom_set_valid b api v e = run_updates api (valid_updates b v) e"
  by (simp add: via_eeprom_set_valid_def valid_updates_def run_updates_fun del: run_updates.simps)

lemma concat_singletons: "concat (map (\<lambda>i. [f i]) xs) = map f xs"
  by (induction xs) simp_all

lemma set_layout_updates: "via_set_layout_options b api v e = run_updates api (layout_updates b v) e"
  unfolding via_set_layout_options_def layout_updates_def by (subst concat_singletons [symmetric]) (rule for_upto_option_updates, simp add: run_updates_fun)

lemma macro_reset_updates: "dynamic_keymap_macro_reset c api e = run_updates api (macro_updates c) e"
  unfolding dynamic_keymap_macro_reset_def macro_updates_def by (subst concat_singletons [symmetric]) (rule for_upto_option_updates, simp add: run_updates_fun)

lemma set_encoder_updates:
  assumes "l < DYNAMIC_KEYMAP_LAYER_COUNT c" and "i < NUM_ENCODERS c"
  shows "dynamic_keymap_set_encoder c api l i cw v =
    run_updates api (word_updates (dynamic_keymap_encoder_to_eeprom_address c l i + (if cw then 0 else 2)) v)"
  using assms by (intro ext) (simp add: dynamic_keymap_set_encoder_def word_updates_def run_updates_fun Let_def)

lemma keymap_reset_updates: "dynamic_keymap_reset c api f e = run_updates api (reset_updates c f) e"
  unfolding dynamic_keymap_reset_def reset_updates_def
proof (rule for_upto_option_updates)
  fix l e
  assume l: "l < DYNAMIC_KEYMAP_LAYER_COUNT c"
  have "reset_keys c api f l e = run_updates api (key_updates c f l) e" for e
    unfolding reset_keys_def key_updates_def
    using l by (intro for_upto_option_updates) (simp add: dynamic_keymap_set_keycode_def word_updates_def run_updates_fun Let_def)
  moreover have "reset_encoders c api f l = run_updates api (encoder_updates c f l)"
    unfolding reset_encoders_def encoder_updates_def
    using l by (intro ext for_upto_option_updates) (simp add: set_encoder_updates run_updates_append_fun Let_def)
  ultimately show "(reset_keys c api f l e \<bind> reset_encoders c api f l) = run_updates api (key_updates c f l @ encoder_updates c f l) e"
    by (simp add: run_updates_append)
qed

lemma init_via_as_updates: "eeconfig_init_via b c f api e = run_updates api (init_via_updates b c f) e"
  by (simp add: eeconfig_init_via_def init_via_updates_def body_updates_def run_updates_append_fun Option.bind_assoc set_valid_updates set_layout_updates keymap_reset_updates
      macro_reset_updates)

text \<open>What a list of updates does to the memory.\<close>

definition put_bytes :: "(nat \<times> u8) list \<Rightarrow> u8 list \<Rightarrow> u8 list" where
  "put_bytes us m = fold (\<lambda>(a, v) m. m[a := v]) us m"

lemma put_bytes_append: "put_bytes (us @ vs) m = put_bytes vs (put_bytes us m)"
  by (simp add: put_bytes_def)

lemma length_put_bytes [simp]: "length (put_bytes us m) = length m"
  by (induction us arbitrary: m) (auto simp: put_bytes_def)

lemma put_bytes_other: "a \<notin> fst ` set us \<Longrightarrow> put_bytes us m ! a = m ! a"
proof (induction us arbitrary: m)
  case (Cons u us)
  then show ?case
    by (cases u) (simp add: put_bytes_def)
qed (simp add: put_bytes_def)

lemma put_bytes_take_other: "a \<notin> fst ` set us \<Longrightarrow> put_bytes (take n us) m ! a = m ! a"
  by (rule put_bytes_other) (auto dest: in_set_takeD)

definition bytes_at :: "nat \<Rightarrow> u8 list \<Rightarrow> (nat \<times> u8) list" where
  "bytes_at a bs = zip [a..<a + length bs] bs"

lemma bytes_at_Cons: "bytes_at a (x # bs) = (a, x) # bytes_at (Suc a) bs"
  by (simp add: bytes_at_def upt_conv_Cons del: upt_Suc)

lemma put_bytes_at: "a + length bs \<le> length m \<Longrightarrow> put_bytes (bytes_at a bs) m = memcpy_at a bs m"
proof (induction bs arbitrary: a m)
  case (Cons x bs)
  then have "put_bytes (bytes_at a (x # bs)) m = memcpy_at (Suc a) bs (m[a := x])"
    by (simp add: bytes_at_Cons put_bytes_def)
  also have "\<dots> = memcpy_at a (x # bs) m"
    using Cons.prems by (intro nth_equalityI) (auto simp: nth_memcpy_at nth_Cons' nth_list_update)
  finally show ?case .
qed (simp add: bytes_at_def put_bytes_def memcpy_at_def)

context eeprom_laws
begin

lemma run_updates_mem:
  assumes "ok e" and "\<forall>a\<in>fst ` set us. a < size"
  shows "\<exists>e'. run_updates api us e = Some e' \<and> ok e' \<and> mem e' = put_bytes us (mem e)"
  using assms
proof (induction us arbitrary: e)
  case (Cons u us)
  obtain a v where u: "u = (a, v)"
    by fastforce
  have "a < 2 ^ 32 - 1"
    using Cons.prems(2) size_bound u by simp
  then obtain e1 where "eeprom_update_byte api a v e = Some e1" "ok e1" "mem e1 = (mem e)[a := v]"
    using update_byte [OF Cons.prems(1)] Cons.prems(2) u by fastforce
  with Cons.IH [of e1] Cons.prems(2) show ?case
    by (auto simp: u put_bytes_def)
qed (simp add: put_bytes_def)

text \<open>A function that stores these bytes. The rules compose the functions of the settings.\<close>

definition stores :: "('e \<Rightarrow> 'e option) \<Rightarrow> (nat \<times> u8) list \<Rightarrow> bool" where
  "stores F us \<longleftrightarrow> (\<forall>e. ok e \<longrightarrow> (\<exists>e'. F e = Some e' \<and> ok e' \<and> mem e' = put_bytes us (mem e)))"

lemma storesD: "stores F us \<Longrightarrow> ok e \<Longrightarrow> \<exists>e'. F e = Some e' \<and> ok e' \<and> mem e' = put_bytes us (mem e)"
  by (simp add: stores_def)

lemma stores_updates: "(\<And>a v. (a, v) \<in> set us \<Longrightarrow> a < size) \<Longrightarrow> stores (run_updates api us) us"
  using run_updates_mem [of _ us] by (force simp: stores_def)

lemma stores_bind: "stores F us \<Longrightarrow> stores G vs \<Longrightarrow> stores (\<lambda>e. Option.bind (F e) G) (us @ vs)"
  by (fastforce simp: stores_def put_bytes_append)

lemma stores_byte: "a < size \<Longrightarrow> stores (eeprom_update_byte api a v) (bytes_at a [v])"
  using stores_updates [of "[(a, v)]"] by (simp add: run_updates_fun bytes_at_def)

lemma stores_word: "a + 2 \<le> size \<Longrightarrow> stores (eeprom_update_word api a v) (bytes_at a (u16_bytes v))"
  using update_word [of _ a v] length_mem by (fastforce simp: stores_def put_bytes_at)

lemma stores_dword: "a + 4 \<le> size \<Longrightarrow> stores (eeprom_update_dword api a v) (bytes_at a (u32_bytes v))"
  using update_dword [of _ a v] length_mem by (fastforce simp: stores_def put_bytes_at)

lemma stores_block: "a + length bs \<le> size \<Longrightarrow> length bs \<le> length stk \<Longrightarrow> stores (eeprom_update_block api stk a bs) (bytes_at a bs)"
  using update_block [of _ a bs stk] length_mem by (fastforce simp: stores_def put_bytes_at)

lemmas stores_rules = stores_bind stores_byte stores_word stores_dword stores_block

end

section \<open>The contract of the EEPROM with the area of VIA\<close>

locale via_eeprom = keymap_eeprom +
  fixes b :: via_build
  assumes area: "VIA_EEPROM_LAYOUT_OPTIONS_ADDR + VIA_EEPROM_LAYOUT_OPTIONS_SIZE b \<le> DYNAMIC_KEYMAP_EEPROM_ADDR c"
    and digits: "i < 3 \<Longrightarrow> via_magic b i \<noteq> 0xFF"
begin

abbreviation magic :: nat where
  "magic \<equiv> VIA_EEPROM_MAGIC_ADDR"

lemma keymap_below_macros: "DYNAMIC_KEYMAP_EEPROM_ADDR c \<le> macro_base"
  by (simp add: DYNAMIC_KEYMAP_MACRO_EEPROM_ADDR_def DYNAMIC_KEYMAP_ENCODER_EEPROM_ADDR_def)

lemma slot_updates_range:
  assumes "(a, w) \<in> set (word_updates (slot_addr c s) v)" and "valid_slot c s"
  shows "DYNAMIC_KEYMAP_EEPROM_ADDR c \<le> a \<and> a < macro_base"
  using slot_addr_less [OF assms(2)] assms(1) by (auto simp: word_updates_def slot_addr_def)

lemma reset_range:
  assumes "(a, w) \<in> set (reset_updates c f)"
  shows "DYNAMIC_KEYMAP_EEPROM_ADDR c \<le> a \<and> a < macro_base"
proof -
  from assms obtain l where l: "l < DYNAMIC_KEYMAP_LAYER_COUNT c" and "(a, w) \<in> set (key_updates c f l) \<or> (a, w) \<in> set (encoder_updates c f l)"
    by (auto simp: reset_updates_def)
  then show ?thesis
  proof (elim disjE)
    assume "(a, w) \<in> set (key_updates c f l)"
    then obtain r k v where "r < MATRIX_ROWS c" "k < MATRIX_COLS c" "(a, w) \<in> set (word_updates (slot_addr c (Key_slot l r k)) v)"
      by (auto simp: key_updates_def key_slot_addr)
    with l show ?thesis
      using slot_updates_range [of a w "Key_slot l r k" v] by simp
  next
    assume "(a, w) \<in> set (encoder_updates c f l)"
    then obtain i where i: "i < NUM_ENCODERS c" and a: "(a, w) \<in> set (word_updates (slot_addr c (Encoder_slot l i True)) (keycode_at_encodermap_location_raw c f l i True)) \<or>
        (a, w) \<in> set (word_updates (slot_addr c (Encoder_slot l i False)) (keycode_at_encodermap_location_raw c f l i False))"
      unfolding encoder_updates_def Let_def by (auto simp flip: encoder_slot_addr)
    from a show ?thesis
      using l i slot_updates_range [of a w "Encoder_slot l i True"] slot_updates_range [of a w "Encoder_slot l i False"] by auto
  qed
qed

lemma body_range: "a \<in> fst ` set (body_updates b c f) \<Longrightarrow> magic + 3 \<le> a \<and> a < size"
proof -
  assume "a \<in> fst ` set (body_updates b c f)"
  then consider "a \<in> fst ` set (layout_updates b (VIA_EEPROM_LAYOUT_OPTIONS_DEFAULT b))" | "a \<in> fst ` set (reset_updates c f)" | "a \<in> fst ` set (macro_updates c)"
    by (auto simp: body_updates_def image_Un)
  then show ?thesis
  proof cases
    case 1
    then show ?thesis
      using area keymap_below_macros macro_end by (auto simp: layout_updates_def VIA_EEPROM_LAYOUT_OPTIONS_ADDR_def)
  next
    case 2
    then show ?thesis
      using area reset_range [of a _ f] macro_end by (force simp: VIA_EEPROM_LAYOUT_OPTIONS_ADDR_def)
  next
    case 3
    then show ?thesis
      using area keymap_below_macros macro_end by (auto simp: macro_updates_def VIA_EEPROM_LAYOUT_OPTIONS_ADDR_def)
  qed
qed

lemma magic_range: "magic + 3 \<le> size"
  using area keymap_below_macros macro_end by (simp add: VIA_EEPROM_LAYOUT_OPTIONS_ADDR_def)

lemma is_valid_spec: "ok e \<Longrightarrow> via_eeprom_is_valid b api e = Some (\<forall>i<3. mem e ! (magic + i) = via_magic b i)"
proof -
  assume "ok e"
  then have "eeprom_read_byte api magic e = Some (mem e ! magic)" "eeprom_read_byte api (magic + 1) e = Some (mem e ! (magic + 1))"
      "eeprom_read_byte api (magic + 2) e = Some (mem e ! (magic + 2))"
    using magic_range by (intro read_in; simp)+
  then show ?thesis
    by (auto simp: via_eeprom_is_valid_def less_Suc_eq numeral_eq_Suc)
qed

lemma init_range: "a \<in> fst ` set (init_via_updates b c f) \<Longrightarrow> a < size"
  using body_range [of a f] magic_range by (auto simp: init_via_updates_def valid_updates_def image_Un)

lemma magic_not_body: "i < 3 \<Longrightarrow> magic + i \<notin> fst ` set (body_updates b c f)"
  using body_range [of "magic + i" f] by auto

text \<open>An initialization that stops after some of its updates but not all of them leaves a byte of the magic erased.\<close>

lemma interrupted_byte:
  assumes "0 < n" and "n < length (init_via_updates b c f)" and "length m = size"
  shows "\<exists>i<3. put_bytes (take n (init_via_updates b c f)) m ! (magic + i) = 0xFF"
proof (cases "n \<le> 3 + length (body_updates b c f)")
  case True
  then have "take n (init_via_updates b c f) = take n (valid_updates b False) @ take (n - 3) (body_updates b c f)"
    by (simp add: init_via_updates_def)
  moreover have "put_bytes (take n (valid_updates b False)) m ! magic = 0xFF"
    using assms magic_range by (cases n; cases "n - 1"; cases "n - 2") (auto simp: valid_updates_def put_bytes_def)
  ultimately show ?thesis
    using put_bytes_take_other [OF magic_not_body [of 0 f]] by (intro exI [of _ 0]) (simp add: put_bytes_append)
next
  case False
  let ?k = "n - 3 - length (body_updates b c f)"
  have k: "?k = 1 \<or> ?k = 2"
    using False assms(2) by (auto simp: init_via_updates_def valid_updates_def)
  have "take n (init_via_updates b c f) = valid_updates b False @ body_updates b c f @ take ?k (valid_updates b True)"
    using False by (simp add: init_via_updates_def)
  moreover have "put_bytes (valid_updates b False) m ! (magic + 2) = 0xFF"
    using assms magic_range by (auto simp: valid_updates_def put_bytes_def)
  moreover have "put_bytes (take ?k (valid_updates b True)) m' ! (magic + 2) = m' ! (magic + 2)" for m'
    using k by (auto simp: valid_updates_def put_bytes_def)
  ultimately show ?thesis
    using put_bytes_other [OF magic_not_body [of 2 f]] by (intro exI [of _ 2]) (simp add: put_bytes_append)
qed

lemma interrupted_invalid:
  assumes "ok e" and "0 < n" and "n < length (init_via_updates b c f)"
  shows "\<exists>e'. run_updates api (take n (init_via_updates b c f)) e = Some e' \<and> ok e' \<and> via_eeprom_is_valid b api e' = Some False"
proof -
  obtain e' where e': "run_updates api (take n (init_via_updates b c f)) e = Some e'" "ok e'" "mem e' = put_bytes (take n (init_via_updates b c f)) (mem e)"
    using run_updates_mem [OF assms(1), of "take n (init_via_updates b c f)"] init_range [of _ f] by (auto dest: in_set_takeD)
  obtain i where "i < 3" "mem e' ! (magic + i) = 0xFF"
    using interrupted_byte [OF assms(2,3) length_mem [OF assms(1)]] e'(3) by auto
  then have "\<not> (\<forall>i<3. mem e' ! (magic + i) = via_magic b i)"
    using digits [of i] by metis
  with e' is_valid_spec [OF e'(2)] show ?thesis
    by auto
qed

text \<open>A completed initialization.\<close>

lemma stores_init_via: "stores (eeconfig_init_via b c f api) (init_via_updates b c f)"
proof -
  have "eeconfig_init_via b c f api = run_updates api (init_via_updates b c f)"
    by (rule ext) (rule init_via_as_updates)
  with stores_updates [of "init_via_updates b c f"] init_range [of _ f] show ?thesis
    by force
qed

lemma body_keeps: "a < magic + 3 \<Longrightarrow> put_bytes (body_updates b c f) m ! a = m ! a"
  using body_range [of a f] by (intro put_bytes_other) auto

lemma valid_keeps: "a < magic \<or> magic + 3 \<le> a \<Longrightarrow> put_bytes (valid_updates b v) m ! a = m ! a"
  by (rule put_bytes_other) (auto simp: valid_updates_def)

lemma init_via_keeps: "a < magic \<Longrightarrow> put_bytes (init_via_updates b c f) m ! a = m ! a"
  by (simp add: init_via_updates_def put_bytes_append valid_keeps body_keeps)

lemma valid_puts:
  assumes "magic + 3 \<le> length m" and "i < 3"
  shows "put_bytes (valid_updates b v) m ! (magic + i) = (if v then via_magic b i else 0xFF)"
  using assms by (auto simp: valid_updates_def put_bytes_def less_Suc_eq numeral_eq_Suc)

lemma init_via_magic: "length m = size \<Longrightarrow> i < 3 \<Longrightarrow> put_bytes (init_via_updates b c f) m ! (magic + i) = via_magic b i"
  using magic_range by (simp add: init_via_updates_def put_bytes_append valid_puts)

lemma init_via_slots:
  assumes "ok e" and "eeconfig_init_via b c f api e = Some e'" and "ok e'" and "mem e' = put_bytes (init_via_updates b c f) (mem e)" and s: "valid_slot c s"
  shows "get_slot c api s e' = Some (flash_slot f s)"
proof -
  let ?us = "valid_updates b False @ layout_updates b (VIA_EEPROM_LAYOUT_OPTIONS_DEFAULT b)"
  have "stores (run_updates api ?us) ?us"
    using init_range [of _ f] by (intro stores_updates) (force simp: init_via_updates_def body_updates_def image_Un)
  then obtain e1 where e1: "ok e1" "mem e1 = put_bytes ?us (mem e)"
    using storesD assms(1) by blast
  obtain e2 where e2: "dynamic_keymap_reset c api f e1 = Some e2" "ok e2" "get_slot c api s e2 = Some (flash_slot f s)"
    using reset_spec [OF e1(1), of f] s by blast
  have "mem e2 = put_bytes (reset_updates c f) (mem e1)"
  proof -
    have "(a, v) \<in> set (reset_updates c f) \<Longrightarrow> a < size" for a v
      using reset_range [of a v f] macro_end by simp
    from storesD [OF stores_updates [of "reset_updates c f", OF this] e1(1)] e2(1) show ?thesis
      by (simp add: keymap_reset_updates)
  qed
  then have mem: "mem e' = put_bytes (macro_updates c @ valid_updates b True) (mem e2)"
    using e1(2) assms(4) by (simp add: init_via_updates_def body_updates_def put_bytes_append)
  have "mem e' ! a = mem e2 ! a" if "DYNAMIC_KEYMAP_EEPROM_ADDR c \<le> a" "a < macro_base" for a
    unfolding mem using that area
    by (intro put_bytes_other) (auto simp: macro_updates_def valid_updates_def VIA_EEPROM_LAYOUT_OPTIONS_ADDR_def)
  moreover have "DYNAMIC_KEYMAP_EEPROM_ADDR c \<le> slot_addr c s" "slot_addr c s + 1 < macro_base"
    using slot_addr_less [OF s] by (simp_all add: slot_addr_def)
  ultimately show ?thesis
    using get_slot_spec [OF assms(3) s] get_slot_spec [OF e2(2) s] e2(3) by (simp add: be_at_def)
qed

lemma init_via_spec:
  assumes "ok e"
  shows "\<exists>e'. eeconfig_init_via b c f api e = Some e' \<and> ok e' \<and> mem e' = put_bytes (init_via_updates b c f) (mem e) \<and>
    via_eeprom_is_valid b api e' = Some True \<and> (\<forall>s. valid_slot c s \<longrightarrow> get_slot c api s e' = Some (flash_slot f s)) \<and> (\<forall>a<magic. mem e' ! a = mem e ! a)"
proof -
  obtain e' where e': "eeconfig_init_via b c f api e = Some e'" "ok e'" "mem e' = put_bytes (init_via_updates b c f) (mem e)"
    using storesD [OF stores_init_via assms] by blast
  have "via_eeprom_is_valid b api e' = Some True"
    using is_valid_spec [OF e'(2)] e'(3) init_via_magic [OF length_mem [OF assms]] by simp
  with e' init_via_slots [OF assms e'] init_via_keeps show ?thesis
    by auto
qed

lemma layout_byte:
  assumes "length m = size" and "i < VIA_EEPROM_LAYOUT_OPTIONS_SIZE b"
  shows "put_bytes (layout_updates b v) m ! (VIA_EEPROM_LAYOUT_OPTIONS_ADDR + i) = ucast (drop_bit (8 * (VIA_EEPROM_LAYOUT_OPTIONS_SIZE b - 1 - i)) v)"
proof -
  let ?n = "VIA_EEPROM_LAYOUT_OPTIONS_SIZE b" and ?A = VIA_EEPROM_LAYOUT_OPTIONS_ADDR
  define g where "g j = (?A + ?n - 1 - j, ucast (drop_bit (8 * j) v AND 0xFF) :: u8)" for j
  let ?j = "?n - 1 - i"
  have j: "?j < ?n" "?A + ?n - 1 - ?j = ?A + i"
    using assms(2) by simp_all
  have split: "layout_updates b v = map g [0..<?j] @ [g ?j] @ map g [Suc ?j..<?n]"
    using upt_add_eq_append [of 0 "?j" "?n - ?j"] j(1) by (simp add: layout_updates_def g_def upt_conv_Cons)
  have in_m: "?A + i < length m"
    using assms area keymap_below_macros macro_end by simp
  have other: "?A + i \<notin> fst ` set (map g [Suc ?j..<?n])"
    using j by (auto simp: g_def)
  have low: "ucast (x AND 0xFF) = (ucast x :: u8)" for x :: u32
  proof -
    have "x AND 0xFF = take_bit 8 x"
      by (simp add: take_bit_eq_mask mask_eq_exp_minus_1)
    then show ?thesis
      by (auto simp: bit_simps intro: bit_word_eqI)
  qed
  show ?thesis
    unfolding split put_bytes_append put_bytes_other [OF other]
    using in_m j low by (simp add: put_bytes_def [of "[_]"] g_def)
qed

lemma layout_step: "push_bit 8 (take_bit (8 * k) (drop_bit (8 * Suc n) v)) OR ucast (ucast (drop_bit (8 * n) v) :: u8) = take_bit (8 * Suc k) (drop_bit (8 * n) (v :: u32))"
  by (rule bit_word_eqI) (auto simp: bit_simps algebra_simps)

lemma layout_roundtrip:
  assumes "ok e"
  shows "\<exists>e'. via_set_layout_options b api v e = Some e' \<and> ok e' \<and>
    via_get_layout_options b api e' = Some (take_bit (8 * VIA_EEPROM_LAYOUT_OPTIONS_SIZE b) v)"
proof -
  let ?n = "VIA_EEPROM_LAYOUT_OPTIONS_SIZE b" and ?A = VIA_EEPROM_LAYOUT_OPTIONS_ADDR
  have "?A + ?n \<le> size"
    using area keymap_below_macros macro_end by simp
  then have "stores (run_updates api (layout_updates b v)) (layout_updates b v)"
    by (intro stores_updates) (auto simp: layout_updates_def)
  then obtain e' where e': "via_set_layout_options b api v e = Some e'" "ok e'" "mem e' = put_bytes (layout_updates b v) (mem e)"
    using storesD assms unfolding set_layout_updates by blast
  have byte: "eeprom_read_byte api (?A + i) e' = Some (ucast (drop_bit (8 * (?n - 1 - i)) v))" if "i < ?n" for i
    using read_in [OF e'(2), of "?A + i"] layout_byte [OF length_mem [OF assms] that] that \<open>?A + ?n \<le> size\<close> e'(3) by simp
  have "\<exists>w. via_get_layout_options b api e' = Some w \<and> w = take_bit (8 * ?n) (drop_bit (8 * (?n - ?n)) v)"
    unfolding via_get_layout_options_def
  proof (rule for_upto_option_rule [where P = "\<lambda>k w. w = take_bit (8 * k) (drop_bit (8 * (?n - k)) v)"])
    fix k w
    assume k: "k < ?n" and w: "w = take_bit (8 * k) (drop_bit (8 * (?n - k)) v)"
    then have n: "?n - k = Suc (?n - 1 - k)" "?n - Suc k = ?n - 1 - k"
      by simp_all
    have "push_bit 8 w OR ucast (ucast (drop_bit (8 * (?n - 1 - k)) v) :: u8) = take_bit (8 * Suc k) (drop_bit (8 * (?n - Suc k)) v)"
      unfolding w n by (rule layout_step)
    then show "\<exists>w'. (eeprom_read_byte api (?A + k) e' \<bind> (\<lambda>x. Some (push_bit 8 w OR ucast x))) = Some w' \<and>
        w' = take_bit (8 * Suc k) (drop_bit (8 * (?n - Suc k)) v)"
      unfolding byte [OF k] by (simp only: bind.bind_lunit option.inject) blast
  qed simp
  with e' show ?thesis
    by simp
qed

lemma get_layout_total: "ok e \<Longrightarrow> \<exists>v. via_get_layout_options b api e = Some v"
proof -
  assume e: "ok e"
  have "\<exists>v. via_get_layout_options b api e = Some v \<and> True"
    unfolding via_get_layout_options_def
  proof (rule for_upto_option_rule)
    fix i v
    assume "i < VIA_EEPROM_LAYOUT_OPTIONS_SIZE b"
    then show "\<exists>v'. (eeprom_read_byte api (VIA_EEPROM_LAYOUT_OPTIONS_ADDR + i) e \<bind> (\<lambda>x. Some (push_bit 8 v OR ucast x))) = Some v' \<and> True"
      using read_in [OF e, of "VIA_EEPROM_LAYOUT_OPTIONS_ADDR + i"] area keymap_below_macros macro_end by simp
  qed simp
  then show ?thesis
    by simp
qed

lemma via_init_repairs:
  assumes "ok e" and "via_eeprom_is_valid b api e = Some False"
  shows "\<exists>e'. via_init b c f api e = Some e' \<and> ok e' \<and> via_eeprom_is_valid b api e' = Some True \<and>
    (\<forall>s. valid_slot c s \<longrightarrow> get_slot c api s e' = Some (flash_slot f s))"
  using get_layout_total [OF assms(1)] init_via_spec [OF assms(1), of f] assms(2) by (auto simp: via_init_def)

end

section \<open>All settings\<close>

locale erasable_eeprom = via_eeprom +
  fixes erase :: "'a \<Rightarrow> 'a" and stk :: "u8 list"
  assumes erase: "ok e \<Longrightarrow> ok (erase e) \<and> mem (erase e) = replicate size 0"
    and stk: "8 \<le> length stk"
begin

definition settings :: "(nat \<times> u8) list" where
  "settings = bytes_at 0 (u16_bytes EECONFIG_MAGIC_NUMBER) @ bytes_at 2 [0] @ bytes_at 3 [1] @ bytes_at 4 (u16_bytes 0x1400) @ bytes_at 6 [0] @ bytes_at 7 [0xFF] @
     bytes_at 8 (u32_bytes 0) @ bytes_at 36 [0] @ bytes_at 23 [0] @ bytes_at 12 [0] @ bytes_at 13 [0] @ bytes_at 24 (replicate 8 0) @ bytes_at 32 (u32_bytes 0) @
     valid_updates b False"

definition init_updates :: "flash_keymap \<Rightarrow> (nat \<times> u8) list" where
  "init_updates f = settings @ init_via_updates b c f @ bytes_at 15 (u32_bytes 0) @ bytes_at 19 (u32_bytes 0)"

lemma base_range: "40 \<le> size"
  using magic_range by (simp add: VIA_EEPROM_MAGIC_ADDR_def eeconfig_addrs)

lemma stores_set_valid: "stores (via_eeprom_set_valid b api v) (valid_updates b v)"
proof -
  have "via_eeprom_set_valid b api v = run_updates api (valid_updates b v)"
    by (rule ext) (rule set_valid_updates)
  with stores_updates [of "valid_updates b v"] magic_range show ?thesis
    by (fastforce simp: valid_updates_def)
qed

lemma stores_init_kb: "stores (eeconfig_init_kb api) (bytes_at 15 (u32_bytes 0) @ bytes_at 19 (u32_bytes 0))"
  unfolding eeconfig_init_kb_def eeconfig_init_user_def eeconfig_update_kb_def eeconfig_update_user_def eeconfig_addrs
  using base_range by (intro stores_rules) simp_all

lemma init_as_stores:
  assumes "ok e"
  shows "\<exists>e'. eeconfig_init b c f api erase stk e = Some (1, e') \<and> ok e' \<and> mem e' = put_bytes (init_updates f) (replicate size 0)"
proof -
  define S where "S e = do { e \<leftarrow> eeprom_update_word api EECONFIG_MAGIC EECONFIG_MAGIC_NUMBER e; e \<leftarrow> eeprom_update_byte api EECONFIG_DEBUG 0 e;
      e \<leftarrow> eeprom_update_byte api EECONFIG_DEFAULT_LAYER 1 e; e \<leftarrow> eeprom_update_word api EECONFIG_KEYMAP 0x1400 e; e \<leftarrow> eeprom_update_byte api EECONFIG_BACKLIGHT 0 e;
      e \<leftarrow> eeprom_update_byte api EECONFIG_AUDIO 0xFF e; e \<leftarrow> eeprom_update_dword api EECONFIG_RGBLIGHT 0 e; e \<leftarrow> eeprom_update_byte api EECONFIG_RGBLIGHT_EXTENDED 0 e;
      e \<leftarrow> eeprom_update_byte api EECONFIG_UNUSED 0 e; e \<leftarrow> eeprom_update_byte api EECONFIG_UNICODEMODE 0 e; e \<leftarrow> eeprom_update_byte api EECONFIG_STENOMODE 0 e;
      e \<leftarrow> eeprom_update_block api stk EECONFIG_RGB_MATRIX (replicate 8 0) e; e \<leftarrow> eeprom_update_dword api EECONFIG_HAPTIC 0 e;
      e \<leftarrow> via_eeprom_set_valid b api False e; e \<leftarrow> eeconfig_init_via b c f api e; eeconfig_init_kb api e }" for e
  have "stores S (init_updates f)"
    unfolding S_def init_updates_def settings_def append_assoc eeconfig_addrs
    using base_range stk by (intro stores_bind stores_byte stores_word stores_dword stores_block stores_set_valid stores_init_via stores_init_kb) simp_all
  then obtain e' where e': "S (erase e) = Some e'" "ok e'" "mem e' = put_bytes (init_updates f) (replicate size 0)"
    using storesD erase [OF assms] by metis
  have "eeconfig_init b c f api erase stk e = map_option (Pair 1) (S (erase e))"
    by (simp add: eeconfig_init_def eeconfig_init_quantum_def S_def Let_def map_conv_bind_option Option.bind_assoc comp_def)
  with e' show ?thesis
    by simp
qed

lemma bytes_at_range: "(a, v) \<in> set (bytes_at a' bs) \<Longrightarrow> a' \<le> a \<and> a < a' + length bs"
  by (auto simp: bytes_at_def dest: set_zip_leftD)

lemma settings_mem:
  assumes "length m = size"
  shows "put_bytes settings m ! 0 = 0xE6" "put_bytes settings m ! 1 = 0xFE" "put_bytes settings m ! 3 = 1" "put_bytes settings m ! 4 = 0" "put_bytes settings m ! 5 = 0x14"
proof -
  define head where "head = bytes_at 0 (u16_bytes EECONFIG_MAGIC_NUMBER) @ bytes_at 2 [0] @ bytes_at 3 [1] @ bytes_at 4 (u16_bytes 0x1400)"
  obtain rest where rest: "settings = head @ rest" and far: "a \<notin> fst ` set rest" if "a < 6" for a
  proof
    show "settings = head @ drop (length head) settings"
      by (simp add: settings_def head_def)
    show "a \<notin> fst ` set (drop (length head) settings)" if "a < 6" for a
      using that by (auto simp: settings_def head_def valid_updates_def VIA_EEPROM_MAGIC_ADDR_def EECONFIG_SIZE_def dest!: bytes_at_range)
  qed
  have "put_bytes settings m ! a = put_bytes head m ! a" if "a < 6" for a
    unfolding rest [OF that] put_bytes_append by (rule put_bytes_other [OF far [OF that]])
  moreover have "put_bytes head m ! 0 = 0xE6" "put_bytes head m ! 1 = 0xFE" "put_bytes head m ! 3 = 1" "put_bytes head m ! 4 = 0" "put_bytes head m ! 5 = 0x14"
    using assms base_range by (simp_all add: head_def u16_bytes_def bytes_at_Cons bytes_at_def [of _ "[]"] put_bytes_def EECONFIG_MAGIC_NUMBER_def)
  ultimately show "put_bytes settings m ! 0 = 0xE6" "put_bytes settings m ! 1 = 0xFE" "put_bytes settings m ! 3 = 1" "put_bytes settings m ! 4 = 0"
      "put_bytes settings m ! 5 = 0x14"
    by simp_all
qed

lemma settings_range: "(a, v) \<in> set settings \<Longrightarrow> a < size"
  using base_range by (auto simp: settings_def valid_updates_def VIA_EEPROM_MAGIC_ADDR_def EECONFIG_SIZE_def dest!: bytes_at_range)

lemma kb_keeps: "a < 15 \<or> 23 \<le> a \<Longrightarrow> put_bytes (bytes_at 15 (u32_bytes 0) @ bytes_at 19 (u32_bytes 0)) m ! a = m ! a"
  by (rule put_bytes_other) (auto dest!: bytes_at_range)

lemma init_mem:
  assumes "ok e"
  shows "\<exists>e' e1. eeconfig_init b c f api erase stk e = Some (1, e') \<and> ok e' \<and> ok e1 \<and> (\<forall>s. valid_slot c s \<longrightarrow> get_slot c api s e1 = Some (flash_slot f s)) \<and>
    (\<forall>i<3. mem e1 ! (magic + i) = via_magic b i) \<and> (\<forall>a<magic. mem e1 ! a = put_bytes settings (replicate size 0) ! a) \<and> (\<forall>a. a < 15 \<or> 23 \<le> a \<longrightarrow> mem e' ! a = mem e1 ! a)"
proof -
  obtain e' where e': "eeconfig_init b c f api erase stk e = Some (1, e')" "ok e'" "mem e' = put_bytes (init_updates f) (replicate size 0)"
    using init_as_stores [OF assms] by blast
  obtain e0 where e0: "ok e0" "mem e0 = put_bytes settings (replicate size 0)"
    using storesD [OF stores_updates [of settings], of "erase e"] settings_range erase [OF assms] by auto
  obtain e1 where e1: "ok e1" "mem e1 = put_bytes (init_via_updates b c f) (mem e0)" "\<forall>s. valid_slot c s \<longrightarrow> get_slot c api s e1 = Some (flash_slot f s)"
      "\<forall>a<magic. mem e1 ! a = mem e0 ! a"
    using init_via_spec [OF e0(1)] by blast
  have "mem e' ! a = mem e1 ! a" if "a < 15 \<or> 23 \<le> a" for a
    unfolding e'(3) init_updates_def put_bytes_append e0(2) [symmetric] e1(2) [symmetric] using kb_keeps [OF that] by (simp add: put_bytes_append)
  with e' e1 e0(2) init_via_magic [of "mem e0" _ f] show ?thesis
    by (intro exI [of _ e'] exI [of _ e1]) simp
qed

lemma init_spec:
  assumes "ok e"
  shows "\<exists>e'. eeconfig_init b c f api erase stk e = Some (1, e') \<and> ok e' \<and> eeconfig_is_enabled b api e' = Some True \<and>
    eeconfig_read_default_layer api e' = Some 1 \<and> eeconfig_read_keymap api e' = Some 0x1400 \<and> (\<forall>s. valid_slot c s \<longrightarrow> get_slot c api s e' = Some (flash_slot f s))"
proof -
  obtain e' e1 where e': "eeconfig_init b c f api erase stk e = Some (1, e')" "ok e'" and e1: "ok e1" "\<forall>s. valid_slot c s \<longrightarrow> get_slot c api s e1 = Some (flash_slot f s)"
      "\<forall>i<3. mem e1 ! (magic + i) = via_magic b i" "\<forall>a<magic. mem e1 ! a = put_bytes settings (replicate size 0) ! a" and same: "\<forall>a. a < 15 \<or> 23 \<le> a \<longrightarrow> mem e' ! a = mem e1 ! a"
    using init_mem [OF assms] by blast
  have m: "magic = 37"
    by (simp add: VIA_EEPROM_MAGIC_ADDR_def EECONFIG_SIZE_def)
  have mem: "mem e' ! 0 = 0xE6" "mem e' ! 1 = 0xFE" "mem e' ! 3 = 1" "mem e' ! 4 = 0" "mem e' ! 5 = 0x14"
    using same e1(4) settings_mem [of "replicate size 0"] m by simp_all
  have word: "eeprom_read_word api a e' = Some (bytes_u16 [mem e' ! a, mem e' ! (a + 1)])" if "a + 2 \<le> size" for a
  proof -
    have "subarr a 2 (mem e') = [mem e' ! a, mem e' ! (a + 1)]"
      using that length_mem [OF e'(2)] by (intro nth_equalityI) (auto simp: subarr_def less_Suc_eq numeral_2_eq_2)
    moreover have "a + 2 < 2 ^ 32"
      using that size_bound by simp
    ultimately show ?thesis
      using that read_block [OF e'(2), of a "u16_bytes 0"] by (simp add: eeprom_read_word_def)
  qed
  have valid: "via_eeprom_is_valid b api e' = Some True"
    using is_valid_spec [OF e'(2)] e1(3) same m by simp
  have "eeconfig_is_enabled b api e' = Some True"
    using word [of 0] base_range mem valid by (simp add: eeconfig_is_enabled_def EECONFIG_MAGIC_def EECONFIG_MAGIC_NUMBER_def bytes_u16_def)
  moreover have "eeconfig_read_keymap api e' = Some 0x1400"
    using word [of 4] base_range mem by (simp add: eeconfig_read_keymap_def EECONFIG_KEYMAP_def bytes_u16_def)
  moreover have "eeconfig_read_default_layer api e' = Some 1"
    using read_in [OF e'(2), of 3] base_range mem by (simp add: eeconfig_read_default_layer_def EECONFIG_DEFAULT_LAYER_def)
  moreover have "get_slot c api s e' = Some (flash_slot f s)" if s: "valid_slot c s" for s
  proof -
    have "23 \<le> slot_addr c s"
      using area by (simp add: slot_addr_def VIA_EEPROM_LAYOUT_OPTIONS_ADDR_def m)
    then show ?thesis
      using get_slot_spec [OF e'(2) s] get_slot_spec [OF e1(1) s] e1(2) s same by (simp add: be_at_def)
  qed
  ultimately show ?thesis
    using e' by blast
qed

end

section \<open>The settings in the wear-leveled EEPROM\<close>

definition via_build_ok :: "dk_config \<Rightarrow> via_build \<Rightarrow> bool" where
  "via_build_ok c b \<longleftrightarrow> VIA_EEPROM_LAYOUT_OPTIONS_ADDR + VIA_EEPROM_LAYOUT_OPTIONS_SIZE b \<le> DYNAMIC_KEYMAP_EEPROM_ADDR c \<and> (\<forall>i<3. via_magic b i \<noteq> 0xFF)"

lemma wl_via:
  assumes "backing_store_laws drv cfg valid cells opened" and "dk_static_asserts (lsize cfg) c" and "via_build_ok c b"
  shows "via_eeprom (wl_eeprom drv cfg) (wl_settled cfg valid cells opened) cache (lsize cfg) c b"
  using wl_keymap [OF assms(1,2)] assms(3) by (simp add: via_eeprom_def via_eeprom_axioms_def via_build_ok_def)

lemma wl_erasable:
  assumes "backing_store_laws drv cfg valid cells opened" and "dk_static_asserts (lsize cfg) c" and "via_build_ok c b" and "8 \<le> length stk"
  shows "erasable_eeprom (wl_eeprom drv cfg) (wl_settled cfg valid cells opened) cache (lsize cfg) c b (eeprom_driver_erase drv cfg) stk"
proof -
  have "wl_settled cfg valid cells opened (eeprom_driver_erase drv cfg e) \<and> cache (eeprom_driver_erase drv cfg e) = replicate (lsize cfg) 0"
    if "wl_settled cfg valid cells opened e" for e
    using backing_store_laws.erase_spec [OF assms(1) that] by (auto simp: eeprom_driver_erase_def)
  then show ?thesis
    using wl_via [OF assms(1-3)] assms(4) by (simp add: erasable_eeprom_def erasable_eeprom_axioms_def)
qed

text \<open>The build of the 5th of November 2019, with one byte of layout options.\<close>

definition demo_build :: via_build where
  "demo_build = \<lparr>QMK_BUILDDATE = map of_char ''2019-11-05-11:29:54'', VIA_EEPROM_LAYOUT_OPTIONS_SIZE = 1, VIA_EEPROM_LAYOUT_OPTIONS_DEFAULT = 0\<rparr>"

lemma demo_magic: "via_magic demo_build 0 = 0x19" "via_magic demo_build 1 = 0x11" "via_magic demo_build 2 = 0x05"
  by (simp_all add: via_magic_def demo_build_def of_char_def)

lemma all_less_3: "(\<forall>i<(3 :: nat). P i) \<longleftrightarrow> P 0 \<and> P 1 \<and> P 2"
  by (auto simp: less_Suc_eq numeral_3_eq_3 numeral_2_eq_2)

lemma demo_build_ok: "via_build_ok q3_keymap_config demo_build"
  unfolding via_build_ok_def all_less_3 demo_magic
  by (simp add: q3_keymap_config_def VIA_EEPROM_LAYOUT_OPTIONS_ADDR_def VIA_EEPROM_MAGIC_ADDR_def EECONFIG_SIZE_def demo_build_def)

interpretation q3_via: erasable_eeprom "wl_eeprom (mock_backing_store (q3_max_config w)) (q3_max_config w)"
    "wl_settled (q3_max_config w) (mock_valid (q3_max_config w)) mock_cells mock_opened" cache "lsize (q3_max_config w)" q3_keymap_config demo_build
    "eeprom_driver_erase (mock_backing_store (q3_max_config w)) (q3_max_config w)" "replicate 8 0" for w
  by (rule wl_erasable [OF mock_laws [OF q3_max_config_ok] q3_keymap_asserts demo_build_ok]) simp

text \<open>C10: The initialization of the area of VIA is a fixed list of byte updates. When the power fails after some of them but not all, the area is not valid after the
  restart, and \<^verbatim>\<open>via_init\<close> then repeats the initialization: it returns, the area is valid and every key and encoder has the keycode of the keymap in flash.\<close>

theorem init_via_interrupted:
  assumes laws: "backing_store_laws drv cfg valid cells opened" and settled: "wl_settled cfg valid cells opened e"
    and build: "dk_static_asserts (lsize cfg) c" "via_build_ok c b" and n: "0 < n" "n < length (init_via_updates b c f)" and stk: "8 \<le> length stk"
  shows "eeconfig_init_via b c f (wl_eeprom drv cfg) e = run_updates (wl_eeprom drv cfg) (init_via_updates b c f) e \<and>
    (\<exists>e1 e2 e3. run_updates (wl_eeprom drv cfg) (take n (init_via_updates b c f)) e = Some e1 \<and> e2 = eeprom_driver_init drv cfg stk (power_cycle cfg e1) \<and>
      via_eeprom_is_valid b (wl_eeprom drv cfg) e2 = Some False \<and>
      via_init b c f (wl_eeprom drv cfg) e2 = Some e3 \<and> via_eeprom_is_valid b (wl_eeprom drv cfg) e3 = Some True \<and>
      (\<forall>l r k. l < DYNAMIC_KEYMAP_LAYER_COUNT c \<and> r < MATRIX_ROWS c \<and> k < MATRIX_COLS c \<longrightarrow>
        keycode_at_keymap_location c (wl_eeprom drv cfg) l r k e3 = Some (keycode_at_keymap_location_raw c f l r k)) \<and>
      (\<forall>l i cw. l < DYNAMIC_KEYMAP_LAYER_COUNT c \<and> i < NUM_ENCODERS c \<longrightarrow>
        keycode_at_encodermap_location c (wl_eeprom drv cfg) l i cw e3 = Some (keycode_at_encodermap_location_raw c f l i cw)))"
proof -
  let ?api = "wl_eeprom drv cfg"
  note V = wl_via [OF laws build] and K = wl_keymap [OF laws build(1)]
  obtain e1 where e1: "run_updates ?api (take n (init_via_updates b c f)) e = Some e1" "wl_settled cfg valid cells opened e1"
      "via_eeprom_is_valid b ?api e1 = Some False"
    using via_eeprom.interrupted_invalid [OF V settled n] by blast
  let ?e2 = "eeprom_driver_init drv cfg stk (power_cycle cfg e1)"
  have boot: "wl_settled cfg valid cells opened ?e2" "cache ?e2 = cache e1"
    using backing_store_laws.reboot_keeps [OF laws e1(2) stk] by simp_all
  then have e2: "via_eeprom_is_valid b ?api ?e2 = Some False"
    using via_eeprom.is_valid_spec [OF V boot(1)] via_eeprom.is_valid_spec [OF V e1(2)] e1(3) by simp
  obtain e3 where e3: "via_init b c f ?api ?e2 = Some e3" "via_eeprom_is_valid b ?api e3 = Some True"
      "\<forall>s. valid_slot c s \<longrightarrow> get_slot c ?api s e3 = Some (keymap_eeprom.flash_slot c f s)"
    using via_eeprom.via_init_repairs [OF V boot(1) e2, of f] by blast
  have keys: "keycode_at_keymap_location c ?api l r k e3 = Some (keycode_at_keymap_location_raw c f l r k)"
    if "l < DYNAMIC_KEYMAP_LAYER_COUNT c \<and> r < MATRIX_ROWS c \<and> k < MATRIX_COLS c" for l r k
    using e3(3) [rule_format, of "Key_slot l r k"] that by (simp add: keycode_at_keymap_location_def keymap_eeprom.flash_slot.simps [OF K])
  have encoders: "keycode_at_encodermap_location c ?api l i cw e3 = Some (keycode_at_encodermap_location_raw c f l i cw)"
    if "l < DYNAMIC_KEYMAP_LAYER_COUNT c \<and> i < NUM_ENCODERS c" for l i cw
    using e3(3) [rule_format, of "Encoder_slot l i cw"] that by (simp add: keycode_at_encodermap_location_def keymap_eeprom.flash_slot.simps [OF K])
  show ?thesis
    by (rule conjI, rule init_via_as_updates, rule exI [of _ e1], rule exI [of _ ?e2], rule exI [of _ e3])
      (intro conjI allI impI e1(1) refl e2 e3(1,2) keys encoders; simp)
qed

theorem init_via_interrupted_witness:
  "\<exists>e1 e2. run_updates (wl_eeprom (mock_backing_store (q3_max_config Write2)) (q3_max_config Write2)) (take 100 (init_via_updates demo_build q3_keymap_config sample_flash))
      (blank (q3_max_config Write2)) = Some e1 \<and>
    e2 = eeprom_driver_init (mock_backing_store (q3_max_config Write2)) (q3_max_config Write2) (replicate 8 0) (power_cycle (q3_max_config Write2) e1) \<and>
    via_eeprom_is_valid demo_build (wl_eeprom (mock_backing_store (q3_max_config Write2)) (q3_max_config Write2)) e2 = Some False"
proof -
  have "100 < length (macro_updates q3_keymap_config)"
    by (simp add: macro_updates_def q3_keymap_config_def DYNAMIC_KEYMAP_MACRO_EEPROM_SIZE_def DYNAMIC_KEYMAP_MACRO_EEPROM_ADDR_def DYNAMIC_KEYMAP_ENCODER_EEPROM_ADDR_def)
  then have "(0 :: nat) < 100" "100 < length (init_via_updates demo_build q3_keymap_config sample_flash)" "8 \<le> length (replicate 8 (0 :: u8))"
    by (simp_all add: init_via_updates_def body_updates_def)
  from init_via_interrupted [OF mock_laws [OF q3_max_config_ok] blank_settled [OF q3_max_config_ok] q3_keymap_asserts demo_build_ok this] show ?thesis
    by blast
qed

text \<open>C20: A full initialization (\<^verbatim>\<open>eeconfig_init\<close>) of the EEPROM, whatever was in it, returns; afterwards, also after a restart, the settings count as initialized, the default
  layer is layer 0, one-shot keys and autocorrect are on, and every key has the keycode of the keymap in flash.\<close>

theorem eeconfig_init_ready:
  assumes laws: "backing_store_laws drv cfg valid cells opened" and settled: "wl_settled cfg valid cells opened e"
    and build: "dk_static_asserts (lsize cfg) c" "via_build_ok c b" and stk: "8 \<le> length stk" "8 \<le> length stk'"
  shows "\<exists>e1 e2. eeconfig_init b c f (wl_eeprom drv cfg) (eeprom_driver_erase drv cfg) stk e = Some (1, e1) \<and>
    e2 = eeprom_driver_init drv cfg stk' (power_cycle cfg e1) \<and> eeconfig_is_enabled b (wl_eeprom drv cfg) e2 = Some True \<and>
    eeconfig_read_default_layer (wl_eeprom drv cfg) e2 = Some 1 \<and> eeconfig_read_keymap (wl_eeprom drv cfg) e2 = Some 0x1400 \<and>
    (\<forall>l r k. l < DYNAMIC_KEYMAP_LAYER_COUNT c \<and> r < MATRIX_ROWS c \<and> k < MATRIX_COLS c \<longrightarrow>
      keycode_at_keymap_location c (wl_eeprom drv cfg) l r k e2 = Some (keycode_at_keymap_location_raw c f l r k))"
proof -
  let ?api = "wl_eeprom drv cfg"
  note E = wl_erasable [OF laws build stk(1)] and K = wl_keymap [OF laws build(1)]
  obtain e1 where e1: "eeconfig_init b c f ?api (eeprom_driver_erase drv cfg) stk e = Some (1, e1)" "wl_settled cfg valid cells opened e1"
      "eeconfig_is_enabled b ?api e1 = Some True" "eeconfig_read_default_layer ?api e1 = Some 1" "eeconfig_read_keymap ?api e1 = Some 0x1400"
      "\<forall>s. valid_slot c s \<longrightarrow> get_slot c ?api s e1 = Some (keymap_eeprom.flash_slot c f s)"
    using erasable_eeprom.init_spec [OF E settled, of f] by blast
  let ?e2 = "eeprom_driver_init drv cfg stk' (power_cycle cfg e1)"
  have "cache ?e2 = cache e1"
    using backing_store_laws.reboot_keeps [OF laws e1(2) stk(2)] by simp
  then have "eeprom_read_block ?api a buf ?e2 = eeprom_read_block ?api a buf e1" for a buf
    by (simp add: wl_eeprom_def wear_leveling_read_def Let_def)
  then have rd: "eeprom_read_byte ?api a ?e2 = eeprom_read_byte ?api a e1" "eeprom_read_word ?api a ?e2 = eeprom_read_word ?api a e1" for a
    by (simp_all add: eeprom_read_byte_def eeprom_read_word_def)
  have valid: "via_eeprom_is_valid b ?api ?e2 = via_eeprom_is_valid b ?api e1"
    unfolding via_eeprom_is_valid_def rd by (rule refl)
  have "keycode_at_keymap_location c ?api l r k ?e2 = Some (keycode_at_keymap_location_raw c f l r k)"
    if "l < DYNAMIC_KEYMAP_LAYER_COUNT c \<and> r < MATRIX_ROWS c \<and> k < MATRIX_COLS c" for l r k
    using e1(6) [rule_format, of "Key_slot l r k"] that
    by (simp add: keycode_at_keymap_location_def keymap_eeprom.flash_slot.simps [OF K] dynamic_keymap_get_keycode_def rd)
  moreover have "eeconfig_is_enabled b ?api ?e2 = Some True" "eeconfig_read_default_layer ?api ?e2 = Some 1" "eeconfig_read_keymap ?api ?e2 = Some 0x1400"
    using e1(3-5) unfolding eeconfig_is_enabled_def eeconfig_read_default_layer_def eeconfig_read_keymap_def valid rd by blast+
  ultimately show ?thesis
    using e1(1) by blast
qed

theorem eeconfig_init_ready_witness:
  "\<exists>e1. eeconfig_init demo_build q3_keymap_config sample_flash (wl_eeprom (mock_backing_store (q3_max_config Write4)) (q3_max_config Write4))
      (eeprom_driver_erase (mock_backing_store (q3_max_config Write4)) (q3_max_config Write4)) (replicate 8 7) (blank (q3_max_config Write4)) = Some (1, e1) \<and>
    eeconfig_is_enabled demo_build (wl_eeprom (mock_backing_store (q3_max_config Write4)) (q3_max_config Write4))
      (eeprom_driver_init (mock_backing_store (q3_max_config Write4)) (q3_max_config Write4) (replicate 8 9) (power_cycle (q3_max_config Write4) e1)) = Some True"
proof -
  have "8 \<le> length (replicate 8 (7 :: u8))" "8 \<le> length (replicate 8 (9 :: u8))"
    by simp_all
  from eeconfig_init_ready [OF mock_laws [OF q3_max_config_ok] blank_settled [OF q3_max_config_ok] q3_keymap_asserts demo_build_ok this] show ?thesis
    by blast
qed

end
