(* ===== verification/Rgb_Config.thy ===== *)
theory Rgb_Config
  imports Eeconfig "HOL-Library.While_Combinator"
begin

text \<open>
  The settings of the RGB matrix (\<^verbatim>\<open>quantum/rgb_matrix/rgb_matrix.c\<close>) and how they are kept in the EEPROM (\<^verbatim>\<open>EECONFIG_DEBOUNCE_HELPER\<close> of
  \<^verbatim>\<open>quantum/eeconfig.h\<close>): a change marks the settings as dirty, and the task of the matrix writes them later. \<^verbatim>\<open>RGB_MATRIX_BRIGHTNESS_TURN_OFF_VAL\<close> is defined on this
  keyboard: below it the light is off, and turning the light on raises the brightness to it, in a loop that may not end for other constants.
\<close>

section \<open>Model\<close>

text \<open>Arithmetic of \<^verbatim>\<open>lib8tion\<close>.\<close>

definition qadd8 :: "u8 \<Rightarrow> u8 \<Rightarrow> u8" where
  "qadd8 i j = (let t = ucast i + ucast j :: u16 in ucast (if 255 < t then 255 else t))"

definition qsub8 :: "u8 \<Rightarrow> u8 \<Rightarrow> u8" where
  "qsub8 i j = (let t = uint i - uint j in word_of_int (if t < 0 then 0 else t))"

definition scale8 :: "u8 \<Rightarrow> u8 \<Rightarrow> u8" where
  "scale8 i scale = ucast (drop_bit 8 (ucast i * ucast scale) :: u16)"

record HSV =
  hsv_h :: u8
  hsv_s :: u8
  hsv_v :: u8

text \<open>\<open>config_rest\<close> are the two bytes of the union that have no name.\<close>

record rgb_config_t =
  rgb_enable :: u8
  rgb_mode :: u8
  rgb_hsv :: HSV
  rgb_speed :: u8
  rgb_flags :: u8
  config_rest :: "u8 list"

datatype rgb_task_states = STARTING | RENDERING | FLUSHING | SYNCING

record rgb_build =
  RGB_MATRIX_EFFECT_MAX :: u8
  RGB_MATRIX_MAXIMUM_BRIGHTNESS :: u8
  RGB_MATRIX_BRIGHTNESS_TURN_OFF_VAL :: u8
  RGB_MATRIX_HUE_STEP :: u8
  RGB_MATRIX_SAT_STEP :: u8
  RGB_MATRIX_VAL_STEP :: u8
  RGB_MATRIX_SPD_STEP :: u8
  rgb_default :: rgb_config_t

record 'e rgb =
  rgb_matrix_config :: rgb_config_t
  dirty_rgb_matrix :: bool
  rgb_task_state :: rgb_task_states
  rgb_nv :: 'e

subsection \<open>The EEPROM\<close>

definition config_bytes :: "rgb_config_t \<Rightarrow> u8 list" where
  "config_bytes c = [(rgb_enable c AND 3) OR push_bit 2 (rgb_mode c), hsv_h (rgb_hsv c), hsv_s (rgb_hsv c), hsv_v (rgb_hsv c), rgb_speed c, rgb_flags c] @ config_rest c"

definition bytes_config :: "u8 list \<Rightarrow> rgb_config_t" where
  "bytes_config bs = \<lparr>rgb_enable = bs ! 0 AND 3, rgb_mode = drop_bit 2 (bs ! 0), rgb_hsv = \<lparr>hsv_h = bs ! 1, hsv_s = bs ! 2, hsv_v = bs ! 3\<rparr>, rgb_speed = bs ! 4,
     rgb_flags = bs ! 5, config_rest = drop 6 bs\<rparr>"

definition eeconfig_init_rgb_matrix :: "'e eeprom_api \<Rightarrow> ('e, 'x) rgb_scheme \<Rightarrow> ('e, 'x) rgb_scheme option" where
  "eeconfig_init_rgb_matrix api s =
     do { bs \<leftarrow> eeprom_read_block api EECONFIG_RGB_MATRIX (config_bytes (rgb_matrix_config s)) (rgb_nv s);
          Some (s\<lparr>rgb_matrix_config := bytes_config bs, dirty_rgb_matrix := False\<rparr>) }"

definition eeconfig_flush_rgb_matrix :: "'e eeprom_api \<Rightarrow> u8 list \<Rightarrow> bool \<Rightarrow> ('e, 'x) rgb_scheme \<Rightarrow> ('e, 'x) rgb_scheme option" where
  "eeconfig_flush_rgb_matrix api stk force s =
     (if force \<or> dirty_rgb_matrix s then
        do { e \<leftarrow> eeprom_update_block api stk EECONFIG_RGB_MATRIX (config_bytes (rgb_matrix_config s)) (rgb_nv s);
             Some (s\<lparr>rgb_nv := e, dirty_rgb_matrix := False\<rparr>) }
      else Some s)"

definition eeconfig_flag_rgb_matrix :: "bool \<Rightarrow> ('e, 'x) rgb_scheme \<Rightarrow> ('e, 'x) rgb_scheme" where
  "eeconfig_flag_rgb_matrix v s = s\<lparr>dirty_rgb_matrix := dirty_rgb_matrix s \<or> v\<rparr>"

definition eeconfig_update_rgb_matrix :: "'e eeprom_api \<Rightarrow> u8 list \<Rightarrow> ('e, 'x) rgb_scheme \<Rightarrow> ('e, 'x) rgb_scheme option" where
  "eeconfig_update_rgb_matrix api stk = eeconfig_flush_rgb_matrix api stk True"

definition eeconfig_update_rgb_matrix_default :: "rgb_build \<Rightarrow> 'e eeprom_api \<Rightarrow> u8 list \<Rightarrow> ('e, 'x) rgb_scheme \<Rightarrow> ('e, 'x) rgb_scheme option" where
  "eeconfig_update_rgb_matrix_default b api stk s =
     eeconfig_flush_rgb_matrix api stk True (s\<lparr>rgb_matrix_config := (rgb_default b)\<lparr>config_rest := config_rest (rgb_matrix_config s)\<rparr>\<rparr>)"

subsection \<open>Changing the settings\<close>

definition on_config :: "(rgb_config_t \<Rightarrow> rgb_config_t) \<Rightarrow> ('e, 'x) rgb_scheme \<Rightarrow> ('e, 'x) rgb_scheme" where
  "on_config f s = s\<lparr>rgb_matrix_config := f (rgb_matrix_config s)\<rparr>"

definition rgb_matrix_sethsv_eeprom_helper :: "rgb_build \<Rightarrow> u16 \<Rightarrow> u8 \<Rightarrow> u8 \<Rightarrow> bool \<Rightarrow> ('e, 'x) rgb_scheme \<Rightarrow> ('e, 'x) rgb_scheme" where
  "rgb_matrix_sethsv_eeprom_helper b hue sat val write_to_eeprom s =
     (if rgb_enable (rgb_matrix_config s) = 0 then s
      else eeconfig_flag_rgb_matrix write_to_eeprom (on_config (\<lambda>c. c\<lparr>rgb_hsv := \<lparr>hsv_h = ucast hue, hsv_s = sat,
             hsv_v = (if RGB_MATRIX_MAXIMUM_BRIGHTNESS b < val then RGB_MATRIX_MAXIMUM_BRIGHTNESS b else val)\<rparr>\<rparr>) s))"

text \<open>\<^verbatim>\<open>rgb_matrix_increase_val_helper\<close> while the light is on, and the loop that raises the brightness: the light is on inside it.\<close>

definition raise_val :: "rgb_build \<Rightarrow> bool \<Rightarrow> ('e, 'x) rgb_scheme \<Rightarrow> ('e, 'x) rgb_scheme" where
  "raise_val b write_to_eeprom s =
     (let h = rgb_hsv (rgb_matrix_config s)
      in rgb_matrix_sethsv_eeprom_helper b (ucast (hsv_h h)) (hsv_s h) (qadd8 (hsv_v h) (RGB_MATRIX_VAL_STEP b)) write_to_eeprom s)"

definition raise_loop :: "rgb_build \<Rightarrow> bool \<Rightarrow> ('e, 'x) rgb_scheme \<Rightarrow> ('e, 'x) rgb_scheme option" where
  "raise_loop b write_to_eeprom =
     while_option (\<lambda>s. rgb_enable (rgb_matrix_config s) \<noteq> 0 \<and> hsv_v (rgb_hsv (rgb_matrix_config s)) < RGB_MATRIX_BRIGHTNESS_TURN_OFF_VAL b) (raise_val b write_to_eeprom)"

definition rgb_matrix_toggle_eeprom_helper :: "rgb_build \<Rightarrow> bool \<Rightarrow> ('e, 'x) rgb_scheme \<Rightarrow> ('e, 'x) rgb_scheme option" where
  "rgb_matrix_toggle_eeprom_helper b write_to_eeprom s =
     raise_loop b write_to_eeprom
       (eeconfig_flag_rgb_matrix write_to_eeprom ((on_config (\<lambda>c. c\<lparr>rgb_enable := rgb_enable c XOR 1\<rparr>) s)\<lparr>rgb_task_state := STARTING\<rparr>))"

definition rgb_matrix_enable_noeeprom :: "rgb_build \<Rightarrow> ('e, 'x) rgb_scheme \<Rightarrow> ('e, 'x) rgb_scheme option" where
  "rgb_matrix_enable_noeeprom b s =
     (let s = (if rgb_enable (rgb_matrix_config s) = 0 then s\<lparr>rgb_task_state := STARTING\<rparr> else s)
      in raise_loop b False (on_config (\<lambda>c. c\<lparr>rgb_enable := 1\<rparr>) s))"

definition rgb_matrix_enable :: "rgb_build \<Rightarrow> ('e, 'x) rgb_scheme \<Rightarrow> ('e, 'x) rgb_scheme option" where
  "rgb_matrix_enable b s = do { s \<leftarrow> rgb_matrix_enable_noeeprom b s; raise_loop b True (eeconfig_flag_rgb_matrix True s) }"

definition rgb_matrix_disable_noeeprom :: "('e, 'x) rgb_scheme \<Rightarrow> ('e, 'x) rgb_scheme" where
  "rgb_matrix_disable_noeeprom s =
     (let s = (if rgb_enable (rgb_matrix_config s) \<noteq> 0 then s\<lparr>rgb_task_state := STARTING\<rparr> else s) in on_config (\<lambda>c. c\<lparr>rgb_enable := 0\<rparr>) s)"

definition rgb_matrix_disable :: "('e, 'x) rgb_scheme \<Rightarrow> ('e, 'x) rgb_scheme" where
  "rgb_matrix_disable s = eeconfig_flag_rgb_matrix True (rgb_matrix_disable_noeeprom s)"

definition rgb_matrix_mode_eeprom_helper :: "rgb_build \<Rightarrow> u8 \<Rightarrow> bool \<Rightarrow> ('e, 'x) rgb_scheme \<Rightarrow> ('e, 'x) rgb_scheme" where
  "rgb_matrix_mode_eeprom_helper b mode write_to_eeprom s =
     (if rgb_enable (rgb_matrix_config s) = 0 then s
      else let m = (if mode < 1 then 1 else if RGB_MATRIX_EFFECT_MAX b \<le> mode then RGB_MATRIX_EFFECT_MAX b - 1 else mode)
           in eeconfig_flag_rgb_matrix write_to_eeprom ((on_config (\<lambda>c. c\<lparr>rgb_mode := m AND 0x3F\<rparr>) s)\<lparr>rgb_task_state := STARTING\<rparr>))"

definition rgb_matrix_step_helper :: "rgb_build \<Rightarrow> bool \<Rightarrow> ('e, 'x) rgb_scheme \<Rightarrow> ('e, 'x) rgb_scheme" where
  "rgb_matrix_step_helper b write_to_eeprom s =
     (let mode = rgb_mode (rgb_matrix_config s) + 1
      in rgb_matrix_mode_eeprom_helper b (if mode < RGB_MATRIX_EFFECT_MAX b then mode else 1) write_to_eeprom s)"

definition rgb_matrix_step_reverse_helper :: "rgb_build \<Rightarrow> bool \<Rightarrow> ('e, 'x) rgb_scheme \<Rightarrow> ('e, 'x) rgb_scheme" where
  "rgb_matrix_step_reverse_helper b write_to_eeprom s =
     (let mode = rgb_mode (rgb_matrix_config s) - 1
      in rgb_matrix_mode_eeprom_helper b (if mode < 1 then RGB_MATRIX_EFFECT_MAX b - 1 else mode) write_to_eeprom s)"

definition rgb_matrix_increase_hue_helper :: "rgb_build \<Rightarrow> bool \<Rightarrow> ('e, 'x) rgb_scheme \<Rightarrow> ('e, 'x) rgb_scheme" where
  "rgb_matrix_increase_hue_helper b w s =
     (let h = rgb_hsv (rgb_matrix_config s) in rgb_matrix_sethsv_eeprom_helper b (ucast (hsv_h h) + ucast (RGB_MATRIX_HUE_STEP b)) (hsv_s h) (hsv_v h) w s)"

definition rgb_matrix_decrease_hue_helper :: "rgb_build \<Rightarrow> bool \<Rightarrow> ('e, 'x) rgb_scheme \<Rightarrow> ('e, 'x) rgb_scheme" where
  "rgb_matrix_decrease_hue_helper b w s =
     (let h = rgb_hsv (rgb_matrix_config s) in rgb_matrix_sethsv_eeprom_helper b (ucast (hsv_h h) - ucast (RGB_MATRIX_HUE_STEP b)) (hsv_s h) (hsv_v h) w s)"

definition rgb_matrix_increase_sat_helper :: "rgb_build \<Rightarrow> bool \<Rightarrow> ('e, 'x) rgb_scheme \<Rightarrow> ('e, 'x) rgb_scheme" where
  "rgb_matrix_increase_sat_helper b w s =
     (let h = rgb_hsv (rgb_matrix_config s) in rgb_matrix_sethsv_eeprom_helper b (ucast (hsv_h h)) (qadd8 (hsv_s h) (RGB_MATRIX_SAT_STEP b)) (hsv_v h) w s)"

definition rgb_matrix_decrease_sat_helper :: "rgb_build \<Rightarrow> bool \<Rightarrow> ('e, 'x) rgb_scheme \<Rightarrow> ('e, 'x) rgb_scheme" where
  "rgb_matrix_decrease_sat_helper b w s =
     (let h = rgb_hsv (rgb_matrix_config s) in rgb_matrix_sethsv_eeprom_helper b (ucast (hsv_h h)) (qsub8 (hsv_s h) (RGB_MATRIX_SAT_STEP b)) (hsv_v h) w s)"

definition rgb_matrix_increase_val_helper :: "rgb_build \<Rightarrow> bool \<Rightarrow> ('e, 'x) rgb_scheme \<Rightarrow> ('e, 'x) rgb_scheme option" where
  "rgb_matrix_increase_val_helper b w s =
     (if rgb_enable (rgb_matrix_config s) = 0 then rgb_matrix_toggle_eeprom_helper b w s else Some (raise_val b w s))"

definition rgb_matrix_decrease_val_helper :: "rgb_build \<Rightarrow> bool \<Rightarrow> ('e, 'x) rgb_scheme \<Rightarrow> ('e, 'x) rgb_scheme option" where
  "rgb_matrix_decrease_val_helper b w s =
     (let h = rgb_hsv (rgb_matrix_config s);
          s = rgb_matrix_sethsv_eeprom_helper b (ucast (hsv_h h)) (hsv_s h) (qsub8 (hsv_v h) (RGB_MATRIX_VAL_STEP b)) w s
      in if rgb_enable (rgb_matrix_config s) \<noteq> 0 \<and> hsv_v (rgb_hsv (rgb_matrix_config s)) \<le> RGB_MATRIX_BRIGHTNESS_TURN_OFF_VAL b
         then rgb_matrix_toggle_eeprom_helper b w s else Some s)"

definition rgb_matrix_set_speed_eeprom_helper :: "u8 \<Rightarrow> bool \<Rightarrow> ('e, 'x) rgb_scheme \<Rightarrow> ('e, 'x) rgb_scheme" where
  "rgb_matrix_set_speed_eeprom_helper speed w s = eeconfig_flag_rgb_matrix w (on_config (\<lambda>c. c\<lparr>rgb_speed := speed\<rparr>) s)"

definition rgb_matrix_increase_speed_helper :: "rgb_build \<Rightarrow> bool \<Rightarrow> ('e, 'x) rgb_scheme \<Rightarrow> ('e, 'x) rgb_scheme" where
  "rgb_matrix_increase_speed_helper b w s = rgb_matrix_set_speed_eeprom_helper (qadd8 (rgb_speed (rgb_matrix_config s)) (RGB_MATRIX_SPD_STEP b)) w s"

definition rgb_matrix_decrease_speed_helper :: "rgb_build \<Rightarrow> bool \<Rightarrow> ('e, 'x) rgb_scheme \<Rightarrow> ('e, 'x) rgb_scheme" where
  "rgb_matrix_decrease_speed_helper b w s = rgb_matrix_set_speed_eeprom_helper (qsub8 (rgb_speed (rgb_matrix_config s)) (RGB_MATRIX_SPD_STEP b)) w s"

definition rgb_matrix_set_flags_eeprom_helper :: "u8 \<Rightarrow> bool \<Rightarrow> ('e, 'x) rgb_scheme \<Rightarrow> ('e, 'x) rgb_scheme" where
  "rgb_matrix_set_flags_eeprom_helper flags w s = eeconfig_flag_rgb_matrix w (on_config (\<lambda>c. c\<lparr>rgb_flags := flags\<rparr>) s)"

definition rgb_matrix_reload_from_eeprom :: "rgb_build \<Rightarrow> 'e eeprom_api \<Rightarrow> ('e, 'x) rgb_scheme \<Rightarrow> ('e, 'x) rgb_scheme option" where
  "rgb_matrix_reload_from_eeprom b api s =
     do { s \<leftarrow> eeconfig_init_rgb_matrix api (rgb_matrix_disable_noeeprom s);
          if rgb_enable (rgb_matrix_config s) \<noteq> 0 then Some (rgb_matrix_mode_eeprom_helper b (rgb_mode (rgb_matrix_config s)) False s) else Some s }"

text \<open>The part of \<^verbatim>\<open>rgb_matrix_init\<close> that reads the settings. \<open>init\<close> is \<^verbatim>\<open>eeconfig_init\<close>.\<close>

definition rgb_matrix_init_config ::
  "rgb_build \<Rightarrow> via_build \<Rightarrow> 'e eeprom_api \<Rightarrow> ('e \<Rightarrow> 'e option) \<Rightarrow> u8 list \<Rightarrow> ('e, 'x) rgb_scheme \<Rightarrow> ('e, 'x) rgb_scheme option" where
  "rgb_matrix_init_config b vb api init stk s =
     do { enabled \<leftarrow> eeconfig_is_enabled vb api (rgb_nv s);
          s \<leftarrow> (if enabled then Some s
                else do { e \<leftarrow> init (rgb_nv s); eeconfig_update_rgb_matrix_default b api stk (s\<lparr>rgb_nv := e\<rparr>) });
          s \<leftarrow> eeconfig_init_rgb_matrix api s;
          if rgb_mode (rgb_matrix_config s) = 0 then eeconfig_update_rgb_matrix_default b api stk s else Some s }"

section \<open>Well-formed settings\<close>

definition rgb_ok :: "rgb_build \<Rightarrow> rgb_config_t \<Rightarrow> bool" where
  "rgb_ok b c \<longleftrightarrow> rgb_enable c \<le> 1 \<and> 1 \<le> rgb_mode c \<and> rgb_mode c < RGB_MATRIX_EFFECT_MAX b \<and> hsv_v (rgb_hsv c) \<le> RGB_MATRIX_MAXIMUM_BRIGHTNESS b \<and>
     length (config_rest c) = 2"

definition rgb_build_ok :: "rgb_build \<Rightarrow> bool" where
  "rgb_build_ok b \<longleftrightarrow> 1 < RGB_MATRIX_EFFECT_MAX b \<and> RGB_MATRIX_EFFECT_MAX b \<le> 64 \<and> RGB_MATRIX_BRIGHTNESS_TURN_OFF_VAL b < RGB_MATRIX_MAXIMUM_BRIGHTNESS b \<and>
     0 < RGB_MATRIX_VAL_STEP b \<and> rgb_ok b (rgb_default b)"

lemma unat_widen8: "unat (ucast (i :: u8) :: u16) = unat i"
  using order.strict_trans [OF unat_less_256, of 65536 i] by (simp add: unsigned_ucast_eq take_bit_eq_mod)

lemma unat_qadd8: "unat (qadd8 i j) = min 255 (unat i + unat j)"
proof -
  define t where "t = (ucast i + ucast j :: u16)"
  have t: "unat t = unat i + unat j"
    using add_strict_mono [OF unat_less_256 [of i] unat_less_256 [of j]] by (simp add: t_def unat_word_ariths unat_widen8)
  have small: "unat (ucast t :: u8) = unat t" if "unat t \<le> 255"
    using that by (simp add: unsigned_ucast_eq take_bit_eq_mod)
  have "255 < t \<longleftrightarrow> 255 < unat t"
    by (simp add: word_less_nat_alt)
  then show ?thesis
    using t small by (simp add: qadd8_def Let_def flip: t_def)
qed

lemma unat_qsub8: "unat (qsub8 i j) = unat i - unat j"
proof -
  define x y where "x = unat i" and "y = unat j"
  have "uint i = int x" "uint j = int y"
    by (simp_all add: x_def y_def)
  moreover have "x < 256"
    by (simp add: x_def)
  ultimately show ?thesis
    unfolding x_def [symmetric] y_def [symmetric] qsub8_def Let_def by (auto simp: unsigned_of_int take_bit_eq_mod nat_diff_distrib)
qed

subsection \<open>Raising the brightness\<close>

abbreviation rgb_val :: "('e, 'x) rgb_scheme \<Rightarrow> u8" where
  "rgb_val s \<equiv> hsv_v (rgb_hsv (rgb_matrix_config s))"

abbreviation rgb_on :: "('e, 'x) rgb_scheme \<Rightarrow> bool" where
  "rgb_on s \<equiv> rgb_enable (rgb_matrix_config s) \<noteq> 0"

definition with_val :: "u8 \<Rightarrow> bool \<Rightarrow> ('e, 'x) rgb_scheme \<Rightarrow> ('e, 'x) rgb_scheme" where
  "with_val v d s = (on_config (\<lambda>c. c\<lparr>rgb_hsv := (rgb_hsv c)\<lparr>hsv_v := v\<rparr>\<rparr>) s)\<lparr>dirty_rgb_matrix := d\<rparr>"

lemma with_val_simps [simp]:
  "rgb_val (with_val v d s) = v" "rgb_enable (rgb_matrix_config (with_val v d s)) = rgb_enable (rgb_matrix_config s)"
  "with_val v d (with_val v' d' s) = with_val v d s" "dirty_rgb_matrix (with_val v d s) = d" "with_val (rgb_val s) (dirty_rgb_matrix s) s = s"
  by (simp_all add: with_val_def on_config_def)

lemma ucast_ucast_u8 [simp]: "ucast (ucast (x :: u8) :: u16) = x"
  by (rule bit_word_eqI) (auto simp: bit_simps)

lemma raise_val_eq:
  "rgb_on s \<Longrightarrow> raise_val b w s = with_val (min (RGB_MATRIX_MAXIMUM_BRIGHTNESS b) (qadd8 (rgb_val s) (RGB_MATRIX_VAL_STEP b))) (dirty_rgb_matrix s \<or> w) s"
  by (auto simp: raise_val_def rgb_matrix_sethsv_eeprom_helper_def with_val_def on_config_def eeconfig_flag_rgb_matrix_def Let_def min_def not_less)

lemma raise_loop_spec:
  assumes b: "rgb_build_ok b" and on: "rgb_on s"
  shows "\<exists>v d. raise_loop b w s = Some (with_val v d s) \<and> RGB_MATRIX_BRIGHTNESS_TURN_OFF_VAL b \<le> v \<and> rgb_val s \<le> v \<and> (v = rgb_val s \<or> v \<le> RGB_MATRIX_MAXIMUM_BRIGHTNESS b) \<and>
    (v = rgb_val s \<or> unat v < unat (RGB_MATRIX_BRIGHTNESS_TURN_OFF_VAL b) + unat (RGB_MATRIX_VAL_STEP b)) \<and> (d \<longleftrightarrow> dirty_rgb_matrix s \<or> w \<and> v \<noteq> rgb_val s)"
proof -
  let ?T = "RGB_MATRIX_BRIGHTNESS_TURN_OFF_VAL b" and ?M = "RGB_MATRIX_MAXIMUM_BRIGHTNESS b" and ?S = "RGB_MATRIX_VAL_STEP b"
  define P where "P t \<longleftrightarrow> (\<exists>v d. t = with_val v d s \<and> rgb_val s \<le> v \<and> (v = rgb_val s \<or> v \<le> ?M \<and> unat v < unat ?T + unat ?S) \<and>
      (d \<longleftrightarrow> dirty_rgb_matrix s \<or> w \<and> v \<noteq> rgb_val s))" for t
  have step: "P (raise_val b w t) \<and> 256 - unat (rgb_val (raise_val b w t)) < 256 - unat (rgb_val t)" if "P t" and t: "rgb_on t \<and> rgb_val t < ?T" for t
  proof -
    obtain v d where v: "t = with_val v d s" "rgb_val s \<le> v" "v = rgb_val s \<or> v \<le> ?M \<and> unat v < unat ?T + unat ?S" "d \<longleftrightarrow> dirty_rgb_matrix s \<or> w \<and> v \<noteq> rgb_val s"
      using \<open>P t\<close> by (auto simp: P_def)
    define v' where "v' = min ?M (qadd8 v ?S)"
    have lt: "unat v < unat ?T" "unat ?T < unat ?M" "0 < unat ?S"
      using t b v(1) by (simp_all add: rgb_build_ok_def word_less_nat_alt)
    have "unat v' = min (unat ?M) (min 255 (unat v + unat ?S))"
      unfolding v'_def using unat_qadd8 [of v ?S] by (auto simp: min_def word_le_nat_alt)
    then have gt: "unat v < unat v'" "unat v' < unat ?T + unat ?S" "v' \<le> ?M"
      using lt less_le_trans [OF lt(2) less_Suc_eq_le [THEN iffD1, of "unat ?M" 255]] by (auto simp: v'_def)
    then have "rgb_val s \<le> v'" "v' \<noteq> rgb_val s"
      using v(2) by (auto simp: word_le_nat_alt)
    moreover have r: "raise_val b w t = with_val v' (d \<or> w) s"
      using raise_val_eq [of t b w] t v(1) by (simp add: v'_def)
    ultimately have "P (raise_val b w t)"
      unfolding P_def r using gt v(4) by (intro exI [of _ v'] exI [of _ "d \<or> w"]) auto
    with r gt(1) v(1) unat_less_256 [of v'] show ?thesis
      by (simp add: diff_less_mono2)
  qed
  have P0: "P s"
    unfolding P_def by (intro exI [of _ "rgb_val s"] exI [of _ "dirty_rgb_matrix s"]) simp
  have "\<exists>t. raise_loop b w s = Some t"
    unfolding raise_loop_def by (rule measure_while_option_Some [where P = P and f = "\<lambda>t. 256 - unat (rgb_val t)", OF step P0])
  then obtain t where t: "raise_loop b w s = Some t"
    by blast
  have "P t"
    using while_option_rule [where P = P, OF conjunct1 [OF step] t [unfolded raise_loop_def] P0] .
  moreover have "\<not> (rgb_on t \<and> rgb_val t < ?T)"
    using while_option_stop t unfolding raise_loop_def by fastforce
  ultimately show ?thesis
    using on t by (auto simp: P_def not_less)
qed

lemma raise_loop_off: "\<not> rgb_on s \<Longrightarrow> raise_loop b w s = Some s"
  by (simp add: raise_loop_def while_option_unfold)

subsection \<open>Operations\<close>

datatype rgb_op = Toggle bool | Enable | Enable_noeeprom | Disable | Disable_noeeprom | Mode u8 bool | Step bool | Step_reverse bool | Sethsv u16 u8 u8 bool
  | Increase_hue bool | Decrease_hue bool | Increase_sat bool | Decrease_sat bool | Increase_val bool | Decrease_val bool | Set_speed u8 bool
  | Increase_speed bool | Decrease_speed bool | Set_flags u8 bool

fun run_rgb_op :: "rgb_build \<Rightarrow> rgb_op \<Rightarrow> ('e, 'x) rgb_scheme \<Rightarrow> ('e, 'x) rgb_scheme option" where
  "run_rgb_op b (Toggle w) s = rgb_matrix_toggle_eeprom_helper b w s"
| "run_rgb_op b Enable s = rgb_matrix_enable b s"
| "run_rgb_op b Enable_noeeprom s = rgb_matrix_enable_noeeprom b s"
| "run_rgb_op b Disable s = Some (rgb_matrix_disable s)"
| "run_rgb_op b Disable_noeeprom s = Some (rgb_matrix_disable_noeeprom s)"
| "run_rgb_op b (Mode m w) s = Some (rgb_matrix_mode_eeprom_helper b m w s)"
| "run_rgb_op b (Step w) s = Some (rgb_matrix_step_helper b w s)"
| "run_rgb_op b (Step_reverse w) s = Some (rgb_matrix_step_reverse_helper b w s)"
| "run_rgb_op b (Sethsv h sa v w) s = Some (rgb_matrix_sethsv_eeprom_helper b h sa v w s)"
| "run_rgb_op b (Increase_hue w) s = Some (rgb_matrix_increase_hue_helper b w s)"
| "run_rgb_op b (Decrease_hue w) s = Some (rgb_matrix_decrease_hue_helper b w s)"
| "run_rgb_op b (Increase_sat w) s = Some (rgb_matrix_increase_sat_helper b w s)"
| "run_rgb_op b (Decrease_sat w) s = Some (rgb_matrix_decrease_sat_helper b w s)"
| "run_rgb_op b (Increase_val w) s = rgb_matrix_increase_val_helper b w s"
| "run_rgb_op b (Decrease_val w) s = rgb_matrix_decrease_val_helper b w s"
| "run_rgb_op b (Set_speed v w) s = Some (rgb_matrix_set_speed_eeprom_helper v w s)"
| "run_rgb_op b (Increase_speed w) s = Some (rgb_matrix_increase_speed_helper b w s)"
| "run_rgb_op b (Decrease_speed w) s = Some (rgb_matrix_decrease_speed_helper b w s)"
| "run_rgb_op b (Set_flags f w) s = Some (rgb_matrix_set_flags_eeprom_helper f w s)"

fun run_rgb_ops :: "rgb_build \<Rightarrow> rgb_op list \<Rightarrow> ('e, 'x) rgb_scheme \<Rightarrow> ('e, 'x) rgb_scheme option" where
  "run_rgb_ops b [] s = Some s"
| "run_rgb_ops b (op # ops) s = do { s \<leftarrow> run_rgb_op b op s; run_rgb_ops b ops s }"

text \<open>A step between settings, as far as its caller can tell: well-formed settings stay so, the EEPROM is untouched, and a change is flagged if the step was asked to.\<close>

definition rgb_step :: "rgb_build \<Rightarrow> bool \<Rightarrow> ('e, 'x) rgb_scheme \<Rightarrow> ('e, 'x) rgb_scheme \<Rightarrow> bool" where
  "rgb_step b w s s' \<longleftrightarrow> (rgb_ok b (rgb_matrix_config s) \<longrightarrow> rgb_ok b (rgb_matrix_config s')) \<and> rgb_nv s' = rgb_nv s \<and> (dirty_rgb_matrix s \<longrightarrow> dirty_rgb_matrix s') \<and>
     (w \<longrightarrow> dirty_rgb_matrix s' \<or> rgb_matrix_config s' = rgb_matrix_config s)"

lemma rgb_step_trans: "rgb_step b w s s' \<Longrightarrow> rgb_step b w s' s'' \<Longrightarrow> rgb_step b w s s''"
  by (auto simp: rgb_step_def)

lemma rgb_step_refl: "rgb_step b w s s"
  by (simp add: rgb_step_def)

lemma raise_loop_step:
  assumes "rgb_build_ok b"
  shows "\<exists>s'. raise_loop b w s = Some s' \<and> rgb_step b w s s'"
proof (cases "rgb_on s")
  case True
  obtain v d where v: "raise_loop b w s = Some (with_val v d s)" "v = rgb_val s \<or> v \<le> RGB_MATRIX_MAXIMUM_BRIGHTNESS b" "d \<longleftrightarrow> dirty_rgb_matrix s \<or> w \<and> v \<noteq> rgb_val s"
    using raise_loop_spec [OF assms True] by blast
  moreover have "rgb_step b w s (with_val v d s)"
    using v(2,3) by (auto simp: rgb_step_def rgb_ok_def with_val_def on_config_def)
  ultimately show ?thesis
    by blast
next
  case False
  then show ?thesis
    using rgb_step_refl by (auto simp: raise_loop_off)
qed

lemma sethsv_step: "rgb_step b w s (rgb_matrix_sethsv_eeprom_helper b h sa v w s)"
  by (auto simp: rgb_step_def rgb_matrix_sethsv_eeprom_helper_def on_config_def eeconfig_flag_rgb_matrix_def rgb_ok_def)

lemma enable_bit:
  assumes "c \<le> 1"
  shows "c XOR 1 \<le> (1 :: u8)"
proof -
  have "c = 0 \<or> c = 1"
    using assms by (auto simp: word_le_nat_alt word_unat_eq_iff)
  then show ?thesis
    by auto
qed

lemma mode_bits:
  assumes "m < 64"
  shows "m AND 0x3F = (m :: u8)"
proof -
  have "m AND 0x3F = take_bit 6 m"
    by (simp add: take_bit_eq_mask mask_eq_exp_minus_1)
  with assms show ?thesis
    by (simp add: word_unat_eq_iff word_less_nat_alt take_bit_eq_mod unat_mod_distrib)
qed

lemma mode_step:
  assumes "rgb_build_ok b"
  shows "rgb_step b w s (rgb_matrix_mode_eeprom_helper b m w s)"
proof -
  have b: "1 < RGB_MATRIX_EFFECT_MAX b" "RGB_MATRIX_EFFECT_MAX b \<le> 64"
    using assms by (simp_all add: rgb_build_ok_def)
  have "1 \<le> m'" "m' < RGB_MATRIX_EFFECT_MAX b" if "m' = (if m < 1 then 1 else if RGB_MATRIX_EFFECT_MAX b \<le> m then RGB_MATRIX_EFFECT_MAX b - 1 else m)" for m'
    using that b by (auto simp: word_le_nat_alt word_less_nat_alt unat_sub unat_minus_one split: if_splits)
  moreover from this(2) have "m' < 64" if "m' = (if m < 1 then 1 else if RGB_MATRIX_EFFECT_MAX b \<le> m then RGB_MATRIX_EFFECT_MAX b - 1 else m)" for m'
    using that b(2) by (meson less_le_trans)
  ultimately show ?thesis
    by (auto simp: rgb_step_def rgb_matrix_mode_eeprom_helper_def on_config_def eeconfig_flag_rgb_matrix_def rgb_ok_def mode_bits Let_def)
qed

lemma toggle_step:
  assumes "rgb_build_ok b"
  shows "\<exists>s'. rgb_matrix_toggle_eeprom_helper b w s = Some s' \<and> rgb_step b w s s'"
proof -
  let ?s = "eeconfig_flag_rgb_matrix w ((on_config (\<lambda>c. c\<lparr>rgb_enable := rgb_enable c XOR 1\<rparr>) s)\<lparr>rgb_task_state := STARTING\<rparr>)"
  have "rgb_step b w s ?s"
    using enable_bit by (auto simp: rgb_step_def rgb_ok_def on_config_def eeconfig_flag_rgb_matrix_def)
  with raise_loop_step [OF assms, of w ?s] show ?thesis
    by (auto simp: rgb_matrix_toggle_eeprom_helper_def intro: rgb_step_trans)
qed

fun op_writes :: "rgb_op \<Rightarrow> bool" where
  "op_writes Enable = True"
| "op_writes Disable = True"
| "op_writes Enable_noeeprom = False"
| "op_writes Disable_noeeprom = False"
| "op_writes (Toggle w) = w"
| "op_writes (Mode _ w) = w"
| "op_writes (Step w) = w"
| "op_writes (Step_reverse w) = w"
| "op_writes (Sethsv _ _ _ w) = w"
| "op_writes (Increase_hue w) = w"
| "op_writes (Decrease_hue w) = w"
| "op_writes (Increase_sat w) = w"
| "op_writes (Decrease_sat w) = w"
| "op_writes (Increase_val w) = w"
| "op_writes (Decrease_val w) = w"
| "op_writes (Set_speed _ w) = w"
| "op_writes (Increase_speed w) = w"
| "op_writes (Decrease_speed w) = w"
| "op_writes (Set_flags _ w) = w"

lemma disable_step: "rgb_step b False s (rgb_matrix_disable_noeeprom s)" "rgb_step b True s (rgb_matrix_disable s)"
  by (auto simp: rgb_step_def rgb_ok_def rgb_matrix_disable_noeeprom_def rgb_matrix_disable_def on_config_def eeconfig_flag_rgb_matrix_def Let_def)

lemma enable_noeeprom_step:
  assumes "rgb_build_ok b"
  shows "\<exists>s'. rgb_matrix_enable_noeeprom b s = Some s' \<and> rgb_step b False s s'"
proof -
  let ?s = "on_config (\<lambda>c. c\<lparr>rgb_enable := 1\<rparr>) (if rgb_enable (rgb_matrix_config s) = 0 then s\<lparr>rgb_task_state := STARTING\<rparr> else s)"
  have "rgb_step b False s ?s"
    by (auto simp: rgb_step_def rgb_ok_def on_config_def)
  with raise_loop_step [OF assms, of False ?s] show ?thesis
    by (auto simp: rgb_matrix_enable_noeeprom_def Let_def intro: rgb_step_trans)
qed

lemma enable_step:
  assumes "rgb_build_ok b"
  shows "\<exists>s'. rgb_matrix_enable b s = Some s' \<and> rgb_step b True s s'"
proof -
  obtain s1 where s1: "rgb_matrix_enable_noeeprom b s = Some s1" "rgb_step b False s s1"
    using enable_noeeprom_step [OF assms] by blast
  have "rgb_step b True s (eeconfig_flag_rgb_matrix True s1)"
    using s1(2) by (auto simp: rgb_step_def eeconfig_flag_rgb_matrix_def)
  with s1(1) raise_loop_step [OF assms, of True "eeconfig_flag_rgb_matrix True s1"] show ?thesis
    by (auto simp: rgb_matrix_enable_def intro: rgb_step_trans)
qed

lemma decrease_val_step:
  assumes "rgb_build_ok b"
  shows "\<exists>s'. rgb_matrix_decrease_val_helper b w s = Some s' \<and> rgb_step b w s s'"
proof -
  define s1 where "s1 = (let h = rgb_hsv (rgb_matrix_config s) in
      rgb_matrix_sethsv_eeprom_helper b (ucast (hsv_h h)) (hsv_s h) (qsub8 (hsv_v h) (RGB_MATRIX_VAL_STEP b)) w s)"
  have "rgb_step b w s s1"
    by (simp add: s1_def sethsv_step Let_def)
  with toggle_step [OF assms, of w s1] show ?thesis
    unfolding rgb_matrix_decrease_val_helper_def Let_def by (auto simp: s1_def [unfolded Let_def, symmetric] intro: rgb_step_trans)
qed

lemma simple_steps:
  "rgb_step b w s (rgb_matrix_set_speed_eeprom_helper v w s)" "rgb_step b w s (rgb_matrix_set_flags_eeprom_helper v w s)"
  by (auto simp: rgb_step_def rgb_ok_def rgb_matrix_set_speed_eeprom_helper_def rgb_matrix_set_flags_eeprom_helper_def on_config_def eeconfig_flag_rgb_matrix_def)

lemma op_step:
  assumes "rgb_build_ok b"
  shows "\<exists>s'. run_rgb_op b op s = Some s' \<and> rgb_step b (op_writes op) s s'"
proof (cases op)
  case (Increase_val w)
  then show ?thesis
    using toggle_step [OF assms, of w s] sethsv_step by (auto simp: rgb_matrix_increase_val_helper_def raise_val_def Let_def)
qed (use assms in \<open>simp_all add: toggle_step enable_step enable_noeeprom_step disable_step mode_step sethsv_step decrease_val_step simple_steps Let_def
    rgb_matrix_step_helper_def rgb_matrix_step_reverse_helper_def rgb_matrix_increase_hue_helper_def rgb_matrix_decrease_hue_helper_def
    rgb_matrix_increase_sat_helper_def rgb_matrix_decrease_sat_helper_def rgb_matrix_increase_speed_helper_def rgb_matrix_decrease_speed_helper_def\<close>)

lemma ops_step:
  assumes "rgb_build_ok b"
  shows "\<exists>s'. run_rgb_ops b ops s = Some s' \<and> rgb_step b (list_all op_writes ops) s s'"
proof (induction ops arbitrary: s)
  case (Cons op ops)
  obtain s1 where s1: "run_rgb_op b op s = Some s1" "rgb_step b (op_writes op) s s1"
    using op_step [OF assms] by blast
  obtain s2 where s2: "run_rgb_ops b ops s1 = Some s2" "rgb_step b (list_all op_writes ops) s1 s2"
    using Cons by blast
  have "rgb_step b (op_writes op \<and> list_all op_writes ops) s s2"
    using s1(2) s2(2) by (auto simp: rgb_step_def)
  with s1(1) s2(1) show ?case
    by simp
qed (simp add: rgb_step_refl)


text \<open>A build with the limits and steps of this keyboard and 23 effects.\<close>

definition q3_rgb_build :: rgb_build where
  "q3_rgb_build = \<lparr>RGB_MATRIX_EFFECT_MAX = 24, RGB_MATRIX_MAXIMUM_BRIGHTNESS = 255, RGB_MATRIX_BRIGHTNESS_TURN_OFF_VAL = 32, RGB_MATRIX_HUE_STEP = 8,
     RGB_MATRIX_SAT_STEP = 16, RGB_MATRIX_VAL_STEP = 16, RGB_MATRIX_SPD_STEP = 16,
     rgb_default = \<lparr>rgb_enable = 1, rgb_mode = 17, rgb_hsv = \<lparr>hsv_h = 0, hsv_s = 255, hsv_v = 255\<rparr>, rgb_speed = 127, rgb_flags = 0xFF, config_rest = [0, 0]\<rparr>\<rparr>"

lemma q3_rgb_build_ok: "rgb_build_ok q3_rgb_build"
  by (simp add: rgb_build_ok_def rgb_ok_def q3_rgb_build_def)

definition rgb_boot :: "'e \<Rightarrow> 'e rgb" where
  "rgb_boot e = \<lparr>rgb_matrix_config = rgb_default q3_rgb_build, dirty_rgb_matrix = False, rgb_task_state = SYNCING, rgb_nv = e\<rparr>"


section \<open>Going through the effects\<close>

lemma mode_helper_mode:
  assumes "rgb_build_ok b" and "rgb_on s" and "1 \<le> m" and "m < RGB_MATRIX_EFFECT_MAX b"
  shows "rgb_mode (rgb_matrix_config (rgb_matrix_mode_eeprom_helper b m w s)) = m" "rgb_on (rgb_matrix_mode_eeprom_helper b m w s)"
proof -
  have "m < 64"
    using assms(1,4) by (auto simp: rgb_build_ok_def intro: less_le_trans)
  then show "rgb_mode (rgb_matrix_config (rgb_matrix_mode_eeprom_helper b m w s)) = m" "rgb_on (rgb_matrix_mode_eeprom_helper b m w s)"
    using assms(2-4) by (auto simp: rgb_matrix_mode_eeprom_helper_def on_config_def eeconfig_flag_rgb_matrix_def mode_bits Let_def)
qed

lemma step_mode:
  assumes b: "rgb_build_ok b" and s: "rgb_ok b (rgb_matrix_config s)" "rgb_on s"
  shows "unat (rgb_mode (rgb_matrix_config (rgb_matrix_step_helper b w s))) = 1 + (unat (rgb_mode (rgb_matrix_config s)) mod (unat (RGB_MATRIX_EFFECT_MAX b) - 1))"
    "rgb_on (rgb_matrix_step_helper b w s)"
proof -
  let ?m = "rgb_mode (rgb_matrix_config s)" and ?M = "RGB_MATRIX_EFFECT_MAX b"
  define m' where "m' = (if ?m + 1 < ?M then ?m + 1 else 1)"
  have m: "1 \<le> unat ?m" "unat ?m < unat ?M" "unat ?M \<le> 64" "1 < unat ?M"
    using b s by (simp_all add: rgb_ok_def rgb_build_ok_def word_le_nat_alt word_less_nat_alt)
  then have up: "unat (?m + 1) = unat ?m + 1"
    by (simp add: unat_word_ariths)
  have m': "unat m' = 1 + (unat ?m mod (unat ?M - 1))"
    using m up by (auto simp: m'_def word_less_nat_alt mod_less not_less le_Suc_eq)
  have "1 \<le> m'" "m' < ?M"
    unfolding word_le_nat_alt word_less_nat_alt unat_1 using m m' mod_less_divisor [of "unat ?M - 1" "unat ?m"] by linarith+
  note h = mode_helper_mode [OF b s(2) this, of w]
  show "unat (rgb_mode (rgb_matrix_config (rgb_matrix_step_helper b w s))) = 1 + (unat ?m mod (unat ?M - 1))" "rgb_on (rgb_matrix_step_helper b w s)"
    using h m' by (simp_all add: rgb_matrix_step_helper_def m'_def Let_def)
qed

lemma step_ok: "rgb_build_ok b \<Longrightarrow> rgb_ok b (rgb_matrix_config s) \<Longrightarrow> rgb_ok b (rgb_matrix_config (rgb_matrix_step_helper b w s))"
  using mode_step [of b w s] unfolding rgb_step_def rgb_matrix_step_helper_def Let_def by blast

text \<open>Stepping goes through all effects in turn and back to the first; a step back undoes a step.\<close>

theorem rgb_steps_cycle:
  assumes b: "rgb_build_ok b" and s: "rgb_ok b (rgb_matrix_config s)" "rgb_on s"
  shows "unat (rgb_mode (rgb_matrix_config ((rgb_matrix_step_helper b w ^^ n) s))) = 1 + ((unat (rgb_mode (rgb_matrix_config s)) - 1 + n) mod (unat (RGB_MATRIX_EFFECT_MAX b) - 1)) \<and>
    rgb_mode (rgb_matrix_config (rgb_matrix_step_reverse_helper b w (rgb_matrix_step_helper b w s))) = rgb_mode (rgb_matrix_config s)"
proof
  let ?m = "rgb_mode (rgb_matrix_config s)" and ?M = "RGB_MATRIX_EFFECT_MAX b"
  have m: "1 \<le> unat ?m" "unat ?m < unat ?M" "unat ?M \<le> 64"
    using b s by (simp_all add: rgb_ok_def rgb_build_ok_def word_le_nat_alt word_less_nat_alt)
  let ?s = "\<lambda>n. (rgb_matrix_step_helper b w ^^ n) s"
  have "rgb_ok b (rgb_matrix_config (?s n)) \<and> rgb_on (?s n) \<and> unat (rgb_mode (rgb_matrix_config (?s n))) = 1 + ((unat ?m - 1 + n) mod (unat ?M - 1))"
  proof (induction n)
    case 0
    have "(unat ?m - 1) mod (unat ?M - 1) = unat ?m - 1"
      using m by (intro mod_less) linarith
    then show ?case
      using m s by simp
  next
    case (Suc n)
    then show ?case
      using step_mode [OF b, of "?s n" w] step_ok [OF b, of "?s n" w] by (simp add: mod_Suc_eq)
  qed
  then show "unat (rgb_mode (rgb_matrix_config (?s n))) = 1 + ((unat ?m - 1 + n) mod (unat ?M - 1))"
    by blast
  define t where "t = rgb_matrix_step_helper b w s"
  have t: "rgb_on t" "unat (rgb_mode (rgb_matrix_config t)) = 1 + (unat ?m mod (unat ?M - 1))"
    using step_mode [OF b s, of w] by (simp_all add: t_def)
  define k where "k = (if rgb_mode (rgb_matrix_config t) - 1 < 1 then ?M - 1 else rgb_mode (rgb_matrix_config t) - 1)"
  have "unat k = unat ?m"
  proof (cases "unat ?m = unat ?M - 1")
    case True
    then have "rgb_mode (rgb_matrix_config t) = 1"
      using t(2) by (simp add: word_unat_eq_iff)
    then show ?thesis
      using True m by (simp add: k_def unat_minus_one word_unat_eq_iff)
  next
    case False
    then have "unat (rgb_mode (rgb_matrix_config t)) = unat ?m + 1"
      using t(2) m by simp
    then have "rgb_mode (rgb_matrix_config t) = ?m + 1"
      using m by (simp add: word_unat_eq_iff unat_word_ariths)
    then show ?thesis
      using m by (simp add: k_def word_less_nat_alt)
  qed
  then have "k = ?m"
    by (simp add: word_unat_eq_iff)
  then show "rgb_mode (rgb_matrix_config (rgb_matrix_step_reverse_helper b w (rgb_matrix_step_helper b w s))) = ?m"
    using mode_helper_mode(1) [OF b t(1), of ?m w] s(1) k_def unfolding rgb_matrix_step_reverse_helper_def t_def [symmetric] Let_def by (simp add: rgb_ok_def)
qed

theorem rgb_steps_cycle_witness:
  "unat (rgb_mode (rgb_matrix_config ((rgb_matrix_step_helper q3_rgb_build True ^^ 30) (rgb_boot ())))) = 1 \<and>
   rgb_mode (rgb_matrix_config (rgb_matrix_step_reverse_helper q3_rgb_build True (rgb_matrix_step_helper q3_rgb_build True (rgb_boot ())))) = 17"
proof -
  have "rgb_ok q3_rgb_build (rgb_matrix_config (rgb_boot ()))" "rgb_on (rgb_boot ())"
    using q3_rgb_build_ok by (simp_all add: rgb_boot_def rgb_build_ok_def) (simp add: q3_rgb_build_def)
  note c = rgb_steps_cycle [OF q3_rgb_build_ok this, where w = True and n = 30]
  show ?thesis
    using c by (simp only: rgb_boot_def) (simp add: q3_rgb_build_def)
qed

section \<open>Keeping the settings\<close>

lemma and_3: "x AND 3 = take_bit 2 (x :: u8)"
  by (simp add: take_bit_eq_mask mask_eq_exp_minus_1)

lemma enable_bit0: "c \<le> 1 \<Longrightarrow> bit c i \<Longrightarrow> i = 0" for c :: u8
proof -
  assume "c \<le> 1"
  then have "c = 0 \<or> c = 1"
    by (auto simp: word_le_nat_alt word_unat_eq_iff)
  then show "bit c i \<Longrightarrow> i = 0"
    by (auto simp: bit_1_iff)
qed

lemma six_bits: "m < 64 \<Longrightarrow> bit m i \<Longrightarrow> i < 6" for m :: u8
proof -
  assume "m < 64"
  then have "take_bit 6 m = m"
    using mode_bits [of m] by (simp add: take_bit_eq_mask mask_eq_exp_minus_1)
  then show "bit m i \<Longrightarrow> i < 6"
    using bit_take_bit_iff [of 6 m i] by simp
qed

lemma packed_byte:
  assumes "c \<le> 1" and "m < 64"
  shows "((c AND 3) OR push_bit 2 m) AND 3 = (c :: u8)" "drop_bit 2 ((c AND 3) OR push_bit 2 m) = m"
  unfolding and_3 using enable_bit0 [OF assms(1)] six_bits [OF assms(2)] by (intro bit_word_eqI; fastforce simp: bit_simps)+

lemma config_bytes_bytes:
  assumes "rgb_build_ok b" and "rgb_ok b c"
  shows "bytes_config (config_bytes c) = c" "length (config_bytes c) = 8"
proof -
  have "rgb_mode c < 64"
    using assms by (auto simp: rgb_ok_def rgb_build_ok_def intro: less_le_trans)
  then show "bytes_config (config_bytes c) = c"
    using assms(2) packed_byte [of "rgb_enable c" "rgb_mode c"] by (simp add: rgb_ok_def bytes_config_def config_bytes_def)
  show "length (config_bytes c) = 8"
    using assms(2) by (simp add: rgb_ok_def config_bytes_def)
qed

text \<open>Everything that is not flagged as changed is in the EEPROM.\<close>

definition rgb_saved :: "'e eeprom_api \<Rightarrow> ('e, 'x) rgb_scheme \<Rightarrow> bool" where
  "rgb_saved api s \<longleftrightarrow> dirty_rgb_matrix s \<or>
     eeprom_read_block api EECONFIG_RGB_MATRIX (replicate 8 0) (rgb_nv s) = Some (config_bytes (rgb_matrix_config s))"

context eeprom_laws
begin

lemma read_rgb: "ok e \<Longrightarrow> 40 \<le> size \<Longrightarrow> length bs = 8 \<Longrightarrow> eeprom_read_block api EECONFIG_RGB_MATRIX bs e = Some (subarr 24 8 (mem e))"
  using read_block [of e 24 bs] size_bound by (simp add: EECONFIG_RGB_MATRIX_def)

lemma flush_spec:
  assumes "ok (rgb_nv s)" and "40 \<le> size" and "8 \<le> length stk" and "length (config_bytes (rgb_matrix_config s)) = 8" and "force \<or> rgb_saved api s"
  shows "\<exists>e. eeconfig_flush_rgb_matrix api stk force s = Some (s\<lparr>rgb_nv := e, dirty_rgb_matrix := False\<rparr>) \<and> ok e \<and>
    mem e = memcpy_at 24 (config_bytes (rgb_matrix_config s)) (mem (rgb_nv s))"
proof (cases "force \<or> dirty_rgb_matrix s")
  case True
  then show ?thesis
    using update_block [OF assms(1), of 24 "config_bytes (rgb_matrix_config s)" stk] assms(2-4) by (auto simp: eeconfig_flush_rgb_matrix_def EECONFIG_RGB_MATRIX_def)
next
  case False
  then have "subarr 24 8 (mem (rgb_nv s)) = config_bytes (rgb_matrix_config s)"
    using assms(5) read_rgb [OF assms(1,2), of "replicate 8 0"] by (simp add: rgb_saved_def)
  then have "memcpy_at 24 (config_bytes (rgb_matrix_config s)) (mem (rgb_nv s)) = mem (rgb_nv s)"
    using memcpy_at_subarr_id [of 24 8 "mem (rgb_nv s)"] length_mem [OF assms(1)] assms(2) by simp
  moreover have "s = s\<lparr>rgb_nv := rgb_nv s, dirty_rgb_matrix := False\<rparr>"
    using False by simp
  ultimately show ?thesis
    using False assms(1) by (intro exI [of _ "rgb_nv s"]) (simp add: eeconfig_flush_rgb_matrix_def)
qed

end

context via_eeprom
begin

lemma enabled_cong:
  assumes "ok e" and "ok e'" and "mem e' ! 0 = mem e ! 0" and "mem e' ! 1 = mem e ! 1" and "\<forall>a. 37 \<le> a \<and> a < 40 \<longrightarrow> mem e' ! a = mem e ! a"
  shows "eeconfig_is_enabled b api e' = eeconfig_is_enabled b api e"
proof -
  have size: "40 \<le> size"
    using magic_range by (simp add: VIA_EEPROM_MAGIC_ADDR_def EECONFIG_SIZE_def)
  then have "subarr 0 2 (mem e') = subarr 0 2 (mem e)"
    using assms length_mem by (intro nth_equalityI) (auto simp: subarr_def less_Suc_eq numeral_2_eq_2)
  then have "eeprom_read_word api EECONFIG_MAGIC e' = eeprom_read_word api EECONFIG_MAGIC e"
    using read_block [OF assms(1), of 0 "u16_bytes 0"] read_block [OF assms(2), of 0 "u16_bytes 0"] size by (simp add: eeprom_read_word_def EECONFIG_MAGIC_def)
  moreover have "via_eeprom_is_valid b api e' = via_eeprom_is_valid b api e"
    using assms(5) is_valid_spec [OF assms(1)] is_valid_spec [OF assms(2)] by (simp add: VIA_EEPROM_MAGIC_ADDR_def EECONFIG_SIZE_def)
  ultimately show ?thesis
    unfolding eeconfig_is_enabled_def by (simp only:)
qed

lemma rgb_init_reads:
  assumes "ok (rgb_nv s)" and "eeconfig_is_enabled b api (rgb_nv s) = Some True" and "length (config_bytes (rgb_matrix_config s)) = 8"
    and "subarr 24 8 (mem (rgb_nv s)) = config_bytes c'" and "bytes_config (config_bytes c') = c'" and "rgb_mode c' \<noteq> 0"
  shows "rgb_matrix_init_config rb b api init stk s = Some (s\<lparr>rgb_matrix_config := c', dirty_rgb_matrix := False\<rparr>)"
proof -
  have "40 \<le> size"
    using magic_range by (simp add: VIA_EEPROM_MAGIC_ADDR_def EECONFIG_SIZE_def)
  from read_rgb [OF assms(1) this assms(3)] assms show ?thesis
    by (simp add: rgb_matrix_init_config_def eeconfig_init_rgb_matrix_def)
qed

end

text \<open>C17: Settings that were changed with the operations that save are the same after a restart: the next task of the matrix writes them to the EEPROM, and initialization reads
  them back, whatever the variables held before.\<close>

theorem rgb_settings_survive:
  assumes laws: "backing_store_laws drv cfg valid cells opened" and build: "dk_static_asserts (lsize cfg) c" "via_build_ok c b" "rgb_build_ok rb"
    and s: "wl_settled cfg valid cells opened (rgb_nv s)" "eeconfig_is_enabled b (wl_eeprom drv cfg) (rgb_nv s) = Some True"
      "rgb_saved (wl_eeprom drv cfg) s" "rgb_ok rb (rgb_matrix_config s)"
    and ops: "list_all op_writes ops" and stk: "8 \<le> length stk" and s0: "length (config_rest (rgb_matrix_config s0)) = 2"
  shows "\<exists>s1 s2 s3. run_rgb_ops rb ops s = Some s1 \<and> eeconfig_flush_rgb_matrix (wl_eeprom drv cfg) stk False s1 = Some s2 \<and>
    rgb_matrix_init_config rb b (wl_eeprom drv cfg) init stk (s0\<lparr>rgb_nv := eeprom_driver_init drv cfg stk (power_cycle cfg (rgb_nv s2))\<rparr>) = Some s3 \<and>
    rgb_matrix_config s3 = rgb_matrix_config s1"
proof -
  let ?api = "wl_eeprom drv cfg"
  note V = wl_via [OF laws build(1,2)] and E = backing_store_laws.wl_eeprom_laws [OF laws]
  have size: "40 \<le> lsize cfg"
    using via_eeprom.magic_range [OF V] by (simp add: VIA_EEPROM_MAGIC_ADDR_def EECONFIG_SIZE_def)
  obtain s1 where s1: "run_rgb_ops rb ops s = Some s1" "rgb_ok rb (rgb_matrix_config s1)" "rgb_nv s1 = rgb_nv s" and "dirty_rgb_matrix s \<longrightarrow> dirty_rgb_matrix s1"
      "dirty_rgb_matrix s1 \<or> rgb_matrix_config s1 = rgb_matrix_config s"
    using ops_step [OF build(3), of ops s] s(4) ops by (auto simp: rgb_step_def)
  then have saved: "rgb_saved ?api s1"
    using s(3) by (auto simp: rgb_saved_def)
  note bytes = config_bytes_bytes [OF build(3) s1(2)]
  let ?bs = "config_bytes (rgb_matrix_config s1)"
  obtain e where e: "eeconfig_flush_rgb_matrix ?api stk False s1 = Some (s1\<lparr>rgb_nv := e, dirty_rgb_matrix := False\<rparr>)" "wl_settled cfg valid cells opened e"
      "cache e = memcpy_at 24 ?bs (cache (rgb_nv s))"
    using eeprom_laws.flush_spec [OF E, of s1 stk False] s(1) s1(3) size stk bytes(2) saved by auto
  let ?e = "eeprom_driver_init drv cfg stk (power_cycle cfg e)"
  have boot: "wl_settled cfg valid cells opened ?e" "cache ?e = cache e"
    using backing_store_laws.reboot_keeps [OF laws e(2) stk] by simp_all
  have len: "length (cache (rgb_nv s)) = lsize cfg"
    using eeprom_laws.length_mem [OF E s(1)] .
  have sub: "subarr 24 8 (cache ?e) = ?bs"
    unfolding boot(2) e(3) using subarr_memcpy_same [of 24 ?bs "cache (rgb_nv s)"] bytes(2) size len by simp
  have en: "eeconfig_is_enabled b ?api ?e = Some True"
    using via_eeprom.enabled_cong [OF V s(1) boot(1)] s(2) boot(2) e(3) size len bytes(2) by (simp add: nth_memcpy_at)
  have rest: "length (config_bytes (rgb_matrix_config s0)) = 8"
    using s0 by (simp add: config_bytes_def)
  have mode: "rgb_mode (rgb_matrix_config s1) \<noteq> 0"
    using s1(2) by (auto simp: rgb_ok_def)
  have "rgb_matrix_init_config rb b ?api init stk (s0\<lparr>rgb_nv := ?e\<rparr>) = Some (s0\<lparr>rgb_nv := ?e, rgb_matrix_config := rgb_matrix_config s1, dirty_rgb_matrix := False\<rparr>)"
    using via_eeprom.rgb_init_reads [OF V, of "s0\<lparr>rgb_nv := ?e\<rparr>" "rgb_matrix_config s1" rb init stk] boot(1) en rest sub bytes(1) mode by simp
  then show ?thesis
    using s1(1) e(1) by simp
qed

theorem rgb_settings_survive_witness:
  "\<exists>e s1 s2 s3. eeconfig_init demo_build q3_keymap_config sample_flash (wl_eeprom (mock_backing_store (q3_max_config Write2)) (q3_max_config Write2))
      (eeprom_driver_erase (mock_backing_store (q3_max_config Write2)) (q3_max_config Write2)) (replicate 8 0) (blank (q3_max_config Write2)) = Some (1, e) \<and>
    run_rgb_ops q3_rgb_build [Mode 3 True, Increase_hue True] ((rgb_boot e)\<lparr>dirty_rgb_matrix := True\<rparr>) = Some s1 \<and>
    eeconfig_flush_rgb_matrix (wl_eeprom (mock_backing_store (q3_max_config Write2)) (q3_max_config Write2)) (replicate 8 0) False s1 = Some s2 \<and>
    rgb_matrix_init_config q3_rgb_build demo_build (wl_eeprom (mock_backing_store (q3_max_config Write2)) (q3_max_config Write2)) Some (replicate 8 0)
      ((rgb_boot e)\<lparr>rgb_nv := eeprom_driver_init (mock_backing_store (q3_max_config Write2)) (q3_max_config Write2) (replicate 8 0) (power_cycle (q3_max_config Write2) (rgb_nv s2))\<rparr>) = Some s3 \<and>
    rgb_matrix_config s3 = rgb_matrix_config s1"
proof -
  let ?cfg = "q3_max_config Write2"
  let ?api = "wl_eeprom (mock_backing_store ?cfg) ?cfg"
  obtain e where e: "eeconfig_init demo_build q3_keymap_config sample_flash ?api (eeprom_driver_erase (mock_backing_store ?cfg) ?cfg) (replicate 8 0) (blank ?cfg) = Some (1, e)"
      "wl_settled ?cfg (mock_valid ?cfg) mock_cells mock_opened e" "eeconfig_is_enabled demo_build ?api e = Some True"
    using q3_via.init_spec [OF blank_settled [OF q3_max_config_ok], of sample_flash] by blast
  let ?s = "(rgb_boot e)\<lparr>dirty_rgb_matrix := True\<rparr>"
  have s: "wl_settled ?cfg (mock_valid ?cfg) mock_cells mock_opened (rgb_nv ?s)" "eeconfig_is_enabled demo_build ?api (rgb_nv ?s) = Some True"
      "rgb_saved ?api ?s" "rgb_ok q3_rgb_build (rgb_matrix_config ?s)"
    using e(2,3) q3_rgb_build_ok by (simp_all add: rgb_boot_def rgb_saved_def rgb_build_ok_def)
  have o: "list_all op_writes [Mode 3 True, Increase_hue True]" "8 \<le> length (replicate 8 (0 :: u8))" "length (config_rest (rgb_matrix_config (rgb_boot e))) = 2"
    by (simp_all add: rgb_boot_def q3_rgb_build_def)
  from rgb_settings_survive [OF mock_laws [OF q3_max_config_ok] q3_keymap_asserts demo_build_ok q3_rgb_build_ok s o, where init = Some] e(1) show ?thesis
    by blast
qed

end
