(* ===== verification/Via.thy ===== *)
theory Via
  imports Rgb_Config Layers Bitwise
begin

text \<open>
  The VIA protocol (\<^verbatim>\<open>quantum/via.c\<close>) and Keychron's own commands (\<^verbatim>\<open>keychron/common/keychron_common.c\<close>): a message of a fixed size comes in over raw HID, is
  handled in place and is sent back. The result \<open>None\<close> is an access outside the buffer of the message or the EEPROM's memory. Backlight, RGB light, LED matrix and audio
  are off, \<^verbatim>\<open>VIA_EEPROM_ALLOW_RESET\<close> is not defined.
\<close>

section \<open>Model\<close>

subsection \<open>State and commands\<close>

record 'e via =
  via_rgb :: "'e rgb"
  via_layers :: layers

text \<open>What the commands read besides: the timer, the matrix, and constants of the build.\<close>

record via_env =
  via_uptime :: u32
  matrix_get_row :: "nat \<Rightarrow> u32"
  VIA_FIRMWARE_VERSION :: u32
  DEVICE_VER :: u16

record via_setup =
  via_dk :: dk_config
  via_date :: via_build
  via_leds :: rgb_build
  via_flash :: flash_keymap

datatype via_out = Raw_hid_send "u8 list" | Lkbt51_dfu_rx "u8 list" | Qmkata_recv_data "u8 list"

abbreviation via_nv :: "'e via \<Rightarrow> 'e" where
  "via_nv s \<equiv> rgb_nv (via_rgb s)"

definition set_nv :: "'e \<Rightarrow> 'e via \<Rightarrow> 'e via" where
  "set_nv e s = s\<lparr>via_rgb := (via_rgb s)\<lparr>rgb_nv := e\<rparr>\<rparr>"

definition VIA_PROTOCOL_VERSION :: u16 where "VIA_PROTOCOL_VERSION = 0x000C"
definition id_get_protocol_version :: u8 where "id_get_protocol_version = 0x01"
definition id_get_keyboard_value :: u8 where "id_get_keyboard_value = 0x02"
definition id_set_keyboard_value :: u8 where "id_set_keyboard_value = 0x03"
definition id_dynamic_keymap_get_keycode :: u8 where "id_dynamic_keymap_get_keycode = 0x04"
definition id_dynamic_keymap_set_keycode :: u8 where "id_dynamic_keymap_set_keycode = 0x05"
definition id_dynamic_keymap_reset :: u8 where "id_dynamic_keymap_reset = 0x06"
definition id_custom_set_value :: u8 where "id_custom_set_value = 0x07"
definition id_custom_get_value :: u8 where "id_custom_get_value = 0x08"
definition id_custom_save :: u8 where "id_custom_save = 0x09"
definition id_dynamic_keymap_macro_get_count :: u8 where "id_dynamic_keymap_macro_get_count = 0x0C"
definition id_dynamic_keymap_macro_get_buffer_size :: u8 where "id_dynamic_keymap_macro_get_buffer_size = 0x0D"
definition id_dynamic_keymap_macro_get_buffer :: u8 where "id_dynamic_keymap_macro_get_buffer = 0x0E"
definition id_dynamic_keymap_macro_set_buffer :: u8 where "id_dynamic_keymap_macro_set_buffer = 0x0F"
definition id_dynamic_keymap_macro_reset :: u8 where "id_dynamic_keymap_macro_reset = 0x10"
definition id_dynamic_keymap_get_layer_count :: u8 where "id_dynamic_keymap_get_layer_count = 0x11"
definition id_dynamic_keymap_get_buffer :: u8 where "id_dynamic_keymap_get_buffer = 0x12"
definition id_dynamic_keymap_set_buffer :: u8 where "id_dynamic_keymap_set_buffer = 0x13"
definition id_dynamic_keymap_get_encoder :: u8 where "id_dynamic_keymap_get_encoder = 0x14"
definition id_dynamic_keymap_set_encoder :: u8 where "id_dynamic_keymap_set_encoder = 0x15"
definition id_unhandled :: u8 where "id_unhandled = 0xFF"

lemmas via_ids = id_get_protocol_version_def id_get_keyboard_value_def id_set_keyboard_value_def id_dynamic_keymap_get_keycode_def id_dynamic_keymap_set_keycode_def
  id_dynamic_keymap_reset_def id_custom_set_value_def id_custom_get_value_def id_custom_save_def id_dynamic_keymap_macro_get_count_def
  id_dynamic_keymap_macro_get_buffer_size_def id_dynamic_keymap_macro_get_buffer_def id_dynamic_keymap_macro_set_buffer_def id_dynamic_keymap_macro_reset_def
  id_dynamic_keymap_get_layer_count_def id_dynamic_keymap_get_buffer_def id_dynamic_keymap_set_buffer_def id_dynamic_keymap_get_encoder_def
  id_dynamic_keymap_set_encoder_def id_unhandled_def

definition id_uptime :: u8 where "id_uptime = 1"
definition id_layout_options :: u8 where "id_layout_options = 2"
definition id_switch_matrix_state :: u8 where "id_switch_matrix_state = 3"
definition id_firmware_version :: u8 where "id_firmware_version = 4"
definition id_device_indication :: u8 where "id_device_indication = 5"
definition id_qmk_rgb_matrix_channel :: u8 where "id_qmk_rgb_matrix_channel = 3"
definition id_qmk_rgb_matrix_brightness :: u8 where "id_qmk_rgb_matrix_brightness = 1"
definition id_qmk_rgb_matrix_effect :: u8 where "id_qmk_rgb_matrix_effect = 2"
definition id_qmk_rgb_matrix_effect_speed :: u8 where "id_qmk_rgb_matrix_effect_speed = 3"
definition id_qmk_rgb_matrix_color :: u8 where "id_qmk_rgb_matrix_color = 4"

lemmas via_value_ids = id_uptime_def id_layout_options_def id_switch_matrix_state_def id_firmware_version_def id_device_indication_def id_qmk_rgb_matrix_channel_def
  id_qmk_rgb_matrix_brightness_def id_qmk_rgb_matrix_effect_def id_qmk_rgb_matrix_effect_speed_def id_qmk_rgb_matrix_color_def

subsection \<open>The buffer of the message\<close>

definition rd :: "u8 list \<Rightarrow> nat \<Rightarrow> u8 option" where
  "rd d i = (if i < length d then Some (d ! i) else None)"

definition wr :: "nat \<Rightarrow> u8 list \<Rightarrow> u8 list \<Rightarrow> u8 list option" where
  "wr i bs d = (if i + length bs \<le> length d then Some (memcpy_at i bs d) else None)"

definition be32 :: "u32 \<Rightarrow> u8 list" where
  "be32 v = [ucast (drop_bit 24 v AND 0xFF), ucast (drop_bit 16 v AND 0xFF), ucast (drop_bit 8 v AND 0xFF), ucast (v AND 0xFF)]"

definition be16 :: "u16 \<Rightarrow> u8 list" where
  "be16 v = [ucast (drop_bit 8 v), ucast (v AND 0xFF)]"

subsection \<open>The RGB matrix\<close>

definition via_qmk_rgb_matrix_get_value :: "rgb_build \<Rightarrow> u8 list \<Rightarrow> 'e rgb \<Rightarrow> u8 list option" where
  "via_qmk_rgb_matrix_get_value b d s =
     (let c = rgb_matrix_config s
      in do { value_id \<leftarrow> rd d 2;
              if value_id = id_qmk_rgb_matrix_brightness then
                wr 3 [word_of_nat ((unat (hsv_v (rgb_hsv c)) * 255) div unat (RGB_MATRIX_MAXIMUM_BRIGHTNESS b))] d
              else if value_id = id_qmk_rgb_matrix_effect then wr 3 [if rgb_enable c \<noteq> 0 then rgb_mode c else 0] d
              else if value_id = id_qmk_rgb_matrix_effect_speed then wr 3 [rgb_speed c] d
              else if value_id = id_qmk_rgb_matrix_color then wr 3 [hsv_h (rgb_hsv c), hsv_s (rgb_hsv c)] d
              else Some d })"

definition via_qmk_rgb_matrix_set_value :: "rgb_build \<Rightarrow> u8 list \<Rightarrow> 'e rgb \<Rightarrow> 'e rgb option" where
  "via_qmk_rgb_matrix_set_value b d s =
     (let h = rgb_hsv (rgb_matrix_config s)
      in do { value_id \<leftarrow> rd d 2;
              v \<leftarrow> rd d 3;
              if value_id = id_qmk_rgb_matrix_brightness then
                Some (rgb_matrix_sethsv_eeprom_helper b (ucast (hsv_h h)) (hsv_s h) (scale8 v (RGB_MATRIX_MAXIMUM_BRIGHTNESS b)) False s)
              else if value_id = id_qmk_rgb_matrix_effect then
                if v = 0 then Some (rgb_matrix_disable_noeeprom s)
                else do { s \<leftarrow> rgb_matrix_enable_noeeprom b s; Some (rgb_matrix_mode_eeprom_helper b v False s) }
              else if value_id = id_qmk_rgb_matrix_effect_speed then Some (rgb_matrix_set_speed_eeprom_helper v False s)
              else if value_id = id_qmk_rgb_matrix_color then
                do { w \<leftarrow> rd d 4; Some (rgb_matrix_sethsv_eeprom_helper b (ucast v) w (hsv_v h) False s) }
              else Some s })"

definition via_qmk_rgb_matrix_command :: "rgb_build \<Rightarrow> 'e eeprom_api \<Rightarrow> u8 list \<Rightarrow> u8 list \<Rightarrow> 'e rgb \<Rightarrow> (u8 list \<times> 'e rgb) option" where
  "via_qmk_rgb_matrix_command b api stk d s =
     do { command_id \<leftarrow> rd d 0;
          if command_id = id_custom_set_value then do { s \<leftarrow> via_qmk_rgb_matrix_set_value b d s; Some (d, s) }
          else if command_id = id_custom_get_value then do { d \<leftarrow> via_qmk_rgb_matrix_get_value b d s; Some (d, s) }
          else if command_id = id_custom_save then do { s \<leftarrow> eeconfig_update_rgb_matrix api stk s; Some (d, s) }
          else do { d \<leftarrow> wr 0 [id_unhandled] d; Some (d, s) } }"

definition via_custom_value_command_kb :: "u8 list \<Rightarrow> u8 list option" where
  "via_custom_value_command_kb d = wr 0 [id_unhandled] d"

definition via_custom_value_command :: "rgb_build \<Rightarrow> 'e eeprom_api \<Rightarrow> u8 list \<Rightarrow> u8 list \<Rightarrow> 'e rgb \<Rightarrow> (u8 list \<times> 'e rgb) option" where
  "via_custom_value_command b api stk d s =
     do { channel_id \<leftarrow> rd d 1;
          if channel_id = id_qmk_rgb_matrix_channel then via_qmk_rgb_matrix_command b api stk d s
          else do { d \<leftarrow> via_custom_value_command_kb d; Some (d, s) } }"

subsection \<open>Values of the keyboard\<close>

definition row_bytes :: "nat \<Rightarrow> u32 \<Rightarrow> u8 list" where
  "row_bytes cols value = (if 24 < cols then [ucast (drop_bit 24 value AND 0xFF)] else []) @ (if 16 < cols then [ucast (drop_bit 16 value AND 0xFF)] else []) @
     (if 8 < cols then [ucast (drop_bit 8 value AND 0xFF)] else []) @ [ucast (value AND 0xFF)]"

text \<open>The loop over the rows: \<open>n\<close> rows may follow, \<open>r\<close> is the next one, \<open>i\<close> where it goes.\<close>

fun matrix_state_loop :: "nat \<Rightarrow> nat \<Rightarrow> (nat \<Rightarrow> u32) \<Rightarrow> nat \<Rightarrow> nat \<Rightarrow> nat \<Rightarrow> u8 list \<Rightarrow> u8 list option" where
  "matrix_state_loop rows cols get 0 r i d = Some d"
| "matrix_state_loop rows cols get (Suc n) r i d =
     (if r < rows then do { d \<leftarrow> wr i (row_bytes cols (get r)) d; matrix_state_loop rows cols get n (r + 1) (i + length (row_bytes cols (get r))) d }
      else Some d)"

definition get_keyboard_value :: "via_setup \<Rightarrow> 'e eeprom_api \<Rightarrow> via_env \<Rightarrow> u8 list \<Rightarrow> 'e via \<Rightarrow> u8 list option" where
  "get_keyboard_value c api env d s =
     do { value_id \<leftarrow> rd d 1;
          if value_id = id_uptime then wr 2 (be32 (via_uptime env)) d
          else if value_id = id_layout_options then do { value \<leftarrow> via_get_layout_options (via_date c) api (via_nv s); wr 2 (be32 value) d }
          else if value_id = id_switch_matrix_state then
            do { offset \<leftarrow> rd d 2;
                 matrix_state_loop (dk_config.MATRIX_ROWS (via_dk c)) (dk_config.MATRIX_COLS (via_dk c)) (matrix_get_row env) (28 div ((dk_config.MATRIX_COLS (via_dk c) + 7) div 8)) (unat offset) 3 d }
          else if value_id = id_firmware_version then wr 2 (be32 (VIA_FIRMWARE_VERSION env)) d
          else wr 0 [id_unhandled] d }"

definition via_set_device_indication :: "via_setup \<Rightarrow> 'e via \<Rightarrow> 'e via option" where
  "via_set_device_indication c s = do { r \<leftarrow> rgb_matrix_toggle_eeprom_helper (via_leds c) False (via_rgb s); Some (s\<lparr>via_rgb := r\<rparr>) }"

definition set_keyboard_value :: "via_setup \<Rightarrow> 'e eeprom_api \<Rightarrow> u8 list \<Rightarrow> 'e via \<Rightarrow> (u8 list \<times> 'e via) option" where
  "set_keyboard_value c api d s =
     do { value_id \<leftarrow> rd d 1;
          if value_id = id_layout_options then
            do { b0 \<leftarrow> rd d 2; b1 \<leftarrow> rd d 3; b2 \<leftarrow> rd d 4; b3 \<leftarrow> rd d 5;
                 e \<leftarrow> via_set_layout_options (via_date c) api (push_bit 24 (ucast b0) OR push_bit 16 (ucast b1) OR push_bit 8 (ucast b2) OR ucast b3) (via_nv s);
                 Some (d, set_nv e s) }
          else if value_id = id_device_indication then do { _ \<leftarrow> rd d 2; s \<leftarrow> via_set_device_indication c s; Some (d, s) }
          else do { d \<leftarrow> wr 0 [id_unhandled] d; Some (d, s) } }"

subsection \<open>Keychron's commands\<close>

definition PROTOCOL_VERSION :: u8 where "PROTOCOL_VERSION = 2"
definition kc_get_protocol_version :: u8 where "kc_get_protocol_version = 0xA0"
definition kc_get_firmware_version :: u8 where "kc_get_firmware_version = 0xA1"
definition kc_get_support_feature :: u8 where "kc_get_support_feature = 0xA2"
definition kc_get_default_layer :: u8 where "kc_get_default_layer = 0xA3"
definition RAWHID_QMKATA_MSG :: u8 where "RAWHID_QMKATA_MSG = 0xFA"

lemmas kc_ids = kc_get_protocol_version_def kc_get_firmware_version_def kc_get_support_feature_def kc_get_default_layer_def RAWHID_QMKATA_MSG_def

definition FEATURE_DEFAULT_LAYER :: u8 where "FEATURE_DEFAULT_LAYER = 1"
definition FEATURE_BLUETOOTH :: u8 where "FEATURE_BLUETOOTH = 2"
definition FEATURE_P2P4G :: u8 where "FEATURE_P2P4G = 4"

text \<open>The function gets the address of the second byte and writes to the byte behind it.\<close>

definition get_support_feature :: "u8 list \<Rightarrow> u8 list option" where
  "get_support_feature d = wr 2 [FEATURE_DEFAULT_LAYER OR FEATURE_BLUETOOTH OR FEATURE_P2P4G] d"

text \<open>One digit of \<^verbatim>\<open>itoa\<close> with base 16. The zero that \<^verbatim>\<open>itoa\<close> puts behind it is overwritten by what follows.\<close>

definition hex_digit :: "u16 \<Rightarrow> u8" where
  "hex_digit v = (let n = ucast (v AND 0xF) in if n < 10 then 0x30 + n else 0x57 + n)"

definition firmware_version :: "via_build \<Rightarrow> u16 \<Rightarrow> u8 list" where
  "firmware_version b ver = [0x76] @ (if ver AND 0xF000 \<noteq> 0 then [hex_digit (drop_bit 12 ver)] else []) @
     [hex_digit (drop_bit 8 ver), 0x2E, hex_digit (drop_bit 4 ver), 0x2E, hex_digit ver, 0x20] @ QMK_BUILDDATE b @ [0]"

text \<open>\<open>Some None\<close> is the result \<^verbatim>\<open>false\<close>.\<close>

definition via_command_kb :: "via_setup \<Rightarrow> via_env \<Rightarrow> u8 list \<Rightarrow> 'e via \<Rightarrow> via_out option option" where
  "via_command_kb c env d s =
     do { command \<leftarrow> rd d 0;
          if command = kc_get_protocol_version then do { d \<leftarrow> wr 1 [PROTOCOL_VERSION] d; Some (Some (Raw_hid_send d)) }
          else if command = kc_get_firmware_version then do { d \<leftarrow> wr 1 (firmware_version (via_date c) (DEVICE_VER env)) d; Some (Some (Raw_hid_send d)) }
          else if command = kc_get_support_feature then do { d \<leftarrow> get_support_feature d; Some (Some (Raw_hid_send d)) }
          else if command = kc_get_default_layer then do { d \<leftarrow> wr 1 [biton (default_layer_state (via_layers s))] d; Some (Some (Raw_hid_send d)) }
          else if command = 0xAA then Some (Some (Lkbt51_dfu_rx d))
          else if command = RAWHID_QMKATA_MSG then Some (Some (Qmkata_recv_data d))
          else Some None }"

subsection \<open>Messages\<close>

definition u16_at :: "u8 list \<Rightarrow> nat \<Rightarrow> u16 option" where
  "u16_at d i = do { hi \<leftarrow> rd d i; lo \<leftarrow> rd d (i + 1); Some (push_bit 8 (ucast hi) OR ucast lo) }"

text \<open>The commands that read or write \<open>n\<close> bytes at an offset; the bytes are in the message from its fifth byte on.\<close>

definition get_bytes :: "(nat \<Rightarrow> nat \<Rightarrow> 'e \<Rightarrow> u8 list option) \<Rightarrow> u8 list \<Rightarrow> 'e \<Rightarrow> u8 list option" where
  "get_bytes f d e = do { offset \<leftarrow> u16_at d 1; n \<leftarrow> rd d 3; bs \<leftarrow> f (unat offset) (unat n) e; wr 4 bs d }"

definition set_bytes :: "(nat \<Rightarrow> u8 list \<Rightarrow> 'e \<Rightarrow> 'e option) \<Rightarrow> u8 list \<Rightarrow> 'e \<Rightarrow> 'e option" where
  "set_bytes f d e =
     do { offset \<leftarrow> u16_at d 1; n \<leftarrow> rd d 3;
          if 4 + unat n \<le> length d then f (unat offset) (subarr 4 (unat n) d) e else None }"

text \<open>The \<^verbatim>\<open>switch\<close> of \<^verbatim>\<open>raw_hid_receive\<close>.\<close>

definition via_command :: "via_setup \<Rightarrow> 'e eeprom_api \<Rightarrow> u8 list \<Rightarrow> via_env \<Rightarrow> u8 list \<Rightarrow> 'e via \<Rightarrow> (u8 list \<times> 'e via) option" where
  "via_command c api stk env d s =
     (let dk = via_dk c; e = via_nv s
      in do { command_id \<leftarrow> rd d 0;
        if command_id = id_get_protocol_version then do { d \<leftarrow> wr 1 (be16 VIA_PROTOCOL_VERSION) d; Some (d, s) }
        else if command_id = id_get_keyboard_value then do { d \<leftarrow> get_keyboard_value c api env d s; Some (d, s) }
        else if command_id = id_set_keyboard_value then set_keyboard_value c api d s
        else if command_id = id_dynamic_keymap_get_keycode then
          do { layer \<leftarrow> rd d 1; r \<leftarrow> rd d 2; k \<leftarrow> rd d 3;
               v \<leftarrow> dynamic_keymap_get_keycode dk api (unat layer) (unat r) (unat k) e;
               d \<leftarrow> wr 4 (be16 v) d; Some (d, s) }
        else if command_id = id_dynamic_keymap_set_keycode then
          do { layer \<leftarrow> rd d 1; r \<leftarrow> rd d 2; k \<leftarrow> rd d 3; v \<leftarrow> u16_at d 4;
               e \<leftarrow> dynamic_keymap_set_keycode dk api (unat layer) (unat r) (unat k) v e; Some (d, set_nv e s) }
        else if command_id = id_dynamic_keymap_reset then do { e \<leftarrow> dynamic_keymap_reset dk api (via_flash c) e; Some (d, set_nv e s) }
        else if command_id = id_custom_set_value \<or> command_id = id_custom_get_value \<or> command_id = id_custom_save then
          do { (d, r) \<leftarrow> via_custom_value_command (via_leds c) api stk d (via_rgb s); Some (d, s\<lparr>via_rgb := r\<rparr>) }
        else if command_id = id_dynamic_keymap_macro_get_count then do { d \<leftarrow> wr 1 [of_nat (DYNAMIC_KEYMAP_MACRO_COUNT dk)] d; Some (d, s) }
        else if command_id = id_dynamic_keymap_macro_get_buffer_size then
          do { d \<leftarrow> wr 1 (be16 (of_nat (DYNAMIC_KEYMAP_MACRO_EEPROM_SIZE dk))) d; Some (d, s) }
        else if command_id = id_dynamic_keymap_macro_get_buffer then do { d \<leftarrow> get_bytes (dynamic_keymap_macro_get_buffer dk api) d e; Some (d, s) }
        else if command_id = id_dynamic_keymap_macro_set_buffer then do { e \<leftarrow> set_bytes (dynamic_keymap_macro_set_buffer dk api) d e; Some (d, set_nv e s) }
        else if command_id = id_dynamic_keymap_macro_reset then do { e \<leftarrow> dynamic_keymap_macro_reset dk api e; Some (d, set_nv e s) }
        else if command_id = id_dynamic_keymap_get_layer_count then do { d \<leftarrow> wr 1 [of_nat (DYNAMIC_KEYMAP_LAYER_COUNT dk)] d; Some (d, s) }
        else if command_id = id_dynamic_keymap_get_buffer then do { d \<leftarrow> get_bytes (dynamic_keymap_get_buffer dk api) d e; Some (d, s) }
        else if command_id = id_dynamic_keymap_set_buffer then do { e \<leftarrow> set_bytes (dynamic_keymap_set_buffer dk api) d e; Some (d, set_nv e s) }
        else if command_id = id_dynamic_keymap_get_encoder then
          do { layer \<leftarrow> rd d 1; i \<leftarrow> rd d 2; cw \<leftarrow> rd d 3;
               v \<leftarrow> dynamic_keymap_get_encoder dk api (unat layer) (unat i) (cw \<noteq> 0) e;
               d \<leftarrow> wr 4 (be16 v) d; Some (d, s) }
        else if command_id = id_dynamic_keymap_set_encoder then
          do { layer \<leftarrow> rd d 1; i \<leftarrow> rd d 2; cw \<leftarrow> rd d 3; v \<leftarrow> u16_at d 4;
               e \<leftarrow> dynamic_keymap_set_encoder dk api (unat layer) (unat i) (cw \<noteq> 0) v e; Some (d, set_nv e s) }
        else do { d \<leftarrow> wr 0 [id_unhandled] d; Some (d, s) } })"

definition raw_hid_receive :: "via_setup \<Rightarrow> 'e eeprom_api \<Rightarrow> u8 list \<Rightarrow> via_env \<Rightarrow> u8 list \<Rightarrow> 'e via \<Rightarrow> (via_out \<times> 'e via) option" where
  "raw_hid_receive c api stk env d s =
     do { handled \<leftarrow> via_command_kb c env d s;
          case handled of Some out \<Rightarrow> Some (out, s)
          | None \<Rightarrow> do { (d, s) \<leftarrow> via_command c api stk env d s; Some (Raw_hid_send d, s) } }"

text \<open>\<^verbatim>\<open>process_record_via\<close>: the macro that the keycode stands for, and whether processing goes on.\<close>

definition QK_MACRO :: u16 where "QK_MACRO = 0x7700"
definition QK_MACRO_MAX :: u16 where "QK_MACRO_MAX = 0x777F"

definition process_record_via :: "dk_config \<Rightarrow> 'e eeprom_api \<Rightarrow> u16 \<Rightarrow> bool \<Rightarrow> 'e \<Rightarrow> (u8 list list \<times> bool) option" where
  "process_record_via dk api keycode pressed e =
     (if pressed \<and> QK_MACRO \<le> keycode \<and> keycode \<le> QK_MACRO_MAX
      then do { sent \<leftarrow> dynamic_keymap_macro_send dk api (unat (ucast (keycode - QK_MACRO) :: u8)) e; Some (sent, False) }
      else Some ([], True))"

section \<open>Every message is answered\<close>

lemma rd_in [simp]: "i < length d \<Longrightarrow> rd d i = Some (d ! i)"
  by (simp add: rd_def)

lemma rd_0 [simp]: "32 \<le> length d \<Longrightarrow> rd d 0 = Some (d ! 0)"
  by (rule rd_in) linarith

lemma wr_0 [simp]: "32 \<le> length d \<Longrightarrow> wr 0 [v] d = Some (memcpy_at 0 [v] d)" "32 \<le> length d \<Longrightarrow> length (memcpy_at 0 [v] d) = length d"
  by (auto simp: wr_def memcpy_at_def)

lemma wr_in [simp]: "i + length bs \<le> length d \<Longrightarrow> wr i bs d = Some (memcpy_at i bs d)"
  by (simp add: wr_def)

lemma wr_out [simp]: "length d < i + length bs \<Longrightarrow> wr i bs d = None"
  by (simp add: wr_def)

lemma length_be [simp]: "length (be16 v) = 2" "length (be32 w) = 4"
  by (simp_all add: be16_def be32_def)

lemma u16_at_in [simp]: "i + 1 < length d \<Longrightarrow> u16_at d i = Some (push_bit 8 (ucast (d ! i)) OR ucast (d ! (i + 1)))"
  by (simp add: u16_at_def)

lemma be16_pair: "be16 (push_bit 8 (ucast (a :: u8)) OR ucast (b :: u8)) = [a, b]"
  unfolding be16_def and_0xFF by (simp; intro conjI bit_word_eqI; auto simp: bit_simps)

lemma set_nv_simps [simp]: "rgb_nv (via_rgb (set_nv e s)) = e" "rgb_matrix_config (via_rgb (set_nv e s)) = rgb_matrix_config (via_rgb s)"
  by (simp_all add: set_nv_def)

text \<open>The loop over the matrix writes at most 28 bytes.\<close>

lemma length_row_bytes: "0 < cols \<Longrightarrow> cols \<le> 32 \<Longrightarrow> length (row_bytes cols v) = (cols + 7) div 8"
  by (simp add: row_bytes_def) (intro conjI impI div_nat_eqI [symmetric]; simp)

lemma matrix_state_loop_total:
  assumes "0 < cols" and "cols \<le> 32" and "i + n * ((cols + 7) div 8) \<le> length d"
  shows "\<exists>d'. matrix_state_loop rows cols get n r i d = Some d' \<and> length d' = length d"
  using assms(3)
proof (induction n arbitrary: r i d)
  case (Suc n)
  let ?k = "length (row_bytes cols (get r))"
  have "i + ?k + n * ((cols + 7) div 8) \<le> length d"
    using Suc.prems by (simp add: length_row_bytes [OF assms(1,2)])
  with Suc.IH [of "i + ?k" "memcpy_at i (row_bytes cols (get r)) d" "r + 1"] show ?case
    by simp
qed simp

definition overruns :: "u8 list \<Rightarrow> bool" where
  "overruns d \<longleftrightarrow> hd d \<in> {id_dynamic_keymap_macro_get_buffer, id_dynamic_keymap_macro_set_buffer, id_dynamic_keymap_get_buffer, id_dynamic_keymap_set_buffer} \<and>
     length d < 4 + unat (d ! 3)"

locale via_device = via_eeprom +
  fixes vs :: via_setup and stk :: "u8 list"
  assumes parts: "via_dk vs = c" "via_date vs = b" and leds: "rgb_build_ok (via_leds vs)" and stk: "8 \<le> length stk"
    and date: "length (QMK_BUILDDATE b) \<le> 19" and cols: "0 < dk_config.MATRIX_COLS c" "dk_config.MATRIX_COLS c \<le> 32"
begin

definition via_ok :: "'a via \<Rightarrow> bool" where
  "via_ok s \<longleftrightarrow> ok (via_nv s) \<and> rgb_ok (via_leds vs) (rgb_matrix_config (via_rgb s))"

definition answers :: "nat \<Rightarrow> (u8 list \<times> 'a via) option \<Rightarrow> bool" where
  "answers n r \<longleftrightarrow> (\<exists>d s. r = Some (d, s) \<and> length d = n \<and> via_ok s)"

lemma size40: "40 \<le> size"
  using magic_range by (simp add: VIA_EEPROM_MAGIC_ADDR_def EECONFIG_SIZE_def)

lemma via_ok_nv [simp]: "via_ok s \<Longrightarrow> ok e \<Longrightarrow> via_ok (set_nv e s)"
  by (simp add: via_ok_def)

lemma via_ok_rgb: "via_ok s \<Longrightarrow> rgb_step (via_leds vs) w (via_rgb s) r \<Longrightarrow> via_ok (s\<lparr>via_rgb := r\<rparr>)"
  by (simp add: via_ok_def rgb_step_def)

lemma get_keyboard_value_answers:
  assumes "32 \<le> length d" and "via_ok s"
  shows "\<exists>d'. get_keyboard_value vs api env d s = Some d' \<and> length d' = length d"
proof -
  have "28 div ((dk_config.MATRIX_COLS c + 7) div 8) * ((dk_config.MATRIX_COLS c + 7) div 8) \<le> 28"
    by (rule div_times_less_eq_dividend)
  then have "\<exists>d'. matrix_state_loop rows (dk_config.MATRIX_COLS c) get (28 div ((dk_config.MATRIX_COLS c + 7) div 8)) r 3 d = Some d' \<and> length d' = length d" for rows get r
    using assms(1) by (intro matrix_state_loop_total cols) linarith
  moreover obtain v where "via_get_layout_options b api (via_nv s) = Some v"
    using get_layout_total assms(2) unfolding via_ok_def by blast
  ultimately show ?thesis
    using assms(1) by (simp add: get_keyboard_value_def parts)
qed

lemma set_keyboard_value_answers:
  assumes "32 \<le> length d" and "via_ok s"
  shows "answers (length d) (set_keyboard_value vs api d s)"
proof -
  obtain e' where "via_set_layout_options b api (push_bit 24 (ucast (d ! 2)) OR push_bit 16 (ucast (d ! 3)) OR push_bit 8 (ucast (d ! 4)) OR ucast (d ! 5)) (via_nv s) = Some e'"
      "ok e'"
    using layout_roundtrip assms(2) unfolding via_ok_def by blast
  moreover obtain r where "rgb_matrix_toggle_eeprom_helper (via_leds vs) False (via_rgb s) = Some r" "via_ok (s\<lparr>via_rgb := r\<rparr>)"
    using toggle_step [OF leds] via_ok_rgb [OF assms(2)] by blast
  ultimately show ?thesis
    using assms by (auto simp: set_keyboard_value_def via_set_device_indication_def parts answers_def)
qed

lemma rgb_set_value_step:
  assumes "32 \<le> length d"
  shows "\<exists>r. via_qmk_rgb_matrix_set_value (via_leds vs) d s = Some r \<and> rgb_step (via_leds vs) False s r"
proof -
  obtain r where r: "rgb_matrix_enable_noeeprom (via_leds vs) s = Some r" "rgb_step (via_leds vs) False s r"
    using enable_noeeprom_step [OF leds] by blast
  have "rgb_step (via_leds vs) False s (rgb_matrix_mode_eeprom_helper (via_leds vs) v False r)" for v
    by (rule rgb_step_trans [OF r(2) mode_step [OF leds]])
  then show ?thesis
    using assms r(1) by (simp add: via_qmk_rgb_matrix_set_value_def Let_def sethsv_step simple_steps disable_step rgb_step_refl)
qed

lemma rgb_get_value_total: "32 \<le> length d \<Longrightarrow> \<exists>d'. via_qmk_rgb_matrix_get_value l d s = Some d' \<and> length d' = length d"
  by (simp add: via_qmk_rgb_matrix_get_value_def Let_def)

lemma custom_value_answers:
  assumes "32 \<le> length d" and "via_ok s"
  shows "\<exists>d' r. via_custom_value_command (via_leds vs) api stk d (via_rgb s) = Some (d', r) \<and> length d' = length d \<and> via_ok (s\<lparr>via_rgb := r\<rparr>)"
proof -
  obtain r where "via_qmk_rgb_matrix_set_value (via_leds vs) d (via_rgb s) = Some r" "via_ok (s\<lparr>via_rgb := r\<rparr>)"
    using rgb_set_value_step [OF assms(1), of "via_rgb s"] via_ok_rgb [OF assms(2)] by blast
  moreover obtain d' where "via_qmk_rgb_matrix_get_value (via_leds vs) d (via_rgb s) = Some d'" "length d' = length d"
    using rgb_get_value_total [OF assms(1)] by blast
  moreover have "length (config_bytes (rgb_matrix_config (via_rgb s))) = 8"
    using config_bytes_bytes(2) [OF leds] assms(2) by (simp add: via_ok_def)
  then obtain e where "eeconfig_update_rgb_matrix api stk (via_rgb s) = Some ((via_rgb s)\<lparr>rgb_nv := e, dirty_rgb_matrix := False\<rparr>)" "ok e"
    using flush_spec [of "via_rgb s" stk True] assms(2) size40 stk by (auto simp: via_ok_def eeconfig_update_rgb_matrix_def)
  ultimately show ?thesis
    using assms by (simp add: rd_0 wr_0 via_custom_value_command_def via_qmk_rgb_matrix_command_def via_custom_value_command_kb_def via_ok_def)
qed

lemma get_bytes_answers:
  assumes "32 \<le> length d" and "ok e" and "base + limit \<le> size"
  shows "get_bytes (\<lambda>offset n. get_buffer_loop api base limit offset n) d e = None \<longleftrightarrow> length d < 4 + unat (d ! 3)"
    "get_bytes (\<lambda>offset n. get_buffer_loop api base limit offset n) d e = Some d' \<Longrightarrow> length d' = length d"
  using assms(1) by (auto simp: get_bytes_def get_buffer_spec [OF assms(2,3)] wr_def split: if_splits)

lemma set_bytes_answers:
  assumes "32 \<le> length d" and "ok e" and "base + limit \<le> size"
  shows "set_bytes (set_buffer_loop api base limit) d e = None \<longleftrightarrow> length d < 4 + unat (d ! 3)"
    "set_bytes (set_buffer_loop api base limit) d e = Some e' \<Longrightarrow> ok e'"
proof -
  let ?f = "set_buffer_loop api base limit (unat (push_bit 8 (ucast (d ! 1)) OR ucast (d ! 2) :: u16)) (subarr 4 (unat (d ! 3)) d) e"
  obtain e'' where "?f = Some e''" "ok e''"
    using set_buffer_spec [OF assms(2,3)] by blast
  then show "set_bytes (set_buffer_loop api base limit) d e = None \<longleftrightarrow> length d < 4 + unat (d ! 3)"
    "set_bytes (set_buffer_loop api base limit) d e = Some e' \<Longrightarrow> ok e'"
    using assms(1) by (auto simp: set_bytes_def numeral_2_eq_2 split: if_splits)
qed

lemma keycode_answers:
  assumes "ok e"
  shows "\<exists>v. dynamic_keymap_get_keycode c api l r k e = Some v" "\<exists>v. dynamic_keymap_get_encoder c api l i cw e = Some v"
    "\<exists>e'. dynamic_keymap_set_keycode c api l r k v e = Some e' \<and> ok e'" "\<exists>e'. dynamic_keymap_set_encoder c api l i cw v e = Some e' \<and> ok e'"
proof -
  show "\<exists>v. dynamic_keymap_get_keycode c api l r k e = Some v"
    using get_slot_spec [OF assms, of "Key_slot l r k"] by (cases "valid_slot c (Key_slot l r k)") (auto simp: dynamic_keymap_get_keycode_def)
  show "\<exists>v. dynamic_keymap_get_encoder c api l i cw e = Some v"
    using get_slot_spec [OF assms, of "Encoder_slot l i cw"] by (cases "valid_slot c (Encoder_slot l i cw)") (auto simp: dynamic_keymap_get_encoder_def)
  show "\<exists>e'. dynamic_keymap_set_keycode c api l r k v e = Some e' \<and> ok e'"
    using set_slot_get [OF assms, of "Key_slot l r k" v] assms by (cases "valid_slot c (Key_slot l r k)") (auto simp: dynamic_keymap_set_keycode_def)
  show "\<exists>e'. dynamic_keymap_set_encoder c api l i cw v e = Some e' \<and> ok e'"
    using set_slot_get [OF assms, of "Encoder_slot l i cw" v] assms by (cases "valid_slot c (Encoder_slot l i cw)") (auto simp: dynamic_keymap_set_encoder_def)
qed

lemma keymap_area: "DYNAMIC_KEYMAP_EEPROM_ADDR c + dynamic_keymap_eeprom_size c \<le> size"
proof -
  have "dynamic_keymap_eeprom_size c \<le> DYNAMIC_KEYMAP_LAYER_COUNT c * dk_config.MATRIX_ROWS c * dk_config.MATRIX_COLS c * 2"
    unfolding dynamic_keymap_eeprom_size_def by (rule mod_less_eq_dividend)
  then show ?thesis
    using macro_end by (simp add: DYNAMIC_KEYMAP_MACRO_EEPROM_ADDR_def DYNAMIC_KEYMAP_ENCODER_EEPROM_ADDR_def)
qed

lemma buffer_answers:
  assumes d: "32 \<le> length d" and s: "via_ok s" and n: "4 + unat (d ! 3) \<le> length d"
  shows "\<exists>d'. get_bytes (dynamic_keymap_macro_get_buffer c api) d (via_nv s) = Some d' \<and> length d' = length d"
    "\<exists>d'. get_bytes (dynamic_keymap_get_buffer c api) d (via_nv s) = Some d' \<and> length d' = length d"
    "\<exists>e. set_bytes (dynamic_keymap_macro_set_buffer c api) d (via_nv s) = Some e \<and> ok e"
    "\<exists>e. set_bytes (dynamic_keymap_set_buffer c api) d (via_nv s) = Some e \<and> ok e"
proof -
  have e: "ok (via_nv s)"
    using s by (simp add: via_ok_def)
  have f: "dynamic_keymap_macro_get_buffer c api = (\<lambda>offset n. get_buffer_loop api macro_base macro_size offset n)"
    "dynamic_keymap_get_buffer c api = (\<lambda>offset n. get_buffer_loop api (DYNAMIC_KEYMAP_EEPROM_ADDR c) (dynamic_keymap_eeprom_size c) offset n)"
    "dynamic_keymap_macro_set_buffer c api = set_buffer_loop api macro_base macro_size"
    "dynamic_keymap_set_buffer c api = set_buffer_loop api (DYNAMIC_KEYMAP_EEPROM_ADDR c) (dynamic_keymap_eeprom_size c)"
    by (intro ext; simp add: dynamic_keymap_macro_get_buffer_def dynamic_keymap_get_buffer_def dynamic_keymap_macro_set_buffer_def dynamic_keymap_set_buffer_def)+
  show "\<exists>d'. get_bytes (dynamic_keymap_macro_get_buffer c api) d (via_nv s) = Some d' \<and> length d' = length d"
    "\<exists>d'. get_bytes (dynamic_keymap_get_buffer c api) d (via_nv s) = Some d' \<and> length d' = length d"
    "\<exists>e. set_bytes (dynamic_keymap_macro_set_buffer c api) d (via_nv s) = Some e \<and> ok e"
    "\<exists>e. set_bytes (dynamic_keymap_set_buffer c api) d (via_nv s) = Some e \<and> ok e"
    unfolding f using get_bytes_answers [OF d e macro_end(1)] get_bytes_answers [OF d e keymap_area]
      set_bytes_answers [OF d e macro_end(1)] set_bytes_answers [OF d e keymap_area] n by (metis not_None_eq not_less)+
qed

lemma buffer_overruns:
  assumes "32 \<le> length d" and "via_ok s" and "length d < 4 + unat (d ! 3)"
  shows "get_bytes (dynamic_keymap_macro_get_buffer c api) d (via_nv s) = None" "get_bytes (dynamic_keymap_get_buffer c api) d (via_nv s) = None"
    "set_bytes F d (e :: 'a) = None"
  using assms macro_end keymap_area
  by (simp_all add: via_ok_def get_bytes_def set_bytes_def dynamic_keymap_macro_get_buffer_def dynamic_keymap_get_buffer_def get_buffer_spec)

lemma answersI: "length d = n \<Longrightarrow> via_ok s \<Longrightarrow> answers n (Some (d, s))"
  by (simp add: answers_def)

text \<open>The branches, with what each needs.\<close>

lemma answers_bind:
  "\<exists>d'. r = Some d' \<and> length d' = n \<Longrightarrow> via_ok s \<Longrightarrow> answers n (do { d \<leftarrow> r; Some (d, s) })"
  "\<exists>e. w = Some e \<and> ok e \<Longrightarrow> via_ok s \<Longrightarrow> length d = n \<Longrightarrow> answers n (do { e \<leftarrow> w; Some (d, set_nv e s) })"
  by (auto simp: answers_def)

lemma answers_if: "(x \<Longrightarrow> answers n r) \<Longrightarrow> (\<not> x \<Longrightarrow> answers n r') \<Longrightarrow> answers n (if x then r else r')"
  by simp

lemma command_answers:
  assumes d: "32 \<le> length d" and s: "via_ok s" and n: "\<not> overruns d"
  shows "answers (length d) (via_command vs api stk env d s)"
proof -
  let ?e = "via_nv s" and ?D = "length d"
  have e: "ok ?e"
    using s by (simp add: via_ok_def)
  have wr: "\<exists>d'. wr i bs d = Some d' \<and> length d' = ?D" if "i + length bs \<le> 32" for i bs
    using that d by (simp add: wr_def)
  have buf: "4 + unat (d ! 3) \<le> ?D" if "hd d \<in> {id_dynamic_keymap_macro_get_buffer, id_dynamic_keymap_macro_set_buffer, id_dynamic_keymap_get_buffer, id_dynamic_keymap_set_buffer}"
    using n that by (auto simp: overruns_def not_less)
  have hd: "hd d = d ! 0"
    using d by (intro hd_conv_nth) auto
  have g: "answers ?D (do { v \<leftarrow> x; d \<leftarrow> wr 4 (be16 v) d; Some (d, s) })" if "\<exists>v. x = Some v" for x
    using that d s by (auto simp: answers_def)
  have cu: "answers ?D (do { (d, r) \<leftarrow> via_custom_value_command (via_leds vs) api stk d (via_rgb s); Some (d, s\<lparr>via_rgb := r\<rparr>) })"
    using custom_value_answers [OF d s] by (auto simp: answers_def)
  have rst: "\<exists>e'. dynamic_keymap_reset c api (via_flash vs) ?e = Some e' \<and> ok e'" "\<exists>e'. dynamic_keymap_macro_reset c api ?e = Some e' \<and> ok e'"
    using reset_spec [OF e, of "via_flash vs"] macro_reset_spec [OF e] by blast+
  have rds: "rd d 1 = Some (d ! 1)" "rd d 2 = Some (d ! 2)" "rd d 3 = Some (d ! 3)" "u16_at d 4 = Some (push_bit 8 (ucast (d ! 4)) OR ucast (d ! 5))"
    using d by simp_all
  show ?thesis
    unfolding via_command_def Let_def parts rd_0 [OF d] rds Option.bind.bind_lunit
    by (intro answers_if answers_bind cu g wr s refl set_keyboard_value_answers get_keyboard_value_answers d keycode_answers [OF e] buffer_answers buf rst)
      (simp_all add: hd)
qed

lemma command_overruns:
  assumes d: "32 \<le> length d" and s: "via_ok s" and n: "overruns d"
  shows "via_command vs api stk env d s = None"
proof -
  have "d \<noteq> []"
    using d by auto
  then have "d ! 0 \<in> {id_dynamic_keymap_macro_get_buffer, id_dynamic_keymap_macro_set_buffer, id_dynamic_keymap_get_buffer, id_dynamic_keymap_set_buffer}" "length d < 4 + unat (d ! 3)"
    using n by (simp_all add: overruns_def hd_conv_nth)
  then show ?thesis
    using buffer_overruns [OF d s] d by (auto simp: via_command_def parts rd_0 via_ids)
qed

text \<open>Keychron's commands are all answered: the longest answer, the version of the firmware, has at most 29 bytes.\<close>

lemma command_kb_total:
  assumes "32 \<le> length d"
  shows "\<exists>r. via_command_kb vs env d s = Some r"
proof -
  have "1 + length (firmware_version b v) \<le> length d" for v
  proof -
    have "length (firmware_version b v) \<le> 28"
      using date by (simp add: firmware_version_def)
    with assms show ?thesis
      by linarith
  qed
  then show ?thesis
    using assms by (simp add: via_command_kb_def get_support_feature_def parts)
qed

lemma command_kb_not_via: "32 \<le> length d \<Longrightarrow> overruns d \<Longrightarrow> via_command_kb vs env d s = Some None"
  by (cases d) (auto simp: via_command_kb_def overruns_def via_ids kc_ids rd_def)

lemma receive_none_iff:
  assumes "32 \<le> length d" and "via_ok s"
  shows "raw_hid_receive vs api stk env d s = None \<longleftrightarrow> overruns d"
proof (cases "overruns d")
  case True
  then show ?thesis
    using command_kb_not_via [OF assms(1), of env s] command_overruns [OF assms] by (simp add: raw_hid_receive_def)
next
  case False
  then show ?thesis
    using command_kb_total [OF assms(1), of env s] command_answers [OF assms False, of env] by (auto simp: raw_hid_receive_def answers_def split: option.split)
qed

lemma receive_ok:
  assumes "32 \<le> length d" and "via_ok s" and "raw_hid_receive vs api stk env d s = Some (out, s')"
  shows "via_ok s'"
proof -
  have "\<not> overruns d"
    using receive_none_iff [OF assms(1,2)] assms(3) by auto
  from command_answers [OF assms(1,2) this, of env] show ?thesis
    using assms(2,3) by (auto simp: raw_hid_receive_def answers_def bind_eq_Some_conv split: option.splits)
qed

lemma receive_get_keycode:
  assumes "32 \<le> length d" and "d ! 0 = id_dynamic_keymap_get_keycode"
  shows "raw_hid_receive vs api stk env d s =
    map_option (\<lambda>v. (Raw_hid_send (memcpy_at 4 (be16 v) d), s)) (dynamic_keymap_get_keycode c api (unat (d ! 1)) (unat (d ! 2)) (unat (d ! 3)) (via_nv s))"
  using assms by (auto simp: raw_hid_receive_def via_command_kb_def via_command_def rd_0 parts via_ids kc_ids Let_def split: Option.bind_split)

lemma receive_set_keycode:
  assumes "32 \<le> length d" and "d ! 0 = id_dynamic_keymap_set_keycode"
  shows "raw_hid_receive vs api stk env d s = map_option (\<lambda>e. (Raw_hid_send d, set_nv e s))
    (dynamic_keymap_set_keycode c api (unat (d ! 1)) (unat (d ! 2)) (unat (d ! 3)) (push_bit 8 (ucast (d ! 4)) OR ucast (d ! 5)) (via_nv s))"
  using assms by (auto simp: raw_hid_receive_def via_command_kb_def via_command_def rd_0 parts via_ids kc_ids Let_def split: Option.bind_split)

lemma keycode_roundtrip:
  assumes d: "32 \<le> length d" "d ! 0 = id_dynamic_keymap_set_keycode" and s: "via_ok s"
    and key: "unat (d ! 1) < DYNAMIC_KEYMAP_LAYER_COUNT c" "unat (d ! 2) < dk_config.MATRIX_ROWS c" "unat (d ! 3) < dk_config.MATRIX_COLS c"
  shows "\<exists>s1. raw_hid_receive vs api stk env d s = Some (Raw_hid_send d, s1) \<and> via_ok s1 \<and>
    (\<forall>env' d'. 32 \<le> length d' \<and> d' ! 0 = id_dynamic_keymap_get_keycode \<longrightarrow>
      (if subarr 1 3 d' = subarr 1 3 d then raw_hid_receive vs api stk env' d' s1 = Some (Raw_hid_send (memcpy_at 4 [d ! 4, d ! 5] d'), s1)
       else map_option fst (raw_hid_receive vs api stk env' d' s1) = map_option fst (raw_hid_receive vs api stk env' d' s)))"
proof -
  let ?k = "Key_slot (unat (d ! 1)) (unat (d ! 2)) (unat (d ! 3))" and ?v = "push_bit 8 (ucast (d ! 4)) OR ucast (d ! 5) :: u16"
  have e: "ok (via_nv s)"
    using s by (simp add: via_ok_def)
  obtain e' where e': "set_slot c api ?k ?v (via_nv s) = Some e'" "ok e'"
      "\<And>k. valid_slot c k \<Longrightarrow> get_slot c api k e' = (if k = ?k then Some ?v else get_slot c api k (via_nv s))"
    using set_slot_get [OF e, of ?k ?v] key by auto
  have get: "dynamic_keymap_get_keycode c api (unat l) (unat r) (unat k) e' =
      (if (l, r, k) = (d ! 1, d ! 2, d ! 3) then Some ?v else dynamic_keymap_get_keycode c api (unat l) (unat r) (unat k) (via_nv s))" for l r k :: u8
    using e'(3) [of "Key_slot (unat l) (unat r) (unat k)"] key by (cases "valid_slot c (Key_slot (unat l) (unat r) (unat k))") (auto simp: dynamic_keymap_get_keycode_def word_unat_eq_iff)
  have sub: "subarr 1 3 x = [x ! 1, x ! 2, x ! 3]" if "32 \<le> length x" for x :: "u8 list"
    using that by (intro nth_equalityI) (auto simp: nth_subarr less_Suc_eq numeral_3_eq_3 numeral_2_eq_2)
  show ?thesis
  proof (intro exI [of _ "set_nv e' s"] conjI allI impI)
    show "raw_hid_receive vs api stk env d s = Some (Raw_hid_send d, set_nv e' s)"
      using receive_set_keycode [OF d] e'(1) by simp
    show "via_ok (set_nv e' s)"
      using s e'(2) by simp
    fix env' and d' :: "u8 list"
    assume d': "32 \<le> length d' \<and> d' ! 0 = id_dynamic_keymap_get_keycode"
    note g = receive_get_keycode [of d' env' "set_nv e' s"] receive_get_keycode [of d' env' s]
    show "if subarr 1 3 d' = subarr 1 3 d then raw_hid_receive vs api stk env' d' (set_nv e' s) = Some (Raw_hid_send (memcpy_at 4 [d ! 4, d ! 5] d'), set_nv e' s)
       else map_option fst (raw_hid_receive vs api stk env' d' (set_nv e' s)) = map_option fst (raw_hid_receive vs api stk env' d' s)"
      using d d' by (auto simp: g get sub [unfolded One_nat_def] be16_pair option.map_comp comp_def)
  qed
qed

end

section \<open>VIA on the wear-leveled EEPROM\<close>

definition via_setup_ok :: "nat \<Rightarrow> via_setup \<Rightarrow> bool" where
  "via_setup_ok total_bytes vs \<longleftrightarrow> dk_static_asserts total_bytes (via_dk vs) \<and> via_build_ok (via_dk vs) (via_date vs) \<and> rgb_build_ok (via_leds vs) \<and>
     length (QMK_BUILDDATE (via_date vs)) \<le> 19 \<and> 0 < dk_config.MATRIX_COLS (via_dk vs) \<and> dk_config.MATRIX_COLS (via_dk vs) \<le> 32"

definition via_settled :: "wl_config \<Rightarrow> ('s \<Rightarrow> bool) \<Rightarrow> ('s \<Rightarrow> u8 list) \<Rightarrow> ('s \<Rightarrow> bool) \<Rightarrow> via_setup \<Rightarrow> 's wear_leveling via \<Rightarrow> bool" where
  "via_settled cfg valid cells opened vs s \<longleftrightarrow> wl_settled cfg valid cells opened (via_nv s) \<and> rgb_ok (via_leds vs) (rgb_matrix_config (via_rgb s))"

lemma wl_device:
  assumes "backing_store_laws drv cfg valid cells opened" and "via_setup_ok (lsize cfg) vs" and "8 \<le> length stk"
  shows "via_device (wl_eeprom drv cfg) (wl_settled cfg valid cells opened) cache (lsize cfg) (via_dk vs) (via_date vs) vs stk"
  using wl_via [OF assms(1)] assms(2,3) by (simp add: via_device_def via_device_axioms_def via_setup_ok_def)

definition q3_via_setup :: via_setup where
  "q3_via_setup = \<lparr>via_dk = q3_keymap_config, via_date = demo_build, via_leds = q3_rgb_build, via_flash = sample_flash\<rparr>"

definition q3_via_env :: via_env where
  "q3_via_env = \<lparr>via_uptime = 0x01020304, matrix_get_row = (\<lambda>r. if r = 2 then 0x10001 else 0), VIA_FIRMWARE_VERSION = 0, DEVICE_VER = 0x0101\<rparr>"

definition via_boot :: "'e \<Rightarrow> 'e via" where
  "via_boot e = \<lparr>via_rgb = rgb_boot e, via_layers = \<lparr>default_layer_state = 1, layer_state = 0, source_layers_cache = [], encoder_source_layers_cache = []\<rparr>\<rparr>"

lemma q3_via_setup_ok: "via_setup_ok (lsize (q3_max_config w)) q3_via_setup"
  using q3_keymap_asserts demo_build_ok q3_rgb_build_ok by (simp add: via_setup_ok_def q3_via_setup_def) (simp add: demo_build_def q3_keymap_config_def)

lemma via_boot_settled: "via_settled (q3_max_config w) (mock_valid (q3_max_config w)) mock_cells mock_opened q3_via_setup (via_boot (blank (q3_max_config w)))"
  using blank_settled [OF q3_max_config_ok, of w] q3_rgb_build_ok by (simp add: via_settled_def via_boot_def rgb_boot_def q3_via_setup_def rgb_build_ok_def)

interpretation q3_device: via_device "wl_eeprom (mock_backing_store (q3_max_config w)) (q3_max_config w)"
    "wl_settled (q3_max_config w) (mock_valid (q3_max_config w)) mock_cells mock_opened" cache "lsize (q3_max_config w)"
    "via_dk q3_via_setup" "via_date q3_via_setup" q3_via_setup "replicate 8 0" for w
  by (rule wl_device [OF mock_laws [OF q3_max_config_ok] q3_via_setup_ok]) simp



text \<open>C25: A keycode set with a VIA message is what the next message that asks for that key is answered with, in the bytes where the host put it; the answers for all other keys, and
  for keys outside the keymap, stay.\<close>

theorem via_keycode_roundtrip:
  assumes laws: "backing_store_laws drv cfg valid cells opened" and vs: "via_setup_ok (lsize cfg) vs" and stk: "8 \<le> length stk"
    and s: "via_settled cfg valid cells opened vs s" and d: "32 \<le> length d" "d ! 0 = id_dynamic_keymap_set_keycode"
    and key: "unat (d ! 1) < DYNAMIC_KEYMAP_LAYER_COUNT (via_dk vs)" "unat (d ! 2) < dk_config.MATRIX_ROWS (via_dk vs)" "unat (d ! 3) < dk_config.MATRIX_COLS (via_dk vs)"
  shows "\<exists>s1. raw_hid_receive vs (wl_eeprom drv cfg) stk env d s = Some (Raw_hid_send d, s1) \<and> via_settled cfg valid cells opened vs s1 \<and>
    (\<forall>env' d'. 32 \<le> length d' \<and> d' ! 0 = id_dynamic_keymap_get_keycode \<longrightarrow>
      (if subarr 1 3 d' = subarr 1 3 d then raw_hid_receive vs (wl_eeprom drv cfg) stk env' d' s1 = Some (Raw_hid_send (memcpy_at 4 [d ! 4, d ! 5] d'), s1)
       else map_option fst (raw_hid_receive vs (wl_eeprom drv cfg) stk env' d' s1) = map_option fst (raw_hid_receive vs (wl_eeprom drv cfg) stk env' d' s)))"
proof -
  note D = wl_device [OF laws vs stk]
  have ok: "via_device.via_ok (wl_settled cfg valid cells opened) vs s' \<longleftrightarrow> via_settled cfg valid cells opened vs s'" for s'
    by (simp add: via_device.via_ok_def [OF D] via_settled_def)
  show ?thesis
    using via_device.keycode_roundtrip [OF D d _ key, of s env] s unfolding ok by blast
qed

theorem via_keycode_roundtrip_witness:
  "\<exists>s1. raw_hid_receive q3_via_setup (wl_eeprom (mock_backing_store (q3_max_config Write4)) (q3_max_config Write4)) (replicate 8 0) q3_via_env
      ([0x05, 1, 2, 3, 0x12, 0x34] @ replicate 26 0) (via_boot (blank (q3_max_config Write4))) = Some (Raw_hid_send ([0x05, 1, 2, 3, 0x12, 0x34] @ replicate 26 0), s1) \<and>
    raw_hid_receive q3_via_setup (wl_eeprom (mock_backing_store (q3_max_config Write4)) (q3_max_config Write4)) (replicate 8 0) q3_via_env
      ([0x04, 1, 2, 3] @ replicate 28 0) s1 = Some (Raw_hid_send ([0x04, 1, 2, 3, 0x12, 0x34] @ replicate 26 0), s1)"
proof -
  let ?d = "[0x05, 1, 2, 3, 0x12, 0x34] @ replicate 26 0 :: u8 list" and ?d' = "[0x04, 1, 2, 3] @ replicate 28 0 :: u8 list"
  have "8 \<le> length (replicate 8 (0 :: u8))" and d: "32 \<le> length ?d" "?d ! 0 = id_dynamic_keymap_set_keycode"
    "unat (?d ! 1) < DYNAMIC_KEYMAP_LAYER_COUNT (via_dk q3_via_setup)" "unat (?d ! 2) < dk_config.MATRIX_ROWS (via_dk q3_via_setup)"
    "unat (?d ! 3) < dk_config.MATRIX_COLS (via_dk q3_via_setup)"
    by (simp_all add: via_ids q3_via_setup_def q3_keymap_config_def)
  moreover have "32 \<le> length ?d' \<and> ?d' ! 0 = id_dynamic_keymap_get_keycode" "subarr 1 3 ?d' = subarr 1 3 ?d"
      "memcpy_at 4 [?d ! 4, ?d ! 5] ?d' = [0x04, 1, 2, 3, 0x12, 0x34] @ replicate 26 0"
    by (simp_all add: via_ids subarr_def memcpy_at_def)
  ultimately show ?thesis
    using via_keycode_roundtrip [OF mock_laws [OF q3_max_config_ok] q3_via_setup_ok _ via_boot_settled d, of "replicate 8 0" Write4 q3_via_env] by metis
qed

text \<open>The messages that nothing handles.\<close>

definition via_unknown :: "u8 list \<Rightarrow> bool" where
  "via_unknown d \<longleftrightarrow>
     (if hd d = id_get_keyboard_value then d ! 1 \<notin> {id_uptime, id_layout_options, id_switch_matrix_state, id_firmware_version}
      else if hd d = id_set_keyboard_value then d ! 1 \<notin> {id_layout_options, id_device_indication}
      else if hd d \<in> {id_custom_set_value, id_custom_get_value, id_custom_save} then d ! 1 \<noteq> id_qmk_rgb_matrix_channel
      else hd d \<in> {0x00, 0x0A, 0x0B} \<or> 0x16 \<le> hd d \<and> hd d \<notin> {kc_get_protocol_version, kc_get_firmware_version, kc_get_support_feature, kc_get_default_layer, 0xAA, RAWHID_QMKATA_MSG})"



lemma unat_scale8_255: "unat (scale8 v 255) = unat v - 1"
proof -
  have v: "unat v < 256"
    by (rule unat_less_256)
  have "unat v * 255 < 65536"
    using v by linarith
  then have "unat (ucast v * 255 :: u16) = unat v * 255"
    by (simp add: unat_word_ariths unat_widen8)
  then have "unat (drop_bit 8 (ucast v * 255) :: u16) = unat v * 255 div 256"
    by (simp only: unat_drop_bit_eq) (simp add: drop_bit_eq_div)
  moreover have "unat v * 255 div 256 = unat v - 1"
    using v by (intro div_nat_eqI) (cases "unat v"; simp)+
  ultimately have "unat (drop_bit 8 (ucast v * 255) :: u16) = unat v - 1"
    by simp
  moreover have "unat v - 1 < 256"
    using v by linarith
  ultimately show ?thesis
    by (simp add: scale8_def unsigned_ucast_eq take_bit_eq_mod)
qed

text \<open>The brightness that the host sets is scaled on the way in and on the way out. On a keyboard whose maximum is 255 the host reads back one less than it set, so that full brightness
  cannot be set with VIA.\<close>

theorem via_brightness_one_less:
  assumes s: "rgb_enable (rgb_matrix_config (via_rgb s)) \<noteq> 0" and max: "RGB_MATRIX_MAXIMUM_BRIGHTNESS (via_leds vs) = 255"
    and d: "d = [id_custom_set_value, id_qmk_rgb_matrix_channel, id_qmk_rgb_matrix_brightness, v] @ rest"
    and d': "d' = [id_custom_get_value, id_qmk_rgb_matrix_channel, id_qmk_rgb_matrix_brightness, w] @ rest'"
  shows "\<exists>s1. raw_hid_receive vs api stk env d s = Some (Raw_hid_send d, s1) \<and>
    raw_hid_receive vs api stk env d' s1 = Some (Raw_hid_send (d'[3 := (if v = 0 then 0 else v - 1)]), s1)"
proof -
  define h where "h = (rgb_hsv (rgb_matrix_config (via_rgb s)))\<lparr>hsv_v := scale8 v 255\<rparr>"
  define s1 where "s1 = s\<lparr>via_rgb := on_config (\<lambda>c. c\<lparr>rgb_hsv := h\<rparr>) (via_rgb s)\<rparr>"
  have kb: "via_command_kb vs env d s = Some None" "via_command_kb vs env d' s1 = Some None"
    by (simp_all add: via_command_kb_def rd_def d d' kc_ids via_ids)
  have r0: "rd d 0 = Some id_custom_set_value" "rd d' 0 = Some id_custom_get_value"
    by (simp_all add: rd_def d d')
  have "unat v - 1 \<le> 255"
    using unat_less_256 [of v] by linarith
  then have "\<not> 255 < scale8 v 255"
    by (simp add: word_less_nat_alt unat_scale8_255 not_less)
  then have "via_custom_value_command (via_leds vs) api stk d (via_rgb s) = Some (d, via_rgb s1)"
    using s max by (simp add: via_custom_value_command_def via_qmk_rgb_matrix_command_def via_qmk_rgb_matrix_set_value_def rd_def d via_ids via_value_ids Let_def
        rgb_matrix_sethsv_eeprom_helper_def eeconfig_flag_rgb_matrix_def s1_def h_def on_config_def)
  then have 1: "raw_hid_receive vs api stk env d s = Some (Raw_hid_send d, s1)"
    by (simp add: raw_hid_receive_def kb via_command_def r0 via_ids s1_def)
  have "scale8 v 255 = (if v = 0 then 0 else v - 1)"
    using unat_scale8_255 [of v] by (auto simp: word_unat_eq_iff unat_minus_one)
  then have "via_custom_value_command (via_leds vs) api stk d' (via_rgb s1) = Some (d'[3 := (if v = 0 then 0 else v - 1)], via_rgb s1)"
    using max by (simp add: via_custom_value_command_def via_qmk_rgb_matrix_command_def via_qmk_rgb_matrix_get_value_def rd_def wr_def memcpy_at_def d' via_ids via_value_ids Let_def
        s1_def h_def on_config_def)
  then have "raw_hid_receive vs api stk env d' s1 = Some (Raw_hid_send (d'[3 := (if v = 0 then 0 else v - 1)]), s1)"
    by (simp add: raw_hid_receive_def kb via_command_def r0 via_ids)
  with 1 show ?thesis
    by blast
qed

theorem via_brightness_one_less_witness:
  "\<exists>s1. raw_hid_receive q3_via_setup (wl_eeprom (mock_backing_store (q3_max_config Write2)) (q3_max_config Write2)) [] q3_via_env [0x07, 3, 1, 255] (via_boot (blank (q3_max_config Write2))) =
      Some (Raw_hid_send [0x07, 3, 1, 255], s1) \<and>
    raw_hid_receive q3_via_setup (wl_eeprom (mock_backing_store (q3_max_config Write2)) (q3_max_config Write2)) [] q3_via_env [0x08, 3, 1, 0] s1 =
      Some (Raw_hid_send [0x08, 3, 1, 254], s1)"
proof -
  have "rgb_enable (rgb_matrix_config (via_rgb (via_boot (blank (q3_max_config Write2))))) \<noteq> 0" "RGB_MATRIX_MAXIMUM_BRIGHTNESS (via_leds q3_via_setup) = 255"
    by (simp_all add: via_boot_def rgb_boot_def q3_via_setup_def q3_rgb_build_def)
  from via_brightness_one_less [OF this refl refl, where stk = "[]" and env = q3_via_env and v = 255 and w = 0 and rest = "[]" and rest' = "[]"] show ?thesis
    by (simp add: via_ids via_value_ids)
qed

end
