(* ===== verification/Matrix.thy ===== *)
theory Matrix
  imports Debounce_Sym_Eager_Pk
begin

text \<open>
  The scan of the key matrix (\<^verbatim>\<open>quantum/matrix.c\<close>, \<^verbatim>\<open>quantum/matrix_common.c\<close>) as built for the Q3 Max: diodes from rows to columns, so that one column after the other is
  driven low and the rows are read, followed by the debouncing of \<^verbatim>\<open>Debounce_Sym_Eager_Pk\<close>. The pins are modelled as the mode each of them is in; what a pin then reads is the
  hardware's business, a parameter. Its law is the locale \<open>key_matrix\<close>: with one column driven low, a row pin is low when the switch between them is closed.
\<close>

section \<open>Model\<close>

type_synonym pin_t = u32

definition NO_PIN :: pin_t where
  "NO_PIN = NOT 0"

datatype pin_mode = Input_high | Output_low

type_synonym gpio = "pin_t \<Rightarrow> pin_mode"

record matrix_pins =
  row_pins :: "pin_t list"
  col_pins :: "pin_t list"

record matrix_state =
  pin_modes :: gpio
  raw_matrix :: matrix
  debounced :: "matrix \<times> sym_eager_pk_state"

definition setPinOutput_writeLow :: "pin_t \<Rightarrow> gpio \<Rightarrow> gpio" where
  "setPinOutput_writeLow pin g = g(pin := Output_low)"

definition setPinInputHigh_atomic :: "pin_t \<Rightarrow> gpio \<Rightarrow> gpio" where
  "setPinInputHigh_atomic pin g = g(pin := Input_high)"

text \<open>\<open>readPin\<close> gives the level; the pressed state is low.\<close>

definition readMatrixPin :: "(gpio \<Rightarrow> pin_t \<Rightarrow> bool) \<Rightarrow> gpio \<Rightarrow> pin_t \<Rightarrow> bool" where
  "readMatrixPin readPin g pin = (if pin \<noteq> NO_PIN then readPin g pin else True)"

definition select_col :: "matrix_pins \<Rightarrow> nat \<Rightarrow> gpio \<Rightarrow> bool \<times> gpio" where
  "select_col P col g = (let pin = col_pins P ! col in if pin \<noteq> NO_PIN then (True, setPinOutput_writeLow pin g) else (False, g))"

definition unselect_col :: "matrix_pins \<Rightarrow> nat \<Rightarrow> gpio \<Rightarrow> gpio" where
  "unselect_col P col g = (let pin = col_pins P ! col in if pin \<noteq> NO_PIN then setPinInputHigh_atomic pin g else g)"

definition unselect_cols :: "matrix_pins \<Rightarrow> gpio \<Rightarrow> gpio" where
  "unselect_cols P = for_upto (length (col_pins P)) (unselect_col P)"

definition matrix_init_pins :: "matrix_pins \<Rightarrow> gpio \<Rightarrow> gpio" where
  "matrix_init_pins P g =
     for_upto (length (row_pins P)) (\<lambda>x g. if row_pins P ! x \<noteq> NO_PIN then setPinInputHigh_atomic (row_pins P ! x) g else g) (unselect_cols P g)"

definition matrix_read_rows_on_col :: "(gpio \<Rightarrow> pin_t \<Rightarrow> bool) \<Rightarrow> matrix_pins \<Rightarrow> nat \<Rightarrow> u32 \<Rightarrow> matrix \<times> gpio \<Rightarrow> matrix \<times> gpio" where
  "matrix_read_rows_on_col readPin P current_col row_shifter = (\<lambda>(current_matrix, g).
     let (selected, g) = select_col P current_col g
     in if \<not> selected then (current_matrix, g)
        else (for_upto (length (row_pins P)) (\<lambda>row_index m.
                if \<not> readMatrixPin readPin g (row_pins P ! row_index) then m[row_index := m ! row_index OR row_shifter]
                else m[row_index := m ! row_index AND NOT row_shifter]) current_matrix,
              unselect_col P current_col g))"

definition matrix_init :: "matrix_pins \<Rightarrow> matrix_state \<Rightarrow> matrix_state" where
  "matrix_init P s =
     (let rows = length (row_pins P)
      in \<lparr>pin_modes = matrix_init_pins P (pin_modes s), raw_matrix = replicate rows 0,
          debounced = (replicate rows 0, debounce_init_eager (length (col_pins P)) rows (snd (debounced s)))\<rparr>)"

definition matrix_read :: "(gpio \<Rightarrow> pin_t \<Rightarrow> bool) \<Rightarrow> matrix_pins \<Rightarrow> gpio \<Rightarrow> matrix \<times> gpio" where
  "matrix_read readPin P g =
     fst (for_upto (length (col_pins P)) (\<lambda>current_col (x, row_shifter). (matrix_read_rows_on_col readPin P current_col row_shifter x, push_bit 1 row_shifter))
       ((replicate (length (row_pins P)) 0, g), 1))"

definition matrix_scan :: "(gpio \<Rightarrow> pin_t \<Rightarrow> bool) \<Rightarrow> matrix_pins \<Rightarrow> u32 \<Rightarrow> matrix_state \<Rightarrow> bool \<times> matrix_state" where
  "matrix_scan readPin P now s =
     (let (curr_matrix, g) = matrix_read readPin P (pin_modes s);
          changed = (raw_matrix s \<noteq> curr_matrix);
          (changed, d) = debounce_eager (length (col_pins P)) (length (row_pins P)) curr_matrix changed now (debounced s)
      in (changed, \<lparr>pin_modes = g, raw_matrix = curr_matrix, debounced = d\<rparr>))"

definition matrix_get_row :: "nat \<Rightarrow> matrix_state \<Rightarrow> u32" where
  "matrix_get_row row s = fst (debounced s) ! row"

definition matrix_is_on :: "nat \<Rightarrow> nat \<Rightarrow> matrix_state \<Rightarrow> bool" where
  "matrix_is_on row col s \<longleftrightarrow> fst (debounced s) ! row AND push_bit col 1 \<noteq> 0"

definition peek_matrix :: "nat \<Rightarrow> nat \<Rightarrow> bool \<Rightarrow> matrix_state \<Rightarrow> bool" where
  "peek_matrix row_index col_index raw s \<longleftrightarrow> (if raw then raw_matrix s ! row_index else fst (debounced s) ! row_index) AND push_bit col_index 1 \<noteq> 0"

section \<open>The scan reads the switches\<close>

text \<open>No column is driven.\<close>

definition cols_released :: "matrix_pins \<Rightarrow> gpio \<Rightarrow> bool" where
  "cols_released P g \<longleftrightarrow> (\<forall>pin\<in>set (col_pins P). pin \<noteq> NO_PIN \<longrightarrow> g pin = Input_high)"

definition wired :: "matrix_pins \<Rightarrow> nat \<Rightarrow> nat \<Rightarrow> bool" where
  "wired P r c \<longleftrightarrow> r < length (row_pins P) \<and> c < length (col_pins P) \<and> row_pins P ! r \<noteq> NO_PIN \<and> col_pins P ! c \<noteq> NO_PIN"

locale key_matrix =
  fixes readPin :: "gpio \<Rightarrow> pin_t \<Rightarrow> bool" and P :: matrix_pins and closed :: "nat \<Rightarrow> nat \<Rightarrow> bool"
  assumes narrow: "length (col_pins P) \<le> 32"
    and switches: "wired P r c \<Longrightarrow> g (col_pins P ! c) = Output_low \<Longrightarrow>
      \<forall>pin\<in>set (col_pins P). pin \<noteq> NO_PIN \<and> pin \<noteq> col_pins P ! c \<longrightarrow> g pin = Input_high \<Longrightarrow> readPin g (row_pins P ! r) \<longleftrightarrow> \<not> closed r c"
begin

abbreviation rows :: nat where "rows \<equiv> length (row_pins P)"
abbreviation cols :: nat where "cols \<equiv> length (col_pins P)"

lemma unselect_select:
  "cols_released P g \<Longrightarrow> c < cols \<Longrightarrow> col_pins P ! c \<noteq> NO_PIN \<Longrightarrow> (g(col_pins P ! c := Output_low))(col_pins P ! c := Input_high) = g"
  by (auto simp: cols_released_def fun_eq_iff)

lemma read_col:
  assumes g: "cols_released P g" and c: "c < cols" and m: "length m = rows"
  shows "\<exists>m'. matrix_read_rows_on_col readPin P c (push_bit c 1) (m, g) = (m', g) \<and> length m' = rows \<and>
    (\<forall>r<rows. \<forall>i<32. bit (m' ! r) i \<longleftrightarrow> (if i = c \<and> col_pins P ! c \<noteq> NO_PIN then wired P r c \<and> closed r c else bit (m ! r) i))"
proof (cases "col_pins P ! c = NO_PIN")
  case True
  then show ?thesis
    using m by (simp add: matrix_read_rows_on_col_def select_col_def)
next
  case False
  define sh :: u32 where "sh = push_bit c 1"
  let ?g = "g(col_pins P ! c := Output_low)"
  let ?f = "\<lambda>r m. if \<not> readMatrixPin readPin ?g (row_pins P ! r) then m[r := m ! r OR sh] else m[r := m ! r AND NOT sh]"
  let ?I = "\<lambda>n x. length x = rows \<and> (\<forall>r<rows. x ! r = (if r < n then if wired P r c \<and> closed r c then m ! r OR sh else m ! r AND NOT sh else m ! r))"
  have "?I rows (for_upto rows ?f m)"
  proof (rule for_upto_invariant [where P = ?I])
    show "?I 0 m"
      using m by simp
  next
    fix i m'
    assume i: "i < rows" and m': "?I i m'"
    have pin: "\<not> readMatrixPin readPin ?g (row_pins P ! i) \<longleftrightarrow> wired P i c \<and> closed i c"
      using switches [of i c ?g] g i c False by (auto simp: readMatrixPin_def wired_def cols_released_def)
    show "?I (Suc i) (?f i m')"
      unfolding pin using m' i by (auto simp: nth_list_update less_Suc_eq)
  qed
  moreover have "matrix_read_rows_on_col readPin P c sh (m, g) = (for_upto rows ?f m, g)"
    using False unselect_select [OF g c False]
    by (simp add: matrix_read_rows_on_col_def select_col_def unselect_col_def setPinOutput_writeLow_def setPinInputHigh_atomic_def)
  ultimately show ?thesis
    using False c by (auto simp: sh_def [symmetric]) (auto simp: sh_def bit_simps)
qed

lemma matrix_read_spec:
  assumes "cols_released P g"
  shows "\<exists>m. matrix_read readPin P g = (m, g) \<and> length m = rows \<and> (\<forall>r<rows. \<forall>i<32. bit (m ! r) i \<longleftrightarrow> wired P r i \<and> closed r i)"
proof -
  let ?I = "\<lambda>n x. \<exists>m :: matrix. x = ((m, g), push_bit n (1 :: u32)) \<and> length m = rows \<and> (\<forall>r<rows. \<forall>i<32. bit (m ! r) i \<longleftrightarrow> i < n \<and> wired P r i \<and> closed r i)"
  have "?I cols (for_upto cols (\<lambda>c (x, sh). (matrix_read_rows_on_col readPin P c sh x, push_bit 1 sh)) ((replicate rows 0, g), 1))"
  proof (rule for_upto_invariant [where P = ?I])
    show "?I 0 ((replicate rows 0, g), 1)"
      by simp
  next
    fix n x
    assume n: "n < cols" and "?I n x"
    then obtain m where m: "x = ((m, g), push_bit n 1)" "length m = rows" "\<forall>r<rows. \<forall>i<32. bit (m ! r) i \<longleftrightarrow> i < n \<and> wired P r i \<and> closed r i"
      by blast
    obtain m' where m': "matrix_read_rows_on_col readPin P n (push_bit n 1) (m, g) = (m', g)" "length m' = rows"
        "\<forall>r<rows. \<forall>i<32. bit (m' ! r) i \<longleftrightarrow> (if i = n \<and> col_pins P ! n \<noteq> NO_PIN then wired P r n \<and> closed r n else bit (m ! r) i)"
      using read_col [OF assms n m(2)] by blast
    have "bit (m' ! r) i \<longleftrightarrow> i < Suc n \<and> wired P r i \<and> closed r i" if "r < rows" "i < 32" for r i
      using m(3) m'(3) that by (cases "i = n") (auto simp: wired_def less_Suc_eq)
    then show "?I (Suc n) (case x of (x, sh) \<Rightarrow> (matrix_read_rows_on_col readPin P n sh x, push_bit 1 sh))"
      using m(1) m'(1,2) by simp
  qed
  then obtain m where "matrix_read readPin P g = (m, g)" "length m = rows" "\<forall>r<rows. \<forall>i<32. bit (m ! r) i \<longleftrightarrow> i < cols \<and> wired P r i \<and> closed r i"
    by (auto simp: matrix_read_def)
  then show ?thesis
    by (auto simp: wired_def)
qed

end

lemma init_pins_released:
  assumes "set (row_pins P) \<inter> set (col_pins P) \<subseteq> {NO_PIN}"
  shows "cols_released P (matrix_init_pins P g)"
proof -
  let ?I = "\<lambda>n g. \<forall>c<n. col_pins P ! c \<noteq> NO_PIN \<longrightarrow> g (col_pins P ! c) = Input_high"
  have "?I (length (col_pins P)) (unselect_cols P g)"
    unfolding unselect_cols_def
    by (rule for_upto_invariant [where P = ?I]) (auto simp: unselect_col_def setPinInputHigh_atomic_def less_Suc_eq Let_def)
  then have "cols_released P (unselect_cols P g)"
    by (auto simp: cols_released_def in_set_conv_nth)
  then show ?thesis
    unfolding matrix_init_pins_def
    by (rule for_upto_invariant [where P = "\<lambda>_. cols_released P"]) (auto simp: setPinInputHigh_atomic_def cols_released_def)
qed

text \<open>The variables before initialization, and a sequence of scans: the switches and the time of each.\<close>

definition matrix_boot :: "gpio \<Rightarrow> u8 \<Rightarrow> matrix_state" where
  "matrix_boot g debounce_ms = \<lparr>pin_modes = g, raw_matrix = [],
     debounced = ([], \<lparr>debounce_counters = [], last_time = 0, counters_need_update = False, cooked_changed = False, matrix_need_update = False, g_debounce = debounce_ms\<rparr>)\<rparr>"

definition matrix_scans :: "('k \<Rightarrow> gpio \<Rightarrow> pin_t \<Rightarrow> bool) \<Rightarrow> matrix_pins \<Rightarrow> ('k \<times> u32) list \<Rightarrow> matrix_state \<Rightarrow> matrix_state" where
  "matrix_scans readPin P = fold (\<lambda>(closed, now) s. snd (matrix_scan (readPin closed) P now s))"

lemma matrix_scans_debounced:
  assumes laws: "\<And>closed. key_matrix (readPin closed) P closed" and "cols_released P (pin_modes s)"
  shows "pin_modes (matrix_scans readPin P xs s) = pin_modes s \<and>
    debounced (matrix_scans readPin P xs s) = scan_run (debounce_eager (length (col_pins P)) (length (row_pins P))) (raw_matrix s)
      (map (\<lambda>(closed, now). (fst (matrix_read (readPin closed) P (pin_modes s)), now)) xs) (debounced s)"
  using assms(2)
proof (induction xs arbitrary: s)
  case (Cons x xs)
  obtain closed now where x: "x = (closed, now)"
    by fastforce
  obtain m where m: "matrix_read (readPin closed) P (pin_modes s) = (m, pin_modes s)"
    using key_matrix.matrix_read_spec [OF laws Cons.prems] by blast
  obtain b d where b: "debounce_eager (length (col_pins P)) (length (row_pins P)) m (raw_matrix s \<noteq> m) now (debounced s) = (b, d)"
    by (rule prod.exhaust)
  have s': "snd (matrix_scan (readPin closed) P now s) = \<lparr>pin_modes = pin_modes s, raw_matrix = m, debounced = d\<rparr>"
    by (simp add: matrix_scan_def m b)
  have "(m \<noteq> raw_matrix s) = (raw_matrix s \<noteq> m)"
    by auto
  then show ?case
    using Cons.IH [of "snd (matrix_scan (readPin closed) P now s)"] Cons.prems b by (simp add: matrix_scans_def x s' m)
qed (simp add: matrix_scans_def)

lemma scans_track_switches:
  assumes "\<And>closed. key_matrix (readPin closed) P closed" and "set (row_pins P) \<inter> set (col_pins P) \<subseteq> {NO_PIN}" and "wired P r c"
  shows "bit (matrix_get_row r (matrix_scans readPin P xs (matrix_init P (matrix_boot g debounce_ms)))) c \<longleftrightarrow>
    snd (key_run (eager_key debounce_ms) 0 (map (\<lambda>(closed, now). (closed r c, now)) xs) (0, False))"
proof -
  let ?rows = "length (row_pins P)" and ?cols = "length (col_pins P)" and ?s = "matrix_init P (matrix_boot g debounce_ms)"
  have rc: "r < ?rows" "c < ?cols" "?cols \<le> 32"
    using assms(1,3) by (auto simp: wired_def key_matrix_def)
  have rel: "cols_released P (pin_modes ?s)"
    using init_pins_released [OF assms(2)] by (simp add: matrix_init_def Let_def)
  have start: "debounced ?s = eager_start ?cols ?rows debounce_ms" "raw_matrix ?s = replicate ?rows 0"
    by (simp_all add: matrix_init_def matrix_boot_def eager_start_def Let_def)
  let ?ys = "map (\<lambda>(closed, now). (fst (matrix_read (readPin closed) P (pin_modes ?s)), now)) xs"
  have "matrix_bit (fst (matrix_read (readPin closed) P (pin_modes ?s))) (r, c) = closed r c" for closed
    using key_matrix.matrix_read_spec [OF assms(1) rel, of closed] assms(3) rc by (auto simp: matrix_bit_def)
  then have ys: "map (\<lambda>(raw, now). (matrix_bit raw (r, c), now)) ?ys = map (\<lambda>(closed, now). (closed r c, now)) xs"
    by auto
  have "bit (fst (debounced (matrix_scans readPin P xs ?s)) ! r) c = snd (key_at ?cols (debounced (matrix_scans readPin P xs ?s)) (r, c))"
    by (simp add: key_at_def case_prod_unfold)
  also have "\<dots> = snd (key_run (eager_key debounce_ms) 0 (map (\<lambda>(raw, now). (matrix_bit raw (r, c), now)) ?ys) (0, False))"
    using matrix_scans_debounced [of readPin P ?s xs, OF assms(1) rel] eager_run [OF rc(3), of "(r, c)" ?rows ?ys debounce_ms 0] rc start by simp
  finally show ?thesis
    unfolding ys matrix_get_row_def .
qed

text \<open>From power-on, over every sequence of scans, each key of the debounced matrix is what the debounce automaton of one key makes of the history of its own switch: the scan mixes up
  no keys, and what the pins are left in does not disturb the next scan.\<close>

theorem matrix_tracks_switches:
  assumes "\<And>closed. key_matrix (readPin closed) P closed" and "set (row_pins P) \<inter> set (col_pins P) \<subseteq> {NO_PIN}" and "wired P r c"
  shows "bit (matrix_get_row r (matrix_scans readPin P xs (matrix_init P (matrix_boot g debounce_ms)))) c \<longleftrightarrow>
    snd (key_run (eager_key debounce_ms) 0 (map (\<lambda>(closed, now). (closed r c, now)) xs) (0, False))"
  using assms by (rule scans_track_switches)

text \<open>The scan keeps the number of rows.\<close>

lemma scan_length: "length (fst (debounced (snd (matrix_scan readPin P now s)))) = length (fst (debounced s))"
proof -
  have t: "length (fst (transfer_matrix_values_eager cols raw n (m, d))) = length m" for cols raw n m d
    unfolding transfer_matrix_values_eager_def prod.case
    by (rule for_upto_invariant [where P = "\<lambda>_ x. length (fst x) = length m"]) (simp_all add: transfer_row_eager_def case_prod_unfold Let_def)
  have "length (fst (snd (debounce_eager cols n raw ch now d))) = length (fst d)" for cols n raw ch d
    by (cases d) (simp add: debounce_eager_def Let_def case_prod_unfold t)
  then show ?thesis
    by (simp add: matrix_scan_def case_prod_unfold Let_def)
qed

text \<open>The pins of the Q3 Max (port and number), and the switches with a diode each: a row is low when a switch connects it to a column that is driven.\<close>

definition q3_pins :: matrix_pins where
  "q3_pins = \<lparr>row_pins = [0x2C, 0x32, 0x13, 0x14, 0x15, 0x16],
     col_pins = [0x26, 0x27, 0x28, 0x0E, 0x0F, 0x2A, 0x2B, 0x2D, 0x2E, 0x2F, 0x20, 0x21, 0x22, 0x23, 0x00, 0x01, 0x02]\<rparr>"

definition diode_read :: "matrix_pins \<Rightarrow> (nat \<Rightarrow> nat \<Rightarrow> bool) \<Rightarrow> gpio \<Rightarrow> pin_t \<Rightarrow> bool" where
  "diode_read P closed g pin \<longleftrightarrow>
     \<not> (\<exists>r<length (row_pins P). \<exists>c<length (col_pins P). row_pins P ! r = pin \<and> col_pins P ! c \<noteq> NO_PIN \<and> g (col_pins P ! c) = Output_low \<and> closed r c)"

lemma diode_matrix:
  assumes "distinct (row_pins P)" and "distinct (col_pins P)" and "length (col_pins P) \<le> 32"
  shows "key_matrix (diode_read P closed) P closed"
proof
  fix r c g
  assume w: "wired P r c" and sel: "g (col_pins P ! c) = Output_low" "\<forall>pin\<in>set (col_pins P). pin \<noteq> NO_PIN \<and> pin \<noteq> col_pins P ! c \<longrightarrow> g pin = Input_high"
  have "r' = r \<and> c' = c" if "r' < length (row_pins P)" "c' < length (col_pins P)" "row_pins P ! r' = row_pins P ! r" "col_pins P ! c' \<noteq> NO_PIN" "g (col_pins P ! c') = Output_low" for r' c'
    using that w sel assms(1,2) by (metis nth_eq_iff_index_eq nth_mem pin_mode.distinct(1) wired_def)
  then show "diode_read P closed g (row_pins P ! r) \<longleftrightarrow> \<not> closed r c"
    using w sel(1) unfolding diode_read_def wired_def by blast
qed (rule assms(3))

lemma q3_pins_ok: "distinct (row_pins q3_pins)" "distinct (col_pins q3_pins)" "length (col_pins q3_pins) = 17" "length (row_pins q3_pins) = 6"
  "set (row_pins q3_pins) \<inter> set (col_pins q3_pins) = {}" "NO_PIN \<notin> set (row_pins q3_pins) \<union> set (col_pins q3_pins)"
  by (simp_all add: q3_pins_def NO_PIN_def)

interpretation q3_matrix: key_matrix "diode_read q3_pins closed" q3_pins closed for closed
  by (rule diode_matrix) (simp_all add: q3_pins_ok)

theorem matrix_tracks_switches_witness:
  "bit (matrix_get_row 1 (matrix_scans (diode_read q3_pins) q3_pins [((\<lambda>r c. r = 1), 7), ((\<lambda>r c. False), 12)] (matrix_init q3_pins (matrix_boot (\<lambda>_. Output_low) 20)))) 2"
proof -
  have "set (row_pins q3_pins) \<inter> set (col_pins q3_pins) \<subseteq> {NO_PIN}" "wired q3_pins 1 2"
    by (simp_all add: q3_pins_ok) (simp add: wired_def q3_pins_def NO_PIN_def)
  note m = matrix_tracks_switches [where readPin = "diode_read q3_pins", OF q3_matrix.key_matrix_axioms this]
  show ?thesis
    by (rule m [THEN iffD2]) (simp add: eager_key_simp elapsed8_def TIMER_DIFF_FAST_def Let_def)
qed

end
