(* ===== verification/Encoder.thy ===== *)
theory Encoder
  imports Tapping
begin

text \<open>
  The rotary encoder (\<^verbatim>\<open>quantum/encoder.c\<close>), as built for the Q3 Max: the encoder map is on, \<^verbatim>\<open>ENCODER_DEFAULT_POS\<close> is 3, the resolution is 4. The two pads form a Gray code that goes
  through four states between two detents. Besides the main loop (\<^verbatim>\<open>encoder_read\<close>), an interrupt on every edge of the pads (\<^verbatim>\<open>encoder_inerrupt_read\<close>) samples them. The events go to
  \<open>exec\<close>, which is \<^verbatim>\<open>action_exec\<close>, at times \<open>now\<close>.
\<close>

section \<open>Model\<close>

definition ENCODER_RESOLUTION :: int where "ENCODER_RESOLUTION = 4"
definition ENCODER_DEFAULT_POS :: u8 where "ENCODER_DEFAULT_POS = 3"

definition encoder_LUT :: "int list" where
  "encoder_LUT = [0, -1, 1, 0, 1, 0, 0, -1, -1, 0, 0, 1, 0, 1, -1, 0]"

text \<open>\<^verbatim>\<open>encoder_pulses\<close> has elements of type \<^verbatim>\<open>int8_t\<close>.\<close>

record 'w encoder =
  encoder_state :: "u8 list"
  encoder_pulses :: "u8 list"
  encoder_value :: "u8 list"
  encoder_interrupt_update :: "bool list"
  enc_world :: 'w

definition MAKE_EVENT :: "nat \<Rightarrow> nat \<Rightarrow> bool \<Rightarrow> keyevent_type_t \<Rightarrow> u16 \<Rightarrow> keyevent_t" where
  "MAKE_EVENT row_num col_num press event_type now = \<lparr>key = \<lparr>col = col_num, row = row_num\<rparr>, time = now, ev_type = event_type, pressed = press\<rparr>"

definition MAKE_ENCODER_EVENT :: "nat \<Rightarrow> bool \<Rightarrow> bool \<Rightarrow> u16 \<Rightarrow> keyevent_t" where
  "MAKE_ENCODER_EVENT enc_id clockwise press now =
     (if clockwise then MAKE_EVENT KEYLOC_ENCODER_CW enc_id press ENCODER_CW_EVENT now else MAKE_EVENT KEYLOC_ENCODER_CCW enc_id press ENCODER_CCW_EVENT now)"

definition encoder_exec_mapping :: "(keyevent_t \<Rightarrow> 'w \<Rightarrow> 'w) \<Rightarrow> (bool \<Rightarrow> u16) \<Rightarrow> nat \<Rightarrow> bool \<Rightarrow> 'w \<Rightarrow> 'w" where
  "encoder_exec_mapping exec now index clockwise w =
     exec (MAKE_ENCODER_EVENT index clockwise False (now False)) (exec (MAKE_ENCODER_EVENT index clockwise True (now True)) w)"

text \<open>\<open>pads\<close> are the levels of pad A and pad B of each encoder.\<close>

definition pad_status :: "bool \<times> bool \<Rightarrow> u8" where
  "pad_status ab = of_bool (fst ab) OR push_bit 1 (of_bool (snd ab))"

definition encoder_init :: "(nat \<Rightarrow> bool \<times> bool) \<Rightarrow> 'w encoder \<Rightarrow> 'w encoder" where
  "encoder_init pads s = for_upto (length (encoder_state s)) (\<lambda>i s. s\<lparr>encoder_state := (encoder_state s)[i := pad_status (pads i)]\<rparr>) s"

definition add_pulses :: "nat \<Rightarrow> u8 \<Rightarrow> 'w encoder \<Rightarrow> 'w encoder" where
  "add_pulses i state s = s\<lparr>encoder_pulses := (encoder_pulses s)[i := encoder_pulses s ! i + word_of_int (encoder_LUT ! unat (state AND 0xF))]\<rparr>"

definition encoder_update :: "(keyevent_t \<Rightarrow> 'w \<Rightarrow> 'w) \<Rightarrow> (bool \<Rightarrow> u16) \<Rightarrow> nat \<Rightarrow> u8 \<Rightarrow> 'w encoder \<Rightarrow> bool \<times> 'w encoder" where
  "encoder_update exec now i state s =
     (let s = add_pulses i state s; pulses = sint (encoder_pulses s ! i)
      in if ENCODER_RESOLUTION \<le> pulses \<or> pulses \<le> - ENCODER_RESOLUTION \<or> state AND 3 = ENCODER_DEFAULT_POS then
           let s' = (if 1 \<le> pulses
                     then s\<lparr>encoder_value := (encoder_value s)[i := encoder_value s ! i + 1], enc_world := encoder_exec_mapping exec now i False (enc_world s)\<rparr> else s);
               s' = (if pulses \<le> -1
                     then s'\<lparr>encoder_value := (encoder_value s')[i := encoder_value s' ! i - 1], enc_world := encoder_exec_mapping exec now i True (enc_world s')\<rparr> else s')
           in (1 \<le> pulses \<or> pulses \<le> -1, s'\<lparr>encoder_pulses := (encoder_pulses s')[i := 0]\<rparr>)
         else (False, s))"

definition shift_state :: "nat \<Rightarrow> u8 \<Rightarrow> 'w encoder \<Rightarrow> 'w encoder" where
  "shift_state i new_status s = s\<lparr>encoder_state := (encoder_state s)[i := push_bit 2 (encoder_state s ! i) OR new_status]\<rparr>"

definition encoder_read_one :: "(keyevent_t \<Rightarrow> 'w \<Rightarrow> 'w) \<Rightarrow> (bool \<Rightarrow> u16) \<Rightarrow> (nat \<Rightarrow> bool \<times> bool) \<Rightarrow> nat \<Rightarrow> bool \<times> 'w encoder \<Rightarrow> bool \<times> 'w encoder" where
  "encoder_read_one exec now pads i = (\<lambda>(changed, s).
     let new_status = pad_status (pads i)
     in if encoder_state s ! i AND 3 \<noteq> new_status \<or> encoder_interrupt_update s ! i then
          let s = shift_state i new_status s; (c, s) = encoder_update exec now i (encoder_state s ! i) s
          in (changed \<or> c, s\<lparr>encoder_interrupt_update := (encoder_interrupt_update s)[i := False]\<rparr>)
        else (changed, s))"

definition encoder_read :: "(keyevent_t \<Rightarrow> 'w \<Rightarrow> 'w) \<Rightarrow> (bool \<Rightarrow> u16) \<Rightarrow> (nat \<Rightarrow> bool \<times> bool) \<Rightarrow> 'w encoder \<Rightarrow> bool \<times> 'w encoder" where
  "encoder_read exec now pads s = for_upto (length (encoder_state s)) (encoder_read_one exec now pads) (False, s)"

definition encoder_inerrupt_read :: "(nat \<Rightarrow> bool \<times> bool) \<Rightarrow> nat \<Rightarrow> 'w encoder \<Rightarrow> 'w encoder" where
  "encoder_inerrupt_read pads index s =
     (let s = shift_state index (pad_status (pads index)) s; s = add_pulses index (encoder_state s ! index) s
      in s\<lparr>encoder_interrupt_update := (encoder_interrupt_update s)[index := True]\<rparr>)"

section \<open>Turning the knob\<close>

text \<open>The position of the knob in quarters of a click, counted in the direction that the code counts up, and the levels of the pads at a position.\<close>

definition pads_at :: "int \<Rightarrow> bool \<times> bool" where
  "pads_at p = [(True, True), (True, False), (False, False), (False, True)] ! nat (p mod 4)"

datatype knob_op = Read int | Interrupt int

text \<open>What should happen: a read reports one click when the knob is in a detent, or four quarters away, and not where the last click was counted.\<close>

fun clicks :: "int \<Rightarrow> knob_op list \<Rightarrow> bool list" where
  "clicks d [] = []"
| "clicks d (Interrupt p # ops) = clicks d ops"
| "clicks d (Read p # ops) = (if p \<noteq> d \<and> (4 \<le> \<bar>p - d\<bar> \<or> p mod 4 = 0) then (d < p) # clicks p ops else clicks d ops)"

text \<open>Samples are so frequent that the knob moves at most a quarter between two of them; reads are so frequent that the counter does not overflow.\<close>

fun knob_path :: "int \<Rightarrow> int \<Rightarrow> knob_op list \<Rightarrow> bool" where
  "knob_path d q [] \<longleftrightarrow> True"
| "knob_path d q (Interrupt p # ops) \<longleftrightarrow> \<bar>p - q\<bar> \<le> 1 \<and> \<bar>p - d\<bar> \<le> 120 \<and> knob_path d p ops"
| "knob_path d q (Read p # ops) \<longleftrightarrow> \<bar>p - q\<bar> \<le> 1 \<and> \<bar>p - d\<bar> \<le> 120 \<and> knob_path (if p \<noteq> d \<and> (4 \<le> \<bar>p - d\<bar> \<or> p mod 4 = 0) then p else d) p ops"

definition run_knob :: "(keyevent_t \<Rightarrow> 'w \<Rightarrow> 'w) \<Rightarrow> (bool \<Rightarrow> u16) \<Rightarrow> knob_op list \<Rightarrow> 'w encoder \<Rightarrow> 'w encoder" where
  "run_knob exec now = fold (\<lambda>op s. case op of Read p \<Rightarrow> snd (encoder_read exec now (\<lambda>_. pads_at p) s) | Interrupt p \<Rightarrow> encoder_inerrupt_read (\<lambda>_. pads_at p) 0 s)"

lemma quarter_cases:
  obtains "p mod 4 = 0" | "p mod 4 = 1" | "p mod 4 = 2" | "p mod 4 = (3 :: int)"
proof -
  have "p mod 4 = 0 \<or> p mod 4 = 1 \<or> p mod 4 = 2 \<or> p mod 4 = 3"
    by presburger
  then show ?thesis
    by (elim disjE) (fact that)+
qed

lemma status_at: "pad_status (pads_at p) = [3, 1, 0, 2] ! nat (p mod 4)"
  by (rule quarter_cases [of p]) (simp_all add: pad_status_def pads_at_def)

lemma status_detent: "pad_status (pads_at p) = 3 \<longleftrightarrow> p mod 4 = 0"
  by (rule quarter_cases [of p]) (simp_all add: status_at)

lemma status_low: "pad_status (pads_at p) AND 3 = pad_status (pads_at p)"
  by (rule quarter_cases [of p]) (simp_all add: status_at)

lemma status_small: "pad_status (pads_at p) < 4"
  by (rule quarter_cases [of p]) (simp_all add: status_at)

text \<open>Two samples in the state register.\<close>

lemma shifted_state:
  assumes "x AND 3 = (pad_status (pads_at q) :: u8)"
  shows "(push_bit 2 x OR pad_status (pads_at p)) AND 0xF = push_bit 2 (pad_status (pads_at q)) OR pad_status (pads_at p)"
    "(push_bit 2 x OR pad_status (pads_at p)) AND 3 = pad_status (pads_at p)"
proof -
  have m: "y AND 3 = take_bit 2 y" "y AND 0xF = take_bit 4 y" for y :: u8
    by (simp_all add: take_bit_eq_mask mask_eq_exp_minus_1)
  have "take_bit 2 x = take_bit 2 (pad_status (pads_at q))"
    using assms status_low [of q] by (simp add: m)
  then have b: "i < 2 \<Longrightarrow> bit x i = bit (pad_status (pads_at q)) i" for i
    by (metis bit_take_bit_iff)
  have s: "bit (pad_status (pads_at y)) i \<Longrightarrow> i < 2" for y i
    using status_low [of y] by (metis bit_take_bit_iff m(1))
  show "(push_bit 2 x OR pad_status (pads_at p)) AND 0xF = push_bit 2 (pad_status (pads_at q)) OR pad_status (pads_at p)"
    unfolding m by (rule bit_word_eqI) (use b s [of p] s [of q] in \<open>fastforce simp: bit_simps\<close>)
  show "(push_bit 2 x OR pad_status (pads_at p)) AND 3 = pad_status (pads_at p)"
    unfolding m by (rule bit_word_eqI) (use s [of p] in \<open>fastforce simp: bit_simps\<close>)
qed

lemma lut_step:
  assumes "\<bar>p - q\<bar> \<le> 1"
  shows "encoder_LUT ! unat (push_bit 2 (pad_status (pads_at q)) OR pad_status (pads_at p)) = p - q"
proof -
  consider "p = q" | "p = q + 1" | "q = p + 1"
    using assms by linarith
  then show ?thesis
  proof cases
    case 1
    then show ?thesis
      by (cases rule: quarter_cases [of q]) (simp_all add: status_at encoder_LUT_def)
  next
    case 2
    then show ?thesis
      by (cases rule: quarter_cases [of q]) (simp_all add: status_at encoder_LUT_def mod_add_left_eq [of q 4 1, symmetric])
  next
    case 3
    then show ?thesis
      by (cases rule: quarter_cases [of p]) (simp_all add: status_at encoder_LUT_def mod_add_left_eq [of p 4 1, symmetric])
  qed
qed

definition knob_inv :: "int \<Rightarrow> int \<Rightarrow> 'w encoder \<Rightarrow> bool" where
  "knob_inv d q s \<longleftrightarrow> (\<exists>x v f. encoder_state s = [x] \<and> x AND 3 = pad_status (pads_at q) \<and> encoder_pulses s = [word_of_int (q - d)] \<and> \<bar>q - d\<bar> \<le> 120 \<and>
     encoder_value s = [v] \<and> encoder_interrupt_update s = [f] \<and> (\<not> f \<longrightarrow> \<bar>q - d\<bar> < 4 \<and> (q mod 4 = 0 \<longrightarrow> q = d)))"

lemma sint_pulses: "\<bar>n\<bar> \<le> 120 \<Longrightarrow> sint (word_of_int n :: u8) = n"
  by transfer (simp add: signed_take_bit_int_eq_self)

lemma knob_interrupt:
  assumes "knob_inv d q s" and "\<bar>p - q\<bar> \<le> 1" and "\<bar>p - d\<bar> \<le> 120"
  shows "knob_inv d p (encoder_inerrupt_read (\<lambda>_. pads_at p) 0 s)" "enc_world (encoder_inerrupt_read (\<lambda>_. pads_at p) 0 s) = enc_world s"
    "encoder_value (encoder_inerrupt_read (\<lambda>_. pads_at p) 0 s) = encoder_value s"
proof -
  obtain x where x: "encoder_state s = [x]" "x AND 3 = pad_status (pads_at q)"
    using assms(1) by (auto simp: knob_inv_def)
  note sh = shifted_state [OF x(2), of p]
  show "knob_inv d p (encoder_inerrupt_read (\<lambda>_. pads_at p) 0 s)"
    using assms x by (auto simp: knob_inv_def encoder_inerrupt_read_def shift_state_def add_pulses_def Let_def sh lut_step of_int_add [symmetric] simp del: of_int_add)
qed (simp_all add: encoder_inerrupt_read_def shift_state_def add_pulses_def Let_def)

lemma knob_read:
  assumes inv: "knob_inv d q s" and "\<bar>p - q\<bar> \<le> 1" and "\<bar>p - d\<bar> \<le> 120"
    and s': "s' = snd (encoder_read exec now (\<lambda>_. pads_at p) s)" and click: "click \<longleftrightarrow> p \<noteq> d \<and> (4 \<le> \<bar>p - d\<bar> \<or> p mod 4 = 0)"
  shows "knob_inv (if click then p else d) p s'"
    "enc_world s' = (if click then encoder_exec_mapping exec now 0 (\<not> d < p) (enc_world s) else enc_world s)"
    "encoder_value s' = (if click then [hd (encoder_value s) + (if d < p then 1 else -1)] else encoder_value s)"
proof -
  obtain x v f where x: "encoder_state s = [x]" "x AND 3 = pad_status (pads_at q)" "encoder_pulses s = [word_of_int (q - d)]" "encoder_value s = [v]"
      "encoder_interrupt_update s = [f]" "\<not> f \<Longrightarrow> \<bar>q - d\<bar> < 4 \<and> (q mod 4 = 0 \<longrightarrow> q = d)"
    using inv by (auto simp: knob_inv_def)
  note sh = shifted_state [OF x(2), of p]
  let ?x = "push_bit 2 x OR pad_status (pads_at p)"
  have r: "s' = snd (encoder_read_one exec now (\<lambda>_. pads_at p) 0 (False, s))"
    by (simp add: s' encoder_read_def x(1))
  have "knob_inv (if click then p else d) p s' \<and> enc_world s' = (if click then encoder_exec_mapping exec now 0 (\<not> d < p) (enc_world s) else enc_world s) \<and>
    encoder_value s' = (if click then [hd (encoder_value s) + (if d < p then 1 else -1)] else encoder_value s)"
  proof (cases "x AND 3 = pad_status (pads_at p) \<and> \<not> f")
    case True
    then have "pad_status (pads_at p) = pad_status (pads_at q)"
      using x(2) by simp
    then have "p = q"
      using assms(2) status_at [of p] status_at [of q] lut_step [OF assms(2)] lut_step [of q q] by simp
    then have "\<not> click"
      using click x(6) True by auto
    moreover have "s' = s"
      unfolding r encoder_read_one_def x(1) x(5) using True by (simp add: x(1) x(5))
    ultimately show ?thesis
      using inv \<open>p = q\<close> by simp
  next
    case False
    have up: "s' = (snd (encoder_update exec now 0 ?x (s\<lparr>encoder_state := [?x]\<rparr>)))\<lparr>encoder_interrupt_update := [False]\<rparr>"
    proof -
      have f: "encoder_interrupt_update (snd (encoder_update exec now 0 ?x (s\<lparr>encoder_state := [?x]\<rparr>))) = [f]"
        by (simp add: encoder_update_def add_pulses_def Let_def x)
      show ?thesis
        using False f by (auto simp: r encoder_read_one_def x shift_state_def Let_def case_prod_unfold)
    qed
    have pulses: "word_of_int (q - d) + word_of_int (encoder_LUT ! unat (?x AND 0xF)) = (word_of_int (p - d) :: u8)"
      unfolding sh(1) lut_step [OF assms(2)] of_int_add [symmetric] by simp
    have go: "ENCODER_RESOLUTION \<le> p - d \<or> p - d \<le> - ENCODER_RESOLUTION \<or> ?x AND 3 = ENCODER_DEFAULT_POS \<longleftrightarrow> 4 \<le> \<bar>p - d\<bar> \<or> p mod 4 = 0"
      by (auto simp: ENCODER_RESOLUTION_def ENCODER_DEFAULT_POS_def sh(2) status_detent)
    obtain w :: u8 where w: "w = word_of_int (p - d)"
      by simp
    have sw: "sint w = p - d"
      using sint_pulses [OF assms(3)] w by simp
    have add: "add_pulses 0 ?x (s\<lparr>encoder_state := [?x]\<rparr>) = s\<lparr>encoder_state := [?x], encoder_pulses := [w]\<rparr>"
      using pulses by (simp add: add_pulses_def x(3) w)
    have inv': "knob_inv d' p s'" if "encoder_state s' = [?x]" "encoder_pulses s' = [word_of_int (p - d')]" "encoder_value s' = [v']"
        "encoder_interrupt_update s' = [False]" "\<bar>p - d'\<bar> < 4" "p mod 4 = 0 \<longrightarrow> p = d'" for d' v'
      unfolding knob_inv_def using that sh(2) by auto
    have eval: "s' = (if 4 \<le> \<bar>p - d\<bar> \<or> p mod 4 = 0 then
        if d < p then s\<lparr>encoder_state := [?x], encoder_pulses := [0], encoder_value := [v + 1], enc_world := encoder_exec_mapping exec now 0 False (enc_world s), encoder_interrupt_update := [False]\<rparr>
        else if p < d then s\<lparr>encoder_state := [?x], encoder_pulses := [0], encoder_value := [v - 1], enc_world := encoder_exec_mapping exec now 0 True (enc_world s), encoder_interrupt_update := [False]\<rparr>
        else s\<lparr>encoder_state := [?x], encoder_pulses := [0], encoder_interrupt_update := [False]\<rparr>
      else s\<lparr>encoder_state := [?x], encoder_pulses := [w], encoder_interrupt_update := [False]\<rparr>)"
      unfolding up encoder_update_def add Let_def by (simp add: sw go x(4))
    consider "click" "d < p" | "click" "p < d" | "\<not> click" "4 \<le> \<bar>p - d\<bar> \<or> p mod 4 = 0" "p = d" | "\<not> click" "\<not> (4 \<le> \<bar>p - d\<bar> \<or> p mod 4 = 0)"
      using click by linarith
    then show ?thesis
    proof cases
      case 1
      then show ?thesis
        using click inv' [of p] eval x(4) by (simp split: if_splits)
    next
      case 2
      then show ?thesis
        using click inv' [of p] eval x(4) by (simp split: if_splits)
    next
      case 3
      then show ?thesis
        using inv' [of p] eval x(4) by simp
    next
      case 4
      then show ?thesis
        using inv' [of d] eval x(4) w by simp
    qed
  qed
  then show "knob_inv (if click then p else d) p s'" "enc_world s' = (if click then encoder_exec_mapping exec now 0 (\<not> d < p) (enc_world s) else enc_world s)"
    "encoder_value s' = (if click then [hd (encoder_value s) + (if d < p then 1 else -1)] else encoder_value s)"
    by blast+
qed

section \<open>The decoder\<close>

definition encoder_start :: "'w \<Rightarrow> 'w encoder" where
  "encoder_start w = \<lparr>encoder_state = [0], encoder_pulses = [0], encoder_value = [0], encoder_interrupt_update = [False], enc_world = w\<rparr>"

definition click_count :: "bool list \<Rightarrow> int" where
  "click_count bs = (\<Sum>up \<leftarrow> bs. if up then 1 else -1)"

lemma click_count_simps [simp]: "click_count [] = 0" "click_count (b # bs) = (if b then 1 else -1) + click_count bs"
  by (simp_all add: click_count_def)

lemma knob_start: "knob_inv p p (encoder_init (\<lambda>_. pads_at p) (encoder_start w))" "enc_world (encoder_init (\<lambda>_. pads_at p) (encoder_start w)) = w"
    "encoder_value (encoder_init (\<lambda>_. pads_at p) (encoder_start w)) = [0]"
  by (auto simp: knob_inv_def encoder_init_def encoder_start_def status_low)

lemma knob_inv_value: "knob_inv d q s \<Longrightarrow> encoder_value s = [hd (encoder_value s)]"
  by (auto simp: knob_inv_def)

lemma run_knob_clicks:
  assumes "knob_inv d q s" and "knob_path d q ops"
  shows "enc_world (run_knob exec now ops s) = fold (\<lambda>up. encoder_exec_mapping exec now 0 (\<not> up)) (clicks d ops) (enc_world s) \<and>
    encoder_value (run_knob exec now ops s) = [hd (encoder_value s) + word_of_int (click_count (clicks d ops))]"
  using assms
proof (induction ops arbitrary: d q s)
  case Nil
  then show ?case using knob_inv_value by (simp add: run_knob_def)
next
  case (Cons op ops)
  have step: "run_knob exec now (op # ops) s = run_knob exec now ops (run_knob exec now [op] s)" for s :: "'a encoder"
    by (simp add: run_knob_def)
  note inv = Cons.prems(1) and path = Cons.prems(2)
  show ?case
  proof (cases op)
    case (Interrupt p)
    have b: "\<bar>p - q\<bar> \<le> 1" "\<bar>p - d\<bar> \<le> 120" "knob_path d p ops"
      using path Interrupt by simp_all
    note k = knob_interrupt [OF inv b(1,2)]
    have "run_knob exec now [op] s = encoder_inerrupt_read (\<lambda>_. pads_at p) 0 s"
      by (simp add: run_knob_def Interrupt)
    then show ?thesis
      unfolding step using Cons.IH [OF k(1) b(3)] k(2,3) Interrupt by simp
  next
    case (Read p)
    obtain click where c: "click \<longleftrightarrow> p \<noteq> d \<and> (4 \<le> \<bar>p - d\<bar> \<or> p mod 4 = 0)"
      by simp
    obtain s' where s': "s' = snd (encoder_read exec now (\<lambda>_. pads_at p) s)"
      by simp
    have b: "\<bar>p - q\<bar> \<le> 1" "\<bar>p - d\<bar> \<le> 120" "knob_path (if click then p else d) p ops"
      using path Read by (simp_all add: c)
    note k = knob_read [OF inv b(1,2) s' c]
    have r: "run_knob exec now [op] s = s'"
      by (simp add: run_knob_def Read s')
    have cl: "clicks d (op # ops) = (if click then (d < p) # clicks p ops else clicks d ops)"
      by (simp add: Read c)
    show ?thesis
      unfolding step r cl using Cons.IH [OF k(1) b(3)] k(2,3) by (cases click) simp_all
  qed
qed

text \<open>With every quarter read by the main loop, the clicks counted are the detents passed.\<close>

lemma polled_clicks:
  assumes "knob_path d q (map Read ps)" and "d mod 4 = 0" and "\<bar>q - d\<bar> < 4" and "q mod 4 = 0 \<longrightarrow> q = d"
  shows "\<bar>last (q # ps) - (d + 4 * click_count (clicks d (map Read ps)))\<bar> < 4"
  using assms
proof (induction ps arbitrary: d q)
  case (Cons p ps)
  have path: "\<bar>p - q\<bar> \<le> 1" "knob_path (if p \<noteq> d \<and> (4 \<le> \<bar>p - d\<bar> \<or> p mod 4 = 0) then p else d) p (map Read ps)"
    using Cons.prems(1) by simp_all
  consider "p = d + 4" | "p = d - 4" | "p = d" | "\<bar>p - d\<bar> < 4" "p mod 4 \<noteq> 0"
  proof -
    have "p \<le> q + 1" "q \<le> p + 1" "q < d + 4" "d < q + 4"
      using path(1) Cons.prems(3) by linarith+
    then have "p = d + 4 \<or> p = d - 4 \<or> p = d \<or> p < d + 4 \<and> d < p + 4 \<and> p mod 4 \<noteq> 0"
      using Cons.prems(2,4) by presburger
    then show ?thesis
      using that by auto
  qed
  then show ?case
  proof cases
    case 1
    then have "knob_path p p (map Read ps)" "p mod 4 = 0"
      using path(2) Cons.prems(2) by simp_all
    then show ?thesis
      using Cons.IH [of p p] 1 by (simp split: if_splits)
  next
    case 2
    then have p: "p mod 4 = 0"
      using Cons.prems(2) by presburger
    have "knob_path p p (map Read ps)"
      using path(2) 2 by simp
    then show ?thesis
      using Cons.IH [of p p] p 2 by (simp split: if_splits)
  next
    case 3
    have "\<bar>last (d # ps) - (d + 4 * click_count (clicks d (map Read ps)))\<bar> < 4"
      by (rule Cons.IH) (use path(2) 3 Cons.prems(2) in simp_all)
    then show ?thesis
      using 3 by simp
  next
    case 4
    then have n: "\<not> (p \<noteq> d \<and> (4 \<le> \<bar>p - d\<bar> \<or> p mod 4 = 0))"
      by linarith
    have "\<bar>last (p # ps) - (d + 4 * click_count (clicks d (map Read ps)))\<bar> < 4"
      by (rule Cons.IH) (use path(2) n 4 Cons.prems(2) in simp_all)
    moreover have "clicks d (map Read (p # ps)) = clicks d (map Read ps)"
      unfolding list.map clicks.simps by (simp only: n if_False)
    ultimately show ?thesis
      by simp
  qed
qed simp



end
