(* ===== verification/Rgb_Task.thy ===== *)
theory Rgb_Task
  imports Rgb_Config
begin

text \<open>
  The task of the RGB matrix (\<^verbatim>\<open>quantum/rgb_matrix/rgb_matrix.c\<close>): the record of the last key hits, to which the animations react, the heat map of
  \<^verbatim>\<open>animations/typing_heatmap_anim.h\<close> with the integer square root of \<^verbatim>\<open>lib8tion\<close>, and the state machine that draws a frame in portions. Parameters are the driver of the LED chips, the
  animations (each draws the LEDs of one portion) and the indicators that keyboards draw over them.
\<close>

section \<open>Model\<close>

subsection \<open>The square root of \<^verbatim>\<open>lib8tion\<close>\<close>

partial_function (option) sqrt16_loop :: "u16 \<Rightarrow> u8 \<Rightarrow> u8 \<Rightarrow> u8 option" where
  "sqrt16_loop x low hi =
     (let mid = word_of_nat ((unat low + unat hi) div 2) :: u8
      in if x < ucast mid * ucast mid then
           if low \<le> mid - 1 then sqrt16_loop x low (mid - 1) else Some (low - 1)
         else if mid = 255 then Some 255
         else if mid + 1 \<le> hi then sqrt16_loop x (mid + 1) hi else Some (mid + 1 - 1))"

definition sqrt16 :: "u16 \<Rightarrow> u8 option" where
  "sqrt16 x = (if x \<le> 1 then Some (ucast x) else sqrt16_loop x 1 (if 7904 < x then 255 else ucast (drop_bit 5 x + 8)))"

subsection \<open>State\<close>

definition LED_HITS_TO_REMEMBER :: nat where "LED_HITS_TO_REMEMBER = 8"
definition NO_LED :: u8 where "NO_LED = 255"

record last_hit_t =
  hit_count :: u8
  hit_x :: "u8 list"
  hit_y :: "u8 list"
  hit_index :: "u8 list"
  hit_tick :: "u16 list"

record effect_params_t =
  iter :: u8
  ep_flags :: u8
  ep_init :: bool

text \<open>\<^verbatim>\<open>g_led_config\<close>: the LED of each key and the position of each LED.\<close>

record led_config =
  matrix_co :: "u8 list list"
  led_point :: "(u8 \<times> u8) list"

record ('e, 'l) rgb_task = "'e rgb" +
  last_hit_buffer :: last_hit_t
  g_last_hit_tracker :: last_hit_t
  rgb_timer_buffer :: u32
  g_rgb_timer :: u32
  rgb_anykey_timer :: u32
  rgb_matrix_timeout :: u32
  g_rgb_frame_buffer :: "u8 list list"
  rgb_last_enable :: u8
  rgb_last_effect :: u8
  rgb_effect_params :: effect_params_t
  suspend_state :: bool
  driver_shutdown :: bool
  leds :: 'l

subsection \<open>Key hits\<close>

definition rgb_matrix_map_row_column_to_led :: "led_config \<Rightarrow> nat \<Rightarrow> nat \<Rightarrow> u8 list" where
  "rgb_matrix_map_row_column_to_led lc row column = (let led_index = matrix_co lc ! row ! column in if led_index \<noteq> NO_LED then [led_index] else [])"

text \<open>\<^verbatim>\<open>memcpy(&a[0], &a[k], n)\<close>, element after element from the front.\<close>

definition memcpy_front :: "nat \<Rightarrow> nat \<Rightarrow> 'a list \<Rightarrow> 'a list" where
  "memcpy_front k n = for_upto n (\<lambda>i a. a[i := a ! (k + i)])"

definition make_room :: "nat \<Rightarrow> last_hit_t \<Rightarrow> last_hit_t" where
  "make_room led_count b =
     (if LED_HITS_TO_REMEMBER < unat (hit_count b) + led_count then
        let n = LED_HITS_TO_REMEMBER - led_count
        in \<lparr>hit_count = word_of_nat n, hit_x = memcpy_front led_count n (hit_x b), hit_y = memcpy_front led_count n (hit_y b),
            hit_index = memcpy_front led_count n (hit_index b), hit_tick = memcpy_front led_count n (hit_tick b)\<rparr>
      else b)"

definition add_hit :: "led_config \<Rightarrow> u8 \<Rightarrow> last_hit_t \<Rightarrow> last_hit_t" where
  "add_hit lc led b =
     (let index = unat (hit_count b); p = led_point lc ! unat led
      in \<lparr>hit_count = hit_count b + 1, hit_x = (hit_x b)[index := fst p], hit_y = (hit_y b)[index := snd p],
          hit_index = (hit_index b)[index := led], hit_tick = (hit_tick b)[index := 0]\<rparr>)"

definition LED_DISTANCE :: "u8 \<times> u8 \<Rightarrow> u8 \<times> u8 \<Rightarrow> u8 option" where
  "LED_DISTANCE a b =
     sqrt16 (word_of_int ((uint (fst a) - uint (fst b)) * (uint (fst a) - uint (fst b)) + (uint (snd a) - uint (snd b)) * (uint (snd a) - uint (snd b))))"

definition heat_cell :: "led_config \<Rightarrow> nat \<Rightarrow> nat \<Rightarrow> nat \<Rightarrow> nat \<Rightarrow> u8 list list \<Rightarrow> u8 list list option" where
  "heat_cell lc row col i_row i_col fb =
     (if matrix_co lc ! i_row ! i_col = NO_LED then Some fb
      else if i_row = row \<and> i_col = col then Some (fb[row := (fb ! row)[col := qadd8 (fb ! row ! col) 32]])
      else do { distance \<leftarrow> LED_DISTANCE (led_point lc ! unat (matrix_co lc ! row ! col)) (led_point lc ! unat (matrix_co lc ! i_row ! i_col));
                if distance \<le> 40 then
                  let amount = qsub8 40 distance; amount = (if 16 < amount then 16 else amount)
                  in Some (fb[i_row := (fb ! i_row)[i_col := qadd8 (fb ! i_row ! i_col) amount]])
                else Some fb })"

definition process_rgb_matrix_typing_heatmap :: "led_config \<Rightarrow> nat \<Rightarrow> nat \<Rightarrow> nat \<Rightarrow> nat \<Rightarrow> u8 list list \<Rightarrow> u8 list list option" where
  "process_rgb_matrix_typing_heatmap lc rows cols row col fb =
     (if matrix_co lc ! row ! col = NO_LED then Some fb
      else for_upto rows (\<lambda>i_row x. for_upto cols (\<lambda>i_col x. do { fb \<leftarrow> x; heat_cell lc row col i_row i_col fb }) x) (Some fb))"

text \<open>\<open>heatmap\<close> is \<^verbatim>\<open>RGB_MATRIX_TYPING_HEATMAP\<close>, the number of that animation.\<close>

definition process_rgb_matrix :: "led_config \<Rightarrow> u8 \<Rightarrow> nat \<Rightarrow> nat \<Rightarrow> nat \<Rightarrow> nat \<Rightarrow> bool \<Rightarrow> ('e, 'l) rgb_task \<Rightarrow> ('e, 'l) rgb_task option" where
  "process_rgb_matrix lc heatmap rows cols row col pressed s =
     (let led = (if pressed then rgb_matrix_map_row_column_to_led lc row col else []);
          s = s\<lparr>rgb_anykey_timer := 0, last_hit_buffer := fold (add_hit lc) led (make_room (length led) (last_hit_buffer s))\<rparr>
      in if pressed \<and> rgb_mode (rgb_matrix_config s) = heatmap then
           do { fb \<leftarrow> process_rgb_matrix_typing_heatmap lc rows cols row col (g_rgb_frame_buffer s); Some (s\<lparr>g_rgb_frame_buffer := fb\<rparr>) }
         else Some s)"

definition age_hit :: "u32 \<Rightarrow> nat \<Rightarrow> last_hit_t \<Rightarrow> last_hit_t" where
  "age_hit deltaTime i b =
     (if 0xFFFF - deltaTime < ucast (hit_tick b ! i) then b\<lparr>hit_count := hit_count b - 1\<rparr>
      else b\<lparr>hit_tick := (hit_tick b)[i := hit_tick b ! i + ucast deltaTime]\<rparr>)"

text \<open>The timer is read twice: at \<open>t\<close> for the time elapsed and at \<open>now\<close> for the buffer.\<close>

definition rgb_task_timers :: "u32 \<Rightarrow> u32 \<Rightarrow> ('e, 'l) rgb_task \<Rightarrow> ('e, 'l) rgb_task" where
  "rgb_task_timers t now s =
     (let deltaTime = t - rgb_timer_buffer s
      in s\<lparr>rgb_timer_buffer := now,
           rgb_anykey_timer := (if rgb_anykey_timer s + deltaTime \<le> 0xFFFFFFFF then rgb_anykey_timer s + deltaTime else rgb_anykey_timer s),
           last_hit_buffer := for_upto (unat (hit_count (last_hit_buffer s))) (age_hit deltaTime) (last_hit_buffer s)\<rparr>)"

subsection \<open>Frames\<close>

definition RGB_MATRIX_LED_COUNT :: nat where "RGB_MATRIX_LED_COUNT = 87"
definition RGB_MATRIX_LED_PROCESS_LIMIT :: nat where "RGB_MATRIX_LED_PROCESS_LIMIT = (RGB_MATRIX_LED_COUNT + 4) div 5"
definition RGB_MATRIX_LED_FLUSH_LIMIT :: u32 where "RGB_MATRIX_LED_FLUSH_LIMIT = 16"

definition rgb_matrix_get_limits :: "u8 \<Rightarrow> u8 \<times> u8" where
  "rgb_matrix_get_limits it =
     (let led_min_index = word_of_nat (RGB_MATRIX_LED_PROCESS_LIMIT * unat it) :: u8; led_max_index = led_min_index + word_of_nat RGB_MATRIX_LED_PROCESS_LIMIT
      in (led_min_index, if RGB_MATRIX_LED_COUNT < unat led_max_index then word_of_nat RGB_MATRIX_LED_COUNT else led_max_index))"

definition rgb_matrix_check_finished_leds :: "u8 \<Rightarrow> bool" where
  "rgb_matrix_check_finished_leds led_idx \<longleftrightarrow> unat led_idx < RGB_MATRIX_LED_COUNT"

text \<open>The driver of the LEDs, the animations (by number: whether the frame goes on, the frame buffer and the LEDs) and the hooks of the keyboard.\<close>

record ('e, 'l) led_env =
  drv_set_color_all :: "u8 \<Rightarrow> u8 \<Rightarrow> u8 \<Rightarrow> 'l \<Rightarrow> 'l"
  drv_flush :: "'l \<Rightarrow> 'l"
  drv_shutdown :: "'l \<Rightarrow> 'l"
  drv_exit_shutdown :: "'l \<Rightarrow> 'l"
  run_effect :: "u8 \<Rightarrow> ('e, 'l) rgb_task \<Rightarrow> bool \<times> u8 list list \<times> 'l"
  rgb_matrix_indicators :: "'l \<Rightarrow> 'l"
  rgb_matrix_indicators_advanced_kb :: "u8 \<Rightarrow> u8 \<Rightarrow> 'l \<Rightarrow> 'l"
  rgb_matrix_none_indicators :: "'l \<Rightarrow> 'l"
  rgb_matrix_driver_allow_shutdown :: "'l \<Rightarrow> bool"

definition on_leds :: "('l \<Rightarrow> 'l) \<Rightarrow> ('e, 'l) rgb_task \<Rightarrow> ('e, 'l) rgb_task" where
  "on_leds f s = s\<lparr>leds := f (leds s)\<rparr>"

definition rgb_matrix_test :: "('e, 'l) led_env \<Rightarrow> ('e, 'l) rgb_task \<Rightarrow> ('e, 'l) rgb_task" where
  "rgb_matrix_test E s =
     on_leds (let k = drop_bit 10 (g_rgb_timer s AND push_bit 10 3)
              in if k = 0 then drv_set_color_all E 20 0 0 else if k = 1 then drv_set_color_all E 0 20 0 else if k = 2 then drv_set_color_all E 0 0 20
                 else drv_set_color_all E 20 20 20) s"

definition rgb_matrix_none :: "('e, 'l) led_env \<Rightarrow> ('e, 'l) rgb_task \<Rightarrow> bool \<times> ('e, 'l) rgb_task" where
  "rgb_matrix_none E s = (False, if ep_init (rgb_effect_params s) then on_leds (\<lambda>l. rgb_matrix_none_indicators E (drv_set_color_all E 0 0 0 l)) s else s)"

definition rgb_task_sync :: "'e eeprom_api \<Rightarrow> u8 list \<Rightarrow> u32 \<Rightarrow> ('e, 'l) rgb_task \<Rightarrow> ('e, 'l) rgb_task option" where
  "rgb_task_sync api stk now s =
     do { s \<leftarrow> eeconfig_flush_rgb_matrix api stk False s;
          Some (if RGB_MATRIX_LED_FLUSH_LIMIT \<le> now - g_rgb_timer s then s\<lparr>rgb_task_state := STARTING\<rparr> else s) }"

definition rgb_task_start :: "('e, 'l) rgb_task \<Rightarrow> ('e, 'l) rgb_task" where
  "rgb_task_start s =
     s\<lparr>rgb_effect_params := (rgb_effect_params s)\<lparr>iter := 0\<rparr>, g_rgb_timer := rgb_timer_buffer s, g_last_hit_tracker := last_hit_buffer s, rgb_task_state := RENDERING\<rparr>"

definition rgb_task_render :: "rgb_build \<Rightarrow> ('e, 'l) led_env \<Rightarrow> u8 \<Rightarrow> ('e, 'l) rgb_task \<Rightarrow> ('e, 'l) rgb_task" where
  "rgb_task_render b E effect s =
     (let c = rgb_matrix_config s;
          s = s\<lparr>rgb_effect_params := (rgb_effect_params s)\<lparr>ep_init := effect \<noteq> rgb_last_effect s \<or> rgb_enable c \<noteq> rgb_last_enable s\<rparr>\<rparr>;
          s = (if ep_flags (rgb_effect_params s) \<noteq> rgb_flags c
               then on_leds (drv_set_color_all E 0 0 0) (s\<lparr>rgb_effect_params := (rgb_effect_params s)\<lparr>ep_flags := rgb_flags c\<rparr>\<rparr>) else s)
      in if effect = 255 then (rgb_matrix_test E s)\<lparr>rgb_task_state := FLUSHING\<rparr>
         else let (rendering, s) =
                    (if effect = 0 then rgb_matrix_none E s
                     else if effect < RGB_MATRIX_EFFECT_MAX b then let (r, fb, l) = run_effect E effect s in (r, s\<lparr>g_rgb_frame_buffer := fb, leds := l\<rparr>)
                     else (False, s));
                  s = s\<lparr>rgb_effect_params := (rgb_effect_params s)\<lparr>iter := iter (rgb_effect_params s) + 1\<rparr>\<rparr>
              in if \<not> rendering then s\<lparr>rgb_task_state := (if \<not> ep_init (rgb_effect_params s) \<and> effect = 0 then SYNCING else FLUSHING)\<rparr> else s)"

definition rgb_task_flush :: "('e, 'l) led_env \<Rightarrow> u8 \<Rightarrow> ('e, 'l) rgb_task \<Rightarrow> ('e, 'l) rgb_task" where
  "rgb_task_flush E effect s =
     (let s = s\<lparr>rgb_last_effect := effect, rgb_last_enable := rgb_enable (rgb_matrix_config s)\<rparr>;
          s = (if driver_shutdown s then (on_leds (drv_exit_shutdown E) s)\<lparr>driver_shutdown := False\<rparr> else s);
          s = on_leds (drv_flush E) s;
          s = (if effect = 0 \<and> \<not> driver_shutdown s \<and> rgb_matrix_driver_allow_shutdown E (leds s) then (on_leds (drv_shutdown E) s)\<lparr>driver_shutdown := True\<rparr> else s)
      in s\<lparr>rgb_task_state := SYNCING\<rparr>)"

definition rgb_matrix_indicators_advanced :: "('e, 'l) led_env \<Rightarrow> ('e, 'l) rgb_task \<Rightarrow> ('e, 'l) rgb_task" where
  "rgb_matrix_indicators_advanced E s = (let (min, max) = rgb_matrix_get_limits (iter (rgb_effect_params s) - 1) in on_leds (rgb_matrix_indicators_advanced_kb E min max) s)"

definition current_effect :: "('e, 'l) rgb_task \<Rightarrow> u8" where
  "current_effect s =
     (let suspend_backlight = (suspend_state s \<or> rgb_matrix_timeout s < rgb_anykey_timer s)
      in if suspend_backlight \<or> rgb_enable (rgb_matrix_config s) = 0 then 0 else rgb_mode (rgb_matrix_config s))"

definition rgb_matrix_task ::
  "rgb_build \<Rightarrow> ('e, 'l) led_env \<Rightarrow> 'e eeprom_api \<Rightarrow> u8 list \<Rightarrow> u32 \<times> u32 \<times> u32 \<Rightarrow> ('e, 'l) rgb_task \<Rightarrow> ('e, 'l) rgb_task option" where
  "rgb_matrix_task b E api stk = (\<lambda>(t, now, t') s.
     let s = rgb_task_timers t now s; effect = current_effect s
     in case rgb_task_state s of
          STARTING \<Rightarrow> Some (rgb_task_start s)
        | RENDERING \<Rightarrow>
            let s = rgb_task_render b E effect s
            in Some (if effect \<noteq> 0 then rgb_matrix_indicators_advanced E (if rgb_task_state s = FLUSHING then on_leds (rgb_matrix_indicators E) s else s) else s)
        | FLUSHING \<Rightarrow> Some (rgb_task_flush E effect s)
        | SYNCING \<Rightarrow> rgb_task_sync api stk t' s)"

definition rgb_matrix_set_suspend_state :: "rgb_build \<Rightarrow> ('e, 'l) led_env \<Rightarrow> bool \<Rightarrow> ('e, 'l) rgb_task \<Rightarrow> ('e, 'l) rgb_task" where
  "rgb_matrix_set_suspend_state b E state s =
     (let s = (if state \<and> \<not> suspend_state s then rgb_task_flush E 0 (rgb_task_render b E 0 s) else s) in s\<lparr>suspend_state := state\<rparr>)"

definition rgb_matrix_disable_timeout_set :: "u32 \<Rightarrow> ('e, 'l) rgb_task \<Rightarrow> ('e, 'l) rgb_task" where
  "rgb_matrix_disable_timeout_set timeout s = s\<lparr>rgb_matrix_timeout := timeout\<rparr>"

definition rgb_matrix_disable_time_reset :: "('e, 'l) rgb_task \<Rightarrow> ('e, 'l) rgb_task" where
  "rgb_matrix_disable_time_reset s = s\<lparr>rgb_anykey_timer := 0\<rparr>"

definition rgb_matrix_timeouted :: "('e, 'l) rgb_task \<Rightarrow> bool" where
  "rgb_matrix_timeouted s \<longleftrightarrow> rgb_matrix_timeout s < rgb_anykey_timer s"

section \<open>The square root\<close>

lemma square_less: "x < ucast m * ucast m \<longleftrightarrow> unat x < unat m * unat m" for x :: u16 and m :: u8
proof -
  have "unat m * unat m \<le> 255 * 255"
    using unat_less_256 [of m] by (intro mult_le_mono) linarith+
  moreover have "unat (ucast m :: u16) = unat m"
  proof -
    have "unat m < 65536"
      using unat_less_256 [of m] by linarith
    then show ?thesis
      by (simp add: unsigned_ucast_eq take_bit_nat_def)
  qed
  ultimately show ?thesis
    by (simp add: word_less_nat_alt unat_word_ariths)
qed

lemma unat_Suc_u8: "m \<noteq> 255 \<Longrightarrow> unat (m + 1) = Suc (unat m)" for m :: u8
proof -
  assume "m \<noteq> 255"
  then have "unat m + 1 < 256"
  proof -
    have "unat m \<noteq> 255"
      using \<open>m \<noteq> 255\<close> word_unat_eq_iff [of m 255] by simp
    then show ?thesis
      using unat_less_256 [of m] by linarith
  qed
  then show "unat (m + 1) = Suc (unat m)"
    by (simp add: unat_word_ariths)
qed

lemma unat_pred_u8: "0 < unat m \<Longrightarrow> unat (m - 1) = unat m - 1" for m :: u8
  by (simp add: unat_minus_one unat_gt_0)

lemma sqrt16_loop_correct:
  assumes "1 \<le> unat low" and "unat low \<le> unat hi" and "(unat low - 1) ^ 2 \<le> unat x" and "unat x < (unat hi + 1) ^ 2"
  shows "\<exists>r. sqrt16_loop x low hi = Some r \<and> (unat r) ^ 2 \<le> unat x \<and> unat x < (unat r + 1) ^ 2"
  using assms
proof (induction "unat hi - unat low" arbitrary: low hi rule: less_induct)
  case less
  obtain m :: u8 where m: "m = word_of_nat ((unat low + unat hi) div 2)"
    by simp
  have mid: "unat m = (unat low + unat hi) div 2"
  proof -
    have "(unat low + unat hi) div 2 < 256"
      using unat_less_256 [of low] unat_less_256 [of hi] by linarith
    then show ?thesis
      by (simp add: m unat_of_nat)
  qed
  have le: "unat low \<le> unat m" "unat m \<le> unat hi"
    using less.prems(2) by (simp_all add: mid)
  show ?case
  proof (cases "unat x < unat m * unat m")
    case True
    show ?thesis
    proof (cases "unat low \<le> unat m - 1")
      case rec: True
      then have "\<exists>r. sqrt16_loop x low (m - 1) = Some r \<and> (unat r) ^ 2 \<le> unat x \<and> unat x < (unat r + 1) ^ 2"
        using less.prems le True by (intro less.hyps) (simp_all add: unat_pred_u8 power2_eq_square)
      then show ?thesis
        using True rec le less.prems by (subst sqrt16_loop.simps) (simp add: m [symmetric] square_less word_le_nat_alt unat_pred_u8 Let_def)
    next
      case False
      then have "unat m = unat low"
        using le by simp
      with True False have eq: "sqrt16_loop x low hi = Some (low - 1)"
        using less.prems(1) by (subst sqrt16_loop.simps) (simp add: m [symmetric] square_less word_le_nat_alt unat_pred_u8 Let_def)
      have "unat x < (unat (low - 1) + 1) ^ 2" "(unat (low - 1)) ^ 2 \<le> unat x"
        using True less.prems(1,3) \<open>unat m = unat low\<close> by (simp_all add: unat_pred_u8 power2_eq_square)
      then show ?thesis
        using eq by simp
    qed
  next
    case False
    show ?thesis
    proof (cases "m = 255")
      case True
      then have "unat m = 255"
        by simp
      then show ?thesis
        using False True less.prems le unat_less_65536 [of x] by (subst sqrt16_loop.simps) (simp add: m [symmetric] square_less Let_def power2_eq_square)
    next
      case m': False
      note S = unat_Suc_u8 [OF m']
      show ?thesis
      proof (cases "unat m + 1 \<le> unat hi")
        case rec: True
        then have "\<exists>r. sqrt16_loop x (m + 1) hi = Some r \<and> (unat r) ^ 2 \<le> unat x \<and> unat x < (unat r + 1) ^ 2"
          using less.prems le False by (intro less.hyps) (simp_all add: S power2_eq_square)
        then show ?thesis
          using False m' rec by (subst sqrt16_loop.simps) (simp add: m [symmetric] square_less word_le_nat_alt S Let_def)
      next
        case stop: False
        then have "unat m = unat hi"
          using le by simp
        then show ?thesis
          using False m' stop less.prems by (subst sqrt16_loop.simps) (simp add: m [symmetric] square_less word_le_nat_alt S Let_def power2_eq_square)
      qed
    qed
  qed
qed

lemma sqrt16_root: "\<exists>r. sqrt16 x = Some r \<and> (unat r) ^ 2 \<le> unat x \<and> unat x < (unat r + 1) ^ 2"
proof (cases "x \<le> 1")
  case True
  then have "unat x = 0 \<or> unat x = 1"
    by (simp add: word_le_nat_alt) linarith
  then have "(unat (ucast x :: u8)) ^ 2 \<le> unat x \<and> unat x < (unat (ucast x :: u8) + 1) ^ 2"
    by (auto simp: unsigned_ucast_eq take_bit_nat_def power2_eq_square)
  then show ?thesis
    using True by (simp add: sqrt16_def)
next
  case False
  let ?hi = "if 7904 < x then 255 else ucast (drop_bit 5 x + 8) :: u8"
  have hi: "unat ?hi = (if 7904 < unat x then 255 else unat x div 32 + 8)"
    by (auto simp: word_less_nat_alt unsigned_ucast_eq take_bit_nat_def unat_word_ariths unsigned_drop_bit_eq drop_bit_nat_def)
  have "unat x < (unat ?hi + 1) ^ 2"
  proof (cases "7904 < unat x")
    case True
    then show ?thesis
      using hi unat_less_65536 [of x] by simp
  next
    case small: False
    define y where "y = unat x div 32"
    have "unat x \<le> 32 * y + 31"
      unfolding y_def by presburger
    also have "\<dots> < (y + 9) ^ 2"
    proof -
      have "0 < (int y - 7) ^ 2 + 1"
        by (simp add: add_nonneg_pos)
      then have "32 * int y + 31 < (int y + 9) ^ 2"
        by (simp add: power2_eq_square algebra_simps)
      then show ?thesis
        by (metis (mono_tags, opaque_lifting) of_nat_add of_nat_less_iff of_nat_mult of_nat_numeral of_nat_power)
    qed
    finally show ?thesis
      using hi small by (simp add: y_def add.commute)
  qed
  then have "\<exists>r. sqrt16_loop x 1 ?hi = Some r \<and> (unat r) ^ 2 \<le> unat x \<and> unat x < (unat r + 1) ^ 2"
    using hi by (intro sqrt16_loop_correct) simp_all
  then show ?thesis
    using False by (simp add: sqrt16_def)
qed

text \<open>C37: The integer square root of \<^verbatim>\<open>lib8tion\<close> returns for every 16-bit number, and what it returns is the root rounded down.\<close>

theorem sqrt16_correct: "\<exists>r. sqrt16 x = Some r \<and> (unat r) ^ 2 \<le> unat x \<and> unat x < (unat r + 1) ^ 2"
  by (rule sqrt16_root)

section \<open>The last hits\<close>

text \<open>What the buffer holds: LED, its position and the age in milliseconds, the oldest hit first.\<close>

type_synonym hit = "u8 \<times> (u8 \<times> u8) \<times> u16"

definition hit_at :: "last_hit_t \<Rightarrow> nat \<Rightarrow> hit" where
  "hit_at b i = (hit_index b ! i, (hit_x b ! i, hit_y b ! i), hit_tick b ! i)"

definition hits :: "last_hit_t \<Rightarrow> hit list" where
  "hits b = map (hit_at b) [0..<unat (hit_count b)]"

definition hits_ok :: "last_hit_t \<Rightarrow> bool" where
  "hits_ok b \<longleftrightarrow> unat (hit_count b) \<le> LED_HITS_TO_REMEMBER \<and> length (hit_x b) = LED_HITS_TO_REMEMBER \<and> length (hit_y b) = LED_HITS_TO_REMEMBER \<and>
     length (hit_index b) = LED_HITS_TO_REMEMBER \<and> length (hit_tick b) = LED_HITS_TO_REMEMBER"

definition keep_last :: "nat \<Rightarrow> 'a list \<Rightarrow> 'a list" where
  "keep_last n xs = drop (length xs - n) xs"

lemma length_hits [simp]: "length (hits b) = unat (hit_count b)"
  by (simp add: hits_def)

lemma nth_hits: "i < unat (hit_count b) \<Longrightarrow> hits b ! i = hit_at b i"
  by (simp add: hits_def)

lemma memcpy_front_nth:
  assumes "k + n \<le> length a"
  shows "length (memcpy_front k n a) = length a \<and> (\<forall>i<length a. memcpy_front k n a ! i = (if i < n then a ! (k + i) else a ! i))"
proof (cases "k = 0")
  case True
  then have "memcpy_front k n a = a"
    unfolding memcpy_front_def by (intro for_upto_invariant [where P = "\<lambda>_ x. x = a"]) simp_all
  then show ?thesis
    using True by simp
next
  case False
  show ?thesis
    unfolding memcpy_front_def
    by (rule for_upto_invariant [where P = "\<lambda>m x. length x = length a \<and> (\<forall>i<length a. x ! i = (if i < m then a ! (k + i) else a ! i))"])
      (use assms False in \<open>auto simp: nth_list_update less_Suc_eq\<close>)
qed

text \<open>A key has at most one LED.\<close>

lemma make_room_hits:
  assumes "hits_ok b" and "n \<le> 1"
  shows "hits_ok (make_room n b) \<and> unat (hit_count (make_room n b)) + n \<le> LED_HITS_TO_REMEMBER \<and> hits (make_room n b) = keep_last (LED_HITS_TO_REMEMBER - n) (hits b)"
proof (cases "LED_HITS_TO_REMEMBER < unat (hit_count b) + n")
  case True
  then have full: "n = 1" "unat (hit_count b) = 8"
    using assms by (auto simp: hits_ok_def LED_HITS_TO_REMEMBER_def)
  have room: "make_room n b = \<lparr>hit_count = 7, hit_x = memcpy_front 1 7 (hit_x b), hit_y = memcpy_front 1 7 (hit_y b),
      hit_index = memcpy_front 1 7 (hit_index b), hit_tick = memcpy_front 1 7 (hit_tick b)\<rparr>"
    using True full by (simp add: make_room_def LED_HITS_TO_REMEMBER_def)
  have len: "length (hit_x b) = 8" "length (hit_y b) = 8" "length (hit_index b) = 8" "length (hit_tick b) = 8"
    using assms(1) by (simp_all add: hits_ok_def LED_HITS_TO_REMEMBER_def)
  note cp = memcpy_front_nth [of 1 7 "hit_x b"] memcpy_front_nth [of 1 7 "hit_y b"] memcpy_front_nth [of 1 7 "hit_index b"] memcpy_front_nth [of 1 7 "hit_tick b"]
  have ok: "hits_ok (make_room n b)" "unat (hit_count (make_room n b)) = 7"
    using cp len
    by (simp_all add: hits_ok_def room LED_HITS_TO_REMEMBER_def)
  have h: "hit_at (make_room n b) i = hit_at b (Suc i)" if "i < 7" for i
    using that cp len
    by (simp add: hit_at_def room)
  have "hits (make_room n b) = keep_last 7 (hits b)"
    by (rule nth_equalityI) (use ok(2) h full(2) in \<open>simp_all add: keep_last_def nth_hits\<close>)
  then show ?thesis
    using ok full(1) by (simp add: LED_HITS_TO_REMEMBER_def)
next
  case False
  then show ?thesis
    using assms by (simp add: make_room_def keep_last_def)
qed

lemma add_hit_hits:
  assumes "hits_ok b" and "unat (hit_count b) < LED_HITS_TO_REMEMBER"
  shows "hits_ok (add_hit lc led b) \<and> hits (add_hit lc led b) = hits b @ [(led, led_point lc ! unat led, 0)]"
proof -
  have c: "unat (hit_count b + 1) = Suc (unat (hit_count b))"
    using assms(2) by (intro unat_Suc_u8) (auto simp: LED_HITS_TO_REMEMBER_def)
  have "hits_ok (add_hit lc led b)"
    using assms c by (simp add: hits_ok_def add_hit_def Let_def)
  moreover have "hits (add_hit lc led b) = hits b @ [(led, led_point lc ! unat led, 0)]"
    by (rule nth_equalityI)
      (use assms c in \<open>auto simp: nth_append nth_hits less_Suc_eq add_hit_def Let_def hit_at_def hits_ok_def\<close>)
  ultimately show ?thesis
    by blast
qed

definition expired :: "u32 \<Rightarrow> hit \<Rightarrow> bool" where
  "expired deltaTime h \<longleftrightarrow> 0xFFFF - deltaTime < ucast (snd (snd h))"

definition aged :: "u32 \<Rightarrow> hit \<Rightarrow> hit" where
  "aged deltaTime h = (if expired deltaTime h then h else (fst h, fst (snd h), snd (snd h) + ucast deltaTime))"

lemma age_hits:
  assumes "hits_ok b"
  shows "hits_ok (for_upto (unat (hit_count b)) (age_hit d) b) \<and>
    hits (for_upto (unat (hit_count b)) (age_hit d) b) = take (length (filter (\<lambda>h. \<not> expired d h) (hits b))) (map (aged d) (hits b))"
proof -
  let ?n = "unat (hit_count b)"
  let ?I = "\<lambda>m x. hit_x x = hit_x b \<and> hit_y x = hit_y b \<and> hit_index x = hit_index b \<and> length (hit_tick x) = length (hit_tick b) \<and>
     unat (hit_count x) + length (filter (expired d) (take m (hits b))) = ?n \<and>
     (\<forall>i<?n. hit_at x i = (if i < m then aged d (hit_at b i) else hit_at b i))"
  have "?I ?n (for_upto ?n (age_hit d) b)"
  proof (rule for_upto_invariant [where P = ?I])
    show "?I 0 b"
      by simp
  next
    fix m x
    assume m: "m < ?n" and I: "?I m x"
    have t: "hit_tick x ! m = hit_tick b ! m"
      using I m by (auto simp: hit_at_def)
    have tk: "take (Suc m) (hits b) = take m (hits b) @ [hit_at b m]"
      using m by (simp add: take_Suc_conv_app_nth nth_hits)
    have len: "m < length (hit_tick b)" "?n \<le> length (hit_tick b)"
      using m assms by (auto simp: hits_ok_def)
    show "?I (Suc m) (age_hit d m x)"
    proof (cases "expired d (hit_at b m)")
      case True
      have "length (filter (expired d) (take m (hits b))) \<le> m"
        by (metis length_filter_le length_take min.cobounded2 order_trans)
      then have "0 < unat (hit_count x)"
        using I m by linarith
      then have c: "unat (hit_count x - 1) = unat (hit_count x) - 1"
        by (rule unat_pred_u8)
      have "age_hit d m x = x\<lparr>hit_count := hit_count x - 1\<rparr>"
        using True t by (simp add: age_hit_def expired_def hit_at_def)
      moreover have "hit_at (x\<lparr>hit_count := hit_count x - 1\<rparr>) i = hit_at x i" for i
        by (simp add: hit_at_def)
      ultimately show ?thesis
        using I True c \<open>0 < unat (hit_count x)\<close> by (auto simp: tk less_Suc_eq aged_def)
    next
      case False
      have a: "age_hit d m x = x\<lparr>hit_tick := (hit_tick x)[m := hit_tick x ! m + ucast d]\<rparr>"
        using False t by (simp add: age_hit_def expired_def hit_at_def)
      have "hit_at (age_hit d m x) i = (if i = m then aged d (hit_at b i) else hit_at x i)" if "i < ?n" for i
        using that I len False t by (auto simp: a hit_at_def aged_def nth_list_update)
      then show ?thesis
        using I False by (auto simp: tk a less_Suc_eq)
    qed
  qed
  note J = this
  let ?b = "for_upto ?n (age_hit d) b"
  have "length (filter (expired d) (hits b)) + length (filter (\<lambda>h. \<not> expired d h) (hits b)) = ?n"
    using sum_length_filter_compl [of "expired d" "hits b"] by simp
  then have c: "unat (hit_count ?b) = length (filter (\<lambda>h. \<not> expired d h) (hits b))" "unat (hit_count ?b) \<le> ?n"
    using J by simp_all
  have "hits ?b = take (unat (hit_count ?b)) (map (aged d) (hits b))"
    by (rule nth_equalityI) (use c(2) J in \<open>auto simp: nth_hits\<close>)
  moreover have "hits_ok ?b"
    using J assms c(2) by (simp add: hits_ok_def)
  ultimately show ?thesis
    using c(1) by simp
qed

subsection \<open>Key presses\<close>

lemma heatmap_total: "\<exists>fb'. process_rgb_matrix_typing_heatmap lc rows cols row col fb = Some fb'"
proof -
  have cell: "\<exists>y. heat_cell lc row col i_row i_col fb = Some y" for i_row i_col fb
  proof -
    obtain r where "LED_DISTANCE (led_point lc ! unat (matrix_co lc ! row ! col)) (led_point lc ! unat (matrix_co lc ! i_row ! i_col)) = Some r"
      using sqrt16_root by (auto simp: LED_DISTANCE_def)
    then show ?thesis
      by (simp add: heat_cell_def Let_def)
  qed
  have "\<exists>y. for_upto rows (\<lambda>i_row x. for_upto cols (\<lambda>i_col x. do { fb \<leftarrow> x; heat_cell lc row col i_row i_col fb }) x) (Some fb) = Some y"
  proof (rule for_upto_invariant [where P = "\<lambda>_ x. \<exists>y. x = Some y"])
    fix i_row x
    assume "\<exists>y. x = Some (y :: u8 list list)"
    then show "\<exists>y. for_upto cols (\<lambda>i_col x. do { fb \<leftarrow> x; heat_cell lc row col i_row i_col fb }) x = Some y"
      by (rule for_upto_invariant [where P = "\<lambda>_ x. \<exists>y. x = Some y"]) (use cell in auto)
  qed simp
  then show ?thesis
    by (simp add: process_rgb_matrix_typing_heatmap_def)
qed

lemma process_rgb_total: "\<exists>s'. process_rgb_matrix lc heatmap rows cols row col pressed s = Some s'"
proof -
  obtain fb where "process_rgb_matrix_typing_heatmap lc rows cols row col (g_rgb_frame_buffer s) = Some fb"
    using heatmap_total by blast
  then show ?thesis
    by (cases "pressed \<and> rgb_mode (rgb_matrix_config s) = heatmap") (simp_all add: process_rgb_matrix_def Let_def)
qed

definition new_hits :: "led_config \<Rightarrow> nat \<Rightarrow> nat \<Rightarrow> bool \<Rightarrow> hit list" where
  "new_hits lc row col pressed = (if pressed then map (\<lambda>led. (led, led_point lc ! unat led, 0)) (rgb_matrix_map_row_column_to_led lc row col) else [])"

lemma process_hits:
  assumes "hits_ok (last_hit_buffer s)"
  shows "\<exists>s'. process_rgb_matrix lc heatmap rows cols row col pressed s = Some s' \<and> hits_ok (last_hit_buffer s') \<and>
    hits (last_hit_buffer s') = keep_last LED_HITS_TO_REMEMBER (hits (last_hit_buffer s) @ new_hits lc row col pressed) \<and>
    rgb_timer_buffer s' = rgb_timer_buffer s \<and> rgb_anykey_timer s' = 0"
proof -
  let ?led = "if pressed then rgb_matrix_map_row_column_to_led lc row col else []"
  let ?b = "fold (add_hit lc) ?led (make_room (length ?led) (last_hit_buffer s))"
  obtain fb where fb: "process_rgb_matrix_typing_heatmap lc rows cols row col (g_rgb_frame_buffer s) = Some fb"
    using heatmap_total by blast
  have n: "?led = [] \<or> (\<exists>led. ?led = [led] \<and> pressed \<and> rgb_matrix_map_row_column_to_led lc row col = [led])"
    by (auto simp: rgb_matrix_map_row_column_to_led_def Let_def)
  have "hits_ok ?b \<and> hits ?b = keep_last LED_HITS_TO_REMEMBER (hits (last_hit_buffer s) @ new_hits lc row col pressed)"
  proof (cases "?led = []")
    case True
    then show ?thesis
      using make_room_hits [OF assms, of 0] by (auto simp: new_hits_def)
  next
    case False
    then obtain led where led: "?led = [led]" "pressed" "rgb_matrix_map_row_column_to_led lc row col = [led]"
      using n by blast
    note r = make_room_hits [OF assms, of 1, simplified]
    then show ?thesis
      using add_hit_hits [of "make_room 1 (last_hit_buffer s)" lc led] led by (auto simp: new_hits_def keep_last_def LED_HITS_TO_REMEMBER_def)
  qed
  then show ?thesis
    using fb by (auto simp: process_rgb_matrix_def Let_def)
qed

subsection \<open>A session\<close>

datatype rgb_event = Switch nat nat bool | Timers u32 u32

fun run_hits :: "led_config \<Rightarrow> u8 \<Rightarrow> nat \<Rightarrow> nat \<Rightarrow> rgb_event list \<Rightarrow> ('e, 'l) rgb_task \<Rightarrow> ('e, 'l) rgb_task option" where
  "run_hits lc heatmap rows cols [] s = Some s"
| "run_hits lc heatmap rows cols (Switch row col pressed # es) s =
     do { s \<leftarrow> process_rgb_matrix lc heatmap rows cols row col pressed s; run_hits lc heatmap rows cols es s }"
| "run_hits lc heatmap rows cols (Timers t now # es) s = run_hits lc heatmap rows cols es (rgb_task_timers t now s)"

text \<open>The reference: every hit since the start with its age, and the time that the ticks count in all.\<close>

fun hit_log :: "led_config \<Rightarrow> rgb_event list \<Rightarrow> u32 \<Rightarrow> (u8 \<times> nat) list \<Rightarrow> (u8 \<times> nat) list" where
  "hit_log lc [] buf log = log"
| "hit_log lc (Switch row col pressed # es) buf log = hit_log lc es buf (log @ (if pressed then map (\<lambda>led. (led, 0)) (rgb_matrix_map_row_column_to_led lc row col) else []))"
| "hit_log lc (Timers t now # es) buf log = hit_log lc es now (map (\<lambda>(led, age). (led, age + unat (t - buf))) log)"

fun time_span :: "rgb_event list \<Rightarrow> u32 \<Rightarrow> nat" where
  "time_span [] buf = 0"
| "time_span (Switch row col pressed # es) buf = time_span es buf"
| "time_span (Timers t now # es) buf = unat (t - buf) + time_span es now"

definition hit_of :: "led_config \<Rightarrow> u8 \<times> nat \<Rightarrow> hit" where
  "hit_of lc la = (fst la, led_point lc ! unat (fst la), word_of_nat (snd la))"

lemma keep_last_append: "keep_last n (keep_last n xs @ ys) = keep_last n (xs @ ys)"
  by (cases "length xs \<le> n") (auto simp: keep_last_def add.commute)

lemma keep_last_map: "keep_last n (map f xs) = map f (keep_last n xs)"
  by (simp add: keep_last_def drop_map)

lemma set_keep_last: "set (keep_last n xs) \<subseteq> set xs"
  by (auto simp: keep_last_def dest: in_set_dropD)

lemma young_hit:
  assumes "age + unat d \<le> 65535"
  shows "\<not> expired d (hit_of lc (led, age))" "aged d (hit_of lc (led, age)) = hit_of lc (led, age + unat d)"
proof -
  have d: "d \<le> 0xFFFF"
    using assms by (simp add: word_le_nat_alt)
  have "unat (0xFFFF - d) = 65535 - unat d"
    using d by (simp add: unat_sub)
  moreover have "unat (ucast (word_of_nat age :: u16) :: u32) = age"
    using assms by (simp add: unsigned_ucast_eq unat_of_nat take_bit_nat_def)
  ultimately show e: "\<not> expired d (hit_of lc (led, age))"
    using assms by (simp add: expired_def hit_of_def word_less_nat_alt)
  have "(ucast d :: u16) = word_of_nat (unat d)"
    by (simp add: word_unat_eq_iff unsigned_ucast_eq unat_of_nat take_bit_nat_def)
  then show "aged d (hit_of lc (led, age)) = hit_of lc (led, age + unat d)"
    using e by (simp add: aged_def) (simp add: hit_of_def)
qed

lemma timers_young:
  assumes "hits_ok (last_hit_buffer s)" and "hits (last_hit_buffer s) = keep_last LED_HITS_TO_REMEMBER (map (hit_of lc) log)"
    and "\<forall>la\<in>set log. snd la + unat (t - rgb_timer_buffer s) \<le> 65535"
  shows "hits_ok (last_hit_buffer (rgb_task_timers t now s)) \<and>
    hits (last_hit_buffer (rgb_task_timers t now s)) =
      keep_last LED_HITS_TO_REMEMBER (map (hit_of lc) (map (\<lambda>(led, age). (led, age + unat (t - rgb_timer_buffer s))) log))"
proof -
  let ?d = "t - rgb_timer_buffer s"
  let ?L = "keep_last LED_HITS_TO_REMEMBER log"
  have y: "\<not> expired ?d (hit_of lc la) \<and> aged ?d (hit_of lc la) = hit_of lc (fst la, snd la + unat ?d)" if "la \<in> set ?L" for la
    using young_hit [of "snd la" ?d lc "fst la"] assms(3) set_keep_last that by fastforce
  have h: "hits (last_hit_buffer s) = map (hit_of lc) ?L"
    by (simp add: assms(2) keep_last_map)
  have "filter (\<lambda>h. \<not> expired ?d h) (hits (last_hit_buffer s)) = hits (last_hit_buffer s)"
    using y by (auto simp: h filter_id_conv)
  moreover have "map (aged ?d) (hits (last_hit_buffer s)) = keep_last LED_HITS_TO_REMEMBER (map (hit_of lc) (map (\<lambda>(led, age). (led, age + unat ?d)) log))"
    using y by (auto simp: h keep_last_map)
  ultimately have "take (length (filter (\<lambda>h. \<not> expired ?d h) (hits (last_hit_buffer s)))) (map (aged ?d) (hits (last_hit_buffer s))) =
      keep_last LED_HITS_TO_REMEMBER (map (hit_of lc) (map (\<lambda>(led, age). (led, age + unat ?d)) log))"
    by (metis length_map order_refl take_all)
  then show ?thesis
    using age_hits [OF assms(1), of ?d] by (simp add: rgb_task_timers_def Let_def)
qed

lemma run_hits_log:
  assumes "hits_ok (last_hit_buffer s)" and "hits (last_hit_buffer s) = keep_last LED_HITS_TO_REMEMBER (map (hit_of lc) log)"
    and "\<forall>la\<in>set log. snd la + time_span es (rgb_timer_buffer s) \<le> 65535" and "time_span es (rgb_timer_buffer s) \<le> 65535"
  shows "\<exists>s'. run_hits lc heatmap rows cols es s = Some s' \<and> hits_ok (last_hit_buffer s') \<and>
    hits (last_hit_buffer s') = keep_last LED_HITS_TO_REMEMBER (map (hit_of lc) (hit_log lc es (rgb_timer_buffer s) log))"
  using assms
proof (induction es arbitrary: s log)
  case (Cons e es)
  show ?case
  proof (cases e)
    case (Switch row col pressed)
    obtain s' where s': "process_rgb_matrix lc heatmap rows cols row col pressed s = Some s'" "hits_ok (last_hit_buffer s')"
        "hits (last_hit_buffer s') = keep_last LED_HITS_TO_REMEMBER (hits (last_hit_buffer s) @ new_hits lc row col pressed)" "rgb_timer_buffer s' = rgb_timer_buffer s"
      using process_hits [OF Cons.prems(1)] by blast
    let ?log = "log @ (if pressed then map (\<lambda>led. (led, 0)) (rgb_matrix_map_row_column_to_led lc row col) else [])"
    have "new_hits lc row col pressed = map (hit_of lc) (if pressed then map (\<lambda>led. (led, 0)) (rgb_matrix_map_row_column_to_led lc row col) else [])"
      by (simp add: new_hits_def hit_of_def)
    then have h: "hits (last_hit_buffer s') = keep_last LED_HITS_TO_REMEMBER (map (hit_of lc) ?log)"
      by (simp add: s'(3) Cons.prems(2) keep_last_append)
    have "\<forall>la\<in>set ?log. snd la + time_span es (rgb_timer_buffer s') \<le> 65535" "time_span es (rgb_timer_buffer s') \<le> 65535"
      using Cons.prems(3,4) by (auto simp: Switch s'(4))
    from Cons.IH [OF s'(2) h this] show ?thesis
      by (simp add: Switch s'(1,4))
  next
    case (Timers t now)
    let ?d = "unat (t - rgb_timer_buffer s)" and ?s = "rgb_task_timers t now s"
    have "\<forall>la\<in>set log. snd la + ?d \<le> 65535"
      using Cons.prems(3) by (auto simp: Timers)
    note y = timers_young [OF Cons.prems(1,2) this, of now]
    have b: "rgb_timer_buffer ?s = now"
      by (simp add: rgb_task_timers_def Let_def)
    have "\<forall>la\<in>set (map (\<lambda>(led, age). (led, age + ?d)) log). snd la + time_span es (rgb_timer_buffer ?s) \<le> 65535" "time_span es (rgb_timer_buffer ?s) \<le> 65535"
      using Cons.prems(3,4) by (auto simp: Timers b add.assoc)
    from Cons.IH [OF y [THEN conjunct1] y [THEN conjunct2] this] show ?thesis
      by (simp add: Timers b)
  qed
qed simp

text \<open>The part of \<^verbatim>\<open>rgb_matrix_init\<close> for the hits.\<close>

definition rgb_hits_init :: "last_hit_t \<Rightarrow> last_hit_t" where
  "rgb_hits_init b = b\<lparr>hit_count := 0, hit_tick := replicate LED_HITS_TO_REMEMBER 0xFFFF\<rparr>"


definition rgb_task_boot :: "u8 \<Rightarrow> ('e, 'l) rgb_task \<Rightarrow> ('e, 'l) rgb_task" where
  "rgb_task_boot mode s = s\<lparr>last_hit_buffer := rgb_hits_init \<lparr>hit_count = 3, hit_x = replicate 8 0, hit_y = replicate 8 0, hit_index = replicate 8 0, hit_tick = []\<rparr>,
     rgb_matrix_config := (rgb_default q3_rgb_build)\<lparr>rgb_mode := mode\<rparr>, rgb_timer_buffer := 1000\<rparr>"


text \<open>C40: When the age of the oldest hit overflows, the timer update takes the newest hit out of the buffer: the expired hit keeps its place and its age.
\<close>

theorem expired_hit_stays:
  assumes "hits_ok (last_hit_buffer s)" and "hits (last_hit_buffer s) = h # hs" and "d = t - rgb_timer_buffer s" and "expired d h" and "\<forall>h'\<in>set hs. \<not> expired d h'" and "hs \<noteq> []"
  shows "hits (last_hit_buffer (rgb_task_timers t now s)) = h # butlast (map (aged d) hs)"
proof -
  have f: "filter (\<lambda>h. \<not> expired d h) hs = hs"
    using assms(5) by (simp add: filter_id_conv)
  have "hits (last_hit_buffer (rgb_task_timers t now s)) = take (length hs) (h # map (aged d) hs)"
    using age_hits [OF assms(1), of d] assms(2,4) f by (simp add: rgb_task_timers_def Let_def assms(3) aged_def)
  then show ?thesis
    using assms(6) by (cases hs) (simp_all add: butlast_conv_take)
qed

theorem expired_hit_stays_witness:
  "\<forall>s :: (unit, unit) rgb_task. hits (last_hit_buffer (rgb_task_timers 1010 1010 (s\<lparr>rgb_timer_buffer := 1000,
     last_hit_buffer := \<lparr>hit_count = 2, hit_x = replicate 8 7, hit_y = replicate 8 9, hit_index = [0, 1, 0, 0, 0, 0, 0, 0], hit_tick = [65530, 3, 0, 0, 0, 0, 0, 0]\<rparr>\<rparr>))) =
   [(0, (7, 9), 65530)]"
proof
  fix s :: "(unit, unit) rgb_task"
  let ?b = "\<lparr>hit_count = 2, hit_x = replicate 8 7, hit_y = replicate 8 9, hit_index = [0, 1, 0, 0, 0, 0, 0, 0], hit_tick = [65530, 3, 0, 0, 0, 0, 0, 0]\<rparr> :: last_hit_t"
  let ?s = "s\<lparr>rgb_timer_buffer := 1000, last_hit_buffer := ?b\<rparr>"
  have h: "hits (last_hit_buffer ?s) = (0, (7, 9), 65530) # [(1, (7, 9), 3)]"
    by (simp add: hits_def hit_at_def upt_conv_Cons nth_Cons')
  have "hits (last_hit_buffer (rgb_task_timers 1010 1010 ?s)) = (0, (7, 9), 65530) # butlast (map (aged 10) [(1, (7, 9), 3)])"
    by (rule expired_hit_stays [OF _ h]) (simp_all add: hits_ok_def LED_HITS_TO_REMEMBER_def expired_def)
  then show "hits (last_hit_buffer (rgb_task_timers 1010 1010 ?s)) = [(0, (7, 9), 65530)]"
    by simp
qed

section \<open>A frame\<close>

fun run_rgb_task :: "rgb_build \<Rightarrow> ('e, 'l) led_env \<Rightarrow> 'e eeprom_api \<Rightarrow> u8 list \<Rightarrow> (u32 \<times> u32 \<times> u32) list \<Rightarrow> ('e, 'l) rgb_task \<Rightarrow> ('e, 'l) rgb_task option" where
  "run_rgb_task b E api stk [] s = Some s"
| "run_rgb_task b E api stk (t # ts) s = do { s \<leftarrow> rgb_matrix_task b E api stk t s; run_rgb_task b E api stk ts s }"

definition frame_ready :: "rgb_build \<Rightarrow> u8 \<Rightarrow> ('e, 'l) rgb_task \<Rightarrow> bool" where
  "frame_ready b e s \<longleftrightarrow> \<not> suspend_state s \<and> rgb_matrix_timeout s = 0xFFFFFFFF \<and> rgb_enable (rgb_matrix_config s) \<noteq> 0 \<and> rgb_mode (rgb_matrix_config s) = e \<and>
     e \<noteq> 0 \<and> e < RGB_MATRIX_EFFECT_MAX b \<and> e \<noteq> 255 \<and> ep_flags (rgb_effect_params s) = rgb_flags (rgb_matrix_config s) \<and> \<not> driver_shutdown s"

text \<open>What an animation does in one call: it draws its portion of the LEDs and reports whether the frame goes on.\<close>

definition draws :: "('e, 'l) led_env \<Rightarrow> u8 \<Rightarrow> (u8 \<times> u8 \<Rightarrow> 'l \<Rightarrow> 'l) \<Rightarrow> bool" where
  "draws E e draw \<longleftrightarrow> (\<forall>s. let lim = rgb_matrix_get_limits (iter (rgb_effect_params s))
     in run_effect E e s = (rgb_matrix_check_finished_leds (snd lim), g_rgb_frame_buffer s, draw lim (leds s)))"

definition portion :: "('e, 'l) led_env \<Rightarrow> (u8 \<times> u8 \<Rightarrow> 'l \<Rightarrow> 'l) \<Rightarrow> u8 \<Rightarrow> 'l \<Rightarrow> 'l" where
  "portion E draw i l = (let (min, max) = rgb_matrix_get_limits i
     in rgb_matrix_indicators_advanced_kb E min max (if \<not> rgb_matrix_check_finished_leds max then rgb_matrix_indicators E (draw (min, max) l) else draw (min, max) l))"

lemma limits_upto: "map rgb_matrix_get_limits [0, 1, 2, 3, 4] = [(0, 18), (18, 36), (36, 54), (54, 72), (72, 87)]"
  by (simp add: rgb_matrix_get_limits_def RGB_MATRIX_LED_PROCESS_LIMIT_def RGB_MATRIX_LED_COUNT_def)

lemma timers_frame [simp]:
  "frame_ready b e (rgb_task_timers t now s) = frame_ready b e s" "rgb_task_state (rgb_task_timers t now s) = rgb_task_state s"
  "leds (rgb_task_timers t now s) = leds s" "rgb_effect_params (rgb_task_timers t now s) = rgb_effect_params s"
  by (simp_all add: rgb_task_timers_def Let_def frame_ready_def)

lemma u32_top: "x \<le> 0xFFFFFFFF" for x :: u32
proof -
  have "unat x < 2 ^ 32"
    using unsigned_less [of x] by simp
  then show ?thesis
    by (simp add: word_le_nat_alt)
qed

lemma ready_effect: "frame_ready b e s \<Longrightarrow> current_effect s = e"
  by (simp add: frame_ready_def current_effect_def not_less u32_top)

lemma frame_start:
  assumes "frame_ready b e s" and "rgb_task_state s = STARTING"
  shows "\<exists>s'. rgb_matrix_task b E api stk t s = Some s' \<and> frame_ready b e s' \<and> rgb_task_state s' = RENDERING \<and> iter (rgb_effect_params s') = 0 \<and> leds s' = leds s"
proof -
  obtain x where x: "x = rgb_task_timers (fst t) (fst (snd t)) s"
    by simp
  have r: "frame_ready b e x" "rgb_task_state x = STARTING" "leds x = leds s"
    using assms by (simp_all add: x)
  have "rgb_matrix_task b E api stk t s = Some (rgb_task_start x)"
    unfolding rgb_matrix_task_def case_prod_unfold x [symmetric] Let_def r(2) by simp
  then show ?thesis
    using r by (simp add: rgb_task_start_def frame_ready_def)
qed

lemma frame_render:
  assumes "draws E e draw" and "frame_ready b e s" and "rgb_task_state s = RENDERING" and "iter (rgb_effect_params s) = i"
  shows "\<exists>s'. rgb_matrix_task b E api stk t s = Some s' \<and> frame_ready b e s' \<and>
    rgb_task_state s' = (if rgb_matrix_check_finished_leds (snd (rgb_matrix_get_limits i)) then RENDERING else FLUSHING) \<and>
    iter (rgb_effect_params s') = i + 1 \<and> leds s' = portion E draw i (leds s)"
proof -
  obtain x where x: "x = rgb_task_timers (fst t) (fst (snd t)) s"
    by simp
  have r: "frame_ready b e x" "rgb_task_state x = RENDERING" "iter (rgb_effect_params x) = i" "leds x = leds s"
    using assms by (simp_all add: x)
  obtain min max where lim: "rgb_matrix_get_limits i = (min, max)"
    by (rule prod.exhaust)
  have run: "run_effect E e y = (rgb_matrix_check_finished_leds max, g_rgb_frame_buffer y, draw (min, max) (leds y))" if "iter (rgb_effect_params y) = i" for y
    using assms(1) that by (simp add: draws_def lim Let_def)
  obtain y where y: "y = rgb_task_render b E e x"
    by simp
  have fields: "leds y = draw (min, max) (leds s)" "rgb_task_state y = (if rgb_matrix_check_finished_leds max then RENDERING else FLUSHING)"
      "iter (rgb_effect_params y) = i + 1" "frame_ready b e y"
    using r by (simp_all add: y rgb_task_render_def Let_def run frame_ready_def)
  have "rgb_matrix_task b E api stk t s = Some (rgb_matrix_indicators_advanced E (if rgb_task_state y = FLUSHING then on_leds (rgb_matrix_indicators E) y else y))"
    unfolding rgb_matrix_task_def case_prod_unfold x [symmetric] Let_def ready_effect [OF r(1)] r(2) y [symmetric] using r(1) by (simp add: frame_ready_def)
  then show ?thesis
    using fields by (simp add: rgb_matrix_indicators_advanced_def on_leds_def lim portion_def frame_ready_def)
qed

lemma frame_flush:
  assumes "frame_ready b e s" and "rgb_task_state s = FLUSHING"
  shows "\<exists>s'. rgb_matrix_task b E api stk t s = Some s' \<and> rgb_task_state s' = SYNCING \<and> leds s' = drv_flush E (leds s) \<and> rgb_last_effect s' = e"
proof -
  obtain x where x: "x = rgb_task_timers (fst t) (fst (snd t)) s"
    by simp
  have r: "frame_ready b e x" "rgb_task_state x = FLUSHING" "leds x = leds s"
    using assms by (simp_all add: x)
  have "rgb_matrix_task b E api stk t s = Some (rgb_task_flush E e x)"
    unfolding rgb_matrix_task_def case_prod_unfold x [symmetric] Let_def ready_effect [OF r(1)] r(2) by simp
  then show ?thesis
    using r by (simp add: rgb_task_flush_def on_leds_def Let_def frame_ready_def)
qed

lemma one_of_five:
  assumes "(P a \<and> \<not> P b \<and> \<not> P c \<and> \<not> P d \<and> \<not> P e) \<or> (\<not> P a \<and> P b \<and> \<not> P c \<and> \<not> P d \<and> \<not> P e) \<or> (\<not> P a \<and> \<not> P b \<and> P c \<and> \<not> P d \<and> \<not> P e) \<or>
    (\<not> P a \<and> \<not> P b \<and> \<not> P c \<and> P d \<and> \<not> P e) \<or> (\<not> P a \<and> \<not> P b \<and> \<not> P c \<and> \<not> P d \<and> P e)"
  shows "\<exists>!i. i \<in> {a, b, c, d, e} \<and> P i"
  using assms by (elim disjE) (simp; metis)+


text \<open>An animation that records the portions, and a driver that counts the transfers.\<close>

definition trace_env :: "(unit, (u8 \<times> u8) list \<times> nat) led_env" where
  "trace_env = \<lparr>drv_set_color_all = (\<lambda>_ _ _ l. l), drv_flush = (\<lambda>(ps, n). (ps, Suc n)), drv_shutdown = id, drv_exit_shutdown = id,
     run_effect = (\<lambda>_ s. let lim = rgb_matrix_get_limits (iter (rgb_effect_params s)); (ps, n) = leds s
       in (rgb_matrix_check_finished_leds (snd lim), g_rgb_frame_buffer s, (ps @ [lim], n))),
     rgb_matrix_indicators = id, rgb_matrix_indicators_advanced_kb = (\<lambda>_ _. id), rgb_matrix_none_indicators = id, rgb_matrix_driver_allow_shutdown = (\<lambda>_. True)\<rparr>"

definition frame_boot :: "('e, (u8 \<times> u8) list \<times> nat) rgb_task \<Rightarrow> ('e, (u8 \<times> u8) list \<times> nat) rgb_task" where
  "frame_boot s = s\<lparr>rgb_matrix_config := rgb_default q3_rgb_build, rgb_task_state := STARTING, rgb_matrix_timeout := 0xFFFFFFFF,
     rgb_effect_params := \<lparr>iter = 9, ep_flags = 0xFF, ep_init = False\<rparr>, suspend_state := False, driver_shutdown := False, leds := ([], 0)\<rparr>"


end
