(* ===== verification/Keyboard.thy ===== *)
theory Keyboard
  imports Matrix Encoder Rgb_Task Action_Exec
begin

text \<open>
  The task that turns the debounced matrix into events (\<^verbatim>\<open>matrix_task\<close> of \<^verbatim>\<open>quantum/keyboard.c\<close>), with the scan of \<^verbatim>\<open>Matrix\<close>, the lights of \<^verbatim>\<open>Rgb_Task\<close> and
  \<^verbatim>\<open>action_exec\<close> below it, and the activity timers. \<^verbatim>\<open>MATRIX_HAS_GHOST\<close> is not defined, and the keyboard is not split: \<^verbatim>\<open>should_process_keypress\<close> holds. The state of
  the actions travels in \<open>enc_world\<close> of the encoder, the other source of events.
\<close>

section \<open>Model\<close>

record ('w, 'e, 'l) keyboard =
  kb_matrix :: matrix_state
  matrix_previous :: "u32 list"
  last_tick :: u16
  last_input_modification_time :: u32
  last_matrix_modification_time :: u32
  last_encoder_modification_time :: u32
  kb_encoder :: "'w encoder"
  kb_rgb :: "('e, 'l) rgb_task"

record 'w kb_env =
  kb_exec :: "keyevent_t \<Rightarrow> 'w \<Rightarrow> 'w"
  kb_pins :: matrix_pins
  kb_leds :: led_config
  kb_heatmap :: u8

text \<open>When the timer is read in one task.\<close>

record task_times =
  scan_time :: u32
  tick_now :: u16
  tick_time :: u16
  key_time :: "nat \<Rightarrow> nat \<Rightarrow> u16"

definition kb_world :: "('w, 'e, 'l) keyboard \<Rightarrow> 'w" where
  "kb_world s = enc_world (kb_encoder s)"

definition execute :: "'w kb_env \<Rightarrow> keyevent_t \<Rightarrow> ('w, 'e, 'l) keyboard \<Rightarrow> ('w, 'e, 'l) keyboard" where
  "execute K e s = s\<lparr>kb_encoder := (kb_encoder s)\<lparr>enc_world := kb_exec K e (kb_world s)\<rparr>\<rparr>"

definition MAKE_KEYEVENT :: "nat \<Rightarrow> nat \<Rightarrow> bool \<Rightarrow> u16 \<Rightarrow> keyevent_t" where
  "MAKE_KEYEVENT row_num col_num press now = MAKE_EVENT row_num col_num press KEY_EVENT now"

definition MAKE_TICK_EVENT :: "u16 \<Rightarrow> keyevent_t" where
  "MAKE_TICK_EVENT now = MAKE_EVENT 0 0 False TICK_EVENT now"

definition switch_events :: "'w kb_env \<Rightarrow> nat \<Rightarrow> nat \<Rightarrow> bool \<Rightarrow> ('w, 'e, 'l) keyboard \<Rightarrow> ('w, 'e, 'l) keyboard option" where
  "switch_events K row_num col_num press s =
     do { r \<leftarrow> process_rgb_matrix (kb_leds K) (kb_heatmap K) (length (row_pins (kb_pins K))) (length (col_pins (kb_pins K))) row_num col_num press (kb_rgb s);
          Some (s\<lparr>kb_rgb := r\<rparr>) }"

definition generate_tick_event :: "'w kb_env \<Rightarrow> task_times \<Rightarrow> ('w, 'e, 'l) keyboard \<Rightarrow> ('w, 'e, 'l) keyboard" where
  "generate_tick_event K T s =
     (if TIMER_DIFF_16 (tick_now T) (last_tick s) \<noteq> 0 then (execute K (MAKE_TICK_EVENT (tick_time T)) s)\<lparr>last_tick := tick_now T\<rparr> else s)"

text \<open>The body of the loop over the columns, and of the loop over the rows.\<close>

definition key_task :: "'w kb_env \<Rightarrow> task_times \<Rightarrow> nat \<Rightarrow> u32 \<Rightarrow> u32 \<Rightarrow> nat \<Rightarrow> u32 \<times> ('w, 'e, 'l) keyboard option \<Rightarrow> u32 \<times> ('w, 'e, 'l) keyboard option" where
  "key_task K T row_num current_row row_changes col_num = (\<lambda>(col_mask, x).
     (push_bit 1 col_mask,
      do { s \<leftarrow> x;
           if row_changes AND col_mask \<noteq> 0 then
             let key_pressed = (current_row AND col_mask \<noteq> 0)
             in switch_events K row_num col_num key_pressed (execute K (MAKE_KEYEVENT row_num col_num key_pressed (key_time T row_num col_num)) s)
           else Some s }))"

definition row_task :: "'w kb_env \<Rightarrow> task_times \<Rightarrow> nat \<Rightarrow> ('w, 'e, 'l) keyboard \<Rightarrow> ('w, 'e, 'l) keyboard option" where
  "row_task K T row_num s =
     (let current_row = matrix_get_row row_num (kb_matrix s); row_changes = current_row XOR matrix_previous s ! row_num
      in if row_changes = 0 then Some s
         else do { s \<leftarrow> snd (for_upto (length (col_pins (kb_pins K))) (key_task K T row_num current_row row_changes) (1, Some s));
                   Some (s\<lparr>matrix_previous := (matrix_previous s)[row_num := current_row]\<rparr>) })"

definition matrix_task :: "'w kb_env \<Rightarrow> task_times \<Rightarrow> bool \<Rightarrow> (gpio \<Rightarrow> pin_t \<Rightarrow> bool) \<Rightarrow> ('w, 'e, 'l) keyboard \<Rightarrow> (bool \<times> ('w, 'e, 'l) keyboard) option" where
  "matrix_task K T matrix_can_read readPin s =
     (if \<not> matrix_can_read then Some (False, generate_tick_event K T s)
      else let s = s\<lparr>kb_matrix := snd (matrix_scan readPin (kb_pins K) (scan_time T) (kb_matrix s))\<rparr>;
               rows = length (row_pins (kb_pins K));
               matrix_changed = for_upto rows (\<lambda>row_num changed. if changed then changed else matrix_previous s ! row_num XOR matrix_get_row row_num (kb_matrix s) \<noteq> 0) False
           in if \<not> matrix_changed then Some (False, generate_tick_event K T s)
              else do { s \<leftarrow> for_upto rows (\<lambda>row_num x. do { s \<leftarrow> x; row_task K T row_num s }) (Some s); Some (True, s) })"

definition last_matrix_activity_trigger :: "u32 \<Rightarrow> ('w, 'e, 'l) keyboard \<Rightarrow> ('w, 'e, 'l) keyboard" where
  "last_matrix_activity_trigger now s = s\<lparr>last_matrix_modification_time := now, last_input_modification_time := now\<rparr>"

definition last_encoder_activity_trigger :: "u32 \<Rightarrow> ('w, 'e, 'l) keyboard \<Rightarrow> ('w, 'e, 'l) keyboard" where
  "last_encoder_activity_trigger now s = s\<lparr>last_encoder_modification_time := now, last_input_modification_time := now\<rparr>"

section \<open>The events of one task\<close>

definition changed_keys :: "nat \<Rightarrow> nat \<Rightarrow> u32 list \<Rightarrow> u32 list \<Rightarrow> (nat \<times> nat \<times> bool) list" where
  "changed_keys rows cols prev cur = [(r, c, bit (cur ! r) c). r \<leftarrow> [0..<rows], c \<leftarrow> [0..<cols], bit (cur ! r) c \<noteq> bit (prev ! r) c]"

definition key_event :: "task_times \<Rightarrow> nat \<times> nat \<times> bool \<Rightarrow> keyevent_t" where
  "key_event T = (\<lambda>(r, c, p). MAKE_KEYEVENT r c p (key_time T r c))"

definition kb_kept :: "('w, 'e, 'l) keyboard \<Rightarrow> matrix_state \<times> u16 \<times> u32 \<times> u32 \<times> u32" where
  "kb_kept s = (kb_matrix s, last_tick s, last_input_modification_time s, last_matrix_modification_time s, last_encoder_modification_time s)"

definition executes :: "'w kb_env \<Rightarrow> task_times \<Rightarrow> (nat \<times> nat \<times> bool) list \<Rightarrow> ('w, 'e, 'l) keyboard \<Rightarrow> ('w, 'e, 'l) keyboard \<Rightarrow> bool" where
  "executes K T ks s s' \<longleftrightarrow> kb_world s' = fold (\<lambda>k. kb_exec K (key_event T k)) ks (kb_world s) \<and> kb_kept s' = kb_kept s"

lemma executes_refl [simp]: "executes K T [] s s"
  by (simp add: executes_def)

lemma executes_trans: "executes K T ks s s' \<Longrightarrow> executes K T ks' s' s'' \<Longrightarrow> executes K T (ks @ ks') s s''"
  by (simp add: executes_def)

lemma mask_bit: "x AND push_bit n 1 \<noteq> 0 \<longleftrightarrow> bit x n" for x :: u32
  unfolding bit_iff_and_push_bit_not_eq_0 ..

lemma xor_zero: "x XOR y = 0 \<longleftrightarrow> x = y" for x y :: u32
  by (simp add: bit_eq_iff bit_xor_iff)

lemma key_executes:
  "\<exists>s'. switch_events K r c p (execute K (MAKE_KEYEVENT r c p (key_time T r c)) s) = Some s' \<and> executes K T [(r, c, p)] s s' \<and> matrix_previous s' = matrix_previous s"
proof -
  let ?s = "execute K (MAKE_KEYEVENT r c p (key_time T r c)) s"
  obtain x where "process_rgb_matrix (kb_leds K) (kb_heatmap K) (length (row_pins (kb_pins K))) (length (col_pins (kb_pins K))) r c p (kb_rgb ?s) = Some x"
    using process_rgb_total by blast
  then show ?thesis
    by (simp add: switch_events_def executes_def kb_kept_def execute_def kb_world_def key_event_def)
qed

definition row_keys :: "nat \<Rightarrow> nat \<Rightarrow> u32 \<Rightarrow> u32 \<Rightarrow> (nat \<times> nat \<times> bool) list" where
  "row_keys r n prev cur = [(r, c, bit cur c). c \<leftarrow> [0..<n], bit cur c \<noteq> bit prev c]"

lemma row_keys_Suc: "row_keys r (Suc n) prev cur = row_keys r n prev cur @ (if bit cur n \<noteq> bit prev n then [(r, n, bit cur n)] else [])"
  by (simp add: row_keys_def)

lemma row_keys_same [simp]: "row_keys r n prev prev = []"
  by (induction n) (simp_all add: row_keys_def)

lemma key_task_step:
  "key_task K T r cur changes n (push_bit n 1, Some s) =
     (push_bit (Suc n) 1, if bit changes n then switch_events K r n (bit cur n) (execute K (MAKE_KEYEVENT r n (bit cur n) (key_time T r n)) s) else Some s)"
proof -
  have "push_bit 1 (push_bit n 1) = (push_bit (Suc n) 1 :: u32)"
    unfolding push_bit_push_bit by simp
  then show ?thesis
    by (simp only: key_task_def prod.case Option.bind.simps mask_bit Let_def)
qed

lemma key_loop:
  "\<exists>s'. for_upto n (key_task K T r cur (cur XOR prev)) (1, Some s) = (push_bit n 1, Some s') \<and> executes K T (row_keys r n prev cur) s s' \<and> matrix_previous s' = matrix_previous s"
proof (induction n)
  case 0
  show ?case by (simp add: row_keys_def)
next
  case (Suc n)
  then obtain s' where s': "for_upto n (key_task K T r cur (cur XOR prev)) (1, Some s) = (push_bit n 1, Some s')" "executes K T (row_keys r n prev cur) s s'"
      "matrix_previous s' = matrix_previous s"
    by blast
  show ?case
  proof (cases "bit (cur XOR prev) n")
    case True
    obtain s'' where s'': "switch_events K r n (bit cur n) (execute K (MAKE_KEYEVENT r n (bit cur n) (key_time T r n)) s') = Some s''"
        "executes K T [(r, n, bit cur n)] s' s''" "matrix_previous s'' = matrix_previous s'"
      using key_executes by blast
    have "bit cur n \<noteq> bit prev n"
      using True by (simp add: bit_xor_iff)
    then show ?thesis
      using True s' s'' executes_trans [OF s'(2) s''(2)] by (simp only: for_upto_Suc key_task_step row_keys_Suc if_True) auto
  next
    case False
    then have "bit cur n = bit prev n"
      by (simp add: bit_xor_iff)
    then show ?thesis
      using False s' by (simp only: for_upto_Suc key_task_step row_keys_Suc if_False) auto
  qed
qed

lemma row_executes:
  assumes "cur = matrix_get_row r (kb_matrix s)"
  shows "\<exists>s'. row_task K T r s = Some s' \<and> executes K T (row_keys r (length (col_pins (kb_pins K))) (matrix_previous s ! r) cur) s s' \<and>
    matrix_previous s' = (matrix_previous s)[r := cur]"
proof (cases "cur = matrix_previous s ! r")
  case True
  then show ?thesis
    using assms by (simp add: row_task_def)
next
  case False
  obtain s' where s': "for_upto (length (col_pins (kb_pins K))) (key_task K T r cur (cur XOR matrix_previous s ! r)) (1, Some s) =
      (push_bit (length (col_pins (kb_pins K))) 1, Some s')"
      "executes K T (row_keys r (length (col_pins (kb_pins K))) (matrix_previous s ! r) cur) s s'" "matrix_previous s' = matrix_previous s"
    using key_loop by blast
  then show ?thesis
    using False assms by (simp add: row_task_def Let_def xor_zero executes_def kb_kept_def kb_world_def)
qed

definition kb_rows :: "'w kb_env \<Rightarrow> nat" where "kb_rows K = length (row_pins (kb_pins K))"
definition kb_cols :: "'w kb_env \<Rightarrow> nat" where "kb_cols K = length (col_pins (kb_pins K))"

definition debounced_rows :: "('w, 'e, 'l) keyboard \<Rightarrow> u32 list" where
  "debounced_rows s = fst (debounced (kb_matrix s))"

lemma changed_keys_Suc: "changed_keys (Suc n) cols prev cur = changed_keys n cols prev cur @ row_keys n cols (prev ! n) (cur ! n)"
  by (simp add: changed_keys_def row_keys_def)

lemma executes_matrix: "executes K T ks s s' \<Longrightarrow> kb_matrix s' = kb_matrix s"
  by (simp add: executes_def kb_kept_def)

lemma row_loop:
  assumes "length (matrix_previous s) = kb_rows K" and "length (debounced_rows s) = kb_rows K" and "n \<le> kb_rows K"
  shows "\<exists>s'. for_upto n (\<lambda>row_num x. do { s \<leftarrow> x; row_task K T row_num s }) (Some s) = Some s' \<and>
    executes K T (changed_keys n (kb_cols K) (matrix_previous s) (debounced_rows s)) s s' \<and> length (matrix_previous s') = kb_rows K \<and>
    (\<forall>r<kb_rows K. matrix_previous s' ! r = (if r < n then debounced_rows s ! r else matrix_previous s ! r))"
  using assms(3)
proof (induction n)
  case 0
  show ?case
    using assms(1) by (simp add: changed_keys_def)
next
  case (Suc n)
  then obtain s' where s': "for_upto n (\<lambda>row_num x. do { s \<leftarrow> x; row_task K T row_num s }) (Some s) = Some s'"
      "executes K T (changed_keys n (kb_cols K) (matrix_previous s) (debounced_rows s)) s s'" "length (matrix_previous s') = kb_rows K"
      "\<forall>r<kb_rows K. matrix_previous s' ! r = (if r < n then debounced_rows s ! r else matrix_previous s ! r)"
    by auto
  have n: "n < length (matrix_previous s')" "debounced_rows s ! n = matrix_get_row n (kb_matrix s')" "matrix_previous s' ! n = matrix_previous s ! n"
    using Suc.prems s'(3,4) executes_matrix [OF s'(2)] by (simp_all add: debounced_rows_def matrix_get_row_def)
  obtain s'' where s'': "row_task K T n s' = Some s''" "executes K T (row_keys n (kb_cols K) (matrix_previous s ! n) (debounced_rows s ! n)) s' s''"
      "matrix_previous s'' = (matrix_previous s')[n := debounced_rows s ! n]"
    using row_executes [OF n(2)] by (auto simp: kb_cols_def n(3))
  show ?case
    using s'(1,3,4) s''(1,3) executes_trans [OF s'(2) s''(2)] Suc.prems by (auto simp: changed_keys_Suc nth_list_update less_Suc_eq)
qed

lemma changed_loop:
  "for_upto n (\<lambda>row_num changed. if changed then changed else f row_num) False \<longleftrightarrow> (\<exists>r<n. f r)"
  by (induction n) (auto simp: less_Suc_eq)

definition scanned :: "'w kb_env \<Rightarrow> task_times \<Rightarrow> (gpio \<Rightarrow> pin_t \<Rightarrow> bool) \<Rightarrow> ('w, 'e, 'l) keyboard \<Rightarrow> ('w, 'e, 'l) keyboard" where
  "scanned K T readPin s = s\<lparr>kb_matrix := snd (matrix_scan readPin (kb_pins K) (scan_time T) (kb_matrix s))\<rparr>"

lemma matrix_task_executes:
  assumes "x = scanned K T readPin s" and "length (matrix_previous s) = kb_rows K" and "length (debounced_rows x) = kb_rows K"
  shows "\<exists>s'. matrix_task K T True readPin s = Some (matrix_previous s \<noteq> debounced_rows x, s') \<and> matrix_previous s' = debounced_rows x \<and> kb_matrix s' = kb_matrix x \<and>
    (if matrix_previous s \<noteq> debounced_rows x then executes K T (changed_keys (kb_rows K) (kb_cols K) (matrix_previous s) (debounced_rows x)) x s'
     else s' = generate_tick_event K T x)"
proof -
  have p: "matrix_previous x = matrix_previous s"
    by (simp add: assms(1) scanned_def)
  have c: "(\<exists>r<kb_rows K. matrix_previous x ! r XOR matrix_get_row r (kb_matrix x) \<noteq> 0) \<longleftrightarrow> matrix_previous s \<noteq> debounced_rows x"
    using assms(2,3) by (auto simp: p xor_zero matrix_get_row_def debounced_rows_def list_eq_iff_nth_eq)
  show ?thesis
  proof (cases "matrix_previous s = debounced_rows x")
    case True
    then show ?thesis
      unfolding matrix_task_def scanned_def [symmetric] assms(1) [symmetric] Let_def changed_loop kb_rows_def [symmetric] c
      by (simp add: generate_tick_event_def execute_def p)
  next
    case False
    obtain s' where s': "for_upto (kb_rows K) (\<lambda>row_num x. do { s \<leftarrow> x; row_task K T row_num s }) (Some x) = Some s'"
        "executes K T (changed_keys (kb_rows K) (kb_cols K) (matrix_previous s) (debounced_rows x)) x s'" "length (matrix_previous s') = kb_rows K"
        "\<forall>r<kb_rows K. matrix_previous s' ! r = debounced_rows x ! r"
      using row_loop [of x K "kb_rows K" T] assms(2,3) by (auto simp: p)
    then have "matrix_previous s' = debounced_rows x"
      using assms(3) by (simp add: list_eq_iff_nth_eq)
    then show ?thesis
      unfolding matrix_task_def scanned_def [symmetric] assms(1) [symmetric] Let_def changed_loop kb_rows_def [symmetric] c
      using False s'(1,2) executes_matrix [OF s'(2)] by simp
  qed
qed

section \<open>From the switches to the events\<close>

fun run_matrix_tasks :: "'w kb_env \<Rightarrow> ('k \<Rightarrow> gpio \<Rightarrow> pin_t \<Rightarrow> bool) \<Rightarrow> ('k \<times> task_times) list \<Rightarrow> ('w, 'e, 'l) keyboard \<Rightarrow> ('w, 'e, 'l) keyboard option" where
  "run_matrix_tasks K readPin [] s = Some s"
| "run_matrix_tasks K readPin ((closed, T) # xs) s = do { (changed, s) \<leftarrow> matrix_task K T True (readPin closed) s; run_matrix_tasks K readPin xs s }"

lemma run_matrix_snoc:
  "run_matrix_tasks K readPin (xs @ [(closed, T)]) s = do { s \<leftarrow> run_matrix_tasks K readPin xs s; (changed, s) \<leftarrow> matrix_task K T True (readPin closed) s; Some s }"
  by (induction K readPin xs s rule: run_matrix_tasks.induct) (auto split: Option.bind_split)

lemma filter_row_keys:
  "filter (\<lambda>k. fst k = r \<and> fst (snd k) = c) (row_keys r' n prev cur) = (if r' = r \<and> c < n \<and> bit cur c \<noteq> bit prev c then [(r, c, bit cur c)] else [])"
  by (induction n) (auto simp: row_keys_Suc less_Suc_eq, simp_all add: row_keys_def)

lemma filter_changed_keys:
  "filter (\<lambda>k. fst k = r \<and> fst (snd k) = c) (changed_keys n cols prev cur) =
     (if r < n \<and> c < cols \<and> bit (cur ! r) c \<noteq> bit (prev ! r) c then [(r, c, bit (cur ! r) c)] else [])"
  by (induction n) (auto simp: changed_keys_Suc filter_row_keys less_Suc_eq, simp_all add: changed_keys_def)

text \<open>The events of one key, and its debounced states after each scan.\<close>

definition key_presses :: "nat \<Rightarrow> nat \<Rightarrow> keyevent_t list \<Rightarrow> bool list" where
  "key_presses r c es = map pressed (filter (\<lambda>e. ev_type e = KEY_EVENT \<and> row (key e) = r \<and> col (key e) = c) es)"

definition debounced_history :: "u8 \<Rightarrow> (bool \<times> u32) list \<Rightarrow> bool list" where
  "debounced_history debounce_ms hist = map (\<lambda>n. snd (key_run (eager_key debounce_ms) 0 (take n hist) (0, False))) [1..<Suc (length hist)]"

lemma key_presses_task:
  "key_presses r c (es @ map (key_event T) (changed_keys rows cols prev cur)) =
     key_presses r c es @ (if r < rows \<and> c < cols \<and> bit (cur ! r) c \<noteq> bit (prev ! r) c then [bit (cur ! r) c] else [])"
proof -
  have f: "filter (\<lambda>e. ev_type e = KEY_EVENT \<and> row (key e) = r \<and> col (key e) = c) (map (key_event T) ks) =
      map (key_event T) (filter (\<lambda>k. fst k = r \<and> fst (snd k) = c) ks)" for ks
    by (simp add: filter_map o_def key_event_def MAKE_KEYEVENT_def MAKE_EVENT_def case_prod_unfold)
  show ?thesis
    unfolding key_presses_def filter_append map_append f filter_changed_keys by (simp add: key_event_def MAKE_KEYEVENT_def MAKE_EVENT_def)
qed

lemma debounced_history_snoc:
  "debounced_history D (hist @ [x]) = debounced_history D hist @ [snd (key_run (eager_key D) 0 (hist @ [x]) (0, False))]"
  by (auto simp: debounced_history_def)

lemma transitions_snoc: "tl (remdups_adj (False # ys @ [b])) = tl (remdups_adj (False # ys)) @ (if last (False # ys) = b then [] else [b])"
proof (cases ys rule: rev_cases)
  case Nil
  then show ?thesis
    by simp
next
  case (snoc zs a)
  have "remdups_adj ((False # zs) @ [a, b]) = remdups_adj ((False # zs) @ [a]) @ (if a = b then [] else [b])"
    by (rule remdups_adj_append_two)
  then show ?thesis
    using snoc by (simp add: tl_append2)
qed

text \<open>An environment that records the events, and the start.\<close>

definition recording :: "matrix_pins \<Rightarrow> led_config \<Rightarrow> u8 \<Rightarrow> keyevent_t list kb_env" where
  "recording P lc heatmap = \<lparr>kb_exec = (\<lambda>e es. es @ [e]), kb_pins = P, kb_leds = lc, kb_heatmap = heatmap\<rparr>"

definition kb_boot :: "matrix_pins \<Rightarrow> gpio \<Rightarrow> u8 \<Rightarrow> 'w \<Rightarrow> ('e, 'l) rgb_task \<Rightarrow> ('w, 'e, 'l) keyboard" where
  "kb_boot P g debounce_ms w rgb = \<lparr>kb_matrix = matrix_init P (matrix_boot g debounce_ms), matrix_previous = replicate (length (row_pins P)) 0, last_tick = 0,
     last_input_modification_time = 0, last_matrix_modification_time = 0, last_encoder_modification_time = 0, kb_encoder = encoder_start w, kb_rgb = rgb\<rparr>"

lemma record_fold: "fold (\<lambda>k es. es @ [key_event T k]) ks w = w @ map (key_event T) ks"
  by (induction ks arbitrary: w) simp_all

lemma tick_world:
  "key_presses r c (kb_world (generate_tick_event (recording P lc h) T s)) = key_presses r c (kb_world s)"
  "kb_matrix (generate_tick_event (recording P lc h) T s) = kb_matrix s"
  by (simp_all add: generate_tick_event_def execute_def kb_world_def recording_def key_presses_def MAKE_TICK_EVENT_def MAKE_EVENT_def)

lemma recorded_task:
  assumes s: "length (matrix_previous s) = length (row_pins P)" "length (debounced_rows s) = length (row_pins P)" and x: "x = scanned (recording P lc h) T readPin s"
  shows "\<exists>ch s'. matrix_task (recording P lc h) T True readPin s = Some (ch, s') \<and> matrix_previous s' = debounced_rows x \<and> kb_matrix s' = kb_matrix x \<and>
    (\<forall>r<length (row_pins P). \<forall>c<length (col_pins P). key_presses r c (kb_world s') =
      key_presses r c (kb_world s) @ (if bit (debounced_rows x ! r) c \<noteq> bit (matrix_previous s ! r) c then [bit (debounced_rows x ! r) c] else []))"
proof -
  let ?K = "recording P lc h"
  have K: "kb_rows ?K = length (row_pins P)" "kb_cols ?K = length (col_pins P)" "kb_exec ?K = (\<lambda>e es. es @ [e])"
    by (simp_all add: kb_rows_def kb_cols_def recording_def)
  have w: "kb_world x = kb_world s"
    by (simp add: x scanned_def kb_world_def)
  have len: "length (debounced_rows x) = length (row_pins P)"
    using s(2) by (simp add: x scanned_def debounced_rows_def scan_length)
  obtain s' where s': "matrix_task ?K T True readPin s = Some (matrix_previous s \<noteq> debounced_rows x, s')" "matrix_previous s' = debounced_rows x" "kb_matrix s' = kb_matrix x"
      "if matrix_previous s \<noteq> debounced_rows x then executes ?K T (changed_keys (length (row_pins P)) (length (col_pins P)) (matrix_previous s) (debounced_rows x)) x s'
       else s' = generate_tick_event ?K T x"
    using matrix_task_executes [OF x] s(1) len unfolding K by blast
  have "key_presses r c (kb_world s') = key_presses r c (kb_world s) @ (if bit (debounced_rows x ! r) c \<noteq> bit (matrix_previous s ! r) c then [bit (debounced_rows x ! r) c] else [])"
    if "r < length (row_pins P)" "c < length (col_pins P)" for r c
  proof (cases "matrix_previous s = debounced_rows x")
    case True
    then show ?thesis
      using s'(4) w by (simp add: tick_world)
  next
    case False
    then have "kb_world s' = kb_world s @ map (key_event T) (changed_keys (length (row_pins P)) (length (col_pins P)) (matrix_previous s) (debounced_rows x))"
      using s'(4) w by (simp add: executes_def K record_fold)
    then show ?thesis
      using that by (simp add: key_presses_task)
  qed
  then show ?thesis
    using s'(1-3) by blast
qed

lemma recorded_run:
  assumes laws: "\<And>closed. key_matrix (readPin closed) P closed" "set (row_pins P) \<inter> set (col_pins P) \<subseteq> {NO_PIN}"
  shows "\<exists>s. run_matrix_tasks (recording P lc h) readPin xs (kb_boot P g D [] rgb) = Some s \<and> matrix_previous s = debounced_rows s \<and>
    length (debounced_rows s) = length (row_pins P) \<and>
    kb_matrix s = matrix_scans readPin P (map (\<lambda>(closed, T). (closed, scan_time T)) xs) (matrix_init P (matrix_boot g D)) \<and>
    (\<forall>r c. wired P r c \<longrightarrow> key_presses r c (kb_world s) = tl (remdups_adj (False # debounced_history D (map (\<lambda>(closed, T). (closed r c, scan_time T)) xs))))"
proof (induction xs rule: rev_induct)
  case Nil
  show ?case
    by (simp add: kb_boot_def debounced_rows_def matrix_init_def Let_def matrix_scans_def debounced_history_def key_presses_def kb_world_def encoder_start_def)
next
  case (snoc z xs)
  obtain closed T where z: "z = (closed, T)"
    by (rule prod.exhaust)
  obtain s where s: "run_matrix_tasks (recording P lc h) readPin xs (kb_boot P g D [] rgb) = Some s" "matrix_previous s = debounced_rows s"
      "length (debounced_rows s) = length (row_pins P)"
      "kb_matrix s = matrix_scans readPin P (map (\<lambda>(closed, T). (closed, scan_time T)) xs) (matrix_init P (matrix_boot g D))"
      "\<forall>r c. wired P r c \<longrightarrow> key_presses r c (kb_world s) = tl (remdups_adj (False # debounced_history D (map (\<lambda>(closed, T). (closed r c, scan_time T)) xs)))"
    using snoc by blast
  obtain x where x: "x = scanned (recording P lc h) T (readPin closed) s"
    by simp
  obtain ch s' where s': "matrix_task (recording P lc h) T True (readPin closed) s = Some (ch, s')" "matrix_previous s' = debounced_rows x" "kb_matrix s' = kb_matrix x"
    "\<forall>r<length (row_pins P). \<forall>c<length (col_pins P). key_presses r c (kb_world s') =
      key_presses r c (kb_world s) @ (if bit (debounced_rows x ! r) c \<noteq> bit (matrix_previous s ! r) c then [bit (debounced_rows x ! r) c] else [])"
    using recorded_task [OF _ s(3) x] s(2,3) by auto
  have m: "kb_matrix s' = matrix_scans readPin P (map (\<lambda>(closed, T). (closed, scan_time T)) (xs @ [z])) (matrix_init P (matrix_boot g D))"
    using s(4) by (simp add: s'(3) x scanned_def z matrix_scans_def recording_def)
  have track: "bit (matrix_get_row r (matrix_scans readPin P (map (\<lambda>(closed, T). (closed, scan_time T)) ys) (matrix_init P (matrix_boot g D)))) c \<longleftrightarrow>
      snd (key_run (eager_key D) 0 (map (\<lambda>(closed, T). (closed r c, scan_time T)) ys) (0, False))" if "wired P r c" for r c ys
    using scans_track_switches [OF laws that, of "map (\<lambda>(closed, T). (closed, scan_time T)) ys" g D] by (simp add: o_def case_prod_unfold)
  have "key_presses r c (kb_world s') = tl (remdups_adj (False # debounced_history D (map (\<lambda>(closed, T). (closed r c, scan_time T)) (xs @ [z]))))" if wd: "wired P r c" for r c
  proof -
    let ?h = "map (\<lambda>(closed, T). (closed r c, scan_time T)) xs"
    have new: "bit (debounced_rows x ! r) c = snd (key_run (eager_key D) 0 (?h @ [(closed r c, scan_time T)]) (0, False))"
      using track [OF wd, of "xs @ [z]"] m s'(3) by (simp add: matrix_get_row_def debounced_rows_def z)
    have "last (False # debounced_history D ?h) = snd (key_run (eager_key D) 0 ?h (0, False))"
      by (cases ?h rule: rev_cases) (simp_all add: debounced_history_snoc, simp add: debounced_history_def)
    then have old: "bit (matrix_previous s ! r) c = last (False # debounced_history D ?h)"
      using track [OF wd, of xs] s(2,4) by (simp add: matrix_get_row_def debounced_rows_def)
    have rc: "r < length (row_pins P)" "c < length (col_pins P)"
      using wd by (simp_all add: wired_def)
    have "key_presses r c (kb_world s') = tl (remdups_adj (False # debounced_history D ?h)) @
        (if last (False # debounced_history D ?h) = bit (debounced_rows x ! r) c then [] else [bit (debounced_rows x ! r) c])"
      using s'(4) rc s(5) wd old by auto
    also have "\<dots> = tl (remdups_adj (False # debounced_history D (?h @ [(closed r c, scan_time T)])))"
      unfolding debounced_history_snoc transitions_snoc new ..
    finally show ?thesis
      by (simp add: z)
  qed
  moreover have "run_matrix_tasks (recording P lc h) readPin (xs @ [z]) (kb_boot P g D [] rgb) = Some s'"
    by (simp add: z run_matrix_snoc s(1) s'(1))
  moreover have "debounced_rows s' = debounced_rows x" "length (debounced_rows x) = length (row_pins P)"
    using s'(3) s(3) by (simp_all add: debounced_rows_def x scanned_def scan_length)
  ultimately show ?case
    using s'(2) m by auto
qed

text \<open>C3: From power-on, over every sequence of matrix tasks, at whatever times and whatever the switches do, no task gets stuck, and the events executed for a key are exactly the
  transitions of the debounced history of its own switch, in their order: the first is a press, presses and releases alternate, no change is lost and none is invented.
\<close>

theorem keyboard_events_are_transitions:
  assumes "\<And>closed. key_matrix (readPin closed) P closed" and "set (row_pins P) \<inter> set (col_pins P) \<subseteq> {NO_PIN}" and "wired P r c"
  shows "\<exists>s. run_matrix_tasks (recording P lc h) readPin xs (kb_boot P g D [] rgb) = Some s \<and>
    key_presses r c (kb_world s) = tl (remdups_adj (False # debounced_history D (map (\<lambda>(closed, T). (closed r c, scan_time T)) xs)))"
  using recorded_run [OF assms(1,2)] assms(3) by blast

definition at_time :: "u32 \<Rightarrow> task_times" where
  "at_time t = \<lparr>scan_time = t, tick_now = ucast t, tick_time = ucast t, key_time = (\<lambda>_ _. ucast t)\<rparr>"

theorem keyboard_events_are_transitions_witness:
  "\<forall>rgb :: (unit, unit) rgb_task. \<exists>s. run_matrix_tasks (recording q3_pins \<lparr>matrix_co = [], led_point = []\<rparr> 22) (diode_read q3_pins)
      [((\<lambda>r c. r = 1), at_time 7), ((\<lambda>r c. False), at_time 12), ((\<lambda>r c. False), at_time 40)] (kb_boot q3_pins (\<lambda>_. Output_low) 20 [] rgb) = Some s \<and>
    key_presses 1 2 (kb_world s) = [True, False]"
proof
  fix rgb :: "(unit, unit) rgb_task"
  have w: "set (row_pins q3_pins) \<inter> set (col_pins q3_pins) \<subseteq> {NO_PIN}" "wired q3_pins 1 2"
    by (simp_all add: q3_pins_ok) (simp add: wired_def q3_pins_def NO_PIN_def)
  let ?xs = "[((\<lambda>r c. r = 1), at_time 7), ((\<lambda>r c. False), at_time 12), ((\<lambda>r c. False), at_time 40)] :: ((nat \<Rightarrow> nat \<Rightarrow> bool) \<times> task_times) list"
  have "debounced_history 20 (map (\<lambda>(closed, T). (closed 1 2, scan_time T)) ?xs) = [True, True, False]"
    by (simp add: debounced_history_def at_time_def upt_conv_Cons eager_key_simp elapsed8_def TIMER_DIFF_FAST_def Let_def)
  then show "\<exists>s. run_matrix_tasks (recording q3_pins \<lparr>matrix_co = [], led_point = []\<rparr> 22) (diode_read q3_pins) ?xs (kb_boot q3_pins (\<lambda>_. Output_low) 20 [] rgb) = Some s \<and>
      key_presses 1 2 (kb_world s) = [True, False]"
    using keyboard_events_are_transitions [where readPin = "diode_read q3_pins" and xs = ?xs and lc = "\<lparr>matrix_co = [], led_point = []\<rparr>" and h = 22 and D = 20 and
        g = "\<lambda>_. Output_low" and rgb = rgb, OF q3_matrix.key_matrix_axioms w] by simp
qed

section \<open>The host\<close>

lemma matrix_task_runs: "\<exists>ch s' es. matrix_task K T can_read readPin s = Some (ch, s') \<and> kb_world s' = fold (kb_exec K) es (kb_world s)"
proof -
  have tick: "\<exists>es. kb_world (generate_tick_event K T s) = fold (kb_exec K) es (kb_world s)" for s :: "('a, 'b, 'c) keyboard"
    by (cases "TIMER_DIFF_16 (tick_now T) (last_tick s) = 0")
      (auto simp: generate_tick_event_def execute_def kb_world_def intro: exI [of _ "[]"] exI [of _ "[MAKE_TICK_EVENT (tick_time T)]"])
  let ?x = "scanned K T readPin s"
  have "\<exists>s' es. for_upto n (\<lambda>row_num x. do { s \<leftarrow> x; row_task K T row_num s }) (Some ?x) = Some s' \<and> kb_world s' = fold (kb_exec K) es (kb_world ?x)" for n
  proof (induction n)
    case 0
    show ?case
      by (auto intro: exI [of _ "[]"])
  next
    case (Suc n)
    then obtain s' es where s': "for_upto n (\<lambda>row_num x. do { s \<leftarrow> x; row_task K T row_num s }) (Some ?x) = Some s'" "kb_world s' = fold (kb_exec K) es (kb_world ?x)"
      by blast
    obtain s'' ks where s'': "row_task K T n s' = Some s''" "kb_world s'' = fold (\<lambda>k. kb_exec K (key_event T k)) ks (kb_world s')"
      using row_executes [OF refl] by (metis executes_def)
    have "kb_world s'' = fold (kb_exec K) (es @ map (key_event T) ks) (kb_world ?x)"
      using s'(2) s''(2) by (simp add: fold_map o_def)
    then show ?case
      using s'(1) s''(1) by (intro exI [of _ s''] exI [of _ "es @ map (key_event T) ks"]) simp
  qed
  then obtain s' es where s': "for_upto (kb_rows K) (\<lambda>row_num x. do { s \<leftarrow> x; row_task K T row_num s }) (Some ?x) = Some s'" "kb_world s' = fold (kb_exec K) es (kb_world ?x)"
    by blast
  have w: "kb_world ?x = kb_world s"
    by (simp add: scanned_def kb_world_def)
  show ?thesis
    using s' w tick [of s] tick [of ?x]
    unfolding matrix_task_def scanned_def [symmetric] Let_def kb_rows_def [symmetric] by auto
qed

lemma encoder_update_runs: "\<exists>es. enc_world (snd (encoder_update exec now i state s)) = fold exec es (enc_world s)"
proof -
  have m: "\<exists>es. encoder_exec_mapping exec now i cw w = fold exec es w" for cw w
    by (intro exI [of _ "[MAKE_ENCODER_EVENT i cw True (now True), MAKE_ENCODER_EVENT i cw False (now False)]"]) (simp add: encoder_exec_mapping_def)
  have id: "\<exists>es. w = fold exec es w" for w
    by (intro exI [of _ "[]"]) simp
  show ?thesis
    using m id by (auto simp: encoder_update_def add_pulses_def Let_def)
qed

lemma encoder_read_runs: "\<exists>es. enc_world (snd (encoder_read exec now pads s)) = fold exec es (enc_world s)"
  unfolding encoder_read_def
proof (rule for_upto_invariant [where P = "\<lambda>_ x. \<exists>es. enc_world (snd x) = fold exec es (enc_world s)"])
  show "\<exists>es. enc_world (snd (False, s)) = fold exec es (enc_world s)"
    by (intro exI [of _ "[]"]) simp
next
  fix i and x :: "bool \<times> 'a encoder"
  assume "\<exists>es. enc_world (snd x) = fold exec es (enc_world s)"
  then obtain es where es: "enc_world (snd x) = fold exec es (enc_world s)"
    by blast
  obtain es' where es': "enc_world (snd (encoder_read_one exec now pads i x)) = fold exec es' (enc_world (snd x))"
  proof (cases "encoder_state (snd x) ! i AND 3 \<noteq> pad_status (pads i) \<or> encoder_interrupt_update (snd x) ! i")
    case True
    let ?s = "shift_state i (pad_status (pads i)) (snd x)"
    have "enc_world ?s = enc_world (snd x)"
      by (simp add: shift_state_def)
    moreover obtain es' where "enc_world (snd (encoder_update exec now i (encoder_state ?s ! i) ?s)) = fold exec es' (enc_world ?s)"
      using encoder_update_runs by blast
    ultimately show ?thesis
      using True that [of es'] by (simp add: encoder_read_one_def Let_def case_prod_unfold)
  next
    case False
    then show ?thesis
      using that [of "[]"] by (simp add: encoder_read_one_def Let_def case_prod_unfold)
  qed
  then show "\<exists>es. enc_world (snd (encoder_read_one exec now pads i x)) = fold exec es (enc_world s)"
    using es by (intro exI [of _ "es @ es'"]) simp
qed

text \<open>The steps of the main loop that execute events, and the interrupt of the encoder, in any order. \<open>now\<close> is the time for the activity timers.\<close>

datatype kb_step =
    Matrix_step bool "gpio \<Rightarrow> pin_t \<Rightarrow> bool" task_times u32
  | Encoder_step "nat \<Rightarrow> bool \<times> bool" "bool \<Rightarrow> u16" u32
  | Encoder_interrupt "nat \<Rightarrow> bool \<times> bool" nat

fun run_kb_step :: "'w kb_env \<Rightarrow> kb_step \<Rightarrow> ('w, 'e, 'l) keyboard \<Rightarrow> ('w, 'e, 'l) keyboard option" where
  "run_kb_step K (Matrix_step can_read readPin T now) s =
     do { (changed, s) \<leftarrow> matrix_task K T can_read readPin s; Some (if changed then last_matrix_activity_trigger now s else s) }"
| "run_kb_step K (Encoder_step pads ev_time now) s =
     (let (changed, e) = encoder_read (kb_exec K) ev_time pads (kb_encoder s); s = s\<lparr>kb_encoder := e\<rparr>
      in Some (if changed then last_encoder_activity_trigger now s else s))"
| "run_kb_step K (Encoder_interrupt pads i) s = Some (s\<lparr>kb_encoder := encoder_inerrupt_read pads i (kb_encoder s)\<rparr>)"

fun run_kb_steps :: "'w kb_env \<Rightarrow> kb_step list \<Rightarrow> ('w, 'e, 'l) keyboard \<Rightarrow> ('w, 'e, 'l) keyboard option" where
  "run_kb_steps K [] s = Some s"
| "run_kb_steps K (x # xs) s = do { s \<leftarrow> run_kb_step K x s; run_kb_steps K xs s }"

lemma kb_step_runs: "\<exists>s' es. run_kb_step K x s = Some s' \<and> kb_world s' = fold (kb_exec K) es (kb_world s)"
proof (cases x)
  case (Matrix_step can_read readPin T now)
  obtain ch s' es where "matrix_task K T can_read readPin s = Some (ch, s')" "kb_world s' = fold (kb_exec K) es (kb_world s)"
    using matrix_task_runs by blast
  then show ?thesis
    by (auto simp: Matrix_step last_matrix_activity_trigger_def kb_world_def)
next
  case (Encoder_step pads ev_time now)
  obtain es where "enc_world (snd (encoder_read (kb_exec K) ev_time pads (kb_encoder s))) = fold (kb_exec K) es (enc_world (kb_encoder s))"
    using encoder_read_runs by blast
  then show ?thesis
    by (auto simp: Encoder_step last_encoder_activity_trigger_def kb_world_def case_prod_unfold Let_def)
next
  case (Encoder_interrupt pads i)
  then show ?thesis
    by (intro exI [of _ "s\<lparr>kb_encoder := encoder_inerrupt_read pads i (kb_encoder s)\<rparr>"] exI [of _ "[]"])
      (simp add: kb_world_def encoder_inerrupt_read_def shift_state_def add_pulses_def Let_def)
qed

lemma kb_steps_run: "\<exists>s' es. run_kb_steps K xs s = Some s' \<and> kb_world s' = fold (kb_exec K) es (kb_world s)"
proof (induction xs arbitrary: s)
  case Nil
  show ?case
    by (intro exI [of _ s] exI [of _ "[]"]) simp
next
  case (Cons x xs)
  obtain s1 es1 where s1: "run_kb_step K x s = Some s1" "kb_world s1 = fold (kb_exec K) es1 (kb_world s)"
    using kb_step_runs by blast
  obtain s2 es2 where s2: "run_kb_steps K xs s1 = Some s2" "kb_world s2 = fold (kb_exec K) es2 (kb_world s1)"
    using Cons.IH by blast
  then show ?case
    using s1 by (intro exI [of _ s2] exI [of _ "es1 @ es2"]) simp
qed



end
