(* ===== verification/Mousekey.thy ===== *)
theory Mousekey
  imports Wireless Tapping
begin

text \<open>
  Mouse keys (\<^verbatim>\<open>quantum/mousekey.c\<close>) in the default accelerated mode (none of \<^verbatim>\<open>MK_3_SPEED\<close>, \<^verbatim>\<open>MK_COMBINED\<close>, \<^verbatim>\<open>MK_KINETIC_SPEED\<close> and \<^verbatim>\<open>MOUSEKEY_INERTIA\<close> is
  defined). The report keeps the movement of the held keys; the task repeats it, faster and faster. The axes of the report are \<^verbatim>\<open>int8_t\<close>, words that are read with \<open>sint\<close>.
\<close>

section \<open>Model\<close>

definition MOUSEKEY_MOVE_MAX :: nat where "MOUSEKEY_MOVE_MAX = 127"
definition MOUSEKEY_WHEEL_MAX :: nat where "MOUSEKEY_WHEEL_MAX = 127"
definition MOUSEKEY_MOVE_DELTA :: nat where "MOUSEKEY_MOVE_DELTA = 8"
definition MOUSEKEY_WHEEL_DELTA :: nat where "MOUSEKEY_WHEEL_DELTA = 1"

record mousekey =
  mouse_report :: report_mouse_t
  mousekey_accel :: u8
  mousekey_repeat :: u8
  mousekey_wheel_repeat :: u8
  last_timer_c :: u16
  last_timer_w :: u16
  mk_delay :: u8
  mk_interval :: u8
  mk_max_speed :: u8
  mk_time_to_max :: u8
  mk_wheel_delay :: u8
  mk_wheel_interval :: u8
  mk_wheel_max_speed :: u8
  mk_wheel_time_to_max :: u8
  mouse_sent :: "report_mouse_t list"

text \<open>Division in C rounds towards zero.\<close>

definition times_inv_sqrt2 :: "u8 \<Rightarrow> u8" where
  "times_inv_sqrt2 x = (let n = sint x * 181 in word_of_int (if n < 0 then - ((128 - n) div 256) else (n + 128) div 256))"

definition speed_unit :: "nat \<Rightarrow> nat \<Rightarrow> u8 \<Rightarrow> u8 \<Rightarrow> u8 \<Rightarrow> u8 \<Rightarrow> u8" where
  "speed_unit delta limit accel max_speed time_to_max rep =
     (let unit = word_of_nat
            (if accel AND 1 \<noteq> 0 then delta * unat max_speed div 4
             else if accel AND 2 \<noteq> 0 then delta * unat max_speed div 2
             else if accel AND 4 \<noteq> 0 then delta * unat max_speed
             else if rep = 0 then delta
             else if time_to_max \<le> rep then delta * unat max_speed
             else delta * unat max_speed * unat rep div unat time_to_max) :: u16
      in word_of_nat (if limit < unat unit then limit else if unit = 0 then 1 else unat unit))"

definition move_unit :: "mousekey \<Rightarrow> u8" where
  "move_unit s = speed_unit MOUSEKEY_MOVE_DELTA MOUSEKEY_MOVE_MAX (mousekey_accel s) (mk_max_speed s) (mk_time_to_max s) (mousekey_repeat s)"

definition wheel_unit :: "mousekey \<Rightarrow> u8" where
  "wheel_unit s = speed_unit MOUSEKEY_WHEEL_DELTA MOUSEKEY_WHEEL_MAX (mousekey_accel s) (mk_wheel_max_speed s) (mk_wheel_time_to_max s) (mousekey_wheel_repeat s)"

definition mousekey_send :: "u16 \<Rightarrow> mousekey \<Rightarrow> mousekey" where
  "mousekey_send now s =
     (let r = mouse_report s;
          s = (if mouse_x r \<noteq> 0 \<or> mouse_y r \<noteq> 0 then s\<lparr>last_timer_c := now\<rparr> else s);
          s = (if mouse_v r \<noteq> 0 \<or> mouse_h r \<noteq> 0 then s\<lparr>last_timer_w := now\<rparr> else s)
      in s\<lparr>mouse_sent := mouse_sent s @ [r]\<rparr>)"

definition has_mouse_report_changed :: "report_mouse_t \<Rightarrow> report_mouse_t \<Rightarrow> bool" where
  "has_mouse_report_changed new old \<longleftrightarrow> mouse_buttons new \<noteq> mouse_buttons old \<or> mouse_x new \<noteq> 0 \<and> mouse_x new \<noteq> mouse_x old \<or>
     mouse_y new \<noteq> 0 \<and> mouse_y new \<noteq> mouse_y old \<or> mouse_h new \<noteq> 0 \<and> mouse_h new \<noteq> mouse_h old \<or> mouse_v new \<noteq> 0 \<and> mouse_v new \<noteq> mouse_v old"

definition should_mousekey_report_send :: "report_mouse_t \<Rightarrow> bool" where
  "should_mousekey_report_send r \<longleftrightarrow> mouse_x r \<noteq> 0 \<or> mouse_y r \<noteq> 0 \<or> mouse_v r \<noteq> 0 \<or> mouse_h r \<noteq> 0"

text \<open>\<^verbatim>\<open>unit * (sign > 0 ? 1 : -1)\<close>, and the correction of a diagonal movement.\<close>

definition directed :: "u8 \<Rightarrow> u8 \<Rightarrow> u8" where
  "directed unit old = (if old = 0 then 0 else if 0 < sint old then unit else - unit)"

definition diagonal :: "u8 \<times> u8 \<Rightarrow> u8 \<times> u8" where
  "diagonal = (\<lambda>(a, b).
     if a \<noteq> 0 \<and> b \<noteq> 0 then
       let a = times_inv_sqrt2 a; a = (if a = 0 then 1 else a); b = times_inv_sqrt2 b; b = (if b = 0 then 1 else b) in (a, b)
     else (a, b))"

text \<open>The two halves of the task, for the cursor and for the wheel; \<open>tmpmr\<close> is the saved report.\<close>

definition cursor_step :: "u16 \<Rightarrow> report_mouse_t \<Rightarrow> mousekey \<Rightarrow> report_mouse_t \<Rightarrow> mousekey \<times> report_mouse_t" where
  "cursor_step tc tmpmr s r =
     (if (mouse_x tmpmr \<noteq> 0 \<or> mouse_y tmpmr \<noteq> 0) \<and>
         (if mousekey_repeat s \<noteq> 0 then unat (mk_interval s) else unat (mk_delay s) * 10) < unat (TIMER_DIFF_16 tc (last_timer_c s)) then
        let s = (if mousekey_repeat s \<noteq> 255 then s\<lparr>mousekey_repeat := mousekey_repeat s + 1\<rparr> else s);
            (x, y) = diagonal (directed (move_unit s) (mouse_x tmpmr), directed (move_unit s) (mouse_y tmpmr))
        in (s, r\<lparr>mouse_x := x, mouse_y := y\<rparr>)
      else (s, r))"

definition wheel_step :: "u16 \<Rightarrow> report_mouse_t \<Rightarrow> mousekey \<Rightarrow> report_mouse_t \<Rightarrow> mousekey \<times> report_mouse_t" where
  "wheel_step tw tmpmr s r =
     (if (mouse_v tmpmr \<noteq> 0 \<or> mouse_h tmpmr \<noteq> 0) \<and>
         (if mousekey_wheel_repeat s \<noteq> 0 then unat (mk_wheel_interval s) else unat (mk_wheel_delay s) * 10) < unat (TIMER_DIFF_16 tw (last_timer_w s)) then
        let s = (if mousekey_wheel_repeat s \<noteq> 255 then s\<lparr>mousekey_wheel_repeat := mousekey_wheel_repeat s + 1\<rparr> else s);
            (v, h) = diagonal (directed (wheel_unit s) (mouse_v tmpmr), directed (wheel_unit s) (mouse_h tmpmr))
        in (s, r\<lparr>mouse_v := v, mouse_h := h\<rparr>)
      else (s, r))"

text \<open>The timer is read for the cursor, for the wheel, and when the report is sent.\<close>

definition mousekey_task :: "u16 \<Rightarrow> u16 \<Rightarrow> u16 \<Rightarrow> mousekey \<Rightarrow> mousekey" where
  "mousekey_task tc tw ts s =
     (let tmpmr = mouse_report s;
          (s, r) = cursor_step tc tmpmr s (tmpmr\<lparr>mouse_x := 0, mouse_y := 0, mouse_v := 0, mouse_h := 0\<rparr>);
          (s, r) = wheel_step tw tmpmr s r;
          s = s\<lparr>mouse_report := r\<rparr>;
          s = (if has_mouse_report_changed r tmpmr \<or> should_mousekey_report_send r then mousekey_send ts s else s)
      in s\<lparr>mouse_report := tmpmr\<rparr>)"

definition mousekey_on :: "u8 \<Rightarrow> mousekey \<Rightarrow> mousekey" where
  "mousekey_on code s =
     (let r = mouse_report s;
          s = (if mouse_x r \<noteq> 0 \<or> mouse_y r \<noteq> 0 \<or> mouse_h r \<noteq> 0 \<or> mouse_v r \<noteq> 0
               then s\<lparr>mousekey_repeat := word_of_nat MOUSEKEY_MOVE_DELTA, mousekey_wheel_repeat := word_of_nat MOUSEKEY_WHEEL_DELTA\<rparr> else s)
      in if code = 0xCD then s\<lparr>mouse_report := r\<lparr>mouse_y := - move_unit s\<rparr>\<rparr>
         else if code = 0xCE then s\<lparr>mouse_report := r\<lparr>mouse_y := move_unit s\<rparr>\<rparr>
         else if code = 0xCF then s\<lparr>mouse_report := r\<lparr>mouse_x := - move_unit s\<rparr>\<rparr>
         else if code = 0xD0 then s\<lparr>mouse_report := r\<lparr>mouse_x := move_unit s\<rparr>\<rparr>
         else if code = 0xD9 then s\<lparr>mouse_report := r\<lparr>mouse_v := wheel_unit s\<rparr>\<rparr>
         else if code = 0xDA then s\<lparr>mouse_report := r\<lparr>mouse_v := - wheel_unit s\<rparr>\<rparr>
         else if code = 0xDB then s\<lparr>mouse_report := r\<lparr>mouse_h := - wheel_unit s\<rparr>\<rparr>
         else if code = 0xDC then s\<lparr>mouse_report := r\<lparr>mouse_h := wheel_unit s\<rparr>\<rparr>
         else if 0xD1 \<le> code \<and> code \<le> 0xD8 then s\<lparr>mouse_report := r\<lparr>mouse_buttons := mouse_buttons r OR push_bit (unat (code - 0xD1)) 1\<rparr>\<rparr>
         else if code = 0xDD then s\<lparr>mousekey_accel := mousekey_accel s OR 1\<rparr>
         else if code = 0xDE then s\<lparr>mousekey_accel := mousekey_accel s OR 2\<rparr>
         else if code = 0xDF then s\<lparr>mousekey_accel := mousekey_accel s OR 4\<rparr>
         else s)"

definition mousekey_off :: "u8 \<Rightarrow> mousekey \<Rightarrow> mousekey" where
  "mousekey_off code s =
     (let r = mouse_report s;
          s = (if code = 0xCD \<and> sint (mouse_y r) < 0 then s\<lparr>mouse_report := r\<lparr>mouse_y := 0\<rparr>\<rparr>
               else if code = 0xCE \<and> 0 < sint (mouse_y r) then s\<lparr>mouse_report := r\<lparr>mouse_y := 0\<rparr>\<rparr>
               else if code = 0xCF \<and> sint (mouse_x r) < 0 then s\<lparr>mouse_report := r\<lparr>mouse_x := 0\<rparr>\<rparr>
               else if code = 0xD0 \<and> 0 < sint (mouse_x r) then s\<lparr>mouse_report := r\<lparr>mouse_x := 0\<rparr>\<rparr>
               else if code = 0xD9 \<and> 0 < sint (mouse_v r) then s\<lparr>mouse_report := r\<lparr>mouse_v := 0\<rparr>\<rparr>
               else if code = 0xDA \<and> sint (mouse_v r) < 0 then s\<lparr>mouse_report := r\<lparr>mouse_v := 0\<rparr>\<rparr>
               else if code = 0xDB \<and> sint (mouse_h r) < 0 then s\<lparr>mouse_report := r\<lparr>mouse_h := 0\<rparr>\<rparr>
               else if code = 0xDC \<and> 0 < sint (mouse_h r) then s\<lparr>mouse_report := r\<lparr>mouse_h := 0\<rparr>\<rparr>
               else if 0xD1 \<le> code \<and> code \<le> 0xD8 then s\<lparr>mouse_report := r\<lparr>mouse_buttons := mouse_buttons r AND NOT (push_bit (unat (code - 0xD1)) 1)\<rparr>\<rparr>
               else if code = 0xDD then s\<lparr>mousekey_accel := mousekey_accel s AND NOT 1\<rparr>
               else if code = 0xDE then s\<lparr>mousekey_accel := mousekey_accel s AND NOT 2\<rparr>
               else if code = 0xDF then s\<lparr>mousekey_accel := mousekey_accel s AND NOT 4\<rparr>
               else s);
          s = (if mouse_x (mouse_report s) = 0 \<and> mouse_y (mouse_report s) = 0 then s\<lparr>mousekey_repeat := 0\<rparr> else s)
      in if mouse_v (mouse_report s) = 0 \<and> mouse_h (mouse_report s) = 0 then s\<lparr>mousekey_wheel_repeat := 0\<rparr> else s)"

definition mousekey_clear :: "mousekey \<Rightarrow> mousekey" where
  "mousekey_clear s = s\<lparr>mouse_report := \<lparr>mouse_buttons = 0, mouse_x = 0, mouse_y = 0, mouse_v = 0, mouse_h = 0\<rparr>, mousekey_repeat := 0, mousekey_wheel_repeat := 0, mousekey_accel := 0\<rparr>"

section \<open>Speeds\<close>

text \<open>A step of the cursor or the wheel is between 1 and the limit.\<close>

definition mouse_step :: "u8 \<Rightarrow> bool" where
  "mouse_step u \<longleftrightarrow> 1 \<le> unat u \<and> unat u \<le> 127"

lemma clamped_step:
  assumes "0 < limit" and "limit \<le> 127"
  shows "mouse_step (word_of_nat (if limit < unat (u :: u16) then limit else if u = 0 then 1 else unat u))"
proof -
  have "unat u \<noteq> 0" if "u \<noteq> 0"
    using that by (simp add: unat_eq_zero)
  then show ?thesis
    using assms by (auto simp: mouse_step_def unat_of_nat)
qed

lemma units [simp]: "mouse_step (move_unit s)" "mouse_step (wheel_unit s)"
  unfolding move_unit_def wheel_unit_def speed_unit_def Let_def
  by (rule clamped_step; simp add: MOUSEKEY_MOVE_MAX_def MOUSEKEY_WHEEL_MAX_def)+

section \<open>Signs\<close>

definition axis_ok :: "u8 \<Rightarrow> bool" where
  "axis_ok x \<longleftrightarrow> \<bar>sint x\<bar> \<le> 127"

lemma sint_small: "\<bar>n\<bar> \<le> 127 \<Longrightarrow> sint (word_of_int n :: u8) = n"
  by transfer (simp add: signed_take_bit_int_eq_self)

lemma step_uint: "mouse_step u \<Longrightarrow> 1 \<le> uint u \<and> uint u \<le> 127"
  unfolding mouse_step_def unat_eq_nat_uint by linarith

lemma step_sint:
  assumes "mouse_step u"
  shows "sint u = uint u" "sint (- u) = - uint u"
proof -
  have "- u = word_of_int (- uint u)"
    by simp
  then show "sint u = uint u" "sint (- u) = - uint u"
    using step_uint [OF assms] sint_small [of "uint u"] sint_small [of "- uint u"] by simp_all
qed

lemma step_axis:
  "mouse_step u \<Longrightarrow> axis_ok u \<and> sgn (sint u) = 1 \<and> axis_ok (- u) \<and> sgn (sint (- u)) = -1"
proof -
  assume u: "mouse_step u"
  obtain k where k: "k = uint u"
    by simp
  have "sint u = k" "sint (- u) = - k" "1 \<le> k" "k \<le> 127"
    using step_sint [OF u] step_uint [OF u] k by simp_all
  then show ?thesis
    by (simp add: axis_ok_def)
qed

lemma axis_zero [simp]: "axis_ok 0"
  by (simp add: axis_ok_def)

lemma axis_nonzero: "x \<noteq> 0 \<longleftrightarrow> sint x \<noteq> 0" for x :: u8
  by (simp add: signed_eq_0_iff)

lemma directed_axis:
  assumes "mouse_step u"
  shows "axis_ok (directed u x) \<and> sgn (sint (directed u x)) = sgn (sint x)"
proof -
  consider "sint x = 0" | "0 < sint x" | "sint x < 0"
    by linarith
  then show ?thesis
    using step_axis [OF assms] axis_nonzero [of x] by cases (simp_all add: directed_def)
qed

lemma inv_sqrt2_axis:
  assumes "axis_ok x" and "x \<noteq> 0"
  shows "axis_ok (times_inv_sqrt2 x) \<and> sgn (sint (times_inv_sqrt2 x)) = sgn (sint x) \<and> times_inv_sqrt2 x \<noteq> 0"
proof -
  obtain a where a: "a = sint x"
    by simp
  have r: "1 \<le> (b * 181 + 128) div 256 \<and> (b * 181 + 128) div 256 \<le> b" if "1 \<le> b" for b :: int
    using that by linarith
  have le: "\<bar>a\<bar> \<le> 127" "a \<noteq> 0"
    using assms a axis_nonzero [of x] by (simp_all add: axis_ok_def)
  show ?thesis
  proof (cases "a < 0")
    case True
    obtain q where q: "q = (- a * 181 + 128) div 256"
      by simp
    have b: "1 \<le> q" "q \<le> - a"
      using r [of "- a"] True by (simp_all add: q)
    have "times_inv_sqrt2 x = word_of_int (- q)"
      using True by (simp add: times_inv_sqrt2_def a [symmetric] Let_def q)
    then have "sint (times_inv_sqrt2 x) = - q"
      using sint_small [of "- q"] b le(1) by simp
    then show ?thesis
      using b le(1) True axis_nonzero [of "times_inv_sqrt2 x"] by (simp add: axis_ok_def a [symmetric])
  next
    case False
    obtain q where q: "q = (a * 181 + 128) div 256"
      by simp
    have b: "1 \<le> q" "q \<le> a"
      using r [of a] False le(2) by (simp_all add: q)
    have "times_inv_sqrt2 x = word_of_int q"
      using False by (simp add: times_inv_sqrt2_def a [symmetric] Let_def q)
    then have "sint (times_inv_sqrt2 x) = q"
      using sint_small [of q] b le(1) by simp
    then show ?thesis
      using b le(1) False axis_nonzero [of "times_inv_sqrt2 x"] by (simp add: axis_ok_def a [symmetric])
  qed
qed

lemma diagonal_axes:
  assumes "axis_ok a" and "axis_ok b" and "diagonal (a, b) = (a', b')"
  shows "axis_ok a' \<and> axis_ok b' \<and> sgn (sint a') = sgn (sint a) \<and> sgn (sint b') = sgn (sint b)"
  using assms inv_sqrt2_axis [of a] inv_sqrt2_axis [of b] by (auto simp: diagonal_def Let_def split: if_splits)

section \<open>The mouse follows the keys\<close>

datatype mouse_op = On u8 | Off u8 | Send u16 | Task u16 u16 u16 | Clear

fun run_mouse_op :: "mouse_op \<Rightarrow> mousekey \<Rightarrow> mousekey" where
  "run_mouse_op (On code) s = mousekey_on code s"
| "run_mouse_op (Off code) s = mousekey_off code s"
| "run_mouse_op (Send now) s = mousekey_send now s"
| "run_mouse_op (Task tc tw ts) s = mousekey_task tc tw ts s"
| "run_mouse_op Clear s = mousekey_clear s"

text \<open>The direction of an axis: that of the key pressed last, until this key is released.\<close>

fun axis_dir :: "u8 \<Rightarrow> u8 \<Rightarrow> mouse_op \<Rightarrow> int \<Rightarrow> int" where
  "axis_dir neg pos (On code) d = (if code = neg then -1 else if code = pos then 1 else d)"
| "axis_dir neg pos (Off code) d = (if code = neg \<and> d = -1 \<or> code = pos \<and> d = 1 then 0 else d)"
| "axis_dir neg pos Clear d = 0"
| "axis_dir neg pos _ d = d"

fun button_down :: "nat \<Rightarrow> mouse_op \<Rightarrow> bool \<Rightarrow> bool" where
  "button_down i (On code) b = (b \<or> code = 0xD1 + word_of_nat i)"
| "button_down i (Off code) b = (b \<and> code \<noteq> 0xD1 + word_of_nat i)"
| "button_down i Clear b = False"
| "button_down i _ b = b"

text \<open>Sign and range of the four axes of a report.\<close>

definition report_dirs :: "report_mouse_t \<Rightarrow> int \<times> int \<times> int \<times> int" where
  "report_dirs r = (sgn (sint (mouse_x r)), sgn (sint (mouse_y r)), sgn (sint (mouse_v r)), sgn (sint (mouse_h r)))"

definition report_ok :: "report_mouse_t \<Rightarrow> bool" where
  "report_ok r \<longleftrightarrow> axis_ok (mouse_x r) \<and> axis_ok (mouse_y r) \<and> axis_ok (mouse_v r) \<and> axis_ok (mouse_h r)"

definition dirs_step :: "mouse_op \<Rightarrow> int \<times> int \<times> int \<times> int \<Rightarrow> int \<times> int \<times> int \<times> int" where
  "dirs_step op = (\<lambda>(x, y, v, h). (axis_dir 0xCF 0xD0 op x, axis_dir 0xCD 0xCE op y, axis_dir 0xDA 0xD9 op v, axis_dir 0xDB 0xDC op h))"

lemma sgn_zero: "sgn (sint x) = 0 \<longleftrightarrow> x = 0" for x :: u8
  using axis_nonzero [of x] by (auto simp: sgn_if)

text \<open>What pressing and releasing a key do to the report.\<close>

definition on_report :: "u8 \<Rightarrow> u8 \<Rightarrow> u8 \<Rightarrow> report_mouse_t \<Rightarrow> report_mouse_t" where
  "on_report code u w r =
     \<lparr>mouse_buttons = (if 0xD1 \<le> code \<and> code \<le> 0xD8 then mouse_buttons r OR push_bit (unat (code - 0xD1)) 1 else mouse_buttons r),
      mouse_x = (if code = 0xCF then - u else if code = 0xD0 then u else mouse_x r), mouse_y = (if code = 0xCD then - u else if code = 0xCE then u else mouse_y r),
      mouse_v = (if code = 0xDA then - w else if code = 0xD9 then w else mouse_v r), mouse_h = (if code = 0xDB then - w else if code = 0xDC then w else mouse_h r)\<rparr>"

definition off_report :: "u8 \<Rightarrow> report_mouse_t \<Rightarrow> report_mouse_t" where
  "off_report code r =
     \<lparr>mouse_buttons = (if 0xD1 \<le> code \<and> code \<le> 0xD8 then mouse_buttons r AND NOT (push_bit (unat (code - 0xD1)) 1) else mouse_buttons r),
      mouse_x = (if code = 0xCF \<and> sint (mouse_x r) < 0 \<or> code = 0xD0 \<and> 0 < sint (mouse_x r) then 0 else mouse_x r),
      mouse_y = (if code = 0xCD \<and> sint (mouse_y r) < 0 \<or> code = 0xCE \<and> 0 < sint (mouse_y r) then 0 else mouse_y r),
      mouse_v = (if code = 0xDA \<and> sint (mouse_v r) < 0 \<or> code = 0xD9 \<and> 0 < sint (mouse_v r) then 0 else mouse_v r),
      mouse_h = (if code = 0xDB \<and> sint (mouse_h r) < 0 \<or> code = 0xDC \<and> 0 < sint (mouse_h r) then 0 else mouse_h r)\<rparr>"

lemma mouse_codes:
  obtains "code = 0xCD" | "code = 0xCE" | "code = 0xCF" | "code = 0xD0" | "code = 0xD9" | "code = 0xDA" | "code = 0xDB" | "code = (0xDC :: u8)" | "0xD1 \<le> code" "code \<le> 0xD8"
  | "code \<notin> {0xCD, 0xCE, 0xCF, 0xD0, 0xD9, 0xDA, 0xDB, 0xDC}" "code < 0xD1" | "code \<notin> {0xCD, 0xCE, 0xCF, 0xD0, 0xD9, 0xDA, 0xDB, 0xDC}" "0xD8 < code"
  unfolding not_le [symmetric] by blast

lemma button_code: "0xD1 \<le> code \<Longrightarrow> code \<le> 0xD8 \<Longrightarrow> code \<notin> {0xCD, 0xCE, 0xCF, 0xD0, 0xD9, 0xDA, 0xDB, 0xDC :: u8}"
  by auto

lemma on_report: "\<exists>u w. mouse_step u \<and> mouse_step w \<and> mouse_report (mousekey_on code s) = on_report code u w (mouse_report s)"
proof -
  let ?r = "mouse_report s"
  let ?s = "if mouse_x ?r \<noteq> 0 \<or> mouse_y ?r \<noteq> 0 \<or> mouse_h ?r \<noteq> 0 \<or> mouse_v ?r \<noteq> 0
      then s\<lparr>mousekey_repeat := word_of_nat MOUSEKEY_MOVE_DELTA, mousekey_wheel_repeat := word_of_nat MOUSEKEY_WHEEL_DELTA\<rparr> else s"
  obtain t where t: "t = ?s"
    by simp
  have r: "mouse_report t = ?r"
    by (simp add: t)
  have "mouse_report (mousekey_on code s) = on_report code (move_unit t) (wheel_unit t) ?r"
    unfolding mousekey_on_def Let_def t [symmetric] on_report_def
    by (cases rule: mouse_codes [of code]) (use button_code [of code] in \<open>simp_all add: r\<close>)
  then show ?thesis
    using units by blast
qed

lemma off_report: "mouse_report (mousekey_off code s) = off_report code (mouse_report s)"
  unfolding mousekey_off_def Let_def off_report_def
  by (cases rule: mouse_codes [of code]) (use button_code [of code] in \<open>simp_all\<close>)

lemma on_dirs:
  assumes "report_ok r" and "mouse_step u" and "mouse_step w"
  shows "report_ok (on_report code u w r)" "report_dirs (on_report code u w r) = dirs_step (On code) (report_dirs r)"
  using assms step_axis [OF assms(2)] step_axis [OF assms(3)] by (simp_all add: on_report_def report_ok_def report_dirs_def dirs_step_def)

lemma sgn_cases: "sgn (sint x) = 1 \<longleftrightarrow> 0 < sint x" "sgn (sint x) = -1 \<longleftrightarrow> sint x < 0" for x :: u8
  by (auto simp: sgn_if)

lemma off_dirs:
  assumes "report_ok r"
  shows "report_ok (off_report code r)" "report_dirs (off_report code r) = dirs_step (Off code) (report_dirs r)"
  using assms by (simp_all add: off_report_def report_ok_def report_dirs_def dirs_step_def sgn_cases)

lemma button_bit:
  fixes code :: u8
  assumes "i < 8" and "0xD1 \<le> code" and "code \<le> 0xD8"
  shows "unat (code - 0xD1) = i \<longleftrightarrow> code = 0xD1 + word_of_nat i"
proof -
  have "unat (code - 0xD1) = i \<longleftrightarrow> code - 0xD1 = word_of_nat i"
    using assms(1) by (auto simp: word_unat_eq_iff unat_of_nat)
  then show ?thesis
    by (simp add: algebra_simps)
qed

lemma no_button:
  fixes code :: u8
  assumes "i < 8" and "\<not> (0xD1 \<le> code \<and> code \<le> 0xD8)"
  shows "code \<noteq> 0xD1 + word_of_nat i"
proof -
  have "i \<in> {0, 1, 2, 3, 4, 5, 6, 7}"
    using assms(1) by auto
  then have "0xD1 \<le> (0xD1 + word_of_nat i :: u8) \<and> (0xD1 + word_of_nat i :: u8) \<le> 0xD8"
    by (elim insertE) simp_all
  then show ?thesis
    using assms(2) by auto
qed

lemma report_button:
  assumes "i < 8"
  shows "bit (mouse_buttons (on_report code u w r)) i = button_down i (On code) (bit (mouse_buttons r) i)"
    "bit (mouse_buttons (off_report code r)) i = button_down i (Off code) (bit (mouse_buttons r) i)"
  using button_bit [OF assms, of code] no_button [OF assms, of code] assms
  by (cases "0xD1 \<le> code \<and> code \<le> 0xD8"; auto simp: on_report_def off_report_def bit_simps)+

lemma send_report_kept [simp]: "mouse_report (mousekey_send now s) = mouse_report s" "mouse_sent (mousekey_send now s) = mouse_sent s @ [mouse_report s]"
  by (simp_all add: mousekey_send_def Let_def)

lemma on_off_sent [simp]: "mouse_sent (mousekey_on code s) = mouse_sent s" "mouse_sent (mousekey_off code s) = mouse_sent s"
  by (simp_all add: mousekey_on_def mousekey_off_def Let_def)

definition cursor_due :: "u16 \<Rightarrow> mousekey \<Rightarrow> bool" where
  "cursor_due tc s \<longleftrightarrow> (mouse_x (mouse_report s) \<noteq> 0 \<or> mouse_y (mouse_report s) \<noteq> 0) \<and>
     (if mousekey_repeat s \<noteq> 0 then unat (mk_interval s) else unat (mk_delay s) * 10) < unat (TIMER_DIFF_16 tc (last_timer_c s))"

definition wheel_due :: "u16 \<Rightarrow> mousekey \<Rightarrow> bool" where
  "wheel_due tw s \<longleftrightarrow> (mouse_v (mouse_report s) \<noteq> 0 \<or> mouse_h (mouse_report s) \<noteq> 0) \<and>
     (if mousekey_wheel_repeat s \<noteq> 0 then unat (mk_wheel_interval s) else unat (mk_wheel_delay s) * 10) < unat (TIMER_DIFF_16 tw (last_timer_w s))"

definition task_report :: "u8 \<times> u8 \<Rightarrow> u8 \<times> u8 \<Rightarrow> report_mouse_t \<Rightarrow> report_mouse_t" where
  "task_report c w r = \<lparr>mouse_buttons = mouse_buttons r, mouse_x = fst c, mouse_y = snd c, mouse_v = fst w, mouse_h = snd w\<rparr>"

lemma changed_sends: "mouse_buttons r = mouse_buttons old \<Longrightarrow> has_mouse_report_changed r old \<Longrightarrow> should_mousekey_report_send r"
  by (auto simp: has_mouse_report_changed_def should_mousekey_report_send_def)

lemma cursor_step_report:
  "\<exists>u s'. mouse_step u \<and> wheel_due tw s' = wheel_due tw s \<and> mouse_report s' = mouse_report s \<and> mouse_sent s' = mouse_sent s \<and>
     cursor_step tc (mouse_report s) s r =
       (s', let (x, y) = (if cursor_due tc s then diagonal (directed u (mouse_x (mouse_report s)), directed u (mouse_y (mouse_report s))) else (mouse_x r, mouse_y r))
            in r\<lparr>mouse_x := x, mouse_y := y\<rparr>)"
proof (cases "cursor_due tc s")
  case True
  obtain s' where s': "s' = (if mousekey_repeat s \<noteq> 255 then s\<lparr>mousekey_repeat := mousekey_repeat s + 1\<rparr> else s)"
    by simp
  show ?thesis
    using True units(1) [of s'] unfolding cursor_step_def Let_def cursor_due_def [symmetric] s' [symmetric]
    by (intro exI [of _ "move_unit s'"] exI [of _ s']) (simp add: case_prod_unfold, simp add: s' wheel_due_def)
next
  case False
  then show ?thesis
    using units(1) [of s] unfolding cursor_step_def Let_def cursor_due_def [symmetric] by (intro exI [of _ "move_unit s"] exI [of _ s]) simp
qed

lemma wheel_step_report:
  "\<exists>u s'. mouse_step u \<and> mouse_report s' = mouse_report s \<and> mouse_sent s' = mouse_sent s \<and>
     wheel_step tw (mouse_report s) s r =
       (s', let (v, h) = (if wheel_due tw s then diagonal (directed u (mouse_v (mouse_report s)), directed u (mouse_h (mouse_report s))) else (mouse_v r, mouse_h r))
            in r\<lparr>mouse_v := v, mouse_h := h\<rparr>)"
proof (cases "wheel_due tw s")
  case True
  obtain s' where s': "s' = (if mousekey_wheel_repeat s \<noteq> 255 then s\<lparr>mousekey_wheel_repeat := mousekey_wheel_repeat s + 1\<rparr> else s)"
    by simp
  show ?thesis
    using True units(2) [of s'] unfolding wheel_step_def Let_def wheel_due_def [symmetric] s' [symmetric]
    by (intro exI [of _ "wheel_unit s'"] exI [of _ s']) (simp add: case_prod_unfold, simp add: s')
next
  case False
  then show ?thesis
    using units(2) [of s] unfolding wheel_step_def Let_def wheel_due_def [symmetric] by (intro exI [of _ "wheel_unit s"] exI [of _ s]) simp
qed

lemma task_sends:
  "\<exists>u w r. mouse_step u \<and> mouse_step w \<and>
     r = task_report (if cursor_due tc s then diagonal (directed u (mouse_x (mouse_report s)), directed u (mouse_y (mouse_report s))) else (0, 0))
           (if wheel_due tw s then diagonal (directed w (mouse_v (mouse_report s)), directed w (mouse_h (mouse_report s))) else (0, 0)) (mouse_report s) \<and>
     mouse_report (mousekey_task tc tw ts s) = mouse_report s \<and>
     mouse_sent (mousekey_task tc tw ts s) = mouse_sent s @ (if should_mousekey_report_send r then [r] else [])"
proof -
  let ?m = "mouse_report s"
  let ?z = "?m\<lparr>mouse_x := 0, mouse_y := 0, mouse_v := 0, mouse_h := 0\<rparr>"
  obtain u s1 where s1: "mouse_step u" "wheel_due tw s1 = wheel_due tw s" "mouse_report s1 = ?m" "mouse_sent s1 = mouse_sent s"
      "cursor_step tc ?m s ?z = (s1, let (x, y) = (if cursor_due tc s then diagonal (directed u (mouse_x ?m), directed u (mouse_y ?m)) else (mouse_x ?z, mouse_y ?z))
            in ?z\<lparr>mouse_x := x, mouse_y := y\<rparr>)"
    using cursor_step_report by blast
  obtain r1 where r1: "r1 = (let (x, y) = (if cursor_due tc s then diagonal (directed u (mouse_x ?m), directed u (mouse_y ?m)) else (mouse_x ?z, mouse_y ?z))
      in ?z\<lparr>mouse_x := x, mouse_y := y\<rparr>)"
    by simp
  obtain w s2 where s2: "mouse_step w" "mouse_report s2 = mouse_report s1" "mouse_sent s2 = mouse_sent s1"
      "wheel_step tw (mouse_report s1) s1 r1 =
        (s2, let (v, h) = (if wheel_due tw s1 then diagonal (directed w (mouse_v (mouse_report s1)), directed w (mouse_h (mouse_report s1))) else (mouse_v r1, mouse_h r1))
            in r1\<lparr>mouse_v := v, mouse_h := h\<rparr>)"
    using wheel_step_report by blast
  obtain r where r: "r = task_report (if cursor_due tc s then diagonal (directed u (mouse_x ?m), directed u (mouse_y ?m)) else (0, 0))
           (if wheel_due tw s then diagonal (directed w (mouse_v ?m), directed w (mouse_h ?m)) else (0, 0)) ?m"
    by simp
  have c: "cursor_step tc ?m s ?z = (s1, r1)"
    using s1(5) r1 by simp
  have w: "wheel_step tw ?m s1 r1 = (s2, r)"
    using s2(4) by (simp add: s1(2,3) r r1 task_report_def case_prod_unfold Let_def)
  have ch: "has_mouse_report_changed r ?m \<Longrightarrow> should_mousekey_report_send r"
    by (rule changed_sends) (simp_all add: r task_report_def)
  have "mousekey_task tc tw ts s = (if has_mouse_report_changed r ?m \<or> should_mousekey_report_send r then mousekey_send ts (s2\<lparr>mouse_report := r\<rparr>) else s2\<lparr>mouse_report := r\<rparr>)\<lparr>mouse_report := ?m\<rparr>"
    unfolding mousekey_task_def Let_def c prod.case w by (rule refl)
  then show ?thesis
    using ch s1(1,4) s2(1,3) r by (intro exI [of _ u] exI [of _ w] exI [of _ r]) auto
qed

lemma task_dirs:
  assumes "report_ok (mouse_report s)"
  shows "\<exists>r. mouse_report (mousekey_task tc tw ts s) = mouse_report s \<and>
    mouse_sent (mousekey_task tc tw ts s) = mouse_sent s @ (if cursor_due tc s \<or> wheel_due tw s then [r] else []) \<and> report_ok r \<and>
    mouse_buttons r = mouse_buttons (mouse_report s) \<and>
    report_dirs r = (let (x, y, v, h) = report_dirs (mouse_report s) in (if cursor_due tc s then x else 0, if cursor_due tc s then y else 0,
      if wheel_due tw s then v else 0, if wheel_due tw s then h else 0))"
proof -
  let ?r = "mouse_report s"
  obtain u w r where r: "mouse_step u" "mouse_step w"
      "r = task_report (if cursor_due tc s then diagonal (directed u (mouse_x ?r), directed u (mouse_y ?r)) else (0, 0))
         (if wheel_due tw s then diagonal (directed w (mouse_v ?r), directed w (mouse_h ?r)) else (0, 0)) ?r"
      "mouse_report (mousekey_task tc tw ts s) = ?r" "mouse_sent (mousekey_task tc tw ts s) = mouse_sent s @ (if should_mousekey_report_send r then [r] else [])"
    using task_sends by blast
  obtain x y where xy: "diagonal (directed u (mouse_x ?r), directed u (mouse_y ?r)) = (x, y)"
    by (rule prod.exhaust)
  obtain v h where vh: "diagonal (directed w (mouse_v ?r), directed w (mouse_h ?r)) = (v, h)"
    by (rule prod.exhaust)
  have a: "axis_ok x \<and> axis_ok y \<and> sgn (sint x) = sgn (sint (mouse_x ?r)) \<and> sgn (sint y) = sgn (sint (mouse_y ?r))"
    using diagonal_axes [OF _ _ xy] directed_axis [OF r(1)] by simp
  have b: "axis_ok v \<and> axis_ok h \<and> sgn (sint v) = sgn (sint (mouse_v ?r)) \<and> sgn (sint h) = sgn (sint (mouse_h ?r))"
    using diagonal_axes [OF _ _ vh] directed_axis [OF r(2)] by simp
  have nz: "x = 0 \<longleftrightarrow> mouse_x ?r = 0" "y = 0 \<longleftrightarrow> mouse_y ?r = 0" "v = 0 \<longleftrightarrow> mouse_v ?r = 0" "h = 0 \<longleftrightarrow> mouse_h ?r = 0"
    using a b by (metis sgn_zero)+
  have "should_mousekey_report_send r \<longleftrightarrow> cursor_due tc s \<or> wheel_due tw s"
    unfolding r(3) xy vh using nz
    by (cases "cursor_due tc s"; cases "wheel_due tw s") (simp_all add: should_mousekey_report_send_def task_report_def, simp_all add: cursor_due_def wheel_due_def)
  moreover have "report_ok r" "mouse_buttons r = mouse_buttons ?r"
    unfolding r(3) xy vh using a b by (simp_all add: report_ok_def task_report_def)
  moreover have "report_dirs r = (let (x, y, v, h) = report_dirs ?r in (if cursor_due tc s then x else 0, if cursor_due tc s then y else 0,
      if wheel_due tw s then v else 0, if wheel_due tw s then h else 0))"
    unfolding r(3) xy vh using a b by (simp add: report_dirs_def task_report_def)
  ultimately show ?thesis
    using r(4,5) by auto
qed

definition mouse_inv :: "int \<times> int \<times> int \<times> int \<Rightarrow> (nat \<Rightarrow> bool) \<Rightarrow> mousekey \<Rightarrow> bool" where
  "mouse_inv d B s \<longleftrightarrow> report_ok (mouse_report s) \<and> report_dirs (mouse_report s) = d \<and> (\<forall>i<8. bit (mouse_buttons (mouse_report s)) i = B i) \<and>
     (\<forall>r\<in>set (mouse_sent s). report_ok r)"

lemma mouse_op_inv:
  assumes "mouse_inv d B s"
  shows "mouse_inv (dirs_step op d) (\<lambda>i. button_down i op (B i)) (run_mouse_op op s)"
proof (cases op)
  case (On code)
  obtain u w where "mouse_step u" "mouse_step w" "mouse_report (mousekey_on code s) = on_report code u w (mouse_report s)"
    using on_report by blast
  then show ?thesis
    using assms on_dirs report_button(1) by (simp add: On mouse_inv_def del: button_down.simps)
next
  case (Off code)
  then show ?thesis
    using assms off_dirs report_button(2) by (simp add: mouse_inv_def off_report del: button_down.simps)
next
  case (Send now)
  then show ?thesis
    using assms by (cases d) (simp add: mouse_inv_def dirs_step_def)
next
  case (Task tc tw ts)
  then show ?thesis
    using assms task_dirs [of s tc tw ts] by (cases d) (auto simp: mouse_inv_def dirs_step_def split: if_splits)
next
  case Clear
  then show ?thesis
    using assms by (cases d) (simp add: mouse_inv_def dirs_step_def mousekey_clear_def report_ok_def report_dirs_def)
qed

lemma mouse_ops_inv:
  assumes "mouse_inv d B s"
  shows "mouse_inv (fold dirs_step ops d) (\<lambda>i. fold (button_down i) ops (B i)) (fold run_mouse_op ops s)"
  using assms
proof (induction ops arbitrary: d B s)
  case (Cons op ops)
  from Cons.IH [OF mouse_op_inv [OF Cons.prems, of op]] show ?case
    by simp
qed simp

text \<open>C19: Over every sequence of presses and releases of mouse keys, transmissions, tasks at whatever times and clears: each axis of the report moves in the direction of the key pressed
  last as long as this key is not released, the buttons are those held, and no report ever moves further than 127 in one step. When the time has come, a task sends one report
  with exactly these directions; a task before that sends nothing.\<close>

theorem mouse_follows_keys:
  assumes "mouse_sent s0 = []" and "s = fold run_mouse_op ops (mousekey_clear s0)" and "d = fold dirs_step ops (0, 0, 0, 0)"
  shows "report_dirs (mouse_report s) = d \<and> (\<forall>i<8. bit (mouse_buttons (mouse_report s)) i = fold (button_down i) ops False) \<and> (\<forall>r\<in>set (mouse_sent s). report_ok r) \<and>
    (\<exists>r. mouse_sent (mousekey_task tc tw ts s) = mouse_sent s @ (if cursor_due tc s \<or> wheel_due tw s then [r] else []) \<and> report_ok r \<and>
      mouse_buttons r = mouse_buttons (mouse_report s) \<and>
      report_dirs r = (let (x, y, v, h) = d in (if cursor_due tc s then x else 0, if cursor_due tc s then y else 0, if wheel_due tw s then v else 0, if wheel_due tw s then h else 0)))"
proof -
  have "mouse_inv (0, 0, 0, 0) (\<lambda>_. False) (mousekey_clear s0)"
    using assms(1) by (simp add: mouse_inv_def mousekey_clear_def report_ok_def report_dirs_def)
  then have inv: "mouse_inv d (\<lambda>i. fold (button_down i) ops False) s"
    unfolding assms(2,3) by (rule mouse_ops_inv)
  then show ?thesis
    using task_dirs [of s tc tw ts] unfolding mouse_inv_def by auto
qed

definition mouse_boot :: mousekey where
  "mouse_boot = \<lparr>mouse_report = \<lparr>mouse_buttons = 7, mouse_x = 1, mouse_y = 0, mouse_v = 0, mouse_h = 0\<rparr>, mousekey_accel = 0, mousekey_repeat = 0, mousekey_wheel_repeat = 0,
     last_timer_c = 0, last_timer_w = 0, mk_delay = 1, mk_interval = 20, mk_max_speed = 10, mk_time_to_max = 30, mk_wheel_delay = 1, mk_wheel_interval = 80,
     mk_wheel_max_speed = 8, mk_wheel_time_to_max = 40, mouse_sent = []\<rparr>"

theorem mouse_follows_keys_witness:
  "report_dirs (mouse_report (fold run_mouse_op [On 0xCF, On 0xD0, Send 7, On 0xD2, Off 0xCF, Task 8 8 8, On 0xCD, Off 0xCE] (mousekey_clear mouse_boot))) = (1, -1, 0, 0) \<and>
   bit (mouse_buttons (mouse_report (fold run_mouse_op [On 0xCF, On 0xD0, Send 7, On 0xD2, Off 0xCF, Task 8 8 8, On 0xCD, Off 0xCE] (mousekey_clear mouse_boot)))) 1"
proof -
  let ?ops = "[On 0xCF, On 0xD0, Send 7, On 0xD2, Off 0xCF, Task 8 8 8, On 0xCD, Off 0xCE]"
  have "mouse_sent mouse_boot = []"
    by (simp add: mouse_boot_def)
  note m = mouse_follows_keys [OF this refl refl, of ?ops]
  have "fold dirs_step ?ops (0, 0, 0, 0) = (1, -1, 0, 0)" "fold (button_down 1) ?ops False"
    by (simp_all add: dirs_step_def)
  then show ?thesis
    using m by simp
qed

end
