(* ===== verification/Spec2Isabelle.thy ===== *)
theory Spec2Isabelle
  imports Bitwise Debounce_Sym_Eager_Pk Debounce_Sym_Defer_Pk Debounce_Asym_Eager_Defer_Pk Debounce_Rows Action_Exec Wear_Leveling_Efl Wireless QMKata Via Keyboard Mousekey
begin

text \<open>
  \<^bold>\<open>The firmware.\<close> The repository is QMK with the Keychron keyboards and a host protocol, built here for the Keychron Q3 Max. A key press goes
  through these parts: the matrix is scanned (\<^verbatim>\<open>quantum/matrix.c\<close>) and debounced (\<^verbatim>\<open>quantum/debounce\<close>), changes become events (\<^verbatim>\<open>quantum/keyboard.c\<close>; the knob adds its own,
  \<^verbatim>\<open>quantum/encoder.c\<close>), taps and holds are decided (\<^verbatim>\<open>quantum/action_tapping.c\<close>), the key is looked up in the layers (\<^verbatim>\<open>quantum/action_layer.c\<close>) in a
  keymap kept in EEPROM (\<^verbatim>\<open>quantum/dynamic_keymap.c\<close>), its keycode is translated into an action (\<^verbatim>\<open>quantum/keymap_common.c\<close>), the action is executed
  (\<^verbatim>\<open>quantum/action.c\<close>), keycodes are put into a keyboard report (\<^verbatim>\<open>tmk_core/protocol/report.c\<close>), and the report is sent
  over USB or, by the host driver of \<^verbatim>\<open>keychron/common/wireless\<close>, buffered for the radio module. The EEPROM is emulated in flash
  (\<^verbatim>\<open>drivers/eeprom\<close>, \<^verbatim>\<open>quantum/wear_leveling\<close>). Programs on the PC reach into all of this by messages: VIA (\<^verbatim>\<open>quantum/via.c\<close>) and the host
  protocol (\<^verbatim>\<open>keychron/qmkata\<close>, \<^verbatim>\<open>q3_max/qmkata_sysex_handler.c\<close>).

  \<^bold>\<open>Theories.\<close> Each opens with the code it models; names are those of the source.

  \<^item> \<^verbatim>\<open>Prelude\<close>: word abbreviations, \<^verbatim>\<open>for\<close> loops (\<open>for_upto\<close>) with their invariant rules, copies between arrays.

  \<^item> \<^verbatim>\<open>Bitwise\<close> (\<^verbatim>\<open>quantum/bitwise.c\<close>): the nine functions at their widths, against bit-by-bit references.

  \<^item> \<^verbatim>\<open>Wear_Leveling\<close> (model of \<^verbatim>\<open>wear_leveling.c\<close> over a driver record), \<^verbatim>\<open>_Log\<close> (the log as a list of entries, encoding and decoding),
    \<^verbatim>\<open>_Store\<close> (locale \<open>backing_store_laws\<close>: what a driver promises), \<^verbatim>\<open>_Correct\<close> (refinement of a byte array under writes, erases and power
    cycles; the locale is interpreted on the driver of the repository's own tests for each write width), \<^verbatim>\<open>_Efl\<close> (the driver for the controller's flash: the
    sectors it finds, and that it is a lawful backing store, by a sublocale, on every flash that behaves as documented; data survives the loss of all variables).

  \<^item> \<^verbatim>\<open>Eeprom\<close> (\<^verbatim>\<open>eeprom_driver.c\<close>, \<^verbatim>\<open>eeprom_wear_leveling.c\<close>): locale \<open>eeprom_laws\<close>, which every lawful backing store gives by a sublocale.

  \<^item> \<^verbatim>\<open>Dynamic_Keymap\<close> (\<^verbatim>\<open>dynamic_keymap.c\<close>, parts of \<^verbatim>\<open>keymap_introspection.c\<close>): locale \<open>keymap_eeprom\<close> extends \<open>eeprom_laws\<close>; keycodes as a map
    from slots, the byte-buffer view, reset, macros.

  \<^item> \<^verbatim>\<open>Eeconfig\<close> (\<^verbatim>\<open>eeconfig.c\<close> and the EEPROM part of \<^verbatim>\<open>via.c\<close>): settings, initialization as a list of byte updates, so that what a power failure leaves behind can be stated;
    locales \<open>via_eeprom\<close> and \<open>erasable_eeprom\<close> extend \<open>keymap_eeprom\<close>. \<^verbatim>\<open>Rgb_Config\<close> (settings of \<^verbatim>\<open>rgb_matrix.c\<close>): every operation keeps them well-formed, and they survive a restart.

  \<^item> \<^verbatim>\<open>Via\<close> (\<^verbatim>\<open>via.c\<close>, \<^verbatim>\<open>keychron_common.c\<close>): every message of VIA and of Keychron's tool; locale \<open>via_device\<close>: which messages stay inside their buffer, what they answer.

  \<^item> \<^verbatim>\<open>Debounce\<close> and one theory per algorithm: \<open>Debounce_Sym_Eager_Pk\<close>, \<open>Debounce_Sym_Defer_Pk\<close>, \<open>Debounce_Asym_Eager_Defer_Pk\<close>, and \<open>Debounce_Rows\<close> for the
    row-wise and global ones; specifications per key over the history of samples.

  \<^item> \<^verbatim>\<open>Matrix\<close> (\<^verbatim>\<open>matrix.c\<close>, \<^verbatim>\<open>matrix_common.c\<close>): the scan of a matrix with diodes from rows to columns; locale \<open>key_matrix\<close>, the law of the wiring, interpreted on the
    pins of the keyboard. \<^verbatim>\<open>Encoder\<close> (\<^verbatim>\<open>encoder.c\<close>): the Gray-code decoder with its edge interrupt, against the position of the knob.

  \<^item> \<^verbatim>\<open>Rgb_Task\<close> (\<^verbatim>\<open>rgb_matrix.c\<close>): the last hits, the heat map with the square root it uses, and the state machine that draws a frame. \<^verbatim>\<open>Keyboard\<close> (\<^verbatim>\<open>matrix_task\<close> of
    \<^verbatim>\<open>keyboard.c\<close>): the events of a key are the transitions of its debounced switch, and the host knows what the firmware has in its report whatever switches and knob do.

  \<^item> \<^verbatim>\<open>Mousekey\<close> (\<^verbatim>\<open>mousekey.c\<close>): the mouse keys in their default mode: each axis follows the key pressed last, no step exceeds 127. \<^verbatim>\<open>Action\<close> only
    records the calls to it.

  \<^item> \<^verbatim>\<open>Tapping\<close> (\<^verbatim>\<open>action_tapping.c\<close>): the tap-or-hold state machine with its waiting buffer; no press is lost, taps and holds are told apart.

  \<^item> \<^verbatim>\<open>Report\<close> (\<^verbatim>\<open>report.c\<close>): 6-key and NKRO reports as sets of keys. \<^verbatim>\<open>Layers\<close> (\<^verbatim>\<open>action_layer.c\<close>): layer stack, source-layer cache.

  \<^item> \<^verbatim>\<open>Action_Util\<close> (\<^verbatim>\<open>action_util.c\<close>, sending in \<^verbatim>\<open>host.c\<close>): modifiers, one-shot modifiers and layers on top of the reports and the layers; what
    the host has got is what the firmware has in its report.

  \<^item> \<^verbatim>\<open>Keycodes\<close> (\<^verbatim>\<open>keymap_common.c\<close>, \<^verbatim>\<open>keycode_config.c\<close>, \<^verbatim>\<open>action_code.h\<close>): key swaps, the translation of keycodes into action codes and their fields.

  \<^item> \<^verbatim>\<open>Action\<close> (\<^verbatim>\<open>action.c\<close>): every kind of action, with the release that ends a one-shot layer as a recursive call; locale \<open>action_invariant\<close>, a contract that
    every function of the file keeps if the few primitive steps keep it, interpreted for what the host knows and for the layer a key was pressed on.

  \<^item> \<^verbatim>\<open>Action_Exec\<close> (\<^verbatim>\<open>action_exec\<close>): tapping on top of the real \<^verbatim>\<open>process_record\<close>; what the host sees of keys, mod-taps and one-shot layers.

  \<^item> \<^verbatim>\<open>Ring_Queue\<close>: locales \<open>queue\<close>, \<open>bounded_queue\<close>, \<open>overwriting_queue\<close>, the contracts of the two rings of the wireless code; interpreted in
    \<^verbatim>\<open>Report_Buffer\<close> (\<^verbatim>\<open>report_buffer.c\<close>) and \<^verbatim>\<open>Wireless\<close> (\<^verbatim>\<open>wireless.c\<close>: event queue, connection state machine, host driver).

  \<^item> \<^verbatim>\<open>QMKata\<close>: every message handler, the dispatcher, the LEDs lit by the host and the Mac/Windows switch.

  \<^item> This theory: properties that span components: a keycode written through the host protocol is in the keymap after a restart, and one set with VIA is what the host sees when the key
    is pressed.

  \<^bold>\<open>Conventions.\<close> Machine integers are words of their width; C arrays are lists; \<open>None\<close> is an access outside an array, or another
  operation that C leaves undefined. Loops are \<open>for_upto\<close> or recursive functions with a termination proof. Only the loop over the waiting events of \<^verbatim>\<open>Tapping\<close> has a bound,
  the size of the ring; \<open>process_waiting_bound\<close> shows that a larger one gives the same result. Weak hooks
  that the keyboard does not define are the default ones. Static configuration (\<^verbatim>\<open>#define\<close>) is a record argument, or the value of the Q3 Max
  where the code is specific to it. Time is an argument of the function that reads the timer.

  \<^bold>\<open>Parameters.\<close> The flash functions of ChibiOS, the hooks around \<^verbatim>\<open>process_record\<close>, the code loaded by the host, the battery readings, the radio module, the driver of the LEDs,
  the animations and the levels of the pins are arguments. What is assumed of the flash is the locale \<open>efl_flash\<close>, which has an instance with the sectors of an STM32F401.

  \<^bold>\<open>Not modelled.\<close> The process chain of \<^verbatim>\<open>process_keycode\<close>, the modes of the mouse keys besides the default one (\<^verbatim>\<open>MK_3_SPEED\<close>, \<^verbatim>\<open>MK_COMBINED\<close>, \<^verbatim>\<open>MK_KINETIC_SPEED\<close>, \<^verbatim>\<open>MOUSEKEY_INERTIA\<close>), the tasks and initialization of \<^verbatim>\<open>keyboard.c\<close> besides \<^verbatim>\<open>matrix_task\<close> and the encoder, the
  drawing of RGB and LED matrix animations, audio, OLED, pointing devices, split keyboards, the radio module's packet format
  (\<^verbatim>\<open>lkbt51.c\<close>), power management, the Firmata library with its 7-bit encoding, other keyboards and keymaps, and platform drivers (registers, USB stacks,
  vendor libraries). The first group is program logic that remains to be done; the rest is I/O, data or third-party code.
\<close>

section \<open>The host, the keymap and the flash\<close>

text \<open>The message that writes two bytes of the EEPROM, as the host sends it to the command line.\<close>

definition eeprom_write_message :: "u8 \<Rightarrow> u8 \<Rightarrow> nat \<Rightarrow> u8 \<Rightarrow> u8 \<Rightarrow> u8 list" where
  "eeprom_write_message q cli_seq a x y = [q, QMKATA_ID_CLI, cli_seq, 0x82] @ u32_bytes (of_nat a) @ [2, x, y, 0, 0]"

lemma unat_of_nat_u32: "unat (of_nat a :: u32) = a" if "a < 2 ^ 32"
  using that unfolding unsigned_of_nat by (simp add: take_bit_eq_mod)

lemma eeprom_write_handled:
  assumes "a < 2 ^ 32" and "eeprom_update_word api a (bytes_u16 [x, y]) (eeprom s) = Some e"
  shows "set_message c api run env (eeprom_write_message q cli_seq a x y) s = Some ([cli_error q cli_seq 0], s\<lparr>eeprom := e\<rparr>)"
proof -
  have addr: "u32_at ([cli_seq, 0x82] @ u32_bytes (of_nat a) @ [2, x, y, 0, 0]) 2 = Some (of_nat a)"
    by (simp add: u32_at_def subarr_def)
  have val: "u32_at ([cli_seq, 0x82] @ u32_bytes (of_nat a) @ [2, x, y, 0, 0]) 7 = Some (bytes_u32 [x, y, 0, 0])"
    by (simp add: u32_at_def subarr_def u32_bytes_def)
  have len: "byte ([cli_seq, 0x82] @ u32_bytes (of_nat a) @ [2, x, y, 0, 0]) 6 = Some 2"
    by (simp add: byte_def u32_bytes_def)
  have word: "ucast (bytes_u32 [x, y, 0, 0]) = bytes_u16 [x, y]"
    by (rule bit_word_eqI) (auto simp: bytes_u32_def bytes_u16_def bit_simps)
  have "cli_eeprom c api q cli_seq True False ([cli_seq, 0x82] @ u32_bytes (of_nat a) @ [2, x, y, 0, 0]) s =
      Some ([cli_error q cli_seq 0], s\<lparr>eeprom := e\<rparr>)"
    using assms by (simp add: cli_eeprom_def addr val len cli_eeprom_update_def word unat_of_nat_u32 del: append_Cons append_Nil)
  then have "qmkata_set_cli c api q ([cli_seq, 0x82] @ u32_bytes (of_nat a) @ [2, x, y, 0, 0]) s = Some ([cli_error q cli_seq 0], s\<lparr>eeprom := e\<rparr>)"
    by (simp add: qmkata_set_cli_def byte_def Let_def)
  then show ?thesis
    by (simp add: eeprom_write_message_def qmkata_sysex_handler_def byte_def qmkata_constants u32_bytes_def)
qed

lemma memcpy_at_pair: "a + 1 < length m \<Longrightarrow> memcpy_at a [x, y] m = m[a := x, a + 1 := y]"
  by (rule nth_equalityI) (auto simp: nth_memcpy_at nth_list_update nth_Cons')

lemma ucast_mask_byte: "ucast ((v :: u16) AND 0xFF) = (ucast v :: u8)"
proof -
  have "v AND 0xFF = take_bit 8 v"
    by (simp add: take_bit_eq_mask mask_eq_exp_minus_1)
  then show ?thesis
    by (auto simp: bit_simps intro!: bit_word_eqI)
qed

text \<open>C15: A host that writes the two bytes of a keycode to the EEPROM with the command line sets the key, also after a restart; the other keys
  keep their keycodes.\<close>

theorem host_sets_key_over_eeprom:
  assumes laws: "backing_store_laws drv cfg valid cells opened" and settled: "wl_settled cfg valid cells opened (eeprom s)"
    and asserts: "dk_static_asserts (lsize cfg) c"
    and key: "l < DYNAMIC_KEYMAP_LAYER_COUNT c" "r < dk_config.MATRIX_ROWS c" "k < dk_config.MATRIX_COLS c" and stk: "8 \<le> length stk"
  shows "\<exists>s'. set_message c (wl_eeprom drv cfg) run env
      (eeprom_write_message q cli_seq (dynamic_keymap_key_to_eeprom_address c l r k) (ucast (drop_bit 8 v)) (ucast v)) s = Some ([cli_error q cli_seq 0], s') \<and>
    (\<forall>l' r' k'. keycode_at_keymap_location c (wl_eeprom drv cfg) l' r' k' (eeprom_driver_init drv cfg stk (power_cycle cfg (eeprom s'))) =
      (if (l', r', k') = (l, r, k) then Some v else keycode_at_keymap_location c (wl_eeprom drv cfg) l' r' k' (eeprom s)))"
proof -
  let ?api = "wl_eeprom drv cfg" and ?a = "dynamic_keymap_key_to_eeprom_address c l r k"
  note K = wl_keymap [OF laws asserts] and E = backing_store_laws.wl_eeprom_laws [OF laws]
  have slot: "valid_slot c (Key_slot l r k)"
    using key by simp
  have a: "?a = slot_addr c (Key_slot l r k)"
    by (simp add: key_slot_addr)
  have a2: "?a + 2 \<le> lsize cfg" and a32: "?a < 2 ^ 32"
    using keymap_eeprom.slot_range [OF K slot] eeprom_laws.size_bound [OF E] a by simp_all
  obtain e where e: "eeprom_update_word ?api ?a (bytes_u16 [ucast (drop_bit 8 v), ucast v]) (eeprom s) = Some e"
      "wl_settled cfg valid cells opened e" "cache e = memcpy_at ?a [ucast (drop_bit 8 v), ucast v] (cache (eeprom s))"
    using eeprom_laws.update_word [OF E settled a2, of "bytes_u16 [ucast (drop_bit 8 v), ucast v]"] by (auto simp: u16_bytes_of_list)
  let ?e = "eeprom_driver_init drv cfg stk (power_cycle cfg e)"
  have boot: "wl_settled cfg valid cells opened ?e" "cache ?e = cache e"
    using backing_store_laws.reboot_keeps [OF laws e(2) stk] by simp_all
  have length: "?a + 1 < length (cache (eeprom s))"
    using a2 eeprom_laws.length_mem [OF E settled] by simp
  then have put: "cache e = (cache (eeprom s))[?a := ucast (drop_bit 8 v), ?a + 1 := ucast (v AND 0xFF)]"
    unfolding e(3) by (simp add: memcpy_at_pair ucast_mask_byte)
  have get: "get_slot c ?api s' ?e = (if s' = Key_slot l r k then Some v else get_slot c ?api s' (eeprom s))" if "valid_slot c s'" for s'
    unfolding keymap_eeprom.get_slot_spec [OF K boot(1) that] keymap_eeprom.get_slot_spec [OF K settled that] boot(2) put a
    using be_at_put [of ?a "cache (eeprom s)" v] keymap_eeprom.be_at_other [OF K slot that] length a by auto
  have "keycode_at_keymap_location c ?api l' r' k' ?e =
      (if (l', r', k') = (l, r, k) then Some v else keycode_at_keymap_location c ?api l' r' k' (eeprom s))" for l' r' k'
    using get [of "Key_slot l' r' k'"] key by (auto simp: keycode_at_keymap_location_def)
  then show ?thesis
    using eeprom_write_handled [OF a32 e(1)] by (intro exI [of _ "s\<lparr>eeprom := e\<rparr>"]) simp
qed

theorem host_sets_key_over_eeprom_witness:
  "\<exists>s'. set_message q3_keymap_config (wl_eeprom (mock_backing_store (q3_max_config Write2)) (q3_max_config Write2)) (\<lambda>_ s. (0, s)) no_env
      (eeprom_write_message 1 2 (dynamic_keymap_key_to_eeprom_address q3_keymap_config 0 1 2) 0x12 0x34)
      (qmkata_boot (blank (q3_max_config Write2))) = Some ([cli_error 1 2 0], s') \<and>
    keycode_at_keymap_location q3_keymap_config (wl_eeprom (mock_backing_store (q3_max_config Write2)) (q3_max_config Write2)) 0 1 2
      (eeprom_driver_init (mock_backing_store (q3_max_config Write2)) (q3_max_config Write2) (replicate 8 0) (power_cycle (q3_max_config Write2) (eeprom s'))) = Some 0x1234"
proof -
  have settled: "wl_settled (q3_max_config Write2) (mock_valid (q3_max_config Write2)) mock_cells mock_opened
      (eeprom (qmkata_boot (blank (q3_max_config Write2))))"
    using blank_settled [OF q3_max_config_ok] by (simp add: qmkata_boot_def)
  have key: "0 < DYNAMIC_KEYMAP_LAYER_COUNT q3_keymap_config" "1 < dk_config.MATRIX_ROWS q3_keymap_config" "2 < dk_config.MATRIX_COLS q3_keymap_config"
    by (simp_all add: q3_keymap_config_def)
  have stk: "8 \<le> length (replicate 8 (0 :: u8))"
    by simp
  have bytes: "ucast (drop_bit 8 (0x1234 :: u16)) = (0x12 :: u8)" "ucast (0x1234 :: u16) = (0x34 :: u8)"
    by simp_all
  note set = host_sets_key_over_eeprom [OF mock_laws [OF q3_max_config_ok] settled q3_keymap_asserts key stk,
      where run = "\<lambda>_ s. (0, s)" and env = no_env and q = 1 and cli_seq = 2 and v = "0x1234"]
  show ?thesis
    using set [unfolded bytes] by (elim ex_forward conj_forward) simp_all
qed

section \<open>The keymap tool, the keymap and the host\<close>

text \<open>A key without modifiers that is pressed and released, in a state without one-shot layer: what the host sees.\<close>

lemma key_press_release:
  assumes hooks: "plain_hooks env" and s: "host_knows m s" "layers_ok (matrix env) encoders (layers_of (util s))" "\<not> disable_action_cache s" "\<not> is_oneshot_layer_active (util s)"
    and r: "IS_EVENT (event r)" "pressed (event r)" "has_entry (matrix env) encoders (key (event r))"
    and a: "a = layer_switch_get_action (afk env) (key (event r)) (layers_of (util s))" "action_kind_id a \<in> {ACT_LMODS, ACT_RMODS}"
      "hand_mods ACT_LMODS a = 0" "IS_BASIC_KEYCODE (ucast (key_code a))"
    and down: "key_code a \<notin> down s" "report_fits m (insert (key_code a) (down s))"
    and s1: "s1 = snd (process_record env r s)" and s2: "s2 = snd (process_record env (release_record r) s1)"
  shows "seen m s1 = seen m s @ [insert (key_code a) (down s)]" "seen m s2 = seen m s1 @ [down s]"
proof -
  let ?k = "key (event r)" and ?l = "layer_switch_get_layer (afk env) (key (event r)) (layers_of (util s))"
  have q: "process_record_quantum env r s = (True, s)" and post: "post_process_record_quantum env r s = s" for r s
    using hooks by (simp_all add: plain_hooks_def)
  have "s1 = register_code env (key_code a) (remember_layer env r s)"
    using press_executes [OF hooks s(4,3) r(1,2)] r(2) by (simp add: s1 key_action [OF a(2,3)] flip: a(1))
  with register_basic [of m "remember_layer env r s" "key_code a" env] s(1) down a(4)
  have p: "host_knows m s1" "Action.down s1 = insert (key_code a) (Action.down s)" "seen m s1 = seen m s @ [insert (key_code a) (Action.down s)]"
    by (simp_all add: remember_knows)
  then show "seen m s1 = seen m s @ [insert (key_code a) (Action.down s)]"
    by simp
  have rem: "remembers (matrix env) encoders ?k ?l s1"
    unfolding s1 by (rule press_remembers [OF plain_silent [OF hooks] r(3) s(2,3) r(1,2) refl q])
  have rel: "IS_EVENT (event (release_record r))" "\<not> pressed (event (release_record r))" "key (event (release_record r)) = ?k"
    using r by (simp_all add: release_record_def IS_EVENT_def)
  have "s2 = unregister_code env (key_code a) s1"
    using release_executes [OF rem rel q] post rel(2) by (simp add: s2 key_action [OF a(2,3)] flip: a(1) layer_switch_get_action_def)
  then show "seen m s2 = seen m s1 @ [Action.down s]"
    using unregister_basic(3) [OF p(1) a(4), of env] p(2) down(1) by simp
qed

lemma plain_keycode_action:
  assumes "IS_BASIC_KEYCODE (ucast (v :: u8))" and "keycode_config kcfg (ucast v) = ucast v" and "a = action_for_keycode kcfg (ucast v)"
  shows "a = ucast v" "key_code a = v" "action_kind_id a \<in> {ACT_LMODS, ACT_RMODS}" "hand_mods ACT_LMODS a = 0" "a \<noteq> ACTION_TRANSPARENT"
proof -
  show a: "a = ucast v"
    using assms by (simp add: action_for_keycode_def ACTION_KEY_def ACTION_def ACT_LMODS_def)
  show "key_code a = v"
    unfolding a key_code_def by (rule bit_word_eqI) (simp add: bit_simps)
  have kind: "drop_bit 12 (ucast v :: u16) = 0" "drop_bit 8 (ucast v :: u16) = 0"
    by (rule bit_word_eqI, simp add: bit_simps)+
  then show "action_kind_id a \<in> {ACT_LMODS, ACT_RMODS}" "hand_mods ACT_LMODS a = 0"
    by (simp_all add: a hand_mods_def action_kind_id_def ACT_LMODS_def key_mods_def)
  show "a \<noteq> ACTION_TRANSPARENT"
    using assms(1) by (auto simp: a ACTION_TRANSPARENT_def IS_BASIC_KEYCODE_def word_le_nat_alt)
qed

lemma topmost_layer:
  assumes "l < MAX_LAYER" and "bit (layer_state s OR default_layer_state s) l" and "\<forall>i>l. \<not> bit (layer_state s OR default_layer_state s) i" and "f l k \<noteq> ACTION_TRANSPARENT"
  shows "layer_switch_get_action f k s = f l k"
proof -
  let ?S = "{i. i < MAX_LAYER \<and> bit (layer_state s OR default_layer_state s) i \<and> f i k \<noteq> ACTION_TRANSPARENT}"
  have "l \<in> ?S"
    using assms by simp
  moreover have "Max ?S = l"
    using assms by (intro Max_eqI) (auto simp: not_less [symmetric])
  ultimately have "layer_switch_loop f k (layer_state s OR default_layer_state s) MAX_LAYER = l"
    using layer_switch_loop_spec [of f k "layer_state s OR default_layer_state s" MAX_LAYER] by (auto simp: Let_def)
  then show ?thesis
    using assms(1) by (simp add: layer_switch_get_action_def layer_switch_get_layer_def MAX_LAYER_def unsigned_of_nat take_bit_eq_mod)
qed

text \<open>The lookup of keys in the keymap of the EEPROM.\<close>

definition keymap_actions :: "dk_config \<Rightarrow> 'e eeprom_api \<Rightarrow> keymap_config_t \<Rightarrow> 'e \<Rightarrow> nat \<Rightarrow> keypos_t \<Rightarrow> u16" where
  "keymap_actions c api kcfg e l k = (case action_for_key c api kcfg l k e of Some a \<Rightarrow> a | None \<Rightarrow> 0)"

text \<open>C4: A key that is given a keycode with a message of VIA: pressing that key, with its layer on top, makes the host see the keycode go down, and releasing it makes it go up.\<close>

theorem via_key_reaches_host:
  assumes laws: "backing_store_laws drv cfg valid cells opened" and vs: "via_setup_ok (lsize cfg) vs" and stk: "8 \<le> length stk"
    and s: "via_settled cfg valid cells opened vs s"
    and d: "32 \<le> length d" "d ! 0 = id_dynamic_keymap_set_keycode" "d ! 4 = 0" "IS_BASIC_KEYCODE (ucast (d ! 5))" "keycode_config kcfg (ucast (d ! 5)) = ucast (d ! 5)"
    and key: "unat (d ! 1) < DYNAMIC_KEYMAP_LAYER_COUNT (via_dk vs)" "unat (d ! 2) < dk_config.MATRIX_ROWS (via_dk vs)" "unat (d ! 3) < dk_config.MATRIX_COLS (via_dk vs)"
    and hooks: "plain_hooks env" and a: "host_knows m a" "layers_ok (matrix env) encoders (layers_of (util a))" "\<not> disable_action_cache a" "\<not> is_oneshot_layer_active (util a)"
      "d ! 5 \<notin> down a" "report_fits m (insert (d ! 5) (down a))"
    and layer: "unat (d ! 1) < MAX_LAYER" "bit (layer_state (layers_of (util a)) OR default_layer_state (layers_of (util a))) (unat (d ! 1))"
      "\<forall>i>unat (d ! 1). \<not> bit (layer_state (layers_of (util a)) OR default_layer_state (layers_of (util a))) i"
    and r: "IS_EVENT (event r)" "pressed (event r)" "key (event r) = \<lparr>col = unat (d ! 3), row = unat (d ! 2)\<rparr>" "has_entry (matrix env) encoders (key (event r))"
  shows "\<exists>s1 env' a1. raw_hid_receive vs (wl_eeprom drv cfg) stk venv d s = Some (Raw_hid_send d, s1) \<and>
    env' = env\<lparr>afk := keymap_actions (via_dk vs) (wl_eeprom drv cfg) kcfg (via_nv s1)\<rparr> \<and> a1 = snd (process_record env' r a) \<and>
    seen m a1 = seen m a @ [insert (d ! 5) (down a)] \<and> seen m (snd (process_record env' (release_record r) a1)) = seen m a1 @ [down a]"
proof -
  let ?api = "wl_eeprom drv cfg" and ?dk = "via_dk vs" and ?k = "key (event r)"
  note D = wl_device [OF laws vs stk] and K = wl_keymap [OF laws, of "via_dk vs"]
  have asserts: "dk_static_asserts (lsize cfg) ?dk"
    using vs by (simp add: via_setup_ok_def)
  let ?slot = "Key_slot (unat (d ! 1)) (unat (d ! 2)) (unat (d ! 3))"
  have v: "push_bit 8 (ucast (d ! 4)) OR ucast (d ! 5) = (ucast (d ! 5) :: u16)"
    by (simp add: d(3))
  obtain e where e: "dynamic_keymap_set_keycode ?dk ?api (unat (d ! 1)) (unat (d ! 2)) (unat (d ! 3)) (ucast (d ! 5)) (via_nv s) = Some e"
      "\<forall>x. valid_slot ?dk x \<longrightarrow> get_slot ?dk ?api x e = (if x = ?slot then Some (ucast (d ! 5)) else get_slot ?dk ?api x (via_nv s))"
    using keymap_eeprom.set_slot_get [OF K [OF asserts], of "via_nv s" ?slot "ucast (d ! 5)"] s key by (auto simp: via_settled_def)
  have get: "dynamic_keymap_get_keycode ?dk ?api (unat (d ! 1)) (unat (d ! 2)) (unat (d ! 3)) e = Some (ucast (d ! 5))"
    using e(2) [rule_format, of ?slot] key by simp
  let ?s1 = "set_nv e s" and ?env = "env\<lparr>afk := keymap_actions ?dk ?api kcfg e\<rparr>"
  have recv: "raw_hid_receive vs ?api stk venv d s = Some (Raw_hid_send d, ?s1)"
    using via_device.receive_set_keycode [OF D d(1,2)] e(1) v by simp
  have act: "keymap_actions ?dk ?api kcfg e (unat (d ! 1)) ?k = action_for_keycode kcfg (ucast (d ! 5))"
    using get key r(3) by (simp add: keymap_actions_def action_for_key_def keymap_key_to_keycode_def keycode_at_keymap_location_def)
  note p = plain_keycode_action [OF d(4,5) refl]
  have top: "action_for_keycode kcfg (ucast (d ! 5)) = layer_switch_get_action (afk ?env) ?k (layers_of (util a))"
    using topmost_layer [OF layer, of "keymap_actions ?dk ?api kcfg e" ?k] act p(5) by simp
  have hooks': "plain_hooks ?env"
    using hooks by (simp add: plain_hooks_def)
  note k = key_press_release [OF hooks' a(1) _ a(3,4) r(1,2) _ top p(3,4) _ _ _ refl refl, unfolded p(2), of encoders]
  show ?thesis
    using recv k a r(4) d(4) by (intro exI [of _ ?s1] exI [of _ ?env] exI [of _ "snd (process_record ?env r a)"]) simp
qed

theorem via_key_reaches_host_witness:
  "\<exists>s1. raw_hid_receive q3_via_setup (wl_eeprom (mock_backing_store (q3_max_config Write4)) (q3_max_config Write4)) (replicate 8 0) q3_via_env
      ([0x05, 0, 1, 2, 0, 4] @ replicate 26 0) (via_boot (blank (q3_max_config Write4))) = Some (Raw_hid_send ([0x05, 0, 1, 2, 0, 4] @ replicate 26 0), s1) \<and>
    seen False (snd (process_record (default_env (keymap_actions q3_keymap_config (wl_eeprom (mock_backing_store (q3_max_config Write4)) (q3_max_config Write4))
      demo_swaps (via_nv s1))) (key_record 2 True) (actions_boot False))) = [{}, {4}]"
proof -
  let ?d = "[0x05, 0, 1, 2, 0, 4] @ replicate 26 0 :: u8 list" and ?a = "actions_boot False" and ?r = "key_record 2 True" and ?e = "default_env (\<lambda>_ _. 0)"
  have stk: "8 \<le> length (replicate 8 (0 :: u8))"
    by simp
  have d: "32 \<le> length ?d" "?d ! 0 = id_dynamic_keymap_set_keycode" "?d ! 4 = 0" "IS_BASIC_KEYCODE (ucast (?d ! 5))" "keycode_config demo_swaps (ucast (?d ! 5)) = ucast (?d ! 5)"
    by (simp_all add: via_ids IS_BASIC_KEYCODE_def keycode_config_def kc_defs)
  have key: "unat (?d ! 1) < DYNAMIC_KEYMAP_LAYER_COUNT (via_dk q3_via_setup)" "unat (?d ! 2) < dk_config.MATRIX_ROWS (via_dk q3_via_setup)"
    "unat (?d ! 3) < dk_config.MATRIX_COLS (via_dk q3_via_setup)"
    by (simp_all add: q3_via_setup_def q3_keymap_config_def)
  have hooks: "plain_hooks ?e"
    by (simp add: plain_hooks_def default_env_def)
  have a: "layers_ok (matrix ?e) 1 (layers_of (util ?a))" "\<not> disable_action_cache ?a" "\<not> is_oneshot_layer_active (util ?a)" "?d ! 5 \<notin> down ?a" "report_fits False (insert (?d ! 5) (down ?a))"
    using fresh_layers_ok by (simp_all add: boot_down report_fits_def KEYBOARD_REPORT_KEYS_def)
      (simp_all add: default_env_def actions_boot_def au_boot_def is_oneshot_layer_active_def get_oneshot_layer_state_def)
  have layer: "unat (?d ! 1) < MAX_LAYER" "bit (layer_state (layers_of (util ?a)) OR default_layer_state (layers_of (util ?a))) (unat (?d ! 1))"
    "\<forall>i>unat (?d ! 1). \<not> bit (layer_state (layers_of (util ?a)) OR default_layer_state (layers_of (util ?a))) i"
    by (simp_all add: MAX_LAYER_def actions_boot_def fresh_layers_def bit_1_iff)
  have r: "IS_EVENT (event ?r)" "pressed (event ?r)" "key (event ?r) = \<lparr>col = unat (?d ! 3), row = unat (?d ! 2)\<rparr>" "has_entry (matrix ?e) 1 (key (event ?r))"
    by (simp_all add: key_record_def new_record_def IS_EVENT_def has_entry_def default_env_def q3_matrix_def)
  have e: "?e\<lparr>afk := f\<rparr> = default_env f" for f
    by (simp add: default_env_def)
  show ?thesis
    using via_key_reaches_host [OF mock_laws [OF q3_max_config_ok] q3_via_setup_ok stk via_boot_settled d key hooks boot_knows a layer r, of Write4 q3_via_env]
    by (auto simp: e boot_seen boot_down q3_via_setup_def)
qed

end
